(* ===== verification/Prelude.thy ===== *)
theory Prelude
  imports Main "HOL-Library.Monad_Syntax" "HOL-Library.Tree" "HOL-Library.Word"
    "HOL-Library.Char_ord" "HOL-Library.List_Lexorder" "HOL-Library.Product_Lexorder"
begin

text \<open>
  Notions shared by every component of the model: addresses, the result of code that may
  abort, the string comparison of the C library, lists used as the code uses its intrusive
  lists, and the lemmas and collections that carry the component proofs.

  A function of the code that may reach \<open>BUG()\<close> (or an access the language leaves
  undefined) returns an \<open>option\<close>: \<open>None\<close> is the abort of the process and
  \<open>Some\<close> is the normal return, with the new state where there is one. A \<open>do\<close> block
  is the sequence of statements of the code.
\<close>

named_theorems inv_defs \<open>the invariants of the components\<close>
named_theorems op_defs \<open>the one-line operations that proofs always unfold\<close>

type_synonym addr = nat

abbreviation (input) NULL :: addr where "NULL \<equiv> 0"

subsection \<open>Machine arithmetic written out\<close>

definition wrap64 :: "nat \<Rightarrow> nat" where
  "wrap64 n = n mod 2 ^ 64"

lemma wrap64_id [simp]: "n < 2 ^ 64 \<Longrightarrow> wrap64 n = n"
  by (simp add: wrap64_def)

lemma wrap64_bound [simp]: "wrap64 n < 2 ^ 64"
  by (simp add: wrap64_def)

definition wrap32 :: "nat \<Rightarrow> nat" where
  "wrap32 n = n mod 2 ^ 32"

lemma wrap32_id [simp]: "n < 2 ^ 32 \<Longrightarrow> wrap32 n = n"
  by (simp add: wrap32_def)

lemma wrap32_bound [simp]: "wrap32 n < 2 ^ 32"
  by (simp add: wrap32_def)

subsection \<open>The string comparison of the C library\<close>

text \<open>
  A C string is modelled by its characters before the terminating nul byte. \<open>strcmp\<close>
  returns a negative, zero or positive number; characters compare as unsigned bytes.
\<close>

fun strcmp :: "string \<Rightarrow> string \<Rightarrow> int" where
  "strcmp [] [] = 0"
| "strcmp [] (b # bs) = - 1"
| "strcmp (a # as) [] = 1"
| "strcmp (a # as) (b # bs) = (if a < b then - 1 else if b < a then 1 else strcmp as bs)"

lemma strcmp_neg: "strcmp x y < 0 \<longleftrightarrow> x < y"
  by (induction x y rule: strcmp.induct) auto

lemma strcmp_pos: "0 < strcmp x y \<longleftrightarrow> y < x"
  by (induction x y rule: strcmp.induct) auto

lemma strcmp_zero [simp]: "strcmp x y = 0 \<longleftrightarrow> x = y"
  using strcmp_neg [of x y] strcmp_pos [of x y]
  by (metis less_irrefl linorder_neqE_linordered_idom linorder_neq_iff)

lemma strcmp_same [simp]: "strcmp x x = 0"
  by simp

definition strncmp :: "string \<Rightarrow> string \<Rightarrow> nat \<Rightarrow> int" where
  "strncmp a b n = strcmp (take n a) (take n b)"

subsection \<open>Lists that find or append\<close>

text \<open>
  The code keeps many small intrusive lists, searched from the head with an early return
  and extended at the tail (\<open>slist_add_tail\<close>) when nothing matches.
\<close>

fun slist_find :: "('a \<Rightarrow> bool) \<Rightarrow> 'a list \<Rightarrow> 'a option" where
  "slist_find P [] = None"
| "slist_find P (x # xs) = (if P x then Some x else slist_find P xs)"

definition slist_add_tail :: "'a \<Rightarrow> 'a list \<Rightarrow> 'a list" where
  "slist_add_tail x xs = xs @ [x]"

definition slist_add :: "'a \<Rightarrow> 'a list \<Rightarrow> 'a list" where
  "slist_add x xs = x # xs"

definition slist_del :: "'a \<Rightarrow> 'a list \<Rightarrow> 'a list" where
  "slist_del x xs = remove1 x xs"

declare slist_add_tail_def [op_defs] slist_add_def [op_defs] slist_del_def [op_defs]

lemma slist_find_None: "slist_find P xs = None \<longleftrightarrow> (\<forall>x \<in> set xs. \<not> P x)"
  by (induction xs) auto

lemma slist_find_Some: "slist_find P xs = Some x \<Longrightarrow> x \<in> set xs \<and> P x"
  by (induction xs) (auto split: if_splits)

lemma slist_find_append:
  "slist_find P (xs @ ys) = (case slist_find P xs of None \<Rightarrow> slist_find P ys | Some x \<Rightarrow> Some x)"
  by (induction xs) auto

lemma slist_find_ex: "x \<in> set xs \<Longrightarrow> P x \<Longrightarrow> \<exists>y. slist_find P xs = Some y"
  by (induction xs) auto

lemma slist_find_conv: "slist_find P xs = find P xs"
  by (induction xs) auto

lemma slist_find_first:
  "slist_find P xs = Some x \<Longrightarrow> \<exists>ys zs. xs = ys @ x # zs \<and> P x \<and> (\<forall>y \<in> set ys. \<not> P y)"
proof (induction xs)
  case Nil
  then show ?case by simp
next
  case (Cons a xs)
  show ?case
  proof (cases "P a")
    case True
    with Cons.prems have "a # xs = [] @ x # xs \<and> P x \<and> (\<forall>y \<in> set []. \<not> P y)" by simp
    then show ?thesis by blast
  next
    case False
    with Cons obtain ys zs where "xs = ys @ x # zs" "P x" "\<forall>y \<in> set ys. \<not> P y" by auto
    with False have "a # xs = (a # ys) @ x # zs \<and> P x \<and> (\<forall>y \<in> set (a # ys). \<not> P y)" by simp
    then show ?thesis by blast
  qed
qed

subsection \<open>Sorted lists without repetition\<close>

lemma sorted_wrt_less_distinct:
  fixes f :: "'a \<Rightarrow> 'k::linorder"
  shows "sorted_wrt (<) (map f xs) \<Longrightarrow> distinct xs"
  by (simp add: strict_sorted_iff distinct_map)

lemma sorted_wrt_less_inj:
  fixes f :: "'a \<Rightarrow> 'k::linorder"
  assumes "sorted_wrt (<) (map f xs)" "x \<in> set xs" "y \<in> set xs" "f x = f y"
  shows "x = y"
  using assms by (auto simp: strict_sorted_iff distinct_map dest: inj_onD)

lemma sorted_wrt_less_unique:
  fixes xs ys :: "'k::linorder list"
  assumes "sorted_wrt (<) xs" "sorted_wrt (<) ys" "set xs = set ys"
  shows "xs = ys"
  using assms by (simp add: sorted_distinct_set_unique strict_sorted_iff)

subsection \<open>Bind of the option monad\<close>

lemma bind_Some_iff: "Option.bind m f = Some y \<longleftrightarrow> (\<exists>x. m = Some x \<and> f x = Some y)"
  by (cases m) auto

lemma bind_None_iff: "Option.bind m f = None \<longleftrightarrow> m = None \<or> (\<exists>x. m = Some x \<and> f x = None)"
  by (cases m) auto

lemmas bind_splits = bind_Some_iff bind_None_iff

lemma opt_eqI: "(\<And>d. a = Some d \<longleftrightarrow> b = Some d) \<Longrightarrow> a = b"
  by (cases a; cases b) auto

text \<open>\<open>BUG_ON(c)\<close> aborts when its condition holds.\<close>

definition BUG_ON :: "bool \<Rightarrow> unit option" where
  "BUG_ON c = (if c then None else Some ())"

lemma BUG_ON_simps [simp]:
  "BUG_ON False = Some ()" "BUG_ON True = None"
  "BUG_ON c = Some u \<longleftrightarrow> \<not> c" "BUG_ON c = None \<longleftrightarrow> c"
  by (auto simp: BUG_ON_def)

end
