(* ===== verification/Ext_Env.thy ===== *)
theory Ext_Env
  imports Prelude
begin

text \<open>
  The code outside the repository that the program calls, as one record of parameters:
  the red-black tree and rounding helpers of clib, the memory mappings of the kernel and
  the sizes of the structures (they hold clib and pthread types, so the repository does
  not fix them). \<open>env_ok\<close> states what that code documents and the program relies on.
\<close>

datatype ctype =
    SzSinode | SzNameList | SzSibuf | SzResfile | SzTypeNode | SzVarNode | SzFuncNode
  | SzTypenodeSb | SzSrc | SzVarList | SzCodePath | SzAttrList | SzAttrvalList

record env =
  rb_insert_color :: "addr tree \<Rightarrow> addr tree"
  clib_round_up :: "nat \<Rightarrow> nat \<Rightarrow> nat"
  clib_round_down :: "nat \<Rightarrow> nat \<Rightarrow> nat"
  mmap_anon :: "addr \<Rightarrow> nat \<Rightarrow> bool"
  csize :: "ctype \<Rightarrow> nat"

text \<open>
  Linking a node and calling \<open>rb_insert_color\<close> recolours and rotates: the in-order
  sequence of the tree stays the same. \<open>clib_round_up\<close> and \<open>clib_round_down\<close> give the
  next multiple in their direction.
\<close>

definition env_ok :: "env \<Rightarrow> bool" where
  "env_ok E \<longleftrightarrow>
     (\<forall>t. inorder (rb_insert_color E t) = inorder t) \<and>
     (\<forall>x a. 0 < a \<longrightarrow> a dvd clib_round_up E x a \<and> x \<le> clib_round_up E x a
        \<and> clib_round_up E x a < x + a) \<and>
     (\<forall>x a. 0 < a \<longrightarrow> a dvd clib_round_down E x a \<and> clib_round_down E x a \<le> x
        \<and> x < clib_round_down E x a + a) \<and>
     (\<forall>c. 0 < csize E c)"

lemma env_ok_rb: "env_ok E \<Longrightarrow> inorder (rb_insert_color E t) = inorder t"
  by (simp add: env_ok_def)

lemma env_ok_up:
  assumes "env_ok E" "0 < a"
  shows "a dvd clib_round_up E x a" "x \<le> clib_round_up E x a" "clib_round_up E x a < x + a"
  using assms by (auto simp: env_ok_def)

lemma env_ok_down:
  assumes "env_ok E" "0 < a"
  shows "a dvd clib_round_down E x a" "clib_round_down E x a \<le> x"
    "x < clib_round_down E x a + a"
  using assms by (auto simp: env_ok_def)

lemma env_ok_size: "env_ok E \<Longrightarrow> 0 < csize E c"
  by (simp add: env_ok_def)

lemma round_up_dvd:
  assumes "env_ok E" "0 < a" "a dvd x"
  shows "clib_round_up E x a = x"
proof -
  from assms(3) obtain k where k: "x = a * k" by (auto simp: dvd_def)
  from env_ok_up(1) [OF assms(1,2)] obtain j where j: "clib_round_up E x a = a * j"
    by (auto simp: dvd_def)
  from env_ok_up(2) [OF assms(1,2), of x] k j have "a * k \<le> a * j" by simp
  then have "k \<le> j" using assms(2) by simp
  moreover from env_ok_up(3) [OF assms(1,2), of x] k j have "a * j < a * (k + 1)" by simp
  then have "j < k + 1" by (simp only: mult_less_cancel1)
  ultimately show ?thesis using k j by simp
qed

lemma round_up_unique:
  assumes "env_ok E" "0 < a" "a dvd y" "x \<le> y" "y < x + a"
  shows "clib_round_up E x a = y"
proof -
  from assms(3) obtain k where k: "y = a * k" by (auto simp: dvd_def)
  from env_ok_up(1) [OF assms(1,2)] obtain j where j: "clib_round_up E x a = a * j"
    by (auto simp: dvd_def)
  have "a * j < a * (k + 1)"
    using env_ok_up(3) [OF assms(1,2), of x] assms(4) k j by simp
  moreover have "a * k < a * (j + 1)"
    using env_ok_up(2) [OF assms(1,2), of x] assms(5) k j by simp
  ultimately have "j < k + 1" "k < j + 1"
    using assms(2) by (simp_all only: mult_less_cancel1)
  then show ?thesis using k j by simp
qed

subsection \<open>A concrete environment\<close>

text \<open>
  An instance for the witnesses: rounding by division, mappings that always succeed, one
  size for every structure and a tree operation that rotates a right-leaning root to the
  left (so it is not the identity).
\<close>

fun rotate_root :: "'a tree \<Rightarrow> 'a tree" where
  "rotate_root (Node l a (Node m b r)) = Node (Node l a m) b r"
| "rotate_root t = t"

lemma inorder_rotate_root: "inorder (rotate_root t) = inorder t"
  by (cases t rule: rotate_root.cases) auto

definition env0 :: env where
  "env0 = \<lparr>rb_insert_color = rotate_root,
     clib_round_up = (\<lambda>x a. (x + (a - 1)) div a * a),
     clib_round_down = (\<lambda>x a. x div a * a),
     mmap_anon = (\<lambda>_ _. True), csize = (\<lambda>_. 64)\<rparr>"

lemma env0_simps [simp]:
  "rb_insert_color env0 t = rotate_root t"
  "clib_round_up env0 x a = (x + (a - 1)) div a * a"
  "clib_round_down env0 x a = x div a * a"
  "mmap_anon env0 p n = True" "csize env0 c = 64"
  by (simp_all add: env0_def)

lemma round_up_bounds:
  fixes x a :: nat
  assumes "0 < a"
  shows "x \<le> (x + (a - 1)) div a * a" "(x + (a - 1)) div a * a < x + a"
proof -
  let ?q = "(x + (a - 1)) div a"
  have eq: "?q * a + (x + (a - 1)) mod a = x + (a - 1)" by (simp add: div_mult_mod_eq)
  have "(x + (a - 1)) mod a < a" using assms by simp
  with eq assms show "x \<le> ?q * a" by linarith
  from eq assms show "?q * a < x + a" by linarith
qed

lemma round_down_bounds:
  fixes x a :: nat
  assumes "0 < a"
  shows "x div a * a \<le> x" "x < x div a * a + a"
proof -
  have eq: "x div a * a + x mod a = x" by (simp add: div_mult_mod_eq)
  moreover have "x mod a < a" using assms by simp
  ultimately show "x div a * a \<le> x" "x < x div a * a + a" by linarith+
qed

lemma env0_ok: "env_ok env0"
  unfolding env_ok_def env0_simps
  by (intro conjI allI impI;
      (rule inorder_rotate_root dvd_triv_right
       | erule round_up_bounds round_down_bounds | simp))

end
