(* ===== verification/Src_Buf.thy ===== *)
theory Src_Buf
  imports Ext_Env
begin

text \<open>
  core/si_src.c: the memory area of the project's data. One region, mapped in blocks of
  \<open>SRC_BUF_BLKSZ\<close> bytes between \<open>SRC_BUF_START\<close> and \<open>SRC_BUF_END\<close>, handed out by a cursor
  that only moves forward; the used part is written to \<open>src.saved\<close> and read back at the
  same address. Addresses and lengths are numbers below \<open>2 ^ 64\<close>; where the code adds
  them, the wrap-around of its 64-bit arithmetic is written out.
\<close>

definition SRC_BUF_START :: nat where "SRC_BUF_START = 0x100000000"
definition SRC_BUF_BLKSZ :: nat where "SRC_BUF_BLKSZ = 0x10000000"
definition SRC_BUF_END :: nat where "SRC_BUF_END = 0x300000000"
definition sizeof_long :: nat where "sizeof_long = 8"

lemmas src_buf_consts = SRC_BUF_START_def SRC_BUF_BLKSZ_def SRC_BUF_END_def sizeof_long_def

text \<open>The file-level variables of core/si_src.c.\<close>

record src_buf =
  buf_cur :: nat
  buf_total_size :: nat
  src_modified :: bool

definition buf_restore :: "src_buf \<Rightarrow> src_buf" where
  "buf_restore b = b\<lparr>buf_cur := SRC_BUF_START, buf_total_size := 0\<rparr>"

text \<open>Returns \<open>0\<close> or \<open>- 1\<close>; running past the end of the region is \<open>BUG_ON\<close>.\<close>

definition buf_expanded :: "env \<Rightarrow> nat \<Rightarrow> src_buf \<Rightarrow> (int \<times> src_buf) option" where
  "buf_expanded E expand_len b =
     (let len = clib_round_up E expand_len SRC_BUF_BLKSZ in
      do {
        BUG_ON (SRC_BUF_END < wrap64 (SRC_BUF_START + buf_total_size b + len));
        if \<not> mmap_anon E (SRC_BUF_START + buf_total_size b) len then Some (- 1, b)
        else Some (0, b\<lparr>buf_total_size := buf_total_size b + len\<rparr>)
      })"

text \<open>\<open>src_buf_get\<close>: the address handed out and the new state.\<close>

definition src_buf_get :: "env \<Rightarrow> nat \<Rightarrow> src_buf \<Rightarrow> (addr \<times> src_buf) option" where
  "src_buf_get E len b =
     do {
       b \<leftarrow> (if SRC_BUF_START + buf_total_size b < wrap64 (len + buf_cur b)
            then do {
              (err, b) \<leftarrow> buf_expanded E SRC_BUF_BLKSZ b;
              BUG_ON (err \<noteq> 0);
              Some b
            }
            else Some b);
       BUG_ON (SRC_BUF_START + buf_total_size b < wrap64 (len + buf_cur b));
       let ret = buf_cur b;
       let b = b\<lparr>buf_cur := wrap64 (buf_cur b + len)\<rparr>;
       let b = b\<lparr>buf_cur := clib_round_up E (buf_cur b) sizeof_long\<rparr>;
       let b = (if \<not> src_modified b then b\<lparr>src_modified := True\<rparr> else b);
       Some (ret, b)
     }"

text \<open>The first lines of \<open>si_src_setup\<close> that touch the region.\<close>

definition src_buf_setup :: "env \<Rightarrow> src_buf \<Rightarrow> (int \<times> src_buf) option" where
  "src_buf_setup E b = buf_expanded E SRC_BUF_BLKSZ (b\<lparr>buf_cur := SRC_BUF_START\<rparr>)"

text \<open>
  The fault handler's \<open>src_buf_fix\<close>: a write fault inside the mapped part makes it
  writable again; \<open>mprotect_ok\<close> is whether \<open>mprotect\<close> succeeds.
\<close>

definition src_buf_fix :: "bool \<Rightarrow> addr \<Rightarrow> src_buf \<Rightarrow> int \<times> src_buf" where
  "src_buf_fix mprotect_ok fault_addr b =
     (if SRC_BUF_START \<le> fault_addr \<and> fault_addr < SRC_BUF_START + buf_total_size b
      then if \<not> mprotect_ok then (- 1, b) else (0, b\<lparr>src_modified := True\<rparr>)
      else (0, b))"

text \<open>The \<open>readmode\<close> command flips the flag.\<close>

definition cmd_readmode_cb :: "src_buf \<Rightarrow> src_buf" where
  "cmd_readmode_cb b = b\<lparr>src_modified := \<not> src_modified b\<rparr>"

text \<open>
  \<open>do_flush_outfile\<close> writes the \<open>buf_cur - buf_start\<close> bytes from the start when there is a
  resfile and the flag is set: the number of bytes written, or nothing written.
\<close>

definition flush_len :: "bool \<Rightarrow> src_buf \<Rightarrow> nat option" where
  "flush_len resfiles_empty b =
     (if resfiles_empty then None
      else if \<not> src_modified b then None
      else Some (buf_cur b - SRC_BUF_START))"

text \<open>
  The part of \<open>do_load_srcfile\<close> that rebuilds the region from a file of \<open>readlen\<close> bytes.
\<close>

definition load_region :: "env \<Rightarrow> nat \<Rightarrow> src_buf \<Rightarrow> src_buf option" where
  "load_region E readlen b =
     do {
       BUG_ON (SRC_BUF_END - SRC_BUF_START \<le> readlen);
       (err, b) \<leftarrow> buf_expanded E readlen (buf_restore b);
       BUG_ON (err \<noteq> 0);
       Some (b\<lparr>buf_cur := SRC_BUF_START + readlen\<rparr>)
     }"

subsection \<open>The invariant of the region\<close>

definition src_buf_inv :: "src_buf \<Rightarrow> bool" where
  "src_buf_inv b \<longleftrightarrow>
     SRC_BUF_START \<le> buf_cur b \<and> buf_cur b \<le> SRC_BUF_START + buf_total_size b \<and>
     SRC_BUF_START + buf_total_size b \<le> SRC_BUF_END \<and>
     SRC_BUF_BLKSZ dvd buf_total_size b \<and> sizeof_long dvd buf_cur b"

declare src_buf_inv_def [inv_defs]

lemma blksz_aligned: "sizeof_long dvd SRC_BUF_START" "sizeof_long dvd SRC_BUF_BLKSZ"
  by (simp_all add: src_buf_consts)

lemma inv_total_aligned: "src_buf_inv b \<Longrightarrow> sizeof_long dvd SRC_BUF_START + buf_total_size b"
  unfolding src_buf_inv_def by (meson blksz_aligned dvd_add dvd_trans)

lemma buf_expanded_Some:
  assumes "buf_expanded E n b = Some (err, b')" "env_ok E" "src_buf_inv b"
    "n \<le> SRC_BUF_END"
  shows "src_buf_inv b'" "buf_cur b' = buf_cur b"
    "err = 0 \<Longrightarrow> buf_total_size b' = buf_total_size b + clib_round_up E n SRC_BUF_BLKSZ"
    "err \<noteq> 0 \<Longrightarrow> b' = b"
proof -
  let ?len = "clib_round_up E n SRC_BUF_BLKSZ"
  have blk: "0 < SRC_BUF_BLKSZ" by (simp add: src_buf_consts)
  have lt: "?len < n + SRC_BUF_BLKSZ" by (rule env_ok_up(3) [OF assms(2) blk])
  have small: "SRC_BUF_START + buf_total_size b + ?len < 2 ^ 64"
    using lt assms(3,4) by (simp add: src_buf_inv_def src_buf_consts)
  have dvd: "SRC_BUF_BLKSZ dvd ?len" by (rule env_ok_up(1) [OF assms(2) blk])
  have lim: "SRC_BUF_START + buf_total_size b + ?len \<le> SRC_BUF_END"
    using assms(1) small by (auto simp: buf_expanded_def Let_def bind_splits)
  show "src_buf_inv b'" "buf_cur b' = buf_cur b"
    "err = 0 \<Longrightarrow> buf_total_size b' = buf_total_size b + ?len" "err \<noteq> 0 \<Longrightarrow> b' = b"
    using assms(1,3) dvd lim
    by (auto simp: buf_expanded_def Let_def bind_splits src_buf_inv_def dvd_add
        split: if_splits)
qed

subsection \<open>One allocation\<close>

text \<open>The lengths the program asks for: far below the width of an address.\<close>

definition len_ok :: "nat \<Rightarrow> bool" where
  "len_ok len \<longleftrightarrow> len \<le> SRC_BUF_END"

lemma cur_no_wrap: "src_buf_inv b \<Longrightarrow> len_ok len \<Longrightarrow> wrap64 (len + buf_cur b) = len + buf_cur b"
  by (rule wrap64_id) (simp add: src_buf_inv_def len_ok_def src_buf_consts)

lemma advance_inv:
  assumes "env_ok E" "src_buf_inv b" "len + buf_cur b \<le> SRC_BUF_START + buf_total_size b"
  shows "src_buf_inv (b\<lparr>buf_cur := clib_round_up E (buf_cur b + len) sizeof_long\<rparr>)"
    and "buf_cur b + len \<le> clib_round_up E (buf_cur b + len) sizeof_long"
proof -
  let ?c = "clib_round_up E (buf_cur b + len) sizeof_long"
  let ?lim = "SRC_BUF_START + buf_total_size b"
  have pos: "0 < sizeof_long" by (simp add: sizeof_long_def)
  note up = env_ok_up [OF assms(1) pos, of "buf_cur b + len"]
  show ge: "buf_cur b + len \<le> ?c" by (rule up(2))
  have "?c \<le> ?lim"
  proof (rule ccontr)
    assume "\<not> ?c \<le> ?lim"
    moreover from up(1) inv_total_aligned [OF assms(2)] obtain i j
      where "?c = sizeof_long * i" "?lim = sizeof_long * j" by (auto simp: dvd_def)
    ultimately have "?lim + sizeof_long \<le> ?c" by (simp add: sizeof_long_def)
    with up(3) assms(3) show False by simp
  qed
  then show "src_buf_inv (b\<lparr>buf_cur := ?c\<rparr>)"
    using assms(2) up(1) ge by (simp add: src_buf_inv_def)
qed

text \<open>The allocation seen from outside: whether the cursor needs a new block first.\<close>

definition needs_block :: "nat \<Rightarrow> src_buf \<Rightarrow> bool" where
  "needs_block len b \<longleftrightarrow> SRC_BUF_START + buf_total_size b < len + buf_cur b"

lemma src_buf_get_spec:
  assumes "env_ok E" "src_buf_inv b" "len_ok len" "src_buf_get E len b = Some (ret, b')"
  shows "ret = buf_cur b" "src_buf_inv b'" "ret + len \<le> buf_cur b'"
    "buf_total_size b \<le> buf_total_size b'" "src_modified b'"
proof -
  obtain c where c: "src_buf_inv c" "buf_cur c = buf_cur b" "buf_total_size b \<le> buf_total_size c"
    and lim: "len + buf_cur c \<le> SRC_BUF_START + buf_total_size c"
    and ret: "ret = buf_cur c"
    and b': "b' = c\<lparr>buf_cur := clib_round_up E (buf_cur c + len) sizeof_long,
        src_modified := True\<rparr>"
  proof (cases "needs_block len b")
    case True
    then obtain c err where ex: "buf_expanded E SRC_BUF_BLKSZ b = Some (err, c)" "err = 0"
      and rest: "\<not> SRC_BUF_START + buf_total_size c < wrap64 (len + buf_cur c)"
        "ret = buf_cur c" "b' = c\<lparr>buf_cur := clib_round_up E (wrap64 (buf_cur c + len)) sizeof_long,
          src_modified := True\<rparr>"
      using assms(4) cur_no_wrap [OF assms(2,3)]
      by (auto simp: src_buf_get_def needs_block_def bind_splits Let_def split: if_splits)
    have "SRC_BUF_BLKSZ \<le> SRC_BUF_END" by (simp add: src_buf_consts)
    note e = buf_expanded_Some [OF ex(1) assms(1,2) this]
    have "wrap64 (len + buf_cur c) = len + buf_cur c" by (rule cur_no_wrap [OF e(1) assms(3)])
    with e ex(2) rest show ?thesis by (intro that [of c]) (auto simp: add.commute)
  next
    case False
    then have "\<not> SRC_BUF_START + buf_total_size b < wrap64 (len + buf_cur b)"
      using cur_no_wrap [OF assms(2,3)] by (simp add: needs_block_def)
    then have "ret = buf_cur b" "b' = b\<lparr>buf_cur := clib_round_up E (wrap64 (buf_cur b + len)) sizeof_long,
          src_modified := True\<rparr>"
      using assms(4) by (auto simp: src_buf_get_def bind_splits Let_def split: if_splits)
    with False cur_no_wrap [OF assms(2,3)] assms(2) show ?thesis
      by (intro that [of b]) (auto simp: needs_block_def add.commute)
  qed
  note adv = advance_inv [OF assms(1) c(1) lim]
  show "ret = buf_cur b" using ret c by simp
  show "src_buf_inv b'" using adv(1) b' by (simp add: src_buf_inv_def)
  show "ret + len \<le> buf_cur b'" using adv(2) b' ret by simp
  show "buf_total_size b \<le> buf_total_size b'" "src_modified b'" using b' c by simp_all
qed

text \<open>
  When an allocation aborts: there is no room in the mapped blocks, and the region is
  exhausted, or the mapping fails, or one more block is still too small.
\<close>

definition get_fits :: "env \<Rightarrow> nat \<Rightarrow> src_buf \<Rightarrow> bool" where
  "get_fits E len b \<longleftrightarrow> \<not> needs_block len b \<or>
     (SRC_BUF_START + buf_total_size b + SRC_BUF_BLKSZ \<le> SRC_BUF_END
      \<and> mmap_anon E (SRC_BUF_START + buf_total_size b) SRC_BUF_BLKSZ
      \<and> len + buf_cur b \<le> SRC_BUF_START + buf_total_size b + SRC_BUF_BLKSZ)"

lemma src_buf_get_fits:
  assumes "env_ok E" "src_buf_inv b" "len_ok len"
  shows "src_buf_get E len b = None \<longleftrightarrow> \<not> get_fits E len b"
proof -
  have blk: "clib_round_up E SRC_BUF_BLKSZ SRC_BUF_BLKSZ = SRC_BUF_BLKSZ"
    by (rule round_up_dvd [OF assms(1)]) (simp_all add: src_buf_consts)
  have w: "wrap64 (SRC_BUF_START + buf_total_size b + SRC_BUF_BLKSZ) =
      SRC_BUF_START + buf_total_size b + SRC_BUF_BLKSZ"
    using assms(2) by (simp add: src_buf_inv_def src_buf_consts)
  show ?thesis
    unfolding src_buf_get_def get_fits_def needs_block_def buf_expanded_def Let_def
      blk w cur_no_wrap [OF assms(2,3)]
    by (auto simp: bind_splits cur_no_wrap [OF assms(2,3)] not_less)
qed

subsection \<open>Runs of allocations\<close>

fun src_buf_gets :: "env \<Rightarrow> nat list \<Rightarrow> src_buf \<Rightarrow> (addr list \<times> src_buf) option" where
  "src_buf_gets E [] b = Some ([], b)"
| "src_buf_gets E (n # ns) b =
     do {
       (p, b) \<leftarrow> src_buf_get E n b;
       (ps, b) \<leftarrow> src_buf_gets E ns b;
       Some (p # ps, b)
     }"

text \<open>The regions \<open>[p, p + n)\<close> of a run, each wholly before the next and inside the limits.\<close>

fun regions_ordered :: "nat \<Rightarrow> addr list \<Rightarrow> nat list \<Rightarrow> nat \<Rightarrow> bool" where
  "regions_ordered lo [] [] hi = (lo \<le> hi)"
| "regions_ordered lo (p # ps) (n # ns) hi =
     (lo \<le> p \<and> sizeof_long dvd p \<and> regions_ordered (p + n) ps ns hi)"
| "regions_ordered lo _ _ hi = False"

lemma regions_ordered_weaken:
  "regions_ordered lo ps ns hi \<Longrightarrow> lo' \<le> lo \<Longrightarrow> regions_ordered lo' ps ns hi"
  by (induction lo ps ns hi rule: regions_ordered.induct) auto

lemma src_buf_gets_regions:
  assumes "env_ok E" "src_buf_inv b" "\<forall>n \<in> set ns. len_ok n"
    "src_buf_gets E ns b = Some (ps, b')"
  shows "regions_ordered (buf_cur b) ps ns (buf_cur b') \<and> src_buf_inv b'"
  using assms(2-4)
proof (induction ns arbitrary: b ps b')
  case Nil
  then show ?case by simp
next
  case (Cons n ns)
  then obtain p c qs where get: "src_buf_get E n b = Some (p, c)"
    and rest: "src_buf_gets E ns c = Some (qs, b')" "ps = p # qs"
    by (auto simp: bind_splits)
  from Cons.prems have "len_ok n" by simp
  note g = src_buf_get_spec [OF assms(1) Cons.prems(1) this get]
  from Cons.IH [OF g(2) _ rest(1)] Cons.prems
  have "regions_ordered (buf_cur c) qs ns (buf_cur b')" "src_buf_inv b'" by auto
  with g rest Cons.prems(1) show ?case
    by (auto simp: src_buf_inv_def intro: regions_ordered_weaken)
qed

lemma regions_ordered_length: "regions_ordered lo ps ns hi \<Longrightarrow> length ps = length ns"
  by (induction lo ps ns hi rule: regions_ordered.induct) auto

lemma regions_ordered_le: "regions_ordered lo ps ns hi \<Longrightarrow> lo \<le> hi"
  by (induction lo ps ns hi rule: regions_ordered.induct) auto

lemma regions_ordered_nth:
  "regions_ordered lo ps ns hi \<Longrightarrow> i < length ns \<Longrightarrow>
     lo \<le> ps ! i \<and> sizeof_long dvd ps ! i \<and> ps ! i + ns ! i \<le> hi \<and>
     (\<forall>j < length ns. i < j \<longrightarrow> ps ! i + ns ! i \<le> ps ! j)"
proof (induction lo ps ns hi arbitrary: i rule: regions_ordered.induct)
  case (2 lo p ps n ns hi)
  then have ro: "regions_ordered (p + n) ps ns hi" by simp
  have hi: "p + n \<le> hi" by (rule regions_ordered_le [OF ro])
  show ?case
  proof (cases i)
    case 0
    with 2(2) hi "2.IH" [OF ro] show ?thesis by (auto simp: nth_Cons split: nat.splits)
  next
    case (Suc k)
    with 2(2,3) "2.IH" [OF ro, of k] show ?thesis by (auto simp: nth_Cons split: nat.splits)
  qed
qed auto

subsection \<open>Properties\<close>

definition src_buf0 :: src_buf where
  "src_buf0 = \<lparr>buf_cur = SRC_BUF_START, buf_total_size = SRC_BUF_BLKSZ, src_modified = True\<rparr>"

lemma src_buf0_inv: "src_buf_inv src_buf0"
  by (simp add: src_buf_inv_def src_buf0_def src_buf_consts)

lemma src_buf_setup_inv:
  assumes "env_ok E" "buf_total_size b = 0" "src_buf_setup E b = Some (err, b')"
  shows "src_buf_inv b'"
proof -
  have "src_buf_inv (b\<lparr>buf_cur := SRC_BUF_START\<rparr>)"
    using assms(2) by (simp add: src_buf_inv_def src_buf_consts)
  then show ?thesis
    using buf_expanded_Some(1) [OF assms(3) [unfolded src_buf_setup_def] assms(1)]
    by (simp add: src_buf_consts)
qed

text \<open>
  C20. Whatever run of requests \<open>src_buf_get\<close> serves, the regions it hands out are aligned
  to \<open>sizeof(long)\<close>, lie between \<open>SRC_BUF_START\<close> and the cursor (which stays within
  \<open>SRC_BUF_END\<close>) and do not overlap: each ends before every later one begins.
\<close>

theorem src_buf_regions_disjoint:
  assumes "env_ok E" "src_buf_inv b" "\<forall>n \<in> set ns. len_ok n"
    and "src_buf_gets E ns b = Some (ps, b')"
  shows "length ps = length ns \<and> buf_cur b' \<le> SRC_BUF_END \<and>
    (\<forall>i < length ns. SRC_BUF_START \<le> ps ! i \<and> sizeof_long dvd ps ! i
       \<and> ps ! i + ns ! i \<le> buf_cur b'
       \<and> (\<forall>j < length ns. i < j \<longrightarrow> ps ! i + ns ! i \<le> ps ! j))"
proof -
  from src_buf_gets_regions [OF assms]
  have ro: "regions_ordered (buf_cur b) ps ns (buf_cur b')" and inv: "src_buf_inv b'" by auto
  have "SRC_BUF_START \<le> buf_cur b" "buf_cur b' \<le> SRC_BUF_END"
    using assms(2) inv by (auto simp: src_buf_inv_def)
  with regions_ordered_nth [OF ro] regions_ordered_length [OF ro] show ?thesis
    by (meson le_trans)
qed

lemma src_buf_gets_run0:
  "src_buf_gets env0 [24, 100, 8] src_buf0 =
     Some ([0x100000000, 0x100000018, 0x100000080], src_buf0\<lparr>buf_cur := 0x100000088\<rparr>)"
  by (simp add: src_buf_get_def src_buf0_def src_buf_consts wrap64_def)

theorem src_buf_regions_disjoint_witness:
  "src_buf_gets env0 [24, 100, 8] src_buf0 =
     Some ([0x100000000, 0x100000018, 0x100000080], src_buf0\<lparr>buf_cur := 0x100000088\<rparr>)
   \<and> [0x100000000, 0x100000018, 0x100000080] ! 1 + [24, 100, 8] ! 1
         \<le> [0x100000000, 0x100000018, 0x100000080 :: nat] ! 2"
proof -
  have "\<forall>n \<in> set [24, 100, 8]. len_ok n" by (simp add: len_ok_def src_buf_consts)
  note d = src_buf_regions_disjoint [OF env0_ok src_buf0_inv this src_buf_gets_run0]
  have "1 < length [24, 100, 8 :: nat]" "2 < length [24, 100, 8 :: nat]" "(1 :: nat) < 2" by simp_all
  with d have "[0x100000000, 0x100000018, 0x100000080] ! 1 + [24, 100, 8] ! 1
         \<le> [0x100000000, 0x100000018, 0x100000080 :: nat] ! 2" by blast
  then show ?thesis using src_buf_gets_run0 by simp
qed

text \<open>
  C21. An allocation aborts the process exactly when the mapped blocks have no room for it
  and the region has no further block, or the mapping fails, or the request does not fit
  in what is left plus one block: \<open>src_buf_get\<close> never maps more than one block.
\<close>

theorem src_buf_get_aborts_iff:
  assumes "env_ok E" "src_buf_inv b" "len_ok len"
  shows "src_buf_get E len b = None \<longleftrightarrow>
    SRC_BUF_START + buf_total_size b < buf_cur b + len \<and>
    (SRC_BUF_END < SRC_BUF_START + buf_total_size b + SRC_BUF_BLKSZ
     \<or> \<not> mmap_anon E (SRC_BUF_START + buf_total_size b) SRC_BUF_BLKSZ
     \<or> SRC_BUF_START + buf_total_size b + SRC_BUF_BLKSZ < buf_cur b + len)"
  unfolding src_buf_get_fits [OF assms] get_fits_def needs_block_def by (auto simp: not_le)

theorem src_buf_get_aborts_iff_witness:
  "src_buf_get env0 0x20000001 src_buf0 = None \<and> src_buf_get env0 0x20000000 src_buf0 \<noteq> None"
proof -
  have l: "len_ok 0x20000001" "len_ok 0x20000000" by (simp_all add: len_ok_def src_buf_consts)
  show ?thesis
    using src_buf_get_aborts_iff [OF env0_ok src_buf0_inv l(1)]
      src_buf_get_aborts_iff [OF env0_ok src_buf0_inv l(2)]
    by (simp add: src_buf0_def src_buf_consts)
qed

text \<open>
  C27. Saving and loading give the region back: when the flush writes \<open>n\<close> bytes and the
  load finds a file of \<open>n\<close> bytes (fewer than the whole region), the cursor is where it was
  and the invariant holds, so later allocations do not overlap the loaded data.
\<close>

theorem flush_load_roundtrip:
  assumes "env_ok E" "\<And>p n. mmap_anon E p n" "src_buf_inv b" "buf_cur b < SRC_BUF_END"
    and "flush_len False b = Some n"
  shows "\<exists>c. load_region E n d = Some c \<and> src_buf_inv c \<and> buf_cur c = buf_cur b"
proof -
  let ?len = "clib_round_up E n SRC_BUF_BLKSZ"
  have n: "n = buf_cur b - SRC_BUF_START" using assms(5) by (auto simp: flush_len_def split: if_splits)
  have blk: "0 < SRC_BUF_BLKSZ" by (simp add: src_buf_consts)
  note up = env_ok_up [OF assms(1) blk, of n]
  have ge: "SRC_BUF_START \<le> buf_cur b" using assms(3) by (simp add: src_buf_inv_def)
  have le: "?len \<le> buf_total_size b"
  proof -
    obtain i j where "?len = SRC_BUF_BLKSZ * i" "buf_total_size b = SRC_BUF_BLKSZ * j"
      using up(1) assms(3) by (auto simp: src_buf_inv_def dvd_def)
    moreover have "n \<le> buf_total_size b" using n assms(3) by (auto simp: src_buf_inv_def)
    ultimately show ?thesis using up(3) by (cases "i \<le> j") (auto simp: src_buf_consts)
  qed
  then have "SRC_BUF_START + ?len \<le> SRC_BUF_END" using assms(3) by (auto simp: src_buf_inv_def)
  moreover from this have "wrap64 (SRC_BUF_START + ?len) = SRC_BUF_START + ?len"
    by (intro wrap64_id) (simp add: src_buf_consts)
  moreover have "\<not> SRC_BUF_END - SRC_BUF_START \<le> n" using n ge assms(4) by simp
  ultimately show ?thesis using assms(2,3) n ge up
    by (auto simp: load_region_def buf_expanded_def buf_restore_def Let_def src_buf_inv_def)
qed

theorem flush_load_roundtrip_witness:
  "\<exists>c. load_region env0 0x88 src_buf0 = Some c \<and> src_buf_inv c \<and> buf_cur c = 0x100000088"
proof -
  let ?b = "src_buf0\<lparr>buf_cur := 0x100000088\<rparr>"
  have inv: "src_buf_inv ?b" by (simp add: src_buf_inv_def src_buf0_def src_buf_consts)
  have fl: "flush_len False ?b = Some 0x88"
    by (simp add: flush_len_def src_buf0_def src_buf_consts)
  have lt: "buf_cur ?b < SRC_BUF_END" by (simp add: src_buf_consts)
  have mm: "mmap_anon env0 p n" for p n by simp
  show ?thesis using flush_load_roundtrip [OF env0_ok mm inv lt fl] by simp
qed

end
