(* ===== verification/Si_Types.thy ===== *)
theory Si_Types
  imports Src_Buf
begin

text \<open>
  include/si_core.h: the constants, the enumerations and the structures of the project
  data, and \<open>struct src\<close>, the state every component of the analysis works on. Pointers are
  addresses. The objects that live in the data region are kept in one heap per structure
  type, total functions from addresses, as the region is zeroed memory that can always be
  read.
\<close>

subsection \<open>Node ids\<close>

text \<open>
  \<open>union siid\<close>: 32 bits, the low 28 the value and the high 4 the type. \<open>id1\<close> is the number
  itself.
\<close>

type_synonym siid = nat

definition ID_VALUE_BITS :: nat where "ID_VALUE_BITS = 28"
definition ID_TYPE_BITS :: nat where "ID_TYPE_BITS = 4"

definition id_value :: "siid \<Rightarrow> nat" where
  "id_value i = i mod 2 ^ ID_VALUE_BITS"

definition id_type :: "siid \<Rightarrow> nat" where
  "id_type i = i div 2 ^ ID_VALUE_BITS"

definition mk_siid :: "nat \<Rightarrow> nat \<Rightarrow> siid" where
  "mk_siid t v = (t mod 2 ^ ID_TYPE_BITS) * 2 ^ ID_VALUE_BITS + v mod 2 ^ ID_VALUE_BITS"

definition siid_type :: "siid \<Rightarrow> nat" where "siid_type i = id_type i"
definition siid_value :: "siid \<Rightarrow> nat" where "siid_value i = id_value i"
definition siid_all :: "siid \<Rightarrow> nat" where "siid_all i = i"

lemma mk_siid_parts [simp]:
  "id_value (mk_siid t v) = v mod 2 ^ 28" "id_type (mk_siid t v) = t mod 16"
  by (simp_all add: id_value_def id_type_def mk_siid_def ID_VALUE_BITS_def ID_TYPE_BITS_def)

lemma mk_siid_bound: "mk_siid t v < 2 ^ 32"
proof -
  have "t mod 16 * 2 ^ 28 \<le> 15 * 2 ^ 28" by (intro mult_right_mono) auto
  moreover have "v mod 2 ^ 28 < (2 :: nat) ^ 28" by simp
  ultimately show ?thesis by (simp add: mk_siid_def ID_VALUE_BITS_def ID_TYPE_BITS_def)
qed

lemma siid_split: "i < 2 ^ 32 \<Longrightarrow> mk_siid (id_type i) (id_value i) = i"
  by (simp add: mk_siid_def id_type_def id_value_def ID_VALUE_BITS_def ID_TYPE_BITS_def
      less_mult_imp_div_less div_mult_mod_eq)

subsection \<open>Enumerations\<close>

abbreviation (input) TYPE_FILE :: nat where "TYPE_FILE \<equiv> 0"
abbreviation (input) TYPE_TYPE :: nat where "TYPE_TYPE \<equiv> 1"
abbreviation (input) TYPE_FUNC_GLOBAL :: nat where "TYPE_FUNC_GLOBAL \<equiv> 2"
abbreviation (input) TYPE_FUNC_STATIC :: nat where "TYPE_FUNC_STATIC \<equiv> 3"
abbreviation (input) TYPE_VAR_GLOBAL :: nat where "TYPE_VAR_GLOBAL \<equiv> 4"
abbreviation (input) TYPE_VAR_STATIC :: nat where "TYPE_VAR_STATIC \<equiv> 5"
abbreviation (input) TYPE_CODEP :: nat where "TYPE_CODEP \<equiv> 6"
abbreviation (input) TYPE_MAX :: nat where "TYPE_MAX \<equiv> 7"
abbreviation (input) TYPE_NONE :: nat where "TYPE_NONE \<equiv> 4294967295"

text \<open>The parse modes, which are also the states a sibuf and a resfile count.\<close>

abbreviation (input) MODE_TEST :: nat where "MODE_TEST \<equiv> 0"
abbreviation (input) MODE_ADJUST :: nat where "MODE_ADJUST \<equiv> 1"
abbreviation (input) MODE_GETBASE :: nat where "MODE_GETBASE \<equiv> 2"
abbreviation (input) MODE_GETDETAIL :: nat where "MODE_GETDETAIL \<equiv> 3"
abbreviation (input) MODE_GETSTEP4 :: nat where "MODE_GETSTEP4 \<equiv> 4"
abbreviation (input) MODE_GETINDCFG1 :: nat where "MODE_GETINDCFG1 \<equiv> 5"
abbreviation (input) MODE_GETINDCFG2 :: nat where "MODE_GETINDCFG2 \<equiv> 6"
abbreviation (input) MODE_MAX :: nat where "MODE_MAX \<equiv> 7"

datatype insert_behavior = SINODE_INSERT_BH_NONE | SINODE_INSERT_BH_REPLACE | SINODE_INSERT_BH_SOFT

datatype conflict =
    TREE_NAME_CONFLICT_FAILED | TREE_NAME_CONFLICT_DROP
  | TREE_NAME_CONFLICT_REPLACE | TREE_NAME_CONFLICT_SOFT

datatype search_flag = SEARCH_BY_ID | SEARCH_BY_SPEC | SEARCH_BY_TYPE_NAME

text \<open>\<open>struct si_type\<close>, its fields as unsigned numbers.\<close>

record si_type =
  ty_binary :: nat
  ty_kernel :: nat
  ty_os :: nat
  ty_fmt :: nat

abbreviation (input) SI_TYPE_SRC :: nat where "SI_TYPE_SRC \<equiv> 1"
abbreviation (input) SI_TYPE_BIN :: nat where "SI_TYPE_BIN \<equiv> 2"
abbreviation (input) SI_TYPE_BOTH :: nat where "SI_TYPE_BOTH \<equiv> 3"
abbreviation (input) SI_TYPE_KERN :: nat where "SI_TYPE_KERN \<equiv> 1"
abbreviation (input) SI_TYPE_USER :: nat where "SI_TYPE_USER \<equiv> 2"
abbreviation (input) SI_TYPE_OS_LINUX :: nat where "SI_TYPE_OS_LINUX \<equiv> 1"
abbreviation (input) SI_TYPE_OS_ANY :: nat where "SI_TYPE_OS_ANY \<equiv> 15"
abbreviation (input) SI_TYPE_DF_NONE :: nat where "SI_TYPE_DF_NONE \<equiv> 0"
abbreviation (input) SI_TYPE_DF_GIMPLE :: nat where "SI_TYPE_DF_GIMPLE \<equiv> 1"
abbreviation (input) SI_TYPE_DF_ASM :: nat where "SI_TYPE_DF_ASM \<equiv> 2"
abbreviation (input) SI_TYPE_DF_ANY :: nat where "SI_TYPE_DF_ANY \<equiv> 255"

subsection \<open>Structures\<close>

text \<open>\<open>struct file_content\<close>, the header of one compiled file in a resfile.\<close>

record file_content =
  fc_total_size :: nat
  fc_objs_offs :: nat
  fc_objs_cnt :: nat
  fc_gcc_ver_major :: nat
  fc_gcc_ver_minor :: nat
  fc_path_len :: nat
  fc_cmd_len :: nat
  fc_srcroot_len :: nat
  fc_type :: si_type
  fc_path :: string

text \<open>\<open>struct file_obj\<close>, one collected object.\<close>

record file_obj =
  fo_fake_addr :: nat
  fo_real_addr :: nat
  fo_size :: nat
  fo_offs :: nat
  fo_gcc_global_varidx :: nat
  fo_is_function :: bool
  fo_is_global_var :: bool
  fo_is_type :: bool
  fo_is_adjusted :: bool
  fo_is_dropped :: bool
  fo_is_replaced :: bool

text \<open>\<open>struct resfile\<close>; \<open>rf_fd\<close> is \<open>- 1\<close> when the file is not open.\<close>

record resfile =
  rf_filelen :: nat
  rf_total_files :: nat
  rf_parsed_files :: "nat \<Rightarrow> nat"
  rf_fd :: int
  rf_built_in :: bool
  rf_path :: string

text \<open>\<open>struct sibuf\<close>, one compiled file; \<open>sb_users\<close> are the threads that hold it.\<close>

record sibuf =
  sb_file_types :: "addr tree"
  sb_rf :: addr
  sb_load_addr :: nat
  sb_offs_of_resfile :: nat
  sb_pldlen :: nat
  sb_payload :: addr
  sb_objs :: addr
  sb_obj_cnt :: nat
  sb_users :: "nat list"
  sb_globals :: addr
  sb_total_len :: nat
  sb_need_unload :: bool
  sb_status :: nat

text \<open>
  \<open>struct sinode\<close>. \<open>sn_name\<close> points into the interned names. \<open>sn_weak_flag\<close> is
  \<open>int8_t weak_flag: 1\<close>, a signed field of one bit: its values are \<open>0\<close> and \<open>- 1\<close>.
\<close>

record sinode =
  sn_id :: siid
  sn_buf :: addr
  sn_obj :: addr
  sn_loc_file :: addr
  sn_loc_line :: int
  sn_loc_col :: int
  sn_attributes :: "addr list"
  sn_name :: addr
  sn_namelen :: nat
  sn_data :: addr
  sn_datalen :: nat
  sn_weak_flag :: int

definition sinode_zero :: sinode where
  "sinode_zero = \<lparr>sn_id = 0, sn_buf = NULL, sn_obj = NULL, sn_loc_file = NULL, sn_loc_line = 0,
     sn_loc_col = 0, sn_attributes = [], sn_name = NULL, sn_namelen = 0, sn_data = NULL,
     sn_datalen = 0, sn_weak_flag = 0\<rparr>"

text \<open>
  \<open>struct src\<close> with the heaps of the objects it reaches: \<open>si_by_id\<close> and \<open>si_by_spec\<close> are
  the two columns of \<open>sinodes[TYPE_MAX][RB_NODE_BY_MAX]\<close>.
\<close>

record src =
  si_sbuf :: src_buf
  si_resfile_head :: "addr list"
  si_sibuf_head :: "addr list"
  si_sibuf_mem_usage :: nat
  si_id_idx :: "nat \<Rightarrow> siid"
  si_by_id :: "nat \<Rightarrow> addr tree"
  si_by_spec :: "nat \<Rightarrow> addr tree"
  si_names_root :: "addr tree"
  si_src_id :: string
  si_type :: si_type
  h_name :: "addr \<Rightarrow> string"
  h_sn :: "addr \<Rightarrow> sinode"
  h_sb :: "addr \<Rightarrow> sibuf"
  h_rf :: "addr \<Rightarrow> resfile"

text \<open>\<open>src_buf_get\<close> on the whole state.\<close>

definition si_buf_get :: "env \<Rightarrow> nat \<Rightarrow> src \<Rightarrow> (addr \<times> src) option" where
  "si_buf_get E len s =
     do { (p, b) \<leftarrow> src_buf_get E len (si_sbuf s); Some (p, s\<lparr>si_sbuf := b\<rparr>) }"

lemma si_buf_get_spec:
  assumes "env_ok E" "src_buf_inv (si_sbuf s)" "len_ok len" "si_buf_get E len s = Some (p, s')"
  shows "p = buf_cur (si_sbuf s)" "src_buf_inv (si_sbuf s')" "p + len \<le> buf_cur (si_sbuf s')"
    "\<exists>b. s' = s\<lparr>si_sbuf := b\<rparr>" "0 < p"
proof -
  from assms(4) obtain b where b: "src_buf_get E len (si_sbuf s) = Some (p, b)"
    "s' = s\<lparr>si_sbuf := b\<rparr>" by (auto simp: si_buf_get_def bind_splits)
  note g = src_buf_get_spec [OF assms(1-3) b(1)]
  show "p = buf_cur (si_sbuf s)" "src_buf_inv (si_sbuf s')" "p + len \<le> buf_cur (si_sbuf s')"
    "\<exists>b. s' = s\<lparr>si_sbuf := b\<rparr>" "0 < p"
    using g b(2) assms(2) by (auto simp: src_buf_inv_def SRC_BUF_START_def)
qed

definition sibuf_zero :: sibuf where
  "sibuf_zero = \<lparr>sb_file_types = Leaf, sb_rf = NULL, sb_load_addr = 0, sb_offs_of_resfile = 0,
     sb_pldlen = 0, sb_payload = NULL, sb_objs = NULL, sb_obj_cnt = 0, sb_users = [],
     sb_globals = NULL, sb_total_len = 0, sb_need_unload = False, sb_status = 0\<rparr>"

definition resfile_zero :: resfile where
  "resfile_zero = \<lparr>rf_filelen = 0, rf_total_files = 0, rf_parsed_files = (\<lambda>_. 0), rf_fd = 0,
     rf_built_in = False, rf_path = []\<rparr>"

text \<open>The state \<open>src_init(1)\<close> leaves: everything zero.\<close>

definition src0 :: src where
  "src0 = \<lparr>si_sbuf = src_buf0, si_resfile_head = [], si_sibuf_head = [], si_sibuf_mem_usage = 0,
     si_id_idx = (\<lambda>_. 0), si_by_id = (\<lambda>_. Leaf), si_by_spec = (\<lambda>_. Leaf), si_names_root = Leaf,
     si_src_id = [], si_type = \<lparr>ty_binary = 0, ty_kernel = 0, ty_os = 0, ty_fmt = 0\<rparr>,
     h_name = (\<lambda>_. []), h_sn = (\<lambda>_. sinode_zero), h_sb = (\<lambda>_. sibuf_zero),
     h_rf = (\<lambda>_. resfile_zero)\<rparr>"

end
