(* ===== verification/Rb_Index.thy ===== *)
theory Rb_Index
  imports Ext_Env
begin

text \<open>
  The search trees of the program. Every index of \<open>struct src\<close> (sinodes by id, by file
  name, by name and location, by name and resfile, the interned names, the unnamed types
  of a sibuf) is walked by the same loop: compare the node with what is searched, go left
  when the comparison is positive, right when it is negative, stop when it is zero. An
  insertion links the new node where that walk ends and rebalances; the rebalancing is
  clib's. The comparison of each index is a parameter here; the laws that make it a linear
  order of keys are the locale \<open>rb_index\<close>, interpreted where each index is modelled.
\<close>

text \<open>\<open>while (*node) { res = cmp(data); ... }\<close>, returning the node that compares equal.\<close>

fun rb_find :: "('a \<Rightarrow> int) \<Rightarrow> 'a tree \<Rightarrow> 'a option" where
  "rb_find c Leaf = None"
| "rb_find c (Node l d r) =
     (if 0 < c d then rb_find c l else if c d < 0 then rb_find c r else Some d)"

text \<open>
  The same walk with \<open>parent\<close> and \<open>newtmp\<close>, then \<open>rb_link_node\<close>: the tree with the
  node linked at the position reached, or \<open>None\<close> when an equal node is met.
\<close>

fun rb_link :: "('a \<Rightarrow> int) \<Rightarrow> 'a \<Rightarrow> 'a tree \<Rightarrow> 'a tree option" where
  "rb_link c n Leaf = Some (Node Leaf n Leaf)"
| "rb_link c n (Node l d r) =
     (if 0 < c d then map_option (\<lambda>l'. Node l' d r) (rb_link c n l)
      else if c d < 0 then map_option (\<lambda>r'. Node l d r') (rb_link c n r)
      else None)"

lemma rb_find_in: "rb_find c t = Some d \<Longrightarrow> d \<in> set_tree t \<and> c d = 0"
  by (induction t) (auto split: if_splits)

lemma rb_link_None_iff: "rb_link c n t = None \<longleftrightarrow> rb_find c t \<noteq> None"
  by (induction t) auto

lemma rb_link_set: "rb_link c n t = Some t' \<Longrightarrow> set_tree t' = insert n (set_tree t)"
  by (induction t arbitrary: t') (auto split: if_splits)

lemma rb_find_cong: "(\<And>d. d \<in> set_tree t \<Longrightarrow> c d = c' d) \<Longrightarrow> rb_find c t = rb_find c' t"
  by (induction t) auto

lemma rb_link_cong:
  "(\<And>d. d \<in> set_tree t \<Longrightarrow> c d = c' d) \<Longrightarrow> rb_link c n t = rb_link c' n t"
  by (induction t) auto

text \<open>An index is ordered when its in-order sequence has strictly increasing keys.\<close>

definition rb_sorted :: "('a \<Rightarrow> 'k::linorder) \<Rightarrow> 'a tree \<Rightarrow> bool" where
  "rb_sorted key t \<longleftrightarrow> sorted_wrt (<) (map key (inorder t))"

lemma rb_sorted_Leaf [simp]: "rb_sorted key Leaf"
  by (simp add: rb_sorted_def)

lemma rb_sorted_Node:
  "rb_sorted key (Node l d r) \<longleftrightarrow> rb_sorted key l \<and> rb_sorted key r \<and>
     (\<forall>x \<in> set_tree l. key x < key d) \<and> (\<forall>x \<in> set_tree r. key d < key x)"
  by (auto simp: rb_sorted_def sorted_wrt_append intro: less_trans)

lemma rb_sorted_inj:
  "rb_sorted key t \<Longrightarrow> x \<in> set_tree t \<Longrightarrow> y \<in> set_tree t \<Longrightarrow> key x = key y \<Longrightarrow> x = y"
  unfolding rb_sorted_def by (auto dest: sorted_wrt_less_inj)

lemma rb_sorted_distinct: "rb_sorted key t \<Longrightarrow> distinct (inorder t)"
  by (simp add: rb_sorted_def sorted_wrt_less_distinct)

lemma rb_sorted_cong:
  assumes "\<And>d. d \<in> set_tree t \<Longrightarrow> key d = key' d"
  shows "rb_sorted key t \<longleftrightarrow> rb_sorted key' t"
proof -
  have "map key (inorder t) = map key' (inorder t)" using assms by simp
  then show ?thesis by (simp only: rb_sorted_def)
qed

lemma rb_color_sorted [simp]:
  "env_ok E \<Longrightarrow> rb_sorted key (rb_insert_color E t) = rb_sorted key t"
  by (simp add: rb_sorted_def env_ok_rb)

lemma rb_color_set [simp]: "env_ok E \<Longrightarrow> set_tree (rb_insert_color E t) = set_tree t"
  by (metis env_ok_rb set_inorder)

text \<open>The interface an index asks of its comparison, and what it gets.\<close>

locale rb_index =
  fixes key :: "addr \<Rightarrow> 'k::linorder"
    and cmp :: "'k \<Rightarrow> addr \<Rightarrow> int"
  assumes cmp_pos: "0 < cmp k d \<longleftrightarrow> k < key d"
    and cmp_neg: "cmp k d < 0 \<longleftrightarrow> key d < k"
begin

lemma cmp_zero: "cmp k d = 0 \<longleftrightarrow> key d = k"
  using cmp_pos [of k d] cmp_neg [of k d] by (metis less_irrefl linorder_neqE)

lemma find_sound: "rb_find (cmp k) t = Some d \<Longrightarrow> d \<in> set_tree t \<and> key d = k"
  using rb_find_in [of "cmp k" t d] by (simp add: cmp_zero)

lemma find_complete:
  assumes "rb_sorted key t" "d \<in> set_tree t"
  shows "rb_find (cmp (key d)) t = Some d"
  using assms by (induction t) (auto simp: rb_sorted_Node cmp_pos cmp_neg)

lemma find_iff:
  assumes "rb_sorted key t"
  shows "rb_find (cmp k) t = Some d \<longleftrightarrow> d \<in> set_tree t \<and> key d = k"
  using find_sound find_complete [OF assms] by metis

lemma find_None_iff:
  assumes "rb_sorted key t"
  shows "rb_find (cmp k) t = None \<longleftrightarrow> k \<notin> key ` set_tree t"
proof
  assume "rb_find (cmp k) t = None"
  then show "k \<notin> key ` set_tree t" using find_complete [OF assms] by fastforce
next
  assume "k \<notin> key ` set_tree t"
  then show "rb_find (cmp k) t = None"
    using find_sound [of k t] by (cases "rb_find (cmp k) t") auto
qed

lemma link_sorted:
  assumes "rb_sorted key t" "rb_link (cmp (key n)) n t = Some t'"
  shows "rb_sorted key t'"
  using assms
proof (induction t arbitrary: t')
  case Leaf
  then show ?case by (auto simp: rb_sorted_Node)
next
  case (Node l d r)
  note srt = Node.prems(1) [unfolded rb_sorted_Node]
  consider "key n < key d" | "key d < key n"
    using Node.prems(2) cmp_pos [of "key n" d] cmp_neg [of "key n" d] by fastforce
  then show ?case
  proof cases
    case 1
    then obtain l' where l': "rb_link (cmp (key n)) n l = Some l'" "t' = Node l' d r"
      using Node.prems(2) cmp_pos [of "key n" d] by auto
    then show ?thesis
      using Node.IH(1) [OF _ l'(1)] srt rb_link_set [OF l'(1)] 1
      by (simp add: rb_sorted_Node)
  next
    case 2
    then have "\<not> 0 < cmp (key n) d" using cmp_pos [of "key n" d] by auto
    then obtain r' where r': "rb_link (cmp (key n)) n r = Some r'" "t' = Node l d r'"
      using Node.prems(2) 2 cmp_neg [of "key n" d] by auto
    then show ?thesis
      using Node.IH(2) [OF _ r'(1)] srt rb_link_set [OF r'(1)] 2
      by (simp add: rb_sorted_Node)
  qed
qed

lemma link_None_iff:
  assumes "rb_sorted key t"
  shows "rb_link (cmp (key n)) n t = None \<longleftrightarrow> key n \<in> key ` set_tree t"
  using assms by (simp add: rb_link_None_iff find_None_iff)

text \<open>What an insertion promises to a later search.\<close>

lemma find_after_link:
  assumes "env_ok E" "rb_sorted key t" "rb_link (cmp (key n)) n t = Some t'"
  shows "rb_find (cmp k) (rb_insert_color E t') =
    (if k = key n then Some n else rb_find (cmp k) t)"
proof -
  let ?u = "rb_insert_color E t'"
  have srt: "rb_sorted key ?u" using assms link_sorted by simp
  have set: "set_tree ?u = insert n (set_tree t)" using assms rb_link_set by simp
  have new: "key n \<notin> key ` set_tree t" using assms(2,3) link_None_iff [of t n] by auto
  show ?thesis
  proof (cases "rb_find (cmp k) ?u")
    case None
    then show ?thesis using find_None_iff [OF srt, of k] find_None_iff [OF assms(2), of k] set
      by auto
  next
    case (Some d)
    then have d: "d \<in> insert n (set_tree t)" "key d = k"
      using find_iff [OF srt] set by auto
    show ?thesis
    proof (cases "d = n")
      case True
      then show ?thesis using Some d by simp
    next
      case False
      then have "rb_find (cmp k) t = Some d" using d find_iff [OF assms(2)] by simp
      moreover have "k \<noteq> key n" using d new False by (metis imageI insertE)
      ultimately show ?thesis using Some by simp
    qed
  qed
qed

end

end
