(* ===== verification/Name_List.thy ===== *)
theory Name_List
  imports Si_Types Rb_Index
begin

text \<open>
  The interned names (include/si_helper.h, \<open>name_list_*\<close>). \<open>si->names_root\<close> is a tree of
  \<open>struct name_list\<close>, ordered by the length with its nul byte and then by \<open>strncmp\<close>. The
  node's address stands for the \<open>char *\<close> of its name. Every caller passes
  \<open>strlen(name) + 1\<close> as \<open>namelen\<close>, so \<open>namelen\<close> is that length here.
\<close>

definition name_cmp :: "src \<Rightarrow> string \<Rightarrow> addr \<Rightarrow> int" where
  "name_cmp s tname d =
     (let namelen = length tname + 1; thislen = length (h_name s d) + 1
      in if namelen < thislen then 1
         else if thislen < namelen then - 1
         else strncmp (h_name s d) tname namelen)"

definition name_list_find_node :: "src \<Rightarrow> string \<Rightarrow> addr option" where
  "name_list_find_node s tname = rb_find (name_cmp s tname) (si_names_root s)"

definition name_list_new :: "env \<Rightarrow> string \<Rightarrow> src \<Rightarrow> (addr \<times> src) option" where
  "name_list_new E tname s =
     do {
       (p, s) \<leftarrow> si_buf_get E (csize E SzNameList + (length tname + 1)) s;
       Some (p, s\<lparr>h_name := (h_name s)(p := tname)\<rparr>)
     }"

text \<open>\<open>__name_list_find\<close> and \<open>__name_list_insert_pos\<close> at the position it returned.\<close>

definition name_list_add :: "env \<Rightarrow> string \<Rightarrow> src \<Rightarrow> (addr \<times> src) option" where
  "name_list_add E tname s =
     (case name_list_find_node s tname of
        Some nl \<Rightarrow> Some (nl, s)
      | None \<Rightarrow>
          do {
            (nl, s') \<leftarrow> name_list_new E tname s;
            root \<leftarrow> rb_link (name_cmp s tname) nl (si_names_root s);
            Some (nl, s'\<lparr>si_names_root := rb_insert_color E root\<rparr>)
          })"

text \<open>\<open>name_list_find\<close>: the pointer to the interned name, or \<open>NULL\<close>.\<close>

definition name_list_find :: "src \<Rightarrow> string \<Rightarrow> addr" where
  "name_list_find s tname =
     (case name_list_find_node s tname of Some nl \<Rightarrow> nl | None \<Rightarrow> NULL)"

subsection \<open>The order of the names\<close>

definition name_key :: "src \<Rightarrow> addr \<Rightarrow> nat \<times> string" where
  "name_key s d = (length (h_name s d), h_name s d)"

text \<open>The order only reads the names.\<close>

lemma name_key_frames [simp]:
  "name_key (s\<lparr>h_sn := x1\<rparr>) = name_key s" "name_key (s\<lparr>si_sbuf := x2\<rparr>) = name_key s"
  "name_key (s\<lparr>si_id_idx := x3\<rparr>) = name_key s" "name_key (s\<lparr>si_by_id := x4\<rparr>) = name_key s"
  "name_key (s\<lparr>si_by_spec := x5\<rparr>) = name_key s" "name_key (s\<lparr>h_sb := x6\<rparr>) = name_key s"
  by (simp_all add: name_key_def fun_eq_iff)

lemma strncmp_full: "length a = length b \<Longrightarrow> length a \<le> n \<Longrightarrow> strncmp a b n = strcmp a b"
  by (simp add: strncmp_def)

definition name_kcmp :: "src \<Rightarrow> nat \<times> string \<Rightarrow> addr \<Rightarrow> int" where
  "name_kcmp s k d = (if fst k = length (snd k) then name_cmp s (snd k) d
     else if k < name_key s d then 1 else if name_key s d < k then - 1 else 0)"

interpretation names_ix: rb_index "name_key s" "name_kcmp s" for s
  by unfold_locales
    (auto simp: name_kcmp_def name_cmp_def name_key_def less_prod_def' strncmp_full
      strcmp_pos strcmp_neg not_less Let_def)

lemma name_cmp_key: "name_cmp s tname = name_kcmp s (length tname, tname)"
  by (auto simp: name_kcmp_def)

text \<open>
  The invariant: the tree is ordered and its nodes lie below the cursor of the data region.
\<close>

definition names_inv :: "src \<Rightarrow> bool" where
  "names_inv s \<longleftrightarrow> src_buf_inv (si_sbuf s) \<and> rb_sorted (name_key s) (si_names_root s) \<and>
     (\<forall>d \<in> set_tree (si_names_root s). 0 < d \<and> d < buf_cur (si_sbuf s))"

declare names_inv_def [inv_defs]

lemma name_find_iff:
  assumes "names_inv s"
  shows "name_list_find_node s tname = Some d \<longleftrightarrow>
    d \<in> set_tree (si_names_root s) \<and> h_name s d = tname"
  using names_ix.find_iff [of s "si_names_root s" "(length tname, tname)" d] assms
  by (auto simp: name_list_find_node_def name_cmp_key names_inv_def name_key_def)

definition namelen_ok :: "env \<Rightarrow> string \<Rightarrow> bool" where
  "namelen_ok E tname \<longleftrightarrow> len_ok (csize E SzNameList + (length tname + 1))"

subsection \<open>What adding a name does\<close>

lemma name_list_add_found:
  "name_list_find_node s tname = Some d \<Longrightarrow> name_list_add E tname s = Some (d, s)"
  by (simp add: name_list_add_def)

lemma name_list_add_new:
  assumes "env_ok E" "names_inv s" "namelen_ok E tname" "name_list_find_node s tname = None"
    and "name_list_add E tname s = Some (p, s')"
  shows "names_inv s'" "p = buf_cur (si_sbuf s)" "h_name s' = (h_name s)(p := tname)"
    "set_tree (si_names_root s') = insert p (set_tree (si_names_root s))"
    "\<exists>b r h. s' = s\<lparr>si_sbuf := b, h_name := h, si_names_root := r\<rparr>"
    "buf_cur (si_sbuf s) < buf_cur (si_sbuf s')"
proof -
  let ?t = "si_names_root s"
  obtain q root where g: "si_buf_get E (csize E SzNameList + (length tname + 1)) s = Some (p, q)"
    and l: "rb_link (name_cmp s tname) p ?t = Some root"
    and s': "s' = q\<lparr>h_name := (h_name q)(p := tname), si_names_root := rb_insert_color E root\<rparr>"
    using assms(4,5) by (auto simp: name_list_add_def name_list_new_def bind_splits)
  note sp = si_buf_get_spec [OF assms(1) _ _ g]
  have inv: "src_buf_inv (si_sbuf s)" using assms(2) by (simp add: names_inv_def)
  note sp = sp [OF inv assms(3) [unfolded namelen_ok_def]]
  from sp(4) obtain b where b: "q = s\<lparr>si_sbuf := b\<rparr>" by blast
  then have q: "h_name q = h_name s" "si_names_root q = ?t" by simp_all
  have low: "\<forall>d \<in> set_tree ?t. d < p" using assms(2) sp(1) by (simp add: names_inv_def)
  then have fresh: "p \<notin> set_tree ?t" by auto
  show name: "h_name s' = (h_name s)(p := tname)" using s' q by simp
  show set: "set_tree (si_names_root s') = insert p (set_tree ?t)"
    using s' rb_link_set [OF l] assms(1) by simp
  have key: "name_key s' d = name_key s d" if "d \<in> set_tree ?t" for d
    using that fresh name by (auto simp: name_key_def)
  have cmp: "name_cmp s tname d = name_kcmp s' (name_key s' p) d" if "d \<in> set_tree ?t" for d
  proof -
    have "h_name s' p = tname" "h_name s' d = h_name s d" using that fresh name by auto
    then show ?thesis by (simp add: name_kcmp_def name_key_def name_cmp_def)
  qed
  have "rb_link (name_kcmp s' (name_key s' p)) p ?t = Some root"
    using l rb_link_cong [of ?t "name_cmp s tname" "name_kcmp s' (name_key s' p)" p] cmp by simp
  moreover have "rb_sorted (name_key s') ?t"
    using assms(2) rb_sorted_cong [of ?t "name_key s'" "name_key s"] key
    by (simp add: names_inv_def)
  ultimately have "rb_sorted (name_key s') root" using names_ix.link_sorted by blast
  then have "rb_sorted (name_key s') (si_names_root s')" using s' assms(1) by simp
  moreover have "0 < csize E SzNameList" by (rule env_ok_size [OF assms(1)])
  then show cur: "buf_cur (si_sbuf s) < buf_cur (si_sbuf s')" using sp(1,3) s' by simp
  moreover have "src_buf_inv (si_sbuf s')" using sp(2) s' by simp
  ultimately show "names_inv s'"
    using set low sp(1,5) assms(2) by (fastforce simp: names_inv_def)
  show "p = buf_cur (si_sbuf s)" by (rule sp(1))
  show "\<exists>b r h. s' = s\<lparr>si_sbuf := b, h_name := h, si_names_root := r\<rparr>"
    using s' b by auto
qed

text \<open>The two cases in one statement: what a caller may rely on.\<close>

lemma name_list_add_spec:
  assumes "env_ok E" "names_inv s" "namelen_ok E tname" "name_list_add E tname s = Some (p, s')"
  shows "names_inv s'" "h_name s' p = tname" "p \<in> set_tree (si_names_root s')" "0 < p"
    "set_tree (si_names_root s) \<subseteq> set_tree (si_names_root s')"
    "\<And>d. d < buf_cur (si_sbuf s) \<Longrightarrow> h_name s' d = h_name s d"
    "buf_cur (si_sbuf s) \<le> buf_cur (si_sbuf s')"
    "\<exists>b r h. s' = s\<lparr>si_sbuf := b, h_name := h, si_names_root := r\<rparr>"
    "p < buf_cur (si_sbuf s')"
proof -
  have *: "names_inv s' \<and> h_name s' p = tname \<and> p \<in> set_tree (si_names_root s') \<and>
    set_tree (si_names_root s) \<subseteq> set_tree (si_names_root s') \<and>
    (\<forall>d < buf_cur (si_sbuf s). h_name s' d = h_name s d) \<and>
    buf_cur (si_sbuf s) \<le> buf_cur (si_sbuf s') \<and>
    (\<exists>b r h. s' = s\<lparr>si_sbuf := b, h_name := h, si_names_root := r\<rparr>)"
  proof (cases "name_list_find_node s tname")
    case None
    note n = name_list_add_new [OF assms(1-3) None assms(4)]
    show ?thesis
      by (intro conjI n(1,5) allI impI) (simp_all add: n(2-4) n(6) less_imp_le subset_insertI)
  next
    case (Some d)
    with assms(4) have "p = d" "s' = s" by (simp_all add: name_list_add_found)
    moreover have "\<exists>b r h. s = s\<lparr>si_sbuf := b, h_name := h, si_names_root := r\<rparr>"
      by (intro exI [of _ "si_sbuf s"] exI [of _ "si_names_root s"] exI [of _ "h_name s"]) simp
    ultimately show ?thesis using Some assms(2) name_find_iff [OF assms(2), of tname d] by simp
  qed
  then show "names_inv s'" "h_name s' p = tname" "p \<in> set_tree (si_names_root s')" "0 < p"
    "set_tree (si_names_root s) \<subseteq> set_tree (si_names_root s')"
    "\<And>d. d < buf_cur (si_sbuf s) \<Longrightarrow> h_name s' d = h_name s d"
    "buf_cur (si_sbuf s) \<le> buf_cur (si_sbuf s')"
    "\<exists>b r h. s' = s\<lparr>si_sbuf := b, h_name := h, si_names_root := r\<rparr>"
    "p < buf_cur (si_sbuf s')"
    by (auto simp: names_inv_def)
qed

lemma names_inv_src0: "names_inv src0"
  by (simp add: names_inv_def src0_def src_buf0_inv)

subsection \<open>Properties\<close>

text \<open>
  C26. Names are interned: adding two names, one after the other, returns the same pointer
  exactly when the names are the same string; the pointers read back as the names; and a
  name already stored is found without touching the region.
\<close>

theorem name_list_interns:
  assumes "env_ok E" "names_inv s" "namelen_ok E a" "namelen_ok E b"
    and "name_list_add E a s = Some (p, s1)" "name_list_add E b s1 = Some (q, s2)"
  shows "(p = q \<longleftrightarrow> a = b) \<and> h_name s2 p = a \<and> h_name s2 q = b
    \<and> name_list_find s2 a = p \<and> (a = b \<longrightarrow> s2 = s1)"
proof -
  note A = name_list_add_spec [OF assms(1,2,3,5)]
  note B = name_list_add_spec [OF assms(1) A(1) assms(4,6)]
  have hp: "h_name s2 p = a" using A(2,9) B(6) by simp
  have in2: "p \<in> set_tree (si_names_root s2)" using A(3) B(5) by auto
  have f2: "name_list_find_node s2 a = Some p" using name_find_iff [OF B(1)] in2 hp by simp
  have eq: "a = b \<Longrightarrow> s2 = s1 \<and> p = q"
    using name_find_iff [OF A(1), of b p] A(2,3) assms(6) by (simp add: name_list_add_found)
  show ?thesis using hp B(2) f2 eq by (auto simp: name_list_find_def)
qed

theorem name_list_interns_witness:
  "\<exists>p s1 q s2. name_list_add env0 ''sys_read'' src0 = Some (p, s1) \<and>
     name_list_add env0 ''sys_open'' s1 = Some (q, s2) \<and> p \<noteq> q \<and> name_list_find s2 ''sys_read'' = p"
proof -
  have ok: "namelen_ok env0 ''sys_read''" "namelen_ok env0 ''sys_open''"
    by (simp_all add: namelen_ok_def len_ok_def src_buf_consts)
  obtain p s1 where a: "name_list_add env0 ''sys_read'' src0 = Some (p, s1)"
    and s1: "s1 = src0\<lparr>si_sbuf := src_buf0\<lparr>buf_cur := 0x100000050\<rparr>,
        h_name := (\<lambda>_. [])(0x100000000 := ''sys_read''),
        si_names_root := Node Leaf 0x100000000 Leaf\<rparr>"
    by (simp add: name_list_add_def name_list_find_node_def name_list_new_def si_buf_get_def
        src_buf_get_def src0_def src_buf0_def src_buf_consts wrap64_def)
  obtain q s2 where b: "name_list_add env0 ''sys_open'' s1 = Some (q, s2)"
    by (simp add: s1 name_list_add_def name_list_find_node_def name_list_new_def si_buf_get_def
        src_buf_get_def src0_def src_buf0_def src_buf_consts wrap64_def name_cmp_def strncmp_def)
  have "''sys_read'' \<noteq> ''sys_open''" by simp
  then show ?thesis
    using name_list_interns [OF env0_ok names_inv_src0 ok a b] a b by auto
qed

end
