(* ===== verification/Sinode.thy ===== *)
theory Sinode
  imports Name_List
begin

text \<open>
  analysis/sinode.c: the nodes of the project, one per file, type, function and variable
  that is not local. A node has an id (its type and a counter) and is linked into two
  trees per type: one ordered by id, one by what names it (file name; name and location;
  name and resfile). This theory holds the operations; the properties are in
  \<open>Sinode_Props\<close>.
\<close>

subsection \<open>Ids\<close>

text \<open>
  \<open>sinode_id\<close> (include/si_helper.h). The value is a 28-bit field, read into a 64-bit
  \<open>cur_val\<close>; the overflow test compares that with \<open>(unsigned long)-1\<close>.
\<close>

definition sinode_id :: "nat \<Rightarrow> src \<Rightarrow> (siid \<times> src) option" where
  "sinode_id type s =
     (let type_id = si_id_idx s type;
          cur_val = id_value type_id
      in do {
        BUG_ON (cur_val = 2 ^ 64 - 1);
        let type_id = (if cur_val = 0 then mk_siid type (id_value type_id) else type_id);
        let ret = type_id;
        let type_id = mk_siid (id_type type_id) (id_value type_id + 1);
        Some (ret, s\<lparr>si_id_idx := (si_id_idx s)(type := type_id)\<rparr>)
      })"

definition upd_sn :: "addr \<Rightarrow> (sinode \<Rightarrow> sinode) \<Rightarrow> src \<Rightarrow> src" where
  "upd_sn p f s = s\<lparr>h_sn := (h_sn s)(p := f (h_sn s p))\<rparr>"

text \<open>
  \<open>sinode_new\<close>. The name is optional, and so is the data to copy, given by its length (the
  bytes themselves are not modelled; the callers under src/ pass none).
\<close>

definition sinode_new ::
    "env \<Rightarrow> nat \<Rightarrow> string option \<Rightarrow> nat option \<Rightarrow> src \<Rightarrow> (addr \<times> src) option" where
  "sinode_new E type name data s =
     do {
       (ret, s) \<leftarrow> si_buf_get E (csize E SzSinode) s;
       let s = upd_sn ret (\<lambda>_. sinode_zero) s;
       (i, s) \<leftarrow> sinode_id type s;
       let s = upd_sn ret (sn_id_update (\<lambda>_. i)) s;
       s \<leftarrow> (case name of
           None \<Rightarrow> Some s
         | Some nm \<Rightarrow> do {
             (q, s) \<leftarrow> name_list_add E nm s;
             Some (upd_sn ret (\<lambda>n. n\<lparr>sn_name := q, sn_namelen := length nm + 1\<rparr>) s)
           });
       s \<leftarrow> (case data of
           None \<Rightarrow> Some s
         | Some datalen \<Rightarrow> do {
             (d, s) \<leftarrow> si_buf_get E datalen s;
             BUG_ON (d = NULL);
             Some (upd_sn ret (\<lambda>n. n\<lparr>sn_data := d, sn_datalen := datalen\<rparr>) s)
           });
       Some (ret, s)
     }"

definition sinode_idtype :: "src \<Rightarrow> addr \<Rightarrow> nat" where
  "sinode_idtype s p = siid_type (sn_id (h_sn s p))"

definition sinode_id_all :: "src \<Rightarrow> addr \<Rightarrow> nat" where
  "sinode_id_all s p = siid_all (sn_id (h_sn s p))"

subsection \<open>The comparisons of the walks\<close>

definition sn_str :: "src \<Rightarrow> addr \<Rightarrow> string" where
  "sn_str s p = h_name s (sn_name (h_sn s p))"

definition cmp_id :: "src \<Rightarrow> siid \<Rightarrow> addr \<Rightarrow> int" where
  "cmp_id s i d =
     (if siid_all i < sinode_id_all s d then 1 else if sinode_id_all s d < siid_all i then - 1 else 0)"

definition cmp_file :: "src \<Rightarrow> string \<Rightarrow> addr \<Rightarrow> int" where
  "cmp_file s nm d = strcmp (sn_str s d) nm"

definition cmp_name_loc :: "src \<Rightarrow> string \<Rightarrow> addr \<Rightarrow> int \<Rightarrow> int \<Rightarrow> addr \<Rightarrow> int" where
  "cmp_name_loc s nm lf line col d =
     (let res = strcmp (sn_str s d) nm; n = h_sn s d in
      if 0 < res then 1 else if res < 0 then - 1
      else if lf < sn_loc_file n then 1 else if sn_loc_file n < lf then - 1
      else if line < sn_loc_line n then 1 else if sn_loc_line n < line then - 1
      else if col < sn_loc_col n then 1 else if sn_loc_col n < col then - 1
      else 0)"

definition sn_rf :: "src \<Rightarrow> addr \<Rightarrow> addr" where
  "sn_rf s p = sb_rf (h_sb s (sn_buf (h_sn s p)))"

definition cmp_name_rf :: "src \<Rightarrow> string \<Rightarrow> addr \<Rightarrow> addr \<Rightarrow> int" where
  "cmp_name_rf s nm rf d =
     (let res = strcmp (sn_str s d) nm in
      if 0 < res then 1 else if res < 0 then - 1
      else if rf < sn_rf s d then 1 else if sn_rf s d < rf then - 1
      else 0)"

subsection \<open>Insertion\<close>

definition set_by_id :: "env \<Rightarrow> nat \<Rightarrow> addr tree \<Rightarrow> src \<Rightarrow> src" where
  "set_by_id E type t s = s\<lparr>si_by_id := (si_by_id s)(type := rb_insert_color E t)\<rparr>"

definition set_by_spec :: "env \<Rightarrow> nat \<Rightarrow> addr tree \<Rightarrow> src \<Rightarrow> src" where
  "set_by_spec E type t s = s\<lparr>si_by_spec := (si_by_spec s)(type := rb_insert_color E t)\<rparr>"

text \<open>
  Indexing \<open>sinodes[type]\<close> with a type of the 4-bit field that is not below \<open>TYPE_MAX\<close> is
  out of bounds: no result.
\<close>

definition sinode_insert_by_id :: "env \<Rightarrow> addr \<Rightarrow> src \<Rightarrow> (int \<times> src) option" where
  "sinode_insert_by_id E node s =
     (let type = sinode_idtype s node in
      do {
        BUG_ON (TYPE_MAX \<le> type);
        Some (case rb_link (cmp_id s (sn_id (h_sn s node))) node (si_by_id s type) of
            None \<Rightarrow> (- 1, s)
          | Some t \<Rightarrow> (0, set_by_id E type t s))
      })"

definition sinode_insert_file :: "env \<Rightarrow> addr \<Rightarrow> src \<Rightarrow> (int \<times> src) option" where
  "sinode_insert_file E sn s =
     do {
       BUG_ON (sn_name (h_sn s sn) = NULL);
       Some (case rb_link (cmp_file s (sn_str s sn)) sn (si_by_spec s TYPE_FILE) of
           None \<Rightarrow> (- 1, s)
         | Some t \<Rightarrow> (0, set_by_spec E TYPE_FILE t s))
     }"

definition sinode_insert_name_loc :: "env \<Rightarrow> nat \<Rightarrow> addr \<Rightarrow> src \<Rightarrow> (int \<times> src) option" where
  "sinode_insert_name_loc E type sn s =
     (let n = h_sn s sn in
      do {
        BUG_ON (sn_name n = NULL);
        BUG_ON (sn_loc_file n = NULL);
        Some (case rb_link (cmp_name_loc s (sn_str s sn) (sn_loc_file n) (sn_loc_line n) (sn_loc_col n))
                  sn (si_by_spec s type) of
            None \<Rightarrow> (- 1, s)
          | Some t \<Rightarrow> (0, set_by_spec E type t s))
      })"

text \<open>\<open>sinode_insert_do_replace\<close> swaps all but the id, the name, the attributes and the flag.\<close>

definition payload_from :: "sinode \<Rightarrow> sinode \<Rightarrow> sinode" where
  "payload_from src dst = dst\<lparr>sn_data := sn_data src, sn_datalen := sn_datalen src,
     sn_buf := sn_buf src, sn_obj := sn_obj src, sn_loc_file := sn_loc_file src,
     sn_loc_line := sn_loc_line src, sn_loc_col := sn_loc_col src\<rparr>"

definition sinode_insert_do_replace :: "addr \<Rightarrow> addr \<Rightarrow> src \<Rightarrow> src" where
  "sinode_insert_do_replace oldn newn s =
     (let old = h_sn s oldn; new = h_sn s newn in
      s\<lparr>h_sn := (h_sn s)(oldn := payload_from new old, newn := payload_from old new)\<rparr>)"

text \<open>
  \<open>_sinode_insert_name_resfile\<close>. With \<open>SINODE_INSERT_BH_REPLACE\<close> the walk stops at the
  first node of the same name, before resfiles are compared, and swaps the two payloads.
  Otherwise nodes of one name are ordered by the address of their resfile, and an equal
  node is \<open>BUG()\<close>.
\<close>

definition sinode_insert_name_resfile ::
    "env \<Rightarrow> nat \<Rightarrow> addr \<Rightarrow> insert_behavior \<Rightarrow> src \<Rightarrow> (int \<times> src) option" where
  "sinode_insert_name_resfile E type sn behavior s =
     do {
       BUG_ON (sn_name (h_sn s sn) = NULL);
       (if behavior = SINODE_INSERT_BH_REPLACE then
          (case rb_find (cmp_file s (sn_str s sn)) (si_by_spec s type) of
             Some data \<Rightarrow> do {
               BUG_ON (type \<noteq> TYPE_FUNC_STATIC \<and> sn_datalen (h_sn s sn) \<noteq> sn_datalen (h_sn s data));
               Some (0, sinode_insert_do_replace data sn s)
             }
           | None \<Rightarrow> do {
               t \<leftarrow> rb_link (cmp_file s (sn_str s sn)) sn (si_by_spec s type);
               Some (0, set_by_spec E type t s)
             })
        else do {
          t \<leftarrow> rb_link (cmp_name_rf s (sn_str s sn) (sn_rf s sn)) sn (si_by_spec s type);
          Some (0, set_by_spec E type t s)
        })
     }"

definition sinode_insert_func_static ::
    "env \<Rightarrow> addr \<Rightarrow> insert_behavior \<Rightarrow> src \<Rightarrow> (int \<times> src) option" where
  "sinode_insert_func_static E sn behavior s =
     (if behavior \<noteq> SINODE_INSERT_BH_REPLACE then sinode_insert_name_loc E TYPE_FUNC_STATIC sn s
      else sinode_insert_name_resfile E TYPE_FUNC_STATIC sn behavior s)"

text \<open>The dispatch of \<open>sinode_insert\<close> on the type; an unknown type is \<open>BUG()\<close>.\<close>

definition sinode_insert_spec ::
    "env \<Rightarrow> nat \<Rightarrow> addr \<Rightarrow> insert_behavior \<Rightarrow> src \<Rightarrow> (int \<times> src) option" where
  "sinode_insert_spec E type node behavior s =
     (if type = TYPE_FILE then sinode_insert_file E node s
      else if type = TYPE_TYPE then sinode_insert_name_loc E TYPE_TYPE node s
      else if type = TYPE_FUNC_GLOBAL then sinode_insert_name_resfile E TYPE_FUNC_GLOBAL node behavior s
      else if type = TYPE_FUNC_STATIC then sinode_insert_func_static E node behavior s
      else if type = TYPE_VAR_GLOBAL then sinode_insert_name_resfile E TYPE_VAR_GLOBAL node behavior s
      else if type = TYPE_VAR_STATIC then sinode_insert_name_loc E TYPE_VAR_STATIC node s
      else None)"

definition sinode_insert :: "env \<Rightarrow> addr \<Rightarrow> insert_behavior \<Rightarrow> src \<Rightarrow> (int \<times> src) option" where
  "sinode_insert E node behavior s =
     (let type = sinode_idtype s node in
      do {
        (err, s) \<leftarrow> (if behavior \<noteq> SINODE_INSERT_BH_REPLACE then sinode_insert_by_id E node s
                     else Some (0, s));
        (if err \<noteq> 0 then Some (- 1, s)
         else if type = TYPE_CODEP then Some (0, s)
         else sinode_insert_spec E type node behavior s)
      })"

subsection \<open>Search\<close>

text \<open>The loop over the types \<open>[type_min, type_max)\<close> of \<open>sinode_search_by_id\<close>.\<close>

fun search_id_types :: "src \<Rightarrow> siid \<Rightarrow> nat list \<Rightarrow> addr option" where
  "search_id_types s i [] = Some NULL"
| "search_id_types s i (t # ts) =
     (if TYPE_MAX \<le> t then None
      else case rb_find (cmp_id s i) (si_by_id s t) of
          Some d \<Rightarrow> Some d
        | None \<Rightarrow> search_id_types s i ts)"

definition sinode_search_by_id :: "src \<Rightarrow> siid \<Rightarrow> addr option" where
  "sinode_search_by_id s i =
     (let type = siid_type i;
          types = (if type = TYPE_NONE then [0 ..< TYPE_MAX] else [type ..< type + 1])
      in search_id_types s i types)"

definition ptr_of :: "addr option \<Rightarrow> addr" where
  "ptr_of r = (case r of None \<Rightarrow> NULL | Some d \<Rightarrow> d)"

definition sinode_search_file :: "src \<Rightarrow> string \<Rightarrow> addr" where
  "sinode_search_file s nm = ptr_of (rb_find (cmp_file s nm) (si_by_spec s TYPE_FILE))"

definition sinode_search_name_loc :: "src \<Rightarrow> nat \<Rightarrow> addr \<Rightarrow> int \<Rightarrow> int \<Rightarrow> string \<Rightarrow> addr" where
  "sinode_search_name_loc s type lf line col nm =
     ptr_of (rb_find (cmp_name_loc s nm lf line col) (si_by_spec s type))"

text \<open>First under the given resfile, then, when nothing is found, under the second.\<close>

definition sinode_search_name_resfile :: "src \<Rightarrow> nat \<Rightarrow> addr \<Rightarrow> addr \<Rightarrow> string \<Rightarrow> addr" where
  "sinode_search_name_resfile s type rf0 rf1 nm =
     (case rb_find (cmp_name_rf s nm rf0) (si_by_spec s type) of
        Some d \<Rightarrow> d
      | None \<Rightarrow>
          if rf1 \<noteq> NULL \<and> rf0 \<noteq> rf1
          then ptr_of (rb_find (cmp_name_rf s nm rf1) (si_by_spec s type))
          else NULL)"

text \<open>The untyped argument of \<open>sinode_search\<close>, as what its callers store in it.\<close>

datatype search_arg =
    ArgId siid
  | ArgFile string
  | ArgLoc addr int int string
  | ArgResfile addr addr string

fun sinode_search :: "src \<Rightarrow> nat \<Rightarrow> search_flag \<Rightarrow> search_arg \<Rightarrow> addr option" where
  "sinode_search s type SEARCH_BY_ID (ArgId i) = sinode_search_by_id s i"
| "sinode_search s type SEARCH_BY_SPEC (ArgFile nm) =
     (if type = TYPE_FILE then Some (sinode_search_file s nm) else None)"
| "sinode_search s type SEARCH_BY_SPEC (ArgLoc lf line col nm) =
     (if type = TYPE_TYPE \<or> type = TYPE_FUNC_STATIC \<or> type = TYPE_VAR_STATIC
      then Some (sinode_search_name_loc s type lf line col nm) else None)"
| "sinode_search s type SEARCH_BY_SPEC (ArgResfile rf0 rf1 nm) =
     (if type = TYPE_FUNC_GLOBAL \<or> type = TYPE_VAR_GLOBAL
      then Some (sinode_search_name_resfile s type rf0 rf1 nm) else None)"
| "sinode_search s type flag arg = None"

subsection \<open>Iteration\<close>

fun sinode_iter :: "addr tree \<Rightarrow> (addr \<Rightarrow> 'a \<Rightarrow> 'a) \<Rightarrow> 'a \<Rightarrow> 'a" where
  "sinode_iter Leaf cb a = a"
| "sinode_iter (Node l d r) cb a = sinode_iter r cb (cb d (sinode_iter l cb a))"

text \<open>
  \<open>__sinode_match\<close> counts the ids of a type from value 0 to the next free id and calls
  \<open>match\<close> on every node found; \<open>a\<close> is the memory \<open>match_arg\<close> points to.
\<close>

fun match_ids :: "src \<Rightarrow> nat \<Rightarrow> (addr \<Rightarrow> 'a \<Rightarrow> 'a) \<Rightarrow> siid list \<Rightarrow> 'a \<Rightarrow> 'a option" where
  "match_ids s type f [] a = Some a"
| "match_ids s type f (i # is) a =
     do {
       sn \<leftarrow> sinode_search s type SEARCH_BY_ID (ArgId i);
       match_ids s type f is (if sn = NULL then a else f sn a)
     }"

definition sinode_match_type :: "src \<Rightarrow> nat \<Rightarrow> (addr \<Rightarrow> 'a \<Rightarrow> 'a) \<Rightarrow> 'a \<Rightarrow> 'a option" where
  "sinode_match_type s type f a = match_ids s type f [mk_siid type 0 ..< si_id_idx s type] a"

definition sinode_match :: "src \<Rightarrow> string \<Rightarrow> (addr \<Rightarrow> 'a \<Rightarrow> 'a) \<Rightarrow> 'a \<Rightarrow> 'a option" where
  "sinode_match s type f a =
     (if type = ''var'' then
        do { a \<leftarrow> sinode_match_type s TYPE_VAR_GLOBAL f a; sinode_match_type s TYPE_VAR_STATIC f a }
      else if type = ''var_global'' then sinode_match_type s TYPE_VAR_GLOBAL f a
      else if type = ''var_static'' then sinode_match_type s TYPE_VAR_STATIC f a
      else if type = ''func'' then
        do { a \<leftarrow> sinode_match_type s TYPE_FUNC_GLOBAL f a; sinode_match_type s TYPE_FUNC_STATIC f a }
      else if type = ''func_global'' then sinode_match_type s TYPE_FUNC_GLOBAL f a
      else if type = ''func_static'' then sinode_match_type s TYPE_FUNC_STATIC f a
      else if type = ''type'' then sinode_match_type s TYPE_TYPE f a
      else Some a)"

end
