(* ===== verification/Sinode_Ids.thy ===== *)
theory Sinode_Ids
  imports Sinode
begin

text \<open>
  The ids \<open>sinode_id\<close> hands out: consecutive values of the type, for ever. The 28-bit
  counter wraps around, and the test meant to stop the program before that compares a
  28-bit value with \<open>2 ^ 64 - 1\<close>.
\<close>

lemma id_value_bound: "id_value i < 2 ^ 28"
  by (simp add: id_value_def ID_VALUE_BITS_def)

lemma id_value_0 [simp]: "id_value 0 = 0" and id_type_0 [simp]: "id_type 0 = 0"
  by (simp_all add: id_value_def id_type_def)

lemma mk_siid_mod [simp]: "mk_siid t (v mod 268435456) = mk_siid t v" "mk_siid (t mod 16) v = mk_siid t v"
  by (simp_all add: mk_siid_def ID_VALUE_BITS_def ID_TYPE_BITS_def)

lemma mk_siid_eq_iff: "mk_siid t v = mk_siid t w \<longleftrightarrow> v mod 2 ^ 28 = w mod 2 ^ 28"
proof -
  have "mk_siid t (x mod 2 ^ 28) = mk_siid t x" for x by simp
  then show ?thesis by (metis mk_siid_parts(1))
qed

lemma mk_siid_less:
  assumes "t < 16" "v < w" "w < 2 ^ 28"
  shows "mk_siid t v < mk_siid t w"
  using assms by (simp add: mk_siid_def ID_VALUE_BITS_def ID_TYPE_BITS_def)

text \<open>The counter of a type is ready: never used, or holding the type.\<close>

definition idx_ready :: "nat \<Rightarrow> siid \<Rightarrow> bool" where
  "idx_ready t i \<longleftrightarrow> i < 2 ^ 32 \<and> (i = 0 \<or> id_type i = t)"

lemma sinode_id_step:
  assumes "t < 16" "idx_ready t (si_id_idx s t)"
  shows "sinode_id t s = Some (mk_siid t (id_value (si_id_idx s t)),
    s\<lparr>si_id_idx := (si_id_idx s)(t := mk_siid t (id_value (si_id_idx s t) + 1))\<rparr>)"
proof -
  let ?i = "si_id_idx s t"
  have "id_value ?i \<noteq> 2 ^ 64 - 1" using id_value_bound [of ?i] by simp
  moreover have "id_value ?i \<noteq> 0 \<Longrightarrow> mk_siid t (id_value ?i) = ?i"
    using assms siid_split [of ?i] by (auto simp: idx_ready_def id_value_def)
  moreover have "id_type ?i = t" if "?i \<noteq> 0" using assms that by (simp add: idx_ready_def)
  ultimately show ?thesis
    using assms(1) by (cases "?i = 0") (auto simp: sinode_id_def Let_def)
qed

lemma idx_ready_mk: "t < 16 \<Longrightarrow> idx_ready t (mk_siid t v)"
  using mk_siid_bound [of t v] by (simp add: idx_ready_def)

fun sinode_ids :: "nat \<Rightarrow> nat \<Rightarrow> src \<Rightarrow> (siid list \<times> src) option" where
  "sinode_ids 0 t s = Some ([], s)"
| "sinode_ids (Suc n) t s =
     do { (i, s) \<leftarrow> sinode_id t s; (is, s) \<leftarrow> sinode_ids n t s; Some (i # is, s) }"

lemma sinode_ids_from:
  "t < 16 \<Longrightarrow> idx_ready t (si_id_idx s t) \<Longrightarrow> id_value (si_id_idx s t) = v mod 2 ^ 28 \<Longrightarrow>
   \<exists>s'. sinode_ids n t s = Some (map (mk_siid t) [v ..< v + n], s')"
proof (induction n arbitrary: s v)
  case 0
  then show ?case by simp
next
  case (Suc n)
  let ?s = "s\<lparr>si_id_idx := (si_id_idx s)(t := mk_siid t (id_value (si_id_idx s t) + 1))\<rparr>"
  have "id_value (si_id_idx ?s t) = Suc v mod 2 ^ 28"
    using Suc.prems(3) by (simp add: mod_Suc_eq)
  with Suc.IH [of ?s "Suc v"] Suc.prems(1)
  obtain s' where "sinode_ids n t ?s = Some (map (mk_siid t) [Suc v ..< Suc v + n], s')"
    by (auto simp: idx_ready_mk)
  moreover have "mk_siid t v # map (mk_siid t) [Suc v ..< Suc v + n] =
      map (mk_siid t) [v ..< v + Suc n]"
    by (simp add: upt_conv_Cons del: upt_Suc)
  ultimately show ?case
    using sinode_id_step [OF Suc.prems(1,2)] Suc.prems(3) by (simp del: upt_Suc)
qed

text \<open>
  C23. From a fresh type, \<open>sinode_id\<close> never aborts: \<open>n\<close> calls return the values \<open>0\<close> to
  \<open>n - 1\<close> modulo \<open>2 ^ 28\<close>, all different exactly when \<open>n \<le> 2 ^ 28\<close>. The overflow check
  of the code is never reached, and the first id is handed out again instead.
\<close>

theorem sinode_id_wraps:
  assumes "t < TYPE_MAX" "si_id_idx s t = 0"
  shows "\<exists>is s'. sinode_ids n t s = Some (is, s') \<and> is = map (mk_siid t) [0 ..< n]
    \<and> (distinct is \<longleftrightarrow> n \<le> 2 ^ 28)
    \<and> (\<forall>i < n. id_type (is ! i) = t \<and> id_value (is ! i) = i mod 2 ^ 28)"
proof -
  have "t < 16" "idx_ready t (si_id_idx s t)" "id_value (si_id_idx s t) = 0 mod 2 ^ 28"
    using assms by (auto simp: idx_ready_def id_value_def)
  from sinode_ids_from [OF this, of n]
  obtain s' where run: "sinode_ids n t s = Some (map (mk_siid t) [0 ..< n], s')" by auto
  have "distinct (map (mk_siid t) [0 ..< n]) \<longleftrightarrow> n \<le> 2 ^ 28"
  proof
    assume d: "distinct (map (mk_siid t) [0 ..< n])"
    show "n \<le> 2 ^ 28"
    proof (rule ccontr)
      assume "\<not> n \<le> 2 ^ 28"
      then have "2 ^ 28 \<in> set [0 ..< n]" "0 \<in> set [0 ..< n]" by auto
      moreover have "mk_siid t (2 ^ 28) = mk_siid t 0" by (simp add: mk_siid_eq_iff)
      ultimately show False using d by (metis distinct_map inj_onD power_not_zero zero_neq_numeral)
    qed
  next
    assume le: "n \<le> 2 ^ 28"
    then have "inj_on (mk_siid t) (set [0 ..< n])" by (auto simp: inj_on_def mk_siid_eq_iff)
    then show "distinct (map (mk_siid t) [0 ..< n])" by (simp add: distinct_map)
  qed
  with run assms(1) show ?thesis by auto
qed

theorem sinode_id_wraps_witness:
  "\<exists>is s'. sinode_ids 3 TYPE_FUNC_GLOBAL src0 = Some (is, s') \<and> distinct is
     \<and> is = [0x20000000, 0x20000001, 0x20000002]"
proof -
  have "si_id_idx src0 2 = 0" by (simp add: src0_def)
  from sinode_id_wraps [OF _ this, of 3] show ?thesis
    by (simp add: mk_siid_def ID_TYPE_BITS_def ID_VALUE_BITS_def upt_rec)
qed

end
