(* ===== verification/Sinode_Inv.thy ===== *)
theory Sinode_Inv
  imports Sinode_Ids
begin

text \<open>
  The invariant of the node indexes and what every operation keeps of it: both trees of a
  type are ordered, the nodes linked by specification are linked by id, ids carry their
  type and lie below the counter, and every linked node is in the used part of the region
  with an interned name.
\<close>

subsection \<open>One order for the specification trees\<close>

type_synonym spec_key = "string \<times> addr \<times> int \<times> int"

definition by_rf :: "nat \<Rightarrow> bool" where
  "by_rf t \<longleftrightarrow> t = TYPE_FUNC_GLOBAL \<or> t = TYPE_VAR_GLOBAL"

definition spec_key :: "src \<Rightarrow> nat \<Rightarrow> addr \<Rightarrow> spec_key" where
  "spec_key s t d =
     (if t = TYPE_FILE then (sn_str s d, 0, 0, 0)
      else if by_rf t then (sn_str s d, sn_rf s d, 0, 0)
      else (sn_str s d, sn_loc_file (h_sn s d), sn_loc_line (h_sn s d), sn_loc_col (h_sn s d)))"

definition spec_cmp :: "src \<Rightarrow> nat \<Rightarrow> spec_key \<Rightarrow> addr \<Rightarrow> int" where
  "spec_cmp s t k d = (if k < spec_key s t d then 1 else if spec_key s t d < k then - 1 else 0)"

lemma strcmp_sign: "strcmp x y = (if y < x then 1 else if x < y then - 1 else 0)"
  by (induction x y rule: strcmp.induct) auto

lemma cmp_file_spec: "cmp_file s nm d = spec_cmp s TYPE_FILE (nm, 0, 0, 0) d"
  by (simp add: cmp_file_def spec_cmp_def spec_key_def strcmp_sign less_prod_def')

lemma cmp_name_rf_spec: "by_rf t \<Longrightarrow> cmp_name_rf s nm rf d = spec_cmp s t (nm, rf, 0, 0) d"
  by (auto simp: cmp_name_rf_def spec_cmp_def spec_key_def strcmp_sign less_prod_def' by_rf_def
      Let_def)

lemma pair_less: "(a, b) < (c, d) \<longleftrightarrow> a < c \<or> a = c \<and> b < d"
  for a c :: "'a::linorder" and b d :: "'b::linorder"
  by (auto simp: less_prod_def')

text \<open>A chain of three-way comparisons is the comparison of the tuples.\<close>

definition cmp3 :: "'k::linorder \<Rightarrow> 'k \<Rightarrow> int" where
  "cmp3 k x = (if k < x then 1 else if x < k then - 1 else 0)"

lemma cmp3_pair: "cmp3 (a, b) (c, d) = (if cmp3 a c \<noteq> 0 then cmp3 a c else cmp3 b d)"
  by (cases a c rule: linorder_cases) (auto simp: cmp3_def pair_less)

lemma cmp_name_loc_spec:
  assumes "t \<noteq> TYPE_FILE" "\<not> by_rf t"
  shows "cmp_name_loc s nm lf line col d = spec_cmp s t (nm, lf, line, col) d"
proof -
  let ?n = "h_sn s d"
  have "spec_key s t d = (sn_str s d, sn_loc_file ?n, sn_loc_line ?n, sn_loc_col ?n)"
    using assms by (simp add: spec_key_def)
  then have "spec_cmp s t (nm, lf, line, col) d =
      cmp3 (nm, lf, line, col) (sn_str s d, sn_loc_file ?n, sn_loc_line ?n, sn_loc_col ?n)"
    by (simp only: spec_cmp_def cmp3_def)
  also have "\<dots> = cmp_name_loc s nm lf line col d"
    unfolding cmp3_pair by (simp add: cmp3_def cmp_name_loc_def strcmp_sign Let_def)
  finally show ?thesis by simp
qed

definition id_key :: "src \<Rightarrow> addr \<Rightarrow> siid" where
  "id_key s d = sn_id (h_sn s d)"

interpretation id_ix: rb_index "id_key s" "cmp_id s" for s
  by unfold_locales (auto simp: cmp_id_def id_key_def sinode_id_all_def siid_all_def)

interpretation spec_ix: rb_index "spec_key s t" "spec_cmp s t" for s t
  by unfold_locales (auto simp: spec_cmp_def)

subsection \<open>The invariant\<close>

definition node_ok :: "src \<Rightarrow> nat \<Rightarrow> addr \<Rightarrow> bool" where
  "node_ok s t d \<longleftrightarrow> 0 < d \<and> d < buf_cur (si_sbuf s) \<and>
     id_type (sn_id (h_sn s d)) = t \<and> mk_siid t 0 \<le> sn_id (h_sn s d) \<and>
     sn_id (h_sn s d) < si_id_idx s t"

definition name_ok :: "src \<Rightarrow> addr \<Rightarrow> bool" where
  "name_ok s d \<longleftrightarrow> sn_name (h_sn s d) \<in> set_tree (si_names_root s)"

definition type_inv :: "src \<Rightarrow> nat \<Rightarrow> bool" where
  "type_inv s t \<longleftrightarrow>
     rb_sorted (id_key s) (si_by_id s t) \<and> rb_sorted (spec_key s t) (si_by_spec s t) \<and>
     set_tree (si_by_spec s t) \<subseteq> set_tree (si_by_id s t) \<and>
     (\<forall>d \<in> set_tree (si_by_id s t). node_ok s t d) \<and>
     (\<forall>d \<in> set_tree (si_by_spec s t). name_ok s d)"

definition sinode_inv :: "src \<Rightarrow> bool" where
  "sinode_inv s \<longleftrightarrow> names_inv s \<and> (\<forall>t < TYPE_MAX. type_inv s t \<and> idx_ready t (si_id_idx s t))"

declare sinode_inv_def [inv_defs] type_inv_def [inv_defs] node_ok_def [inv_defs]

lemma sinode_inv_src0: "sinode_inv src0"
  using names_inv_src0
  by (simp add: sinode_inv_def type_inv_def src0_def idx_ready_def id_value_def)

text \<open>A node that no tree links may change freely, and the heaps may grow above the cursor.\<close>

definition agree_on :: "addr set \<Rightarrow> src \<Rightarrow> src \<Rightarrow> bool" where
  "agree_on A s s' \<longleftrightarrow> (\<forall>d \<in> A. h_sn s' d = h_sn s d \<and> sn_rf s' d = sn_rf s d
     \<and> (name_ok s d \<longrightarrow> sn_str s' d = sn_str s d \<and> name_ok s' d))"

lemma type_inv_agree:
  assumes "type_inv s t" "agree_on (set_tree (si_by_id s t)) s s'"
    and "si_by_id s' t = si_by_id s t" "si_by_spec s' t = si_by_spec s t"
    and "buf_cur (si_sbuf s) \<le> buf_cur (si_sbuf s')" "si_id_idx s t \<le> si_id_idx s' t"
  shows "type_inv s' t"
proof -
  let ?A = "set_tree (si_by_id s t)" and ?B = "set_tree (si_by_spec s t)"
  have sub: "?B \<subseteq> ?A" and ok: "\<forall>d \<in> ?A. node_ok s t d" "\<forall>d \<in> ?B. name_ok s d"
    using assms(1) by (auto simp: type_inv_def)
  have k1: "id_key s' d = id_key s d" if "d \<in> ?A" for d
    using assms(2) that by (simp add: agree_on_def id_key_def)
  have k2: "spec_key s' t d = spec_key s t d" if "d \<in> ?B" for d
    using assms(2) that sub ok(2) by (auto simp: agree_on_def spec_key_def)
  have "rb_sorted (id_key s') (si_by_id s t)" "rb_sorted (spec_key s' t) (si_by_spec s t)"
    using assms(1) rb_sorted_cong [of "si_by_id s t" "id_key s'" "id_key s"] k1
      rb_sorted_cong [of "si_by_spec s t" "spec_key s' t" "spec_key s t"] k2
    by (simp_all add: type_inv_def)
  moreover have "node_ok s' t d" if "d \<in> ?A" for d
    using ok(1) that assms(2,5,6) by (fastforce simp: node_ok_def agree_on_def)
  moreover have "name_ok s' d" if "d \<in> ?B" for d
    using ok(2) that assms(2) sub by (auto simp: agree_on_def)
  ultimately show ?thesis using assms(3,4) sub by (simp add: type_inv_def)
qed

end
