(* ===== verification/Sinode_Props.thy ===== *)
theory Sinode_Props
  imports Sinode_Inv
begin

text \<open>
  What creating, inserting, replacing and searching nodes does to the indexes: the
  functional behaviour on every branch, the invariant, and the places where the code's
  replacement leaves the indexes wrong.
\<close>

subsection \<open>Creating a node\<close>

text \<open>A node of type \<open>t\<close> that is allocated and numbered but linked nowhere.\<close>

definition fresh_node :: "src \<Rightarrow> nat \<Rightarrow> addr \<Rightarrow> bool" where
  "fresh_node s t p \<longleftrightarrow> node_ok s t p \<and> (\<forall>u < TYPE_MAX. p \<notin> set_tree (si_by_id s u)) \<and>
     sn_id (h_sn s p) \<notin> id_key s ` set_tree (si_by_id s t)"

lemma inv_below:
  "sinode_inv s \<Longrightarrow> t < TYPE_MAX \<Longrightarrow> d \<in> set_tree (si_by_id s t) \<Longrightarrow> node_ok s t d"
  by (simp add: sinode_inv_def type_inv_def)

lemma name_ok_below: "names_inv s \<Longrightarrow> name_ok s d \<Longrightarrow> sn_name (h_sn s d) < buf_cur (si_sbuf s)"
  by (auto simp: names_inv_def name_ok_def)

lemma upd_sn_agree: "p \<notin> A \<Longrightarrow> agree_on A s (upd_sn p f s)"
  by (auto simp: agree_on_def upd_sn_def sn_rf_def sn_str_def name_ok_def)

lemma upd_sn_inv:
  assumes "sinode_inv s" "\<forall>u < TYPE_MAX. p \<notin> set_tree (si_by_id s u)"
  shows "sinode_inv (upd_sn p f s)"
proof -
  have "type_inv (upd_sn p f s) t" if "t < TYPE_MAX" for t
  proof (rule type_inv_agree)
    show "type_inv s t" using assms(1) that by (simp add: sinode_inv_def)
    show "agree_on (set_tree (si_by_id s t)) s (upd_sn p f s)"
      using assms(2) that by (simp add: upd_sn_agree)
  qed (simp_all add: upd_sn_def)
  moreover have "names_inv (upd_sn p f s)"
    using assms(1) by (simp add: sinode_inv_def names_inv_def upd_sn_def)
  ultimately show ?thesis using assms(1) by (simp add: sinode_inv_def upd_sn_def)
qed

lemma buf_get_inv:
  assumes "env_ok E" "sinode_inv s" "len_ok n" "si_buf_get E n s = Some (p, s')"
  shows "sinode_inv s'" "p = buf_cur (si_sbuf s)" "p + n \<le> buf_cur (si_sbuf s')"
    "\<exists>b. s' = s\<lparr>si_sbuf := b\<rparr>" "0 < p"
proof -
  have sb: "src_buf_inv (si_sbuf s)" using assms(2) by (simp add: sinode_inv_def names_inv_def)
  note g = si_buf_get_spec [OF assms(1) sb assms(3,4)]
  show "p = buf_cur (si_sbuf s)" "p + n \<le> buf_cur (si_sbuf s')" "0 < p"
    "\<exists>b. s' = s\<lparr>si_sbuf := b\<rparr>" by (rule g)+
  from g(4) obtain b where b: "s' = s\<lparr>si_sbuf := b\<rparr>" by blast
  have le: "buf_cur (si_sbuf s) \<le> buf_cur b" using g(1,3) b by simp
  have ty: "type_inv (s\<lparr>si_sbuf := b\<rparr>) t" if "t < TYPE_MAX" for t
  proof (rule type_inv_agree)
    show "type_inv s t" using assms(2) that by (simp add: sinode_inv_def)
    show "agree_on (set_tree (si_by_id s t)) s (s\<lparr>si_sbuf := b\<rparr>)"
      by (simp add: agree_on_def sn_rf_def sn_str_def name_ok_def)
  qed (simp_all add: le)
  moreover have "names_inv s" using assms(2) by (simp add: sinode_inv_def)
  moreover have "src_buf_inv b" using g(2) b by simp
  ultimately have "names_inv (s\<lparr>si_sbuf := b\<rparr>)" using le by (fastforce simp: names_inv_def)
  with ty show "sinode_inv s'" unfolding b using assms(2) by (simp add: sinode_inv_def)
qed

lemma name_add_inv:
  assumes "env_ok E" "sinode_inv s" "namelen_ok E nm" "name_list_add E nm s = Some (q, s')"
  shows "sinode_inv s'" "h_name s' q = nm" "q \<in> set_tree (si_names_root s')"
    "\<exists>b h r. s' = s\<lparr>si_sbuf := b, h_name := h, si_names_root := r\<rparr>"
    "buf_cur (si_sbuf s) \<le> buf_cur (si_sbuf s')"
proof -
  have ni: "names_inv s" using assms(2) by (simp add: sinode_inv_def)
  note a = name_list_add_spec [OF assms(1) ni assms(3,4)]
  show "h_name s' q = nm" "q \<in> set_tree (si_names_root s')"
    "\<exists>b h r. s' = s\<lparr>si_sbuf := b, h_name := h, si_names_root := r\<rparr>"
    "buf_cur (si_sbuf s) \<le> buf_cur (si_sbuf s')" using a by blast+
  from a(8) obtain b h r where s': "s' = s\<lparr>si_sbuf := b, h_name := h, si_names_root := r\<rparr>" by blast
  have "type_inv s' t" if "t < TYPE_MAX" for t
  proof (rule type_inv_agree)
    show "type_inv s t" using assms(2) that by (simp add: sinode_inv_def)
    show "agree_on (set_tree (si_by_id s t)) s s'"
    proof -
      have "h_name s' (sn_name (h_sn s d)) = h_name s (sn_name (h_sn s d))" if "name_ok s d" for d
        using a(6) name_ok_below [OF ni that] by simp
      moreover have "sn_name (h_sn s d) \<in> set_tree (si_names_root s')" if "name_ok s d" for d
        using a(5) that by (auto simp: name_ok_def)
      ultimately show ?thesis
        using s' by (auto simp: agree_on_def sn_rf_def sn_str_def name_ok_def)
    qed
  qed (use s' a(7) in auto)
  then show "sinode_inv s'" using a(1) assms(2) s' by (simp add: sinode_inv_def)
qed

lemma sinode_id_inv:
  assumes "sinode_inv s" "t < TYPE_MAX" "id_value (si_id_idx s t) + 1 < 2 ^ 28"
    and "sinode_id t s = Some (i, s')"
  shows "sinode_inv s'" "i = mk_siid t (id_value (si_id_idx s t))" "si_id_idx s t \<le> i"
    "i < si_id_idx s' t" "\<exists>x. s' = s\<lparr>si_id_idx := x\<rparr>" "mk_siid t 0 \<le> i" "id_type i = t"
proof -
  let ?v = "id_value (si_id_idx s t)"
  have rd: "idx_ready t (si_id_idx s t)" "t < 16"
    using assms(1,2) by (auto simp: sinode_inv_def)
  have st: "i = mk_siid t ?v" "s' = s\<lparr>si_id_idx := (si_id_idx s)(t := mk_siid t (?v + 1))\<rparr>"
    using sinode_id_step [OF rd(2,1)] assms(4) by auto
  show "i = mk_siid t ?v" by (rule st(1))
  show le: "si_id_idx s t \<le> i"
    using rd st(1) siid_split [of "si_id_idx s t"] by (auto simp: idx_ready_def)
  show lt: "i < si_id_idx s' t" using st mk_siid_less [OF rd(2), of ?v "?v + 1"] assms(3) by simp
  show "\<exists>x. s' = s\<lparr>si_id_idx := x\<rparr>" using st by blast
  show "mk_siid t 0 \<le> i" "id_type i = t"
    using st(1) assms(2) by (simp_all add: mk_siid_def ID_VALUE_BITS_def ID_TYPE_BITS_def id_type_def)
  define x where "x = (si_id_idx s)(t := mk_siid t (?v + 1))"
  have s': "s' = s\<lparr>si_id_idx := x\<rparr>" using st(2) by (simp add: x_def)
  have mono: "si_id_idx s u \<le> x u" for u using le lt s' by (simp add: x_def)
  have "type_inv (s\<lparr>si_id_idx := x\<rparr>) u" if "u < TYPE_MAX" for u
  proof (rule type_inv_agree)
    show "type_inv s u" using assms(1) that by (simp add: sinode_inv_def)
    show "agree_on (set_tree (si_by_id s u)) s (s\<lparr>si_id_idx := x\<rparr>)"
      by (simp add: agree_on_def sn_rf_def sn_str_def name_ok_def)
  qed (simp_all add: mono)
  moreover have "idx_ready u (x u)" if "u < TYPE_MAX" for u
    using assms(1) that idx_ready_mk [OF rd(2), of "?v + 1"] by (simp add: sinode_inv_def x_def)
  moreover have "names_inv (s\<lparr>si_id_idx := x\<rparr>)"
    using assms(1) by (simp add: sinode_inv_def names_inv_def)
  ultimately show "sinode_inv s'" unfolding s' by (simp add: sinode_inv_def)
qed


text \<open>What \<open>sinode_new\<close> needs of its arguments and of the state.\<close>

definition new_ok :: "env \<Rightarrow> nat \<Rightarrow> string option \<Rightarrow> nat option \<Rightarrow> src \<Rightarrow> bool" where
  "new_ok E t name data s \<longleftrightarrow> env_ok E \<and> sinode_inv s \<and> t < TYPE_MAX \<and>
     id_value (si_id_idx s t) + 1 < 2 ^ 28 \<and> len_ok (csize E SzSinode) \<and>
     (case name of None \<Rightarrow> True | Some nm \<Rightarrow> namelen_ok E nm) \<and>
     (case data of None \<Rightarrow> True | Some n \<Rightarrow> len_ok n)"

lemma fresh_node_frame:
  assumes "fresh_node s t p" "h_sn s' p = h_sn s p" "si_by_id s' = si_by_id s"
    and "\<forall>d \<in> set_tree (si_by_id s t). h_sn s' d = h_sn s d"
    and "buf_cur (si_sbuf s) \<le> buf_cur (si_sbuf s')" "si_id_idx s' = si_id_idx s"
  shows "fresh_node s' t p"
proof -
  have "id_key s' ` set_tree (si_by_id s t) = id_key s ` set_tree (si_by_id s t)"
    using assms(4) by (simp add: id_key_def)
  then show ?thesis using assms(1,2,3,5,6) by (simp add: fresh_node_def node_ok_def)
qed

lemma fresh_node_upd:
  assumes "fresh_node s t p" "t < TYPE_MAX" "sn_id (f (h_sn s p)) = sn_id (h_sn s p)"
  shows "fresh_node (upd_sn p f s) t p"
proof -
  have "p \<notin> set_tree (si_by_id s t)" using assms(1,2) by (simp add: fresh_node_def)
  then have "id_key (upd_sn p f s) ` set_tree (si_by_id s t) = id_key s ` set_tree (si_by_id s t)"
    by (intro image_cong) (auto simp: id_key_def upd_sn_def)
  then show ?thesis using assms(1,3) by (simp add: fresh_node_def node_ok_def upd_sn_def)
qed

text \<open>The first half of \<open>sinode_new\<close>: the zeroed, numbered node.\<close>

lemma new_node_numbered:
  assumes "new_ok E t name data s" "si_buf_get E (csize E SzSinode) s = Some (p, s1)"
    and "sinode_id t (upd_sn p (\<lambda>_. sinode_zero) s1) = Some (i, s2)"
    and "s3 = upd_sn p (sn_id_update (\<lambda>_. i)) s2"
  shows "sinode_inv s3" "fresh_node s3 t p" "i = mk_siid t (id_value (si_id_idx s t))"
    "p = buf_cur (si_sbuf s)"
    "\<exists>b x. s3 = s\<lparr>si_sbuf := b, si_id_idx := x, h_sn := (h_sn s)(p := sinode_zero\<lparr>sn_id := i\<rparr>)\<rparr>"
proof -
  note ok = assms(1) [unfolded new_ok_def]
  have inv: "sinode_inv s" and t: "t < TYPE_MAX" using ok by auto
  note g = buf_get_inv [OF _ inv _ assms(2)]
  have g: "sinode_inv s1" "p = buf_cur (si_sbuf s)" "p + csize E SzSinode \<le> buf_cur (si_sbuf s1)"
    "0 < p" using g ok by auto
  obtain b where b: "s1 = s\<lparr>si_sbuf := b\<rparr>" using buf_get_inv(4) [OF _ inv _ assms(2)] ok by auto
  let ?z = "upd_sn p (\<lambda>_. sinode_zero) s1"
  have out: "p \<notin> set_tree (si_by_id s u)" if "u < TYPE_MAX" for u
    using inv_below [OF inv that, of p] g(2) by (auto simp: node_ok_def)
  have zi: "sinode_inv ?z" using upd_sn_inv [OF g(1), of p] out b by simp
  have idx: "si_id_idx ?z t = si_id_idx s t" using b by (simp add: upd_sn_def)
  note i = sinode_id_inv [OF zi t _ assms(3)]
  have i: "sinode_inv s2" "i = mk_siid t (id_value (si_id_idx s t))" "si_id_idx s t \<le> i"
    "i < si_id_idx s2 t" "mk_siid t 0 \<le> i" "id_type i = t" using i idx ok by auto
  obtain x where x: "s2 = ?z\<lparr>si_id_idx := x\<rparr>"
    using sinode_id_inv(5) [OF zi t _ assms(3)] idx ok by auto
  have by_id: "si_by_id s2 = si_by_id s" using x b by (simp add: upd_sn_def)
  show "sinode_inv s3"
    unfolding assms(4) using upd_sn_inv [OF i(1), of p] out by_id by simp
  have "0 < csize E SzSinode" using ok by (auto intro: env_ok_size)
  then have "node_ok s3 t p"
    using g(2,3,4) i(4,5,6) b x by (simp add: node_ok_def assms(4) upd_sn_def)
  moreover have "id_key s3 d < i" if d: "d \<in> set_tree (si_by_id s t)" for d
  proof -
    have "d \<noteq> p" using out [OF t] d by auto
    then have "id_key s3 d = sn_id (h_sn s d)"
      using b x by (simp add: id_key_def assms(4) upd_sn_def)
    then show ?thesis using inv_below [OF inv t d] i(3) by (simp add: node_ok_def)
  qed
  then have "i \<notin> id_key s3 ` set_tree (si_by_id s t)" by blast
  ultimately show "fresh_node s3 t p"
    using out by_id by (simp add: fresh_node_def assms(4) upd_sn_def)
  show "i = mk_siid t (id_value (si_id_idx s t))" "p = buf_cur (si_sbuf s)" by (rule i g)+
  show "\<exists>b x. s3 = s\<lparr>si_sbuf := b, si_id_idx := x, h_sn := (h_sn s)(p := sinode_zero\<lparr>sn_id := i\<rparr>)\<rparr>"
    using b x by (auto simp: assms(4) upd_sn_def)
qed


text \<open>
  What the second half keeps: a step that only extends the region, the names or the fields
  of the new node other than its id.
\<close>

definition extends_at :: "addr \<Rightarrow> src \<Rightarrow> src \<Rightarrow> bool" where
  "extends_at p s s' \<longleftrightarrow> (\<exists>b h r f. s' = s\<lparr>si_sbuf := b, h_name := h, si_names_root := r,
       h_sn := (h_sn s)(p := f (h_sn s p))\<rparr> \<and> sn_id (f (h_sn s p)) = sn_id (h_sn s p)) \<and>
     buf_cur (si_sbuf s) \<le> buf_cur (si_sbuf s')"

lemma extends_at_fresh:
  assumes "extends_at p s s'" "fresh_node s t p" "t < TYPE_MAX"
  shows "fresh_node s' t p"
proof -
  obtain b h r f where s': "s' = s\<lparr>si_sbuf := b, h_name := h, si_names_root := r,
      h_sn := (h_sn s)(p := f (h_sn s p))\<rparr>" and f: "sn_id (f (h_sn s p)) = sn_id (h_sn s p)"
    and le: "buf_cur (si_sbuf s) \<le> buf_cur (si_sbuf s')"
    using assms(1) by (auto simp: extends_at_def)
  have "fresh_node (upd_sn p f s) t p" using fresh_node_upd [of s t p f] assms(2,3) f by blast
  then show ?thesis
    by (rule fresh_node_frame) (use s' le in \<open>auto simp: upd_sn_def\<close>)
qed

lemma new_node_name:
  assumes "env_ok E" "sinode_inv s" "fresh_node s t p" "t < TYPE_MAX"
    and "namelen_ok E nm" "name_list_add E nm s = Some (q, s1)"
    and "s2 = upd_sn p (\<lambda>n. n\<lparr>sn_name := q, sn_namelen := length nm + 1\<rparr>) s1"
  shows "sinode_inv s2" "extends_at p s s2" "sn_str s2 p = nm" "name_ok s2 p"
    "h_sn s2 p = (h_sn s p)\<lparr>sn_name := q, sn_namelen := length nm + 1\<rparr>"
proof -
  note a = name_add_inv [OF assms(1,2,5,6)]
  obtain b h r where s1: "s1 = s\<lparr>si_sbuf := b, h_name := h, si_names_root := r\<rparr>"
    using a(4) by blast
  have "\<forall>u < TYPE_MAX. p \<notin> set_tree (si_by_id s1 u)" using assms(3) s1 by (simp add: fresh_node_def)
  then show "sinode_inv s2" unfolding assms(7) by (rule upd_sn_inv [OF a(1)])
  show "extends_at p s s2"
    unfolding extends_at_def
  proof (intro conjI exI [of _ b] exI [of _ h] exI [of _ r]
      exI [of _ "\<lambda>n. n\<lparr>sn_name := q, sn_namelen := length nm + 1\<rparr>"])
    show "buf_cur (si_sbuf s) \<le> buf_cur (si_sbuf s2)" using a(5) by (simp add: assms(7) upd_sn_def)
  qed (simp_all add: s1 assms(7) upd_sn_def)
  show "sn_str s2 p = nm" "name_ok s2 p"
    using a(2,3) by (simp_all add: assms(7) upd_sn_def sn_str_def name_ok_def)
  show "h_sn s2 p = (h_sn s p)\<lparr>sn_name := q, sn_namelen := length nm + 1\<rparr>"
    by (simp add: assms(7) upd_sn_def s1)
qed

lemma new_node_data:
  assumes "env_ok E" "sinode_inv s" "fresh_node s t p" "t < TYPE_MAX" "len_ok n"
    and "si_buf_get E n s = Some (d, s1)"
    and "s2 = upd_sn p (\<lambda>m. m\<lparr>sn_data := d, sn_datalen := n\<rparr>) s1"
  shows "sinode_inv s2" "extends_at p s s2" "sn_str s2 p = sn_str s p" "name_ok s2 p = name_ok s p"
    "h_sn s2 p = (h_sn s p)\<lparr>sn_data := d, sn_datalen := n\<rparr>"
proof -
  note a = buf_get_inv [OF assms(1,2,5,6)]
  obtain b where s1: "s1 = s\<lparr>si_sbuf := b\<rparr>" using a(4) by blast
  have "\<forall>u < TYPE_MAX. p \<notin> set_tree (si_by_id s1 u)" using assms(3) s1 by (simp add: fresh_node_def)
  then show "sinode_inv s2" unfolding assms(7) by (rule upd_sn_inv [OF a(1)])
  show "extends_at p s s2"
    unfolding extends_at_def
  proof (intro conjI exI [of _ b] exI [of _ "h_name s"] exI [of _ "si_names_root s"]
      exI [of _ "\<lambda>m. m\<lparr>sn_data := d, sn_datalen := n\<rparr>"])
    show "buf_cur (si_sbuf s) \<le> buf_cur (si_sbuf s2)"
      using a(2,3) by (simp add: assms(7) upd_sn_def)
  qed (simp_all add: s1 assms(7) upd_sn_def)
  show "sn_str s2 p = sn_str s p" "name_ok s2 p = name_ok s p"
    "h_sn s2 p = (h_sn s p)\<lparr>sn_data := d, sn_datalen := n\<rparr>"
    by (simp_all add: assms(7) upd_sn_def sn_str_def name_ok_def s1)
qed

lemma extends_at_trans: "extends_at p s s1 \<Longrightarrow> extends_at p s1 s2 \<Longrightarrow> extends_at p s s2"
proof -
  assume "extends_at p s s1" and "extends_at p s1 s2"
  then obtain b h r f b' h' r' f' where s1: "s1 = s\<lparr>si_sbuf := b, h_name := h, si_names_root := r,
      h_sn := (h_sn s)(p := f (h_sn s p))\<rparr>" "sn_id (f (h_sn s p)) = sn_id (h_sn s p)"
    and s2: "s2 = s1\<lparr>si_sbuf := b', h_name := h', si_names_root := r',
      h_sn := (h_sn s1)(p := f' (h_sn s1 p))\<rparr>" "sn_id (f' (h_sn s1 p)) = sn_id (h_sn s1 p)"
    and le: "buf_cur (si_sbuf s) \<le> buf_cur (si_sbuf s1)" "buf_cur (si_sbuf s1) \<le> buf_cur (si_sbuf s2)"
    unfolding extends_at_def by blast
  have "s2 = s\<lparr>si_sbuf := b', h_name := h', si_names_root := r',
      h_sn := (h_sn s)(p := (f' \<circ> f) (h_sn s p))\<rparr> \<and> sn_id ((f' \<circ> f) (h_sn s p)) = sn_id (h_sn s p)"
    using s1 s2 by simp
  then show "extends_at p s s2" unfolding extends_at_def using le by fastforce
qed

lemma extends_at_refl: "extends_at p s s"
  unfolding extends_at_def
  by (intro conjI exI [of _ "si_sbuf s"] exI [of _ "h_name s"] exI [of _ "si_names_root s"]
      exI [of _ "\<lambda>n. n"]) simp_all


lemma sinode_new_spec:
  assumes ok: "new_ok E t name data s" and run: "sinode_new E t name data s = Some (p, s')"
  shows "sinode_inv s'" "fresh_node s' t p" "p = buf_cur (si_sbuf s)"
    "sn_id (h_sn s' p) = mk_siid t (id_value (si_id_idx s t))"
    "si_by_id s' = si_by_id s" "si_by_spec s' = si_by_spec s" "h_sb s' = h_sb s"
    "\<And>d. d \<noteq> p \<Longrightarrow> h_sn s' d = h_sn s d"
    "name = Some nm \<Longrightarrow> sn_str s' p = nm \<and> name_ok s' p \<and> sn_namelen (h_sn s' p) = length nm + 1"
    "name = None \<Longrightarrow> sn_name (h_sn s' p) = NULL"
    "data = Some n \<Longrightarrow> sn_datalen (h_sn s' p) = n"
    "sn_attributes (h_sn s' p) = [] \<and> sn_buf (h_sn s' p) = NULL \<and> sn_loc_file (h_sn s' p) = NULL"
proof -
  note ok' = ok [unfolded new_ok_def]
  have E: "env_ok E" and t: "t < TYPE_MAX" using ok' by auto
  obtain s1 i s2 where g: "si_buf_get E (csize E SzSinode) s = Some (p, s1)"
    and i: "sinode_id t (upd_sn p (\<lambda>_. sinode_zero) s1) = Some (i, s2)"
    using run by (auto simp: sinode_new_def bind_splits Let_def)
  define s3 where "s3 = upd_sn p (sn_id_update (\<lambda>_. i)) s2"
  note n = new_node_numbered [OF ok g i s3_def]
  obtain s4 where s4: "(case name of None \<Rightarrow> Some s3 | Some nm \<Rightarrow>
      do { (q, s) \<leftarrow> name_list_add E nm s3;
           Some (upd_sn p (\<lambda>n. n\<lparr>sn_name := q, sn_namelen := length nm + 1\<rparr>) s) }) = Some s4"
    and s5: "(case data of None \<Rightarrow> Some s4 | Some datalen \<Rightarrow>
      do { (d, s) \<leftarrow> si_buf_get E datalen s4; BUG_ON (d = NULL);
           Some (upd_sn p (\<lambda>n. n\<lparr>sn_data := d, sn_datalen := datalen\<rparr>) s) }) = Some s'"
    unfolding s3_def using run g i by (auto simp: sinode_new_def bind_Some_iff Let_def)
  have n4: "sinode_inv s4 \<and> extends_at p s3 s4 \<and>
      (case name of None \<Rightarrow> s4 = s3
       | Some nm \<Rightarrow> sn_str s4 p = nm \<and> name_ok s4 p \<and>
           (\<exists>q. h_sn s4 p = (h_sn s3 p)\<lparr>sn_name := q, sn_namelen := length nm + 1\<rparr>))"
  proof (cases name)
    case None
    with s4 n(1) show ?thesis by (simp add: extends_at_refl)
  next
    case (Some nm)
    then obtain q r where q: "name_list_add E nm s3 = Some (q, r)"
      "s4 = upd_sn p (\<lambda>n. n\<lparr>sn_name := q, sn_namelen := length nm + 1\<rparr>) r"
      using s4 by (auto simp: bind_splits)
    have "namelen_ok E nm" using ok' Some by simp
    note m = new_node_name [OF E n(1,2) t this q]
    from m show ?thesis using Some by auto
  qed
  have f4: "fresh_node s4 t p" using n4 extends_at_fresh [OF _ n(2) t] by blast
  have n5: "sinode_inv s' \<and> extends_at p s4 s' \<and>
      (case data of None \<Rightarrow> s' = s4
       | Some n \<Rightarrow> sn_str s' p = sn_str s4 p \<and> name_ok s' p = name_ok s4 p \<and>
           (\<exists>d. h_sn s' p = (h_sn s4 p)\<lparr>sn_data := d, sn_datalen := n\<rparr>))"
  proof (cases data)
    case None
    with s5 n4 show ?thesis by (simp add: extends_at_refl)
  next
    case (Some n)
    then obtain d r where d: "si_buf_get E n s4 = Some (d, r)"
      "s' = upd_sn p (\<lambda>m. m\<lparr>sn_data := d, sn_datalen := n\<rparr>) r"
      using s5 by (auto simp: bind_splits)
    have "len_ok n" using ok' Some by simp
    from new_node_data [OF E _ f4 t this d] n4 show ?thesis using Some by auto
  qed
  have ext: "extends_at p s3 s'" using n4 n5 extends_at_trans by blast
  then obtain b h r f where s': "s' = s3\<lparr>si_sbuf := b, h_name := h, si_names_root := r,
      h_sn := (h_sn s3)(p := f (h_sn s3 p))\<rparr>" "sn_id (f (h_sn s3 p)) = sn_id (h_sn s3 p)"
    by (auto simp: extends_at_def)
  obtain b' x where s3: "s3 = s\<lparr>si_sbuf := b', si_id_idx := x,
      h_sn := (h_sn s)(p := sinode_zero\<lparr>sn_id := i\<rparr>)\<rparr>" using n(5) by blast
  show "sinode_inv s'" using n5 by simp
  show "fresh_node s' t p" by (rule extends_at_fresh [OF ext n(2) t])
  show "p = buf_cur (si_sbuf s)" by (rule n(4))
  show "sn_id (h_sn s' p) = mk_siid t (id_value (si_id_idx s t))"
    using s' s3 n(3) by simp
  show "si_by_id s' = si_by_id s" "si_by_spec s' = si_by_spec s" "h_sb s' = h_sb s"
    "\<And>d. d \<noteq> p \<Longrightarrow> h_sn s' d = h_sn s d" using s' s3 by simp_all
  have z: "h_sn s3 p = sinode_zero\<lparr>sn_id := i\<rparr>" using s3 by simp
  show "name = Some nm \<Longrightarrow> sn_str s' p = nm \<and> name_ok s' p \<and> sn_namelen (h_sn s' p) = length nm + 1"
    "data = Some n \<Longrightarrow> sn_datalen (h_sn s' p) = n"
    "name = None \<Longrightarrow> sn_name (h_sn s' p) = NULL"
    "sn_attributes (h_sn s' p) = [] \<and> sn_buf (h_sn s' p) = NULL \<and> sn_loc_file (h_sn s' p) = NULL"
    using n4 n5 z by (auto simp: sinode_zero_def split: option.splits)
qed

text \<open>
  \<open>sinode_new\<close> returns a node that lies above everything allocated before, carries the
  next id of its type, a name interned as the string given (or none), no attributes, no
  sibuf and no location; it is linked into no index, its id is new, every other node and
  every index is unchanged, and the invariant of the indexes is kept.
\<close>

theorem sinode_new_creates:
  assumes "new_ok E t name data s" "sinode_new E t name data s = Some (p, s')"
  shows "sinode_inv s' \<and> fresh_node s' t p \<and> p = buf_cur (si_sbuf s)
    \<and> sn_id (h_sn s' p) = mk_siid t (id_value (si_id_idx s t))
    \<and> si_by_id s' = si_by_id s \<and> si_by_spec s' = si_by_spec s
    \<and> (\<forall>d. d = p \<or> h_sn s' d = h_sn s d)
    \<and> (case name of None \<Rightarrow> sn_name (h_sn s' p) = NULL
       | Some nm \<Rightarrow> sn_str s' p = nm \<and> sn_name (h_sn s' p) = name_list_find s' nm)
    \<and> sn_attributes (h_sn s' p) = [] \<and> sn_buf (h_sn s' p) = NULL"
proof -
  note n = sinode_new_spec [OF assms]
  have ni: "names_inv s'" using n(1) by (simp add: sinode_inv_def)
  have "sn_name (h_sn s' p) = name_list_find s' nm" if "name = Some nm" for nm
    using n(9) [OF that] name_find_iff [OF ni, of nm "sn_name (h_sn s' p)"]
    by (simp add: name_list_find_def name_ok_def sn_str_def)
  with n show ?thesis by (auto split: option.splits)
qed

end
