(* ===== verification/Sinode_Insert.thy ===== *)
theory Sinode_Insert
  imports Sinode_Props
begin

text \<open>
  Insertion and search: linking a node in the two trees of its type, what a duplicate does,
  and that a search returns the node the indexes hold for its argument.
\<close>

subsection \<open>Linking keeps the invariant\<close>

lemma set_by_id_frames [simp]:
  "h_sn (set_by_id E t tr s) = h_sn s" "h_sb (set_by_id E t tr s) = h_sb s"
  "h_name (set_by_id E t tr s) = h_name s" "si_sbuf (set_by_id E t tr s) = si_sbuf s"
  "si_by_spec (set_by_id E t tr s) = si_by_spec s" "si_id_idx (set_by_id E t tr s) = si_id_idx s"
  "si_names_root (set_by_id E t tr s) = si_names_root s"
  "name_key (set_by_id E t tr s) = name_key s"
  "si_by_id (set_by_id E t tr s) u = (if u = t then rb_insert_color E tr else si_by_id s u)"
  by (simp_all add: set_by_id_def)

lemma set_by_spec_frames [simp]:
  "h_sn (set_by_spec E t tr s) = h_sn s" "h_sb (set_by_spec E t tr s) = h_sb s"
  "h_name (set_by_spec E t tr s) = h_name s" "si_sbuf (set_by_spec E t tr s) = si_sbuf s"
  "si_by_id (set_by_spec E t tr s) = si_by_id s" "si_id_idx (set_by_spec E t tr s) = si_id_idx s"
  "si_names_root (set_by_spec E t tr s) = si_names_root s"
  "name_key (set_by_spec E t tr s) = name_key s"
  "si_by_spec (set_by_spec E t tr s) u = (if u = t then rb_insert_color E tr else si_by_spec s u)"
  by (simp_all add: set_by_spec_def)

text \<open>The keys read the nodes, the names and the sibufs only.\<close>

lemma keys_eq:
  assumes "h_sn s' = h_sn s" "h_sb s' = h_sb s" "h_name s' = h_name s"
  shows "sn_str s' = sn_str s" "sn_rf s' = sn_rf s" "id_key s' = id_key s"
    "spec_key s' t = spec_key s t" "cmp_id s' i = cmp_id s i" "spec_cmp s' t k = spec_cmp s t k"
  by (auto simp: fun_eq_iff sn_str_def sn_rf_def id_key_def spec_key_def cmp_id_def sinode_id_all_def
      spec_cmp_def assms)

lemmas set_keys [simp] =
  keys_eq [of "set_by_id E u tr s" s for E u tr s, simplified]
  keys_eq [of "set_by_spec E u tr s" s for E u tr s, simplified]

lemma name_ok_set [simp]:
  "name_ok (set_by_id E t tr s) d = name_ok s d" "name_ok (set_by_spec E t tr s) d = name_ok s d"
  "node_ok (set_by_id E t tr s) u d = node_ok s u d" "node_ok (set_by_spec E t tr s) u d = node_ok s u d"
  by (simp_all add: name_ok_def node_ok_def)

lemma agree_on_set [simp]:
  "agree_on A s (set_by_id E t tr s)" "agree_on A s (set_by_spec E t tr s)"
  by (simp_all add: agree_on_def)

lemma names_inv_set [simp]:
  "names_inv (set_by_id E t tr s) = names_inv s" "names_inv (set_by_spec E t tr s) = names_inv s"
  by (simp_all add: names_inv_def)

lemma link_id:
  assumes "env_ok E" "sinode_inv s" "t < TYPE_MAX" "fresh_node s t p"
  obtains tr where "rb_link (cmp_id s (sn_id (h_sn s p))) p (si_by_id s t) = Some tr"
    "set_tree tr = insert p (set_tree (si_by_id s t))" "sinode_inv (set_by_id E t tr s)"
proof -
  have key: "sn_id (h_sn s p) = id_key s p" by (simp add: id_key_def)
  have ti: "type_inv s t" using assms(2,3) by (simp add: sinode_inv_def)
  then have srt: "rb_sorted (id_key s) (si_by_id s t)" by (simp add: type_inv_def)
  have "id_key s p \<notin> id_key s ` set_tree (si_by_id s t)"
    using assms(4) key by (simp add: fresh_node_def)
  then have "rb_find (cmp_id s (id_key s p)) (si_by_id s t) = None"
    using id_ix.find_None_iff [OF srt] by blast
  then obtain tr where tr: "rb_link (cmp_id s (id_key s p)) p (si_by_id s t) = Some tr"
    using rb_link_None_iff [of "cmp_id s (id_key s p)" p "si_by_id s t"] by auto
  have st: "set_tree tr = insert p (set_tree (si_by_id s t))" by (rule rb_link_set [OF tr])
  let ?s = "set_by_id E t tr s"
  have own: "type_inv ?s t"
    using ti id_ix.link_sorted [OF srt tr] assms(1,4) st
    by (auto simp: type_inv_def fresh_node_def)
  have other: "type_inv ?s u" if "u < TYPE_MAX" "u \<noteq> t" for u
  proof (rule type_inv_agree)
    show "type_inv s u" using assms(2) that by (simp add: sinode_inv_def)
  qed (use that in simp_all)
  have "sinode_inv ?s"
    unfolding sinode_inv_def using own other assms(2) by (auto simp: sinode_inv_def)
  with tr st key show ?thesis using that by simp
qed

lemma link_spec:
  assumes "env_ok E" "sinode_inv s" "t < TYPE_MAX" "p \<in> set_tree (si_by_id s t)" "name_ok s p"
    and tr: "rb_link (spec_cmp s t (spec_key s t p)) p (si_by_spec s t) = Some tr"
  shows "sinode_inv (set_by_spec E t tr s)" "set_tree tr = insert p (set_tree (si_by_spec s t))"
proof -
  let ?s = "set_by_spec E t tr s"
  have ti: "type_inv s t" using assms(2,3) by (simp add: sinode_inv_def)
  then have srt: "rb_sorted (spec_key s t) (si_by_spec s t)" by (simp add: type_inv_def)
  show st: "set_tree tr = insert p (set_tree (si_by_spec s t))" by (rule rb_link_set [OF tr])
  have own: "type_inv ?s t"
    using ti spec_ix.link_sorted [OF srt tr] assms(1,4,5) st by (auto simp: type_inv_def)
  have other: "type_inv ?s u" if "u < TYPE_MAX" "u \<noteq> t" for u
  proof (rule type_inv_agree)
    show "type_inv s u" using assms(2) that by (simp add: sinode_inv_def)
  qed (use that in simp_all)
  show "sinode_inv ?s"
    unfolding sinode_inv_def using own other assms(2) by (auto simp: sinode_inv_def)
qed

subsection \<open>The branches of the insertion\<close>

definition needs_loc :: "nat \<Rightarrow> bool" where
  "needs_loc t \<longleftrightarrow> t = TYPE_TYPE \<or> t = TYPE_FUNC_STATIC \<or> t = TYPE_VAR_STATIC"

lemma needs_loc_iff: "t < TYPE_MAX \<Longrightarrow> needs_loc t \<longleftrightarrow> t \<noteq> TYPE_FILE \<and> \<not> by_rf t \<and> t \<noteq> TYPE_CODEP"
  by (auto simp: needs_loc_def by_rf_def)

lemma name_not_null: "names_inv s \<Longrightarrow> name_ok s p \<Longrightarrow> sn_name (h_sn s p) \<noteq> NULL"
  by (auto simp: names_inv_def name_ok_def)

text \<open>Without replacement, the three insertions are one: link by the key of the type.\<close>

lemma insert_spec_eq:
  assumes "b \<noteq> SINODE_INSERT_BH_REPLACE" "t < TYPE_CODEP" "sn_name (h_sn s p) \<noteq> NULL"
    and "needs_loc t \<Longrightarrow> sn_loc_file (h_sn s p) \<noteq> NULL"
  shows "sinode_insert_spec E t p b s =
    (case rb_link (spec_cmp s t (spec_key s t p)) p (si_by_spec s t) of
       None \<Rightarrow> if by_rf t then None else Some (- 1, s)
     | Some tr \<Rightarrow> Some (0, set_by_spec E t tr s))"
proof -
  have fl: "cmp_file s (sn_str s p) = spec_cmp s 0 (spec_key s 0 p)"
    by (simp add: fun_eq_iff cmp_file_spec spec_key_def)
  have rf: "cmp_name_rf s (sn_str s p) (sn_rf s p) = spec_cmp s t (spec_key s t p)" if "by_rf t"
    using that by (auto simp: fun_eq_iff cmp_name_rf_spec spec_key_def by_rf_def)
  have loc: "cmp_name_loc s (sn_str s p) (sn_loc_file (h_sn s p)) (sn_loc_line (h_sn s p))
      (sn_loc_col (h_sn s p)) = spec_cmp s t (spec_key s t p)" if "t \<noteq> 0" "\<not> by_rf t"
    using that by (simp add: fun_eq_iff cmp_name_loc_spec spec_key_def)
  have t: "t = 0 \<or> t = 1 \<or> t = 2 \<or> t = 3 \<or> t = 4 \<or> t = 5" using assms(2) by auto
  consider "t = 0" | "by_rf t" | "needs_loc t" using t by (auto simp: by_rf_def needs_loc_def)
  then show ?thesis
  proof cases
    case 1
    then show ?thesis
      using assms(3) fl
      by (auto simp: sinode_insert_spec_def sinode_insert_file_def by_rf_def split: option.split)
  next
    case 2
    then have "sinode_insert_spec E t p b s = sinode_insert_name_resfile E t p b s"
      by (auto simp: sinode_insert_spec_def by_rf_def)
    also have "\<dots> = (case rb_link (spec_cmp s t (spec_key s t p)) p (si_by_spec s t) of
       None \<Rightarrow> None | Some tr \<Rightarrow> Some (0, set_by_spec E t tr s))"
      using assms(1,3) rf [OF 2]
      by (cases "rb_link (spec_cmp s t (spec_key s t p)) p (si_by_spec s t)")
        (simp_all add: sinode_insert_name_resfile_def)
    finally show ?thesis using 2 by (simp split: option.split)
  next
    case 3
    then have "sinode_insert_spec E t p b s = sinode_insert_name_loc E t p s"
      using assms(1) by (auto simp: sinode_insert_spec_def needs_loc_def sinode_insert_func_static_def)
    moreover have "t \<noteq> 0" "\<not> by_rf t" using 3 by (auto simp: needs_loc_def by_rf_def)
    ultimately show ?thesis
      using assms(3,4) 3 loc
      by (auto simp: sinode_insert_name_loc_def Let_def split: option.split)
  qed
qed

subsection \<open>Searches\<close>

text \<open>
  The argument by which \<open>sinode_search\<close> names one key of a specification tree: for a global
  name, the argument without a second resfile.
\<close>

definition spec_arg :: "nat \<Rightarrow> spec_key \<Rightarrow> search_arg" where
  "spec_arg t k = (case k of (nm, a, line, col) \<Rightarrow>
     if t = TYPE_FILE then ArgFile nm
     else if by_rf t then ArgResfile a NULL nm
     else ArgLoc a line col nm)"

definition key_of_type :: "nat \<Rightarrow> spec_key \<Rightarrow> bool" where
  "key_of_type t k \<longleftrightarrow> (case k of (nm, a, line, col) \<Rightarrow>
     (t = TYPE_FILE \<longrightarrow> a = 0 \<and> line = 0 \<and> col = 0) \<and> (by_rf t \<longrightarrow> line = 0 \<and> col = 0))"

lemma key_of_type_spec_key: "key_of_type t (spec_key s t d)"
  by (simp add: key_of_type_def spec_key_def by_rf_def)

lemma search_spec_eq:
  assumes "t < TYPE_CODEP" "key_of_type t k"
  shows "sinode_search s t SEARCH_BY_SPEC (spec_arg t k) =
    Some (ptr_of (rb_find (spec_cmp s t k) (si_by_spec s t)))"
proof -
  obtain nm a line col where k: "k = (nm, a, line, col)" by (cases k) auto
  have t: "t = 0 \<or> t = 1 \<or> t = 2 \<or> t = 3 \<or> t = 4 \<or> t = 5" using assms(1) by auto
  consider "t = 0" | "by_rf t" | "t \<noteq> 0" "\<not> by_rf t" by auto
  then show ?thesis
  proof cases
    case 1
    have "cmp_file s nm = spec_cmp s 0 (nm, 0, 0, 0)" by (simp add: fun_eq_iff cmp_file_spec)
    then show ?thesis using assms(2) 1 k
      by (simp add: spec_arg_def key_of_type_def sinode_search_file_def)
  next
    case 2
    have "cmp_name_rf s nm a = spec_cmp s t (nm, a, 0, 0)"
      using 2 by (simp add: fun_eq_iff cmp_name_rf_spec)
    then show ?thesis using assms(2) 2 k
      by (auto simp: spec_arg_def key_of_type_def sinode_search_name_resfile_def by_rf_def ptr_of_def
          split: option.split)
  next
    case 3
    have "cmp_name_loc s nm a line col = spec_cmp s t (nm, a, line, col)"
      using 3 by (simp add: fun_eq_iff cmp_name_loc_spec)
    then show ?thesis using 3 k t
      by (auto simp: spec_arg_def sinode_search_name_loc_def by_rf_def)
  qed
qed

lemma search_id_eq:
  assumes "id_type i < TYPE_MAX"
  shows "sinode_search s t SEARCH_BY_ID (ArgId i) =
    Some (ptr_of (rb_find (cmp_id s i) (si_by_id s (id_type i))))"
proof -
  have "[id_type i ..< id_type i + 1] = [id_type i]" by simp
  moreover have "id_type i \<noteq> TYPE_NONE" "\<not> TYPE_MAX \<le> id_type i" using assms by simp_all
  ultimately show ?thesis
    by (auto simp: sinode_search_by_id_def siid_type_def ptr_of_def Let_def split: option.split)
qed

lemma find_spec_iff:
  assumes "sinode_inv s" "t < TYPE_MAX"
  shows "rb_find (spec_cmp s t k) (si_by_spec s t) = Some d \<longleftrightarrow>
    d \<in> set_tree (si_by_spec s t) \<and> spec_key s t d = k"
  using assms by (intro spec_ix.find_iff) (simp add: sinode_inv_def type_inv_def)

lemma find_id_iff:
  assumes "sinode_inv s" "t < TYPE_MAX"
  shows "rb_find (cmp_id s i) (si_by_id s t) = Some d \<longleftrightarrow>
    d \<in> set_tree (si_by_id s t) \<and> sn_id (h_sn s d) = i"
  using assms id_ix.find_iff [of s "si_by_id s t" i d]
  by (simp add: sinode_inv_def type_inv_def id_key_def)

lemma linked_not_null:
  assumes "sinode_inv s" "t < TYPE_MAX"
  shows "NULL \<notin> set_tree (si_by_id s t)" "NULL \<notin> set_tree (si_by_spec s t)"
proof -
  have "type_inv s t" using assms by (simp add: sinode_inv_def)
  then show "NULL \<notin> set_tree (si_by_id s t)" "NULL \<notin> set_tree (si_by_spec s t)"
    by (auto simp: type_inv_def node_ok_def)
qed

lemma ptr_of_eq: "ptr_of r = d \<longleftrightarrow> r = Some d \<or> r = None \<and> d = NULL"
  by (auto simp: ptr_of_def split: option.split)

lemma sinode_search_iff:
  assumes "sinode_inv s" "t < TYPE_CODEP" "key_of_type t k" "id_type i < TYPE_MAX"
  shows "sinode_search s t SEARCH_BY_SPEC (spec_arg t k) = Some d \<longleftrightarrow>
      (if d = NULL then k \<notin> spec_key s t ` set_tree (si_by_spec s t)
       else d \<in> set_tree (si_by_spec s t) \<and> spec_key s t d = k)"
    and "sinode_search s u SEARCH_BY_ID (ArgId i) = Some d \<longleftrightarrow>
      (if d = NULL then i \<notin> id_key s ` set_tree (si_by_id s (id_type i))
       else d \<in> set_tree (si_by_id s (id_type i)) \<and> sn_id (h_sn s d) = i)"
proof -
  have t: "t < TYPE_MAX" using assms(2) by simp
  have srt: "rb_sorted (spec_key s t) (si_by_spec s t)"
    "rb_sorted (id_key s) (si_by_id s (id_type i))"
    using assms(1,4) t by (simp_all add: sinode_inv_def type_inv_def)
  show "sinode_search s t SEARCH_BY_SPEC (spec_arg t k) = Some d \<longleftrightarrow>
      (if d = NULL then k \<notin> spec_key s t ` set_tree (si_by_spec s t)
       else d \<in> set_tree (si_by_spec s t) \<and> spec_key s t d = k)"
    using search_spec_eq [OF assms(2,3), of s] find_spec_iff [OF assms(1) t, of k d]
      linked_not_null(2) [OF assms(1) t] spec_ix.find_None_iff [OF srt(1), of k]
    by (auto simp: ptr_of_eq)
  show "sinode_search s u SEARCH_BY_ID (ArgId i) = Some d \<longleftrightarrow>
      (if d = NULL then i \<notin> id_key s ` set_tree (si_by_id s (id_type i))
       else d \<in> set_tree (si_by_id s (id_type i)) \<and> sn_id (h_sn s d) = i)"
    using search_id_eq [OF assms(4), of s u] find_id_iff [OF assms(1,4), of i d]
      linked_not_null(1) [OF assms(1,4)] id_ix.find_None_iff [OF srt(2), of i]
    by (auto simp: ptr_of_eq)
qed

text \<open>
  A search for a global function or variable names a second resfile, the one of the builtins
  in every caller, and looks under it only when nothing was found under the first.
\<close>

definition spec_arg2 :: "nat \<Rightarrow> addr \<Rightarrow> spec_key \<Rightarrow> search_arg" where
  "spec_arg2 t rf1 k = (case k of (nm, a, line, col) \<Rightarrow>
     if by_rf t then ArgResfile a rf1 nm else spec_arg t k)"

definition second_key :: "addr \<Rightarrow> spec_key \<Rightarrow> spec_key" where
  "second_key rf1 k = (case k of (nm, a, line, col) \<Rightarrow> (nm, rf1, line, col))"

definition key_linked :: "src \<Rightarrow> nat \<Rightarrow> spec_key \<Rightarrow> bool" where
  "key_linked s t k \<longleftrightarrow> k \<in> spec_key s t ` set_tree (si_by_spec s t)"

lemma search_second:
  assumes "t < TYPE_CODEP" "key_of_type t k"
  shows "sinode_search s t SEARCH_BY_SPEC (spec_arg2 t rf1 k) =
    (if by_rf t \<and> rf1 \<noteq> NULL \<and> rb_find (spec_cmp s t k) (si_by_spec s t) = None
     then sinode_search s t SEARCH_BY_SPEC (spec_arg t (second_key rf1 k))
     else sinode_search s t SEARCH_BY_SPEC (spec_arg t k))"
proof (cases "by_rf t")
  case True
  obtain nm a line col where k: "k = (nm, a, line, col)" by (cases k) auto
  have "line = 0" "col = 0" using assms(2) True by (simp_all add: k key_of_type_def)
  moreover have "cmp_name_rf s nm b = spec_cmp s t (nm, b, 0, 0)" for b
    using True by (simp add: fun_eq_iff cmp_name_rf_spec)
  ultimately show ?thesis using True
    by (auto simp: k by_rf_def spec_arg2_def spec_arg_def second_key_def sinode_search_name_resfile_def
        ptr_of_def split: option.split)
next
  case False
  then show ?thesis by (auto simp: spec_arg2_def split: prod.split)
qed

lemma search_second_iff:
  assumes "sinode_inv s" "t < TYPE_CODEP" "key_of_type t k"
  shows "sinode_search s t SEARCH_BY_SPEC (spec_arg2 t rf1 k) = Some d \<longleftrightarrow>
      (if d = NULL then \<not> key_linked s t k \<and>
           (by_rf t \<and> rf1 \<noteq> NULL \<longrightarrow> \<not> key_linked s t (second_key rf1 k))
       else d \<in> set_tree (si_by_spec s t) \<and>
         (if key_linked s t k then spec_key s t d = k
          else by_rf t \<and> rf1 \<noteq> NULL \<and> spec_key s t d = second_key rf1 k))"
    (is "_ \<longleftrightarrow> ?A")
proof -
  have i: "id_type 0 < TYPE_MAX" by (simp add: id_type_def)
  have k2: "key_of_type t (second_key rf1 k)" if "by_rf t"
    using assms(3) that by (auto simp: key_of_type_def second_key_def by_rf_def split: prod.split)
  have t: "t < TYPE_MAX" using assms(2) by simp
  then have "rb_sorted (spec_key s t) (si_by_spec s t)"
    using assms(1) by (simp add: sinode_inv_def type_inv_def)
  then have none: "rb_find (spec_cmp s t k) (si_by_spec s t) = None \<longleftrightarrow> \<not> key_linked s t k"
    by (simp add: spec_ix.find_None_iff key_linked_def)
  note one = sinode_search_iff(1) [OF assms i, folded key_linked_def]
  have two: "sinode_search s t SEARCH_BY_SPEC (spec_arg t (second_key rf1 k)) = Some d \<longleftrightarrow>
      (if d = NULL then \<not> key_linked s t (second_key rf1 k)
       else d \<in> set_tree (si_by_spec s t) \<and> spec_key s t d = second_key rf1 k)" if "by_rf t" for d
    using sinode_search_iff(1) [OF assms(1,2) k2 [OF that] i, where d = d]
    by (simp add: key_linked_def)
  have linked: "key_linked s t (spec_key s t d)" if "d \<in> set_tree (si_by_spec s t)"
    using that by (simp add: key_linked_def)
  show ?thesis
  proof (cases "by_rf t \<and> rf1 \<noteq> NULL")
    case True
    then show "sinode_search s t SEARCH_BY_SPEC (spec_arg2 t rf1 k) = Some d \<longleftrightarrow> ?A"
      using linked linked_not_null(2) [OF assms(1) t]
      by (cases "key_linked s t k") (auto simp: search_second [OF assms(2,3)] none one two)
  next
    case False
    then show "sinode_search s t SEARCH_BY_SPEC (spec_arg2 t rf1 k) = Some d \<longleftrightarrow> ?A"
      using linked by (auto simp: search_second [OF assms(2,3)] one)
  qed
qed

text \<open>
  C10. A search by specification returns the linked node with the key it asks for; a search for
  a global name that finds none under the first resfile returns the one linked under the
  second, and only a search whose keys are all free returns \<open>NULL\<close>. A search by id returns
  the node linked under that id, and \<open>NULL\<close> exactly when there is none.
\<close>

theorem sinode_search_exact:
  assumes "sinode_inv s" "t < TYPE_CODEP" "key_of_type t k" "id_type i < TYPE_MAX"
  shows "(sinode_search s t SEARCH_BY_SPEC (spec_arg2 t rf1 k) = Some d \<longleftrightarrow>
      (if d = NULL then \<not> key_linked s t k \<and>
           (by_rf t \<and> rf1 \<noteq> NULL \<longrightarrow> \<not> key_linked s t (second_key rf1 k))
       else d \<in> set_tree (si_by_spec s t) \<and>
         (if key_linked s t k then spec_key s t d = k
          else by_rf t \<and> rf1 \<noteq> NULL \<and> spec_key s t d = second_key rf1 k))) \<and>
    (sinode_search s u SEARCH_BY_ID (ArgId i) = Some d \<longleftrightarrow>
      (if d = NULL then i \<notin> id_key s ` set_tree (si_by_id s (id_type i))
       else d \<in> set_tree (si_by_id s (id_type i)) \<and> sn_id (h_sn s d) = i))"
  using search_second_iff [OF assms(1-3)] sinode_search_iff(2) [OF assms] by blast

subsection \<open>The whole insertion\<close>

text \<open>A node \<open>sinode_new\<close> returned, with what the insertion of its type asks for.\<close>

definition insert_ok :: "env \<Rightarrow> src \<Rightarrow> nat \<Rightarrow> addr \<Rightarrow> insert_behavior \<Rightarrow> bool" where
  "insert_ok E s t p b \<longleftrightarrow> env_ok E \<and> sinode_inv s \<and> t < TYPE_CODEP \<and> fresh_node s t p \<and>
     name_ok s p \<and> b \<noteq> SINODE_INSERT_BH_REPLACE \<and>
     (needs_loc t \<longrightarrow> sn_loc_file (h_sn s p) \<noteq> NULL)"

lemma insert_eq:
  assumes "insert_ok E s t p b"
  obtains tr where "sinode_inv (set_by_id E t tr s)"
    "set_tree tr = insert p (set_tree (si_by_id s t))"
    "sinode_insert E p b s =
      (case rb_link (spec_cmp s t (spec_key s t p)) p (si_by_spec s t) of
         None \<Rightarrow> if by_rf t then None else Some (- 1, set_by_id E t tr s)
       | Some tr' \<Rightarrow> Some (0, set_by_spec E t tr' (set_by_id E t tr s)))"
proof -
  note ok = assms [unfolded insert_ok_def]
  have t: "t < TYPE_MAX" and ni: "names_inv s" using ok by (auto simp: sinode_inv_def)
  obtain tr where tr: "rb_link (cmp_id s (sn_id (h_sn s p))) p (si_by_id s t) = Some tr"
    "set_tree tr = insert p (set_tree (si_by_id s t))" "sinode_inv (set_by_id E t tr s)"
    using link_id [of E s t p] ok t by blast
  have ty: "sinode_idtype s p = t"
    using ok by (simp add: fresh_node_def node_ok_def sinode_idtype_def siid_type_def)
  have id: "sinode_insert_by_id E p s = Some (0, set_by_id E t tr s)"
    using tr(1) ty t by (simp add: sinode_insert_by_id_def)
  have "sinode_insert_spec E t p b (set_by_id E t tr s) =
      (case rb_link (spec_cmp s t (spec_key s t p)) p (si_by_spec s t) of
         None \<Rightarrow> if by_rf t then None else Some (- 1, set_by_id E t tr s)
       | Some tr' \<Rightarrow> Some (0, set_by_spec E t tr' (set_by_id E t tr s)))"
    using insert_spec_eq [of b t "set_by_id E t tr s" p E] ok name_not_null [OF ni] by simp
  then have "sinode_insert E p b s =
      (case rb_link (spec_cmp s t (spec_key s t p)) p (si_by_spec s t) of
         None \<Rightarrow> if by_rf t then None else Some (- 1, set_by_id E t tr s)
       | Some tr' \<Rightarrow> Some (0, set_by_spec E t tr' (set_by_id E t tr s)))"
    using id ty ok by (simp add: sinode_insert_def Let_def)
  with tr that show ?thesis by blast
qed

lemma insert_new_spec:
  assumes "insert_ok E s t p b" "spec_key s t p \<notin> spec_key s t ` set_tree (si_by_spec s t)"
  obtains tr tr' where "sinode_insert E p b s = Some (0, set_by_spec E t tr' (set_by_id E t tr s))"
    "sinode_inv (set_by_spec E t tr' (set_by_id E t tr s))"
    "set_tree tr = insert p (set_tree (si_by_id s t))"
    "set_tree tr' = insert p (set_tree (si_by_spec s t))"
proof -
  note ok = assms(1) [unfolded insert_ok_def]
  have t: "t < TYPE_MAX" using ok by simp
  obtain tr where tr: "sinode_inv (set_by_id E t tr s)"
    "set_tree tr = insert p (set_tree (si_by_id s t))"
    "sinode_insert E p b s =
      (case rb_link (spec_cmp s t (spec_key s t p)) p (si_by_spec s t) of
         None \<Rightarrow> if by_rf t then None else Some (- 1, set_by_id E t tr s)
       | Some tr' \<Rightarrow> Some (0, set_by_spec E t tr' (set_by_id E t tr s)))"
    by (rule insert_eq [OF assms(1)])
  have "rb_sorted (spec_key s t) (si_by_spec s t)" using ok t by (simp add: sinode_inv_def type_inv_def)
  then have "rb_find (spec_cmp s t (spec_key s t p)) (si_by_spec s t) = None"
    using assms(2) spec_ix.find_None_iff by blast
  then obtain tr' where tr': "rb_link (spec_cmp s t (spec_key s t p)) p (si_by_spec s t) = Some tr'"
    using rb_link_None_iff [of "spec_cmp s t (spec_key s t p)" p "si_by_spec s t"] by auto
  have "sinode_inv (set_by_spec E t tr' (set_by_id E t tr s))"
    by (rule link_spec(1) [OF _ tr(1) t]) (use ok tr(2) tr' in \<open>simp_all add: env_ok_rb\<close>)
  with tr tr' rb_link_set [OF tr'] that show ?thesis by simp
qed

text \<open>
  C1. Inserting a new node whose key no linked node has succeeds: it returns 0, keeps the
  invariant, adds the node to the two indexes of its type and nothing else, so both
  searches then find it, and a search for any other key gives what it gave before.
\<close>

theorem sinode_insert_links:
  assumes "insert_ok E s t p b" "spec_key s t p \<notin> spec_key s t ` set_tree (si_by_spec s t)"
  shows "\<exists>s'. sinode_insert E p b s = Some (0, s') \<and> sinode_inv s' \<and> h_sn s' = h_sn s \<and>
    (\<forall>u. set_tree (si_by_id s' u) = (if u = t then {p} else {}) \<union> set_tree (si_by_id s u)) \<and>
    (\<forall>u. set_tree (si_by_spec s' u) = (if u = t then {p} else {}) \<union> set_tree (si_by_spec s u)) \<and>
    sinode_search s' t SEARCH_BY_SPEC (spec_arg t (spec_key s t p)) = Some p \<and>
    sinode_search s' t SEARCH_BY_ID (ArgId (sn_id (h_sn s p))) = Some p \<and>
    (\<forall>k. key_of_type t k \<and> k \<noteq> spec_key s t p \<longrightarrow>
       sinode_search s' t SEARCH_BY_SPEC (spec_arg t k) = sinode_search s t SEARCH_BY_SPEC (spec_arg t k))"
proof -
  note ok = assms(1) [unfolded insert_ok_def]
  obtain tr tr' where ins: "sinode_insert E p b s = Some (0, set_by_spec E t tr' (set_by_id E t tr s))"
    and inv: "sinode_inv (set_by_spec E t tr' (set_by_id E t tr s))"
    and st: "set_tree tr = insert p (set_tree (si_by_id s t))"
      "set_tree tr' = insert p (set_tree (si_by_spec s t))"
    by (rule insert_new_spec [OF assms])
  let ?s = "set_by_spec E t tr' (set_by_id E t tr s)"
  have t: "t < TYPE_MAX" "t < TYPE_CODEP" and E: "env_ok E" using ok by auto
  have p0: "p \<noteq> NULL" and pt: "id_type (sn_id (h_sn s p)) = t"
    using ok by (auto simp: fresh_node_def node_ok_def)
  have kk: "key_of_type t (spec_key s t p)" by (rule key_of_type_spec_key)
  have find: "rb_find (spec_cmp s t k) (rb_insert_color E tr') = Some d \<longleftrightarrow>
      rb_find (spec_cmp s t k) (si_by_spec s t) = Some d" if "k \<noteq> spec_key s t p" for k d
    using find_spec_iff [OF inv t(1), of k d] find_spec_iff [of s t k d] ok t E st that by auto
  have other: "sinode_search ?s t SEARCH_BY_SPEC (spec_arg t k) =
      sinode_search s t SEARCH_BY_SPEC (spec_arg t k)"
    if "key_of_type t k" "k \<noteq> spec_key s t p" for k
    unfolding search_spec_eq [OF t(2) that(1)]
    using opt_eqI [OF find [OF that(2)]] by simp
  have own: "sinode_search ?s t SEARCH_BY_SPEC (spec_arg t (spec_key s t p)) = Some p"
    using sinode_search_iff(1) [OF inv t(2) kk, where d = p and i = 0] E st p0 by simp
  have own_id: "sinode_search ?s t SEARCH_BY_ID (ArgId (sn_id (h_sn s p))) = Some p"
    using sinode_search_iff(2) [OF inv t(2) kk, where d = p and i = "sn_id (h_sn s p)" and u = t]
      E st p0 pt t by simp
  show ?thesis
    by (rule exI [of _ ?s]) (use ins inv st E own own_id other in auto)
qed

text \<open>
  C22. Inserting a node whose key a linked node \<open>d\<close> already has: for the functions and
  variables ordered by resfile the program aborts; for the other types the insertion
  returns \<open>- 1\<close> and has half happened, the node being found by its id while a search for
  its name still gives \<open>d\<close>. The invariant holds even then.
\<close>

theorem sinode_insert_duplicate:
  assumes "insert_ok E s t p b" "d \<in> set_tree (si_by_spec s t)" "spec_key s t d = spec_key s t p"
  shows "if by_rf t then sinode_insert E p b s = None
    else \<exists>s'. sinode_insert E p b s = Some (- 1, s') \<and> sinode_inv s' \<and>
      si_by_spec s' = si_by_spec s \<and>
      sinode_search s' t SEARCH_BY_ID (ArgId (sn_id (h_sn s p))) = Some p \<and>
      sinode_search s' t SEARCH_BY_SPEC (spec_arg t (spec_key s t p)) = Some d"
proof -
  note ok = assms(1) [unfolded insert_ok_def]
  have t: "t < TYPE_MAX" "t < TYPE_CODEP" and E: "env_ok E" and inv: "sinode_inv s" using ok by auto
  obtain tr where tr: "sinode_inv (set_by_id E t tr s)"
    "set_tree tr = insert p (set_tree (si_by_id s t))"
    "sinode_insert E p b s =
      (case rb_link (spec_cmp s t (spec_key s t p)) p (si_by_spec s t) of
         None \<Rightarrow> if by_rf t then None else Some (- 1, set_by_id E t tr s)
       | Some tr' \<Rightarrow> Some (0, set_by_spec E t tr' (set_by_id E t tr s)))"
    by (rule insert_eq [OF assms(1)])
  have kk: "key_of_type t (spec_key s t p)" by (rule key_of_type_spec_key)
  have f: "rb_find (spec_cmp s t (spec_key s t p)) (si_by_spec s t) = Some d"
    using find_spec_iff [OF inv t(1)] assms(2,3) by simp
  then have l: "rb_link (spec_cmp s t (spec_key s t p)) p (si_by_spec s t) = None"
    by (simp add: rb_link_None_iff)
  have p0: "p \<noteq> NULL" "id_type (sn_id (h_sn s p)) = t"
    using ok by (auto simp: fresh_node_def node_ok_def)
  have id: "sinode_search (set_by_id E t tr s) t SEARCH_BY_ID (ArgId (sn_id (h_sn s p))) = Some p"
    using sinode_search_iff(2) [OF tr(1) t(2) kk, where d = p and i = "sn_id (h_sn s p)" and u = t]
      tr(2) p0 t(1) E by simp
  have sp: "sinode_search (set_by_id E t tr s) t SEARCH_BY_SPEC (spec_arg t (spec_key s t p)) = Some d"
    using search_spec_eq [OF t(2) kk, of "set_by_id E t tr s"] f by (simp add: ptr_of_def)
  show ?thesis
    using tr(1,3) l id sp by auto
qed

subsection \<open>A run\<close>

text \<open>A first file node, created and inserted, then a second one of the same name.\<close>

definition ex1 :: src where
  "ex1 = src0\<lparr>si_sbuf := src_buf0\<lparr>buf_cur := 4294967432, src_modified := True\<rparr>,
     si_id_idx := (\<lambda>_. 0)(0 := 1), si_names_root := Node Leaf 4294967360 Leaf,
     h_name := (\<lambda>_. [])(4294967360 := ''a.c''),
     h_sn := (\<lambda>_. sinode_zero)(4294967296 := sinode_zero\<lparr>sn_name := 4294967360, sn_namelen := 4\<rparr>)\<rparr>"

definition ex2 :: src where
  "ex2 = ex1\<lparr>si_by_id := (\<lambda>_. Leaf)(0 := Node Leaf 4294967296 Leaf),
     si_by_spec := (\<lambda>_. Leaf)(0 := Node Leaf 4294967296 Leaf)\<rparr>"

definition ex3 :: src where
  "ex3 = ex2\<lparr>si_sbuf := src_buf0\<lparr>buf_cur := 4294967496, src_modified := True\<rparr>,
     si_id_idx := (\<lambda>_. 0)(0 := 2),
     h_sn := (h_sn ex1)(4294967432 := sinode_zero\<lparr>sn_id := 1, sn_name := 4294967360, sn_namelen := 4\<rparr>)\<rparr>"

lemmas ex_simps = sinode_new_def si_buf_get_def src_buf_get_def src_buf_consts src0_def src_buf0_def
  upd_sn_def sinode_id_def name_list_add_def name_list_find_node_def name_list_new_def
  sinode_zero_def mk_siid_def ID_TYPE_BITS_def ID_VALUE_BITS_def id_value_def id_type_def
  numeral_2_eq_2 [symmetric]

lemma ex1_run: "sinode_new env0 TYPE_FILE (Some ''a.c'') None src0 = Some (4294967296, ex1)"
  by (simp add: ex_simps ex1_def)

lemma ex2_run: "sinode_insert env0 4294967296 SINODE_INSERT_BH_NONE ex1 = Some (0, ex2)"
  by (simp add: sinode_insert_def sinode_insert_by_id_def sinode_insert_spec_def sinode_insert_file_def
      set_by_id_def set_by_spec_def sinode_idtype_def siid_type_def ex_simps ex1_def ex2_def)

lemma ex3_run: "sinode_new env0 TYPE_FILE (Some ''a.c'') None ex2 = Some (4294967432, ex3)"
  by (simp add: ex_simps ex1_def ex2_def ex3_def name_cmp_def strncmp_def)

lemma ex_len_ok: "namelen_ok env0 ''a.c''" "len_ok (csize env0 SzSinode)"
  by (simp_all add: namelen_ok_def len_ok_def src_buf_consts)

lemma ex1_new_ok: "new_ok env0 TYPE_FILE (Some ''a.c'') None src0"
  using ex_len_ok env0_ok sinode_inv_src0 by (simp add: new_ok_def src0_def)

lemma ex1_insert_ok: "insert_ok env0 ex1 TYPE_FILE 4294967296 SINODE_INSERT_BH_NONE"
  using sinode_new_spec(1,2,9) [OF ex1_new_ok ex1_run]
  by (simp add: insert_ok_def env0_ok needs_loc_def)

lemma ex2_inv: "sinode_inv ex2"
proof -
  have "spec_key ex1 0 4294967296 \<notin> spec_key ex1 0 ` set_tree (si_by_spec ex1 0)"
    by (simp add: ex1_def src0_def)
  from insert_new_spec [OF ex1_insert_ok this] show ?thesis using ex2_run by fastforce
qed

lemma ex3_new_ok: "new_ok env0 TYPE_FILE (Some ''a.c'') None ex2"
  using ex_len_ok env0_ok ex2_inv
  by (simp add: new_ok_def ex2_def ex1_def id_value_def ID_VALUE_BITS_def)

lemma ex3_insert_ok: "insert_ok env0 ex3 TYPE_FILE 4294967432 SINODE_INSERT_BH_NONE"
  using sinode_new_spec(1,2,9) [OF ex3_new_ok ex3_run]
  by (simp add: insert_ok_def env0_ok needs_loc_def)

text \<open>A builtin of the compiler, linked under the resfile of the builtins.\<close>

definition ex_builtin :: src where
  "ex_builtin = src0\<lparr>si_sbuf := src_buf0\<lparr>buf_cur := 4294967432, src_modified := True\<rparr>,
     si_id_idx := (si_id_idx src0)(2 := mk_siid 2 0 + 1), si_names_root := Node Leaf 4294967360 Leaf,
     h_name := (\<lambda>_. [])(4294967360 := ''memcpy''),
     h_sb := (\<lambda>_. sibuf_zero)(4096 := sibuf_zero\<lparr>sb_rf := 6\<rparr>),
     si_by_id := (\<lambda>_. Leaf)(2 := Node Leaf 4294967296 Leaf),
     si_by_spec := (\<lambda>_. Leaf)(2 := Node Leaf 4294967296 Leaf),
     h_sn := (\<lambda>_. sinode_zero)(4294967296 := sinode_zero\<lparr>sn_id := mk_siid 2 0,
       sn_name := 4294967360, sn_namelen := 7, sn_buf := 4096\<rparr>)\<rparr>"

lemma ex_builtin_inv: "sinode_inv ex_builtin"
  by (auto simp: rb_sorted_def ex_builtin_def sinode_inv_def type_inv_def node_ok_def name_ok_def names_inv_def
      src_buf_inv_def src_buf0_def src_buf_consts src0_def idx_ready_def id_value_def id_type_def mk_siid_def
      ID_TYPE_BITS_def ID_VALUE_BITS_def)

subsection \<open>Witnesses\<close>

theorem sinode_new_creates_witness:
  "sinode_new env0 TYPE_FILE (Some ''a.c'') None src0 = Some (4294967296, ex1) \<and>
   fresh_node ex1 TYPE_FILE 4294967296 \<and> sn_str ex1 4294967296 = ''a.c''"
  using Sinode_Props.sinode_new_creates [OF ex1_new_ok ex1_run] ex1_run by simp

theorem sinode_search_exact_witness:
  "sinode_search ex_builtin TYPE_FUNC_GLOBAL SEARCH_BY_SPEC (ArgResfile 5 6 ''memcpy'') =
     Some 4294967296 \<and>
   sinode_search ex_builtin TYPE_FUNC_GLOBAL SEARCH_BY_SPEC (ArgResfile 5 NULL ''memcpy'') = Some NULL"
proof -
  have k: "key_of_type 2 (''memcpy'', 5, 0, 0)" by (simp add: key_of_type_def by_rf_def)
  have key: "spec_key ex_builtin 2 4294967296 = (''memcpy'', 6, 0, 0)"
    "set_tree (si_by_spec ex_builtin 2) = {4294967296}"
    by (simp_all add: spec_key_def by_rf_def sn_str_def sn_rf_def ex_builtin_def sibuf_zero_def sinode_zero_def)
  have a: "spec_arg2 2 r (''memcpy'', 5, 0, 0) = ArgResfile 5 r ''memcpy''" "by_rf 2" for r
    by (simp_all add: spec_arg2_def by_rf_def)
  show ?thesis
    using sinode_search_exact [OF ex_builtin_inv _ k, of 0 6 4294967296]
      sinode_search_exact [OF ex_builtin_inv _ k, of 0 NULL NULL]
    by (simp add: a key key_linked_def second_key_def del: One_nat_def)
qed
theorem sinode_insert_links_witness:
  "\<exists>s'. sinode_insert env0 4294967296 SINODE_INSERT_BH_NONE ex1 = Some (0, s') \<and> sinode_inv s' \<and>
     sinode_search s' TYPE_FILE SEARCH_BY_SPEC (ArgFile ''a.c'') = Some 4294967296"
proof -
  have "spec_key ex1 0 4294967296 \<notin> spec_key ex1 0 ` set_tree (si_by_spec ex1 0)"
    by (simp add: ex1_def src0_def)
  from sinode_insert_links [OF ex1_insert_ok this] show ?thesis
    by (auto simp: spec_arg_def spec_key_def sn_str_def ex1_def)
qed

theorem sinode_insert_duplicate_witness:
  "\<exists>s'. sinode_insert env0 4294967432 SINODE_INSERT_BH_NONE ex3 = Some (- 1, s') \<and>
     sinode_search s' TYPE_FILE SEARCH_BY_ID (ArgId 1) = Some 4294967432 \<and>
     sinode_search s' TYPE_FILE SEARCH_BY_SPEC (ArgFile ''a.c'') = Some 4294967296"
proof -
  have "4294967296 \<in> set_tree (si_by_spec ex3 0)" by (simp add: ex3_def ex2_def)
  moreover have "spec_key ex3 0 4294967296 = spec_key ex3 0 4294967432"
    by (simp add: spec_key_def sn_str_def ex3_def ex2_def ex1_def sinode_zero_def)
  ultimately show ?thesis
    using sinode_insert_duplicate [OF ex3_insert_ok, of 4294967296]
    by (auto simp: spec_arg_def spec_key_def sn_str_def by_rf_def ex3_def ex2_def ex1_def)
qed

end
