(* ===== verification/Sinode_Replace.thy ===== *)
theory Sinode_Replace
  imports Sinode_Insert
begin

text \<open>
  Replacement (\<open>SINODE_INSERT_BH_REPLACE\<close>) and the walks over all nodes of a type. A
  replacement exchanges the payloads of the new node and of the first node of the same name
  it meets; the indexes are not relinked.
\<close>

subsection \<open>A walk by name on a tree ordered by name and more\<close>

lemma rb_find_unique:
  fixes f :: "'a \<Rightarrow> 'k::linorder" and key :: "'a \<Rightarrow> 'l::linorder"
  assumes "rb_sorted key t" "d \<in> set_tree t" "f d = k"
    and "\<And>x. 0 < c x \<longleftrightarrow> k < f x" "\<And>x. c x < 0 \<longleftrightarrow> f x < k"
    and "\<And>x y. key x < key y \<Longrightarrow> f x \<le> f y"
    and "\<And>x. x \<in> set_tree t \<Longrightarrow> f x = k \<Longrightarrow> x = d"
  shows "rb_find c t = Some d"
  using assms(1,2,7)
proof (induction t)
  case Leaf
  then show ?case by simp
next
  case (Node l x r)
  have srt: "rb_sorted key l" "rb_sorted key r" "\<forall>y \<in> set_tree l. key y < key x"
    "\<forall>y \<in> set_tree r. key x < key y" using Node.prems(1) by (simp_all add: rb_sorted_Node)
  consider "x = d" | "x \<noteq> d" "d \<in> set_tree l" | "x \<noteq> d" "d \<in> set_tree r"
    using Node.prems(2) by auto
  then show ?case
  proof cases
    case 1
    then have "\<not> 0 < c x" "\<not> c x < 0" using assms(3) assms(4,5) [of x] by auto
    with 1 show ?thesis by simp
  next
    case 2
    then have "k \<le> f x" using srt(3) assms(3) assms(6) [of d x] by auto
    moreover have "f x \<noteq> k" using Node.prems(3) [of x] 2 by auto
    ultimately have "0 < c x" using assms(4) by simp
    then show ?thesis using Node.IH(1) [OF srt(1) 2(2)] Node.prems(3) by simp
  next
    case 3
    then have "f x \<le> k" using srt(4) assms(3) assms(6) [of x d] by auto
    moreover have "f x \<noteq> k" using Node.prems(3) [of x] 3 by auto
    ultimately have "f x < k" by simp
    then have "c x < 0" "\<not> 0 < c x" using assms(4,5) [of x] by auto
    then show ?thesis using Node.IH(2) [OF srt(2) 3(2)] Node.prems(3) by simp
  qed
qed

lemma rb_sorted_mono:
  assumes "rb_sorted key t"
    and "\<And>x y. x \<in> set_tree t \<Longrightarrow> y \<in> set_tree t \<Longrightarrow> key x < key y \<Longrightarrow> key' x < key' y"
  shows "rb_sorted key' t"
  using assms unfolding rb_sorted_def
  by (auto simp: sorted_wrt_map intro: sorted_wrt_mono_rel [rotated])

subsection \<open>The exchange\<close>

text \<open>
  \<open>sinode_insert_do_replace\<close> exchanges the data, the sibuf, the object and the location
  of two nodes, leaves their ids, names, attributes and weak flags, touches no other node,
  and doing it twice is doing nothing.
\<close>

theorem do_replace_swaps:
  assumes "a \<noteq> b" and "s' = sinode_insert_do_replace a b s"
  shows "sn_data (h_sn s' a) = sn_data (h_sn s b) \<and> sn_data (h_sn s' b) = sn_data (h_sn s a)
    \<and> sn_buf (h_sn s' a) = sn_buf (h_sn s b) \<and> sn_obj (h_sn s' a) = sn_obj (h_sn s b)
    \<and> (\<forall>d. sn_id (h_sn s' d) = sn_id (h_sn s d) \<and> sn_str s' d = sn_str s d
        \<and> sn_attributes (h_sn s' d) = sn_attributes (h_sn s d)
        \<and> sn_weak_flag (h_sn s' d) = sn_weak_flag (h_sn s d))
    \<and> (\<forall>d. d = a \<or> d = b \<or> h_sn s' d = h_sn s d)
    \<and> sinode_insert_do_replace a b s' = s"
proof -
  have "payload_from (payload_from x y) (payload_from y x) = x" for x y
    by (simp add: payload_from_def)
  then have "sinode_insert_do_replace a b s' = s"
    using assms by (simp add: sinode_insert_do_replace_def Let_def fun_upd_twist [of a b])
  then show ?thesis
    using assms
    by (simp add: sinode_insert_do_replace_def Let_def payload_from_def sn_str_def)
qed

theorem do_replace_swaps_witness:
  "sinode_insert_do_replace 20 10 (sinode_insert_do_replace 20 10 src0) = src0"
proof -
  have "(20 :: addr) \<noteq> 10" by simp
  note d = do_replace_swaps [OF this refl, of src0]
  show ?thesis by (intro conjunct2 [OF conjunct2 [OF conjunct2 [OF conjunct2 [OF conjunct2 [OF conjunct2 [OF d]]]]]])
qed

subsection \<open>Replacing the only node of a name\<close>

definition by_name :: "nat \<Rightarrow> bool" where
  "by_name t \<longleftrightarrow> t = TYPE_FUNC_GLOBAL \<or> t = TYPE_FUNC_STATIC \<or> t = TYPE_VAR_GLOBAL"

lemma spec_key_name: "fst (spec_key s t d) = sn_str s d"
  by (simp add: spec_key_def)

lemma spec_key_le: "spec_key s t x < spec_key s t y \<Longrightarrow> sn_str s x \<le> sn_str s y"
  using spec_key_name [of s t x] spec_key_name [of s t y] by (auto simp: less_prod_def')

lemma spec_key_lt: "sn_str s x < sn_str s y \<Longrightarrow> spec_key s t x < spec_key s t y"
  using spec_key_name [of s t x] spec_key_name [of s t y] by (auto simp: less_prod_def')

text \<open>The new node, the linked node of its name, and that no other linked node has it.\<close>

definition replace_ok :: "src \<Rightarrow> nat \<Rightarrow> addr \<Rightarrow> addr \<Rightarrow> bool" where
  "replace_ok s t p d \<longleftrightarrow> sinode_inv s \<and> by_name t \<and> fresh_node s t p \<and> name_ok s p \<and>
     d \<in> set_tree (si_by_spec s t) \<and> sn_str s d = sn_str s p \<and>
     (\<forall>x \<in> set_tree (si_by_spec s t). sn_str s x = sn_str s p \<longrightarrow> x = d) \<and>
     (t \<noteq> TYPE_FUNC_STATIC \<longrightarrow> sn_datalen (h_sn s p) = sn_datalen (h_sn s d))"

lemma do_replace_sn:
  "h_sn (sinode_insert_do_replace a b s) =
     (h_sn s)(a := payload_from (h_sn s b) (h_sn s a), b := payload_from (h_sn s a) (h_sn s b))"
  "sn_str (sinode_insert_do_replace a b s) x = sn_str s x"
  "sn_id (h_sn (sinode_insert_do_replace a b s) x) = sn_id (h_sn s x)"
  by (simp_all add: sinode_insert_do_replace_def Let_def payload_from_def sn_str_def)

lemma do_replace_frames [simp]:
  "si_by_id (sinode_insert_do_replace a b s) = si_by_id s"
  "si_by_spec (sinode_insert_do_replace a b s) = si_by_spec s"
  "si_sbuf (sinode_insert_do_replace a b s) = si_sbuf s"
  "si_id_idx (sinode_insert_do_replace a b s) = si_id_idx s"
  "si_names_root (sinode_insert_do_replace a b s) = si_names_root s"
  "name_key (sinode_insert_do_replace a b s) = name_key s"
  "names_inv (sinode_insert_do_replace a b s) = names_inv s"
  "h_sb (sinode_insert_do_replace a b s) = h_sb s"
  by (simp_all add: sinode_insert_do_replace_def Let_def names_inv_def)

lemma replace_inv:
  assumes ok: "replace_ok s t p d"
  shows "sinode_inv (sinode_insert_do_replace d p s)" (is "sinode_inv ?s")
proof -
  note ok' = ok [unfolded replace_ok_def]
  have inv: "sinode_inv s" and t: "t < TYPE_MAX" using ok' by (auto simp: by_name_def)
  have ti: "type_inv s u" if "u < TYPE_MAX" for u using inv that by (simp add: sinode_inv_def)
  note tt = ti [OF t, unfolded type_inv_def]
  have din: "d \<in> set_tree (si_by_id s t)" using ok' tt by auto
  have pout: "p \<notin> set_tree (si_by_id s u)" if "u < TYPE_MAX" for u
    using ok' that by (simp add: fresh_node_def)
  have names: "name_ok ?s x = name_ok s x" for x
    by (simp add: name_ok_def do_replace_sn payload_from_def)
  have same: "spec_key ?s t x = spec_key s t x" if "x \<noteq> d" "x \<noteq> p" for x
    using that by (simp add: spec_key_def do_replace_sn sn_rf_def)
  have "rb_sorted (spec_key ?s t) (si_by_spec s t)"
  proof (rule rb_sorted_mono)
    show "rb_sorted (spec_key s t) (si_by_spec s t)" using tt by simp
    fix x y assume x: "x \<in> set_tree (si_by_spec s t)" and y: "y \<in> set_tree (si_by_spec s t)"
      and lt: "spec_key s t x < spec_key s t y"
    have np: "x \<noteq> p" "y \<noteq> p" using x y pout [OF t] tt by auto
    show "spec_key ?s t x < spec_key ?s t y"
    proof (cases "x = d \<or> y = d")
      case True
      have "sn_str s x \<noteq> sn_str s y" using True lt ok' x y by auto
      then have "sn_str s x < sn_str s y" using spec_key_le [OF lt] by simp
      then show ?thesis by (intro spec_key_lt) (simp add: do_replace_sn)
    next
      case False
      then show ?thesis using lt np same by simp
    qed
  qed
  moreover have "id_key ?s = id_key s" by (simp add: fun_eq_iff id_key_def do_replace_sn(3))
  moreover have "node_ok ?s u x = node_ok s u x" for u x by (simp add: node_ok_def do_replace_sn(3))
  ultimately have own: "type_inv ?s t" using tt names by (simp add: type_inv_def)
  have other: "type_inv ?s u" if u: "u < TYPE_MAX" "u \<noteq> t" for u
  proof (rule type_inv_agree)
    show "type_inv s u" by (rule ti [OF u(1)])
    have "d \<notin> set_tree (si_by_id s u)"
      using inv_below [OF inv t din] inv_below [OF inv u(1), of d] u(2) by (auto simp: node_ok_def)
    then show "agree_on (set_tree (si_by_id s u)) s ?s"
      using pout [OF u(1)] names by (auto simp: agree_on_def do_replace_sn sn_rf_def)
  qed simp_all
  show ?thesis
    unfolding sinode_inv_def using own other inv by (auto simp: sinode_inv_def)
qed

lemma replace_find:
  assumes "replace_ok s t p d"
  shows "rb_find (cmp_file s (sn_str s p)) (si_by_spec s t) = Some d"
proof (rule rb_find_unique)
  note ok = assms [unfolded replace_ok_def]
  have "t < TYPE_MAX" using ok by (auto simp: by_name_def)
  then show "rb_sorted (spec_key s t) (si_by_spec s t)"
    using ok by (simp add: sinode_inv_def type_inv_def)
  show "d \<in> set_tree (si_by_spec s t)" "sn_str s d = sn_str s p" using ok by auto
  show "0 < cmp_file s (sn_str s p) x \<longleftrightarrow> sn_str s p < sn_str s x"
    "cmp_file s (sn_str s p) x < 0 \<longleftrightarrow> sn_str s x < sn_str s p" for x
    by (simp_all add: cmp_file_def strcmp_pos strcmp_neg)
  show "sn_str s x \<le> sn_str s y" if "spec_key s t x < spec_key s t y" for x y
    by (rule spec_key_le [OF that])
  show "x = d" if "x \<in> set_tree (si_by_spec s t)" "sn_str s x = sn_str s p" for x
    using ok that by blast
qed

text \<open>
  Inserting with replacement over the only linked node of the name: it returns 0, the
  linked node takes over the payload of the new one and keeps its id, the invariant holds,
  the new node is found by no search, and the search for what the new node was (its name
  with its resfile or location) gives the linked node.
\<close>

theorem sinode_replace_unique:
  assumes "replace_ok s t p d"
  shows "\<exists>s'. sinode_insert E p SINODE_INSERT_BH_REPLACE s = Some (0, s') \<and> sinode_inv s' \<and>
    h_sn s' d = payload_from (h_sn s p) (h_sn s d) \<and>
    sinode_search s' t SEARCH_BY_ID (ArgId (sn_id (h_sn s d))) = Some d \<and>
    sinode_search s' t SEARCH_BY_ID (ArgId (sn_id (h_sn s p))) = Some NULL \<and>
    sinode_search s' t SEARCH_BY_SPEC (spec_arg t (spec_key s t p)) = Some d"
proof -
  note ok = assms [unfolded replace_ok_def]
  let ?s = "sinode_insert_do_replace d p s"
  have t: "t < TYPE_MAX" "t < TYPE_CODEP" "t \<noteq> 6" "t \<noteq> 0" using ok by (auto simp: by_name_def)
  have inv: "sinode_inv s" and inv': "sinode_inv ?s" using ok replace_inv [OF assms] by auto
  have tt: "type_inv s t" using inv t by (simp add: sinode_inv_def)
  have din: "d \<in> set_tree (si_by_id s t)" using ok tt by (auto simp: type_inv_def)
  have pout: "p \<notin> set_tree (si_by_id s t)" using ok t by (simp add: fresh_node_def)
  have dp: "d \<noteq> p" using din pout by auto
  have pt: "id_type (sn_id (h_sn s p)) = t" "id_type (sn_id (h_sn s d)) = t"
    using ok inv_below [OF inv t(1) din] by (simp_all add: fresh_node_def node_ok_def)
  have nn: "sn_name (h_sn s p) \<noteq> NULL" using ok name_not_null by (auto simp: sinode_inv_def)
  have spec: "sinode_insert_name_resfile E t p SINODE_INSERT_BH_REPLACE s = Some (0, ?s)"
    using replace_find [OF assms] nn ok by (auto simp: sinode_insert_name_resfile_def)
  have "sinode_insert_spec E t p SINODE_INSERT_BH_REPLACE s = Some (0, ?s)"
    using spec ok by (auto simp: sinode_insert_spec_def by_name_def sinode_insert_func_static_def)
  then have run: "sinode_insert E p SINODE_INSERT_BH_REPLACE s = Some (0, ?s)"
    using pt t by (simp add: sinode_insert_def sinode_idtype_def siid_type_def Let_def)
  have kk: "key_of_type t (spec_key s t p)" by (rule key_of_type_spec_key)
  have key: "spec_key ?s t d = spec_key s t p"
    using ok dp t(4) by (simp add: spec_key_def do_replace_sn payload_from_def sn_rf_def)
  have d0: "d \<noteq> NULL" using linked_not_null(1) [OF inv t(1)] din by (metis (full_types))
  have "sn_id (h_sn s p) \<notin> id_key ?s ` set_tree (si_by_id s t)"
    using ok by (simp add: fresh_node_def id_key_def do_replace_sn(3))
  then have s1: "sinode_search ?s t SEARCH_BY_ID (ArgId (sn_id (h_sn s p))) = Some NULL"
    using sinode_search_iff(2) [OF inv' t(2) kk, where d = NULL and i = "sn_id (h_sn s p)" and u = t]
      pt t by simp
  have s2: "sinode_search ?s t SEARCH_BY_ID (ArgId (sn_id (h_sn s d))) = Some d"
    using sinode_search_iff(2) [OF inv' t(2) kk, where d = d and i = "sn_id (h_sn s d)" and u = t]
      pt t d0 din by (simp add: do_replace_sn(3))
  have s3: "sinode_search ?s t SEARCH_BY_SPEC (spec_arg t (spec_key s t p)) = Some d"
    using sinode_search_iff(1) [OF inv' t(2) kk, where d = d and i = 0] d0 key ok by simp
  have "h_sn ?s d = payload_from (h_sn s p) (h_sn s d)" using dp by (simp add: do_replace_sn)
  then show ?thesis using run inv' s1 s2 s3 by (intro exI [of _ ?s]) (intro conjI)
qed

subsection \<open>Replacing when two resfiles have the name\<close>

text \<open>
  C11. With replacement the walk stops at the first node of the name, whatever its resfile.
  When the root \<open>d\<close> has the name and another node \<open>b\<close> has the name and the resfile of the
  new node, \<open>d\<close> gets the payload and \<open>b\<close> keeps its own: afterwards two linked nodes share a
  key, the invariant is broken, and the function or variable of \<open>d\<close>'s resfile is found no more.
\<close>

theorem sinode_replace_wrong_resfile:
  assumes "sinode_inv s" "by_rf t" "fresh_node s t p" "name_ok s p"
    and "si_by_spec s t = Node l d r" "b \<in> set_tree (si_by_spec s t)" "b \<noteq> d"
    and "sn_str s d = sn_str s p" "sn_str s b = sn_str s p" "sn_rf s b = sn_rf s p"
    and "sn_datalen (h_sn s p) = sn_datalen (h_sn s d)"
  shows "\<exists>s'. sinode_insert E p SINODE_INSERT_BH_REPLACE s = Some (0, s') \<and>
    h_sn s' d = payload_from (h_sn s p) (h_sn s d) \<and> h_sn s' b = h_sn s b \<and>
    spec_key s' t d = spec_key s' t b \<and> \<not> sinode_inv s' \<and>
    sinode_search s t SEARCH_BY_SPEC (spec_arg t (spec_key s t d)) = Some d \<and>
    sinode_search s' t SEARCH_BY_SPEC (spec_arg t (spec_key s t d)) = Some NULL"
proof -
  let ?s = "sinode_insert_do_replace d p s"
  have t: "t < TYPE_MAX" "t < TYPE_CODEP" "t \<noteq> 6" "t \<noteq> 0" "t = 2 \<or> t = 4"
    using assms(2) by (auto simp: by_rf_def)
  have tt: "type_inv s t" using assms(1) t by (simp add: sinode_inv_def)
  have dspec: "d \<in> set_tree (si_by_spec s t)" using assms(5) by simp
  have pout: "p \<notin> set_tree (si_by_id s t)" using assms(3) t by (simp add: fresh_node_def)
  have np: "d \<noteq> p" "b \<noteq> p" using dspec assms(6) pout tt by (auto simp: type_inv_def)
  have nn: "sn_name (h_sn s p) \<noteq> NULL" using assms(1,4) name_not_null by (auto simp: sinode_inv_def)
  have "rb_find (cmp_file s (sn_str s p)) (si_by_spec s t) = Some d"
    using assms(5,8) by (simp add: cmp_file_def)
  then have "sinode_insert_name_resfile E t p SINODE_INSERT_BH_REPLACE s = Some (0, ?s)"
    using nn assms(11) by (auto simp: sinode_insert_name_resfile_def)
  then have "sinode_insert_spec E t p SINODE_INSERT_BH_REPLACE s = Some (0, ?s)"
    using t(5) by (auto simp: sinode_insert_spec_def)
  moreover have "id_type (sn_id (h_sn s p)) = t" using assms(3) by (simp add: fresh_node_def node_ok_def)
  ultimately have run: "sinode_insert E p SINODE_INSERT_BH_REPLACE s = Some (0, ?s)"
    using t by (simp add: sinode_insert_def sinode_idtype_def siid_type_def Let_def)
  have kd: "spec_key ?s t d = (sn_str s p, sn_rf s p, 0, 0)"
    using np assms(2,8) t(4) by (simp add: spec_key_def do_replace_sn payload_from_def sn_rf_def)
  have kb: "spec_key ?s t b = (sn_str s p, sn_rf s p, 0, 0)" "spec_key s t b = (sn_str s p, sn_rf s p, 0, 0)"
    using np assms(2,7,9,10) t(4) by (simp_all add: spec_key_def do_replace_sn sn_rf_def)
  have "\<not> sinode_inv ?s"
  proof
    assume "sinode_inv ?s"
    then have "rb_sorted (spec_key ?s t) (si_by_spec s t)" using t by (simp add: sinode_inv_def type_inv_def)
    from rb_sorted_inj [OF this assms(6) dspec] kd kb assms(7) show False by simp
  qed
  have srt: "rb_sorted (spec_key s t) (si_by_spec s t)" using tt by (simp add: type_inv_def)
  have kk: "key_of_type t (spec_key s t d)" by (rule key_of_type_spec_key)
  have before: "sinode_search s t SEARCH_BY_SPEC (spec_arg t (spec_key s t d)) = Some d"
    using search_spec_eq [OF t(2) kk, of s] spec_ix.find_complete [OF srt dspec] by (simp add: ptr_of_def)
  have "spec_key ?s t x \<noteq> spec_key s t d" if x: "x \<in> set_tree (si_by_spec s t)" for x
  proof (cases "x = d")
    case True
    then show ?thesis using kd kb(2) rb_sorted_inj [OF srt assms(6) dspec] assms(7) by auto
  next
    case False
    have "x \<noteq> p" using x pout tt by (auto simp: type_inv_def)
    then have "spec_key ?s t x = spec_key s t x"
      using False by (simp add: spec_key_def do_replace_sn sn_rf_def)
    then show ?thesis using rb_sorted_inj [OF srt x dspec] False by auto
  qed
  then have "rb_find (spec_cmp ?s t (spec_key s t d)) (si_by_spec s t) = None"
    using spec_ix.find_sound [of ?s t "spec_key s t d" "si_by_spec s t"]
    by (cases "rb_find (spec_cmp ?s t (spec_key s t d)) (si_by_spec s t)") auto
  then have after: "sinode_search ?s t SEARCH_BY_SPEC (spec_arg t (spec_key s t d)) = Some NULL"
    using search_spec_eq [OF t(2) kk, of ?s] by (simp add: ptr_of_def)
  have "h_sn ?s d = payload_from (h_sn s p) (h_sn s d)" "h_sn ?s b = h_sn s b"
    using np assms(7) by (simp_all add: do_replace_sn)
  then show ?thesis
    using run kd kb \<open>\<not> sinode_inv ?s\<close> before after by (intro exI [of _ ?s]) simp
qed

subsection \<open>Witnesses of the replacement\<close>

text \<open>
  A region with one name, up to two linked global functions of that name from resfiles 1
  and 2, and a new node from resfile 2.
\<close>

definition exr :: "addr tree \<Rightarrow> src" where
  "exr tr = src0\<lparr>si_sbuf := src_buf0\<lparr>buf_cur := 4294967400\<rparr>,
     si_id_idx := (\<lambda>_. 0)(2 := 536870915), si_names_root := Node Leaf 4294967296 Leaf,
     h_name := (\<lambda>_. ''f''),
     h_sn := (\<lambda>_. sinode_zero\<lparr>sn_name := 4294967296\<rparr>)
       (10 := sinode_zero\<lparr>sn_id := 536870912, sn_name := 4294967296, sn_buf := 1, sn_data := 1000\<rparr>,
        20 := sinode_zero\<lparr>sn_id := 536870913, sn_name := 4294967296, sn_buf := 2, sn_data := 2000\<rparr>,
        30 := sinode_zero\<lparr>sn_id := 536870914, sn_name := 4294967296, sn_buf := 2, sn_data := 77\<rparr>),
     h_sb := (\<lambda>b. sibuf_zero\<lparr>sb_rf := b\<rparr>),
     si_by_id := (\<lambda>_. Leaf)(2 := tr), si_by_spec := (\<lambda>_. Leaf)(2 := tr)\<rparr>"

lemma exr_inv:
  assumes "tr = Node Leaf 10 Leaf \<or> tr = Node Leaf 10 (Node Leaf 20 Leaf)"
  shows "sinode_inv (exr tr)"
proof -
  have "src_buf_inv (si_sbuf (exr tr))"
    by (simp add: exr_def src_buf_inv_def src_buf0_def src_buf_consts src0_def)
  moreover have "rb_sorted (name_key (exr tr)) (si_names_root (exr tr))"
    by (simp add: exr_def rb_sorted_Node)
  ultimately have "names_inv (exr tr)" by (simp add: names_inv_def exr_def)
  moreover have "type_inv (exr tr) 2"
    using assms
    by (elim disjE) (simp_all add: type_inv_def exr_def rb_sorted_Node id_key_def spec_key_def by_rf_def
        sn_str_def sn_rf_def node_ok_def name_ok_def id_type_def ID_VALUE_BITS_def mk_siid_def
        ID_TYPE_BITS_def sinode_zero_def less_prod_def')
  moreover have "type_inv (exr tr) t" if "t \<noteq> 2" for t
    using that by (simp add: type_inv_def exr_def)
  moreover have "idx_ready t (si_id_idx (exr tr) t)" for t
    by (simp add: exr_def idx_ready_def id_type_def ID_VALUE_BITS_def)
  ultimately show ?thesis unfolding sinode_inv_def by metis
qed

lemma exr_fresh:
  assumes "tr = Node Leaf 10 Leaf \<or> tr = Node Leaf 10 (Node Leaf 20 Leaf)"
  shows "fresh_node (exr tr) 2 30" "name_ok (exr tr) 30"
  using assms
  by (auto simp: fresh_node_def node_ok_def name_ok_def exr_def id_key_def id_type_def
      ID_VALUE_BITS_def ID_TYPE_BITS_def mk_siid_def sinode_zero_def)

theorem sinode_replace_unique_witness:
  "\<exists>s'. sinode_insert env0 30 SINODE_INSERT_BH_REPLACE (exr (Node Leaf 10 Leaf)) = Some (0, s') \<and>
     sn_data (h_sn s' 10) = 77 \<and> sn_id (h_sn s' 10) = 536870912"
proof -
  have "replace_ok (exr (Node Leaf 10 Leaf)) 2 30 10"
    using exr_inv exr_fresh
    by (simp add: replace_ok_def by_name_def)
      (simp add: exr_def sn_str_def sinode_zero_def)
  from sinode_replace_unique [OF this, of env0] show ?thesis
    by (auto simp: payload_from_def exr_def)
qed

theorem sinode_replace_wrong_resfile_witness:
  "\<exists>s'. sinode_insert env0 30 SINODE_INSERT_BH_REPLACE (exr (Node Leaf 10 (Node Leaf 20 Leaf))) = Some (0, s')
     \<and> \<not> sinode_inv s' \<and> sn_data (h_sn s' 10) = 77 \<and> sn_data (h_sn s' 20) = 2000"
proof -
  let ?s = "exr (Node Leaf 10 (Node Leaf 20 Leaf))"
  have i: "sinode_inv ?s" "fresh_node ?s 2 30" "name_ok ?s 30" using exr_inv exr_fresh by simp_all
  have f: "by_rf 2" "si_by_spec ?s 2 = Node Leaf 10 (Node Leaf 20 Leaf)" "20 \<in> set_tree (si_by_spec ?s 2)"
    "(20 :: nat) \<noteq> 10" "sn_str ?s 10 = sn_str ?s 30" "sn_str ?s 20 = sn_str ?s 30"
    "sn_rf ?s 20 = sn_rf ?s 30" "sn_datalen (h_sn ?s 30) = sn_datalen (h_sn ?s 10)"
    by (simp_all add: by_rf_def exr_def sn_str_def sn_rf_def sinode_zero_def)
  from sinode_replace_wrong_resfile [OF i(1) f(1) i(2,3) f(2-8), of env0] show ?thesis
    by (auto simp: payload_from_def exr_def sinode_zero_def)
qed

subsection \<open>Walking the nodes of a type\<close>

lemma sinode_iter_fold: "sinode_iter t cb a = fold cb (inorder t) a"
  by (induction t arbitrary: a) auto

definition found_ids :: "src \<Rightarrow> nat \<Rightarrow> siid list \<Rightarrow> addr list" where
  "found_ids s t is = List.map_filter (\<lambda>i. rb_find (cmp_id s i) (si_by_id s t)) is"

lemma match_ids_fold:
  assumes "sinode_inv s" "t < TYPE_MAX" "\<forall>i \<in> set is. id_type i = t"
  shows "match_ids s t f is a = Some (fold f (found_ids s t is) a)"
  using assms(3)
proof (induction "is" arbitrary: a)
  case Nil
  then show ?case by (simp add: found_ids_def map_filter_def)
next
  case (Cons i "is")
  let ?r = "rb_find (cmp_id s i) (si_by_id s t)"
  have "sinode_search s t SEARCH_BY_ID (ArgId i) = Some (ptr_of ?r)"
    using search_id_eq [of i s t] Cons.prems assms(2) by simp
  moreover have "ptr_of ?r = NULL \<longleftrightarrow> ?r = None"
    using find_id_iff [OF assms(1,2), of i NULL] linked_not_null(1) [OF assms(1,2)]
    by (auto simp: ptr_of_eq)
  ultimately show ?case
    using Cons by (cases ?r) (auto simp: found_ids_def map_filter_def ptr_of_def)
qed

lemma found_ids_inorder:
  assumes inv: "sinode_inv s" and t: "t < TYPE_MAX"
  shows "found_ids s t [mk_siid t 0 ..< si_id_idx s t] = inorder (si_by_id s t)"
proof -
  let ?tr = "si_by_id s t" and ?is = "[mk_siid t 0 ..< si_id_idx s t]"
  let ?g = "\<lambda>i. rb_find (cmp_id s i) ?tr"
  have srt: "rb_sorted (id_key s) ?tr" and ok: "\<forall>d \<in> set_tree ?tr. node_ok s t d"
    using inv t by (simp_all add: sinode_inv_def type_inv_def)
  have key: "map (id_key s) (found_ids s t is) = filter (\<lambda>i. ?g i \<noteq> None) is" for "is"
  proof (induction "is")
    case Nil
    then show ?case by (simp add: found_ids_def map_filter_def)
  next
    case (Cons i "is")
    have "?g i = Some d \<Longrightarrow> id_key s d = i" for d
      using find_id_iff [OF inv t, of i d] by (simp add: id_key_def)
    then show ?case
      using Cons by (cases "?g i") (auto simp: found_ids_def map_filter_def)
  qed
  have "sorted_wrt (<) (map (id_key s) (found_ids s t ?is))"
    unfolding key by (intro sorted_wrt_filter) (simp add: sorted_wrt_upt)
  moreover have "set (found_ids s t ?is) = set_tree ?tr"
  proof
    show "set (found_ids s t ?is) \<subseteq> set_tree ?tr"
    proof
      fix d assume "d \<in> set (found_ids s t ?is)"
      then obtain i y where "d = the (?g i)" "?g i = Some y"
        by (auto simp: found_ids_def map_filter_def)
      then show "d \<in> set_tree ?tr" using rb_find_in [of "cmp_id s i" ?tr y] by simp
    qed
    show "set_tree ?tr \<subseteq> set (found_ids s t ?is)"
    proof
      fix d assume d: "d \<in> set_tree ?tr"
      then have "?g (sn_id (h_sn s d)) = Some d" "sn_id (h_sn s d) \<in> set ?is"
        using find_id_iff [OF inv t] ok by (auto simp: node_ok_def)
      then have "d = the (?g (sn_id (h_sn s d)))" "sn_id (h_sn s d) \<in> {i \<in> set ?is. ?g i \<noteq> None}"
        by simp_all
      then have "d \<in> (\<lambda>i. the (?g i)) ` {i \<in> set ?is. ?g i \<noteq> None}" by (rule image_eqI)
      then show "d \<in> set (found_ids s t ?is)" by (simp add: found_ids_def map_filter_def)
    qed
  qed
  then have "set (map (id_key s) (found_ids s t ?is)) = set (map (id_key s) (inorder ?tr))"
    by simp
  ultimately have "map (id_key s) (found_ids s t ?is) = map (id_key s) (inorder ?tr)"
    using srt sorted_wrt_less_unique unfolding rb_sorted_def by blast
  moreover have "inj_on (id_key s) (set_tree ?tr)"
    using rb_sorted_inj [OF srt] by (auto intro: inj_onI)
  ultimately show ?thesis
    using \<open>set (found_ids s t ?is) = set_tree ?tr\<close> by (simp add: map_inj_on)
qed

lemma match_type_iter:
  assumes "sinode_inv s" "t < TYPE_MAX"
  shows "sinode_match_type s t f a = Some (sinode_iter (si_by_id s t) f a)"
proof -
  have "id_type i = t" if "mk_siid t 0 \<le> i" "i < si_id_idx s t" for i
  proof -
    have "id_type (si_id_idx s t) = t" "si_id_idx s t < 2 ^ 32"
      using assms that by (auto simp: sinode_inv_def idx_ready_def)
    then have "si_id_idx s t div 2 ^ 28 = t" by (simp add: id_type_def ID_VALUE_BITS_def)
    moreover have "mk_siid t 0 div 2 ^ 28 = t"
      using assms(2) by (simp add: mk_siid_def ID_TYPE_BITS_def ID_VALUE_BITS_def)
    ultimately have "t \<le> i div 2 ^ 28" "i div 2 ^ 28 \<le> t"
      using div_le_mono [OF that(1), of "2 ^ 28"] div_le_mono [of i "si_id_idx s t" "2 ^ 28"] that(2)
      by simp_all
    then show ?thesis by (simp add: id_type_def ID_VALUE_BITS_def)
  qed
  then have "\<forall>i \<in> set [mk_siid t 0 ..< si_id_idx s t]. id_type i = t" by simp
  from match_ids_fold [OF assms this, of f a] show ?thesis
    using found_ids_inorder [OF assms] by (simp add: sinode_match_type_def sinode_iter_fold)
qed

text \<open>
  C24. Matching by counting ids is walking the tree: for \<open>"func"\<close>, \<open>sinode_match\<close> applies
  the callback to every linked global and then every linked static function, each exactly
  once and in the order of the ids.
\<close>

theorem sinode_match_walks:
  assumes "sinode_inv s"
  shows "sinode_match s ''func'' f a =
      Some (sinode_iter (si_by_id s TYPE_FUNC_STATIC) f (sinode_iter (si_by_id s TYPE_FUNC_GLOBAL) f a))
    \<and> sinode_match s ''func'' (\<lambda>p ps. ps @ [p]) [] =
      Some (inorder (si_by_id s TYPE_FUNC_GLOBAL) @ inorder (si_by_id s TYPE_FUNC_STATIC))
    \<and> distinct (inorder (si_by_id s TYPE_FUNC_GLOBAL) @ inorder (si_by_id s TYPE_FUNC_STATIC))"
proof -
  have run: "sinode_match s ''func'' g b =
      Some (sinode_iter (si_by_id s TYPE_FUNC_STATIC) g (sinode_iter (si_by_id s TYPE_FUNC_GLOBAL) g b))"
    for g and b :: 'b
    using match_type_iter [OF assms, of 2 g b] match_type_iter [OF assms, of 3 g]
    by (simp add: sinode_match_def)
  have app: "fold (\<lambda>p ps. ps @ [p]) xs ys = ys @ xs" for xs ys :: "addr list"
    by (induction xs arbitrary: ys) auto
  have inv: "type_inv s 2" "type_inv s 3" using assms by (simp_all add: sinode_inv_def)
  have "set_tree (si_by_id s 2) \<inter> set_tree (si_by_id s 3) = {}"
    using inv_below [OF assms, of 2] inv_below [OF assms, of 3] by (fastforce simp: node_ok_def)
  then have "distinct (inorder (si_by_id s 2) @ inorder (si_by_id s 3))"
    using inv rb_sorted_distinct by (auto simp: type_inv_def)
  then show ?thesis
    unfolding run using app by (simp add: sinode_iter_fold)
qed

theorem sinode_match_walks_witness:
  "sinode_match (exr (Node Leaf 10 (Node Leaf 20 Leaf))) ''func'' (\<lambda>p ps. ps @ [p]) [] = Some [10, 20]"
proof -
  have "sinode_inv (exr (Node Leaf 10 (Node Leaf 20 Leaf)))" by (rule exr_inv) simp
  from conjunct1 [OF conjunct2 [OF sinode_match_walks [OF this]]] show ?thesis
    by (simp add: exr_def)
qed

end
