(* ===== verification/Use_Lists.thy ===== *)
theory Use_Lists
  imports Si_Types
begin

text \<open>
  The lists of the analysis results (include/si_helper.h): callees and callers with the
  statements of the calls, uses of functions, variables and types, possible values,
  global variables and local variables. All are searched from the head and extended at the
  tail when the search fails; the pointer to an element is its position, as no element is
  removed. What they have in common is the locale \<open>find_append\<close>.
\<close>

subsection \<open>Searching with a position\<close>

fun slist_pos :: "('a \<Rightarrow> bool) \<Rightarrow> 'a list \<Rightarrow> nat option" where
  "slist_pos P [] = None"
| "slist_pos P (x # xs) = (if P x then Some 0 else map_option Suc (slist_pos P xs))"

lemma slist_pos_None: "slist_pos P xs = None \<longleftrightarrow> (\<forall>x \<in> set xs. \<not> P x)"
  by (induction xs) auto

lemma slist_pos_Some:
  "slist_pos P xs = Some i \<Longrightarrow> i < length xs \<and> P (xs ! i) \<and> (\<forall>j < i. \<not> P (xs ! j))"
proof (induction xs arbitrary: i)
  case Nil
  then show ?case by simp
next
  case (Cons x xs)
  show ?case
  proof (cases "P x")
    case True
    with Cons.prems show ?thesis by auto
  next
    case False
    with Cons.prems obtain k where k: "slist_pos P xs = Some k" "i = Suc k" by auto
    from Cons.IH [OF k(1)] show ?thesis
      unfolding k(2) using False by (auto simp: less_Suc_eq_0_disj)
  qed
qed

text \<open>
  Find or append: \<open>same e k\<close> is the test of the search, \<open>mk k x\<close> the element a new key
  gets. The only law is that the search finds what was appended.
\<close>

locale find_append =
  fixes same :: "'a \<Rightarrow> 'k \<Rightarrow> bool"
    and mk :: "'k \<Rightarrow> 'x \<Rightarrow> 'a"
    and add :: "'k \<Rightarrow> 'x \<Rightarrow> 'a list \<Rightarrow> nat \<times> 'a list"
    and dom_ok :: "'k \<Rightarrow> bool"
  assumes mk_same: "dom_ok k \<Longrightarrow> same (mk k x) k"
    and add_eq: "add k x xs = (case slist_pos (\<lambda>e. same e k) xs of
      Some i \<Rightarrow> (i, xs) | None \<Rightarrow> (length xs, slist_add_tail (mk k x) xs))"
begin

lemma add_present: "slist_pos (\<lambda>e. same e k) xs = Some i \<Longrightarrow> add k x xs = (i, xs)"
  by (simp add: add_eq)

lemma add_absent:
  "slist_pos (\<lambda>e. same e k) xs = None \<Longrightarrow> add k x xs = (length xs, xs @ [mk k x])"
  by (simp add: add_eq slist_add_tail_def)

lemma add_prefix: "\<exists>ys. snd (add k x xs) = xs @ ys"
  by (cases "slist_pos (\<lambda>e. same e k) xs") (simp_all add: add_present add_absent)

lemma add_found:
  assumes "dom_ok k" "add k x xs = (i, xs')"
  shows "i < length xs' \<and> same (xs' ! i) k"
proof (cases "slist_pos (\<lambda>e. same e k) xs")
  case None
  then show ?thesis using assms mk_same by (auto simp: add_absent)
next
  case (Some j)
  then show ?thesis using assms slist_pos_Some [OF Some] by (simp add: add_present)
qed

text \<open>Adding the same key again changes nothing, whatever comes with it.\<close>

lemma add_again:
  assumes "dom_ok k" "add k x xs = (i, xs')"
  shows "add k y xs' = (i, xs')"
proof (cases "slist_pos (\<lambda>e. same e k) xs")
  case None
  have app: "slist_pos P (zs @ [z]) = (case slist_pos P zs of None \<Rightarrow> if P z then Some (length zs) else None
      | Some j \<Rightarrow> Some j)" for P and zs :: "'a list" and z
    by (induction zs) (auto split: option.splits)
  from None assms have "i = length xs" "xs' = xs @ [mk k x]" by (simp_all add: add_absent)
  moreover have "slist_pos (\<lambda>e. same e k) xs' = Some i"
    using calculation None mk_same [OF assms(1)] by (simp add: app)
  ultimately show ?thesis by (simp add: add_present)
next
  case (Some j)
  then show ?thesis using assms by (simp add: add_present)
qed

text \<open>At most one element per key: kept by every addition.\<close>

definition once :: "'k \<Rightarrow> 'a list \<Rightarrow> bool" where
  "once k xs \<longleftrightarrow> length (filter (\<lambda>e. same e k) xs) \<le> 1"

lemma add_once:
  assumes "dom_ok k" "once k xs"
  shows "length (filter (\<lambda>e. same e k) (snd (add k x xs))) = 1"
proof (cases "slist_pos (\<lambda>e. same e k) xs")
  case None
  then show ?thesis using mk_same [OF assms(1)] by (simp add: add_absent slist_pos_None filter_empty_conv)
next
  case (Some i)
  then have "filter (\<lambda>e. same e k) xs \<noteq> []"
    using slist_pos_Some [OF Some] nth_mem by (fastforce simp: filter_empty_conv)
  then have "0 < length (filter (\<lambda>e. same e k) xs)" by (simp only: length_greater_0_conv not_False_eq_True)
  then show ?thesis
    using assms(2) unfolding add_present [OF Some] once_def snd_conv by linarith
qed

end

subsection \<open>The elements\<close>

text \<open>\<open>struct id_list\<close>: a global variable used by a function, by id (flag 0) or by tree (1).\<close>

record id_list =
  idl_value :: nat
  idl_value_flag :: nat

record callf_stmt_list =
  cs_where :: addr
  cs_type :: int

record callf_list =
  cl_value :: nat
  cl_value_flag :: nat
  cl_stmts :: "callf_stmt_list list"
  cl_body_missing :: nat

record use_at_list =
  ua_func_id :: siid
  ua_where :: addr
  ua_extra_info :: nat
  ua_type :: int

datatype possible_list_val =
    VALUE_IS_UNSPEC | VALUE_IS_INT_CST | VALUE_IS_STR_CST | VALUE_IS_FUNC
  | VALUE_IS_VAR_ADDR | VALUE_IS_TREE | VALUE_IS_EXPR | VALUE_IS_REAL_CST

record possible_list =
  pv_value :: nat
  pv_extra_param :: nat
  pv_value_flag :: possible_list_val

text \<open>A store into an \<open>int8_t\<close> field and a one-bit field.\<close>

definition to_int8 :: "int \<Rightarrow> int" where
  "to_int8 i = (i + 128) mod 256 - 128"

definition to_bit1 :: "nat \<Rightarrow> nat" where
  "to_bit1 n = n mod 2"

lemma to_int8_id: "- 128 \<le> i \<Longrightarrow> i < 128 \<Longrightarrow> to_int8 i = i"
  by (simp add: to_int8_def)

subsection \<open>The operations\<close>

definition id_list_find :: "id_list list \<Rightarrow> nat \<Rightarrow> nat \<Rightarrow> nat option" where
  "id_list_find head val flag =
     slist_pos (\<lambda>t. idl_value t = val \<and> idl_value_flag t = flag) head"

definition callf_list_find :: "callf_list list \<Rightarrow> nat \<Rightarrow> nat \<Rightarrow> nat option" where
  "callf_list_find head val flag =
     slist_pos (\<lambda>t. cl_value t = val \<and> cl_value_flag t = flag) head"

definition add_call :: "callf_list list \<Rightarrow> nat \<Rightarrow> nat \<Rightarrow> nat \<Rightarrow> nat \<times> callf_list list" where
  "add_call head val value_flag body_missing =
     (case callf_list_find head val value_flag of
        Some i \<Rightarrow> (i, head)
      | None \<Rightarrow> (length head, slist_add_tail
          \<lparr>cl_value = val, cl_value_flag = value_flag, cl_stmts = [],
           cl_body_missing = to_bit1 body_missing\<rparr> head))"

definition callf_stmt_list_exist :: "callf_stmt_list list \<Rightarrow> int \<Rightarrow> addr \<Rightarrow> bool" where
  "callf_stmt_list_exist head type wh =
     (slist_find (\<lambda>t. cs_type t = type \<and> cs_where t = wh) head \<noteq> None)"

definition callf_stmt_list_add :: "callf_stmt_list list \<Rightarrow> int \<Rightarrow> addr \<Rightarrow> callf_stmt_list list" where
  "callf_stmt_list_add head type wh =
     (if callf_stmt_list_exist head type wh then head
      else slist_add_tail \<lparr>cs_where = wh, cs_type = to_int8 type\<rparr> head)"

definition use_at_list_find :: "use_at_list list \<Rightarrow> int \<Rightarrow> addr \<Rightarrow> nat \<Rightarrow> nat option" where
  "use_at_list_find head type wh extra_info =
     slist_pos (\<lambda>t. ua_type t = type \<and> ua_where t = wh \<and> ua_extra_info t = extra_info) head"

definition add_use_at ::
    "use_at_list list \<Rightarrow> siid \<Rightarrow> int \<Rightarrow> addr \<Rightarrow> nat \<Rightarrow> nat \<times> use_at_list list" where
  "add_use_at head i type wh extra_info =
     (case use_at_list_find head type wh extra_info of
        Some p \<Rightarrow> (p, head)
      | None \<Rightarrow> (length head, slist_add_tail
          \<lparr>ua_func_id = i, ua_where = wh, ua_extra_info = extra_info, ua_type = to_int8 type\<rparr> head))"

text \<open>The search of a possible value is given a flag and does not look at it.\<close>

definition possible_list_find :: "possible_list list \<Rightarrow> possible_list_val \<Rightarrow> nat \<Rightarrow> nat option" where
  "possible_list_find head val_flag val = slist_pos (\<lambda>t. pv_value t = val) head"

definition add_possible_list ::
    "possible_list list \<Rightarrow> possible_list_val \<Rightarrow> nat \<Rightarrow> nat \<Rightarrow> nat \<times> possible_list list" where
  "add_possible_list head val_flag val extra =
     (case possible_list_find head val_flag val of
        Some p \<Rightarrow> (p, head)
      | None \<Rightarrow> (length head, slist_add_tail
          \<lparr>pv_value = val, pv_extra_param = wrap32 extra, pv_value_flag = val_flag\<rparr> head))"

subsection \<open>The interpretations\<close>

interpretation calls: find_append
  "\<lambda>t k. cl_value t = fst k \<and> cl_value_flag t = snd k"
  "\<lambda>k bm. \<lparr>cl_value = fst k, cl_value_flag = snd k, cl_stmts = [], cl_body_missing = to_bit1 bm\<rparr>"
  "\<lambda>k bm head. add_call head (fst k) (snd k) bm" "\<lambda>_. True"
  by unfold_locales (auto simp: add_call_def callf_list_find_def)

interpretation stmts: find_append
  "\<lambda>t k. cs_type t = fst k \<and> cs_where t = snd k"
  "\<lambda>k _. \<lparr>cs_where = snd k, cs_type = to_int8 (fst k)\<rparr>"
  "\<lambda>k _ head. (case slist_pos (\<lambda>t. cs_type t = fst k \<and> cs_where t = snd k) head of
     Some i \<Rightarrow> i | None \<Rightarrow> length head, callf_stmt_list_add head (fst k) (snd k))"
  "\<lambda>k. to_int8 (fst k) = fst k"
proof unfold_locales
  fix k :: "int \<times> addr" and x :: 'x and xs
  show "(case slist_pos (\<lambda>t. cs_type t = fst k \<and> cs_where t = snd k) xs of
     Some i \<Rightarrow> i | None \<Rightarrow> length xs, callf_stmt_list_add xs (fst k) (snd k)) =
    (case slist_pos (\<lambda>t. cs_type t = fst k \<and> cs_where t = snd k) xs of
      Some i \<Rightarrow> (i, xs)
    | None \<Rightarrow> (length xs, slist_add_tail \<lparr>cs_where = snd k, cs_type = to_int8 (fst k)\<rparr> xs))"
    using slist_pos_None [of "\<lambda>t. cs_type t = fst k \<and> cs_where t = snd k" xs]
      slist_find_None [of "\<lambda>t. cs_type t = fst k \<and> cs_where t = snd k" xs]
    by (auto simp: callf_stmt_list_add_def callf_stmt_list_exist_def split: option.split)
qed simp

interpretation used: find_append
  "\<lambda>t k. ua_type t = fst k \<and> ua_where t = fst (snd k) \<and> ua_extra_info t = snd (snd k)"
  "\<lambda>k i. \<lparr>ua_func_id = i, ua_where = fst (snd k), ua_extra_info = snd (snd k), ua_type = to_int8 (fst k)\<rparr>"
  "\<lambda>k i head. add_use_at head i (fst k) (fst (snd k)) (snd (snd k))"
  "\<lambda>k. to_int8 (fst k) = fst k"
  by unfold_locales (auto simp: add_use_at_def use_at_list_find_def)

interpretation pvals: find_append
  "\<lambda>t k. pv_value t = k"
  "\<lambda>k x. \<lparr>pv_value = k, pv_extra_param = wrap32 (snd x), pv_value_flag = fst x\<rparr>"
  "\<lambda>k x head. add_possible_list head (fst x) k (snd x)" "\<lambda>_. True"
  by unfold_locales (auto simp: add_possible_list_def possible_list_find_def)

end
