(* ===== verification/Sibuf.thy ===== *)
theory Sibuf
  imports Si_Types Rb_Index
begin

text \<open>
  analysis/sibuf.c and the sibuf helpers of include/si_helper.h: the threads that hold a
  sibuf, the list of sibufs and the lookup of the one an address lies in, the match of
  source types, and the two-level tree of a sibuf's unnamed types.
\<close>

definition upd_sb :: "addr \<Rightarrow> (sibuf \<Rightarrow> sibuf) \<Rightarrow> src \<Rightarrow> src" where
  "upd_sb b f s = s\<lparr>h_sb := (h_sb s)(b := f (h_sb s b))\<rparr>"

lemma upd_sb_simps [simp]:
  "h_sb (upd_sb b f s) c = (if c = b then f (h_sb s b) else h_sb s c)"
  "si_sibuf_head (upd_sb b f s) = si_sibuf_head s" "h_rf (upd_sb b f s) = h_rf s"
  "si_sibuf_mem_usage (upd_sb b f s) = si_sibuf_mem_usage s"
  "si_resfile_head (upd_sb b f s) = si_resfile_head s"
  by (simp_all add: upd_sb_def)

subsection \<open>The users of a sibuf\<close>

definition sibuf_find_user :: "sibuf \<Rightarrow> nat \<Rightarrow> nat option" where
  "sibuf_find_user b user = slist_find (\<lambda>u. u = user) (sb_users b)"

text \<open>\<open>sibuf_add_user\<close> returns 1 when the thread holds the sibuf already.\<close>

definition sibuf_add_user :: "addr \<Rightarrow> nat \<Rightarrow> src \<Rightarrow> int \<times> src" where
  "sibuf_add_user b user s =
     (case sibuf_find_user (h_sb s b) user of
        None \<Rightarrow> (0, upd_sb b (\<lambda>n. n\<lparr>sb_users := slist_add_tail user (sb_users n)\<rparr>) s)
      | Some _ \<Rightarrow> (1, s))"

definition sibuf_del_user :: "addr \<Rightarrow> nat \<Rightarrow> src \<Rightarrow> src" where
  "sibuf_del_user b user s =
     (case sibuf_find_user (h_sb s b) user of
        None \<Rightarrow> s
      | Some u \<Rightarrow> upd_sb b (\<lambda>n. n\<lparr>sb_users := slist_del u (sb_users n)\<rparr>) s)"

definition sibuf_cleanup_user :: "addr \<Rightarrow> src \<Rightarrow> src" where
  "sibuf_cleanup_user b s = upd_sb b (\<lambda>n. n\<lparr>sb_users := []\<rparr>) s"

lemma find_user_iff: "sibuf_find_user b u = None \<longleftrightarrow> u \<notin> set (sb_users b)"
  by (auto simp: sibuf_find_user_def slist_find_None)

lemma find_user_Some: "sibuf_find_user b u = Some v \<Longrightarrow> v = u \<and> u \<in> set (sb_users b)"
  by (auto simp: sibuf_find_user_def dest: slist_find_Some)

lemma add_user_spec:
  assumes "sibuf_add_user b u s = (r, s')" "distinct (sb_users (h_sb s b))"
  shows "r = (if u \<in> set (sb_users (h_sb s b)) then 1 else 0)"
    "set (sb_users (h_sb s' b)) = insert u (set (sb_users (h_sb s b)))"
    "distinct (sb_users (h_sb s' b))"
    "\<exists>us. s' = upd_sb b (\<lambda>n. n\<lparr>sb_users := us\<rparr>) s"
proof -
  have *: "r = (if u \<in> set (sb_users (h_sb s b)) then 1 else 0) \<and>
    set (sb_users (h_sb s' b)) = insert u (set (sb_users (h_sb s b))) \<and>
    distinct (sb_users (h_sb s' b)) \<and> (\<exists>us. s' = upd_sb b (\<lambda>n. n\<lparr>sb_users := us\<rparr>) s)"
  proof (cases "sibuf_find_user (h_sb s b) u")
    case None
    then show ?thesis using assms find_user_iff [of "h_sb s b" u]
      by (auto simp: sibuf_add_user_def op_defs upd_sb_def)
  next
    case (Some v)
    then have "u \<in> set (sb_users (h_sb s b))" using find_user_Some by blast
    moreover have "s = upd_sb b (\<lambda>n. n\<lparr>sb_users := sb_users (h_sb s b)\<rparr>) s" by (simp add: upd_sb_def)
    ultimately show ?thesis using assms Some by (auto simp: sibuf_add_user_def insert_absorb)
  qed
  then show "r = (if u \<in> set (sb_users (h_sb s b)) then 1 else 0)"
    "set (sb_users (h_sb s' b)) = insert u (set (sb_users (h_sb s b)))"
    "distinct (sb_users (h_sb s' b))" "\<exists>us. s' = upd_sb b (\<lambda>n. n\<lparr>sb_users := us\<rparr>) s" by blast+
qed

lemma del_user_spec:
  assumes "distinct (sb_users (h_sb s b))"
  shows "set (sb_users (h_sb (sibuf_del_user b u s) b)) = set (sb_users (h_sb s b)) - {u}"
    "distinct (sb_users (h_sb (sibuf_del_user b u s) b))"
    "\<exists>us. sibuf_del_user b u s = upd_sb b (\<lambda>n. n\<lparr>sb_users := us\<rparr>) s"
proof -
  have *: "set (sb_users (h_sb (sibuf_del_user b u s) b)) = set (sb_users (h_sb s b)) - {u} \<and>
    distinct (sb_users (h_sb (sibuf_del_user b u s) b)) \<and>
    (\<exists>us. sibuf_del_user b u s = upd_sb b (\<lambda>n. n\<lparr>sb_users := us\<rparr>) s)"
  proof (cases "sibuf_find_user (h_sb s b) u")
    case None
    moreover have "s = upd_sb b (\<lambda>n. n\<lparr>sb_users := sb_users (h_sb s b)\<rparr>) s" by (simp add: upd_sb_def)
    ultimately show ?thesis using assms find_user_iff [of "h_sb s b" u]
      by (auto simp: sibuf_del_user_def)
  next
    case (Some v)
    then have "v = u" using find_user_Some by blast
    moreover have "upd_sb b (\<lambda>n. n\<lparr>sb_users := remove1 u (sb_users n)\<rparr>) s =
        upd_sb b (\<lambda>n. n\<lparr>sb_users := remove1 u (sb_users (h_sb s b))\<rparr>) s" by (simp add: upd_sb_def)
    ultimately show ?thesis using assms Some
      by (auto simp: sibuf_del_user_def op_defs)
  qed
  then show "set (sb_users (h_sb (sibuf_del_user b u s) b)) = set (sb_users (h_sb s b)) - {u}"
    "distinct (sb_users (h_sb (sibuf_del_user b u s) b))"
    "\<exists>us. sibuf_del_user b u s = upd_sb b (\<lambda>n. n\<lparr>sb_users := us\<rparr>) s" by blast+
qed

subsection \<open>The list of sibufs\<close>

text \<open>The memory of \<open>sibuf_new\<close> is not cleared; that of the region is zero when it is mapped.\<close>

definition sibuf_new :: "env \<Rightarrow> src \<Rightarrow> (addr \<times> src) option" where
  "sibuf_new E s =
     do { (p, s) \<leftarrow> si_buf_get E (csize E SzSibuf) s; Some (p, upd_sb p (\<lambda>_. sibuf_zero) s) }"

definition sibuf_insert :: "addr \<Rightarrow> src \<Rightarrow> src" where
  "sibuf_insert b s = s\<lparr>si_sibuf_head := slist_add_tail b (si_sibuf_head s)\<rparr>"

definition sibuf_remove :: "addr \<Rightarrow> src \<Rightarrow> src" where
  "sibuf_remove b s = s\<lparr>si_sibuf_head := slist_del b (si_sibuf_head s)\<rparr>"

definition in_sibuf :: "sibuf \<Rightarrow> addr \<Rightarrow> bool" where
  "in_sibuf b a \<longleftrightarrow> sb_load_addr b \<le> a \<and> a < sb_load_addr b + sb_total_len b"

definition find_target_sibuf :: "src \<Rightarrow> addr \<Rightarrow> addr" where
  "find_target_sibuf s a =
     (case slist_find (\<lambda>b. in_sibuf (h_sb s b) a) (si_sibuf_head s) of None \<Rightarrow> NULL | Some b \<Rightarrow> b)"

text \<open>The builtin resfile is the first of the list, when that one is builtin.\<close>

definition get_builtin_resfile :: "src \<Rightarrow> addr" where
  "get_builtin_resfile s =
     (case si_resfile_head s of
        [] \<Rightarrow> NULL
      | r # _ \<Rightarrow> if \<not> rf_built_in (h_rf s r) then NULL else r)"

subsection \<open>The match of source types\<close>

unbundle bit_operations_syntax

definition si_type_match :: "si_type \<Rightarrow> si_type \<Rightarrow> bool" where
  "si_type_match wider smaller =
     (if ty_binary wider AND ty_binary smaller = 0 then False
      else if ty_kernel wider AND ty_kernel smaller = 0 then False
      else if ty_os wider \<noteq> SI_TYPE_OS_ANY \<and> ty_os wider \<noteq> ty_os smaller then False
      else if ty_fmt wider \<noteq> SI_TYPE_DF_ANY \<and> ty_fmt wider \<noteq> ty_fmt smaller then False
      else True)"


text \<open>A match of types as a relation of the single fields.\<close>

lemma si_type_match_refl:
  "ty_binary t \<in> {1, 2, 3} \<Longrightarrow> ty_kernel t \<in> {1, 2, 3} \<Longrightarrow> si_type_match t t"
  by (auto simp: si_type_match_def)

subsection \<open>The unnamed types of a sibuf\<close>

text \<open>
  \<open>struct sibuf_typenode\<close>. A node of the outer tree uses the union as the root of the inner
  tree of its type code; a node of an inner tree uses it as its link, so its root is not
  read.
\<close>

record sibuf_typenode =
  stn_same_tc_root :: "addr tree"
  stn_type_code :: nat
  stn_node :: addr

definition stn_zero :: sibuf_typenode where
  "stn_zero = \<lparr>stn_same_tc_root = Leaf, stn_type_code = 0, stn_node = NULL\<rparr>"

type_synonym stn_heap = "addr \<Rightarrow> sibuf_typenode"

definition sibuf_typenode_new :: "env \<Rightarrow> src \<Rightarrow> stn_heap \<Rightarrow> (addr \<times> src \<times> stn_heap) option" where
  "sibuf_typenode_new E s h =
     do { (p, s) \<leftarrow> si_buf_get E (csize E SzTypenodeSb) s; Some (p, s, h(p := stn_zero)) }"

definition cmp_tc :: "stn_heap \<Rightarrow> nat \<Rightarrow> addr \<Rightarrow> int" where
  "cmp_tc h tc d =
     (if tc < stn_type_code (h d) then 1 else if stn_type_code (h d) < tc then - 1 else 0)"

definition cmp_node :: "stn_heap \<Rightarrow> addr \<Rightarrow> addr \<Rightarrow> int" where
  "cmp_node h a d = (if a < stn_node (h d) then 1 else if stn_node (h d) < a then - 1 else 0)"

text \<open>Inserting into the tree \<open>t\<close> of one type code: an equal node is \<open>BUG()\<close>.\<close>

definition sibuf_typenode_insert_same_tc ::
    "env \<Rightarrow> addr tree \<Rightarrow> addr \<Rightarrow> stn_heap \<Rightarrow> addr tree option" where
  "sibuf_typenode_insert_same_tc E t stn h =
     do { t \<leftarrow> rb_link (cmp_node h (stn_node (h stn))) stn t; Some (rb_insert_color E t) }"

definition sibuf_typenode_insert ::
    "env \<Rightarrow> addr tree \<Rightarrow> addr \<Rightarrow> stn_heap \<Rightarrow> (addr tree \<times> stn_heap) option" where
  "sibuf_typenode_insert E root stn h =
     (case rb_find (cmp_tc h (stn_type_code (h stn))) root of
        Some data \<Rightarrow> do {
          BUG_ON (stn_node (h data) = stn_node (h stn));
          t \<leftarrow> sibuf_typenode_insert_same_tc E (stn_same_tc_root (h data)) stn h;
          Some (root, h(data := (h data)\<lparr>stn_same_tc_root := t\<rparr>))
        }
      | None \<Rightarrow> do {
          root \<leftarrow> rb_link (cmp_tc h (stn_type_code (h stn))) stn root;
          Some (rb_insert_color E root, h)
        })"

definition sibuf_typenode_search_same_tc :: "stn_heap \<Rightarrow> addr tree \<Rightarrow> addr \<Rightarrow> addr option" where
  "sibuf_typenode_search_same_tc h t a = rb_find (cmp_node h a) t"

definition sibuf_typenode_search :: "stn_heap \<Rightarrow> addr tree \<Rightarrow> nat \<Rightarrow> addr \<Rightarrow> addr option" where
  "sibuf_typenode_search h root tc a =
     (case rb_find (cmp_tc h tc) root of
        None \<Rightarrow> None
      | Some data \<Rightarrow>
          if stn_node (h data) = a then Some data
          else sibuf_typenode_search_same_tc h (stn_same_tc_root (h data)) a)"

definition tc_key :: "stn_heap \<Rightarrow> addr \<Rightarrow> nat" where "tc_key h d = stn_type_code (h d)"
definition node_key :: "stn_heap \<Rightarrow> addr \<Rightarrow> addr" where "node_key h d = stn_node (h d)"

interpretation tc_ix: rb_index "tc_key h" "cmp_tc h" for h
  by unfold_locales (auto simp: cmp_tc_def tc_key_def)

interpretation node_ix: rb_index "node_key h" "cmp_node h" for h
  by unfold_locales (auto simp: cmp_node_def node_key_def)

text \<open>
  The invariant of the two levels, the nodes they hold, and the finite map they stand for:
  from a type code and a tree node to the type.
\<close>

definition group_ok :: "stn_heap \<Rightarrow> addr \<Rightarrow> bool" where
  "group_ok h d \<longleftrightarrow> rb_sorted (node_key h) (stn_same_tc_root (h d)) \<and>
     (\<forall>x \<in> set_tree (stn_same_tc_root (h d)). tc_key h x = tc_key h d \<and> node_key h x \<noteq> node_key h d)"

definition stn_inv :: "stn_heap \<Rightarrow> addr tree \<Rightarrow> bool" where
  "stn_inv h root \<longleftrightarrow> rb_sorted (tc_key h) root \<and> (\<forall>d \<in> set_tree root. group_ok h d)"

definition stn_members :: "stn_heap \<Rightarrow> addr tree \<Rightarrow> addr set" where
  "stn_members h root = (\<Union>d \<in> set_tree root. insert d (set_tree (stn_same_tc_root (h d))))"

definition stn_abs :: "stn_heap \<Rightarrow> addr tree \<Rightarrow> nat \<times> addr \<Rightarrow> addr option" where
  "stn_abs h root k = sibuf_typenode_search h root (fst k) (snd k)"

lemma stn_search_iff:
  assumes "stn_inv h root"
  shows "sibuf_typenode_search h root tc a = Some d \<longleftrightarrow>
    d \<in> stn_members h root \<and> tc_key h d = tc \<and> node_key h d = a"
proof (cases "rb_find (cmp_tc h tc) root")
  case None
  have srt: "rb_sorted (tc_key h) root" using assms by (simp add: stn_inv_def)
  have "tc \<notin> tc_key h ` set_tree root" using tc_ix.find_None_iff [OF srt, of tc] None by simp
  then have "tc_key h d \<noteq> tc" if "d \<in> stn_members h root"
    using that assms by (force simp: stn_members_def stn_inv_def group_ok_def)
  with None show ?thesis by (auto simp: sibuf_typenode_search_def)
next
  case (Some g)
  have srt: "rb_sorted (tc_key h) root" using assms by (simp add: stn_inv_def)
  have g: "g \<in> set_tree root" "tc_key h g = tc" using tc_ix.find_iff [OF srt] Some by auto
  have grp: "group_ok h g" using assms g(1) by (simp add: stn_inv_def)
  then have inner: "rb_find (cmp_node h a) (stn_same_tc_root (h g)) = Some d \<longleftrightarrow>
      d \<in> set_tree (stn_same_tc_root (h g)) \<and> node_key h d = a"
    by (intro node_ix.find_iff) (simp add: group_ok_def)
  have only: "d \<in> stn_members h root \<and> tc_key h d = tc \<longleftrightarrow>
      d = g \<or> d \<in> set_tree (stn_same_tc_root (h g))"
  proof
    assume "d \<in> stn_members h root \<and> tc_key h d = tc"
    then obtain e where e: "e \<in> set_tree root" "d = e \<or> d \<in> set_tree (stn_same_tc_root (h e))"
      "tc_key h d = tc" by (auto simp: stn_members_def)
    have "group_ok h e" using assms e(1) by (simp add: stn_inv_def)
    then have "tc_key h e = tc" using e(2,3) by (auto simp: group_ok_def)
    then have "e = g" using rb_sorted_inj [OF srt e(1) g(1)] g(2) by simp
    then show "d = g \<or> d \<in> set_tree (stn_same_tc_root (h g))" using e(2) by simp
  next
    assume "d = g \<or> d \<in> set_tree (stn_same_tc_root (h g))"
    then show "d \<in> stn_members h root \<and> tc_key h d = tc"
      using g grp by (auto simp: stn_members_def group_ok_def)
  qed
  show ?thesis
  proof (cases "node_key h g = a")
    case True
    then have "d \<in> set_tree (stn_same_tc_root (h g)) \<Longrightarrow> node_key h d \<noteq> a"
      using grp by (auto simp: group_ok_def)
    then show ?thesis using Some True only
      by (auto simp: sibuf_typenode_search_def node_key_def)
  next
    case False
    then show ?thesis using Some inner only
      by (auto simp: sibuf_typenode_search_def sibuf_typenode_search_same_tc_def node_key_def)
  qed
qed

definition stn_fresh :: "stn_heap \<Rightarrow> addr tree \<Rightarrow> addr \<Rightarrow> bool" where
  "stn_fresh h root stn \<longleftrightarrow> stn \<notin> stn_members h root \<and> stn_same_tc_root (h stn) = Leaf"

lemma stn_insert_outer:
  assumes "env_ok E" "stn_inv h root" "stn_fresh h root stn"
    and "rb_find (cmp_tc h (stn_type_code (h stn))) root = None"
  obtains t where "sibuf_typenode_insert E root stn h = Some (t, h)" "stn_inv h t"
    "stn_members h t = insert stn (stn_members h root)" "stn_abs h root (tc_key h stn, node_key h stn) = None"
proof -
  have tc: "stn_type_code (h stn) = tc_key h stn" by (simp add: tc_key_def)
  obtain t where t: "rb_link (cmp_tc h (tc_key h stn)) stn root = Some t"
    using assms(4) rb_link_None_iff [of "cmp_tc h (tc_key h stn)" stn root] tc by auto
  have srt: "rb_sorted (tc_key h) t"
    using tc_ix.link_sorted [OF _ t] assms(2) by (simp add: stn_inv_def)
  have st: "set_tree t = insert stn (set_tree root)" by (rule rb_link_set [OF t])
  have "group_ok h stn" using assms(3) by (simp add: stn_fresh_def group_ok_def)
  then have inv: "stn_inv h (rb_insert_color E t)"
    using srt st assms(1,2) by (simp add: stn_inv_def)
  have mem: "stn_members h (rb_insert_color E t) = insert stn (stn_members h root)"
    using st assms(1,3) by (auto simp: stn_members_def stn_fresh_def)
  have "stn_abs h root (tc_key h stn, node_key h stn) = None"
    using assms(4) tc by (simp add: stn_abs_def sibuf_typenode_search_def)
  with t inv mem assms(4) tc that show ?thesis by (simp add: sibuf_typenode_insert_def)
qed

lemma stn_insert_inner:
  assumes "env_ok E" "stn_inv h root" "stn_fresh h root stn"
    and g: "rb_find (cmp_tc h (stn_type_code (h stn))) root = Some g"
    and t: "stn_node (h g) \<noteq> stn_node (h stn)"
      "rb_link (cmp_node h (stn_node (h stn))) stn (stn_same_tc_root (h g)) = Some t"
    and h': "h' = h(g := (h g)\<lparr>stn_same_tc_root := rb_insert_color E t\<rparr>)"
  shows "stn_inv h' root" "stn_members h' root = insert stn (stn_members h root)"
    "tc_key h' = tc_key h" "node_key h' = node_key h"
proof -
  have srt: "rb_sorted (tc_key h) root" using assms(2) by (simp add: stn_inv_def)
  have gin: "g \<in> set_tree root" "tc_key h g = tc_key h stn"
    using tc_ix.find_iff [OF srt] g by (auto simp: tc_key_def)
  have grp: "group_ok h g" using assms(2) gin by (simp add: stn_inv_def)
  show keys: "tc_key h' = tc_key h" "node_key h' = node_key h"
    by (auto simp: h' tc_key_def node_key_def)
  have st: "set_tree t = insert stn (set_tree (stn_same_tc_root (h g)))" by (rule rb_link_set [OF t(2)])
  have "rb_sorted (node_key h) t"
    using node_ix.link_sorted [of h "stn_same_tc_root (h g)" stn t] t(2) grp
    by (simp add: group_ok_def node_key_def)
  moreover have "group_ok h' g \<longleftrightarrow> rb_sorted (node_key h) t \<and>
      (\<forall>x \<in> set_tree t. tc_key h x = tc_key h g \<and> node_key h x \<noteq> node_key h g)"
    unfolding group_ok_def keys using assms(1) by (simp add: h')
  ultimately have "group_ok h' g"
    using grp st t(1) gin(2) by (auto simp: group_ok_def node_key_def)
  moreover have "group_ok h' d" if "d \<in> set_tree root" "d \<noteq> g" for d
    using assms(2) that keys by (simp add: stn_inv_def group_ok_def h')
  ultimately show "stn_inv h' root" using srt keys by (auto simp: stn_inv_def)
  show "stn_members h' root = insert stn (stn_members h root)"
    using gin(1) st assms(1) by (auto simp: stn_members_def h' split: if_splits)
qed

lemma stn_insert_cases:
  assumes "env_ok E" "stn_inv h root" "stn_fresh h root stn"
  shows "if stn_abs h root (tc_key h stn, node_key h stn) \<noteq> None
    then sibuf_typenode_insert E root stn h = None
    else \<exists>root' h'. sibuf_typenode_insert E root stn h = Some (root', h') \<and> stn_inv h' root' \<and>
      stn_members h' root' = insert stn (stn_members h root) \<and>
      tc_key h' = tc_key h \<and> node_key h' = node_key h"
proof (cases "rb_find (cmp_tc h (stn_type_code (h stn))) root")
  case None
  from stn_insert_outer [OF assms None] show ?thesis by (metis (no_types))
next
  case (Some g)
  have keys: "stn_type_code (h stn) = tc_key h stn" "stn_node (h stn) = node_key h stn"
    "stn_node (h g) = node_key h g" by (simp_all add: tc_key_def node_key_def)
  have abs: "stn_abs h root (tc_key h stn, node_key h stn) =
      (if node_key h g = node_key h stn then Some g
       else rb_find (cmp_node h (node_key h stn)) (stn_same_tc_root (h g)))"
    using Some by (simp add: stn_abs_def sibuf_typenode_search_def keys
        sibuf_typenode_search_same_tc_def)
  show ?thesis
  proof (cases "stn_abs h root (tc_key h stn, node_key h stn)")
    case None
    then have ne: "node_key h g \<noteq> node_key h stn" using abs by (auto split: if_splits)
    with None abs obtain t where
      t: "rb_link (cmp_node h (node_key h stn)) stn (stn_same_tc_root (h g)) = Some t"
      using rb_link_None_iff [of "cmp_node h (node_key h stn)" stn "stn_same_tc_root (h g)"] by auto
    let ?h = "h(g := (h g)\<lparr>stn_same_tc_root := rb_insert_color E t\<rparr>)"
    have "sibuf_typenode_insert E root stn h = Some (root, ?h)"
      using Some ne t by (simp add: sibuf_typenode_insert_def keys sibuf_typenode_insert_same_tc_def)
    then show ?thesis
      using None stn_insert_inner [OF assms Some _ _ refl] ne t keys by simp
  next
    case (Some d)
    then have "sibuf_typenode_insert E root stn h = None"
      using abs \<open>rb_find _ root = Some g\<close>
        rb_link_None_iff [of "cmp_node h (node_key h stn)" stn "stn_same_tc_root (h g)"]
      by (auto simp: sibuf_typenode_insert_def keys sibuf_typenode_insert_same_tc_def split: if_splits)
    then show ?thesis using Some by simp
  qed
qed

subsection \<open>Properties\<close>

text \<open>
  C25. The two-level tree of a sibuf is a finite map from type code and tree node to type:
  inserting a type aborts exactly when the map has its key, and otherwise updates the map
  at that key only and keeps the two levels ordered.
\<close>

theorem sibuf_typenode_refines_map:
  assumes "env_ok E" "stn_inv h root" "stn_fresh h root stn"
  shows "(sibuf_typenode_insert E root stn h = None \<longleftrightarrow>
       stn_abs h root (stn_type_code (h stn), stn_node (h stn)) \<noteq> None) \<and>
    (case sibuf_typenode_insert E root stn h of
       None \<Rightarrow> True
     | Some (root', h') \<Rightarrow> stn_inv h' root' \<and>
         stn_abs h' root' = (stn_abs h root)((stn_type_code (h stn), stn_node (h stn)) \<mapsto> stn))"
proof -
  have keys: "stn_type_code (h stn) = tc_key h stn" "stn_node (h stn) = node_key h stn"
    by (simp_all add: tc_key_def node_key_def)
  have upd: "stn_abs h' root' = (stn_abs h root)((tc_key h stn, node_key h stn) \<mapsto> stn)"
    if inv: "stn_inv h' root'" and none: "stn_abs h root (tc_key h stn, node_key h stn) = None"
      and mem: "stn_members h' root' = insert stn (stn_members h root)"
      and k: "tc_key h' = tc_key h" "node_key h' = node_key h" for h' root'
  proof (rule ext, rule opt_eqI)
    fix x d
    show "stn_abs h' root' x = Some d \<longleftrightarrow>
        ((stn_abs h root)((tc_key h stn, node_key h stn) \<mapsto> stn)) x = Some d"
      using stn_search_iff [OF inv, of "fst x" "snd x" d] stn_search_iff [OF assms(2), of "fst x" "snd x" d]
        stn_search_iff [OF assms(2), of "tc_key h stn" "node_key h stn" d] none mem k
      by (cases x) (auto simp: stn_abs_def)
  qed
  show ?thesis
    using stn_insert_cases [OF assms] upd unfolding keys
    by (auto split: if_splits option.splits)
qed

definition stn_ex :: stn_heap where
  "stn_ex = (\<lambda>_. stn_zero)(8 := \<lparr>stn_same_tc_root = Leaf, stn_type_code = 7, stn_node = 100\<rparr>,
     9 := \<lparr>stn_same_tc_root = Leaf, stn_type_code = 7, stn_node = 200\<rparr>)"

theorem sibuf_typenode_refines_map_witness:
  "\<exists>root' h'. sibuf_typenode_insert env0 (Node Leaf 8 Leaf) 9 stn_ex = Some (root', h') \<and>
     sibuf_typenode_search h' root' 7 200 = Some 9 \<and> sibuf_typenode_search h' root' 7 100 = Some 8"
proof -
  have "stn_inv stn_ex (Node Leaf 8 Leaf)"
    by (simp add: stn_ex_def stn_inv_def group_ok_def rb_sorted_Node)
  moreover have "stn_fresh stn_ex (Node Leaf 8 Leaf) 9"
    by (simp add: stn_ex_def stn_fresh_def stn_members_def)
  moreover have k: "stn_type_code (stn_ex 9) = 7" "stn_node (stn_ex 9) = 200" by (simp_all add: stn_ex_def)
  moreover obtain root' h' where r:
    "sibuf_typenode_insert env0 (Node Leaf 8 Leaf) 9 stn_ex = Some (root', h')"
    by (simp add: stn_ex_def sibuf_typenode_insert_def cmp_tc_def sibuf_typenode_insert_same_tc_def)
  ultimately have abs: "stn_abs h' root' = (stn_abs stn_ex (Node Leaf 8 Leaf))((7, 200) \<mapsto> 9)"
    using sibuf_typenode_refines_map [OF env0_ok, of stn_ex "Node Leaf 8 Leaf" 9] unfolding k by simp
  have "stn_abs h' root' (7, 200) = Some 9" "stn_abs h' root' (7, 100) = Some 8"
    unfolding abs by (simp_all add: stn_abs_def sibuf_typenode_search_def cmp_tc_def stn_ex_def)
  then show ?thesis using r by (simp add: stn_abs_def)
qed

end
