(* ===== verification/Call_Graph.thy ===== *)
theory Call_Graph
  imports Use_Lists Sibuf Sinode_Replace
begin

text \<open>
  The function, variable and type nodes of the analysis and the call graph they form
  (include/si_helper.h, the end of analysis/sinode.c, and the call edges of
  analysis/gcc/c.cc): constructing nodes, recording uses, and adding a call edge on its two
  ends, following the \<open>alias\<close> attribute of a function without a body.
\<close>

subsection \<open>Nodes\<close>

record type_node =
  tn_node :: addr
  tn_type_code :: nat
  tn_children :: "addr list"
  tn_used_at :: "use_at_list list"
  tn_name :: string
  tn_next :: addr
  tn_baselen :: int
  tn_ofsize :: int
  tn_is_unsigned :: bool
  tn_is_variant :: bool
  tn_is_set :: bool

record var_node =
  vn_type :: addr
  vn_node :: addr
  vn_name :: string
  vn_used_at :: "use_at_list list"
  vn_possible_values :: "possible_list list"
  vn_detailed :: bool

record func_node =
  fn_node :: addr
  fn_name :: string
  fn_args :: "addr list"
  fn_local_vars :: "addr list"
  fn_global_vars :: "id_list list"
  fn_callees :: "callf_list list"
  fn_callers :: "callf_list list"
  fn_used_at :: "use_at_list list"
  fn_data_states :: "addr list"
  fn_call_depth :: nat
  fn_ret_type :: addr
  fn_cps :: "addr list"
  fn_cp_cnt :: nat
  fn_detailed :: bool

text \<open>\<open>struct attr_list\<close>: an attribute with the tree nodes of its values.\<close>

record attr_list =
  al_name :: string
  al_values :: "addr list"

text \<open>A code path, in C a basic block with its successors: \<open>next\<close> has \<open>branches\<close> elements.\<close>

record code_path =
  cp_func :: addr
  cp_cp :: addr
  cp_cond_head :: addr
  cp_branches :: nat
  cp_next :: "addr list"

text \<open>The state: the project with the heaps of these nodes.\<close>

record cgs =
  cg_si :: src
  h_fn :: "addr \<Rightarrow> func_node"
  h_vn :: "addr \<Rightarrow> var_node"
  h_tn :: "addr \<Rightarrow> type_node"
  h_attr :: "addr \<Rightarrow> attr_list"
  h_cp :: "addr \<Rightarrow> code_path"

definition upd_fn :: "addr \<Rightarrow> (func_node \<Rightarrow> func_node) \<Rightarrow> cgs \<Rightarrow> cgs" where
  "upd_fn p f st = st\<lparr>h_fn := (h_fn st)(p := f (h_fn st p))\<rparr>"

definition upd_vn :: "addr \<Rightarrow> (var_node \<Rightarrow> var_node) \<Rightarrow> cgs \<Rightarrow> cgs" where
  "upd_vn p f st = st\<lparr>h_vn := (h_vn st)(p := f (h_vn st p))\<rparr>"

definition upd_tn :: "addr \<Rightarrow> (type_node \<Rightarrow> type_node) \<Rightarrow> cgs \<Rightarrow> cgs" where
  "upd_tn p f st = st\<lparr>h_tn := (h_tn st)(p := f (h_tn st p))\<rparr>"

definition upd_attr :: "addr \<Rightarrow> (attr_list \<Rightarrow> attr_list) \<Rightarrow> cgs \<Rightarrow> cgs" where
  "upd_attr p f st = st\<lparr>h_attr := (h_attr st)(p := f (h_attr st p))\<rparr>"

definition upd_cp :: "addr \<Rightarrow> (code_path \<Rightarrow> code_path) \<Rightarrow> cgs \<Rightarrow> cgs" where
  "upd_cp p f st = st\<lparr>h_cp := (h_cp st)(p := f (h_cp st p))\<rparr>"

lemma upd_fn_simps [simp]:
  "cg_si (upd_fn p f st) = cg_si st" "h_attr (upd_fn p f st) = h_attr st"
  "h_fn (upd_fn p f st) q = (if q = p then f (h_fn st p) else h_fn st q)"
  "h_vn (upd_fn p f st) = h_vn st" "h_tn (upd_fn p f st) = h_tn st"
  by (simp_all add: upd_fn_def)

text \<open>The zeroed node with its tree node and empty lists.\<close>

definition func_node_init :: "addr \<Rightarrow> func_node" where
  "func_node_init node = \<lparr>fn_node = node, fn_name = [], fn_args = [], fn_local_vars = [],
     fn_global_vars = [], fn_callees = [], fn_callers = [], fn_used_at = [], fn_data_states = [],
     fn_call_depth = 0, fn_ret_type = NULL, fn_cps = [], fn_cp_cnt = 0, fn_detailed = False\<rparr>"

definition var_node_init :: "addr \<Rightarrow> var_node" where
  "var_node_init node = \<lparr>vn_type = NULL, vn_node = node, vn_name = [], vn_used_at = [],
     vn_possible_values = [], vn_detailed = False\<rparr>"

definition type_node_init :: "addr \<Rightarrow> nat \<Rightarrow> type_node" where
  "type_node_init node type_code = \<lparr>tn_node = node, tn_type_code = type_code mod 2 ^ 16,
     tn_children = [], tn_used_at = [], tn_name = [], tn_next = NULL, tn_baselen = 0,
     tn_ofsize = 0, tn_is_unsigned = False, tn_is_variant = False, tn_is_set = False\<rparr>"

definition func_node_new :: "env \<Rightarrow> addr \<Rightarrow> cgs \<Rightarrow> (addr \<times> cgs) option" where
  "func_node_new E node st =
     do { (p, s) \<leftarrow> si_buf_get E (csize E SzFuncNode) (cg_si st);
          Some (p, upd_fn p (\<lambda>_. func_node_init node) (st\<lparr>cg_si := s\<rparr>)) }"

definition var_node_new :: "env \<Rightarrow> addr \<Rightarrow> cgs \<Rightarrow> (addr \<times> cgs) option" where
  "var_node_new E node st =
     do { (p, s) \<leftarrow> si_buf_get E (csize E SzVarNode) (cg_si st);
          Some (p, upd_vn p (\<lambda>_. var_node_init node) (st\<lparr>cg_si := s\<rparr>)) }"

definition type_node_new :: "env \<Rightarrow> addr \<Rightarrow> nat \<Rightarrow> cgs \<Rightarrow> (addr \<times> cgs) option" where
  "type_node_new E node type_code st =
     do { (p, s) \<leftarrow> si_buf_get E (csize E SzTypeNode) (cg_si st);
          Some (p, upd_tn p (\<lambda>_. type_node_init node type_code) (st\<lparr>cg_si := s\<rparr>)) }"

text \<open>The \<open>var_list\<close> of a function, by the tree node of the variable.\<close>

definition var_list_find :: "cgs \<Rightarrow> addr list \<Rightarrow> addr \<Rightarrow> addr option" where
  "var_list_find st head node = slist_find (\<lambda>v. vn_node (h_vn st v) = node) head"

subsection \<open>Recording uses\<close>

definition func_add_use_at :: "addr \<Rightarrow> siid \<Rightarrow> int \<Rightarrow> addr \<Rightarrow> nat \<Rightarrow> cgs \<Rightarrow> cgs" where
  "func_add_use_at fn i type wh extra_info =
     upd_fn fn (\<lambda>f. f\<lparr>fn_used_at := snd (add_use_at (fn_used_at f) i type wh extra_info)\<rparr>)"

definition var_add_use_at :: "addr \<Rightarrow> siid \<Rightarrow> int \<Rightarrow> addr \<Rightarrow> nat \<Rightarrow> cgs \<Rightarrow> cgs" where
  "var_add_use_at vn i type wh extra_info =
     upd_vn vn (\<lambda>f. f\<lparr>vn_used_at := snd (add_use_at (vn_used_at f) i type wh extra_info)\<rparr>)"

definition type_add_use_at :: "addr \<Rightarrow> siid \<Rightarrow> int \<Rightarrow> addr \<Rightarrow> nat \<Rightarrow> cgs \<Rightarrow> cgs" where
  "type_add_use_at tn i type wh extra_info =
     upd_tn tn (\<lambda>f. f\<lparr>tn_used_at := snd (add_use_at (tn_used_at f) i type wh extra_info)\<rparr>)"

definition add_possible :: "addr \<Rightarrow> possible_list_val \<Rightarrow> nat \<Rightarrow> nat \<Rightarrow> cgs \<Rightarrow> cgs" where
  "add_possible vn flag val extra =
     upd_vn vn (\<lambda>f. f\<lparr>vn_possible_values :=
       snd (add_possible_list (vn_possible_values f) flag val extra)\<rparr>)"

subsection \<open>Call edges\<close>

text \<open>
  What the gcc module reads of a tree node that is an attribute value: an identifier or a
  string constant with its length, or another code.
\<close>

datatype tree_view = TvIdent string | TvString string nat | TvOther

definition NAME_MAX :: nat where "NAME_MAX = 255"

definition attr_text :: "tree_view \<Rightarrow> string option" where
  "attr_text v = (case v of
       TvIdent nm \<Rightarrow> Some nm
     | TvString nm len \<Rightarrow> if NAME_MAX \<le> len then None else Some nm
     | TvOther \<Rightarrow> None)"

text \<open>
  \<open>add_caller\<close> with the callback of the gcc module, \<open>callee_alias_add_caller\<close>, when
  \<open>alias\<close> is set, and without callback otherwise. The callback searches the global function
  each value of the \<open>alias\<close> attribute names and calls \<open>add_caller\<close> again; the first
  argument bounds the depth of that recursion, the stack. Dereferencing \<open>NULL\<close> has no result.
\<close>

fun add_caller :: "nat \<Rightarrow> (addr \<Rightarrow> tree_view) \<Rightarrow> bool \<Rightarrow> addr \<Rightarrow> addr \<Rightarrow> cgs \<Rightarrow> cgs option"
  and callee_alias_add_caller :: "nat \<Rightarrow> (addr \<Rightarrow> tree_view) \<Rightarrow> addr \<Rightarrow> addr \<Rightarrow> cgs \<Rightarrow> cgs option"
  and alias_values :: "nat \<Rightarrow> (addr \<Rightarrow> tree_view) \<Rightarrow> addr list \<Rightarrow> addr \<Rightarrow> cgs \<Rightarrow> cgs option"
where
  "add_caller 0 tv alias callee_fsn caller_fsn st = None"
| "add_caller (Suc n) tv alias callee_fsn caller_fsn st =
     do {
       BUG_ON (callee_fsn = NULL);
       let callee_fn = sn_data (h_sn (cg_si st) callee_fsn);
       (if callee_fn = NULL then
          (if alias then callee_alias_add_caller n tv callee_fsn caller_fsn st else Some st)
        else Some (upd_fn callee_fn (\<lambda>f. f\<lparr>fn_callers :=
            snd (add_call (fn_callers f) (sn_id (h_sn (cg_si st) caller_fsn)) 0 0)\<rparr>) st))
     }"
| "callee_alias_add_caller n tv callee caller st =
     (if sn_data (h_sn (cg_si st) callee) \<noteq> NULL then None
      else case slist_find (\<lambda>a. al_name (h_attr st a) = ''alias'') (sn_attributes (h_sn (cg_si st) callee)) of
        None \<Rightarrow> Some st
      | Some a \<Rightarrow> alias_values n tv (al_values (h_attr st a)) caller st)"
| "alias_values n tv [] caller st = Some st"
| "alias_values n tv (node # nodes) caller st =
     (if node = NULL then alias_values n tv nodes caller st
      else do {
        let b = find_target_sibuf (cg_si st) node;
        BUG_ON (b = NULL);
        name \<leftarrow> attr_text (tv node);
        new_callee \<leftarrow> sinode_search (cg_si st) TYPE_FUNC_GLOBAL SEARCH_BY_SPEC
          (ArgResfile (sb_rf (h_sb (cg_si st) b)) (get_builtin_resfile (cg_si st)) name);
        st \<leftarrow> add_caller n tv True new_callee caller st;
        alias_values n tv nodes caller st
      })"

definition add_callee :: "addr \<Rightarrow> addr \<Rightarrow> addr \<Rightarrow> int \<Rightarrow> cgs \<Rightarrow> cgs option" where
  "add_callee caller_fsn callee_fsn wh type st =
     (let caller_fn = sn_data (h_sn (cg_si st) caller_fsn);
          callee_fn = sn_data (h_sn (cg_si st) callee_fsn);
          callee_id = sn_id (h_sn (cg_si st) callee_fsn)
      in do {
        BUG_ON (caller_fn = NULL);
        Some (upd_fn caller_fn (\<lambda>f.
          let (i, cl) = add_call (fn_callees f) callee_id 0 (if callee_fn \<noteq> NULL then 0 else 1)
          in f\<lparr>fn_callees := cl[i := (cl ! i)\<lparr>cl_stmts := callf_stmt_list_add (cl_stmts (cl ! i)) type wh\<rparr>]\<rparr>) st)
      })"

text \<open>
  \<open>call_func_decl\<close> of analysis/gcc/c.cc for a call of the declaration \<open>n\<close>;
  \<open>call_fn_sn\<close> is the sinode the module found for it, or \<open>NULL\<close>: then the edge goes to the
  tree node.
\<close>

definition call_func_decl ::
    "nat \<Rightarrow> (addr \<Rightarrow> tree_view) \<Rightarrow> addr \<Rightarrow> addr \<Rightarrow> addr \<Rightarrow> addr \<Rightarrow> addr \<Rightarrow> cgs \<Rightarrow> cgs option" where
  "call_func_decl fuel tv sn fn gs n call_fn_sn st =
     (let val_flag = (if call_fn_sn = NULL then 1 else 0);
          val = (if call_fn_sn = NULL then n else sn_id (h_sn (cg_si st) call_fn_sn));
          st = upd_fn fn (\<lambda>f.
            let (i, cl) = add_call (fn_callees f) val val_flag val_flag
            in f\<lparr>fn_callees := cl[i := (cl ! i)\<lparr>cl_stmts :=
                callf_stmt_list_add (cl_stmts (cl ! i)) (int SI_TYPE_DF_GIMPLE) gs\<rparr>]\<rparr>) st
      in if val_flag = 0 then add_caller fuel tv True call_fn_sn sn st else Some st)"

text \<open>
  \<open>add_possible_callee\<close>: an edge to every function in a list of possible values. The 64-bit
  value is read as a \<open>union siid\<close>, its low 32 bits.
\<close>

fun add_possible_callee ::
    "nat \<Rightarrow> (addr \<Rightarrow> tree_view) \<Rightarrow> addr \<Rightarrow> addr \<Rightarrow> possible_list list \<Rightarrow> cgs \<Rightarrow> cgs option" where
  "add_possible_callee fuel tv caller_fsn gs [] st = Some st"
| "add_possible_callee fuel tv caller_fsn gs (pv # pvs) st =
     (if pv_value_flag pv \<noteq> VALUE_IS_FUNC then add_possible_callee fuel tv caller_fsn gs pvs st
      else do {
        let i = wrap32 (pv_value pv);
        callee_fsn \<leftarrow> sinode_search (cg_si st) (siid_type i) SEARCH_BY_ID (ArgId i);
        BUG_ON (callee_fsn = NULL);
        st \<leftarrow> add_callee caller_fsn callee_fsn gs (int SI_TYPE_DF_GIMPLE) st;
        st \<leftarrow> add_caller fuel tv True callee_fsn caller_fsn st;
        add_possible_callee fuel tv caller_fsn gs pvs st
      })"


subsection \<open>What the edges are\<close>

type_synonym edge_key = "nat \<times> nat"

definition call_keys :: "callf_list list \<Rightarrow> edge_key set" where
  "call_keys cl = (\<lambda>c. (cl_value c, cl_value_flag c)) ` set cl"

lemma add_call_keys: "call_keys (snd (add_call cl v fl bm)) = insert (v, fl) (call_keys cl)"
proof (cases "callf_list_find cl v fl")
  case None
  then show ?thesis by (simp add: add_call_def call_keys_def op_defs)
next
  case (Some i)
  then have "i < length cl" "cl_value (cl ! i) = v" "cl_value_flag (cl ! i) = fl"
    unfolding callf_list_find_def using slist_pos_Some by blast+
  then have "(v, fl) \<in> call_keys cl" by (force simp: call_keys_def)
  with Some show ?thesis by (simp add: add_call_def insert_absorb)
qed

lemma add_call_index: "add_call cl v fl bm = (i, cl') \<Longrightarrow> i < length cl' \<and> cl_value (cl' ! i) = v \<and>
    cl_value_flag (cl' ! i) = fl"
  using calls.add_found [where k = "(v, fl)" and x = bm and xs = cl and i = i and xs' = cl'] by simp

lemma call_keys_update:
  assumes "cl_value c = cl_value (cl ! i)" "cl_value_flag c = cl_value_flag (cl ! i)"
  shows "call_keys (cl[i := c]) = call_keys cl"
proof -
  let ?k = "\<lambda>c. (cl_value c, cl_value_flag c)"
  have "map ?k (cl[i := c]) = map ?k cl"
    using assms by (cases "i < length cl") (simp_all add: map_update list_update_same_conv list_update_beyond)
  then have "set (map ?k (cl[i := c])) = set (map ?k cl)" by simp
  then show ?thesis by (simp add: call_keys_def)
qed

text \<open>The function node of a sinode, and its edges by id.\<close>

definition fn_of :: "cgs \<Rightarrow> addr \<Rightarrow> addr" where
  "fn_of st sn = sn_data (h_sn (cg_si st) sn)"

definition id_of :: "cgs \<Rightarrow> addr \<Rightarrow> siid" where
  "id_of st sn = sn_id (h_sn (cg_si st) sn)"

definition callees_of :: "cgs \<Rightarrow> addr \<Rightarrow> edge_key set" where
  "callees_of st p = call_keys (fn_callees (h_fn st p))"

definition callers_of :: "cgs \<Rightarrow> addr \<Rightarrow> edge_key set" where
  "callers_of st p = call_keys (fn_callers (h_fn st p))"

text \<open>A step that keeps the project and every callee, and only adds callers.\<close>

definition grows_callers :: "cgs \<Rightarrow> cgs \<Rightarrow> bool" where
  "grows_callers st st' \<longleftrightarrow> cg_si st' = cg_si st \<and>
     (\<forall>p. callees_of st' p = callees_of st p \<and> callers_of st p \<subseteq> callers_of st' p)"

lemma grows_callers_refl [simp]: "grows_callers st st"
  by (simp add: grows_callers_def)

lemma grows_callers_trans: "grows_callers a b \<Longrightarrow> grows_callers b c \<Longrightarrow> grows_callers a c"
  by (fastforce simp: grows_callers_def)

lemma upd_callers_grows:
  "grows_callers st (upd_fn p (\<lambda>f. f\<lparr>fn_callers := snd (add_call (fn_callers f) v fl bm)\<rparr>) st)"
  by (auto simp: grows_callers_def callees_of_def callers_of_def add_call_keys)

lemma add_caller_grows:
  "add_caller n tv al g f st = Some st' \<Longrightarrow> grows_callers st st'"
  "callee_alias_add_caller n tv g f st = Some st' \<Longrightarrow> grows_callers st st'"
  "alias_values n tv nodes f st = Some st' \<Longrightarrow> grows_callers st st'"
proof (induction n tv al g f st and n tv g f st and n tv nodes f st arbitrary: st' and st' and st'
    rule: add_caller_callee_alias_add_caller_alias_values.induct)
  case (2 n tv al g f st)
  then show ?case
    by (auto simp: bind_splits Let_def upd_callers_grows split: if_splits)
next
  case (3 n tv callee caller st)
  then show ?case by (auto split: option.splits if_splits)
next
  case (5 n tv node nodes caller st)
  show ?case
  proof (cases "node = NULL")
    case True
    with 5 show ?thesis by simp
  next
    case False
    with 5(4) obtain nm g st1 where *: "attr_text (tv node) = Some nm"
      "find_target_sibuf (cg_si st) node \<noteq> NULL"
      "sinode_search (cg_si st) TYPE_FUNC_GLOBAL SEARCH_BY_SPEC
        (ArgResfile (sb_rf (h_sb (cg_si st) (find_target_sibuf (cg_si st) node)))
          (get_builtin_resfile (cg_si st)) nm) = Some g"
      "add_caller n tv True g caller st = Some st1" "alias_values n tv nodes caller st1 = Some st'"
      by (auto simp: bind_splits Let_def)
    have "grows_callers st st1" using 5(2) False * by simp
    moreover have "grows_callers st1 st'" using 5(3) False * by simp
    ultimately show ?thesis by (rule grows_callers_trans)
  qed
qed simp_all

lemma add_caller_body:
  assumes "add_caller n tv al g f st = Some st'" "fn_of st g \<noteq> NULL"
  shows "(id_of st f, 0) \<in> callers_of st' (fn_of st g)"
  using assms
  by (cases n) (auto simp: bind_splits Let_def fn_of_def id_of_def callers_of_def add_call_keys
      split: if_splits)

text \<open>Adding a callee adds one key at the caller and keeps all else.\<close>

definition callee_added :: "cgs \<Rightarrow> addr \<Rightarrow> edge_key \<Rightarrow> cgs \<Rightarrow> bool" where
  "callee_added st p k st' \<longleftrightarrow> cg_si st' = cg_si st \<and> (\<forall>q. callers_of st' q = callers_of st q) \<and>
     (\<forall>q. callees_of st' q = (if q = p then insert k (callees_of st q) else callees_of st q))"

lemma upd_callees_added:
  "callee_added st p (v, fl) (upd_fn p (\<lambda>f.
     let (i, cl) = add_call (fn_callees f) v fl bm
     in f\<lparr>fn_callees := cl[i := (cl ! i)\<lparr>cl_stmts := callf_stmt_list_add (cl_stmts (cl ! i)) t w\<rparr>]\<rparr>) st)"
proof -
  have "call_keys (cl[i := (cl ! i)\<lparr>cl_stmts := x\<rparr>]) = call_keys cl" for cl i x
    by (rule call_keys_update) simp_all
  then show ?thesis
    using add_call_keys [of "fn_callees (h_fn st p)" v fl bm]
    by (simp add: callee_added_def callees_of_def callers_of_def Let_def case_prod_beta)
qed

lemma add_callee_added:
  "add_callee f g w t st = Some st' \<Longrightarrow> callee_added st (fn_of st f) (id_of st g, 0) st'"
  by (auto simp: add_callee_def Let_def bind_splits fn_of_def id_of_def
      intro: upd_callees_added [unfolded Let_def])


subsection \<open>Every callee edge has its caller edge\<close>

text \<open>
  The functions with a node in the id index; the edges of a set of functions are backed
  when a callee with a body knows its caller. (The converse fails for aliases: the target of
  an alias gets a caller whose callee is the alias.)
\<close>

definition linked_by_id :: "cgs \<Rightarrow> addr \<Rightarrow> bool" where
  "linked_by_id st f \<longleftrightarrow> (\<exists>t < TYPE_MAX. f \<in> set_tree (si_by_id (cg_si st) t))"

definition bodies_distinct :: "cgs \<Rightarrow> bool" where
  "bodies_distinct st \<longleftrightarrow> (\<forall>f g. linked_by_id st f \<and> linked_by_id st g \<and> fn_of st f \<noteq> NULL \<and>
     fn_of st f = fn_of st g \<longrightarrow> f = g)"

definition edges_backed :: "cgs \<Rightarrow> bool" where
  "edges_backed st \<longleftrightarrow> (\<forall>f g. linked_by_id st f \<and> linked_by_id st g \<and> fn_of st f \<noteq> NULL \<and>
     fn_of st g \<noteq> NULL \<and> (id_of st g, 0) \<in> callees_of st (fn_of st f) \<longrightarrow>
     (id_of st f, 0) \<in> callers_of st (fn_of st g))"

lemma same_si:
  assumes "cg_si st' = cg_si st"
  shows "fn_of st' = fn_of st" "id_of st' = id_of st" "linked_by_id st' = linked_by_id st"
    "bodies_distinct st' = bodies_distinct st"
  using assms by (auto simp: fun_eq_iff fn_of_def id_of_def linked_by_id_def bodies_distinct_def)

lemma linked_id_inj:
  assumes "sinode_inv (cg_si st)" "linked_by_id st f" "linked_by_id st g" "id_of st f = id_of st g"
  shows "f = g"
proof -
  obtain t u where t: "t < TYPE_MAX" "f \<in> set_tree (si_by_id (cg_si st) t)"
    and u: "u < TYPE_MAX" "g \<in> set_tree (si_by_id (cg_si st) u)"
    using assms(2,3) by (auto simp: linked_by_id_def)
  have "t = u"
    using inv_below [OF assms(1) t] inv_below [OF assms(1) u] assms(4)
    by (simp add: node_ok_def id_of_def)
  moreover have "rb_sorted (id_key (cg_si st)) (si_by_id (cg_si st) t)"
    using assms(1) t(1) by (simp add: sinode_inv_def type_inv_def)
  ultimately show ?thesis
    using rb_sorted_inj [of "id_key (cg_si st)" _ f g] t u assms(4) by (simp add: id_key_def id_of_def)
qed

lemma search_linked:
  assumes "sinode_inv (cg_si st)" "sinode_search (cg_si st) t SEARCH_BY_ID (ArgId i) = Some g"
    "g \<noteq> NULL" "i < 2 ^ 32"
  shows "linked_by_id st g" "id_of st g = i"
proof -
  have "id_type i < 16" using assms(4) by (simp add: id_type_def ID_VALUE_BITS_def)
  then have t: "id_type i < TYPE_MAX"
    using assms(2) by (auto simp: sinode_search_by_id_def siid_type_def Let_def split: if_splits)
  have "ptr_of (rb_find (cmp_id (cg_si st) i) (si_by_id (cg_si st) (id_type i))) = g"
    using assms(2) search_id_eq [OF t, of "cg_si st" t] by simp
  then have "rb_find (cmp_id (cg_si st) i) (si_by_id (cg_si st) (id_type i)) = Some g"
    using assms(3) unfolding ptr_of_eq by simp
  then show "linked_by_id st g" "id_of st g = i"
    using find_id_iff [OF assms(1) t] t by (auto simp: linked_by_id_def id_of_def)
qed

text \<open>The two halves of an edge, one after the other.\<close>

lemma edge_backed:
  assumes "sinode_inv (cg_si st)" "bodies_distinct st" "edges_backed st"
    and "linked_by_id st f" "linked_by_id st g" "fn_of st f \<noteq> NULL"
    and "callee_added st (fn_of st f) (id_of st g, 0) st1" "grows_callers st1 st2"
    and "fn_of st g \<noteq> NULL \<Longrightarrow> (id_of st f, 0) \<in> callers_of st2 (fn_of st g)"
  shows "edges_backed st2"
proof -
  have si: "cg_si st1 = cg_si st" "cg_si st2 = cg_si st"
    using assms(7,8) by (auto simp: callee_added_def grows_callers_def)
  note same = same_si [OF si(2)]
  have callees: "callees_of st2 q = (if q = fn_of st f then insert (id_of st g, 0) (callees_of st q)
      else callees_of st q)" for q
    using assms(7,8) by (simp add: callee_added_def grows_callers_def)
  have callers: "callers_of st q \<subseteq> callers_of st2 q" for q
    using assms(7,8) by (simp add: callee_added_def grows_callers_def)
  show ?thesis
    unfolding edges_backed_def same
  proof (intro allI impI, elim conjE)
    fix x y assume x: "linked_by_id st x" and y: "linked_by_id st y" and bx: "fn_of st x \<noteq> NULL"
      and bodyy: "fn_of st y \<noteq> NULL" and e: "(id_of st y, 0) \<in> callees_of st2 (fn_of st x)"
    show "(id_of st x, 0) \<in> callers_of st2 (fn_of st y)"
    proof (cases "(id_of st y, 0) \<in> callees_of st (fn_of st x)")
      case True
      then show ?thesis using assms(3) x y bx bodyy callers by (fastforce simp: edges_backed_def)
    next
      case False
      then have "fn_of st x = fn_of st f" "id_of st y = id_of st g" using e callees by (auto split: if_splits)
      then have "x = f" "y = g"
        using assms(2,4) x bx linked_id_inj [OF assms(1) y assms(5)] by (auto simp: bodies_distinct_def)
      then show ?thesis using assms(9) bodyy by simp
    qed
  qed
qed

lemma add_possible_callee_step:
  assumes "add_possible_callee n tv f gs (pv # pvs) st = Some st'" "pv_value_flag pv = VALUE_IS_FUNC"
    and "sinode_inv (cg_si st)"
  obtains g st1 st2 where "linked_by_id st g" "id_of st g = wrap32 (pv_value pv)" "fn_of st f \<noteq> NULL"
    "callee_added st (fn_of st f) (wrap32 (pv_value pv), 0) st1" "grows_callers st1 st2"
    "fn_of st g \<noteq> NULL \<Longrightarrow> (id_of st f, 0) \<in> callers_of st2 (fn_of st g)"
    "add_possible_callee n tv f gs pvs st2 = Some st'"
proof -
  obtain g st1 st2 where
    g: "sinode_search (cg_si st) (siid_type (wrap32 (pv_value pv))) SEARCH_BY_ID
      (ArgId (wrap32 (pv_value pv))) = Some g"
    "g \<noteq> NULL" and st1: "add_callee f g gs (int SI_TYPE_DF_GIMPLE) st = Some st1"
    and st2: "add_caller n tv True g f st1 = Some st2"
    and rest: "add_possible_callee n tv f gs pvs st2 = Some st'"
    using assms(1,2) by (auto simp: bind_splits Let_def)
  note l = search_linked [OF assms(3) g wrap32_bound]
  note a = add_callee_added [OF st1]
  have si: "cg_si st1 = cg_si st" using a by (simp add: callee_added_def)
  have "fn_of st f \<noteq> NULL" using st1 by (auto simp: add_callee_def Let_def bind_splits fn_of_def)
  moreover have "(id_of st f, 0) \<in> callers_of st2 (fn_of st g)" if "fn_of st g \<noteq> NULL"
    using add_caller_body [OF st2] that same_si [OF si] by simp
  ultimately show ?thesis using that l a add_caller_grows(1) [OF st2] rest by simp
qed

lemma add_possible_callee_edges:
  assumes "add_possible_callee n tv f gs pvs st = Some st'" "sinode_inv (cg_si st)"
    "bodies_distinct st" "edges_backed st" "linked_by_id st f"
  shows "cg_si st' = cg_si st \<and> edges_backed st' \<and>
    (\<forall>q. callees_of st' q = callees_of st q \<union>
       (if q = fn_of st f then {(wrap32 (pv_value p), 0) | p. p \<in> set pvs \<and> pv_value_flag p = VALUE_IS_FUNC} else {}))"
  using assms
proof (induction pvs arbitrary: st)
  case Nil
  then show ?case by auto
next
  case (Cons pv pvs)
  show ?case
  proof (cases "pv_value_flag pv = VALUE_IS_FUNC")
    case False
    then have "add_possible_callee n tv f gs pvs st = Some st'" using Cons.prems(1) by simp
    from Cons.IH [OF this Cons.prems(2-5)] show ?thesis using False by auto
  next
    case True
    obtain g st1 st2 where g: "linked_by_id st g" "id_of st g = wrap32 (pv_value pv)" "fn_of st f \<noteq> NULL"
      "callee_added st (fn_of st f) (wrap32 (pv_value pv), 0) st1" "grows_callers st1 st2"
      "fn_of st g \<noteq> NULL \<Longrightarrow> (id_of st f, 0) \<in> callers_of st2 (fn_of st g)"
      and rest: "add_possible_callee n tv f gs pvs st2 = Some st'"
      by (rule add_possible_callee_step [OF Cons.prems(1) True Cons.prems(2)]) blast
    have si: "cg_si st2 = cg_si st" using g(4,5) by (auto simp: callee_added_def grows_callers_def)
    have backed: "edges_backed st2"
      using edge_backed [OF Cons.prems(2-5) g(1,3) _ g(5,6)] g(2,4) by simp
    have "cg_si st' = cg_si st2 \<and> edges_backed st' \<and>
      (\<forall>q. callees_of st' q = callees_of st2 q \<union>
       (if q = fn_of st f then {(wrap32 (pv_value p), 0) | p. p \<in> set pvs \<and> pv_value_flag p = VALUE_IS_FUNC} else {}))"
      using Cons.IH [OF rest] Cons.prems(2-5) si same_si [OF si] backed by simp
    moreover have "callees_of st2 q = (if q = fn_of st f then insert (wrap32 (pv_value pv), 0) (callees_of st q)
        else callees_of st q)" for q
      using g(4,5) by (simp add: callee_added_def grows_callers_def)
    ultimately show ?thesis using si True by auto
  qed
qed

subsection \<open>Properties\<close>

text \<open>
  Recording a use: afterwards exactly one element of the list is the use (when none or
  one was before), the elements before are a prefix, and recording it again, for any
  function, changes nothing. The type must be a value of the field's 8 bits.
\<close>

theorem use_recorded_once:
  assumes "- 128 \<le> t" "t < 128" "add_use_at xs i t w e = (p, ys)"
  shows "p < length ys \<and> ua_type (ys ! p) = t \<and> ua_where (ys ! p) = w \<and> ua_extra_info (ys ! p) = e
    \<and> take (length xs) ys = xs \<and> add_use_at ys j t w e = (p, ys)
    \<and> (use_at_list_find xs t w e = None \<longrightarrow>
         ys = xs @ [\<lparr>ua_func_id = i, ua_where = w, ua_extra_info = e, ua_type = t\<rparr>])"
proof -
  have t: "to_int8 t = t" by (rule to_int8_id [OF assms(1,2)])
  have f: "p < length ys \<and> ua_type (ys ! p) = t \<and> ua_where (ys ! p) = w \<and> ua_extra_info (ys ! p) = e"
    using used.add_found [where k = "(t, w, e)" and x = i and xs = xs and i = p and xs' = ys] assms(3) t by simp
  have a: "add_use_at ys j t w e = (p, ys)"
    using used.add_again [where k = "(t, w, e)" and x = i and xs = xs and i = p and xs' = ys and y = j]
      assms(3) t by simp
  obtain zs where "ys = xs @ zs" using used.add_prefix [where k = "(t, w, e)" and x = i and xs = xs] assms(3) by auto
  moreover have "use_at_list_find xs t w e = None \<longrightarrow>
      ys = xs @ [\<lparr>ua_func_id = i, ua_where = w, ua_extra_info = e, ua_type = t\<rparr>]"
    using assms(3) t by (auto simp: add_use_at_def op_defs)
  ultimately show ?thesis using f a by simp
qed

theorem use_recorded_once_witness:
  "add_use_at (snd (add_use_at [] 7 1 100 2)) 8 1 100 2 = (0, snd (add_use_at [] 7 1 100 2))"
proof -
  have "add_use_at [] 7 1 100 2 = (0, snd (add_use_at [] 7 1 100 2))"
    by (simp add: add_use_at_def use_at_list_find_def)
  from use_recorded_once [OF _ _ this, of 8] show ?thesis by simp
qed

text \<open>
  Possible values are told apart by their number alone: once a number is in the list
  under any flag, adding it under another flag leaves the list as it is. So a function
  whose id was stored before as an integer constant gets no call edge.
\<close>

theorem possible_value_conflated:
  assumes "x \<in> set xs" "pv_value x = v" "\<forall>y \<in> set xs. pv_value_flag y \<noteq> VALUE_IS_FUNC"
  shows "snd (add_possible_list xs fl v e) = xs
    \<and> add_possible_callee n tv f gs (snd (add_possible_list xs VALUE_IS_FUNC v e)) st = Some st"
proof -
  have same: "snd (add_possible_list xs g v e) = xs" for g
  proof -
    have "possible_list_find xs g v \<noteq> None"
      using assms(1,2) by (auto simp: possible_list_find_def slist_pos_None)
    then show ?thesis by (auto simp: add_possible_list_def)
  qed
  have "add_possible_callee n tv f gs ys st = Some st"
    if "\<forall>y \<in> set ys. pv_value_flag y \<noteq> VALUE_IS_FUNC" for ys
    using that by (induction ys) auto
  then show ?thesis using same assms(3) by simp
qed

theorem possible_value_conflated_witness:
  "snd (add_possible_list [\<lparr>pv_value = 536870912, pv_extra_param = 0, pv_value_flag = VALUE_IS_INT_CST\<rparr>]
     VALUE_IS_FUNC 536870912 0) =
   [\<lparr>pv_value = 536870912, pv_extra_param = 0, pv_value_flag = VALUE_IS_INT_CST\<rparr>]"
  using possible_value_conflated
    [of "\<lparr>pv_value = 536870912, pv_extra_param = 0, pv_value_flag = VALUE_IS_INT_CST\<rparr>"
      "[\<lparr>pv_value = 536870912, pv_extra_param = 0, pv_value_flag = VALUE_IS_INT_CST\<rparr>]" 536870912
      VALUE_IS_FUNC 0]
  by simp


text \<open>Two linked functions with bodies, the first with the second among its possible callees.\<close>

definition cg_ex :: cgs where
  "cg_ex = \<lparr>cg_si = exr (Node Leaf 10 (Node Leaf 20 Leaf)), h_fn = (\<lambda>_. func_node_init 0),
     h_vn = (\<lambda>_. var_node_init 0), h_tn = (\<lambda>_. type_node_init 0 0),
     h_attr = (\<lambda>_. \<lparr>al_name = [], al_values = []\<rparr>),
     h_cp = (\<lambda>_. \<lparr>cp_func = NULL, cp_cp = NULL, cp_cond_head = NULL, cp_branches = 0, cp_next = []\<rparr>)\<rparr>"

lemma cg_ex_linked: "linked_by_id cg_ex f \<longleftrightarrow> f = 10 \<or> f = 20"
  by (auto simp: linked_by_id_def cg_ex_def exr_def)

lemma cg_ex_ok: "sinode_inv (cg_si cg_ex)" "bodies_distinct cg_ex" "edges_backed cg_ex"
  "linked_by_id cg_ex 10" "fn_of cg_ex 10 = 1000" "fn_of cg_ex 20 = 2000"
proof -
  show "sinode_inv (cg_si cg_ex)" using exr_inv by (simp add: cg_ex_def)
  show f: "fn_of cg_ex 10 = 1000" "fn_of cg_ex 20 = 2000"
    by (simp_all add: fn_of_def cg_ex_def exr_def sinode_zero_def)
  show "bodies_distinct cg_ex" using f by (auto simp: bodies_distinct_def cg_ex_linked)
  show "edges_backed cg_ex"
    by (simp add: edges_backed_def callees_of_def call_keys_def cg_ex_def func_node_init_def)
  show "linked_by_id cg_ex 10" by (simp add: cg_ex_linked)
qed


end
