(* ===== verification/Mark_Entry.thy ===== *)
theory Mark_Entry
  imports Call_Graph
begin

text \<open>
  analysis/mark-entry.c: the call depth of every function, counted from the entries of the
  program. \<open>mark_subcall_entry\<close> walks the call graph depth first, giving up where a function
  already has a depth that is not larger; the properties say that it still computes the
  shortest distance.
\<close>

definition CALL_DEPTH_MAX :: nat where "CALL_DEPTH_MAX = 1023"

subsection \<open>The walk\<close>

text \<open>
  The two loops as mutual recursion; the measure is how far the level is from the limit and
  then the rest of the callee list. \<open>call_depth\<close> is a field of 10 bits.
\<close>

function mark_subcall_entry :: "addr \<Rightarrow> nat \<Rightarrow> cgs \<Rightarrow> cgs option"
  and mark_callees :: "callf_list list \<Rightarrow> nat \<Rightarrow> cgs \<Rightarrow> cgs option"
where
  "mark_subcall_entry fn call_level st =
     (let depth = fn_call_depth (h_fn st fn) in
      if depth \<noteq> 0 \<and> depth \<le> call_level then Some st
      else if CALL_DEPTH_MAX < call_level then Some st
      else mark_callees (fn_callees (h_fn st fn)) (call_level + 1)
        (upd_fn fn (\<lambda>f. f\<lparr>fn_call_depth := call_level mod 2 ^ 10\<rparr>) st))"
| "mark_callees [] call_level st = Some st"
| "mark_callees (tmp # tmps) call_level st =
     (if cl_value_flag tmp \<noteq> 0 then mark_callees tmps call_level st
      else do {
        let this_id = wrap32 (cl_value tmp);
        sub_fsn \<leftarrow> sinode_search (cg_si st) (siid_type this_id) SEARCH_BY_ID (ArgId this_id);
        (if sub_fsn = NULL then mark_callees tmps call_level st
         else if sn_data (h_sn (cg_si st) sub_fsn) = NULL then mark_callees tmps call_level st
         else do {
           st \<leftarrow> mark_subcall_entry (sn_data (h_sn (cg_si st) sub_fsn)) call_level st;
           mark_callees tmps call_level st
         })
      })"
  by pat_completeness auto
termination
  by (relation "inv_image (less_than <*lex*> less_than)
      (\<lambda>x. case x of Inl (fn, l, st) \<Rightarrow> (CALL_DEPTH_MAX + 2 - l, 0)
         | Inr (cs, l, st) \<Rightarrow> (CALL_DEPTH_MAX + 2 - l, Suc (length cs)))")
    (auto simp: CALL_DEPTH_MAX_def)

subsection \<open>The entries\<close>

definition starts_with :: "string \<Rightarrow> string \<Rightarrow> bool" where
  "starts_with nm str \<longleftrightarrow> strncmp nm str (length str) = 0"

text \<open>\<open>do_mark_entry\<close>: flag 0 compares the start of the name, 1 all of it.\<close>

definition do_mark_entry :: "siid \<Rightarrow> string \<Rightarrow> int \<Rightarrow> cgs \<Rightarrow> (int \<times> cgs) option" where
  "do_mark_entry tid str flag st =
     do {
       sn \<leftarrow> sinode_search (cg_si st) (siid_type tid) SEARCH_BY_ID (ArgId tid);
       (if sn = NULL then Some (0, st)
        else let fn = sn_data (h_sn (cg_si st) sn) in
          if fn = NULL then Some (0, st)
          else if flag = 0 then
            (if strncmp (fn_name (h_fn st fn)) str (length str) \<noteq> 0 then Some (0, st)
             else do { st \<leftarrow> mark_subcall_entry fn 1 st; Some (0, st) })
          else if flag = 1 then
            (if strcmp (fn_name (h_fn st fn)) str \<noteq> 0 then Some (0, st)
             else do { st \<leftarrow> mark_subcall_entry fn 1 st; Some (0, st) })
          else Some (- 1, st))
     }"

fun linux_ids :: "siid list \<Rightarrow> cgs \<Rightarrow> cgs option" where
  "linux_ids [] st = Some st"
| "linux_ids (i # is) st = do { (_, st) \<leftarrow> do_mark_entry i ''__x64_sys_'' 0 st; linux_ids is st }"

definition mark_linux_kern_entry :: "cgs \<Rightarrow> (int \<times> cgs) option" where
  "mark_linux_kern_entry st =
     do { st \<leftarrow> linux_ids [mk_siid TYPE_FUNC_GLOBAL 0 ..< si_id_idx (cg_si st) TYPE_FUNC_GLOBAL] st;
          Some (0, st) }"

fun unknown_ids :: "siid list \<Rightarrow> cgs \<Rightarrow> cgs option" where
  "unknown_ids [] st = Some st"
| "unknown_ids (i # is) st =
     do {
       fsn \<leftarrow> sinode_search (cg_si st) (siid_type i) SEARCH_BY_ID (ArgId i);
       (if fsn = NULL \<or> sn_data (h_sn (cg_si st) fsn) = NULL then unknown_ids is st
        else if fn_callers (h_fn st (sn_data (h_sn (cg_si st) fsn))) \<noteq> [] then unknown_ids is st
        else do {
          st \<leftarrow> mark_subcall_entry (sn_data (h_sn (cg_si st) fsn)) 1 st;
          unknown_ids is st
        })
     }"

definition mark_unknown_entry :: "cgs \<Rightarrow> (int \<times> cgs) option" where
  "mark_unknown_entry st =
     do { st \<leftarrow> unknown_ids [mk_siid TYPE_FUNC_GLOBAL 0 ..< si_id_idx (cg_si st) TYPE_FUNC_GLOBAL] st;
          Some (0, st) }"

definition src_is_linux_kernel :: "src \<Rightarrow> bool" where
  "src_is_linux_kernel s \<longleftrightarrow>
     ty_os (si_type s) = SI_TYPE_OS_LINUX \<and> ty_kernel (si_type s) = SI_TYPE_KERN"

definition mark_entry :: "cgs \<Rightarrow> (int \<times> cgs) option" where
  "mark_entry st =
     (if src_is_linux_kernel (cg_si st) then mark_linux_kern_entry st else mark_unknown_entry st)"

subsection \<open>The call graph the walk sees\<close>

text \<open>
  The function nodes a callee list leads to, in order; a search that fails for an id out of
  range has no result.
\<close>

fun callee_fns :: "src \<Rightarrow> callf_list list \<Rightarrow> addr list" where
  "callee_fns s [] = []"
| "callee_fns s (c # cs) =
     (if cl_value_flag c \<noteq> 0 then callee_fns s cs
      else case sinode_search s (siid_type (wrap32 (cl_value c))) SEARCH_BY_ID (ArgId (wrap32 (cl_value c))) of
          None \<Rightarrow> callee_fns s cs
        | Some g \<Rightarrow> if g = NULL \<or> sn_data (h_sn s g) = NULL then callee_fns s cs
            else sn_data (h_sn s g) # callee_fns s cs)"

definition ids_in_range :: "src \<Rightarrow> callf_list list \<Rightarrow> bool" where
  "ids_in_range s cs \<longleftrightarrow> (\<forall>c \<in> set cs. cl_value_flag c = 0 \<longrightarrow> id_type (wrap32 (cl_value c)) < TYPE_MAX)"

definition succs :: "cgs \<Rightarrow> addr \<Rightarrow> addr list" where
  "succs st p = callee_fns (cg_si st) (fn_callees (h_fn st p))"

definition depth_of :: "cgs \<Rightarrow> addr \<Rightarrow> nat" where
  "depth_of st p = fn_call_depth (h_fn st p)"

text \<open>The walk over the abstract graph: a depth map, changed at one node after the other.\<close>

function walk :: "(addr \<Rightarrow> addr list) \<Rightarrow> addr \<Rightarrow> nat \<Rightarrow> (addr \<Rightarrow> nat) \<Rightarrow> (addr \<Rightarrow> nat)"
  and walks :: "(addr \<Rightarrow> addr list) \<Rightarrow> addr list \<Rightarrow> nat \<Rightarrow> (addr \<Rightarrow> nat) \<Rightarrow> (addr \<Rightarrow> nat)"
where
  "walk G p l D =
     (if D p \<noteq> 0 \<and> D p \<le> l then D
      else if CALL_DEPTH_MAX < l then D
      else walks G (G p) (l + 1) (D(p := l)))"
| "walks G [] l D = D"
| "walks G (q # qs) l D = walks G qs l (walk G q l D)"
  by pat_completeness auto
termination
  by (relation "inv_image (less_than <*lex*> less_than)
      (\<lambda>x. case x of Inl (G, fn, l, st) \<Rightarrow> (CALL_DEPTH_MAX + 2 - l, 0)
         | Inr (G, cs, l, st) \<Rightarrow> (CALL_DEPTH_MAX + 2 - l, Suc (length cs)))")
    (auto simp: CALL_DEPTH_MAX_def)

declare mark_subcall_entry.simps [simp del] walk.simps [simp del]

subsection \<open>The code is the abstract walk\<close>

definition set_depths :: "(addr \<Rightarrow> nat) \<Rightarrow> cgs \<Rightarrow> cgs" where
  "set_depths D st = st\<lparr>h_fn := (\<lambda>p. (h_fn st p)\<lparr>fn_call_depth := D p\<rparr>)\<rparr>"

lemma set_depths_simps [simp]:
  "cg_si (set_depths D st) = cg_si st" "fn_callees (h_fn (set_depths D st) p) = fn_callees (h_fn st p)"
  "fn_call_depth (h_fn (set_depths D st) p) = D p" "fn_name (h_fn (set_depths D st) p) = fn_name (h_fn st p)"
  "fn_callers (h_fn (set_depths D st) p) = fn_callers (h_fn st p)"
  "upd_fn p (\<lambda>f. f\<lparr>fn_call_depth := l\<rparr>) (set_depths D st) = set_depths (D(p := l)) st"
  by (auto simp: set_depths_def upd_fn_def fun_eq_iff)

lemma set_depths_self: "set_depths (depth_of st) st = st"
  by (simp add: set_depths_def depth_of_def)

definition graph_ok :: "cgs \<Rightarrow> bool" where
  "graph_ok st \<longleftrightarrow> (\<forall>p. ids_in_range (cg_si st) (fn_callees (h_fn st p)))"

lemma mark_refines_walk:
  assumes "graph_ok st0"
  shows "st = set_depths D st0 \<Longrightarrow>
      mark_subcall_entry p l st = Some (set_depths (walk (succs st0) p l D) st0)"
    and "st = set_depths D st0 \<Longrightarrow> ids_in_range (cg_si st0) cs \<Longrightarrow>
      mark_callees cs l st = Some (set_depths (walks (succs st0) (callee_fns (cg_si st0) cs) l D) st0)"
proof (induction p l st and cs l st arbitrary: D and D rule: mark_subcall_entry_mark_callees.induct)
  case (1 fn l st)
  show ?case
  proof (cases "D fn \<noteq> 0 \<and> D fn \<le> l \<or> CALL_DEPTH_MAX < l")
    case True
    then show ?thesis
      using 1(2) by (auto simp: mark_subcall_entry.simps [of fn l] walk.simps [of _ fn l])
  next
    case False
    then have small: "l mod 1024 = l" by (simp add: CALL_DEPTH_MAX_def)
    have st: "upd_fn fn (\<lambda>f. f\<lparr>fn_call_depth := l mod 2 ^ 10\<rparr>) st = set_depths (D(fn := l)) st0"
      using 1(2) small by simp
    have rng: "ids_in_range (cg_si st0) (fn_callees (h_fn st fn))"
      using assms 1(2) by (simp add: graph_ok_def)
    have "mark_callees (fn_callees (h_fn st fn)) (l + 1)
        (upd_fn fn (\<lambda>f. f\<lparr>fn_call_depth := l mod 2 ^ 10\<rparr>) st) =
      Some (set_depths (walks (succs st0) (callee_fns (cg_si st0) (fn_callees (h_fn st fn))) (l + 1)
        (D(fn := l))) st0)"
      by (rule 1(1) [OF refl _ _ st rng]) (use False 1(2) in auto)
    moreover have "succs st0 fn = callee_fns (cg_si st0) (fn_callees (h_fn st fn))"
      using 1(2) by (simp add: succs_def)
    ultimately show ?thesis
      using False 1(2)
      by (auto simp: mark_subcall_entry.simps [of fn l] walk.simps [of _ fn l])
  qed
next
  case (2 l st)
  then show ?case by simp
next
  case (3 tmp tmps l st)
  let ?i = "wrap32 (cl_value tmp)"
  have st: "st = set_depths D st0" by (rule 3(6))
  have rng: "ids_in_range (cg_si st0) tmps" using 3(7) by (simp add: ids_in_range_def)
  show ?case
  proof (cases "cl_value_flag tmp \<noteq> 0")
    case True
    then show ?thesis using 3(1) [OF True st rng] by simp
  next
    case False
    then have "id_type ?i < TYPE_MAX" using 3(7) by (simp add: ids_in_range_def)
    then obtain g where g: "sinode_search (cg_si st) (siid_type ?i) SEARCH_BY_ID (ArgId ?i) = Some g"
      using search_id_eq by blast
    let ?p = "sn_data (h_sn (cg_si st) g)"
    consider "g = NULL" | "g \<noteq> NULL" "?p = NULL" | "g \<noteq> NULL" "?p \<noteq> NULL" by blast
    then show ?thesis
    proof cases
      case 1
      then show ?thesis using False g st 3(2) [OF False refl g 1 st rng] by (simp add: Let_def)
    next
      case 2
      then show ?thesis using False g st 3(3) [OF False refl g 2 st rng] by (simp add: Let_def)
    next
      case c3: 3
      let ?D = "walk (succs st0) ?p l D"
      have m: "mark_subcall_entry ?p l st = Some (set_depths ?D st0)"
        by (rule 3(4) [OF False refl g c3 st])
      have "mark_callees tmps l (set_depths ?D st0) =
        Some (set_depths (walks (succs st0) (callee_fns (cg_si st0) tmps) l ?D) st0)"
        by (rule 3(5) [OF False refl g c3 m refl rng])
      with m show ?thesis using False g c3 st by (simp add: Let_def)
    qed
  qed
qed

subsection \<open>The walk computes shortest distances\<close>

inductive path :: "(addr \<Rightarrow> addr list) \<Rightarrow> nat \<Rightarrow> addr \<Rightarrow> addr \<Rightarrow> bool" for G where
  path_0: "path G 0 p p"
| path_Suc: "q \<in> set (G p) \<Longrightarrow> path G k q r \<Longrightarrow> path G (Suc k) p r"

inductive_cases path_SucE: "path G (Suc k) p r"
inductive_cases path_0E: "path G 0 p r"

lemma path_snoc: "path G k p q \<Longrightarrow> r \<in> set (G q) \<Longrightarrow> path G (Suc k) p r"
  by (induction rule: path.induct) (auto intro: path.intros)

lemma path_split: "path G (Suc k) p r \<Longrightarrow> \<exists>q. path G k p q \<and> r \<in> set (G q)"
proof (induction k arbitrary: p)
  case 0
  then show ?case by (auto elim!: path_SucE path_0E intro: path_0)
next
  case (Suc k)
  then obtain q where q: "q \<in> set (G p)" "path G (Suc k) q r" by (auto elim: path_SucE)
  from Suc.IH [OF q(2)] q(1) show ?case by (auto intro: path_Suc)
qed

text \<open>A node is settled when its successors are at most one deeper.\<close>

definition settled :: "(addr \<Rightarrow> addr list) \<Rightarrow> (addr \<Rightarrow> nat) \<Rightarrow> addr \<Rightarrow> bool" where
  "settled G D p \<longleftrightarrow> (D p \<noteq> 0 \<and> D p < CALL_DEPTH_MAX \<longrightarrow> (\<forall>q \<in> set (G p). D q \<noteq> 0 \<and> D q \<le> D p + 1))"

text \<open>What a walk from the nodes \<open>ps\<close> at level \<open>l\<close> may change.\<close>

definition lowered :: "(addr \<Rightarrow> addr list) \<Rightarrow> addr set \<Rightarrow> nat \<Rightarrow> (addr \<Rightarrow> nat) \<Rightarrow> (addr \<Rightarrow> nat) \<Rightarrow> bool" where
  "lowered G ps l D D' \<longleftrightarrow> (\<forall>x. D' x = D x \<or> (D x = 0 \<or> D' x < D x) \<and> D' x \<le> CALL_DEPTH_MAX \<and>
     (\<exists>p \<in> ps. \<exists>k. path G k p x \<and> D' x = l + k))"

lemma lowered_refl: "lowered G ps l D D"
  by (simp add: lowered_def)

lemma lowered_le: "lowered G ps l D D' \<Longrightarrow> 0 < l \<Longrightarrow> D x \<noteq> 0 \<Longrightarrow> D' x \<noteq> 0 \<and> D' x \<le> D x"
  unfolding lowered_def by (metis add_gr_0 less_imp_le order_refl not_gr_zero)

lemma lowered_trans:
  assumes "lowered G ps l D D1" "lowered G qs l D1 D2" "0 < l"
  shows "lowered G (ps \<union> qs) l D D2"
  unfolding lowered_def
proof
  fix x
  have 1: "D1 x = D x \<or> (D x = 0 \<or> D1 x < D x) \<and> D1 x \<le> CALL_DEPTH_MAX \<and>
     (\<exists>p \<in> ps. \<exists>k. path G k p x \<and> D1 x = l + k)" using assms(1) by (simp add: lowered_def)
  have 2: "D2 x = D1 x \<or> (D1 x = 0 \<or> D2 x < D1 x) \<and> D2 x \<le> CALL_DEPTH_MAX \<and>
     (\<exists>p \<in> qs. \<exists>k. path G k p x \<and> D2 x = l + k)" using assms(2) by (simp add: lowered_def)
  show "D2 x = D x \<or> (D x = 0 \<or> D2 x < D x) \<and> D2 x \<le> CALL_DEPTH_MAX \<and>
     (\<exists>p \<in> ps \<union> qs. \<exists>k. path G k p x \<and> D2 x = l + k)"
  proof (cases "D2 x = D1 x")
    case True
    then show ?thesis using 1 by auto
  next
    case False
    then have b: "(D1 x = 0 \<or> D2 x < D1 x) \<and> D2 x \<le> CALL_DEPTH_MAX \<and>
      (\<exists>p \<in> qs. \<exists>k. path G k p x \<and> D2 x = l + k)" using 2 by blast
    moreover have "D x = 0 \<or> D2 x < D x" using 1 b assms(3) by auto
    ultimately show ?thesis by blast
  qed
qed

lemma settled_lower:
  assumes "settled G D x" "x \<noteq> p" "D p = 0 \<or> l < D p" "0 < l"
  shows "settled G (D(p := l)) x"
  using assms unfolding settled_def by fastforce

lemma walk_spec:
  "0 < l \<Longrightarrow> lowered G {p} l D (walk G p l D)
     \<and> (l \<le> CALL_DEPTH_MAX \<longrightarrow> walk G p l D p \<noteq> 0 \<and> walk G p l D p \<le> l)
     \<and> (\<forall>S. (\<forall>x. x \<notin> S \<longrightarrow> settled G D x) \<longrightarrow> (\<forall>x. x \<notin> S \<longrightarrow> settled G (walk G p l D) x))"
  "0 < l \<Longrightarrow> lowered G (set qs) l D (walks G qs l D)
     \<and> (l \<le> CALL_DEPTH_MAX \<longrightarrow> (\<forall>q \<in> set qs. walks G qs l D q \<noteq> 0 \<and> walks G qs l D q \<le> l))
     \<and> (\<forall>S. (\<forall>x. x \<notin> S \<longrightarrow> settled G D x) \<longrightarrow> (\<forall>x. x \<notin> S \<longrightarrow> settled G (walks G qs l D) x))"
proof (induction G p l D and G qs l D rule: walk_walks.induct)
  case (1 G p l D)
  show ?case
  proof (cases "D p \<noteq> 0 \<and> D p \<le> l \<or> CALL_DEPTH_MAX < l")
    case True
    then show ?thesis by (auto simp: walk.simps [of G p l] lowered_refl)
  next
    case False
    let ?D1 = "D(p := l)" and ?D2 = "walks G (G p) (l + 1) (D(p := l))"
    have w: "walk G p l D = ?D2" using False by (auto simp: walk.simps [of G p l])
    have c: "\<not> (D p \<noteq> 0 \<and> D p \<le> l)" "\<not> CALL_DEPTH_MAX < l" and pos: "0 < l"
      using False 1(2) by auto
    have "0 < l + 1" by simp
    note ih = 1(1) [OF c this]
    have low: "lowered G (set (G p)) (l + 1) ?D1 ?D2"
      and vis: "l + 1 \<le> CALL_DEPTH_MAX \<longrightarrow> (\<forall>q \<in> set (G p). ?D2 q \<noteq> 0 \<and> ?D2 q \<le> l + 1)"
      and set: "\<And>S. (\<forall>x. x \<notin> S \<longrightarrow> settled G ?D1 x) \<Longrightarrow> (\<forall>x. x \<notin> S \<longrightarrow> settled G ?D2 x)"
      using ih by blast+
    have same: "?D2 p = l"
    proof (rule ccontr)
      assume "?D2 p \<noteq> l"
      then obtain k where "?D2 p < l" "?D2 p = l + 1 + k"
        using low [unfolded lowered_def, rule_format, of p] pos by auto
      then show False by simp
    qed
    have "lowered G {p} l D ?D2"
      unfolding lowered_def
    proof
      fix x
      show "?D2 x = D x \<or> (D x = 0 \<or> ?D2 x < D x) \<and> ?D2 x \<le> CALL_DEPTH_MAX \<and>
        (\<exists>p \<in> {p}. \<exists>k. path G k p x \<and> ?D2 x = l + k)"
      proof (cases "x = p")
        case True
        then show ?thesis using same False by (auto intro: path_0)
      next
        case neq: False
        from low [unfolded lowered_def, rule_format, of x] neq
        consider "?D2 x = D x" | k q where "D x = 0 \<or> ?D2 x < D x" "?D2 x \<le> CALL_DEPTH_MAX"
          "q \<in> set (G p)" "path G k q x" "?D2 x = l + 1 + k" by auto
        then show ?thesis
        proof cases
          case 2
          then have "path G (Suc k) p x" "?D2 x = l + Suc k" by (auto intro: path_Suc)
          with 2 show ?thesis by blast
        qed simp
      qed
    qed
    moreover have "settled G ?D2 x" if S: "\<forall>x. x \<notin> S \<longrightarrow> settled G D x" and x: "x \<notin> S" for S x
    proof (cases "x = p")
      case True
      then show ?thesis using same vis by (simp add: settled_def)
    next
      case neq: False
      have "\<forall>y. y \<notin> insert p S \<longrightarrow> settled G ?D1 y"
        using S settled_lower [of G D _ p l] False pos by auto
      from set [OF this] show ?thesis using neq x by simp
    qed
    ultimately show ?thesis using w same pos by auto
  qed
next
  case (2 G l D)
  then show ?case by (simp add: lowered_refl)
next
  case (3 G q qs l D)
  let ?D1 = "walk G q l D"
  note a = 3(1) [OF 3(3)] and b = 3(2) [OF 3(3)]
  note a1 = conjunct1 [OF a] and a2 = conjunct1 [OF conjunct2 [OF a]]
    and a3 = conjunct2 [OF conjunct2 [OF a], rule_format]
  note b1 = conjunct1 [OF b] and b2 = conjunct1 [OF conjunct2 [OF b]]
    and b3 = conjunct2 [OF conjunct2 [OF b], rule_format]
  have low: "lowered G ({q} \<union> set qs) l D (walks G qs l ?D1)"
    by (rule lowered_trans [OF a1 b1 3(3)])
  have hd: "walks G qs l ?D1 q \<noteq> 0 \<and> walks G qs l ?D1 q \<le> l" if l: "l \<le> CALL_DEPTH_MAX"
  proof -
    have d: "?D1 q \<noteq> 0" "?D1 q \<le> l" using mp [OF a2 l] by simp_all
    have "walks G qs l ?D1 q \<noteq> 0 \<and> walks G qs l ?D1 q \<le> ?D1 q"
      by (rule lowered_le [OF b1 3(3) d(1)])
    with d show ?thesis by linarith
  qed
  have st: "settled G (walks G qs l ?D1) x" if "\<And>x. x \<notin> S \<Longrightarrow> settled G D x" "x \<notin> S" for S x
    by (rule b3 [OF a3 [OF that(1)] that(2)])
  show ?case
    unfolding walks.simps list.set insert_is_Un [of q "set qs"]
  proof (intro conjI impI allI)
    show "\<forall>p \<in> {q} \<union> set qs. walks G qs l ?D1 p \<noteq> 0 \<and> walks G qs l ?D1 p \<le> l"
      if "l \<le> CALL_DEPTH_MAX"
      using hd [OF that] mp [OF b2 that] by simp
    show "settled G (walks G qs l ?D1) x"
      if "\<forall>x. x \<notin> S \<longrightarrow> settled G D x" "x \<notin> S" for S x
      by (rule st [OF that(1) [rule_format] that(2)])
  qed (rule low)
qed


definition marked_from :: "(addr \<Rightarrow> addr list) \<Rightarrow> addr set \<Rightarrow> (addr \<Rightarrow> nat) \<Rightarrow> bool" where
  "marked_from G R D \<longleftrightarrow> (\<forall>x. settled G D x) \<and> (\<forall>r \<in> R. D r = 1) \<and>
     (\<forall>x. D x \<noteq> 0 \<longrightarrow> D x \<le> CALL_DEPTH_MAX \<and> (\<exists>r \<in> R. \<exists>k. path G k r x \<and> D x = 1 + k))"

lemma walk_marked:
  assumes "marked_from G R D"
  shows "marked_from G (insert p R) (walk G p 1 D)"
proof -
  let ?D = "walk G p 1 D"
  note w = walk_spec(1) [of 1 G p D]
  have low: "lowered G {p} 1 D ?D" and own: "?D p \<noteq> 0 \<and> ?D p \<le> 1"
    using w by (simp_all add: CALL_DEPTH_MAX_def)
  have "\<forall>x. settled G ?D x" using w assms by (metis (no_types, lifting) empty_iff marked_from_def zero_less_one)
  moreover have "?D r = 1" if "r \<in> insert p R" for r
  proof (cases "r = p")
    case True
    then show ?thesis using own by auto
  next
    case False
    then have "D r = 1" using that assms by (simp add: marked_from_def)
    then show ?thesis using lowered_le [OF low, of r] by auto
  qed
  moreover have "?D x \<le> CALL_DEPTH_MAX \<and> (\<exists>r \<in> insert p R. \<exists>k. path G k r x \<and> ?D x = 1 + k)"
    if "?D x \<noteq> 0" for x
  proof (cases "?D x = D x")
    case True
    then show ?thesis using that assms unfolding marked_from_def by fastforce
  next
    case False
    then show ?thesis using low unfolding lowered_def by fastforce
  qed
  ultimately show ?thesis by (simp add: marked_from_def)
qed

lemma marked_walks:
  "marked_from G R D \<Longrightarrow> marked_from G (R \<union> set ps) (fold (\<lambda>p. walk G p 1) ps D)"
proof (induction ps arbitrary: R D)
  case Nil
  then show ?case by simp
next
  case (Cons p ps)
  from Cons.IH [OF walk_marked [OF Cons.prems, of p]] show ?case by (simp add: Un_commute)
qed

lemma marked_reach:
  assumes "marked_from G R D" "r \<in> R"
  shows "path G k r x \<Longrightarrow> k < CALL_DEPTH_MAX \<Longrightarrow> D x \<noteq> 0 \<and> D x \<le> 1 + k"
proof (induction k arbitrary: x)
  case 0
  then show ?case using assms by (auto elim!: path_0E simp: marked_from_def)
next
  case (Suc k)
  obtain y where y: "path G k r y" "x \<in> set (G y)" using path_split [OF Suc.prems(1)] by auto
  have d: "D y \<noteq> 0" "D y \<le> 1 + k" using Suc.IH [OF y(1)] Suc.prems(2) by auto
  moreover have "settled G D y" using assms(1) by (simp add: marked_from_def)
  ultimately have "D x \<noteq> 0 \<and> D x \<le> D y + 1"
    using y(2) Suc.prems(2) by (simp add: settled_def)
  with d show ?case by simp
qed

text \<open>The depth is one more than the distance from the nearest entry, 0 when there is none near.\<close>

definition shortest_depth :: "(addr \<Rightarrow> addr list) \<Rightarrow> addr set \<Rightarrow> addr \<Rightarrow> nat" where
  "shortest_depth G R x =
     (if \<exists>k < CALL_DEPTH_MAX. \<exists>r \<in> R. path G k r x
      then 1 + (LEAST k. \<exists>r \<in> R. path G k r x) else 0)"

lemma marked_shortest:
  assumes "marked_from G R D"
  shows "D = shortest_depth G R"
proof
  fix x
  let ?P = "\<lambda>k. \<exists>r \<in> R. path G k r x"
  show "D x = shortest_depth G R x"
  proof (cases "\<exists>k < CALL_DEPTH_MAX. ?P k")
    case True
    then obtain k where k: "k < CALL_DEPTH_MAX" "?P k" by blast
    have "D x \<noteq> 0" using marked_reach [OF assms] k by blast
    then obtain j where j: "?P j" "D x = 1 + j" using assms unfolding marked_from_def by blast
    have least: "?P (Least ?P)" "Least ?P \<le> k" "Least ?P \<le> j"
      using LeastI [of ?P, OF k(2)] Least_le [of ?P, OF k(2)] Least_le [of ?P, OF j(1)] by blast+
    then have "D x \<le> 1 + Least ?P" using marked_reach [OF assms] k(1) by (meson le_less_trans)
    then have "D x = 1 + Least ?P" using j(2) least(3) by simp
    then show ?thesis using True by (simp add: shortest_depth_def)
  next
    case False
    have "D x = 0"
    proof (rule ccontr)
      assume "D x \<noteq> 0"
      then obtain j where "?P j" "D x = 1 + j" "D x \<le> CALL_DEPTH_MAX"
        using assms unfolding marked_from_def by blast
      then show False using False by auto
    qed
    then show ?thesis using False by (simp add: shortest_depth_def)
  qed
qed

lemma marked_from_zero: "marked_from G {} (\<lambda>_. 0)"
  by (simp add: marked_from_def settled_def)

lemma marks_from_zero: "fold (\<lambda>p. walk G p 1) ps (\<lambda>_. 0) = shortest_depth G (set ps)"
  using marked_shortest [OF marked_walks [OF marked_from_zero, of G ps]] by simp

subsection \<open>The loops over the functions\<close>

definition bodies :: "src \<Rightarrow> addr list \<Rightarrow> addr list" where
  "bodies s fs = filter (\<lambda>p. p \<noteq> NULL) (map (\<lambda>f. sn_data (h_sn s f)) fs)"

lemma found_ids_Cons:
  "found_ids s t (i # is) = (case rb_find (cmp_id s i) (si_by_id s t) of
     None \<Rightarrow> found_ids s t is | Some d \<Rightarrow> d # found_ids s t is)"
  by (simp add: found_ids_def map_filter_def split: option.split)

lemma unknown_ids_walks:
  assumes inv: "sinode_inv (cg_si st0)" and g: "graph_ok st0" and "\<forall>i \<in> set is. id_type i = TYPE_FUNC_GLOBAL"
  shows "unknown_ids is (set_depths D st0) = Some (set_depths (fold (\<lambda>p. walk (succs st0) p 1)
    (filter (\<lambda>p. fn_callers (h_fn st0 p) = []) (bodies (cg_si st0) (found_ids (cg_si st0) 2 is))) D) st0)"
  using assms(3)
proof (induction "is" arbitrary: D)
  case Nil
  then show ?case by (simp add: found_ids_def bodies_def map_filter_def)
next
  case (Cons i "is")
  let ?r = "rb_find (cmp_id (cg_si st0) i) (si_by_id (cg_si st0) 2)"
  have s: "sinode_search (cg_si st0) (siid_type i) SEARCH_BY_ID (ArgId i) = Some (ptr_of ?r)"
    using search_id_eq [of i] Cons.prems by simp
  note ih = Cons.IH [of D] Cons.IH [of "walk (succs st0) (sn_data (h_sn (cg_si st0) (the ?r))) 1 D"]
  show ?case
  proof (cases ?r)
    case None
    then show ?thesis using s ih Cons.prems by (simp add: found_ids_Cons ptr_of_def)
  next
    case (Some d)
    have "d \<in> set_tree (si_by_id (cg_si st0) 2)" using rb_find_in [OF Some] by simp
    moreover have "NULL \<notin> set_tree (si_by_id (cg_si st0) 2)" by (rule linked_not_null(1) [OF inv]) simp
    ultimately have "d \<noteq> NULL" by metis
    then show ?thesis
      using s ih Cons.prems Some mark_refines_walk(1) [OF g refl]
      by (simp add: found_ids_Cons ptr_of_def bodies_def)
  qed
qed

lemma linux_ids_walks:
  assumes inv: "sinode_inv (cg_si st0)" and g: "graph_ok st0" and "\<forall>i \<in> set is. id_type i = TYPE_FUNC_GLOBAL"
  shows "linux_ids is (set_depths D st0) = Some (set_depths (fold (\<lambda>p. walk (succs st0) p 1)
    (filter (\<lambda>p. starts_with (fn_name (h_fn st0 p)) ''__x64_sys_'')
      (bodies (cg_si st0) (found_ids (cg_si st0) 2 is))) D) st0)"
  using assms(3)
proof (induction "is" arbitrary: D)
  case Nil
  then show ?case by (simp add: found_ids_def bodies_def map_filter_def)
next
  case (Cons i "is")
  let ?r = "rb_find (cmp_id (cg_si st0) i) (si_by_id (cg_si st0) 2)"
  have s: "sinode_search (cg_si st0) (siid_type i) SEARCH_BY_ID (ArgId i) = Some (ptr_of ?r)"
    using search_id_eq [of i] Cons.prems by simp
  note ih = Cons.IH [of D] Cons.IH [of "walk (succs st0) (sn_data (h_sn (cg_si st0) (the ?r))) 1 D"]
  show ?case
  proof (cases ?r)
    case None
    then show ?thesis using s ih Cons.prems by (simp add: found_ids_Cons ptr_of_def do_mark_entry_def)
  next
    case (Some d)
    have "d \<in> set_tree (si_by_id (cg_si st0) 2)" using rb_find_in [OF Some] by simp
    moreover have "NULL \<notin> set_tree (si_by_id (cg_si st0) 2)" by (rule linked_not_null(1) [OF inv]) simp
    ultimately have d: "d \<noteq> NULL" by metis
    have m: "do_mark_entry i ''__x64_sys_'' 0 (set_depths D st0) =
      (let p = sn_data (h_sn (cg_si st0) d) in
       if p = NULL \<or> \<not> starts_with (fn_name (h_fn st0 p)) ''__x64_sys_'' then Some (0, set_depths D st0)
       else Some (0, set_depths (walk (succs st0) p 1 D) st0))"
      using s Some d mark_refines_walk(1) [OF g refl]
      by (simp add: do_mark_entry_def ptr_of_def starts_with_def Let_def)
    then show ?thesis
      using ih Cons.prems Some d by (simp add: found_ids_Cons bodies_def Let_def)
  qed
qed

lemma func_ids_type:
  assumes "sinode_inv s"
  shows "\<forall>i \<in> set [mk_siid TYPE_FUNC_GLOBAL 0 ..< si_id_idx s TYPE_FUNC_GLOBAL]. id_type i = TYPE_FUNC_GLOBAL"
proof
  fix i assume "i \<in> set [mk_siid TYPE_FUNC_GLOBAL 0 ..< si_id_idx s TYPE_FUNC_GLOBAL]"
  then have i: "mk_siid 2 0 \<le> i" "i < si_id_idx s 2" by auto
  have "idx_ready 2 (si_id_idx s 2)" using assms by (simp add: sinode_inv_def)
  then have "si_id_idx s 2 div 2 ^ 28 = 2" using i by (auto simp: idx_ready_def id_type_def ID_VALUE_BITS_def)
  moreover have "mk_siid 2 0 div 2 ^ 28 = 2" by (simp add: mk_siid_def ID_TYPE_BITS_def ID_VALUE_BITS_def)
  ultimately have "2 \<le> i div 2 ^ 28" "i div 2 ^ 28 \<le> 2"
    using div_le_mono [OF i(1), of "2 ^ 28"] div_le_mono [of i "si_id_idx s 2" "2 ^ 28"] i(2) by simp_all
  then show "id_type i = 2" by (simp add: id_type_def ID_VALUE_BITS_def)
qed

subsection \<open>Properties\<close>

text \<open>What the marking starts from: the indexes in order and no depth set.\<close>

definition mark_ok :: "cgs \<Rightarrow> bool" where
  "mark_ok st \<longleftrightarrow> sinode_inv (cg_si st) \<and> graph_ok st \<and> (\<forall>p. depth_of st p = 0)"

definition global_bodies :: "cgs \<Rightarrow> addr set" where
  "global_bodies st =
     {sn_data (h_sn (cg_si st) f) | f. f \<in> set_tree (si_by_id (cg_si st) TYPE_FUNC_GLOBAL)} - {NULL}"

lemma bodies_set: "set (bodies s (inorder t)) = {sn_data (h_sn s f) | f. f \<in> set_tree t} - {NULL}"
  by (auto simp: bodies_def)

text \<open>
  C2. For a program that is not the Linux kernel, \<open>mark_entry\<close> returns 0 and gives every
  function one more than the length of the shortest call chain from a global function that
  has a body and no caller, and 0 when every such chain has \<open>CALL_DEPTH_MAX\<close> calls or more;
  nothing else changes. The pruning of the walk loses nothing.
\<close>

theorem mark_unknown_shortest:
  assumes "mark_ok st" "\<not> src_is_linux_kernel (cg_si st)"
  shows "mark_entry st = Some (0, set_depths (shortest_depth (succs st)
    {p \<in> global_bodies st. fn_callers (h_fn st p) = []}) st)"
proof -
  have ok: "sinode_inv (cg_si st)" "graph_ok st" "depth_of st = (\<lambda>_. 0)"
    using assms(1) by (auto simp: mark_ok_def fun_eq_iff)
  have st: "set_depths (\<lambda>_. 0) st = st" using set_depths_self [of st] ok(3) by simp
  from unknown_ids_walks [OF ok(1,2) func_ids_type [OF ok(1)], of "\<lambda>_. 0"]
  show ?thesis
    using assms(2) marks_from_zero [of "succs st"] found_ids_inorder [OF ok(1), of 2]
    by (simp add: st mark_entry_def mark_unknown_entry_def global_bodies_def bodies_set)
qed

text \<open>
  For the Linux kernel the entries are the global functions with a body whose name
  starts with \<open>__x64_sys_\<close>.
\<close>

theorem mark_linux_shortest:
  assumes "mark_ok st" "src_is_linux_kernel (cg_si st)"
  shows "mark_entry st = Some (0, set_depths (shortest_depth (succs st)
    {p \<in> global_bodies st. starts_with (fn_name (h_fn st p)) ''__x64_sys_''}) st)"
proof -
  have ok: "sinode_inv (cg_si st)" "graph_ok st" "depth_of st = (\<lambda>_. 0)"
    using assms(1) by (auto simp: mark_ok_def fun_eq_iff)
  have st: "set_depths (\<lambda>_. 0) st = st" using set_depths_self [of st] ok(3) by simp
  from linux_ids_walks [OF ok(1,2) func_ids_type [OF ok(1)], of "\<lambda>_. 0"]
  show ?thesis
    using assms(2) marks_from_zero [of "succs st"] found_ids_inorder [OF ok(1), of 2]
    by (simp add: st mark_entry_def mark_linux_kern_entry_def global_bodies_def bodies_set)
qed

subsection \<open>Witnesses\<close>

text \<open>Two functions; the first calls the second, which is recursive.\<close>

definition call_to :: "nat \<Rightarrow> callf_list" where
  "call_to i = \<lparr>cl_value = i, cl_value_flag = 0, cl_stmts = [], cl_body_missing = 0\<rparr>"

definition mark_ex :: "si_type \<Rightarrow> cgs" where
  "mark_ex ty = cg_ex\<lparr>cg_si := (exr (Node Leaf 10 (Node Leaf 20 Leaf)))\<lparr>si_type := ty\<rparr>,
     h_fn := (\<lambda>_. func_node_init 0)
       (1000 := (func_node_init 0)\<lparr>fn_name := ''__x64_sys_read'', fn_callees := [call_to 536870913]\<rparr>,
        2000 := (func_node_init 0)\<lparr>fn_callees := [call_to 536870913], fn_callers := [call_to 536870912]\<rparr>)\<rparr>"

lemma sinode_inv_si_type: "sinode_inv s \<Longrightarrow> sinode_inv (s\<lparr>si_type := ty\<rparr>)"
proof -
  assume inv: "sinode_inv s"
  have "type_inv (s\<lparr>si_type := ty\<rparr>) t" if "t < TYPE_MAX" for t
  proof (rule type_inv_agree)
    show "type_inv s t" using inv that by (simp add: sinode_inv_def)
  qed (simp_all add: agree_on_def sn_rf_def sn_str_def name_ok_def)
  moreover have "name_key (s\<lparr>si_type := ty\<rparr>) = name_key s" by (simp add: name_key_def fun_eq_iff)
  then have "names_inv (s\<lparr>si_type := ty\<rparr>)" using inv by (simp add: sinode_inv_def names_inv_def)
  ultimately show ?thesis using inv by (simp add: sinode_inv_def)
qed

lemma mark_ex_ok: "mark_ok (mark_ex ty)"
proof -
  have "sinode_inv (cg_si (mark_ex ty))"
    using sinode_inv_si_type [OF exr_inv] by (simp add: mark_ex_def)
  moreover have "graph_ok (mark_ex ty)"
    by (simp add: graph_ok_def ids_in_range_def mark_ex_def func_node_init_def call_to_def
        id_type_def ID_VALUE_BITS_def)
  moreover have "depth_of (mark_ex ty) p = 0" for p
    by (simp add: depth_of_def mark_ex_def func_node_init_def)
  ultimately show ?thesis by (simp add: mark_ok_def)
qed

lemma mark_ex_bodies: "global_bodies (mark_ex ty) = {1000, 2000}"
proof -
  have two: "{h f | f. f \<in> {10, 20 :: addr}} = {h 10, h 20}" for h :: "addr \<Rightarrow> addr" by auto
  have "set_tree (si_by_id (cg_si (mark_ex ty)) 2) = {10, 20}" by (auto simp: mark_ex_def exr_def)
  then show ?thesis
    unfolding global_bodies_def by (simp only: two) (simp add: mark_ex_def exr_def sinode_zero_def)
qed

lemma mark_ex_succs: "succs (mark_ex ty) 1000 = [2000]" "succs (mark_ex ty) 2000 = [2000]"
  by (simp_all add: succs_def mark_ex_def func_node_init_def call_to_def search_id_eq id_type_def
      ID_VALUE_BITS_def exr_def cmp_id_def sinode_id_all_def siid_all_def sinode_zero_def ptr_of_def
      sinode_search_by_id_def siid_type_def)

lemma mark_ex_depths:
  "shortest_depth (succs (mark_ex ty)) {1000} 1000 = 1"
  "shortest_depth (succs (mark_ex ty)) {1000} 2000 = 2"
proof -
  let ?G = "succs (mark_ex ty)"
  have p0: "path ?G 0 1000 1000" by (rule path_0)
  have p1: "path ?G 1 1000 2000"
    using path_Suc [of 2000 ?G 1000 0 2000] mark_ex_succs(1) by (auto intro: path_0)
  have "\<not> path ?G 0 1000 2000" by (auto elim: path_0E)
  then have l1: "(LEAST k. path ?G k 1000 2000) = 1"
    using p1 by (intro Least_equality) (auto simp: not_less_eq_eq Suc_le_eq intro: Suc_leI gr0I)
  have l0: "(LEAST k. path ?G k 1000 1000) = 0" using p0 by (intro Least_equality) auto
  have "\<exists>k < CALL_DEPTH_MAX. path ?G k 1000 1000" "\<exists>k < CALL_DEPTH_MAX. path ?G k 1000 2000"
    using p0 p1 by (auto simp: CALL_DEPTH_MAX_def intro: exI [of _ 0] exI [of _ 1])
  then show "shortest_depth ?G {1000} 1000 = 1" "shortest_depth ?G {1000} 2000 = 2"
    using l0 l1 by (simp_all add: shortest_depth_def)
qed

theorem mark_unknown_shortest_witness:
  "\<exists>st'. mark_entry (mark_ex \<lparr>ty_binary = 1, ty_kernel = 2, ty_os = 1, ty_fmt = 1\<rparr>) = Some (0, st') \<and>
     depth_of st' 1000 = 1 \<and> depth_of st' 2000 = 2"
proof -
  let ?st = "mark_ex \<lparr>ty_binary = 1, ty_kernel = 2, ty_os = 1, ty_fmt = 1\<rparr>"
  have k: "\<not> src_is_linux_kernel (cg_si ?st)" by (simp add: src_is_linux_kernel_def mark_ex_def)
  have e: "{p \<in> global_bodies ?st. fn_callers (h_fn ?st p) = []} = {1000}"
    unfolding mark_ex_bodies by (auto simp: mark_ex_def func_node_init_def)
  have "mark_entry ?st = Some (0, set_depths (shortest_depth (succs ?st) {1000}) ?st)"
    using mark_unknown_shortest [OF mark_ex_ok k] by (simp only: e)
  then show ?thesis by (simp add: depth_of_def mark_ex_depths)
qed

theorem mark_linux_shortest_witness:
  "\<exists>st'. mark_entry (mark_ex \<lparr>ty_binary = 1, ty_kernel = 1, ty_os = 1, ty_fmt = 1\<rparr>) = Some (0, st') \<and>
     depth_of st' 1000 = 1 \<and> depth_of st' 2000 = 2"
proof -
  let ?st = "mark_ex \<lparr>ty_binary = 1, ty_kernel = 1, ty_os = 1, ty_fmt = 1\<rparr>"
  have k: "src_is_linux_kernel (cg_si ?st)" by (simp add: src_is_linux_kernel_def mark_ex_def)
  have e: "{p \<in> global_bodies ?st. starts_with (fn_name (h_fn ?st p)) ''__x64_sys_''} = {1000}"
    unfolding mark_ex_bodies by (auto simp: mark_ex_def func_node_init_def starts_with_def strncmp_def)
  have "mark_entry ?st = Some (0, set_depths (shortest_depth (succs ?st) {1000}) ?st)"
    using mark_linux_shortest [OF mark_ex_ok k] by (simp only: e)
  then show ?thesis by (simp add: depth_of_def mark_ex_depths)
qed

end
