(* ===== verification/Resfile.thy ===== *)
theory Resfile
  imports Sibuf
begin

text \<open>
  analysis/resfile.c, first part: the resfiles of the project, and the sibufs that are
  mapped into memory while a thread holds them. The kernel and the files are the record
  \<open>world\<close>; \<open>None\<close> is an abort or a call that never returns.
\<close>

subsection \<open>The world\<close>

datatype mmap_res = MmapOk | MmapNoMem | MmapErr

text \<open>
  \<open>wd_tmpdir\<close> is \<open>DEF_TMPDIR\<close>, \<open>wd_loaded_max\<close> the limit \<open>sibuf_loaded_max\<close>,
  \<open>wd_open\<close> the descriptor a path opens to, \<open>wd_size\<close> the size of the file,
  \<open>wd_window\<close> whether a window of the file at an offset can be mapped, \<open>wd_fc\<close> and
  \<open>wd_objs\<close> the header and the objects at an offset, \<open>wd_mmap\<close> the outcome of mapping a
  sibuf at an address with a size when so much is loaded, and \<open>wd_fc_size\<close> is
  \<open>sizeof(struct file_content)\<close>.
\<close>

record world =
  wd_tmpdir :: string
  wd_loaded_max :: nat
  wd_open :: "string \<Rightarrow> int option"
  wd_size :: "string \<Rightarrow> nat option"
  wd_window :: "string \<Rightarrow> nat \<Rightarrow> bool"
  wd_fc :: "string \<Rightarrow> nat \<Rightarrow> file_content"
  wd_objs :: "string \<Rightarrow> nat \<Rightarrow> file_obj list"
  wd_mmap :: "addr \<Rightarrow> nat \<Rightarrow> nat \<Rightarrow> mmap_res"
  wd_fc_size :: nat

definition PAGE_SIZE :: nat where "PAGE_SIZE = 4096"
definition PATH_MAX :: nat where "PATH_MAX = 4096"
definition RESFILE_BUF_START :: nat where "RESFILE_BUF_START = 0x1000000000"

definition upd_rf :: "addr \<Rightarrow> (resfile \<Rightarrow> resfile) \<Rightarrow> src \<Rightarrow> src" where
  "upd_rf r f s = s\<lparr>h_rf := (h_rf s)(r := f (h_rf s r))\<rparr>"

lemma upd_rf_simps [simp]:
  "h_rf (upd_rf r f s) q = (if q = r then f (h_rf s r) else h_rf s q)"
  "si_sibuf_head (upd_rf r f s) = si_sibuf_head s" "h_sb (upd_rf r f s) = h_sb s"
  "si_sibuf_mem_usage (upd_rf r f s) = si_sibuf_mem_usage s"
  "si_resfile_head (upd_rf r f s) = si_resfile_head s" "si_sbuf (upd_rf r f s) = si_sbuf s"
  by (simp_all add: upd_rf_def)

subsection \<open>The list of resfiles\<close>

definition resfile_find :: "src \<Rightarrow> string \<Rightarrow> addr option" where
  "resfile_find s path = slist_find (\<lambda>r. strcmp (rf_path (h_rf s r)) path = 0) (si_resfile_head s)"

text \<open>The node and whether it existed; a new one is not in the list yet.\<close>

definition resfile_new :: "env \<Rightarrow> string \<Rightarrow> bool \<Rightarrow> src \<Rightarrow> (addr \<times> bool \<times> src) option" where
  "resfile_new E path built_in s =
     (case resfile_find s path of
        Some r \<Rightarrow> Some (r, True, s)
      | None \<Rightarrow> do {
          (r, s) \<leftarrow> si_buf_get E (csize E SzResfile + (length path + 1)) s;
          Some (r, False, upd_rf r (\<lambda>_. resfile_zero\<lparr>rf_path := path, rf_built_in := built_in,
            rf_fd := - 1\<rparr>) s)
        })"

definition resfile_add :: "addr \<Rightarrow> src \<Rightarrow> src" where
  "resfile_add r s =
     (if rf_built_in (h_rf s r) then s\<lparr>si_resfile_head := slist_add r (si_resfile_head s)\<rparr>
      else s\<lparr>si_resfile_head := slist_add_tail r (si_resfile_head s)\<rparr>)"

subsection \<open>Unloading\<close>

text \<open>
  \<open>resfile_unload\<close>: the mapping goes (\<open>munmap\<close> of a page-aligned range succeeds), the users
  are forgotten, and the length leaves the account.
\<close>

definition resfile_unload :: "addr \<Rightarrow> src \<Rightarrow> src" where
  "resfile_unload b s =
     (if \<not> sb_need_unload (h_sb s b) then s
      else let s = upd_sb b (\<lambda>n. n\<lparr>sb_need_unload := False\<rparr>) s;
               s = sibuf_cleanup_user b s
           in s\<lparr>si_sibuf_mem_usage := si_sibuf_mem_usage s - sb_total_len (h_sb s b)\<rparr>)"

fun gc_loop :: "addr list \<Rightarrow> bool \<Rightarrow> src \<Rightarrow> bool \<times> src" where
  "gc_loop [] found s = (found, s)"
| "gc_loop (b # bs) found s =
     (if \<not> sb_need_unload (h_sb s b) then gc_loop bs found s
      else if sb_users (h_sb s b) = [] then gc_loop bs True (resfile_unload b s)
      else gc_loop bs found s)"

text \<open>\<open>- 1\<close> when nothing could be released.\<close>

definition resfile_gc :: "src \<Rightarrow> int \<times> src" where
  "resfile_gc s = (let (found, s) = gc_loop (si_sibuf_head s) False s in (if found then 0 else - 1, s))"

fun unload_loop :: "addr list \<Rightarrow> src \<Rightarrow> src" where
  "unload_loop [] s = s"
| "unload_loop (b # bs) s = unload_loop bs (resfile_unload b s)"

definition resfile_unload_all :: "src \<Rightarrow> src" where
  "resfile_unload_all s = (unload_loop (si_sibuf_head s) s)\<lparr>si_sibuf_mem_usage := 0\<rparr>"

subsection \<open>Loading\<close>

definition si_current_workdir :: "world \<Rightarrow> src \<Rightarrow> string" where
  "si_current_workdir W s = take (PATH_MAX - 1) (wd_tmpdir W @ ''/'' @ si_src_id s @ ''/'')"

text \<open>
  The file is opened on first use; \<open>False\<close> is the error return for a resfile outside the
  working directory, and a file that does not open is \<open>BUG()\<close>.
\<close>

definition resfile_open :: "world \<Rightarrow> addr \<Rightarrow> src \<Rightarrow> (bool \<times> src) option" where
  "resfile_open W rf s =
     (if rf_fd (h_rf s rf) = - 1 then
        let workdir = si_current_workdir W s in
        if strncmp (rf_path (h_rf s rf)) workdir (length workdir) \<noteq> 0 then Some (False, s)
        else case wd_open W (rf_path (h_rf s rf)) of
            None \<Rightarrow> None
          | Some fd \<Rightarrow> Some (True, upd_rf rf (\<lambda>r. r\<lparr>rf_fd := fd\<rparr>) s)
      else Some (True, s))"

definition mmap_addr_of :: "env \<Rightarrow> sibuf \<Rightarrow> addr" where
  "mmap_addr_of E b = clib_round_down E (sb_load_addr b) PAGE_SIZE"

definition mmap_size_of :: "env \<Rightarrow> sibuf \<Rightarrow> nat" where
  "mmap_size_of E b = clib_round_up E (sb_load_addr b + sb_total_len b) PAGE_SIZE - mmap_addr_of E b"

text \<open>The label \<open>fill_buf\<close>.\<close>

definition fill_buf :: "nat \<Rightarrow> addr \<Rightarrow> src \<Rightarrow> int \<times> src" where
  "fill_buf u b s = sibuf_add_user b u (upd_sb b (\<lambda>n. n\<lparr>sb_need_unload := True\<rparr>) s)"

text \<open>
  What one critical section of \<open>resfile_load\<close> does: it is done, with the return value, or
  it has left the section to collect and try again.
\<close>

datatype load_step = LdDone int src | LdWait src

definition load_map :: "env \<Rightarrow> world \<Rightarrow> nat \<Rightarrow> addr \<Rightarrow> src \<Rightarrow> load_step option" where
  "load_map E W u b s =
     (let sz = mmap_size_of E (h_sb s b) in
      if wd_loaded_max W < si_sibuf_mem_usage s + sz then Some (LdWait s)
      else case wd_mmap W (mmap_addr_of E (h_sb s b)) sz (si_sibuf_mem_usage s) of
          MmapErr \<Rightarrow> None
        | MmapNoMem \<Rightarrow> Some (LdWait s)
        | MmapOk \<Rightarrow>
            let (ret, s) = fill_buf u b
              (s\<lparr>si_sibuf_mem_usage := si_sibuf_mem_usage s + sb_total_len (h_sb s b)\<rparr>)
            in Some (LdDone ret s))"

definition load_enter :: "env \<Rightarrow> world \<Rightarrow> nat \<Rightarrow> addr \<Rightarrow> src \<Rightarrow> load_step option" where
  "load_enter E W u b s =
     do {
       (ok, s) \<leftarrow> resfile_open W (sb_rf (h_sb s b)) s;
       (if \<not> ok then Some (LdDone (- 1) s)
        else if sb_need_unload (h_sb s b) then
          (let (ret, s) = fill_buf u b s in Some (LdDone ret s))
        else load_map E W u b s)
     }"

text \<open>
  Without other threads: each time the section is left, one collection and the next try,
  from \<open>mmap_again0\<close>, which does not look at \<open>need_unload\<close> again. The loop may not end.
\<close>

partial_function (option) load_wait ::
    "env \<Rightarrow> world \<Rightarrow> nat \<Rightarrow> addr \<Rightarrow> src \<Rightarrow> (int \<times> src) option" where
  "load_wait E W u b s = Option.bind (load_map E W u b s) (\<lambda>r. case r of
       LdDone ret s \<Rightarrow> Some (ret, s)
     | LdWait s \<Rightarrow> load_wait E W u b (snd (resfile_gc s)))"

definition resfile_load :: "env \<Rightarrow> world \<Rightarrow> nat \<Rightarrow> addr \<Rightarrow> src \<Rightarrow> (int \<times> src) option" where
  "resfile_load E W u b s = Option.bind (load_enter E W u b s) (\<lambda>r. case r of
       LdDone ret s \<Rightarrow> Some (ret, s)
     | LdWait s \<Rightarrow> load_wait E W u b (snd (resfile_gc s)))"

definition sibuf_hold :: "env \<Rightarrow> world \<Rightarrow> nat \<Rightarrow> addr \<Rightarrow> src \<Rightarrow> (int \<times> src) option" where
  "sibuf_hold E W u b s = resfile_load E W u b s"

definition sibuf_drop :: "nat \<Rightarrow> addr \<Rightarrow> src \<Rightarrow> src" where
  "sibuf_drop u b s = sibuf_del_user b u s"


subsection \<open>The account of loaded memory\<close>

definition is_loaded :: "src \<Rightarrow> addr \<Rightarrow> bool" where
  "is_loaded s b \<longleftrightarrow> sb_need_unload (h_sb s b)"

definition users_of :: "src \<Rightarrow> addr \<Rightarrow> nat set" where
  "users_of s b = set (sb_users (h_sb s b))"

definition loaded_total :: "src \<Rightarrow> nat" where
  "loaded_total s = (\<Sum>b \<in> set (si_sibuf_head s). if is_loaded s b then sb_total_len (h_sb s b) else 0)"

text \<open>
  The invariant: the account is the total of the loaded sibufs, a held sibuf is loaded, and
  no thread is listed twice.
\<close>

definition mem_inv :: "src \<Rightarrow> bool" where
  "mem_inv s \<longleftrightarrow> si_sibuf_mem_usage s = loaded_total s \<and>
     (\<forall>b \<in> set (si_sibuf_head s). distinct (sb_users (h_sb s b)) \<and>
        (users_of s b \<noteq> {} \<longrightarrow> is_loaded s b))"

declare mem_inv_def [inv_defs]

lemma loaded_total_change:
  assumes "b \<in> set (si_sibuf_head s)" "si_sibuf_head s' = si_sibuf_head s"
    and "\<And>c. c \<noteq> b \<Longrightarrow> h_sb s' c = h_sb s c" "sb_total_len (h_sb s' b) = sb_total_len (h_sb s b)"
  shows "loaded_total s' + (if is_loaded s b then sb_total_len (h_sb s b) else 0) =
    loaded_total s + (if is_loaded s' b then sb_total_len (h_sb s b) else 0)"
proof -
  let ?g = "\<lambda>s c. if is_loaded s c then sb_total_len (h_sb s c) else 0"
  have "loaded_total s = ?g s b + (\<Sum>c \<in> set (si_sibuf_head s) - {b}. ?g s c)"
    unfolding loaded_total_def using assms(1) by (simp add: sum.remove)
  moreover have "loaded_total s' = ?g s' b + (\<Sum>c \<in> set (si_sibuf_head s) - {b}. ?g s' c)"
    unfolding loaded_total_def assms(2) using assms(1) by (simp add: sum.remove)
  moreover have "(\<Sum>c \<in> set (si_sibuf_head s) - {b}. ?g s' c) =
      (\<Sum>c \<in> set (si_sibuf_head s) - {b}. ?g s c)"
    using assms(3) by (intro sum.cong) (auto simp: is_loaded_def)
  ultimately show ?thesis using assms(4) by simp
qed

text \<open>What unloading one sibuf does.\<close>

lemma unload_simps [simp]:
  "si_sibuf_head (resfile_unload b s) = si_sibuf_head s" "h_rf (resfile_unload b s) = h_rf s"
  "c \<noteq> b \<Longrightarrow> h_sb (resfile_unload b s) c = h_sb s c"
  "sb_total_len (h_sb (resfile_unload b s) c) = sb_total_len (h_sb s c)"
  "is_loaded (resfile_unload b s) c = (c \<noteq> b \<and> is_loaded s c)"
  by (auto simp: resfile_unload_def sibuf_cleanup_user_def is_loaded_def Let_def)

lemma unload_users:
  "users_of (resfile_unload b s) c = (if c = b \<and> is_loaded s b then {} else users_of s c)"
  "sb_users (h_sb (resfile_unload b s) c) =
     (if c = b \<and> is_loaded s b then [] else sb_users (h_sb s c))"
  by (auto simp: resfile_unload_def sibuf_cleanup_user_def is_loaded_def users_of_def Let_def)

lemma unload_usage:
  "si_sibuf_mem_usage (resfile_unload b s) =
     si_sibuf_mem_usage s - (if is_loaded s b then sb_total_len (h_sb s b) else 0)"
  by (simp add: resfile_unload_def sibuf_cleanup_user_def is_loaded_def Let_def)

lemma unload_inv:
  assumes "mem_inv s" "b \<in> set (si_sibuf_head s)"
  shows "mem_inv (resfile_unload b s)"
proof -
  have "loaded_total (resfile_unload b s) + (if is_loaded s b then sb_total_len (h_sb s b) else 0) =
      loaded_total s"
    using loaded_total_change [OF assms(2), of "resfile_unload b s"] by simp
  then have "si_sibuf_mem_usage (resfile_unload b s) = loaded_total (resfile_unload b s)"
    using assms(1) by (simp add: mem_inv_def unload_usage)
  then show ?thesis using assms(1) by (auto simp: mem_inv_def unload_users)
qed

text \<open>A collection releases exactly the loaded sibufs that nobody holds.\<close>

lemma gc_loop_spec:
  assumes "mem_inv s" "set bs \<subseteq> set (si_sibuf_head s)" "gc_loop bs found s = (found', s')"
  shows "mem_inv s'" "si_sibuf_head s' = si_sibuf_head s" "h_rf s' = h_rf s"
    "\<And>c. users_of s' c = users_of s c"
    "\<And>c. is_loaded s' c \<longleftrightarrow> is_loaded s c \<and> (c \<in> set bs \<longrightarrow> users_of s c \<noteq> {})"
    "\<And>c. sb_total_len (h_sb s' c) = sb_total_len (h_sb s c) \<and> sb_load_addr (h_sb s' c) = sb_load_addr (h_sb s c)"
    "found' \<longleftrightarrow> found \<or> (\<exists>c \<in> set bs. is_loaded s c \<and> users_of s c = {})"
proof -
  have "mem_inv s' \<and> si_sibuf_head s' = si_sibuf_head s \<and> h_rf s' = h_rf s \<and>
    (\<forall>c. users_of s' c = users_of s c) \<and>
    (\<forall>c. is_loaded s' c \<longleftrightarrow> is_loaded s c \<and> (c \<in> set bs \<longrightarrow> users_of s c \<noteq> {})) \<and>
    (\<forall>c. sb_total_len (h_sb s' c) = sb_total_len (h_sb s c) \<and> sb_load_addr (h_sb s' c) = sb_load_addr (h_sb s c)) \<and>
    (found' \<longleftrightarrow> found \<or> (\<exists>c \<in> set bs. is_loaded s c \<and> users_of s c = {}))"
    using assms
  proof (induction bs arbitrary: found s)
    case Nil
    then show ?case by simp
  next
    case (Cons b bs)
    have sub: "set bs \<subseteq> set (si_sibuf_head s)" "b \<in> set (si_sibuf_head s)" using Cons.prems(2) by auto
    show ?case
    proof (cases "is_loaded s b \<and> users_of s b = {}")
      case False
      then have "gc_loop bs found s = (found', s')"
        using Cons.prems(3) by (auto simp: is_loaded_def users_of_def split: if_splits)
      from Cons.IH [OF Cons.prems(1) sub(1) this] False show ?thesis by auto
    next
      case True
      let ?s = "resfile_unload b s"
      have run: "gc_loop bs True ?s = (found', s')"
        using Cons.prems(3) True by (simp add: is_loaded_def users_of_def)
      have inv: "mem_inv ?s" by (rule unload_inv [OF Cons.prems(1) sub(2)])
      have "sb_load_addr (h_sb ?s c) = sb_load_addr (h_sb s c)" for c
        by (simp add: resfile_unload_def sibuf_cleanup_user_def Let_def)
      moreover have "users_of ?s c = users_of s c" for c using True by (simp add: unload_users)
      ultimately show ?thesis
        using Cons.IH [OF inv _ run] sub(1) True by auto
    qed
  qed
  then show "mem_inv s'" "si_sibuf_head s' = si_sibuf_head s" "h_rf s' = h_rf s"
    "\<And>c. users_of s' c = users_of s c"
    "\<And>c. is_loaded s' c \<longleftrightarrow> is_loaded s c \<and> (c \<in> set bs \<longrightarrow> users_of s c \<noteq> {})"
    "\<And>c. sb_total_len (h_sb s' c) = sb_total_len (h_sb s c) \<and> sb_load_addr (h_sb s' c) = sb_load_addr (h_sb s c)"
    "found' \<longleftrightarrow> found \<or> (\<exists>c \<in> set bs. is_loaded s c \<and> users_of s c = {})" by blast+
qed

lemma resfile_gc_spec:
  assumes "mem_inv s" "resfile_gc s = (r, s')"
  shows "mem_inv s'" "si_sibuf_head s' = si_sibuf_head s" "h_rf s' = h_rf s"
    "\<And>c. users_of s' c = users_of s c"
    "\<And>c. is_loaded s' c \<longleftrightarrow> is_loaded s c \<and> (c \<in> set (si_sibuf_head s) \<longrightarrow> users_of s c \<noteq> {})"
    "\<And>c. sb_total_len (h_sb s' c) = sb_total_len (h_sb s c) \<and> sb_load_addr (h_sb s' c) = sb_load_addr (h_sb s c)"
    "r = (if \<exists>c \<in> set (si_sibuf_head s). is_loaded s c \<and> users_of s c = {} then 0 else - 1)"
proof -
  obtain found where run: "gc_loop (si_sibuf_head s) False s = (found, s')"
    and r: "r = (if found then 0 else - 1)"
    using assms(2) by (cases "gc_loop (si_sibuf_head s) False s") (auto simp: resfile_gc_def)
  note spec = gc_loop_spec [OF assms(1) subset_refl run]
  show "mem_inv s'" "si_sibuf_head s' = si_sibuf_head s" "h_rf s' = h_rf s"
    "\<And>c. users_of s' c = users_of s c"
    "\<And>c. is_loaded s' c \<longleftrightarrow> is_loaded s c \<and> (c \<in> set (si_sibuf_head s) \<longrightarrow> users_of s c \<noteq> {})"
    "\<And>c. sb_total_len (h_sb s' c) = sb_total_len (h_sb s c) \<and> sb_load_addr (h_sb s' c) = sb_load_addr (h_sb s c)"
    by (rule spec)+
  show "r = (if \<exists>c \<in> set (si_sibuf_head s). is_loaded s c \<and> users_of s c = {} then 0 else - 1)"
    using spec(7) r by simp
qed

lemma gc_loop_id:
  "\<forall>c \<in> set bs. is_loaded s c \<longrightarrow> users_of s c \<noteq> {} \<Longrightarrow> gc_loop bs found s = (found, s)"
  by (induction bs) (auto simp: is_loaded_def users_of_def)

text \<open>A second collection finds nothing: only another thread can make room then.\<close>

lemma resfile_gc_idem:
  assumes "mem_inv s"
  shows "resfile_gc (snd (resfile_gc s)) = (- 1, snd (resfile_gc s))"
proof -
  obtain r s' where s': "resfile_gc s = (r, s')" by (cases "resfile_gc s")
  note spec = resfile_gc_spec [OF assms s']
  have "gc_loop (si_sibuf_head s') False s' = (False, s')"
    by (rule gc_loop_id) (use spec(2,4,5) in auto)
  then show ?thesis unfolding s' snd_conv by (simp add: resfile_gc_def)
qed

subsection \<open>What a load does\<close>

definition load_fits :: "env \<Rightarrow> world \<Rightarrow> addr \<Rightarrow> src \<Rightarrow> bool" where
  "load_fits E W b s \<longleftrightarrow>
     si_sibuf_mem_usage s + mmap_size_of E (h_sb s b) \<le> wd_loaded_max W \<and>
     wd_mmap W (mmap_addr_of E (h_sb s b)) (mmap_size_of E (h_sb s b)) (si_sibuf_mem_usage s) = MmapOk"

lemma load_map_wait: "load_map E W u b s = Some (LdWait s') \<Longrightarrow> s' = s \<and> \<not> load_fits E W b s"
  by (auto simp: load_map_def load_fits_def Let_def split: if_splits mmap_res.splits prod.splits)

lemma load_map_fits:
  "load_fits E W b s \<Longrightarrow> load_map E W u b s =
     (let (ret, s) = fill_buf u b (s\<lparr>si_sibuf_mem_usage := si_sibuf_mem_usage s + sb_total_len (h_sb s b)\<rparr>)
      in Some (LdDone ret s))"
  by (simp add: load_map_def load_fits_def Let_def)

lemma load_map_doneE:
  assumes "load_map E W u b s = Some (LdDone r s')"
  obtains "load_fits E W b s" "fill_buf u b
    (s\<lparr>si_sibuf_mem_usage := si_sibuf_mem_usage s + sb_total_len (h_sb s b)\<rparr>) = (r, s')"
  using assms
  by (auto simp: load_map_def load_fits_def Let_def split: if_splits mmap_res.splits prod.splits)

lemma load_map_not_fits:
  assumes "\<not> load_fits E W b s" "\<And>a z m. wd_mmap W a z m \<noteq> MmapErr"
  shows "load_map E W u b s = Some (LdWait s)"
  using assms by (auto simp: load_map_def load_fits_def Let_def split: mmap_res.splits)

lemma fill_buf_spec:
  assumes "fill_buf u b s = (r, s')" "distinct (sb_users (h_sb s b))"
  shows "r = (if u \<in> users_of s b then 1 else 0)" "users_of s' b = insert u (users_of s b)"
    "distinct (sb_users (h_sb s' b))" "is_loaded s' b" "\<And>c. c \<noteq> b \<Longrightarrow> h_sb s' c = h_sb s c"
    "si_sibuf_head s' = si_sibuf_head s" "h_rf s' = h_rf s"
    "si_sibuf_mem_usage s' = si_sibuf_mem_usage s"
    "sb_total_len (h_sb s' b) = sb_total_len (h_sb s b)"
proof -
  let ?s = "upd_sb b (\<lambda>n. n\<lparr>sb_need_unload := True\<rparr>) s"
  have run: "sibuf_add_user b u ?s = (r, s')" and d: "distinct (sb_users (h_sb ?s b))"
    using assms by (simp_all add: fill_buf_def)
  note spec = add_user_spec [OF run d]
  from spec(4) obtain us where us: "s' = upd_sb b (\<lambda>n. n\<lparr>sb_users := us\<rparr>) ?s" by blast
  show "r = (if u \<in> users_of s b then 1 else 0)" "users_of s' b = insert u (users_of s b)"
    "distinct (sb_users (h_sb s' b))"
    using spec(1-3) by (simp_all add: users_of_def)
  show "is_loaded s' b" "\<And>c. c \<noteq> b \<Longrightarrow> h_sb s' c = h_sb s c" "si_sibuf_head s' = si_sibuf_head s"
    "h_rf s' = h_rf s" "si_sibuf_mem_usage s' = si_sibuf_mem_usage s"
    "sb_total_len (h_sb s' b) = sb_total_len (h_sb s b)"
    by (simp_all add: us is_loaded_def)
qed

lemma mmap_size_ge:
  assumes "env_ok E" shows "sb_total_len b \<le> mmap_size_of E b"
  using env_ok_up(2) [OF assms, of PAGE_SIZE "sb_load_addr b + sb_total_len b"]
    env_ok_down(2) [OF assms, of PAGE_SIZE "sb_load_addr b"]
  by (simp add: mmap_size_of_def mmap_addr_of_def PAGE_SIZE_def)

text \<open>Holding a sibuf that is not loaded yet, in one critical section.\<close>

lemma load_map_spec:
  assumes "mem_inv s" "b \<in> set (si_sibuf_head s)" "\<not> is_loaded s b"
    and "load_map E W u b s = Some (LdDone r s')"
  shows "mem_inv s'" "r = 0" "is_loaded s' b" "users_of s' b = {u}" "load_fits E W b s"
    "\<And>c. c \<noteq> b \<Longrightarrow> h_sb s' c = h_sb s c" "si_sibuf_head s' = si_sibuf_head s" "h_rf s' = h_rf s"
    "si_sibuf_mem_usage s' = si_sibuf_mem_usage s + sb_total_len (h_sb s b)"
    "sb_total_len (h_sb s' b) = sb_total_len (h_sb s b)"
proof -
  let ?s = "s\<lparr>si_sibuf_mem_usage := si_sibuf_mem_usage s + sb_total_len (h_sb s b)\<rparr>"
  have fill: "fill_buf u b ?s = (r, s')" and fits: "load_fits E W b s"
    by (rule load_map_doneE [OF assms(4)], assumption)+
  have users: "users_of s b = {}" "distinct (sb_users (h_sb ?s b))"
    using assms(1-3) by (auto simp: mem_inv_def)
  note spec = fill_buf_spec [OF fill users(2)]
  have us: "users_of ?s b = {}" using users(1) by (simp add: users_of_def)
  show "r = 0" "users_of s' b = {u}" using spec(1,2) us by simp_all
  show "is_loaded s' b" "load_fits E W b s" by (rule spec(4), rule fits)
  show other: "\<And>c. c \<noteq> b \<Longrightarrow> h_sb s' c = h_sb s c" and head: "si_sibuf_head s' = si_sibuf_head s"
    and "h_rf s' = h_rf s"
    and usage: "si_sibuf_mem_usage s' = si_sibuf_mem_usage s + sb_total_len (h_sb s b)"
    and "sb_total_len (h_sb s' b) = sb_total_len (h_sb s b)"
    using spec(5-9) by simp_all
  have "loaded_total s' = loaded_total s + sb_total_len (h_sb s b)"
    using loaded_total_change [OF assms(2) head other] spec(4,9) assms(3) by simp
  moreover have "distinct (sb_users (h_sb s' c)) \<and> (users_of s' c \<noteq> {} \<longrightarrow> is_loaded s' c)"
    if "c \<in> set (si_sibuf_head s)" for c
    using that assms(1) other [of c] spec(3,4)
    by (cases "c = b") (auto simp: mem_inv_def users_of_def is_loaded_def)
  ultimately show "mem_inv s'" using assms(1) usage by (simp add: mem_inv_def head)
qed

lemma fill_loaded_spec:
  assumes "mem_inv s" "b \<in> set (si_sibuf_head s)" "is_loaded s b" "fill_buf u b s = (r, s')"
  shows "mem_inv s'" "r = (if u \<in> users_of s b then 1 else 0)" "is_loaded s' b"
    "users_of s' b = insert u (users_of s b)" "\<And>c. c \<noteq> b \<Longrightarrow> h_sb s' c = h_sb s c"
    "si_sibuf_head s' = si_sibuf_head s" "si_sibuf_mem_usage s' = si_sibuf_mem_usage s"
proof -
  have d: "distinct (sb_users (h_sb s b))" using assms(1,2) by (auto simp: mem_inv_def)
  note spec = fill_buf_spec [OF assms(4) d]
  show "r = (if u \<in> users_of s b then 1 else 0)" "is_loaded s' b"
    "users_of s' b = insert u (users_of s b)" and other: "\<And>c. c \<noteq> b \<Longrightarrow> h_sb s' c = h_sb s c"
    and head: "si_sibuf_head s' = si_sibuf_head s" and "si_sibuf_mem_usage s' = si_sibuf_mem_usage s"
    by (simp_all add: spec)
  have "loaded_total s' = loaded_total s"
    using loaded_total_change [OF assms(2) head other] spec(4,9) assms(3) by simp
  moreover have "distinct (sb_users (h_sb s' c)) \<and> (users_of s' c \<noteq> {} \<longrightarrow> is_loaded s' c)"
    if "c \<in> set (si_sibuf_head s)" for c
    using that assms(1) other [of c] spec(3,4)
    by (cases "c = b") (auto simp: mem_inv_def users_of_def is_loaded_def)
  ultimately show "mem_inv s'" using assms(1) spec(8) by (simp add: mem_inv_def head)
qed

text \<open>
  The waiting loop never comes back from a state that no collection changes and where the
  sibuf does not fit.
\<close>

lemma load_wait_stuck:
  assumes "load_map E W u b s = Some (LdWait s)" "snd (resfile_gc s) = s"
  shows "load_wait E W u b s = None"
proof (rule ccontr)
  assume "load_wait E W u b s \<noteq> None"
  then obtain y where "load_wait E W u b s = Some y" by blast
  then have "\<not> (load_map E W u b s = Some (LdWait s) \<and> snd (resfile_gc s) = s)"
    by (rule load_wait.raw_induct
        [where P = "\<lambda>E W u b s y. \<not> (load_map E W u b s = Some (LdWait s) \<and> snd (resfile_gc s) = s)",
          rotated]) (auto split: Option.bind_split_asm load_step.splits)
  then show False using assms by simp
qed

lemma load_wait_fits:
  "load_map E W u b s = Some (LdDone r s') \<Longrightarrow> load_wait E W u b s = Some (r, s')"
  by (subst load_wait.simps) simp

lemma load_wait_None: "load_map E W u b s = None \<Longrightarrow> load_wait E W u b s = None"
  by (subst load_wait.simps) simp

text \<open>After a collection another one changes nothing, so one try decides.\<close>

lemma load_wait_after_gc:
  assumes "mem_inv s" "t = snd (resfile_gc s)"
  shows "load_wait E W u b t = (case load_map E W u b t of
     Some (LdDone r s') \<Rightarrow> Some (r, s') | _ \<Rightarrow> None)"
proof (cases "load_map E W u b t")
  case None
  then show ?thesis by (simp add: load_wait_None)
next
  case (Some st)
  show ?thesis
  proof (cases st)
    case (LdDone r s')
    then show ?thesis using Some by (simp add: load_wait_fits)
  next
    case (LdWait s')
    then have "s' = t" using load_map_wait Some by blast
    moreover have "snd (resfile_gc t) = t" using resfile_gc_idem [OF assms(1)] assms(2) by simp
    ultimately show ?thesis using Some LdWait load_wait_stuck by simp
  qed
qed

end
