(* ===== verification/Resfile_Hold.thy ===== *)
theory Resfile_Hold
  imports Resfile
begin

text \<open>
  The properties of holding, dropping and collecting sibufs (analysis/resfile.c): the
  contract of \<open>sibuf_hold\<close>, the bracket the callers write around the use of a sibuf, when a
  load comes back, and what happens when two threads wait for the same sibuf.
\<close>

subsection \<open>Opening the file of a sibuf\<close>

lemma resfile_open_frame:
  assumes "resfile_open W rf s = Some (ok, t)"
  shows "h_sb t = h_sb s" "si_sibuf_head t = si_sibuf_head s"
    "si_sibuf_mem_usage t = si_sibuf_mem_usage s" "\<not> ok \<Longrightarrow> t = s"
  using assms by (auto simp: resfile_open_def Let_def upd_rf_def split: if_splits option.splits)

lemma open_views:
  assumes "resfile_open W rf s = Some (ok, t)"
  shows "mem_inv t = mem_inv s" "is_loaded t = is_loaded s" "users_of t = users_of s"
    "loaded_total t = loaded_total s" "load_fits E W b t = load_fits E W b s"
proof -
  note f = resfile_open_frame [OF assms]
  show l: "is_loaded t = is_loaded s" and u: "users_of t = users_of s"
    by (intro ext, simp add: is_loaded_def users_of_def f)+
  show lt: "loaded_total t = loaded_total s" unfolding loaded_total_def l f by (rule refl)
  show "mem_inv t = mem_inv s" by (simp add: mem_inv_def f l u lt)
  show "load_fits E W b t = load_fits E W b s" by (simp add: load_fits_def f)
qed

subsection \<open>What a hold that succeeds has done\<close>

text \<open>
  \<open>hold_contract W u b s r s'\<close>: the contract of a hold that returned \<open>r\<close>, which is 0 or 1.
\<close>

definition hold_contract :: "world \<Rightarrow> nat \<Rightarrow> addr \<Rightarrow> src \<Rightarrow> int \<Rightarrow> src \<Rightarrow> bool" where
  "hold_contract W u b s r s' \<longleftrightarrow>
     mem_inv s' \<and> r = (if u \<in> users_of s b then 1 else 0) \<and> is_loaded s' b \<and>
     users_of s' b = insert u (users_of s b) \<and>
     (\<forall>c. c \<noteq> b \<longrightarrow> users_of s' c = users_of s c) \<and>
     si_sibuf_head s' = si_sibuf_head s \<and>
     (si_sibuf_mem_usage s \<le> wd_loaded_max W \<longrightarrow> si_sibuf_mem_usage s' \<le> wd_loaded_max W)"

lemma held_fill:
  assumes "mem_inv s" "b \<in> set (si_sibuf_head s)" "is_loaded s b" "fill_buf u b s = (r, s')"
  shows "hold_contract W u b s r s'"
  using fill_loaded_spec [OF assms] by (auto simp: hold_contract_def users_of_def)

lemma held_map:
  assumes "env_ok E" "mem_inv s" "b \<in> set (si_sibuf_head s)" "\<not> is_loaded s b"
    and "load_map E W u b s = Some (LdDone r s')"
  shows "hold_contract W u b s r s'"
proof -
  note spec = load_map_spec [OF assms(2-5)]
  have "users_of s b = {}" using assms(2-4) by (auto simp: mem_inv_def)
  moreover have "si_sibuf_mem_usage s' \<le> wd_loaded_max W"
    using spec(5,9) mmap_size_ge [OF assms(1), of "h_sb s b"] by (simp add: load_fits_def)
  ultimately show ?thesis using spec by (auto simp: hold_contract_def users_of_def)
qed

lemma held_after_gc:
  assumes "mem_inv s" "hold_contract W u b (snd (resfile_gc s)) r s'"
  shows "hold_contract W u b s r s'"
proof -
  obtain g t where g: "resfile_gc s = (g, t)" by (cases "resfile_gc s")
  note spec = resfile_gc_spec [OF assms(1) g]
  have "loaded_total t \<le> loaded_total s"
    unfolding loaded_total_def spec(2) using spec(5,6) by (intro sum_mono) auto
  then have "si_sibuf_mem_usage t \<le> si_sibuf_mem_usage s"
    using spec(1) assms(1) by (simp add: mem_inv_def)
  then show ?thesis using assms(2) g spec(2,4) by (auto simp: hold_contract_def)
qed

text \<open>The three ways a load comes back.\<close>

lemma load_cases:
  assumes "mem_inv s" "resfile_load E W u b s = Some (r, s')"
  obtains "r = - 1" "s' = s"
  | t where "resfile_open W (sb_rf (h_sb s b)) s = Some (True, t)" "is_loaded s b"
      "fill_buf u b t = (r, s')"
  | t where "resfile_open W (sb_rf (h_sb s b)) s = Some (True, t)" "\<not> is_loaded s b"
      "load_map E W u b t = Some (LdDone r s')"
  | t where "resfile_open W (sb_rf (h_sb s b)) s = Some (True, t)" "\<not> is_loaded s b"
      "load_map E W u b (snd (resfile_gc t)) = Some (LdDone r s')"
proof -
  obtain ok t where op: "resfile_open W (sb_rf (h_sb s b)) s = Some (ok, t)"
    using assms(2) by (cases "resfile_open W (sb_rf (h_sb s b)) s")
      (auto simp: resfile_load_def load_enter_def)
  note f = resfile_open_frame [OF op]
  have inv: "mem_inv t" using open_views(1) [OF op] assms(1) by simp
  show thesis
  proof (cases ok)
    case False
    then have "r = - 1 \<and> s' = s" using assms(2) op f(4)
      by (simp add: resfile_load_def load_enter_def)
    then show ?thesis using that(1) by blast
  next
    case True
    then have op: "resfile_open W (sb_rf (h_sb s b)) s = Some (True, t)" using op by simp
    show ?thesis
    proof (cases "is_loaded s b")
      case True
      then have "sb_need_unload (h_sb t b)" by (simp add: is_loaded_def f)
      then have "fill_buf u b t = (r, s')" using assms(2) op
        by (auto simp: resfile_load_def load_enter_def Let_def split: prod.splits)
      then show ?thesis using that(2) op True by blast
    next
      case nl: False
      then have "\<not> sb_need_unload (h_sb t b)" by (simp add: is_loaded_def f)
      then have run: "Option.bind (load_map E W u b t) (\<lambda>r. case r of LdDone ret s \<Rightarrow> Some (ret, s)
          | LdWait s \<Rightarrow> load_wait E W u b (snd (resfile_gc s))) = Some (r, s')"
        using assms(2) op by (simp add: resfile_load_def load_enter_def)
      then obtain st where st: "load_map E W u b t = Some st" by (cases "load_map E W u b t") auto
      show ?thesis
      proof (cases st)
        case (LdDone r2 s2)
        then show ?thesis using run st that(3) [OF op nl] by simp
      next
        case (LdWait s2)
        then have "s2 = t" using st load_map_wait by blast
        then have "load_wait E W u b (snd (resfile_gc t)) = Some (r, s')" using run st LdWait by simp
        then have "load_map E W u b (snd (resfile_gc t)) = Some (LdDone r s')"
          using load_wait_after_gc [OF inv refl] by (auto split: option.splits load_step.splits)
        then show ?thesis using that(4) [OF op nl] by blast
      qed
    qed
  qed
qed

lemma held_open:
  assumes "resfile_open W rf s = Some (ok, t)" "hold_contract W u b t r s'"
  shows "hold_contract W u b s r s'"
  using assms(2) resfile_open_frame [OF assms(1)] open_views(3) [OF assms(1)]
  by (simp add: hold_contract_def)

lemma load_held:
  assumes "env_ok E" "mem_inv s" "b \<in> set (si_sibuf_head s)"
    and "resfile_load E W u b s = Some (r, s')"
  shows "r = - 1 \<and> s' = s \<or> hold_contract W u b s r s'"
  using assms(2,4)
proof (cases rule: load_cases)
  case 1
  then show ?thesis by blast
next
  case (2 t)
  have "hold_contract W u b t r s'"
    by (rule held_fill) (use 2 assms open_views [OF 2(1)] resfile_open_frame [OF 2(1)] in auto)
  then show ?thesis using held_open 2(1) by blast
next
  case (3 t)
  have "hold_contract W u b t r s'"
    by (rule held_map [OF assms(1)])
      (use 3 assms open_views [OF 3(1)] resfile_open_frame [OF 3(1)] in auto)
  then show ?thesis using held_open 3(1) by blast
next
  case (4 t)
  have inv: "mem_inv t" using open_views(1) [OF 4(1)] assms(2) by simp
  obtain g t2 where g: "resfile_gc t = (g, t2)" by (cases "resfile_gc t")
  note spec = resfile_gc_spec [OF inv g]
  have "hold_contract W u b t2 r s'"
    by (rule held_map [OF assms(1) spec(1)])
      (use 4 g spec assms open_views [OF 4(1)] resfile_open_frame [OF 4(1)] in auto)
  then have "hold_contract W u b t r s'" using held_after_gc [OF inv] g by simp
  then show ?thesis using held_open 4(1) by blast
qed

subsection \<open>The properties\<close>

text \<open>
  C12. The contract of holding a sibuf. When \<open>sibuf_hold\<close> returns 0 or 1, the sibuf is mapped
  and the calling thread is one of its users, with 1 exactly when it was one before; no
  other sibuf that is held has been unmapped and no other user list has changed; and the
  account of loaded memory is exact again and still under the limit, whatever the
  collections on the way have released.
\<close>

theorem sibuf_hold_ok:
  assumes "env_ok E" "mem_inv s" "b \<in> set (si_sibuf_head s)"
    and "sibuf_hold E W u b s = Some (r, s')" "r \<noteq> - 1"
  shows "mem_inv s' \<and> is_loaded s' b \<and> users_of s' b = insert u (users_of s b) \<and>
    r = (if u \<in> users_of s b then 1 else 0) \<and>
    (\<forall>c. c \<noteq> b \<longrightarrow> users_of s' c = users_of s c) \<and>
    (\<forall>c. c \<in> set (si_sibuf_head s) \<and> users_of s c \<noteq> {} \<longrightarrow> is_loaded s' c) \<and>
    (si_sibuf_mem_usage s \<le> wd_loaded_max W \<longrightarrow> si_sibuf_mem_usage s' \<le> wd_loaded_max W)"
proof -
  have h: "hold_contract W u b s r s'"
    using load_held [OF assms(1-3) assms(4) [unfolded sibuf_hold_def]] assms(5) by blast
  have "is_loaded s' c" if "c \<in> set (si_sibuf_head s)" "users_of s c \<noteq> {}" for c
  proof -
    have "users_of s' c \<noteq> {}" using h that(2) by (cases "c = b") (auto simp: hold_contract_def)
    moreover have "c \<in> set (si_sibuf_head s')" "mem_inv s'" using h that(1) by (auto simp: hold_contract_def)
    ultimately show ?thesis by (auto simp: mem_inv_def)
  qed
  then show ?thesis using h unfolding hold_contract_def by blast
qed

lemma drop_spec:
  assumes "mem_inv s" "b \<in> set (si_sibuf_head s)"
  shows "mem_inv (sibuf_drop u b s)" "users_of (sibuf_drop u b s) b = users_of s b - {u}"
    "\<And>c. c \<noteq> b \<Longrightarrow> users_of (sibuf_drop u b s) c = users_of s c"
    "is_loaded (sibuf_drop u b s) = is_loaded s"
proof -
  have d: "distinct (sb_users (h_sb s b))" using assms by (auto simp: mem_inv_def)
  note spec = del_user_spec [OF d, of u]
  from spec(3) obtain us where us: "sibuf_del_user b u s = upd_sb b (\<lambda>n. n\<lparr>sb_users := us\<rparr>) s" by blast
  show usr: "users_of (sibuf_drop u b s) b = users_of s b - {u}"
    "\<And>c. c \<noteq> b \<Longrightarrow> users_of (sibuf_drop u b s) c = users_of s c"
    using spec(1) by (simp_all add: sibuf_drop_def users_of_def us)
  show l: "is_loaded (sibuf_drop u b s) = is_loaded s"
    by (intro ext) (simp add: sibuf_drop_def us is_loaded_def)
  have tot: "sb_total_len (h_sb (sibuf_drop u b s) c) = sb_total_len (h_sb s c)" for c
    by (simp add: sibuf_drop_def us)
  have "loaded_total (sibuf_drop u b s) = loaded_total s"
    unfolding loaded_total_def l tot by (simp add: sibuf_drop_def us)
  moreover have "distinct (sb_users (h_sb (sibuf_drop u b s) c)) \<and>
      (users_of (sibuf_drop u b s) c \<noteq> {} \<longrightarrow> is_loaded s c)"
    if "c \<in> set (si_sibuf_head s)" for c
    using that assms(1) usr spec(2) by (cases "c = b") (auto simp: mem_inv_def sibuf_drop_def us)
  ultimately show "mem_inv (sibuf_drop u b s)"
    using assms(1) by (simp add: mem_inv_def l) (simp add: sibuf_drop_def us)
qed

text \<open>
  C17. The bracket the callers write, \<open>int held = sibuf_hold(b); ... if (!held) sibuf_drop(b);\<close>,
  nests: whatever the first hold answered, afterwards every sibuf has the users it had
  before, and the account is exact. An inner bracket never takes the sibuf from an outer one
  of the same thread.
\<close>

theorem sibuf_bracket:
  assumes "env_ok E" "mem_inv s" "b \<in> set (si_sibuf_head s)"
    and "sibuf_hold E W u b s = Some (r, s')"
  shows "mem_inv (if r = 0 then sibuf_drop u b s' else s') \<and>
    users_of (if r = 0 then sibuf_drop u b s' else s') = users_of s"
proof -
  consider "r = - 1" "s' = s" | "hold_contract W u b s r s'"
    using load_held [OF assms(1-3) assms(4) [unfolded sibuf_hold_def]] by blast
  then show ?thesis
  proof cases
    case 1
    then show ?thesis using assms(2) by simp
  next
    case 2
    then have inv: "mem_inv s'" and b: "b \<in> set (si_sibuf_head s')" using assms(3) by (auto simp: hold_contract_def)
    show ?thesis
    proof (cases "u \<in> users_of s b")
      case True
      then have "users_of s' c = users_of s c" for c
        using 2 by (cases "c = b") (auto simp: hold_contract_def)
      then show ?thesis using 2 inv True by (auto simp: hold_contract_def)
    next
      case False
      then have r: "r = 0" using 2 by (simp add: hold_contract_def)
      have "users_of (sibuf_drop u b s') c = users_of s c" for c
        using drop_spec(2) [OF inv b, of u] drop_spec(3) [OF inv b, of c u] 2 False by (cases "c = b") (auto simp: hold_contract_def)
      then show ?thesis using r drop_spec(1) [OF inv b, of u] by auto
    qed
  qed
qed

text \<open>
  C18. When a load comes back. With nobody else running, and a kernel that maps or reports no
  memory, holding an unloaded sibuf of the project returns exactly when it fits now or after
  one collection; otherwise the loop of \<open>resfile_load\<close> runs forever.
\<close>

theorem sibuf_hold_returns:
  assumes "mem_inv s" "\<not> is_loaded s b" "rf_fd (h_rf s (sb_rf (h_sb s b))) \<noteq> - 1"
    and "\<And>a z m. wd_mmap W a z m \<noteq> MmapErr"
  shows "(\<exists>r s'. sibuf_hold E W u b s = Some (r, s')) =
    (load_fits E W b s \<or> load_fits E W b (snd (resfile_gc s)))"
proof -
  have op: "resfile_open W (sb_rf (h_sb s b)) s = Some (True, s)"
    using assms(3) by (simp add: resfile_open_def)
  have run: "sibuf_hold E W u b s = Option.bind (load_map E W u b s) (\<lambda>r. case r of
      LdDone ret s \<Rightarrow> Some (ret, s) | LdWait s \<Rightarrow> load_wait E W u b (snd (resfile_gc s)))"
    using op assms(2) by (simp add: sibuf_hold_def resfile_load_def load_enter_def is_loaded_def)
  show ?thesis
  proof (cases "load_fits E W b s")
    case True
    then show ?thesis by (simp add: run load_map_fits Let_def split: prod.splits)
  next
    case False
    then have w: "sibuf_hold E W u b s = load_wait E W u b (snd (resfile_gc s))"
      using run load_map_not_fits assms(4) by simp
    show ?thesis
    proof (cases "load_fits E W b (snd (resfile_gc s))")
      case True
      then show ?thesis
        by (simp add: w load_wait_after_gc [OF assms(1) refl] load_map_fits Let_def split: prod.splits)
    next
      case nf: False
      then show ?thesis
        using False load_map_not_fits [OF nf assms(4)]
        by (simp add: w load_wait_after_gc [OF assms(1) refl])
    qed
  qed
qed

text \<open>
  C26. Two threads that wait for the same sibuf both map it: the second one does not look at
  \<open>need_unload\<close> again at the label \<open>mmap_again0\<close>, and its length enters the account a second
  time. From then on the account is larger than what is loaded.
\<close>

theorem load_race_accounts_twice:
  assumes "mem_inv s" "b \<in> set (si_sibuf_head s)" "\<not> is_loaded s b" "u1 \<noteq> u2"
    and "load_map E W u1 b s = Some (LdDone r1 s1)" "load_map E W u2 b s1 = Some (LdDone r2 s2)"
  shows "r1 = 0 \<and> r2 = 0 \<and> users_of s2 b = {u1, u2} \<and>
    si_sibuf_mem_usage s2 = loaded_total s2 + sb_total_len (h_sb s b)"
proof -
  note one = load_map_spec [OF assms(1-3,5)]
  let ?s = "s1\<lparr>si_sibuf_mem_usage := si_sibuf_mem_usage s1 + sb_total_len (h_sb s1 b)\<rparr>"
  have fill: "fill_buf u2 b ?s = (r2, s2)" by (rule load_map_doneE [OF assms(6)])
  have b1: "b \<in> set (si_sibuf_head s1)" using one(7) assms(2) by simp
  then have d: "distinct (sb_users (h_sb ?s b))" using one(1) by (auto simp: mem_inv_def)
  note two = fill_buf_spec [OF fill d]
  have "users_of ?s b = {u1}" using one(4) by (simp add: users_of_def)
  then have "r2 = 0" "users_of s2 b = {u1, u2}" using two(1,2) assms(4) by auto
  moreover have "loaded_total s2 = loaded_total s1"
    using loaded_total_change [OF b1, of s2] two(4-6,9) one(3) by simp
  moreover have "si_sibuf_mem_usage s1 = loaded_total s1" using one(1) by (simp add: mem_inv_def)
  ultimately show ?thesis using one(2,10) two(8) by simp
qed

subsection \<open>Concrete runs\<close>

text \<open>
  Three sibufs of one page each, at the nodes 10, 20 and 30, of an open resfile. The first is
  loaded and nobody holds it, the second is loaded and thread 7 holds it, the third is not
  loaded. The limit is \<open>m\<close> pages.
\<close>

definition rw_world :: "nat \<Rightarrow> world" where
  "rw_world m = \<lparr>wd_tmpdir = ''/tmp'', wd_loaded_max = m * 4096, wd_open = (\<lambda>_. Some 3),
     wd_size = (\<lambda>_. Some 12288), wd_window = (\<lambda>_ _. True),
     wd_fc = (\<lambda>_ _. \<lparr>fc_total_size = 4096, fc_objs_offs = 0, fc_objs_cnt = 0, fc_gcc_ver_major = 8,
       fc_gcc_ver_minor = 3, fc_path_len = 4, fc_cmd_len = 4, fc_srcroot_len = 0,
       fc_type = \<lparr>ty_binary = 1, ty_kernel = 1, ty_os = 0, ty_fmt = 0\<rparr>, fc_path = []\<rparr>),
     wd_objs = (\<lambda>_ _. []), wd_mmap = (\<lambda>_ _ _. MmapOk), wd_fc_size = 64\<rparr>"

definition rw_sibuf :: "nat \<Rightarrow> bool \<Rightarrow> nat list \<Rightarrow> sibuf" where
  "rw_sibuf a l us = sibuf_zero\<lparr>sb_rf := 5, sb_load_addr := a, sb_total_len := 4096,
     sb_need_unload := l, sb_users := us\<rparr>"

definition rw_state :: src where
  "rw_state = src0\<lparr>si_sibuf_head := [10, 20, 30], si_sibuf_mem_usage := 8192, si_resfile_head := [5],
     h_rf := (\<lambda>_. resfile_zero\<lparr>rf_fd := 3\<rparr>),
     h_sb := (\<lambda>b. if b = 10 then rw_sibuf 4096 True [] else if b = 20 then rw_sibuf 8192 True [7]
       else rw_sibuf 12288 False [])\<rparr>"

lemma rw_views:
  "is_loaded rw_state = (\<lambda>b. b = 10 \<or> b = 20)" "users_of rw_state = (\<lambda>b. if b = 20 then {7} else {})"
  "h_rf rw_state r = resfile_zero\<lparr>rf_fd := 3\<rparr>" "si_sibuf_head rw_state = [10, 20, 30]"
  "wd_mmap (rw_world m) a z n = MmapOk" "wd_loaded_max (rw_world m) = m * 4096"
  "sb_total_len (h_sb rw_state b) = 4096" "si_sibuf_mem_usage rw_state = 8192"
  by (auto simp: rw_state_def rw_sibuf_def is_loaded_def users_of_def sibuf_zero_def rw_world_def
      intro!: ext split: if_splits)

lemma rw_inv: "mem_inv rw_state"
  by (simp add: mem_inv_def loaded_total_def rw_views)
    (auto simp: rw_state_def rw_sibuf_def sibuf_zero_def)

lemmas hold_eval = sibuf_hold_def resfile_load_def load_enter_def resfile_open_def load_map_def
  mmap_size_of_def mmap_addr_of_def PAGE_SIZE_def fill_buf_def sibuf_add_user_def Let_def
  sibuf_find_user_def op_defs rw_state_def rw_sibuf_def sibuf_zero_def resfile_zero_def
  resfile_gc_def resfile_unload_def sibuf_cleanup_user_def rw_world_def sibuf_drop_def sibuf_del_user_def

lemma rw_fits:
  "load_fits env0 (rw_world m) 30 rw_state \<longleftrightarrow> 3 \<le> m"
  "load_fits env0 (rw_world m) 30 (snd (resfile_gc rw_state)) \<longleftrightarrow> 2 \<le> m"
  by (simp_all add: load_fits_def hold_eval)

text \<open>With two pages thread 8 gets the third sibuf after the first has been collected.\<close>

lemma rw_hold: "\<exists>s. sibuf_hold env0 (rw_world 2) 8 30 rw_state = Some (0, s)"
  by (simp add: hold_eval) (subst load_wait.simps, simp add: hold_eval)

theorem sibuf_hold_ok_witness:
  "\<exists>s. sibuf_hold env0 (rw_world 2) 8 30 rw_state = Some (0, s) \<and> is_loaded s 30 \<and>
     users_of s 30 = {8} \<and> is_loaded s 20 \<and> users_of s 20 = {7} \<and> si_sibuf_mem_usage s \<le> 8192"
proof -
  obtain s where s: "sibuf_hold env0 (rw_world 2) 8 30 rw_state = Some (0, s)" using rw_hold by blast
  have b: "30 \<in> set (si_sibuf_head rw_state)" and r: "(0 :: int) \<noteq> - 1" by (simp_all add: rw_views)
  note h = sibuf_hold_ok [OF env0_ok rw_inv b s r]
  from h have "\<forall>c. c \<noteq> 30 \<longrightarrow> users_of s c = users_of rw_state c" by blast
  then have "users_of s 20 = {7}" by (simp add: rw_views)
  moreover have "is_loaded s 20" using h by (simp add: rw_views)
  moreover have "si_sibuf_mem_usage s \<le> 8192" using h by (simp add: rw_views)
  ultimately show ?thesis using s h by (simp add: rw_views)
qed

theorem sibuf_bracket_witness:
  "\<exists>s. sibuf_hold env0 (rw_world 2) 8 30 rw_state = Some (0, s) \<and>
     users_of (sibuf_drop 8 30 s) = users_of rw_state"
proof -
  obtain s where s: "sibuf_hold env0 (rw_world 2) 8 30 rw_state = Some (0, s)" using rw_hold by blast
  have b: "30 \<in> set (si_sibuf_head rw_state)" by (simp add: rw_views)
  from sibuf_bracket [OF env0_ok rw_inv b s] s show ?thesis by simp
qed

text \<open>With one page nothing helps: thread 7 holds the second sibuf, and the load never returns.\<close>

theorem sibuf_hold_returns_witness:
  "sibuf_hold env0 (rw_world 1) 8 30 rw_state = None"
proof -
  have "\<not> is_loaded rw_state 30" "rf_fd (h_rf rw_state (sb_rf (h_sb rw_state 30))) \<noteq> - 1"
    "\<And>a z n. wd_mmap (rw_world 1) a z n \<noteq> MmapErr"
    by (simp_all add: rw_views resfile_zero_def)
  from sibuf_hold_returns [OF rw_inv this, of env0 8] show ?thesis
    by (cases "sibuf_hold env0 (rw_world 1) 8 30 rw_state") (auto simp: rw_fits)
qed

text \<open>
  Threads 8 and 9 both find no room for the third sibuf; then thread 7 drops the second, a
  collection releases both loaded sibufs, and both waiting threads map the third.
\<close>

definition rw_freed :: src where
  "rw_freed = snd (resfile_gc (sibuf_drop 7 20 rw_state))"

lemma rw_race:
  "load_enter env0 (rw_world 2) 8 30 rw_state = Some (LdWait rw_state)"
  "load_enter env0 (rw_world 2) 9 30 rw_state = Some (LdWait rw_state)"
  "\<exists>s1. load_map env0 (rw_world 2) 8 30 rw_freed = Some (LdDone 0 s1) \<and>
     (\<exists>s2. load_map env0 (rw_world 2) 9 30 s1 = Some (LdDone 0 s2))"
  by (simp_all add: hold_eval rw_freed_def)

theorem load_race_accounts_twice_witness:
  "load_enter env0 (rw_world 2) 8 30 rw_state = Some (LdWait rw_state) \<and>
   load_enter env0 (rw_world 2) 9 30 rw_state = Some (LdWait rw_state) \<and>
   (\<exists>s1 s2. load_map env0 (rw_world 2) 8 30 rw_freed = Some (LdDone 0 s1) \<and>
     load_map env0 (rw_world 2) 9 30 s1 = Some (LdDone 0 s2) \<and>
     si_sibuf_mem_usage s2 = loaded_total s2 + 4096)"
proof -
  let ?d = "sibuf_drop 7 20 rw_state"
  have "20 \<in> set (si_sibuf_head rw_state)" by (simp add: rw_views)
  note ds = drop_spec [OF rw_inv this]
  obtain g s where g: "resfile_gc ?d = (g, s)" by (cases "resfile_gc ?d")
  note gs = resfile_gc_spec [OF ds(1) g]
  have f: "s = rw_freed" using g by (simp add: rw_freed_def)
  obtain s1 s2 where m: "load_map env0 (rw_world 2) 8 30 rw_freed = Some (LdDone 0 s1)"
    "load_map env0 (rw_world 2) 9 30 s1 = Some (LdDone 0 s2)" using rw_race(3) by blast
  have hd: "si_sibuf_head ?d = [10, 20, 30]" "sb_total_len (h_sb ?d 30) = 4096"
    by (simp_all add: hold_eval)
  have "mem_inv rw_freed" "30 \<in> set (si_sibuf_head rw_freed)" "\<not> is_loaded rw_freed 30" "(8 :: nat) \<noteq> 9"
    using gs(1,2,5) hd ds(4) by (simp_all add: f rw_views)
  note h = load_race_accounts_twice [OF this m]
  have "sb_total_len (h_sb rw_freed 30) = 4096" using gs(6) [of 30] hd by (simp add: f)
  then show ?thesis using h m rw_race(1,2) by auto
qed

end
