(* ===== verification/Resfile_Preview.thy ===== *)
theory Resfile_Preview
  imports Resfile
begin

text \<open>
  analysis/resfile.c, second part: \<open>resfile_preview\<close>, which cuts a resfile into its sibufs and
  gives each of them, and each object in it, an address; and the two readers
  \<open>resfile_get_offset\<close> and \<open>resfile_get_fc\<close>. The headers and objects of the file come from
  the record \<open>world\<close>; the addresses of the objects are written back to it, because the
  windows are mapped \<open>MAP_SHARED\<close>.
\<close>

subsection \<open>Addresses of the objects\<close>

text \<open>
  \<open>offs\<close> is a \<open>uint32_t\<close> and \<open>real_addr\<close> a field of 48 bits. An object with an address keeps
  it. The first parameter is the address of the payload, the second the object before.
\<close>

fun assign_objs :: "nat \<Rightarrow> file_obj option \<Rightarrow> file_obj list \<Rightarrow> file_obj list" where
  "assign_objs payload prev [] = []"
| "assign_objs payload prev (ob # obs) =
     (let ob' =
        (if fo_real_addr ob \<noteq> 0 then ob
         else let offs = (case prev of None \<Rightarrow> 0 | Some p \<Rightarrow> wrap32 (fo_offs p + fo_size p))
              in ob\<lparr>fo_offs := offs, fo_real_addr := (payload + offs) mod 2 ^ 48\<rparr>)
      in ob' # assign_objs payload (Some ob') obs)"

text \<open>\<open>fc_pldptr\<close>: how far the payload is from the start of the header.\<close>

definition fc_pldptr :: "world \<Rightarrow> file_content \<Rightarrow> nat" where
  "fc_pldptr W fc = wd_fc_size W - PATH_MAX + fc_path_len fc + fc_cmd_len fc"

text \<open>The fields \<open>resfile_preview\<close> sets in a new sibuf.\<close>

definition preview_sibuf :: "world \<Rightarrow> addr \<Rightarrow> file_content \<Rightarrow> nat \<Rightarrow> nat \<Rightarrow> sibuf \<Rightarrow> sibuf" where
  "preview_sibuf W rf fc file_offs a b =
     b\<lparr>sb_rf := rf, sb_load_addr := a, sb_total_len := fc_total_size fc, sb_offs_of_resfile := file_offs,
       sb_payload := fc_pldptr W fc + a,
       sb_pldlen := wrap64 (fc_objs_offs fc + (2 ^ 64 - fc_pldptr W fc)),
       sb_objs := a + fc_objs_offs fc, sb_obj_cnt := fc_objs_cnt fc\<rparr>"

definition wd_set_objs :: "string \<Rightarrow> nat \<Rightarrow> file_obj list \<Rightarrow> world \<Rightarrow> world" where
  "wd_set_objs path offs os W = W\<lparr>wd_objs := (\<lambda>p o'. if p = path \<and> o' = offs then os else wd_objs W p o')\<rparr>"

lemma wd_set_objs_simps [simp]:
  "wd_fc (wd_set_objs p n os W) = wd_fc W" "wd_fc_size (wd_set_objs p n os W) = wd_fc_size W"
  "wd_window (wd_set_objs p n os W) = wd_window W" "wd_size (wd_set_objs p n os W) = wd_size W"
  by (simp_all add: wd_set_objs_def)

subsection \<open>The loop\<close>

text \<open>
  One round of the loop at \<open>file_offs\<close>, with the address for the next sibuf and the number
  found: the return value of the function, or the next round. A header whose \<open>total_size\<close> is
  0 makes the round repeat, until the region of \<open>sibuf_new\<close> is used up and the process
  aborts.
\<close>

partial_function (option) preview_loop ::
    "env \<Rightarrow> addr \<Rightarrow> string \<Rightarrow> nat \<Rightarrow> nat \<Rightarrow> nat \<Rightarrow> nat \<Rightarrow> world \<Rightarrow> src \<Rightarrow>
     ((int \<times> nat) \<times> world \<times> src) option" where
  "preview_loop E rf path sz file_offs cnt addr_tmp W s =
     (if \<not> wd_window W path file_offs then Some ((- 1, cnt), W, s)
      else let fc = wd_fc W path file_offs in
        Option.bind (sibuf_new E s) (\<lambda>(b, s).
          let s = upd_sb b (preview_sibuf W rf fc file_offs addr_tmp) s;
              os = take (fc_objs_cnt fc) (wd_objs W path file_offs);
              W = wd_set_objs path file_offs
                (assign_objs (sb_payload (h_sb s b)) None os @
                 drop (fc_objs_cnt fc) (wd_objs W path file_offs)) W;
              s = sibuf_insert b s;
              next_offs = file_offs + fc_total_size fc
          in if next_offs = sz then Some ((0, cnt + 1), W, s)
             else if sz < next_offs then Some ((- 1, cnt + 1), W, s)
             else preview_loop E rf path sz next_offs (cnt + 1) (addr_tmp + fc_total_size fc) W s))"

text \<open>The area the resfiles of the list occupy; the next one starts at its end.\<close>

fun addr_base_loop :: "env \<Rightarrow> src \<Rightarrow> addr list \<Rightarrow> nat \<Rightarrow> nat" where
  "addr_base_loop E s [] base = base"
| "addr_base_loop E s (r # rs) base =
     addr_base_loop E s rs (base + clib_round_up E (rf_filelen (h_rf s r)) PAGE_SIZE)"

definition addr_base :: "env \<Rightarrow> src \<Rightarrow> nat" where
  "addr_base E s = addr_base_loop E s (si_resfile_head s) RESFILE_BUF_START"

definition resfile_preview ::
    "env \<Rightarrow> addr \<Rightarrow> world \<Rightarrow> src \<Rightarrow> (int \<times> world \<times> src) option" where
  "resfile_preview E rf W s =
     (let path = rf_path (h_rf s rf);
          opened = (if rf_fd (h_rf s rf) = - 1
            then (case wd_open W path of None \<Rightarrow> None
                  | Some fd \<Rightarrow> Some (upd_rf rf (\<lambda>r. r\<lparr>rf_fd := fd\<rparr>) s))
            else Some s)
      in case opened of
           None \<Rightarrow> Some (- 1, W, s)
         | Some s \<Rightarrow>
             (case wd_size W path of
                None \<Rightarrow> Some (- 1, W, s)
              | Some sz \<Rightarrow> do {
                  ((err, cnt), W, s) \<leftarrow> preview_loop E rf path sz 0 0 (addr_base E s) W s;
                  (if err = - 1 then Some (- 1, W, s)
                   else Some (0, W, upd_rf rf (\<lambda>r. r\<lparr>rf_filelen := sz, rf_total_files := cnt\<rparr>) s))
                }))"

subsection \<open>Reading a resfile from the start\<close>

text \<open>
  \<open>resfile_get_offset\<close> and \<open>resfile_get_fc\<close> read the file with \<open>read\<close>. The file is its
  bytes as the function sees them: at each record its length field and how many bytes are
  there. A record is read completely when the rest of the file is long enough; the unsigned
  length \<open>this_total - 4\<close> of a record shorter than its own length field is huge, and the read
  comes back short. \<open>rd_read_err\<close> says where \<open>read\<close> fails.
\<close>

record rd_file =
  rd_size :: nat
  rd_total :: "nat \<Rightarrow> nat"
  rd_path :: "nat \<Rightarrow> string"
  rd_err :: "nat \<Rightarrow> bool"

datatype rd_step = RdErr | RdEnd | RdRec nat

text \<open>The two reads of a record at the offset \<open>pos\<close>.\<close>

definition rd_record :: "rd_file \<Rightarrow> nat \<Rightarrow> rd_step" where
  "rd_record f pos =
     (if rd_err f pos then RdErr
      else if rd_size f \<le> pos then RdEnd
      else if rd_err f (pos + 4) then RdErr
      else if rd_total f pos < 4 then RdErr
      else if min (rd_total f pos - 4) (rd_size f - (pos + 4)) = 0 then RdErr
      else if min (rd_total f pos - 4) (rd_size f - (pos + 4)) \<noteq> rd_total f pos - 4 then RdErr
      else RdRec (rd_total f pos))"

lemma rd_record_pos: "rd_record f pos = RdRec n \<Longrightarrow> 4 < n \<and> n = rd_total f pos \<and> pos + n \<le> rd_size f"
  by (auto simp: rd_record_def min_def split: if_splits)

fun offset_loop :: "rd_file \<Rightarrow> nat \<Rightarrow> nat \<Rightarrow> (int \<times> nat)" where
  "offset_loop f 0 offs = (0, offs)"
| "offset_loop f (Suc filecnt) offs =
     (case rd_record f offs of
        RdErr \<Rightarrow> (- 1, 0)
      | RdEnd \<Rightarrow> (0, offs)
      | RdRec n \<Rightarrow> offset_loop f filecnt (offs + n))"

text \<open>The return value and \<open>*offs\<close>; \<open>None\<close> is a file that does not open.\<close>

definition resfile_get_offset :: "(string \<Rightarrow> rd_file option) \<Rightarrow> string \<Rightarrow> nat \<Rightarrow> int \<times> nat" where
  "resfile_get_offset fs path filecnt =
     (if filecnt = 0 then (0, 0)
      else case fs path of None \<Rightarrow> (- 1, 0) | Some f \<Rightarrow> offset_loop f filecnt 0)"

text \<open>
  \<open>resfile_get_fc\<close>: the offset of the record whose path is the same file as the target, and
  its index. A record read has a positive length, so the offset grows.
\<close>

function get_fc_loop :: "(string \<Rightarrow> string \<Rightarrow> bool) \<Rightarrow> rd_file \<Rightarrow> string \<Rightarrow> nat \<Rightarrow> nat \<Rightarrow> nat option \<times> nat" where
  "get_fc_loop is_same_path f target pos idx =
     (case rd_record f pos of
        RdErr \<Rightarrow> (None, idx)
      | RdEnd \<Rightarrow> (None, idx)
      | RdRec n \<Rightarrow> if is_same_path (rd_path f pos) target then (Some pos, idx)
          else get_fc_loop is_same_path f target (pos + n) (idx + 1))"
  by pat_completeness auto

termination
  by (relation "measure (\<lambda>(_, f, _, pos, _). rd_size f - pos)") (auto dest!: rd_record_pos)

definition resfile_get_fc ::
    "(string \<Rightarrow> string \<Rightarrow> bool) \<Rightarrow> (string \<Rightarrow> rd_file option) \<Rightarrow> string \<Rightarrow> string \<Rightarrow> nat option \<times> nat" where
  "resfile_get_fc is_same_path fs path target =
     (case fs path of None \<Rightarrow> (None, 0) | Some f \<Rightarrow> get_fc_loop is_same_path f target 0 0)"

subsection \<open>How a resfile is laid out\<close>

text \<open>
  \<open>laid_out s rf bs a offs\<close>: the sibufs \<open>bs\<close> of the resfile follow each other in memory from
  the address \<open>a\<close> and in the file from the offset \<open>offs\<close>.
\<close>

fun laid_out :: "src \<Rightarrow> addr \<Rightarrow> addr list \<Rightarrow> nat \<Rightarrow> nat \<Rightarrow> bool" where
  "laid_out s rf [] a offs = True"
| "laid_out s rf (b # bs) a offs \<longleftrightarrow>
     sb_rf (h_sb s b) = rf \<and> sb_load_addr (h_sb s b) = a \<and> sb_offs_of_resfile (h_sb s b) = offs \<and>
     laid_out s rf bs (a + sb_total_len (h_sb s b)) (offs + sb_total_len (h_sb s b))"

abbreviation len_sum :: "src \<Rightarrow> addr list \<Rightarrow> nat" where
  "len_sum s bs \<equiv> sum_list (map (\<lambda>b. sb_total_len (h_sb s b)) bs)"

lemma laid_out_cong:
  "(\<And>b. b \<in> set bs \<Longrightarrow> h_sb s b = h_sb t b) \<Longrightarrow> laid_out s rf bs a offs = laid_out t rf bs a offs"
  by (induction bs arbitrary: a offs) auto

lemma len_sum_cong:
  "(\<And>b. b \<in> set bs \<Longrightarrow> h_sb s b = h_sb t b) \<Longrightarrow> len_sum s bs = len_sum t bs"
  by (induction bs) auto

lemma laid_out_bounds:
  "laid_out s rf bs a offs \<Longrightarrow> b \<in> set bs \<Longrightarrow>
     a \<le> sb_load_addr (h_sb s b) \<and> sb_load_addr (h_sb s b) + sb_total_len (h_sb s b) \<le> a + len_sum s bs"
  by (induction bs arbitrary: a offs) fastforce+

definition apart :: "sibuf \<Rightarrow> sibuf \<Rightarrow> bool" where
  "apart b c \<longleftrightarrow> sb_load_addr b + sb_total_len b \<le> sb_load_addr c \<or>
     sb_load_addr c + sb_total_len c \<le> sb_load_addr b"

lemma apart_sym: "apart b c \<longleftrightarrow> apart c b"
  by (auto simp: apart_def)

lemma laid_out_apart:
  "laid_out s rf bs a offs \<Longrightarrow> distinct bs \<Longrightarrow> b \<in> set bs \<Longrightarrow> c \<in> set bs \<Longrightarrow> b \<noteq> c \<Longrightarrow>
     apart (h_sb s b) (h_sb s c)"
proof (induction bs arbitrary: a offs)
  case Nil
  then show ?case by simp
next
  case (Cons d bs)
  have rest: "laid_out s rf bs (a + sb_total_len (h_sb s d)) (offs + sb_total_len (h_sb s d))"
    and a: "sb_load_addr (h_sb s d) = a" using Cons.prems(1) by simp_all
  have d: "apart (h_sb s d) (h_sb s e)" if "e \<in> set bs" for e
    using laid_out_bounds [OF rest that] a by (simp add: apart_def)
  consider "b = d" | "c = d" | "b \<in> set bs" "c \<in> set bs" using Cons.prems(3,4) by auto
  then show ?case
  proof cases
    case 1
    then show ?thesis using d Cons.prems by simp
  next
    case 2
    then show ?thesis using d Cons.prems by (simp add: apart_sym)
  next
    case 3
    then show ?thesis using Cons.IH [OF rest] Cons.prems by simp
  qed
qed

text \<open>
  The memory of the project: the sibuf nodes lie below the cursor of the region and are
  different, and their ranges of memory lie in the area of the listed resfiles and do not
  overlap.
\<close>

definition nodes_ok :: "src \<Rightarrow> bool" where
  "nodes_ok s \<longleftrightarrow> src_buf_inv (si_sbuf s) \<and> distinct (si_sibuf_head s) \<and>
     (\<forall>b \<in> set (si_sibuf_head s). b < buf_cur (si_sbuf s))"

definition layout_inv :: "env \<Rightarrow> src \<Rightarrow> bool" where
  "layout_inv E s \<longleftrightarrow> nodes_ok s \<and>
     (\<forall>b \<in> set (si_sibuf_head s). RESFILE_BUF_START \<le> sb_load_addr (h_sb s b) \<and>
        sb_load_addr (h_sb s b) + sb_total_len (h_sb s b) \<le> addr_base E s) \<and>
     (\<forall>b \<in> set (si_sibuf_head s). \<forall>c \<in> set (si_sibuf_head s). b \<noteq> c \<longrightarrow> apart (h_sb s b) (h_sb s c))"

declare nodes_ok_def [inv_defs] layout_inv_def [inv_defs]

text \<open>What the loop has done when it returns: the sibufs it found are laid out.\<close>

definition preview_done ::
    "addr \<Rightarrow> nat \<Rightarrow> nat \<Rightarrow> nat \<Rightarrow> nat \<Rightarrow> src \<Rightarrow> int \<Rightarrow> nat \<Rightarrow> src \<Rightarrow> bool" where
  "preview_done rf sz offs cnt a s err cnt' s' \<longleftrightarrow>
     (\<exists>new. si_sibuf_head s' = si_sibuf_head s @ new \<and> cnt' = cnt + length new \<and>
        laid_out s' rf new a offs \<and> (err = 0 \<longrightarrow> offs + len_sum s' new = sz) \<and>
        (\<forall>b \<in> set new. buf_cur (si_sbuf s) \<le> b)) \<and>
     nodes_ok s' \<and> (\<forall>b. b < buf_cur (si_sbuf s) \<longrightarrow> h_sb s' b = h_sb s b) \<and>
     h_rf s' = h_rf s \<and> si_resfile_head s' = si_resfile_head s \<and>
     buf_cur (si_sbuf s) \<le> buf_cur (si_sbuf s') \<and> (err = 0 \<or> err = - 1)"

lemma preview_done_step:
  assumes "preview_done rf sz (offs + n) (Suc cnt) (a + n) t err cnt' s'"
    and "si_sibuf_head t = si_sibuf_head s @ [b]" "h_sb t b = sb" "sb_load_addr sb = a"
    and "sb_rf sb = rf" "sb_offs_of_resfile sb = offs" "sb_total_len sb = n"
    and "buf_cur (si_sbuf s) \<le> b" "b < buf_cur (si_sbuf t)"
    and "\<And>c. c \<noteq> b \<Longrightarrow> h_sb t c = h_sb s c" "h_rf t = h_rf s" "si_resfile_head t = si_resfile_head s"
  shows "preview_done rf sz offs cnt a s err cnt' s'"
proof -
  obtain new where new: "si_sibuf_head s' = si_sibuf_head t @ new" "cnt' = Suc cnt + length new"
    "laid_out s' rf new (a + n) (offs + n)" "err = 0 \<Longrightarrow> offs + n + len_sum s' new = sz"
    "\<forall>c \<in> set new. buf_cur (si_sbuf t) \<le> c"
    using assms(1) by (auto simp: preview_done_def)
  have keep: "\<And>c. c < buf_cur (si_sbuf t) \<Longrightarrow> h_sb s' c = h_sb t c"
    and rest: "nodes_ok s'" "h_rf s' = h_rf t" "si_resfile_head s' = si_resfile_head t"
      "buf_cur (si_sbuf t) \<le> buf_cur (si_sbuf s')" "err = 0 \<or> err = - 1"
    using assms(1) by (auto simp: preview_done_def)
  have hb: "h_sb s' b = sb" using keep assms(3,9) by simp
  show ?thesis unfolding preview_done_def
  proof (intro conjI)
    show "\<exists>new. si_sibuf_head s' = si_sibuf_head s @ new \<and> cnt' = cnt + length new \<and>
        laid_out s' rf new a offs \<and> (err = 0 \<longrightarrow> offs + len_sum s' new = sz) \<and>
        (\<forall>b \<in> set new. buf_cur (si_sbuf s) \<le> b)"
      using new assms(2,4-9) hb by (intro exI [of _ "b # new"]) (auto simp: add.assoc)
    show "\<forall>c. c < buf_cur (si_sbuf s) \<longrightarrow> h_sb s' c = h_sb s c"
      using keep assms(8-10) by auto
  qed (use rest assms in auto)
qed

lemma preview_done_self:
  "nodes_ok t \<Longrightarrow> err = 0 \<and> offs = sz \<or> err = - 1 \<Longrightarrow> preview_done rf sz offs cnt a t err cnt t"
  by (auto simp: preview_done_def)

text \<open>The state after the sibuf of one round has been inserted.\<close>

definition round_state :: "world \<Rightarrow> addr \<Rightarrow> string \<Rightarrow> nat \<Rightarrow> nat \<Rightarrow> addr \<Rightarrow> src \<Rightarrow> src" where
  "round_state W rf path offs a b s =
     sibuf_insert b (upd_sb b (preview_sibuf W rf (wd_fc W path offs) offs a) s)"

lemma round_state:
  assumes "env_ok E" "nodes_ok s" "len_ok (csize E SzSibuf)" "sibuf_new E s = Some (b, s1)"
    and "t = round_state W rf path offs a b s1"
  shows "nodes_ok t" "si_sibuf_head t = si_sibuf_head s @ [b]"
    "h_sb t b = preview_sibuf W rf (wd_fc W path offs) offs a sibuf_zero"
    "\<And>c. c \<noteq> b \<Longrightarrow> h_sb t c = h_sb s c" "h_rf t = h_rf s" "si_resfile_head t = si_resfile_head s"
    "b = buf_cur (si_sbuf s)" "b < buf_cur (si_sbuf t)"
proof -
  obtain s0 where g: "si_buf_get E (csize E SzSibuf) s = Some (b, s0)"
    and s1: "s1 = upd_sb b (\<lambda>_. sibuf_zero) s0"
    using assms(4) by (auto simp: sibuf_new_def bind_splits)
  have inv: "src_buf_inv (si_sbuf s)" using assms(2) by (simp add: nodes_ok_def)
  note sp = si_buf_get_spec [OF assms(1) inv assms(3) g]
  from sp(4) obtain bf where s0: "s0 = s\<lparr>si_sbuf := bf\<rparr>" by blast
  have lt: "b < buf_cur bf" using sp(3) env_ok_size [OF assms(1), of SzSibuf] by (simp add: s0)
  have t: "si_sbuf t = bf" "si_sibuf_head t = si_sibuf_head s @ [b]"
    by (simp_all add: assms(5) round_state_def sibuf_insert_def op_defs s1 s0 upd_sb_def)
  show "si_sibuf_head t = si_sibuf_head s @ [b]" by (rule t)
  show "h_sb t b = preview_sibuf W rf (wd_fc W path offs) offs a sibuf_zero"
    "\<And>c. c \<noteq> b \<Longrightarrow> h_sb t c = h_sb s c" "h_rf t = h_rf s" "si_resfile_head t = si_resfile_head s"
    by (simp_all add: assms(5) round_state_def sibuf_insert_def op_defs s1 s0 upd_sb_def)
  show "b = buf_cur (si_sbuf s)" "b < buf_cur (si_sbuf t)" using sp(1) lt by (simp_all add: t)
  then show "nodes_ok t" using assms(2) sp(1,2) s0 by (auto simp: nodes_ok_def t)
qed

text \<open>The loop, by the induction on its own computation.\<close>

lemma preview_loop_done:
  assumes "env_ok E" "len_ok (csize E SzSibuf)" "nodes_ok s"
    and "preview_loop E rf path sz offs cnt a W s = Some ((err, cnt'), W', s')"
  shows "preview_done rf sz offs cnt a s err cnt' s'"
proof -
  let ?P = "\<lambda>E rf path sz offs cnt a W s y. env_ok E \<longrightarrow> len_ok (csize E SzSibuf) \<longrightarrow> nodes_ok s \<longrightarrow>
    preview_done rf sz offs cnt a s (fst (fst y)) (snd (fst y)) (snd (snd y))"
  have "?P E rf path sz offs cnt a W s ((err, cnt'), W', s')"
  proof (rule preview_loop.raw_induct [where P = ?P, OF _ assms(4)], intro impI)
    fix loop E rf path sz offs cnt a W s y
    assume IH: "\<And>E rf path sz offs cnt a W s y. loop E rf path sz offs cnt a W s = Some y \<Longrightarrow>
        ?P E rf path sz offs cnt a W s y"
      and run: "(if \<not> wd_window W path offs then Some ((- 1, cnt), W, s)
        else let fc = wd_fc W path offs in
        Option.bind (sibuf_new E s) (\<lambda>(b, s).
          let s = upd_sb b (preview_sibuf W rf fc offs a) s;
              os = take (fc_objs_cnt fc) (wd_objs W path offs);
              W = wd_set_objs path offs
                (assign_objs (sb_payload (h_sb s b)) None os @
                 drop (fc_objs_cnt fc) (wd_objs W path offs)) W;
              s = sibuf_insert b s;
              next_offs = offs + fc_total_size fc
          in if next_offs = sz then Some ((0, cnt + 1), W, s)
             else if sz < next_offs then Some ((- 1, cnt + 1), W, s)
             else loop E rf path sz next_offs (cnt + 1) (a + fc_total_size fc) W s)) = Some y"
      and E: "env_ok E" and len: "len_ok (csize E SzSibuf)" and ok: "nodes_ok s"
    show "preview_done rf sz offs cnt a s (fst (fst y)) (snd (fst y)) (snd (snd y))"
    proof (cases "wd_window W path offs")
      case False
      then have "y = ((- 1, cnt), W, s)" using run by simp
      then show ?thesis using preview_done_self [OF ok] by simp
    next
      case True
      then obtain b s1 where new: "sibuf_new E s = Some (b, s1)"
        using run by (cases "sibuf_new E s") (auto simp: Let_def)
      define t where "t = round_state W rf path offs a b s1"
      define n where "n = fc_total_size (wd_fc W path offs)"
      note r = round_state [OF E ok len new t_def]
      have "preview_done rf sz (offs + n) (Suc cnt) (a + n) t (fst (fst y)) (snd (fst y)) (snd (snd y))"
        using run True new preview_done_self [OF r(1)] IH E len r(1)
        by (auto simp: Let_def t_def [symmetric] n_def [symmetric] round_state_def [symmetric]
            split: if_splits)
      then show ?thesis
        by (rule preview_done_step [OF _ r(2,3)])
          (use r in \<open>auto simp: preview_sibuf_def n_def\<close>)
    qed
  qed
  then show ?thesis using assms(1-3) by simp
qed

subsection \<open>The properties of a preview\<close>

lemma nodes_ok_upd_rf [simp]: "nodes_ok (upd_rf r f s) = nodes_ok s"
  by (simp add: nodes_ok_def)

lemma addr_base_loop_shift:
  "addr_base_loop E s rs base = base + sum_list (map (\<lambda>r. clib_round_up E (rf_filelen (h_rf s r)) PAGE_SIZE) rs)"
  by (induction rs arbitrary: base) auto

lemma addr_base_sum:
  "addr_base E s = RESFILE_BUF_START +
     sum_list (map (\<lambda>r. clib_round_up E (rf_filelen (h_rf s r)) PAGE_SIZE) (si_resfile_head s))"
  by (simp add: addr_base_def addr_base_loop_shift)

lemma addr_base_cong:
  assumes "si_resfile_head t = si_resfile_head s"
    and "\<And>r. r \<in> set (si_resfile_head s) \<Longrightarrow> rf_filelen (h_rf t r) = rf_filelen (h_rf s r)"
  shows "addr_base E t = addr_base E s"
proof -
  have "map (\<lambda>r. clib_round_up E (rf_filelen (h_rf t r)) PAGE_SIZE) (si_resfile_head s) =
      map (\<lambda>r. clib_round_up E (rf_filelen (h_rf s r)) PAGE_SIZE) (si_resfile_head s)"
    using assms(2) by simp
  then show ?thesis by (simp only: addr_base_sum assms(1))
qed

text \<open>Whatever \<open>resfile_preview\<close> returns, these are its effects.\<close>

lemma preview_effects:
  assumes "env_ok E" "len_ok (csize E SzSibuf)" "nodes_ok s" "rf \<notin> set (si_resfile_head s)"
    and "resfile_preview E rf W s = Some (r, W', s')"
  shows "\<exists>new. si_sibuf_head s' = si_sibuf_head s @ new \<and> laid_out s' rf new (addr_base E s) 0 \<and>
      (r = 0 \<longrightarrow> len_sum s' new = rf_filelen (h_rf s' rf) \<and> length new = rf_total_files (h_rf s' rf) \<and>
        wd_size W (rf_path (h_rf s rf)) = Some (rf_filelen (h_rf s' rf))) \<and>
      (\<forall>b \<in> set new. buf_cur (si_sbuf s) \<le> b)"
    and "nodes_ok s'" "\<And>b. b < buf_cur (si_sbuf s) \<Longrightarrow> h_sb s' b = h_sb s b"
    and "\<And>q. q \<noteq> rf \<Longrightarrow> h_rf s' q = h_rf s q" "si_resfile_head s' = si_resfile_head s"
    and "r = 0 \<or> r = - 1"
proof -
  let ?path = "rf_path (h_rf s rf)"
  let ?E = "\<exists>new. si_sibuf_head s' = si_sibuf_head s @ new \<and> laid_out s' rf new (addr_base E s) 0 \<and>
      (r = 0 \<longrightarrow> len_sum s' new = rf_filelen (h_rf s' rf) \<and> length new = rf_total_files (h_rf s' rf) \<and>
        wd_size W ?path = Some (rf_filelen (h_rf s' rf))) \<and>
      (\<forall>b \<in> set new. buf_cur (si_sbuf s) \<le> b)"
  let ?R = "?E \<and> nodes_ok s' \<and> (\<forall>b. b < buf_cur (si_sbuf s) \<longrightarrow> h_sb s' b = h_sb s b) \<and>
    (\<forall>q. q \<noteq> rf \<longrightarrow> h_rf s' q = h_rf s q) \<and> si_resfile_head s' = si_resfile_head s \<and> (r = 0 \<or> r = - 1)"
  obtain op where op: "op = None \<or> (\<exists>f. op = Some (upd_rf rf f s))"
    and run: "(case op of None \<Rightarrow> Some (- 1, W, s)
         | Some s \<Rightarrow> (case wd_size W ?path of None \<Rightarrow> Some (- 1, W, s)
              | Some sz \<Rightarrow> do {
                  ((err, cnt), W, s) \<leftarrow> preview_loop E rf ?path sz 0 0 (addr_base E s) W s;
                  (if err = - 1 then Some (- 1, W, s)
                   else Some (0, W, upd_rf rf (\<lambda>r. r\<lparr>rf_filelen := sz, rf_total_files := cnt\<rparr>) s))
                })) = Some (r, W', s')"
  proof -
    have id: "s = upd_rf rf (\<lambda>_. h_rf s rf) s" by (simp add: upd_rf_def)
    let ?op = "if rf_fd (h_rf s rf) = - 1
            then (case wd_open W ?path of None \<Rightarrow> None | Some fd \<Rightarrow> Some (upd_rf rf (\<lambda>r. r\<lparr>rf_fd := fd\<rparr>) s))
            else Some s"
    have "?op = None \<or> (\<exists>f. ?op = Some (upd_rf rf f s))" using id by (auto split: option.splits)
    then show thesis by (rule that) (use assms(5) in \<open>simp add: resfile_preview_def Let_def\<close>)
  qed
  have none: ?R if "r = - 1" "s' = s"
    using that assms(3) by (intro conjI exI [of _ "[]"]) auto
  have ?R
  proof (cases op)
    case None
    then show ?thesis using run none by simp
  next
    case (Some t)
    then obtain f where t: "t = upd_rf rf f s" using op by auto
    have base: "addr_base E t = addr_base E s"
      by (rule addr_base_cong) (use assms(4) in \<open>auto simp: t\<close>)
    show ?thesis
    proof (cases "wd_size W ?path")
      case None
      then have "r = - 1 \<and> s' = t" using run Some by simp
      then show ?thesis using assms(3) by (intro conjI exI [of _ "[]"]) (auto simp: t)
    next
      case (Some sz)
      then obtain err cnt W1 s1 where
        loop: "preview_loop E rf ?path sz 0 0 (addr_base E s) W t = Some ((err, cnt), W1, s1)"
        and fin: "(if err = - 1 then (- 1, W1, s1)
          else (0, W1, upd_rf rf (\<lambda>r. r\<lparr>rf_filelen := sz, rf_total_files := cnt\<rparr>) s1)) = (r, W', s')"
        using run \<open>op = Some t\<close> by (auto simp: bind_Some_iff base split: if_splits)
      have "nodes_ok t" using assms(3) by (simp add: t)
      note d = preview_loop_done [OF assms(1,2) this loop]
      have keep: "\<And>b. h_sb s' b = h_sb s1 b" "si_sibuf_head s' = si_sibuf_head s1"
        "nodes_ok s' = nodes_ok s1" "si_resfile_head s' = si_resfile_head s1"
        "\<And>q. q \<noteq> rf \<Longrightarrow> h_rf s' q = h_rf s1 q" "r = 0 \<or> r = - 1"
        using fin by (auto split: if_splits)
      have fields: "err = 0 \<and> rf_filelen (h_rf s' rf) = sz \<and> rf_total_files (h_rf s' rf) = cnt" if "r = 0"
        using fin that d by (auto simp: preview_done_def split: if_splits)
      obtain new where new: "si_sibuf_head s1 = si_sibuf_head t @ new" "cnt = length new"
        "laid_out s1 rf new (addr_base E s) 0" "err = 0 \<longrightarrow> len_sum s1 new = sz"
        "\<forall>b \<in> set new. buf_cur (si_sbuf t) \<le> b"
        using d by (auto simp: preview_done_def)
      have "laid_out s' rf new (addr_base E s) 0" using new(3) laid_out_cong keep(1) by metis
      moreover have "len_sum s' new = len_sum s1 new" by (rule len_sum_cong) (rule keep(1))
      ultimately have ?E using new fields Some
        by (intro exI [of _ new]) (auto simp: keep(2) t)
      then show ?thesis using d keep by (auto simp: preview_done_def t)
    qed
  qed
  then show ?E "nodes_ok s'" "\<And>b. b < buf_cur (si_sbuf s) \<Longrightarrow> h_sb s' b = h_sb s b"
    "\<And>q. q \<noteq> rf \<Longrightarrow> h_rf s' q = h_rf s q" "si_resfile_head s' = si_resfile_head s" "r = 0 \<or> r = - 1"
    by blast+
qed

end
