(* ===== verification/Resfile_Layout.thy ===== *)
theory Resfile_Layout
  imports Resfile_Preview Resfile_Hold
begin

text \<open>
  The properties of \<open>resfile_preview\<close>: the memory of the project stays free of overlaps while
  resfiles are previewed and added, a failed preview spoils the next one, the addresses of
  the objects, and the agreement of the readers \<open>resfile_get_offset\<close> and \<open>resfile_get_fc\<close>.
\<close>

subsection \<open>Adding a resfile\<close>

lemma addr_base_add:
  assumes "rf \<notin> set (si_resfile_head s)"
  shows "addr_base E (resfile_add rf s) = addr_base E s + clib_round_up E (rf_filelen (h_rf s rf)) PAGE_SIZE"
  by (simp add: addr_base_sum resfile_add_def op_defs)

lemma resfile_add_frame [simp]:
  "h_sb (resfile_add rf s) = h_sb s" "si_sibuf_head (resfile_add rf s) = si_sibuf_head s"
  "si_sbuf (resfile_add rf s) = si_sbuf s" "h_rf (resfile_add rf s) = h_rf s"
  by (simp_all add: resfile_add_def)

lemma addr_base_frame:
  assumes "rf \<notin> set (si_resfile_head s)" "si_resfile_head t = si_resfile_head s"
    and "\<And>q. q \<noteq> rf \<Longrightarrow> h_rf t q = h_rf s q"
  shows "addr_base E t = addr_base E s"
proof (rule addr_base_cong [OF assms(2)])
  fix r
  assume "r \<in> set (si_resfile_head s)"
  then have "r \<noteq> rf" using assms(1) by auto
  then show "rf_filelen (h_rf t r) = rf_filelen (h_rf s r)" using assms(3) by simp
qed

lemma find_sibuf_unique:
  assumes "b \<in> set (si_sibuf_head s)" "in_sibuf (h_sb s b) a"
    and "\<And>c. c \<in> set (si_sibuf_head s) \<Longrightarrow> c \<noteq> b \<Longrightarrow> apart (h_sb s c) (h_sb s b)"
  shows "find_target_sibuf s a = b"
proof -
  obtain c where c: "slist_find (\<lambda>b. in_sibuf (h_sb s b) a) (si_sibuf_head s) = Some c"
    using slist_find_ex [OF assms(1), of "\<lambda>b. in_sibuf (h_sb s b) a", OF assms(2)] by blast
  have "c \<in> set (si_sibuf_head s) \<and> in_sibuf (h_sb s c) a" by (rule slist_find_Some [OF c])
  then have "c = b" using assms(2,3) by (force simp: apart_def in_sibuf_def)
  then show ?thesis using c by (simp add: find_target_sibuf_def)
qed

text \<open>
  C16. Previewing a resfile that is not listed, and adding it, keeps the memory of the project
  in order: the new sibufs follow each other from the end of the area of the listed resfiles,
  they cover the file exactly and their number is counted, and afterwards no two sibufs of
  the project overlap, so \<open>find_target_sibuf\<close> of any address of a sibuf gives that sibuf.
\<close>

theorem preview_layout:
  assumes "env_ok E" "len_ok (csize E SzSibuf)" "layout_inv E s" "rf \<notin> set (si_resfile_head s)"
    and "resfile_preview E rf W s = Some (0, W', s')"
  shows "layout_inv E (resfile_add rf s') \<and>
    (\<exists>new. si_sibuf_head s' = si_sibuf_head s @ new \<and> laid_out s' rf new (addr_base E s) 0 \<and>
       len_sum s' new = rf_filelen (h_rf s' rf) \<and> length new = rf_total_files (h_rf s' rf)) \<and>
    (\<forall>b a. b \<in> set (si_sibuf_head s') \<and> in_sibuf (h_sb s' b) a \<longrightarrow> find_target_sibuf s' a = b)"
proof -
  have ok: "nodes_ok s" using assms(3) by (simp add: layout_inv_def)
  note ef = preview_effects [OF assms(1,2) ok assms(4,5)]
  from ef(1) obtain new where new: "si_sibuf_head s' = si_sibuf_head s @ new"
    "laid_out s' rf new (addr_base E s) 0" "len_sum s' new = rf_filelen (h_rf s' rf)"
    "length new = rf_total_files (h_rf s' rf)" "\<forall>b \<in> set new. buf_cur (si_sbuf s) \<le> b" by auto
  have old: "h_sb s' b = h_sb s b" if "b \<in> set (si_sibuf_head s)" for b
    using ef(3) ok that by (simp add: nodes_ok_def)
  have base: "addr_base E s' = addr_base E s"
    by (rule addr_base_frame [OF assms(4) ef(5,4)])
  define e where "e = addr_base E s"
  have lim: "RESFILE_BUF_START \<le> e" by (simp add: e_def addr_base_sum)
  have up: "len_sum s' new \<le> clib_round_up E (rf_filelen (h_rf s' rf)) PAGE_SIZE"
    using new(3) env_ok_up(2) [OF assms(1), of PAGE_SIZE] by (simp add: PAGE_SIZE_def)
  have base': "addr_base E (resfile_add rf s') = e + clib_round_up E (rf_filelen (h_rf s' rf)) PAGE_SIZE"
    using addr_base_add [of rf s' E] assms(4) ef(5) base by (simp add: e_def)
  have oldb: "RESFILE_BUF_START \<le> sb_load_addr (h_sb s' b) \<and>
      sb_load_addr (h_sb s' b) + sb_total_len (h_sb s' b) \<le> e"
    if "b \<in> set (si_sibuf_head s)" for b
    using assms(3) that old by (simp add: layout_inv_def e_def)
  have newb: "e \<le> sb_load_addr (h_sb s' b) \<and>
      sb_load_addr (h_sb s' b) + sb_total_len (h_sb s' b) \<le> e + len_sum s' new"
    if "b \<in> set new" for b
    using laid_out_bounds [OF new(2) that] by (simp add: e_def)
  have dist: "distinct new" using ef(2) new(1) by (simp add: nodes_ok_def)
  have ap: "apart (h_sb s' b) (h_sb s' c)"
    if "b \<in> set (si_sibuf_head s')" "c \<in> set (si_sibuf_head s')" "b \<noteq> c" for b c
  proof -
    have "b \<in> set (si_sibuf_head s) \<or> b \<in> set new" "c \<in> set (si_sibuf_head s) \<or> c \<in> set new"
      using that new(1) by auto
    moreover have "apart (h_sb s' b) (h_sb s' c)"
      if "b \<in> set (si_sibuf_head s)" "c \<in> set (si_sibuf_head s)" "b \<noteq> c" for b c
      using assms(3) old that by (simp add: layout_inv_def)
    moreover have "apart (h_sb s' b) (h_sb s' c) \<and> apart (h_sb s' c) (h_sb s' b)"
      if "b \<in> set (si_sibuf_head s)" "c \<in> set new" for b c
      using oldb [OF that(1)] newb [OF that(2)] by (simp add: apart_def)
    ultimately show ?thesis using laid_out_apart [OF new(2) dist] that(3) by blast
  qed
  have range: "RESFILE_BUF_START \<le> sb_load_addr (h_sb s' b) \<and>
      sb_load_addr (h_sb s' b) + sb_total_len (h_sb s' b) \<le> addr_base E (resfile_add rf s')"
    if "b \<in> set (si_sibuf_head s')" for b
    using that oldb [of b] newb [of b] up lim base' new(1) by auto
  have "layout_inv E (resfile_add rf s')"
    using ef(2) ap range by (simp add: layout_inv_def nodes_ok_def)
  moreover have "find_target_sibuf s' a = b"
    if "b \<in> set (si_sibuf_head s')" "in_sibuf (h_sb s' b) a" for b a
    by (rule find_sibuf_unique [OF that]) (use ap that in blast)
  ultimately show ?thesis using new by blast
qed

text \<open>
  C28. A preview that fails after it found sibufs leaves them in the list while the resfile is
  not added, so the area does not grow: when the next resfile is previewed, its first sibuf
  gets the address of the first left-over one.
\<close>

theorem preview_failure_overlaps:
  assumes "env_ok E" "len_ok (csize E SzSibuf)" "layout_inv E s"
    and "r1 \<notin> set (si_resfile_head s)" "r2 \<notin> set (si_resfile_head s)"
    and "resfile_preview E r1 W s = Some (- 1, W1, s1)" "si_sibuf_head s1 = si_sibuf_head s @ b # bs"
    and "resfile_preview E r2 W1 s1 = Some (0, W2, s2)"
    and "si_sibuf_head s2 = si_sibuf_head s1 @ c # cs"
  shows "b \<noteq> c \<and> sb_rf (h_sb s2 b) = r1 \<and> sb_rf (h_sb s2 c) = r2 \<and>
    sb_load_addr (h_sb s2 b) = addr_base E s \<and> sb_load_addr (h_sb s2 c) = addr_base E s"
proof -
  have ok: "nodes_ok s" using assms(3) by (simp add: layout_inv_def)
  note one = preview_effects [OF assms(1,2) ok assms(4,6)]
  have lo1: "laid_out s1 r1 (b # bs) (addr_base E s) 0" using one(1) assms(7) by auto
  have "r2 \<notin> set (si_resfile_head s1)" using assms(5) one(5) by simp
  note two = preview_effects [OF assms(1,2) one(2) this assms(8)]
  have base: "addr_base E s1 = addr_base E s"
    by (rule addr_base_frame [OF assms(4) one(5,4)])
  have lo2: "laid_out s2 r2 (c # cs) (addr_base E s) 0" using two(1) assms(9) base by auto
  have "b < buf_cur (si_sbuf s1)" using one(2) assms(7) by (simp add: nodes_ok_def)
  then have "h_sb s2 b = h_sb s1 b" by (rule two(3))
  moreover have "distinct (si_sibuf_head s2)" using two(2) by (simp add: nodes_ok_def)
  ultimately show ?thesis using lo1 lo2 assms(7,9) by auto
qed

subsection \<open>The objects of a sibuf\<close>

definition obj_size_sum :: "file_obj list \<Rightarrow> nat" where
  "obj_size_sum os = sum_list (map fo_size os)"

lemma assign_objs_length [simp]: "length (assign_objs p prev os) = length os"
  by (induction os arbitrary: prev) (auto simp: Let_def)

lemma assign_objs_fresh:
  assumes "\<forall>o' \<in> set os. fo_real_addr o' = 0"
    and "start = (case prev of None \<Rightarrow> 0 | Some q \<Rightarrow> fo_offs q + fo_size q)"
    and "start + obj_size_sum os < 2 ^ 32" "p + start + obj_size_sum os < 2 ^ 48" "i < length os"
  shows "fo_offs (assign_objs p prev os ! i) = start + obj_size_sum (take i os) \<and>
    fo_real_addr (assign_objs p prev os ! i) = p + start + obj_size_sum (take i os) \<and>
    fo_size (assign_objs p prev os ! i) = fo_size (os ! i)"
  using assms
proof (induction os arbitrary: prev start i)
  case Nil
  then show ?case by simp
next
  case (Cons ob os)
  let ?ob = "ob\<lparr>fo_offs := start, fo_real_addr := p + start\<rparr>"
  have st: "(case prev of None \<Rightarrow> 0 | Some q \<Rightarrow> wrap32 (fo_offs q + fo_size q)) = start"
    using Cons.prems(2,3) by (cases prev) (auto simp: obj_size_sum_def)
  have mod: "(p + start) mod 2 ^ 48 = p + start"
    by (rule mod_less) (use Cons.prems(4) in \<open>simp add: obj_size_sum_def\<close>)
  have eq: "assign_objs p prev (ob # os) = ?ob # assign_objs p (Some ?ob) os"
    using Cons.prems(1) unfolding assign_objs.simps st Let_def mod by simp
  show ?case
  proof (cases i)
    case 0
    then show ?thesis unfolding eq by (simp add: obj_size_sum_def)
  next
    case (Suc j)
    have "fo_offs (assign_objs p (Some ?ob) os ! j) = start + fo_size ob + obj_size_sum (take j os) \<and>
        fo_real_addr (assign_objs p (Some ?ob) os ! j) = p + (start + fo_size ob) + obj_size_sum (take j os) \<and>
        fo_size (assign_objs p (Some ?ob) os ! j) = fo_size (os ! j)"
      by (rule Cons.IH) (use Cons.prems Suc in \<open>auto simp: obj_size_sum_def\<close>)
    then show ?thesis unfolding eq Suc by (simp add: obj_size_sum_def)
  qed
qed

lemma assign_objs_keep:
  "\<forall>o' \<in> set os. fo_real_addr o' \<noteq> 0 \<Longrightarrow> assign_objs p prev os = os"
  by (induction os arbitrary: prev) auto

text \<open>
  The objects of a sibuf that has never been previewed get addresses that follow each
  other from the payload, each as far as the sizes before it, and a second preview of the
  file, which sees those addresses in the mapped file, changes nothing.
\<close>

theorem preview_objs_consecutive:
  assumes "\<forall>o' \<in> set os. fo_real_addr o' = 0" "0 < p"
    and "obj_size_sum os < 2 ^ 32" "p + obj_size_sum os < 2 ^ 48"
  shows "(\<forall>i < length os. fo_real_addr (assign_objs p None os ! i) = p + obj_size_sum (take i os) \<and>
      fo_offs (assign_objs p None os ! i) = obj_size_sum (take i os)) \<and>
    assign_objs q None (assign_objs p None os) = assign_objs p None os"
proof -
  have a: "fo_real_addr (assign_objs p None os ! i) = p + obj_size_sum (take i os) \<and>
      fo_offs (assign_objs p None os ! i) = obj_size_sum (take i os)" if "i < length os" for i
    using assign_objs_fresh [OF assms(1), of 0 None p i] assms(3,4) that by simp
  then have "\<forall>o' \<in> set (assign_objs p None os). fo_real_addr o' \<noteq> 0"
    using assms(2) by (auto simp: in_set_conv_nth)
  then show ?thesis using a assign_objs_keep by blast
qed

subsection \<open>Reading records\<close>

lemma offset_loop_snoc:
  assumes "offset_loop f n offs = (0, pos)" "rd_record f pos = RdRec k"
  shows "offset_loop f (Suc n) offs = (0, pos + k)"
  using assms
proof (induction n arbitrary: offs)
  case 0
  then show ?case by simp
next
  case (Suc n)
  show ?case
  proof (cases "rd_record f offs")
    case (RdRec m)
    then have "offset_loop f (Suc n) (offs + m) = (0, pos + k)" using Suc by simp
    then show ?thesis using RdRec by simp
  qed (use Suc.prems in auto)
qed

lemma get_fc_loop_offset:
  assumes "get_fc_loop same f target pos idx = (Some p, n)" "offset_loop f idx 0 = (0, pos)"
  shows "offset_loop f n 0 = (0, p) \<and> same (rd_path f p) target"
  using assms
proof (induction same f target pos idx arbitrary: p n rule: get_fc_loop.induct)
  case (1 same f target pos idx)
  show ?case
  proof (cases "rd_record f pos")
    case (RdRec k)
    show ?thesis
    proof (cases "same (rd_path f pos) target")
      case True
      then show ?thesis using 1 RdRec by (simp add: get_fc_loop.simps [of same f target pos idx])
    next
      case False
      have run: "get_fc_loop same f target (pos + k) (idx + 1) = (Some p, n)"
        using 1(2) RdRec False by (simp add: get_fc_loop.simps [of same f target pos idx])
      have "offset_loop f (idx + 1) 0 = (0, pos + k)"
        using offset_loop_snoc [OF 1(3) RdRec] by simp
      from 1(1) [OF RdRec False run this] show ?thesis .
    qed
  qed (use 1(2) in \<open>simp_all add: get_fc_loop.simps [of same f target pos idx]\<close>)
qed

text \<open>
  The two readers of a resfile agree: when \<open>resfile_get_fc\<close> finds the file at the offset
  \<open>pos\<close> as the record number \<open>n\<close>, \<open>resfile_get_offset\<close> of \<open>n\<close> records is \<open>pos\<close>; and the search
  always ends.
\<close>

theorem readers_agree:
  "resfile_get_fc same fs path target = (Some pos, n) \<longrightarrow>
     resfile_get_offset fs path n = (0, pos) \<and> (\<exists>f. fs path = Some f \<and> same (rd_path f pos) target)"
proof
  assume run: "resfile_get_fc same fs path target = (Some pos, n)"
  then obtain f where f: "fs path = Some f" "get_fc_loop same f target 0 0 = (Some pos, n)"
    by (auto simp: resfile_get_fc_def split: option.splits)
  have z: "offset_loop f 0 0 = (0, 0)" by simp
  from get_fc_loop_offset [OF f(2) z]
  show "resfile_get_offset fs path n = (0, pos) \<and> (\<exists>f. fs path = Some f \<and> same (rd_path f pos) target)"
    using f(1) by (cases n) (auto simp: resfile_get_offset_def)
qed

subsection \<open>Concrete runs\<close>

text \<open>
  Two resfiles that are not listed yet, at the nodes 8 and 9. Every record has 4096 bytes and
  two objects; the file of 9 holds two records, the file of 8 one record and a half.
\<close>

definition pv_obj :: "nat \<Rightarrow> file_obj" where
  "pv_obj n = \<lparr>fo_fake_addr = 100, fo_real_addr = 0, fo_size = n, fo_offs = 0,
     fo_gcc_global_varidx = 0, fo_is_function = False, fo_is_global_var = False, fo_is_type = False,
     fo_is_adjusted = False, fo_is_dropped = False, fo_is_replaced = False\<rparr>"

definition pv_world :: world where
  "pv_world = (rw_world 4)\<lparr>wd_size := (\<lambda>p. if p = ''a'' then Some 6000 else Some 8192),
     wd_objs := (\<lambda>_ _. [pv_obj 16, pv_obj 24]),
     wd_fc := (\<lambda>p o'. (wd_fc (rw_world 4) p o')\<lparr>fc_objs_cnt := 2, fc_objs_offs := 4000\<rparr>)\<rparr>"

definition pv_state :: src where
  "pv_state = src0\<lparr>si_sbuf := src_buf0\<lparr>buf_cur := 4294967400\<rparr>,
     h_rf := (\<lambda>r. resfile_zero\<lparr>rf_path := if r = 8 then ''a'' else ''b'', rf_fd := - 1\<rparr>)\<rparr>"

lemma pv_inv: "layout_inv env0 pv_state"
  by (simp add: layout_inv_def nodes_ok_def pv_state_def src0_def src_buf_inv_def src_buf0_def
      src_buf_consts)

lemma pv_heads: "si_resfile_head pv_state = []" "si_sibuf_head pv_state = []"
  "len_ok (csize env0 SzSibuf)"
  by (simp_all add: pv_state_def src0_def len_ok_def src_buf_consts)

text \<open>What the runs below depend on, of a world and of a state with the cursor \<open>c\<close>.\<close>

definition pv_like :: "world \<Rightarrow> bool" where
  "pv_like W \<longleftrightarrow> (\<forall>p o'. wd_window W p o' \<and> fc_total_size (wd_fc W p o') = 4096) \<and>
     wd_size W = wd_size pv_world \<and> (\<forall>p. wd_open W p = Some 3)"

definition pv_cur :: "src \<Rightarrow> addr \<Rightarrow> bool" where
  "pv_cur s c \<longleftrightarrow> buf_cur (si_sbuf s) = c \<and> buf_total_size (si_sbuf s) = 268435456 \<and>
     c < 4294980000 \<and> 8 dvd c \<and> rf_path (h_rf s 8) = ''a'' \<and> rf_path (h_rf s 9) = ''b''"

lemma pv_new:
  assumes "pv_cur s c"
  shows "\<exists>t. sibuf_new env0 s = Some (c, t) \<and>
    (c + 64 < 4294980000 \<longrightarrow> pv_cur (round_state W rf path offs a c t) (c + 64)) \<and>
    si_sibuf_head (round_state W rf path offs a c t) = si_sibuf_head s @ [c]"
proof -
  have "4294967296 \<le> 4294967296 + buf_total_size (si_sbuf s)" by simp
  have r: "(c + 71) div 8 * 8 = c + 64" using assms by (auto simp: pv_cur_def elim!: dvdE)
  show ?thesis using assms r
    by (auto simp: pv_cur_def sibuf_new_def si_buf_get_def src_buf_get_def src_buf_consts Let_def
      round_state_def sibuf_insert_def op_defs upd_sb_def wrap64_def)
qed

lemma pv_round:
  assumes "pv_like W" "pv_cur s c" "c + 64 < 4294980000"
  shows "\<exists>W' t. pv_like W' \<and> pv_cur t (c + 64) \<and> si_sibuf_head t = si_sibuf_head s @ [c] \<and>
    preview_loop env0 rf path sz offs cnt a W s =
      (if offs + 4096 = sz then Some ((0, cnt + 1), W', t)
       else if sz < offs + 4096 then Some ((- 1, cnt + 1), W', t)
       else preview_loop env0 rf path sz (offs + 4096) (cnt + 1) (a + 4096) W' t)"
proof -
  obtain t where t: "sibuf_new env0 s = Some (c, t)"
    "pv_cur (round_state W rf path offs a c t) (c + 64)"
    "si_sibuf_head (round_state W rf path offs a c t) = si_sibuf_head s @ [c]"
    using pv_new [OF assms(2), of W rf path offs a] assms(3) by auto
  let ?W = "\<lambda>os. wd_set_objs path offs os W"
  have like: "pv_like (?W os)" for os using assms(1) by (auto simp: pv_like_def wd_set_objs_def)
  have "\<exists>os. preview_loop env0 rf path sz offs cnt a W s =
      (if offs + 4096 = sz then Some ((0, cnt + 1), ?W os, round_state W rf path offs a c t)
       else if sz < offs + 4096 then Some ((- 1, cnt + 1), ?W os, round_state W rf path offs a c t)
       else preview_loop env0 rf path sz (offs + 4096) (cnt + 1) (a + 4096) (?W os)
         (round_state W rf path offs a c t))"
    using assms(1) by (subst preview_loop.simps)
      (auto simp: pv_like_def t(1) Let_def round_state_def [symmetric])
  then obtain os where "preview_loop env0 rf path sz offs cnt a W s =
      (if offs + 4096 = sz then Some ((0, cnt + 1), ?W os, round_state W rf path offs a c t)
       else if sz < offs + 4096 then Some ((- 1, cnt + 1), ?W os, round_state W rf path offs a c t)
       else preview_loop env0 rf path sz (offs + 4096) (cnt + 1) (a + 4096) (?W os)
         (round_state W rf path offs a c t))" by blast
  then show ?thesis using t(2,3) like [of os]
    by (intro exI [of _ "?W os"] exI [of _ "round_state W rf path offs a c t"] conjI) assumption+
qed

lemma pv_two:
  assumes "pv_like W" "pv_cur s c" "c + 128 < 4294980000" "rf = 8 \<or> rf = 9"
  shows "\<exists>W' s'. pv_like W' \<and> pv_cur s' (c + 128) \<and> si_sibuf_head s' = si_sibuf_head s @ [c, c + 64] \<and>
    resfile_preview env0 rf W s = Some (if rf = 8 then - 1 else 0, W', s')"
proof -
  let ?path = "rf_path (h_rf s rf)"
  let ?sz = "if rf = 8 then 6000 else 8192 :: nat"
  define s0 where "s0 = (if rf_fd (h_rf s rf) = - 1 then upd_rf rf (\<lambda>r. r\<lparr>rf_fd := 3\<rparr>) s else s)"
  have s0: "pv_cur s0 c" "si_sibuf_head s0 = si_sibuf_head s"
    using assms(2) by (auto simp: s0_def pv_cur_def)
  have sz: "wd_size W ?path = Some ?sz"
    using assms(1,2,4) by (auto simp: pv_like_def pv_cur_def pv_world_def)
  have c: "c + 64 < 4294980000" "c + 64 + 64 < 4294980000" using assms(3) by simp_all
  obtain W1 t1 where r1: "pv_like W1" "pv_cur t1 (c + 64)" "si_sibuf_head t1 = si_sibuf_head s0 @ [c]"
    "preview_loop env0 rf ?path ?sz 0 0 (addr_base env0 s0) W s0 =
      preview_loop env0 rf ?path ?sz 4096 1 (addr_base env0 s0 + 4096) W1 t1"
    using pv_round [OF assms(1) s0(1) c(1), of rf ?path ?sz 0 0 "addr_base env0 s0"]
    by (auto split: if_splits)
  obtain W2 t2 where r2: "pv_like W2" "pv_cur t2 (c + 128)" "si_sibuf_head t2 = si_sibuf_head t1 @ [c + 64]"
    "preview_loop env0 rf ?path ?sz 4096 1 (addr_base env0 s0 + 4096) W1 t1 =
      Some ((if rf = 8 then - 1 else 0, 2), W2, t2)"
    using pv_round [OF r1(1,2) c(2), of rf ?path ?sz 4096 1 "addr_base env0 s0 + 4096"]
    by (auto simp: add.commute split: if_splits)
  have "resfile_preview env0 rf W s = (case Some s0 of None \<Rightarrow> Some (- 1, W, s)
         | Some s \<Rightarrow> (case wd_size W ?path of None \<Rightarrow> Some (- 1, W, s)
              | Some sz \<Rightarrow> do {
                  ((err, cnt), W, s) \<leftarrow> preview_loop env0 rf ?path sz 0 0 (addr_base env0 s) W s;
                  (if err = - 1 then Some (- 1, W, s)
                   else Some (0, W, upd_rf rf (\<lambda>r. r\<lparr>rf_filelen := sz, rf_total_files := cnt\<rparr>) s))
                }))"
    using assms(1) by (auto simp: resfile_preview_def Let_def s0_def pv_like_def)
  moreover have "pv_cur (upd_rf rf (\<lambda>r. r\<lparr>rf_filelen := n, rf_total_files := m\<rparr>) t2) (c + 128)" for n m
    using r2(2) by (auto simp: pv_cur_def)
  ultimately show ?thesis using r1 r2 s0 sz by (cases "rf = 8") auto
qed

lemma pv_start: "pv_like pv_world" "pv_cur pv_state 4294967400"
  by (simp_all add: pv_like_def pv_cur_def pv_world_def rw_world_def pv_state_def src_buf0_def
      src0_def src_buf_consts)

lemma pv_ok:
  "\<exists>W s. resfile_preview env0 9 pv_world pv_state = Some (0, W, s) \<and>
     si_sibuf_head s = [4294967400, 4294967464]"
  using pv_two [OF pv_start, of 9] by (auto simp: pv_heads)

lemma pv_fail:
  "\<exists>W1 s1. resfile_preview env0 8 pv_world pv_state = Some (- 1, W1, s1) \<and>
     si_sibuf_head s1 = [4294967400, 4294967464] \<and>
     (\<exists>W2 s2. resfile_preview env0 9 W1 s1 = Some (0, W2, s2) \<and>
       si_sibuf_head s2 = [4294967400, 4294967464, 4294967528, 4294967592])"
proof -
  obtain W1 s1 where one: "pv_like W1" "pv_cur s1 4294967528"
    "si_sibuf_head s1 = [4294967400, 4294967464]"
    "resfile_preview env0 8 pv_world pv_state = Some (- 1, W1, s1)"
    using pv_two [OF pv_start, of 8] by (auto simp: pv_heads)
  then show ?thesis using pv_two [OF one(1,2), of 9] by auto
qed

theorem preview_layout_witness:
  "\<exists>W s. resfile_preview env0 9 pv_world pv_state = Some (0, W, s) \<and>
     si_sibuf_head s = [4294967400, 4294967464] \<and>
     laid_out s 9 [4294967400, 4294967464] 68719476736 0 \<and> layout_inv env0 (resfile_add 9 s)"
proof -
  obtain W s where run: "resfile_preview env0 9 pv_world pv_state = Some (0, W, s)"
    and head: "si_sibuf_head s = [4294967400, 4294967464]" using pv_ok by blast
  have "9 \<notin> set (si_resfile_head pv_state)" by (simp add: pv_heads)
  note l = preview_layout [OF env0_ok pv_heads(3) pv_inv this run]
  have base: "addr_base env0 pv_state = 68719476736"
    by (simp add: addr_base_sum pv_heads RESFILE_BUF_START_def)
  have lo: "laid_out s 9 [4294967400, 4294967464] 68719476736 0"
    using l head base by (auto simp: pv_heads)
  have "layout_inv env0 (resfile_add 9 s)" by (rule conjunct1 [OF l])
  with run head lo show ?thesis by blast
qed

theorem preview_failure_overlaps_witness:
  "\<exists>W1 s1 W2 s2. resfile_preview env0 8 pv_world pv_state = Some (- 1, W1, s1) \<and>
     resfile_preview env0 9 W1 s1 = Some (0, W2, s2) \<and>
     sb_load_addr (h_sb s2 4294967400) = sb_load_addr (h_sb s2 4294967528) \<and>
     sb_rf (h_sb s2 4294967400) = 8 \<and> sb_rf (h_sb s2 4294967528) = 9"
proof -
  obtain W1 s1 W2 s2 where run: "resfile_preview env0 8 pv_world pv_state = Some (- 1, W1, s1)"
    "si_sibuf_head s1 = [4294967400, 4294967464]" "resfile_preview env0 9 W1 s1 = Some (0, W2, s2)"
    "si_sibuf_head s2 = [4294967400, 4294967464, 4294967528, 4294967592]" using pv_fail by blast
  have r: "8 \<notin> set (si_resfile_head pv_state)" "9 \<notin> set (si_resfile_head pv_state)"
    "si_sibuf_head s1 = si_sibuf_head pv_state @ 4294967400 # [4294967464]"
    "si_sibuf_head s2 = si_sibuf_head s1 @ 4294967528 # [4294967592]"
    using run by (simp_all add: pv_heads)
  from preview_failure_overlaps [OF env0_ok pv_heads(3) pv_inv r(1,2) run(1) r(3) run(3) r(4)] run
  show ?thesis by auto
qed

theorem preview_objs_consecutive_witness:
  "fo_real_addr (assign_objs 5000 None [pv_obj 16, pv_obj 24, pv_obj 8] ! 2) = 5040"
proof -
  let ?os = "[pv_obj 16, pv_obj 24, pv_obj 8]"
  have "\<forall>o' \<in> set ?os. fo_real_addr o' = 0" "(0 :: nat) < 5000" "obj_size_sum ?os < 2 ^ 32"
    "5000 + obj_size_sum ?os < 2 ^ 48"
    by (simp_all add: pv_obj_def obj_size_sum_def)
  note c = preview_objs_consecutive [OF this, of 0]
  have two: "2 < length ?os" "obj_size_sum (take 2 ?os) = 40"
    by (simp_all add: obj_size_sum_def pv_obj_def)
  from c two(1) have "fo_real_addr (assign_objs 5000 None ?os ! 2) = 5000 + obj_size_sum (take 2 ?os)"
    by blast
  then show ?thesis unfolding two(2) by simp
qed

text \<open>A file with the records of \<open>x.c\<close> (20 bytes) and \<open>y.c\<close> (30 bytes).\<close>

definition rd_ex :: rd_file where
  "rd_ex = \<lparr>rd_size = 50, rd_total = (\<lambda>p. if p = 0 then 20 else 30),
     rd_path = (\<lambda>p. if p = 0 then ''x.c'' else ''y.c''), rd_err = (\<lambda>_. False)\<rparr>"

theorem readers_agree_witness:
  "resfile_get_fc (=) (\<lambda>_. Some rd_ex) ''r'' ''y.c'' = (Some 20, 1) \<and>
   resfile_get_offset (\<lambda>_. Some rd_ex) ''r'' 1 = (0, 20)"
proof -
  have "resfile_get_fc (=) (\<lambda>_. Some rd_ex) ''r'' ''y.c'' = (Some 20, 1)"
    by (simp add: resfile_get_fc_def rd_ex_def rd_record_def)
  then show ?thesis using readers_agree [of "(=)" "\<lambda>_. Some rd_ex" "''r''" "''y.c''" 20 1] by blast
qed

end
