(* ===== verification/Parse.thy ===== *)
theory Parse
  imports Resfile_Hold
begin

text \<open>
  analysis/parse.c and the language part of include/si_analysis.h: the registered language
  modules, parsing one sibuf, and the phase that hands the sibufs of a resfile to worker
  threads. A phase is a step relation: its interleavings are the sequences of its steps.
\<close>

subsection \<open>The language modules\<close>

text \<open>
  \<open>struct lang_ops\<close>; what a module does is a parameter. A parse gets the thread, the sibuf
  and the step; \<open>None\<close> is an abort inside the module.
\<close>

record lang_ops =
  lo_type :: si_type
  lo_parse :: "nat \<Rightarrow> addr \<Rightarrow> nat \<Rightarrow> src \<Rightarrow> (int \<times> src) option"
  lo_get_global :: "(addr \<Rightarrow> string \<Rightarrow> src \<Rightarrow> addr) option"

definition lang_ops_find :: "lang_ops list \<Rightarrow> si_type \<Rightarrow> lang_ops option" where
  "lang_ops_find h ty = slist_find (\<lambda>op. si_type_match (lo_type op) ty) h"

definition register_lang_ops :: "lang_ops \<Rightarrow> lang_ops list \<Rightarrow> lang_ops list" where
  "register_lang_ops op h =
     (case lang_ops_find h (lo_type op) of Some _ \<Rightarrow> h | None \<Rightarrow> slist_add_tail op h)"

abbreviation (input) STEP1 :: nat where "STEP1 \<equiv> MODE_ADJUST"
abbreviation (input) STEPMAX :: nat where "STEPMAX \<equiv> MODE_MAX"

subsection \<open>Reading the header of a mapped sibuf\<close>

text \<open>
  \<open>(struct file_content *)buf->load_addr\<close>: the header in the mapped memory. Reading it while
  the sibuf is not mapped is a fault.
\<close>

definition fc_read :: "world \<Rightarrow> addr \<Rightarrow> src \<Rightarrow> file_content option" where
  "fc_read W b s =
     (if is_loaded s b
      then Some (wd_fc W (rf_path (h_rf s (sb_rf (h_sb s b)))) (sb_offs_of_resfile (h_sb s b)))
      else None)"

definition drop_if :: "int \<Rightarrow> nat \<Rightarrow> addr \<Rightarrow> src \<Rightarrow> src" where
  "drop_if held u b s = (if held = 0 then sibuf_drop u b s else s)"

text \<open>\<open>__si_data_fmt\<close>; \<open>NULL\<close> has no format.\<close>

definition si_data_fmt_of :: "env \<Rightarrow> world \<Rightarrow> nat \<Rightarrow> addr \<Rightarrow> src \<Rightarrow> (nat \<times> src) option" where
  "si_data_fmt_of E W u b s =
     (if b = NULL then Some (SI_TYPE_DF_NONE, s)
      else do {
        (held, s) \<leftarrow> sibuf_hold E W u b s;
        fc \<leftarrow> fc_read W b s;
        Some (ty_fmt (fc_type fc), drop_if held u b s)
      })"

definition si_data_fmt :: "env \<Rightarrow> world \<Rightarrow> nat \<Rightarrow> addr \<Rightarrow> src \<Rightarrow> (nat \<times> src) option" where
  "si_data_fmt E W u a s = si_data_fmt_of E W u (find_target_sibuf s a) s"

definition sibuf_get_global ::
    "env \<Rightarrow> world \<Rightarrow> lang_ops list \<Rightarrow> nat \<Rightarrow> addr \<Rightarrow> string \<Rightarrow> src \<Rightarrow> (addr \<times> src) option" where
  "sibuf_get_global E W ops u b str s =
     (if sb_globals (h_sb s b) = NULL then Some (NULL, s)
      else do {
        (held, s) \<leftarrow> sibuf_hold E W u b s;
        fc \<leftarrow> fc_read W b s;
        let s = drop_if held u b s;
        (case lang_ops_find ops (fc_type fc) of
           None \<Rightarrow> Some (NULL, s)
         | Some op \<Rightarrow> (case lo_get_global op of None \<Rightarrow> Some (NULL, s) | Some g \<Rightarrow> Some (g b str s, s)))
      })"

subsection \<open>Parsing one sibuf\<close>

definition upd_type :: "(si_type \<Rightarrow> si_type) \<Rightarrow> src \<Rightarrow> src" where
  "upd_type f s = s\<lparr>si_type := f (si_type s)\<rparr>"

definition parse_sibuf ::
    "env \<Rightarrow> world \<Rightarrow> lang_ops list \<Rightarrow> nat \<Rightarrow> addr \<Rightarrow> nat \<Rightarrow> bool \<Rightarrow> src \<Rightarrow> (int \<times> src) option" where
  "parse_sibuf E W ops u b step force s =
     do {
       (held, s) \<leftarrow> sibuf_hold E W u b s;
       fc \<leftarrow> fc_read W b s;
       (case lang_ops_find ops (fc_type fc) of
          None \<Rightarrow> Some (- 1, drop_if held u b s)
        | Some op \<Rightarrow>
            if \<not> force \<and> int (sb_status (h_sb s b)) \<noteq> int step - 1
            then Some (0, drop_if held u b s)
            else
              let s = (if ty_kernel (si_type s) \<noteq> ty_kernel (fc_type fc)
                       then upd_type (\<lambda>t. t\<lparr>ty_kernel := ty_kernel (fc_type fc), ty_os := ty_os (fc_type fc)\<rparr>) s
                       else s);
                  s = drop_if held u b s
              in do {
                (err, s) \<leftarrow> lo_parse op u b step s;
                Some (if err \<noteq> 0 then - 1 else 0, s)
              })
     }"

text \<open>\<open>parse_sibuf_bypath\<close>: the first sibuf of that source file.\<close>

fun bypath_loop ::
    "(string \<Rightarrow> string \<Rightarrow> bool) \<Rightarrow> env \<Rightarrow> world \<Rightarrow> lang_ops list \<Rightarrow> nat \<Rightarrow> addr list \<Rightarrow> string \<Rightarrow> nat \<Rightarrow>
     bool \<Rightarrow> src \<Rightarrow> (int \<times> src) option" where
  "bypath_loop is_same_path E W ops u [] srcpath step force s = Some (0, s)"
| "bypath_loop is_same_path E W ops u (b # bs) srcpath step force s =
     do {
       (held, s) \<leftarrow> sibuf_hold E W u b s;
       fc \<leftarrow> fc_read W b s;
       let s = drop_if held u b s;
       (if \<not> is_same_path (fc_path fc) srcpath
        then bypath_loop is_same_path E W ops u bs srcpath step force s
        else parse_sibuf E W ops u b step force s)
     }"

definition parse_sibuf_bypath ::
    "(string \<Rightarrow> string \<Rightarrow> bool) \<Rightarrow> env \<Rightarrow> world \<Rightarrow> lang_ops list \<Rightarrow> nat \<Rightarrow> string \<Rightarrow> nat \<Rightarrow> bool \<Rightarrow>
     src \<Rightarrow> (int \<times> src) option" where
  "parse_sibuf_bypath is_same_path E W ops u srcpath step force s =
     bypath_loop is_same_path E W ops u (si_sibuf_head s) srcpath step force s"

subsection \<open>The slots of the worker threads\<close>

record mt_parse =
  mp_buf :: addr
  mp_ret :: nat
  mp_step :: nat
  mp_in_use :: nat
  mp_tid :: nat

definition mt_parse0 :: mt_parse where
  "mt_parse0 = \<lparr>mp_buf = NULL, mp_ret = 0, mp_step = 0, mp_in_use = 0, mp_tid = 0\<rparr>"

text \<open>The index of the first slot that is not in use.\<close>

fun mt_parse_find :: "mt_parse list \<Rightarrow> nat option" where
  "mt_parse_find [] = None"
| "mt_parse_find (t # ts) =
     (if mp_in_use t = 0 then Some 0 else map_option Suc (mt_parse_find ts))"

text \<open>
  The end of \<open>do_phase\<close> for the slot \<open>t\<close> of the resfile \<open>rf\<close>, whose \<open>parsed_files\<close> counts: the
  new slot and state.
\<close>

definition bump_parsed :: "addr \<Rightarrow> nat \<Rightarrow> src \<Rightarrow> src" where
  "bump_parsed rf step s =
     upd_rf rf (\<lambda>r. r\<lparr>rf_parsed_files := (rf_parsed_files r)(step := rf_parsed_files r step + 1)\<rparr>) s"

definition do_phase ::
    "env \<Rightarrow> world \<Rightarrow> lang_ops list \<Rightarrow> addr \<Rightarrow> mt_parse \<Rightarrow> src \<Rightarrow> (mt_parse \<times> src) option" where
  "do_phase E W ops rf t s =
     do {
       (err, s) \<leftarrow> parse_sibuf E W ops (mp_tid t) (mp_buf t) (mp_step t) False s;
       (if err \<noteq> 0 then Some (t\<lparr>mp_ret := 1, mp_in_use := 0\<rparr>, s)
        else Some (t\<lparr>mp_buf := NULL, mp_in_use := 0\<rparr>,
          bump_parsed rf (mp_step t) (upd_sb (mp_buf t) (\<lambda>b. b\<lparr>sb_status := mp_step t\<rparr>) s)))
     }"

end
