(* ===== verification/Parse_Phase.thy ===== *)
theory Parse_Phase
  imports Parse Resfile_Preview
begin

text \<open>
  One phase of \<open>parse_resfile\<close> (analysis/parse.c): the loop that hands the sibufs of the
  resfile to free slots, and the worker threads. The steps of the relation are the loop's
  and the threads' steps; a parse is one step. Then the loop over the steps and the whole of
  \<open>parse_resfile\<close>.
\<close>

subsection \<open>What holding a sibuf leaves alone\<close>

text \<open>
  \<open>quiet s s'\<close>: only the users, the load flags, the open descriptors and the account differ.
\<close>

definition same_sb :: "sibuf \<Rightarrow> sibuf \<Rightarrow> bool" where
  "same_sb b c \<longleftrightarrow> c\<lparr>sb_users := [], sb_need_unload := False\<rparr> = b\<lparr>sb_users := [], sb_need_unload := False\<rparr>"

definition same_rf :: "resfile \<Rightarrow> resfile \<Rightarrow> bool" where
  "same_rf r q \<longleftrightarrow> q\<lparr>rf_fd := 0\<rparr> = r\<lparr>rf_fd := 0\<rparr>"

definition quiet :: "src \<Rightarrow> src \<Rightarrow> bool" where
  "quiet s s' \<longleftrightarrow> (\<exists>hb hr m. s' = s\<lparr>h_sb := hb, h_rf := hr, si_sibuf_mem_usage := m\<rparr>) \<and>
     (\<forall>b. same_sb (h_sb s b) (h_sb s' b)) \<and> (\<forall>r. same_rf (h_rf s r) (h_rf s' r))"

lemma same_sb_refl [simp]: "same_sb b b" "same_sb b (b\<lparr>sb_users := us\<rparr>)"
  "same_sb b (b\<lparr>sb_need_unload := l\<rparr>)"
  by (simp_all add: same_sb_def)

lemma same_sb_trans: "same_sb a b \<Longrightarrow> same_sb b c \<Longrightarrow> same_sb a c"
  by (simp add: same_sb_def)

lemma same_sb_fields:
  assumes "same_sb b c"
  shows "sb_status c = sb_status b" "sb_rf c = sb_rf b" "sb_globals c = sb_globals b"
    "sb_offs_of_resfile c = sb_offs_of_resfile b"
  using assms by (cases b; cases c; simp add: same_sb_def)+

lemma same_rf_refl [simp]: "same_rf r r" "same_rf r (r\<lparr>rf_fd := fd\<rparr>)"
  by (simp_all add: same_rf_def)

lemma same_rf_trans: "same_rf a b \<Longrightarrow> same_rf b c \<Longrightarrow> same_rf a c"
  by (simp add: same_rf_def)

lemma same_rf_fields:
  assumes "same_rf r q"
  shows "rf_parsed_files q = rf_parsed_files r" "rf_path q = rf_path r"
  using assms by (cases r; cases q; simp add: same_rf_def)+

lemma quietI:
  assumes "s' = s\<lparr>h_sb := hb, h_rf := hr, si_sibuf_mem_usage := m\<rparr>"
    and "\<And>b. same_sb (h_sb s b) (hb b)" "\<And>r. same_rf (h_rf s r) (hr r)"
  shows "quiet s s'"
  using assms by (auto simp: quiet_def)

lemma quiet_refl [simp]: "quiet s s"
  by (rule quietI [where hb = "h_sb s" and hr = "h_rf s" and m = "si_sibuf_mem_usage s"]) simp_all

lemma quiet_trans:
  assumes "quiet s t" "quiet t u"
  shows "quiet s u"
proof -
  obtain hb hr m where t: "t = s\<lparr>h_sb := hb, h_rf := hr, si_sibuf_mem_usage := m\<rparr>"
    using assms(1) by (auto simp: quiet_def)
  obtain hb2 hr2 m2 where u: "u = t\<lparr>h_sb := hb2, h_rf := hr2, si_sibuf_mem_usage := m2\<rparr>"
    using assms(2) by (auto simp: quiet_def)
  have "same_sb (h_sb s b) (hb2 b)" for b
    by (rule same_sb_trans [of _ "h_sb t b"]) (use assms u in \<open>simp_all add: quiet_def\<close>)
  moreover have "same_rf (h_rf s r) (hr2 r)" for r
    by (rule same_rf_trans [of _ "h_rf t r"]) (use assms u in \<open>simp_all add: quiet_def\<close>)
  ultimately show ?thesis
    by (intro quietI [where hb = hb2 and hr = hr2 and m = m2]) (simp_all add: t u)
qed

lemma quiet_upd_sb:
  assumes "\<And>n. same_sb n (f n)"
  shows "quiet s (upd_sb b f s)"
  by (rule quietI [where hb = "(h_sb s)(b := f (h_sb s b))" and hr = "h_rf s" and m = "si_sibuf_mem_usage s"])
    (simp_all add: upd_sb_def assms)

lemma quiet_upd_rf:
  assumes "\<And>n. same_rf n (f n)"
  shows "quiet s (upd_rf r f s)"
  by (rule quietI [where hb = "h_sb s" and hr = "(h_rf s)(r := f (h_rf s r))" and m = "si_sibuf_mem_usage s"])
    (simp_all add: upd_rf_def assms)

lemma quiet_usage: "quiet s t \<Longrightarrow> quiet s (t\<lparr>si_sibuf_mem_usage := m\<rparr>)"
  by (rule quiet_trans, assumption)
    (rule quietI [where hb = "h_sb t" and hr = "h_rf t" and m = m]; simp)

lemma quiet_add_user: "sibuf_add_user b u s = (r, s') \<Longrightarrow> quiet s s'"
  by (auto simp: sibuf_add_user_def op_defs intro!: quiet_upd_sb split: option.splits)

lemma quiet_del_user: "quiet s (sibuf_del_user b u s)"
  by (auto simp: sibuf_del_user_def op_defs intro!: quiet_upd_sb split: option.splits)

lemma quiet_drop [simp]: "quiet s (drop_if h u b s)"
  by (simp add: drop_if_def sibuf_drop_def quiet_del_user)

lemma quiet_unload: "quiet s (resfile_unload b s)"
proof (cases "sb_need_unload (h_sb s b)")
  case True
  let ?t = "upd_sb b (\<lambda>n. n\<lparr>sb_users := []\<rparr>) (upd_sb b (\<lambda>n. n\<lparr>sb_need_unload := False\<rparr>) s)"
  have "quiet s ?t" by (rule quiet_trans [OF quiet_upd_sb quiet_upd_sb]) simp_all
  then show ?thesis using True
    by (simp add: resfile_unload_def sibuf_cleanup_user_def Let_def quiet_usage)
qed (simp add: resfile_unload_def)

lemma quiet_gc_loop: "gc_loop bs f s = (f', s') \<Longrightarrow> quiet s s'"
proof (induction bs arbitrary: f s)
  case (Cons b bs)
  show ?case
  proof (cases "sb_need_unload (h_sb s b) \<and> sb_users (h_sb s b) = []")
    case True
    then have "gc_loop bs True (resfile_unload b s) = (f', s')" using Cons.prems by simp
    from Cons.IH [OF this] show ?thesis by (rule quiet_trans [OF quiet_unload])
  next
    case False
    then have "gc_loop bs f s = (f', s')" using Cons.prems by (auto split: if_splits)
    then show ?thesis by (rule Cons.IH)
  qed
qed simp

lemma quiet_gc: "quiet s (snd (resfile_gc s))"
  by (auto simp: resfile_gc_def split: prod.splits intro: quiet_gc_loop)

lemma quiet_fill: "fill_buf u b s = (r, s') \<Longrightarrow> quiet s s'"
  unfolding fill_buf_def
  by (rule quiet_trans [OF quiet_upd_sb quiet_add_user]) simp_all

lemma quiet_open: "resfile_open W rf s = Some (ok, t) \<Longrightarrow> quiet s t"
  by (auto simp: resfile_open_def Let_def intro!: quiet_upd_rf split: if_splits option.splits)

lemma quiet_map: "load_map E W u b s = Some (LdDone r s') \<Longrightarrow> quiet s s'"
  by (erule load_map_doneE, drule quiet_fill) (rule quiet_trans [OF quiet_usage [OF quiet_refl]])

lemma quiet_wait:
  assumes "load_wait E W u b s = Some (r, s')"
  shows "quiet s s'"
proof -
  have "quiet s (snd (r, s'))"
  proof (rule load_wait.raw_induct [where P = "\<lambda>E W u b s y. quiet s (snd y)", OF _ assms])
    fix lw E W u b s y
    assume IH: "\<And>E W u b s y. lw E W u b s = Some y \<Longrightarrow> quiet s (snd y)"
      and run: "Option.bind (load_map E W u b s) (\<lambda>r. case r of LdDone ret s \<Rightarrow> Some (ret, s)
        | LdWait s \<Rightarrow> lw E W u b (snd (resfile_gc s))) = Some y"
    then obtain st where st: "load_map E W u b s = Some st" by (cases "load_map E W u b s") auto
    show "quiet s (snd y)"
    proof (cases st)
      case (LdDone r2 s2)
      then show ?thesis using run st quiet_map by auto
    next
      case (LdWait s2)
      then have "s2 = s" using st load_map_wait by blast
      then have "lw E W u b (snd (resfile_gc s)) = Some y" using run st LdWait by simp
      from IH [OF this] show ?thesis by (rule quiet_trans [OF quiet_gc])
    qed
  qed
  then show ?thesis by simp
qed

lemma quiet_hold:
  assumes "sibuf_hold E W u b s = Some (r, s')"
  shows "quiet s s'"
proof -
  obtain ok t where op: "resfile_open W (sb_rf (h_sb s b)) s = Some (ok, t)"
    using assms by (cases "resfile_open W (sb_rf (h_sb s b)) s")
      (auto simp: sibuf_hold_def resfile_load_def load_enter_def)
  have "quiet t s'"
  proof (cases "load_enter E W u b s")
    case None
    then show ?thesis using assms by (simp add: sibuf_hold_def resfile_load_def)
  next
    case (Some st)
    note run = assms [unfolded sibuf_hold_def resfile_load_def, simplified Some, simplified]
    show ?thesis
    proof (cases st)
      case (LdDone r2 s2)
      then show ?thesis
        using run Some op quiet_fill quiet_map
        by (auto simp: load_enter_def Let_def split: if_splits prod.splits)
    next
      case (LdWait s2)
      then have "load_map E W u b t = Some (LdWait s2)"
        using Some op by (auto simp: load_enter_def Let_def split: if_splits prod.splits)
      then have "s2 = t" using load_map_wait by blast
      then have "load_wait E W u b (snd (resfile_gc t)) = Some (r, s')" using run LdWait by simp
      then show ?thesis using quiet_wait quiet_trans [OF quiet_gc] by blast
    qed
  qed
  then show ?thesis by (rule quiet_trans [OF quiet_open [OF op]])
qed

lemma quietD:
  assumes "quiet s s'"
  shows "si_sibuf_head s' = si_sibuf_head s" "h_sn s' = h_sn s" "si_type s' = si_type s"
    "si_by_id s' = si_by_id s" "si_by_spec s' = si_by_spec s" "h_name s' = h_name s"
    "sb_status (h_sb s' b) = sb_status (h_sb s b)" "sb_rf (h_sb s' b) = sb_rf (h_sb s b)"
    "rf_parsed_files (h_rf s' r) = rf_parsed_files (h_rf s r)"
proof -
  obtain hb hr m where s': "s' = s\<lparr>h_sb := hb, h_rf := hr, si_sibuf_mem_usage := m\<rparr>"
    using assms by (auto simp: quiet_def)
  show "si_sibuf_head s' = si_sibuf_head s" "h_sn s' = h_sn s" "si_type s' = si_type s"
    "si_by_id s' = si_by_id s" "si_by_spec s' = si_by_spec s" "h_name s' = h_name s"
    by (simp_all add: s')
  have "same_sb (h_sb s b) (h_sb s' b)" "same_rf (h_rf s r) (h_rf s' r)"
    using assms by (simp_all add: quiet_def)
  then show "sb_status (h_sb s' b) = sb_status (h_sb s b)" "sb_rf (h_sb s' b) = sb_rf (h_sb s b)"
    "rf_parsed_files (h_rf s' r) = rf_parsed_files (h_rf s r)"
    using same_sb_fields same_rf_fields by simp_all
qed

subsection \<open>The phase as a step relation\<close>

text \<open>
  \<open>ps_todo\<close>: the sibufs the loop has not looked at; \<open>ps_slots\<close>: the array \<open>bufs\<close>; \<open>ps_err\<close>:
  the variable \<open>err\<close>; \<open>ps_scan\<close>: whether the loop still runs; \<open>ps_tid\<close>: the next thread id.
\<close>

record pstate =
  ps_todo :: "addr list"
  ps_slots :: "mt_parse list"
  ps_src :: src
  ps_err :: int
  ps_scan :: bool
  ps_tid :: nat

definition THREAD_CNT :: nat where "THREAD_CNT = 8"

text \<open>
  \<open>skip\<close>, \<open>failed\<close>, \<open>assign\<close> and \<open>scan_end\<close> are the loop: a sibuf of another resfile, a free
  slot whose last parse failed, a sibuf handed to a new thread in the free slot (which sets
  \<open>err\<close> to the 0 of \<open>pthread_create\<close>), and the end of the list. \<open>start\<close> and \<open>finish\<close> are a
  thread. When no slot is free the loop sleeps, so only the threads move.
\<close>

inductive phase_step ::
    "env \<Rightarrow> world \<Rightarrow> lang_ops list \<Rightarrow> addr \<Rightarrow> nat \<Rightarrow> pstate \<Rightarrow> pstate \<Rightarrow> bool"
  for E W ops rf step where
  skip: "phase_step E W ops rf step p (p\<lparr>ps_todo := bs\<rparr>)"
    if "ps_scan p" "ps_todo p = b # bs" "sb_rf (h_sb (ps_src p) b) \<noteq> rf"
| failed: "phase_step E W ops rf step p (p\<lparr>ps_scan := False, ps_err := - 1\<rparr>)"
    if "ps_scan p" "ps_todo p = b # bs" "sb_rf (h_sb (ps_src p) b) = rf"
      "mt_parse_find (ps_slots p) = Some i" "mp_ret (ps_slots p ! i) \<noteq> 0"
| assign: "phase_step E W ops rf step p (p\<lparr>ps_todo := bs, ps_err := 0, ps_tid := ps_tid p + 1,
      ps_slots := (ps_slots p)[i := (ps_slots p ! i)
        \<lparr>mp_buf := b, mp_in_use := 1, mp_step := step, mp_tid := ps_tid p\<rparr>]\<rparr>)"
    if "ps_scan p" "ps_todo p = b # bs" "sb_rf (h_sb (ps_src p) b) = rf"
      "mt_parse_find (ps_slots p) = Some i" "mp_ret (ps_slots p ! i) = 0"
| scan_end: "phase_step E W ops rf step p (p\<lparr>ps_scan := False\<rparr>)"
    if "ps_scan p" "ps_todo p = []"
| start: "phase_step E W ops rf step p
      (p\<lparr>ps_slots := (ps_slots p)[i := (ps_slots p ! i)\<lparr>mp_in_use := 2\<rparr>]\<rparr>)"
    if "i < length (ps_slots p)" "mp_in_use (ps_slots p ! i) = 1"
| finish: "phase_step E W ops rf step p (p\<lparr>ps_slots := (ps_slots p)[i := t], ps_src := s\<rparr>)"
    if "i < length (ps_slots p)" "mp_in_use (ps_slots p ! i) = 2"
      "do_phase E W ops rf (ps_slots p ! i) (ps_src p) = Some (t, s)"

definition phase_init :: "int \<Rightarrow> src \<Rightarrow> pstate" where
  "phase_init err s = \<lparr>ps_todo = si_sibuf_head s, ps_slots = replicate THREAD_CNT mt_parse0,
     ps_src = s, ps_err = err, ps_scan = True, ps_tid = 1\<rparr>"

text \<open>The phase is over when \<open>wait_for_all_threads\<close> has seen every slot out of use.\<close>

definition phase_over :: "pstate \<Rightarrow> bool" where
  "phase_over p \<longleftrightarrow> \<not> ps_scan p \<and> (\<forall>t \<in> set (ps_slots p). mp_in_use t = 0)"

abbreviation phase_reach where
  "phase_reach E W ops rf step \<equiv> (phase_step E W ops rf step)\<^sup>*\<^sup>*"

text \<open>
  The loop over the steps, with \<open>flag\<close> when all of them are to be done; after each phase
  everything is unloaded. \<open>err\<close> is the value at the end.
\<close>

inductive parse_steps ::
    "env \<Rightarrow> world \<Rightarrow> lang_ops list \<Rightarrow> addr \<Rightarrow> bool \<Rightarrow> nat \<Rightarrow> int \<Rightarrow> src \<Rightarrow> int \<Rightarrow> src \<Rightarrow> bool"
  for E W ops rf flag where
  stop: "parse_steps E W ops rf flag step err s err s" if "STEPMAX \<le> step"
| last: "parse_steps E W ops rf flag step err s (ps_err p) (resfile_unload_all (ps_src p))"
    if "step < STEPMAX" "\<not> flag" "phase_reach E W ops rf step (phase_init err s) p" "phase_over p"
| more: "parse_steps E W ops rf flag step err s err' s'"
    if "step < STEPMAX" "flag" "phase_reach E W ops rf step (phase_init err s) p" "phase_over p"
      "parse_steps E W ops rf flag (step + 1) (ps_err p) (resfile_unload_all (ps_src p)) err' s'"

text \<open>
  The start of \<open>parse_resfile\<close>: the resfile, previewed and added when it is new. \<open>None\<close> in
  the second component is the error return. The backup of the file is left out.
\<close>

definition parse_open ::
    "env \<Rightarrow> string \<Rightarrow> bool \<Rightarrow> world \<Rightarrow> src \<Rightarrow> (addr option \<times> world \<times> src) option" where
  "parse_open E path built_in W s =
     do {
       (rf, exist, s) \<leftarrow> resfile_new E path built_in s;
       (if exist then Some (Some rf, W, s)
        else do {
          (err, W, s) \<leftarrow> resfile_preview E rf W s;
          (if err = - 1 then Some (None, W, s) else Some (Some rf, W, resfile_add rf s))
        })
     }"

inductive parse_resfile ::
    "env \<Rightarrow> lang_ops list \<Rightarrow> string \<Rightarrow> bool \<Rightarrow> nat \<Rightarrow> world \<Rightarrow> src \<Rightarrow> int \<Rightarrow> src \<Rightarrow> bool"
  for E ops path built_in step W s where
  bad: "parse_resfile E ops path built_in step W s (- 1) s'"
    if "parse_open E path built_in W s = Some (None, W', s')"
| good: "parse_resfile E ops path built_in step W s err s'"
    if "parse_open E path built_in W s = Some (Some rf, W', s1)"
      "parse_steps E W' ops rf (step = 0) (if step = 0 then STEP1 else step) 0 s1 err s'"

end
