(* ===== verification/Parse_Props.thy ===== *)
theory Parse_Props
  imports Parse_Phase
begin

text \<open>
  The properties of the parse phases: what a finished phase has done, that a phase cannot get
  stuck or run forever, and where a failed or skipped parse is not noticed.
\<close>

subsection \<open>Slots\<close>

lemma mt_parse_find_Some:
  "mt_parse_find ts = Some i \<Longrightarrow> i < length ts \<and> mp_in_use (ts ! i) = 0"
  by (induction ts arbitrary: i) (auto split: if_splits)

lemma mt_parse_find_None: "mt_parse_find ts = None \<longleftrightarrow> (\<forall>t \<in> set ts. mp_in_use t \<noteq> 0)"
  by (induction ts) auto

definition slot_taken :: "mt_parse \<Rightarrow> nat" where
  "slot_taken t = (if mp_in_use t \<noteq> 0 \<or> mp_ret t \<noteq> 0 then 1 else 0)"

definition slots_taken :: "mt_parse list \<Rightarrow> nat" where
  "slots_taken ts = sum_list (map slot_taken ts)"

lemma slots_taken_update:
  "i < length ts \<Longrightarrow> slots_taken (ts[i := t]) + slot_taken (ts ! i) = slots_taken ts + slot_taken t"
proof (induction ts arbitrary: i)
  case (Cons a ts)
  then show ?case by (cases i) (auto simp: slots_taken_def)
qed simp

lemma mt_parse0_simps [simp]:
  "mp_in_use mt_parse0 = 0" "mp_ret mt_parse0 = 0" "mp_buf mt_parse0 = NULL" "mp_tid mt_parse0 = 0"
  by (simp_all add: mt_parse0_def)

lemma slots_taken_init [simp]: "slots_taken (replicate n mt_parse0) = 0"
  by (induction n) (simp_all add: slots_taken_def slot_taken_def)

subsection \<open>The invariant of a phase\<close>

text \<open>
  What is asked of the language modules: a parse leaves the list of sibufs, their states and
  the counters of the resfiles alone.
\<close>

definition keeps :: "src \<Rightarrow> src \<Rightarrow> bool" where
  "keeps s s' \<longleftrightarrow> si_sibuf_head s' = si_sibuf_head s \<and>
     (\<forall>b. sb_status (h_sb s' b) = sb_status (h_sb s b) \<and> sb_rf (h_sb s' b) = sb_rf (h_sb s b)) \<and>
     (\<forall>r. rf_parsed_files (h_rf s' r) = rf_parsed_files (h_rf s r))"

definition modules_keep :: "lang_ops list \<Rightarrow> bool" where
  "modules_keep ops \<longleftrightarrow>
     (\<forall>op \<in> set ops. \<forall>u b step s err s'. lo_parse op u b step s = Some (err, s') \<longrightarrow> keeps s s')"

lemma keeps_refl [simp]: "keeps s s"
  by (simp add: keeps_def)

lemma keeps_trans: "keeps s t \<Longrightarrow> keeps t u \<Longrightarrow> keeps s u"
  by (simp add: keeps_def)

lemma quiet_keeps: "quiet s s' \<Longrightarrow> keeps s s'"
  by (simp add: keeps_def quietD)

lemma upd_type_keeps [simp]: "keeps s (upd_type f s)"
  by (simp add: keeps_def upd_type_def)

lemma parse_sibuf_keeps:
  assumes "modules_keep ops" "parse_sibuf E W ops u b step force s = Some (err, s')"
  shows "keeps s s'"
proof -
  obtain h t fc where hold: "sibuf_hold E W u b s = Some (h, t)" and fc: "fc_read W b t = Some fc"
    using assms(2) by (auto simp: parse_sibuf_def bind_splits)
  have st: "keeps s t" by (rule quiet_keeps [OF quiet_hold [OF hold]])
  have "keeps t s'"
  proof (cases "lang_ops_find ops (fc_type fc)")
    case None
    then have "s' = drop_if h u b t" using assms(2) hold fc by (simp add: parse_sibuf_def)
    then show ?thesis using quiet_keeps quiet_drop by simp
  next
    case (Some op)
    then have op: "op \<in> set ops" by (auto simp: lang_ops_find_def dest: slist_find_Some)
    show ?thesis
    proof (cases "\<not> force \<and> int (sb_status (h_sb t b)) \<noteq> int step - 1")
      case True
      then have "s' = drop_if h u b t" using assms(2) hold fc Some by (auto simp: parse_sibuf_def)
      then show ?thesis using quiet_keeps quiet_drop by simp
    next
      case False
      then obtain f err2 where
        run: "lo_parse op u b step (drop_if h u b (if ty_kernel (si_type t) \<noteq> ty_kernel (fc_type fc)
           then upd_type f t else t)) = Some (err2, s')"
        using assms(2) hold fc Some by (auto simp: parse_sibuf_def bind_splits Let_def split: if_splits)
      define t2 where "t2 = (if ty_kernel (si_type t) \<noteq> ty_kernel (fc_type fc) then upd_type f t else t)"
      have "keeps t t2" by (simp add: t2_def)
      moreover have "keeps t2 (drop_if h u b t2)" by (rule quiet_keeps [OF quiet_drop])
      moreover have "keeps (drop_if h u b t2) s'"
        using assms(1) op run by (auto simp: modules_keep_def t2_def)
      ultimately show ?thesis using keeps_trans by blast
    qed
  qed
  with st show ?thesis by (rule keeps_trans)
qed

definition matching :: "src \<Rightarrow> addr \<Rightarrow> addr list \<Rightarrow> addr list" where
  "matching s rf bs = filter (\<lambda>b. sb_rf (h_sb s b) = rf) bs"

text \<open>
  The invariant, with \<open>s0\<close> the state at the start: a slot in use holds a sibuf of the resfile;
  every sibuf of the resfile is done, still to be looked at, in a slot, or some slot has
  failed; other sibufs keep their states; and the counter, the slots and the rest of the list
  add up.
\<close>

definition slot_ok :: "src \<Rightarrow> addr \<Rightarrow> nat \<Rightarrow> mt_parse \<Rightarrow> bool" where
  "slot_ok s0 rf step t \<longleftrightarrow> mp_in_use t \<le> 2 \<and> (mp_in_use t \<noteq> 0 \<longrightarrow>
     mp_step t = step \<and> mp_ret t = 0 \<and> sb_rf (h_sb s0 (mp_buf t)) = rf)"

definition holds_or_failed :: "addr \<Rightarrow> mt_parse \<Rightarrow> bool" where
  "holds_or_failed b t \<longleftrightarrow> mp_in_use t \<noteq> 0 \<and> mp_buf t = b \<or> mp_ret t \<noteq> 0"

definition phase_inv :: "src \<Rightarrow> addr \<Rightarrow> nat \<Rightarrow> pstate \<Rightarrow> bool" where
  "phase_inv s0 rf step p \<longleftrightarrow>
     si_sibuf_head (ps_src p) = si_sibuf_head s0 \<and>
     (\<forall>b. sb_rf (h_sb (ps_src p) b) = sb_rf (h_sb s0 b)) \<and>
     (\<forall>i < length (ps_slots p). slot_ok s0 rf step (ps_slots p ! i)) \<and>
     (\<forall>b. b \<in> set (si_sibuf_head s0) \<and> sb_rf (h_sb s0 b) = rf \<longrightarrow>
        sb_status (h_sb (ps_src p) b) = step \<or> b \<in> set (ps_todo p) \<or>
        (\<exists>i < length (ps_slots p). holds_or_failed b (ps_slots p ! i))) \<and>
     (\<forall>b. sb_rf (h_sb s0 b) \<noteq> rf \<longrightarrow> sb_status (h_sb (ps_src p) b) = sb_status (h_sb s0 b)) \<and>
     rf_parsed_files (h_rf (ps_src p) rf) step + slots_taken (ps_slots p) +
        length (matching s0 rf (ps_todo p)) =
      rf_parsed_files (h_rf s0 rf) step + length (matching s0 rf (si_sibuf_head s0)) \<and>
     (ps_scan p \<or> ps_err p \<noteq> 0 \<or> ps_todo p = [])"

declare phase_inv_def [inv_defs]

lemma slot_ok0: "slot_ok s rf step mt_parse0"
  by (simp add: slot_ok_def)

lemma phase_inv_init: "phase_inv s rf step (phase_init err s)"
  by (auto simp: phase_inv_def phase_init_def slot_ok0)

text \<open>What the end of a thread does.\<close>

lemma do_phase_cases:
  assumes "modules_keep ops" "do_phase E W ops rf t s = Some (t', s')"
  obtains "t' = t\<lparr>mp_ret := 1, mp_in_use := 0\<rparr>" "keeps s s'"
  | s1 where "t' = t\<lparr>mp_buf := NULL, mp_in_use := 0\<rparr>" "keeps s s1"
      "s' = bump_parsed rf (mp_step t) (upd_sb (mp_buf t) (\<lambda>b. b\<lparr>sb_status := mp_step t\<rparr>) s1)"
proof -
  obtain err s1 where run: "parse_sibuf E W ops (mp_tid t) (mp_buf t) (mp_step t) False s = Some (err, s1)"
    using assms(2) by (auto simp: do_phase_def bind_splits)
  have "keeps s s1" by (rule parse_sibuf_keeps [OF assms(1) run])
  then show thesis using that assms(2) run by (cases "err = 0") (auto simp: do_phase_def)
qed

lemma phase_inv_step:
  assumes "phase_step E W ops rf step p q" "modules_keep ops" "phase_inv s0 rf step p"
  shows "phase_inv s0 rf step q"
  using assms(1)
proof cases
  case (skip b bs)
  then show ?thesis using assms(3) by (auto simp: phase_inv_def matching_def)
next
  case (failed b bs i)
  then show ?thesis using assms(3) by (simp add: phase_inv_def)
next
  case (assign b bs i)
  let ?t = "(ps_slots p ! i)\<lparr>mp_buf := b, mp_in_use := 1, mp_step := step, mp_tid := ps_tid p\<rparr>"
  have i: "i < length (ps_slots p)" "mp_in_use (ps_slots p ! i) = 0"
    using mt_parse_find_Some assign(5) by auto
  have rf: "sb_rf (h_sb s0 b) = rf" using assms(3) assign(4) by (simp add: phase_inv_def)
  have taken: "slots_taken ((ps_slots p)[i := ?t]) = slots_taken (ps_slots p) + 1"
    using slots_taken_update [OF i(1), of ?t] i(2) assign(6) by (simp add: slot_taken_def)
  have old: "\<not> holds_or_failed c (ps_slots p ! i)" for c using i assign(6) by (simp add: holds_or_failed_def)
  have ex: "\<exists>j < length (ps_slots p). holds_or_failed c ((ps_slots p)[i := ?t] ! j)"
    if some: "c = b \<or> (\<exists>j < length (ps_slots p). holds_or_failed c (ps_slots p ! j))" for c
  proof (cases "c = b")
    case True
    then show ?thesis using i by (intro exI [of _ i]) (simp add: holds_or_failed_def)
  next
    case False
    then obtain j where "j < length (ps_slots p)" "holds_or_failed c (ps_slots p ! j)" using some by blast
    moreover from this have "j \<noteq> i" using old by auto
    ultimately show ?thesis by (intro exI [of _ j]) simp
  qed
  show ?thesis unfolding phase_inv_def
  proof (intro conjI)
    show "\<forall>j < length (ps_slots q). slot_ok s0 rf step (ps_slots q ! j)"
      using assms(3) assign(1,6) i rf by (auto simp: phase_inv_def slot_ok_def nth_list_update)
    show "\<forall>c. c \<in> set (si_sibuf_head s0) \<and> sb_rf (h_sb s0 c) = rf \<longrightarrow>
        sb_status (h_sb (ps_src q) c) = step \<or> c \<in> set (ps_todo q) \<or>
        (\<exists>j < length (ps_slots q). holds_or_failed c (ps_slots q ! j))"
    proof (intro allI impI)
      fix c
      assume c: "c \<in> set (si_sibuf_head s0) \<and> sb_rf (h_sb s0 c) = rf"
      then have "sb_status (h_sb (ps_src p) c) = step \<or> c \<in> set (ps_todo p) \<or>
          (\<exists>j < length (ps_slots p). holds_or_failed c (ps_slots p ! j))"
        using assms(3) by (simp add: phase_inv_def)
      then show "sb_status (h_sb (ps_src q) c) = step \<or> c \<in> set (ps_todo q) \<or>
          (\<exists>j < length (ps_slots q). holds_or_failed c (ps_slots q ! j))"
        using ex [of c] assign(1,3) by auto
    qed
  qed (use assms(3) assign taken rf in \<open>simp_all add: phase_inv_def matching_def\<close>)
next
  case scan_end
  then show ?thesis using assms(3) by (simp add: phase_inv_def)
next
  case (start i)
  let ?t = "(ps_slots p ! i)\<lparr>mp_in_use := 2\<rparr>"
  have taken: "slots_taken ((ps_slots p)[i := ?t]) = slots_taken (ps_slots p)"
    using slots_taken_update [OF start(2), of ?t] start(3) by (simp add: slot_taken_def)
  have hf: "holds_or_failed c ((ps_slots p)[i := ?t] ! j) = holds_or_failed c (ps_slots p ! j)"
    if "j < length (ps_slots p)" for c j
    using that start(3) by (cases "j = i") (simp_all add: holds_or_failed_def)
  have ok: "slot_ok s0 rf step ((ps_slots p)[i := ?t] ! j)" if "j < length (ps_slots p)" for j
    using that assms(3) start(3) by (cases "j = i") (auto simp: phase_inv_def slot_ok_def)
  show ?thesis using assms(3) taken hf ok start(1) by (simp add: phase_inv_def cong: conj_cong)
next
  case (finish i t s)
  let ?o = "ps_slots p ! i"
  have o: "mp_step ?o = step" "mp_ret ?o = 0" "sb_rf (h_sb s0 (mp_buf ?o)) = rf"
    using assms(3) finish(2,3) by (auto simp: phase_inv_def slot_ok_def)
  have stay: "\<exists>j < length (ps_slots p). holds_or_failed c ((ps_slots p)[i := t] ! j)"
    if "j < length (ps_slots p)" "holds_or_failed c (ps_slots p ! j)" "j = i \<Longrightarrow> holds_or_failed c t" for c j
    using that by (intro exI [of _ j]) (cases "j = i"; simp)
  have old: "sb_status (h_sb (ps_src p) c) = step \<or> c \<in> set (ps_todo p) \<or>
      (\<exists>j < length (ps_slots p). holds_or_failed c (ps_slots p ! j))"
    if "c \<in> set (si_sibuf_head s0)" "sb_rf (h_sb s0 c) = rf" for c
    using assms(3) that by (simp add: phase_inv_def)
  from assms(2) finish(4) show ?thesis
  proof (cases rule: do_phase_cases)
    case 1
    have "holds_or_failed c t" for c using 1(1) by (simp add: holds_or_failed_def)
    then have "sb_status (h_sb s c) = step \<or> c \<in> set (ps_todo p) \<or>
        (\<exists>j < length (ps_slots p). holds_or_failed c ((ps_slots p)[i := t] ! j))"
      if "c \<in> set (si_sibuf_head s0)" "sb_rf (h_sb s0 c) = rf" for c
      using old [OF that] stay 1(2) by (auto simp: keeps_def)
    moreover have "slots_taken ((ps_slots p)[i := t]) = slots_taken (ps_slots p)"
      using slots_taken_update [OF finish(2), of t] finish(3) 1(1) by (simp add: slot_taken_def)
    moreover have "slot_ok s0 rf step ((ps_slots p)[i := t] ! j)" if "j < length (ps_slots p)" for j
      using that assms(3) 1(1) by (cases "j = i") (auto simp: phase_inv_def slot_ok_def)
    ultimately show ?thesis using assms(3) finish(1) 1(2)
      by (simp add: phase_inv_def keeps_def)
  next
    case (2 s1)
    have st: "sb_status (h_sb s c) = (if c = mp_buf ?o then step else sb_status (h_sb (ps_src p) c))" for c
      using 2(2,3) o(1) by (simp add: keeps_def bump_parsed_def)
    have rf: "sb_rf (h_sb s c) = sb_rf (h_sb (ps_src p) c)" for c
      using 2(2,3) by (simp add: keeps_def bump_parsed_def)
    have hd: "si_sibuf_head s = si_sibuf_head (ps_src p)" using 2(2,3) by (simp add: keeps_def bump_parsed_def)
    have cnt: "rf_parsed_files (h_rf s rf) step = rf_parsed_files (h_rf (ps_src p) rf) step + 1"
      using 2(2,3) o(1) by (simp add: keeps_def bump_parsed_def)
    have "holds_or_failed c ?o \<Longrightarrow> c = mp_buf ?o" for c using o(2) by (simp add: holds_or_failed_def)
    then have "sb_status (h_sb s c) = step \<or> c \<in> set (ps_todo p) \<or>
        (\<exists>j < length (ps_slots p). holds_or_failed c ((ps_slots p)[i := t] ! j))"
      if "c \<in> set (si_sibuf_head s0)" "sb_rf (h_sb s0 c) = rf" for c
      using old [OF that] stay [of _ c] st by metis
    moreover have "slots_taken ((ps_slots p)[i := t]) + 1 = slots_taken (ps_slots p)"
      using slots_taken_update [OF finish(2), of t] finish(3) 2(1) o(2) by (simp add: slot_taken_def)
    moreover have "slot_ok s0 rf step ((ps_slots p)[i := t] ! j)" if "j < length (ps_slots p)" for j
      using that assms(3) 2(1) by (cases "j = i") (auto simp: phase_inv_def slot_ok_def)
    moreover have "sb_status (h_sb s c) = sb_status (h_sb s0 c)" if "sb_rf (h_sb s0 c) \<noteq> rf" for c
      using that st o(3) assms(3) by (auto simp: phase_inv_def)
    ultimately show ?thesis using assms(3) finish(1) rf hd cnt
      by (simp add: phase_inv_def)
  qed
qed

lemma phase_inv_reach:
  assumes "phase_reach E W ops rf step (phase_init err s) p" "modules_keep ops"
  shows "phase_inv s rf step p"
  using assms(1)
proof induction
  case base
  show ?case by (rule phase_inv_init)
next
  case (step p q)
  then show ?case using phase_inv_step assms(2) by blast
qed

subsection \<open>The properties\<close>

lemma phase_slots_length:
  assumes "phase_reach E W ops rf step (phase_init err s) p"
  shows "length (ps_slots p) = THREAD_CNT"
  using assms
proof induction
  case base
  show ?case by (simp add: phase_init_def)
next
  case (step p q)
  from step(2,3) show ?case by (auto elim!: phase_step.cases)
qed

subsection \<open>What is parsed\<close>

text \<open>
  \<open>counts_parses ops n\<close>: \<open>n b s\<close> is any reading of the state that a successful call of a module's
  parse on \<open>b\<close> increases by one, and that other successful calls, loading and unloading, and the
  marks of the phase leave as it is.
\<close>

definition counts_parses :: "lang_ops list \<Rightarrow> (addr \<Rightarrow> src \<Rightarrow> nat) \<Rightarrow> bool" where
  "counts_parses ops n \<longleftrightarrow>
     (\<forall>op \<in> set ops. \<forall>u b step s s'. lo_parse op u b step s = Some (0, s') \<longrightarrow>
        (\<forall>c. n c s' = n c s + (if c = b then 1 else 0))) \<and>
     (\<forall>c s s'. quiet s s' \<longrightarrow> n c s' = n c s) \<and> (\<forall>c f s. n c (upd_type f s) = n c s) \<and>
     (\<forall>c b v s. n c (upd_sb b (\<lambda>x. x\<lparr>sb_status := v\<rparr>) s) = n c s) \<and>
     (\<forall>c rf step s. n c (bump_parsed rf step s) = n c s)"

text \<open>The sibufs a step parses: those in the state before it.\<close>

definition due :: "src \<Rightarrow> nat \<Rightarrow> addr \<Rightarrow> bool" where
  "due s step b \<longleftrightarrow> int (sb_status (h_sb s b)) = int step - 1"

lemma parse_sibuf_counts:
  assumes n: "counts_parses ops n" and run: "parse_sibuf E W ops u b step False s = Some (0, s')"
  shows "n c s' = n c s + (if c = b \<and> due s step b then 1 else 0)"
proof -
  have nq: "n d y = n d x" if "quiet x y" for d x y using n that by (simp add: counts_parses_def)
  have nt: "n d (upd_type f x) = n d x" for d f x using n by (simp add: counts_parses_def)
  obtain h t fc where hold: "sibuf_hold E W u b s = Some (h, t)" and fc: "fc_read W b t = Some fc"
    using run by (auto simp: parse_sibuf_def bind_splits)
  note q = quiet_hold [OF hold]
  obtain op where op: "lang_ops_find ops (fc_type fc) = Some op"
    using run hold fc by (auto simp: parse_sibuf_def split: option.splits)
  then have ops: "op \<in> set ops" by (auto simp: lang_ops_find_def dest: slist_find_Some)
  have st: "sb_status (h_sb t b) = sb_status (h_sb s b)" by (rule quietD(7) [OF q])
  show ?thesis
  proof (cases "due s step b")
    case False
    then have "s' = drop_if h u b t" using run hold fc op st by (auto simp: parse_sibuf_def due_def)
    then show ?thesis using False nq [OF q] nq [OF quiet_drop] by simp
  next
    case True
    define t2 where "t2 = (if ty_kernel (si_type t) \<noteq> ty_kernel (fc_type fc)
      then upd_type (\<lambda>x. x\<lparr>ty_kernel := ty_kernel (fc_type fc), ty_os := ty_os (fc_type fc)\<rparr>) t else t)"
    have "lo_parse op u b step (drop_if h u b t2) = Some (0, s')"
      using run hold fc op st True
      by (auto simp: parse_sibuf_def due_def t2_def bind_splits Let_def split: if_splits)
    then have "n c s' = n c (drop_if h u b t2) + (if c = b then 1 else 0)"
      using n ops by (simp add: counts_parses_def)
    moreover have "n c t2 = n c s" by (simp add: t2_def nt nq [OF q])
    ultimately show ?thesis using True nq [OF quiet_drop] by simp
  qed
qed

definition pending :: "pstate \<Rightarrow> addr \<Rightarrow> bool" where
  "pending p b \<longleftrightarrow> b \<in> set (ps_todo p) \<or>
     (\<exists>i < length (ps_slots p). mp_in_use (ps_slots p ! i) \<noteq> 0 \<and> mp_buf (ps_slots p ! i) = b)"

definition some_failed :: "pstate \<Rightarrow> bool" where
  "some_failed p \<longleftrightarrow> (\<exists>t \<in> set (ps_slots p). mp_ret t \<noteq> 0)"

text \<open>
  The accounts of a phase: a sibuf is waiting in one place at most, it is unparsed while it waits,
  and it has been parsed once, if it was due, when it waits no more.
\<close>

definition one_place :: "pstate \<Rightarrow> bool" where
  "one_place p \<longleftrightarrow> distinct (ps_todo p) \<and>
     (\<forall>i < length (ps_slots p). mp_in_use (ps_slots p ! i) \<noteq> 0 \<longrightarrow>
        mp_buf (ps_slots p ! i) \<notin> set (ps_todo p) \<and>
        (\<forall>j < length (ps_slots p). mp_in_use (ps_slots p ! j) \<noteq> 0 \<longrightarrow>
           mp_buf (ps_slots p ! j) = mp_buf (ps_slots p ! i) \<longrightarrow> j = i))"

definition parsed_inv :: "(addr \<Rightarrow> src \<Rightarrow> nat) \<Rightarrow> src \<Rightarrow> addr \<Rightarrow> nat \<Rightarrow> pstate \<Rightarrow> bool" where
  "parsed_inv n s0 rf step p \<longleftrightarrow> one_place p \<and>
     (\<forall>b. pending p b \<longrightarrow> b \<in> set (si_sibuf_head s0) \<and> n b (ps_src p) = n b s0 \<and>
        sb_status (h_sb (ps_src p) b) = sb_status (h_sb s0 b)) \<and>
     (\<forall>b. \<not> pending p b \<longrightarrow> n b (ps_src p) =
        n b s0 + (if b \<in> set (si_sibuf_head s0) \<and> sb_rf (h_sb s0 b) = rf \<and> due s0 step b then 1 else 0))"

lemma parsed_init:
  assumes "distinct (si_sibuf_head s)"
  shows "parsed_inv n s rf step (phase_init err s)"
  using assms by (auto simp: parsed_inv_def one_place_def pending_def phase_init_def)

lemma pending_slots:
  "ps_todo q = ps_todo p \<Longrightarrow> length (ps_slots q) = length (ps_slots p) \<Longrightarrow>
   (\<And>i. i < length (ps_slots p) \<Longrightarrow> (mp_in_use (ps_slots q ! i) \<noteq> 0) = (mp_in_use (ps_slots p ! i) \<noteq> 0) \<and>
      mp_buf (ps_slots q ! i) = mp_buf (ps_slots p ! i)) \<Longrightarrow>
   pending q b = pending p b \<and> one_place q = one_place p"
  by (auto simp: pending_def one_place_def)

lemma failed_stays:
  assumes "phase_step E W ops rf step p q" "phase_inv s0 rf step p" "some_failed p"
  shows "some_failed q"
proof -
  obtain i where i: "i < length (ps_slots p)" "mp_ret (ps_slots p ! i) \<noteq> 0"
    using assms(3) by (auto simp: some_failed_def in_set_conv_nth)
  have idle: "mp_in_use (ps_slots p ! i) = 0" using assms(2) i by (auto simp: phase_inv_def slot_ok_def)
  have other: "some_failed q" if "ps_slots q = (ps_slots p)[j := t]" "j \<noteq> i" for j t
  proof -
    have "ps_slots q ! i = ps_slots p ! i" "i < length (ps_slots q)" using that i(1) by simp_all
    then show ?thesis using i(2) nth_mem unfolding some_failed_def by metis
  qed
  show ?thesis using assms(1)
  proof cases
    case (assign b bs j)
    then show ?thesis using other [of j] i(2) by fastforce
  next
    case (start j)
    then show ?thesis using other [of j] idle by fastforce
  next
    case (finish j t s)
    then show ?thesis using other [of j] idle by fastforce
  qed (use assms(3) in \<open>simp_all add: some_failed_def\<close>)
qed

lemma parsed_step:
  assumes st: "phase_step E W ops rf step p q" and ok: "modules_keep ops" "counts_parses ops n"
    and inv: "phase_inv s0 rf step p" and pi: "parsed_inv n s0 rf step p"
  shows "some_failed q \<or> parsed_inv n s0 rf step q"
  using st
proof cases
  case (skip b bs)
  have b: "b \<notin> set bs" "pending p b" "sb_rf (h_sb s0 b) \<noteq> rf"
    using pi inv skip(3,4) by (auto simp: parsed_inv_def one_place_def pending_def phase_inv_def)
  have pq: "pending p c = (pending q c \<or> c = b)" for c using skip(1,3) by (auto simp: pending_def)
  have oq: "one_place q" using pi skip(1,3) by (auto simp: parsed_inv_def one_place_def)
  have src: "ps_src q = ps_src p" using skip(1) by simp
  have "b \<in> set (si_sibuf_head s0) \<and> n b (ps_src p) = n b s0 \<and> sb_status (h_sb (ps_src p) b) = sb_status (h_sb s0 b)"
    if "pending p b" for b using pi that by (simp add: parsed_inv_def)
  moreover have "n c (ps_src p) = n c s0 + (if c \<in> set (si_sibuf_head s0) \<and> sb_rf (h_sb s0 c) = rf \<and> due s0 step c then 1 else 0)"
    if "\<not> pending q c" for c
  proof (cases "c = b")
    case True
    then show ?thesis using pi b(2,3) by (simp add: parsed_inv_def)
  next
    case False
    then show ?thesis using that pq pi by (simp add: parsed_inv_def)
  qed
  ultimately have "parsed_inv n s0 rf step q" using oq src pq by (simp add: parsed_inv_def)
  then show ?thesis ..
next
  case (failed b bs i)
  then show ?thesis using mt_parse_find_Some [OF failed(5)] by (auto simp: some_failed_def)
next
  case (assign b bs i)
  have i: "i < length (ps_slots p)" "mp_in_use (ps_slots p ! i) = 0"
    using mt_parse_find_Some assign(5) by auto
  have b: "b \<notin> set bs" using pi assign(3) by (simp add: parsed_inv_def one_place_def)
  have "pending q c = pending p c" for c
  proof
    assume "pending q c"
    then show "pending p c" using assign(1,3) i by (auto simp: pending_def nth_list_update split: if_splits)
  next
    assume "pending p c"
    then consider "c = b" | "c \<in> set bs" | j where "j < length (ps_slots p)" "mp_in_use (ps_slots p ! j) \<noteq> 0" "mp_buf (ps_slots p ! j) = c"
      using assign(3) by (auto simp: pending_def)
    then show "pending q c"
    proof cases
      case 1
      then show ?thesis using assign(1) i by (auto simp: pending_def intro!: exI [of _ i])
    next
      case 2
      then show ?thesis using assign(1) by (simp add: pending_def)
    next
      case 3
      then have "j \<noteq> i" using i(2) by auto
      then show ?thesis using 3 assign(1) by (auto simp: pending_def intro!: exI [of _ j])
    qed
  qed
  moreover have "one_place q"
    using pi assign(1,3) i b by (auto simp: parsed_inv_def one_place_def nth_list_update)
  moreover have "ps_src q = ps_src p" using assign(1) by simp
  ultimately show ?thesis using pi by (simp add: parsed_inv_def)
next
  case scan_end
  then have "pending q c = pending p c \<and> one_place q = one_place p" for c by (intro pending_slots) simp_all
  then show ?thesis using pi scan_end(1) by (simp add: parsed_inv_def)
next
  case (start i)
  then have "pending q c = pending p c \<and> one_place q = one_place p" for c
    by (intro pending_slots) (auto simp: nth_list_update)
  then show ?thesis using pi start(1) by (simp add: parsed_inv_def)
next
  case (finish i t s)
  let ?o = "ps_slots p ! i" and ?b = "mp_buf (ps_slots p ! i)"
  have o: "mp_step ?o = step" "mp_ret ?o = 0" "sb_rf (h_sb s0 ?b) = rf"
    using inv finish(2,3) by (auto simp: phase_inv_def slot_ok_def)
  obtain err s1 where run: "parse_sibuf E W ops (mp_tid ?o) ?b step False (ps_src p) = Some (err, s1)"
    using finish(4) o(1) by (auto simp: do_phase_def bind_splits)
  show ?thesis
  proof (cases "err = 0")
    case False
    then have "mp_ret t = 1" using finish(4) run o(1) by (auto simp: do_phase_def)
    then have "mp_ret (ps_slots q ! i) \<noteq> 0" "i < length (ps_slots q)" using finish(1,2) by simp_all
    then show ?thesis unfolding some_failed_def by (meson nth_mem)
  next
    case True
    then have t: "t = ?o\<lparr>mp_buf := NULL, mp_in_use := 0\<rparr>"
      and s: "s = bump_parsed rf step (upd_sb ?b (\<lambda>b. b\<lparr>sb_status := step\<rparr>) s1)"
      using finish(4) run o(1) by (auto simp: do_phase_def)
    have pb: "pending p ?b" using finish(2,3) by (auto simp: pending_def)
    have alone: "mp_buf (ps_slots p ! j) \<noteq> ?b" if "j < length (ps_slots p)" "j \<noteq> i" "mp_in_use (ps_slots p ! j) \<noteq> 0" for j
      using that pi finish(2,3) by (auto simp: parsed_inv_def one_place_def)
    have nb: "?b \<notin> set (ps_todo p)" using pi finish(2,3) by (simp add: parsed_inv_def one_place_def)
    have sq: "length (ps_slots q) = length (ps_slots p)" "ps_todo q = ps_todo p"
      "\<And>j. j < length (ps_slots p) \<Longrightarrow> ps_slots q ! j = (if j = i then t else ps_slots p ! j)"
      using finish(1,2) by simp_all
    have wq: "pending q c \<longleftrightarrow> c \<in> set (ps_todo p) \<or>
        (\<exists>j < length (ps_slots p). j \<noteq> i \<and> mp_in_use (ps_slots p ! j) \<noteq> 0 \<and> mp_buf (ps_slots p ! j) = c)" for c
      unfolding pending_def sq(1,2) using sq(3) t by (auto split: if_splits)
    have pq: "pending q c = (pending p c \<and> c \<noteq> ?b)" for c
      unfolding wq using alone nb by (auto simp: pending_def)
    have one: "one_place p" using pi by (simp add: parsed_inv_def)
    have uq: "j \<noteq> i \<and> ps_slots q ! j = ps_slots p ! j"
      if "j < length (ps_slots p)" "mp_in_use (ps_slots q ! j) \<noteq> 0" for j
      using sq(3) [OF that(1)] that(2) t by (auto split: if_splits)
    have op: "one_place q"
      unfolding one_place_def sq(1,2) using one uq unfolding one_place_def by metis
    have k: "keeps (ps_src p) s1" by (rule parse_sibuf_keeps [OF ok(1) run])
    have du: "due (ps_src p) step ?b = due s0 step ?b" using pi pb by (auto simp: parsed_inv_def due_def)
    have nc: "n c s = n c (ps_src p) + (if c = ?b \<and> due s0 step ?b then 1 else 0)" for c
    proof -
      have "n c s = n c s1" using ok(2) by (simp add: s counts_parses_def)
      then show ?thesis using parse_sibuf_counts [OF ok(2) run [unfolded True], of c] du by simp
    qed
    have sc: "sb_status (h_sb s c) = sb_status (h_sb (ps_src p) c)" if "c \<noteq> ?b" for c
      using that k by (simp add: s keeps_def bump_parsed_def)
    have src: "ps_src q = s" using finish(1) by simp
    have "b \<in> set (si_sibuf_head s0) \<and> n b s = n b s0 \<and> sb_status (h_sb s b) = sb_status (h_sb s0 b)"
      if "pending q b" for b
      using that pq [of b] nc [of b] sc [of b] pi by (auto simp: parsed_inv_def)
    moreover have "n b s = n b s0 + (if b \<in> set (si_sibuf_head s0) \<and> sb_rf (h_sb s0 b) = rf \<and> due s0 step b then 1 else 0)"
      if "\<not> pending q b" for b
    proof (cases "b = ?b")
      case True
      then show ?thesis using pb pi nc [of b] o(3) by (auto simp: parsed_inv_def)
    next
      case False
      then show ?thesis using that pq [of b] nc [of b] pi by (simp add: parsed_inv_def)
    qed
    ultimately show ?thesis using op src by (simp add: parsed_inv_def)
  qed
qed

lemma parsed_reach:
  assumes "phase_reach E W ops rf step (phase_init err s) p" "modules_keep ops" "counts_parses ops n"
    and "distinct (si_sibuf_head s)"
  shows "some_failed p \<or> parsed_inv n s rf step p"
  using assms(1)
proof induction
  case base
  show ?case using parsed_init [OF assms(4)] by blast
next
  case (step p q)
  note inv = phase_inv_reach [OF step(1) assms(2)]
  from step.IH show ?case
    using failed_stays [OF step(2) inv] parsed_step [OF step(2) assms(2,3) inv] by blast
qed

text \<open>
  C13. A phase that is over without an error has parsed the resfile: every sibuf of the resfile
  is in the state of the step, and its language module has parsed it exactly once when it was in
  the state before the step, and not at all otherwise; no other sibuf has been parsed or has
  changed its state; and the counter of the step has grown by the number of sibufs of the resfile
  (the skipped ones are counted too), in whatever order the threads ran.
\<close>

theorem phase_completes:
  assumes "modules_keep ops" "counts_parses ops n" "distinct (si_sibuf_head s)"
    and "phase_reach E W ops rf step (phase_init err s) p" "phase_over p"
    and "ps_err p = 0" "\<forall>t \<in> set (ps_slots p). mp_ret t = 0"
  shows "(\<forall>b \<in> set (si_sibuf_head s).
      sb_status (h_sb (ps_src p) b) = (if sb_rf (h_sb s b) = rf then step else sb_status (h_sb s b)) \<and>
      n b (ps_src p) = n b s + (if sb_rf (h_sb s b) = rf \<and> due s step b then 1 else 0)) \<and>
    rf_parsed_files (h_rf (ps_src p) rf) step =
      rf_parsed_files (h_rf s rf) step + length (matching s rf (si_sibuf_head s))"
proof -
  note inv = phase_inv_reach [OF assms(4,1)]
  have todo: "ps_todo p = []" using inv assms(5,6) by (simp add: phase_inv_def phase_over_def)
  have idle: "mp_in_use (ps_slots p ! i) = 0 \<and> mp_ret (ps_slots p ! i) = 0" if "i < length (ps_slots p)" for i
    using that assms(5,7) by (simp add: phase_over_def)
  have none: "\<not> holds_or_failed b (ps_slots p ! i)" if "i < length (ps_slots p)" for b i
    using idle [OF that] by (simp add: holds_or_failed_def)
  have "map slot_taken (ps_slots p) = map (\<lambda>_. 0) (ps_slots p)"
    using assms(5,7) by (simp add: phase_over_def slot_taken_def)
  then have taken: "slots_taken (ps_slots p) = 0" unfolding slots_taken_def by simp
  have "\<not> some_failed p" using assms(7) by (simp add: some_failed_def)
  then have pi: "parsed_inv n s rf step p" using parsed_reach [OF assms(4,1-3)] by blast
  have "\<not> pending p b" for b using todo idle by (simp add: pending_def)
  then have "n b (ps_src p) = n b s + (if sb_rf (h_sb s b) = rf \<and> due s step b then 1 else 0)"
    if "b \<in> set (si_sibuf_head s)" for b using pi that by (simp add: parsed_inv_def)
  moreover have "sb_status (h_sb (ps_src p) b) = (if sb_rf (h_sb s b) = rf then step else sb_status (h_sb s b))"
    if "b \<in> set (si_sibuf_head s)" for b
    using inv todo none that by (auto simp: phase_inv_def)
  moreover have "rf_parsed_files (h_rf (ps_src p) rf) step =
      rf_parsed_files (h_rf s rf) step + length (matching s rf (si_sibuf_head s))"
    using inv todo taken by (simp add: phase_inv_def matching_def)
  ultimately show ?thesis by blast
qed

text \<open>How much a phase still has to do.\<close>

definition slot_work :: "mt_parse \<Rightarrow> nat" where
  "slot_work t = (if mp_in_use t = 1 then 2 else if mp_in_use t = 2 then 1 else 0)"

definition phase_work :: "pstate \<Rightarrow> nat" where
  "phase_work p = 4 * length (ps_todo p) + sum_list (map slot_work (ps_slots p)) +
     (if ps_scan p then 1 else 0)"

lemma slot_work_update:
  "i < length ts \<Longrightarrow> sum_list (map slot_work (ts[i := t])) + slot_work (ts ! i) =
     sum_list (map slot_work ts) + slot_work t"
proof (induction ts arbitrary: i)
  case (Cons a ts)
  then show ?case by (cases i) auto
qed simp

lemma phase_step_work:
  assumes "phase_step E W ops rf step p q" "modules_keep ops"
  shows "phase_work q < phase_work p"
  using assms(1)
proof cases
  case (assign b bs i)
  let ?t = "(ps_slots p ! i)\<lparr>mp_buf := b, mp_in_use := 1, mp_step := step, mp_tid := ps_tid p\<rparr>"
  have i: "i < length (ps_slots p)" using mt_parse_find_Some assign(5) by auto
  show ?thesis using slot_work_update [OF i, of ?t] assign
    by (simp add: phase_work_def slot_work_def)
next
  case (start i)
  then show ?thesis using slot_work_update [OF start(2), of "(ps_slots p ! i)\<lparr>mp_in_use := 2\<rparr>"]
    by (simp add: phase_work_def slot_work_def)
next
  case (finish i t s)
  have "mp_in_use t = 0" using assms(2) finish(4) by (cases rule: do_phase_cases) simp_all
  then show ?thesis using slot_work_update [OF finish(2), of t] finish(1,3)
    by (simp add: phase_work_def slot_work_def)
qed (simp_all add: phase_work_def)

lemma phase_work_init: "phase_work (phase_init err s) = 4 * length (si_sibuf_head s) + 1"
  by (simp add: phase_work_def phase_init_def slot_work_def)

lemma phase_work_reach:
  assumes "phase_reach E W ops rf step (phase_init err s) p" "modules_keep ops"
  shows "phase_work p \<le> 4 * length (si_sibuf_head s) + 1"
  using assms(1)
proof induction
  case base
  show ?case by (simp add: phase_work_init)
next
  case (step p q)
  then show ?case using phase_step_work [OF step(2) assms(2)] by simp
qed

text \<open>
  C14. A phase neither gets stuck nor runs forever: in every state of it that is not its end, if
  no parse that is running aborts the process, some step of the loop or of a thread is possible;
  every step that is possible leaves less work; and the work is never more than four times the
  number of sibufs plus one, so no run of the phase has more steps than that.
\<close>

theorem phase_progresses:
  assumes "modules_keep ops" "phase_reach E W ops rf step (phase_init err s) p" "\<not> phase_over p"
    and "\<And>t. t \<in> set (ps_slots p) \<Longrightarrow> mp_in_use t = 2 \<Longrightarrow> do_phase E W ops rf t (ps_src p) \<noteq> None"
  shows "(\<exists>q. phase_step E W ops rf step p q) \<and>
    (\<forall>q. phase_step E W ops rf step p q \<longrightarrow> phase_work q < phase_work p) \<and>
    phase_work p \<le> 4 * length (si_sibuf_head s) + 1"
proof -
  note inv = phase_inv_reach [OF assms(2,1)]
  have thread: "\<exists>q. phase_step E W ops rf step p q"
    if i: "i < length (ps_slots p)" and u: "mp_in_use (ps_slots p ! i) \<noteq> 0" for i
  proof -
    have "mp_in_use (ps_slots p ! i) \<le> 2" using inv i by (simp add: phase_inv_def slot_ok_def)
    then consider "mp_in_use (ps_slots p ! i) = 1" | "mp_in_use (ps_slots p ! i) = 2" using u by linarith
    then show ?thesis
    proof cases
      case 1
      then show ?thesis using phase_step.start i by blast
    next
      case 2
      obtain t' s' where "do_phase E W ops rf (ps_slots p ! i) (ps_src p) = Some (t', s')"
        using assms(4) [of "ps_slots p ! i"] i 2 by fastforce
      then show ?thesis using phase_step.finish i 2 by blast
    qed
  qed
  have "\<exists>q. phase_step E W ops rf step p q"
  proof (cases "ps_scan p")
    case False
    then obtain t where "t \<in> set (ps_slots p)" "mp_in_use t \<noteq> 0"
      using assms(3) by (auto simp: phase_over_def)
    then show ?thesis using thread by (metis in_set_conv_nth)
  next
    case scan: True
    show ?thesis
    proof (cases "ps_todo p")
      case Nil
      then show ?thesis using phase_step.scan_end scan by blast
    next
      case (Cons b bs)
      show ?thesis
      proof (cases "sb_rf (h_sb (ps_src p) b) = rf")
        case False
        then show ?thesis using phase_step.skip scan Cons by blast
      next
        case rf: True
        show ?thesis
        proof (cases "mt_parse_find (ps_slots p)")
          case None
          have "0 < length (ps_slots p)" using phase_slots_length [OF assms(2)] by (simp add: THREAD_CNT_def)
          moreover from this have "mp_in_use (ps_slots p ! 0) \<noteq> 0"
            using None mt_parse_find_None by auto
          ultimately show ?thesis by (rule thread)
        next
          case (Some i)
          then show ?thesis using phase_step.failed phase_step.assign scan Cons rf by blast
        qed
      qed
    qed
  qed
  then show ?thesis using phase_step_work assms(1) phase_work_reach [OF assms(2,1)] by blast
qed

text \<open>The only run of a phase over one sibuf, up to the order of the last steps.\<close>

lemma one_sibuf_run:
  assumes "si_sibuf_head s = [b]" "sb_rf (h_sb s b) = rf"
    and "do_phase E W ops rf \<lparr>mp_buf = b, mp_ret = 0, mp_step = step, mp_in_use = 2, mp_tid = 1\<rparr> s =
      Some (t3, s1)" "mp_in_use t3 = 0"
  shows "\<exists>p. phase_reach E W ops rf step (phase_init e s) p \<and> phase_over p \<and> ps_err p = 0 \<and>
    ps_src p = s1 \<and> ps_slots p = t3 # replicate 7 mt_parse0"
proof -
  let ?p0 = "phase_init e s"
  let ?t1 = "mt_parse0\<lparr>mp_buf := b, mp_in_use := 1, mp_step := step, mp_tid := 1\<rparr>"
  let ?t2 = "?t1\<lparr>mp_in_use := 2\<rparr>"
  define ts where "ts = replicate 7 mt_parse0"
  have slots: "ps_slots ?p0 = mt_parse0 # ts"
    by (simp add: phase_init_def THREAD_CNT_def ts_def numeral_eq_Suc)
  let ?p1 = "?p0\<lparr>ps_todo := [], ps_err := 0, ps_tid := ps_tid ?p0 + 1, ps_slots := ?t1 # ts\<rparr>"
  let ?p2 = "?p1\<lparr>ps_slots := ?t2 # ts\<rparr>"
  let ?p3 = "?p2\<lparr>ps_slots := t3 # ts, ps_src := s1\<rparr>"
  let ?p4 = "?p3\<lparr>ps_scan := False\<rparr>"
  have p0: "ps_scan ?p0" "ps_todo ?p0 = [b]" "ps_src ?p0 = s" "ps_tid ?p0 = 1"
    using assms(1) by (simp_all add: phase_init_def)
  have "phase_step E W ops rf step ?p0 (?p0\<lparr>ps_todo := [], ps_err := 0, ps_tid := ps_tid ?p0 + 1,
      ps_slots := (ps_slots ?p0)[0 := (ps_slots ?p0 ! 0)
        \<lparr>mp_buf := b, mp_in_use := 1, mp_step := step, mp_tid := ps_tid ?p0\<rparr>]\<rparr>)"
    by (rule phase_step.assign) (use p0 slots assms(2) in simp_all)
  then have s1: "phase_step E W ops rf step ?p0 ?p1" by (simp add: slots p0)
  have "phase_step E W ops rf step ?p1 (?p1\<lparr>ps_slots := (ps_slots ?p1)[0 := (ps_slots ?p1 ! 0)\<lparr>mp_in_use := 2\<rparr>]\<rparr>)"
    by (rule phase_step.start) simp_all
  then have s2: "phase_step E W ops rf step ?p1 ?p2" by simp
  have "phase_step E W ops rf step ?p2 (?p2\<lparr>ps_slots := (ps_slots ?p2)[0 := t3], ps_src := s1\<rparr>)"
    by (intro phase_step.finish) (use assms(3) in \<open>simp_all add: p0 mt_parse0_def\<close>)
  then have s3: "phase_step E W ops rf step ?p2 ?p3" by simp
  have s4: "phase_step E W ops rf step ?p3 ?p4" by (rule phase_step.scan_end) (use p0 in simp_all)
  have "phase_reach E W ops rf step ?p0 ?p4"
    using s1 s2 s3 s4 by (meson converse_rtranclp_into_rtranclp rtranclp.rtrancl_refl)
  moreover have "phase_over ?p4" using assms(4) by (auto simp: phase_over_def ts_def)
  ultimately show ?thesis by (intro exI [of _ ?p4]) (simp add: ts_def)
qed

text \<open>
  C29. A parse that fails in the last slots of a phase is not reported: the loop looks at
  \<open>t->ret\<close> only when it wants to reuse the slot. For a resfile with one sibuf whose parse
  fails, \<open>parse_resfile\<close> returns 0.
\<close>

theorem last_failure_lost:
  assumes "si_sibuf_head s = [b]" "sb_rf (h_sb s b) = rf" "step < STEPMAX"
    and "parse_sibuf E W ops 1 b step False s = Some (- 1, s1)"
  shows "parse_steps E W ops rf False step e s 0 (resfile_unload_all s1)"
proof -
  let ?t = "\<lparr>mp_buf = b, mp_ret = 0, mp_step = step, mp_in_use = 2, mp_tid = 1\<rparr>"
  have "do_phase E W ops rf ?t s = Some (?t\<lparr>mp_ret := 1, mp_in_use := 0\<rparr>, s1)"
    using assms(4) by (simp add: do_phase_def)
  from one_sibuf_run [OF assms(1,2) this, of e] obtain p where
    p: "phase_reach E W ops rf step (phase_init e s) p" "phase_over p" "ps_err p = 0" "ps_src p = s1"
    by auto
  have "parse_steps E W ops rf False step e s (ps_err p) (resfile_unload_all (ps_src p))"
    by (rule parse_steps.last [OF assms(3) _ p(1,2)]) simp
  then show ?thesis by (simp add: p)
qed

text \<open>
  A sibuf whose state is not the one before the step is not parsed, but \<open>do_phase\<close> marks
  and counts it as if it had been: no node of the project has changed, the state of the sibuf
  is the step, and \<open>parsed_files\<close> has grown.
\<close>

theorem skipped_counts_as_parsed:
  assumes "int (sb_status (h_sb s (mp_buf t))) \<noteq> int (mp_step t) - 1" "mp_ret t = 0"
    and "do_phase E W ops rf t s = Some (t', s')" "mp_ret t' = 0"
  shows "h_sn s' = h_sn s \<and> si_by_id s' = si_by_id s \<and> si_by_spec s' = si_by_spec s \<and>
    h_name s' = h_name s \<and> sb_status (h_sb s' (mp_buf t)) = mp_step t \<and>
    rf_parsed_files (h_rf s' rf) (mp_step t) = rf_parsed_files (h_rf s rf) (mp_step t) + 1"
proof -
  obtain err s1 where run: "parse_sibuf E W ops (mp_tid t) (mp_buf t) (mp_step t) False s = Some (err, s1)"
    using assms(3) by (auto simp: do_phase_def bind_splits)
  then have err: "err = 0" and s': "s' = bump_parsed rf (mp_step t)
      (upd_sb (mp_buf t) (\<lambda>b. b\<lparr>sb_status := mp_step t\<rparr>) s1)"
    using assms(3,4) by (auto simp: do_phase_def split: if_splits)
  obtain h u fc where hold: "sibuf_hold E W (mp_tid t) (mp_buf t) s = Some (h, u)"
    and fc: "fc_read W (mp_buf t) u = Some fc"
    using run by (auto simp: parse_sibuf_def bind_splits)
  have q: "quiet s u" by (rule quiet_hold [OF hold])
  have "int (sb_status (h_sb u (mp_buf t))) \<noteq> int (mp_step t) - 1"
    using quietD(7) [OF q, of "mp_buf t"] assms(1) by simp
  then have "s1 = drop_if h (mp_tid t) (mp_buf t) u"
    using run hold fc err by (auto simp: parse_sibuf_def split: option.splits)
  then have "quiet s s1" using quiet_trans [OF q quiet_drop] by simp
  note qd = quietD [OF this]
  show ?thesis using qd(2,4,5,6) qd(9) [of rf]
    by (simp add: s' bump_parsed_def) (simp add: upd_rf_def upd_sb_def)
qed

subsection \<open>Concrete runs\<close>

text \<open>One sibuf that is not loaded, and a module whose parse returns \<open>r\<close>.\<close>

definition pw_state :: src where
  "pw_state = rw_state\<lparr>si_sibuf_head := [30], si_sibuf_mem_usage := 0\<rparr>"

definition pw_ops :: "int \<Rightarrow> lang_ops list" where
  "pw_ops r = register_lang_ops \<lparr>lo_type = \<lparr>ty_binary = 3, ty_kernel = 3, ty_os = 15, ty_fmt = 255\<rparr>,
     lo_parse = (\<lambda>u b step s. Some (r, s)), lo_get_global = None\<rparr> []"

lemmas pw_eval = parse_sibuf_def fc_read_def is_loaded_def pw_state_def pw_ops_def
  register_lang_ops_def lang_ops_find_def si_type_match_def drop_if_def upd_type_def hold_eval

lemma pw_keep: "modules_keep (pw_ops r)"
  by (auto simp: modules_keep_def pw_ops_def register_lang_ops_def lang_ops_find_def op_defs)

lemma pw_parse: "\<exists>s. parse_sibuf env0 (rw_world 2) (pw_ops r) 1 30 1 False pw_state =
    Some (if r \<noteq> 0 then - 1 else 0, s)"
  by (simp add: pw_eval)

lemma pw_views: "si_sibuf_head pw_state = [30]" "sb_rf (h_sb pw_state 30) = 5"
  "sb_status (h_sb pw_state 30) = 0" "rf_parsed_files (h_rf pw_state 5) n = 0"
  by (simp_all add: pw_state_def rw_state_def rw_sibuf_def sibuf_zero_def resfile_zero_def)

text \<open>A module that leaves a mark at the sibuf it parses.\<close>

definition tally_ops :: "lang_ops list" where
  "tally_ops = register_lang_ops \<lparr>lo_type = \<lparr>ty_binary = 3, ty_kernel = 3, ty_os = 15, ty_fmt = 255\<rparr>,
     lo_parse = (\<lambda>u b step s. Some (0, s\<lparr>h_name := (h_name s)(b := CHR ''p'' # h_name s b)\<rparr>)),
     lo_get_global = None\<rparr> []"

definition tally :: "addr \<Rightarrow> src \<Rightarrow> nat" where
  "tally b s = length (h_name s b)"

lemma tally_ok: "modules_keep tally_ops" "counts_parses tally_ops tally"
  by (auto simp: modules_keep_def counts_parses_def tally_ops_def tally_def register_lang_ops_def
      lang_ops_find_def op_defs keeps_def quietD upd_type_def upd_sb_def bump_parsed_def upd_rf_def)

lemma tally_run:
  "\<exists>p. phase_reach env0 (rw_world 2) tally_ops 5 1 (phase_init 0 pw_state) p \<and> phase_over p \<and>
     ps_err p = 0 \<and> (\<forall>t \<in> set (ps_slots p). mp_ret t = 0)"
proof -
  have "\<exists>s. parse_sibuf env0 (rw_world 2) tally_ops 1 30 1 False pw_state = Some (0, s)"
    by (simp add: pw_eval tally_ops_def)
  then obtain s where run: "parse_sibuf env0 (rw_world 2) tally_ops 1 30 1 False pw_state = Some (0, s)" by blast
  let ?t = "\<lparr>mp_buf = 30, mp_ret = 0, mp_step = 1, mp_in_use = 2, mp_tid = 1\<rparr>"
  obtain s1 where "do_phase env0 (rw_world 2) tally_ops 5 ?t pw_state =
      Some (?t\<lparr>mp_buf := NULL, mp_in_use := 0\<rparr>, s1)"
    using run by (simp add: do_phase_def)
  from one_sibuf_run [OF pw_views(1,2) this, of 0] show ?thesis by force
qed

theorem phase_completes_witness:
  "\<exists>p. phase_reach env0 (rw_world 2) tally_ops 5 1 (phase_init 0 pw_state) p \<and> phase_over p \<and>
     sb_status (h_sb (ps_src p) 30) = 1 \<and> rf_parsed_files (h_rf (ps_src p) 5) 1 = 1 \<and>
     tally 30 (ps_src p) = tally 30 pw_state + 1"
proof -
  obtain p where p: "phase_reach env0 (rw_world 2) tally_ops 5 1 (phase_init 0 pw_state) p"
    "phase_over p" "ps_err p = 0" "\<forall>t \<in> set (ps_slots p). mp_ret t = 0"
    using tally_run by blast
  have "distinct (si_sibuf_head pw_state)" by (simp add: pw_views)
  from phase_completes [OF tally_ok this p] p(1,2) show ?thesis
    by (intro exI [of _ p]) (simp add: pw_views matching_def due_def)
qed

theorem phase_progresses_witness:
  "(\<exists>q. phase_step env0 (rw_world 2) (pw_ops 0) 5 1 (phase_init 0 pw_state) q) \<and>
   phase_work (phase_init 0 pw_state) \<le> 5"
proof -
  have "\<not> phase_over (phase_init 0 pw_state)" by (simp add: phase_over_def phase_init_def)
  moreover have "do_phase env0 (rw_world 2) (pw_ops 0) 5 t (ps_src (phase_init 0 pw_state)) \<noteq> None"
    if "t \<in> set (ps_slots (phase_init 0 pw_state))" "mp_in_use t = 2" for t
    using that by (auto simp: phase_init_def)
  ultimately show ?thesis
    using phase_progresses [OF pw_keep rtranclp.rtrancl_refl, of 0 pw_state env0 "rw_world 2" 0 5 1]
    by (auto simp: pw_views)
qed

theorem last_failure_lost_witness:
  "\<exists>s. parse_sibuf env0 (rw_world 2) (pw_ops (- 1)) 1 30 1 False pw_state = Some (- 1, s) \<and>
     parse_steps env0 (rw_world 2) (pw_ops (- 1)) 5 False 1 0 pw_state 0 (resfile_unload_all s)"
proof -
  obtain s where run: "parse_sibuf env0 (rw_world 2) (pw_ops (- 1)) 1 30 1 False pw_state = Some (- 1, s)"
    using pw_parse [of "- 1"] by auto
  have "(1 :: nat) < STEPMAX" by simp
  from last_failure_lost [OF pw_views(1,2) this run] run show ?thesis by blast
qed

theorem skipped_counts_as_parsed_witness:
  "\<exists>t' s'. do_phase env0 (rw_world 2) (pw_ops 0) 5
       \<lparr>mp_buf = 30, mp_ret = 0, mp_step = 4, mp_in_use = 2, mp_tid = 1\<rparr> pw_state = Some (t', s') \<and>
     sb_status (h_sb s' 30) = 4 \<and> rf_parsed_files (h_rf s' 5) 4 = 1"
proof -
  let ?t = "\<lparr>mp_buf = 30, mp_ret = 0, mp_step = 4, mp_in_use = 2, mp_tid = 1\<rparr>"
  have "\<exists>s. parse_sibuf env0 (rw_world 2) (pw_ops 0) 1 30 4 False pw_state = Some (0, s)"
    by (simp add: pw_eval)
  then obtain s' where run: "do_phase env0 (rw_world 2) (pw_ops 0) 5 ?t pw_state =
      Some (?t\<lparr>mp_buf := NULL, mp_in_use := 0\<rparr>, s')"
    by (auto simp: do_phase_def)
  have "int (sb_status (h_sb pw_state (mp_buf ?t))) \<noteq> int (mp_step ?t) - 1" "mp_ret ?t = 0"
    "mp_ret (?t\<lparr>mp_buf := NULL, mp_in_use := 0\<rparr>) = 0"
    by (simp_all add: pw_views)
  from skipped_counts_as_parsed [OF this(1,2) run this(3)] run show ?thesis
    by (simp add: pw_views)
qed

end
