(* ===== verification/Data_State.thy ===== *)
theory Data_State
  imports Prelude "HOL-Library.Multiset"
begin

text \<open>
  include/si_ds.h, first part: the runtime values (\<open>struct data_state_val\<close>), the data states
  that own one each and are reference counted (\<open>struct data_state_rw\<close>), and their
  allocation, release, copy and search. A value is a tree it owns; a reference to a data
  state goes through the store \<open>dsh\<close>, where a freed address is \<open>None\<close>. \<open>None\<close> as a result is
  an abort, an access to freed memory, or fuel that ran out.
\<close>

subsection \<open>Values\<close>

datatype dsvt = DSVT_UNK | DSVT_INT_CST | DSVT_REAL_CST | DSVT_ADDR | DSVT_REF | DSVT_CONSTRUCTOR

datatype dsv_section = DSV_SEC_UNK | DSV_SEC_1 | DSV_SEC_2 | DSV_SEC_3

fun dsv_get_section :: "dsvt \<Rightarrow> dsv_section" where
  "dsv_get_section DSVT_UNK = DSV_SEC_UNK"
| "dsv_get_section DSVT_INT_CST = DSV_SEC_1"
| "dsv_get_section DSVT_REAL_CST = DSV_SEC_1"
| "dsv_get_section DSVT_ADDR = DSV_SEC_2"
| "dsv_get_section DSVT_REF = DSV_SEC_2"
| "dsv_get_section DSVT_CONSTRUCTOR = DSV_SEC_3"

datatype dsv_subtype = DSV_SUBTYPE_DEF | DSV_SUBTYPE_UNION

text \<open>\<open>struct dsv_flag\<close>.\<close>

record dsv_flag =
  fl_refcount :: int
  fl_allocated :: bool
  fl_freed :: bool
  fl_init :: bool
  fl_used :: bool

definition flag_zero :: dsv_flag where
  "flag_zero = \<lparr>fl_refcount = 0, fl_allocated = False, fl_freed = False, fl_init = False, fl_used = False\<rparr>"

text \<open>
  The unions \<open>value\<close> and \<open>info\<close>: no value, the bytes of a constant, the data state a reference
  points to with offset and width in bits, or the elements of a constructor.
  \<open>v1_info.bytes\<close> and \<open>v3_info.total_bytes\<close> are the same word, \<open>dv_bytes\<close>.
\<close>

datatype dsv = Dsv (dv_value: dsv_value) (dv_raw: addr) (dv_type: dsvt) (dv_subtype: dsv_subtype)
    (dv_flag: dsv_flag) (dv_bytes: nat) (dv_sign: bool)
  and dsv_value = VNull | VBytes "8 word list" | VRef addr int nat | VElems "dsv1 list"
  and dsv1 = Dsv1 (d1_offset: int) (d1_bits: nat) (d1_val: dsv)

text \<open>\<open>struct data_state_rw\<close>: its base, the reference count and the value.\<close>

record ds_rw =
  ds_ref_base :: addr
  ds_ref_type :: nat
  ds_refcnt :: int
  ds_val :: dsv

record dsh =
  ds_map :: "addr \<Rightarrow> ds_rw option"
  ds_brk :: addr

abbreviation (input) DSRT_UNK :: nat where "DSRT_UNK \<equiv> 0"
abbreviation (input) DSRT_VN :: nat where "DSRT_VN \<equiv> 1"
abbreviation (input) DSRT_FN :: nat where "DSRT_FN \<equiv> 2"
abbreviation (input) DSRT_RAW :: nat where "DSRT_RAW \<equiv> 3"
abbreviation (input) DSRT_REG :: nat where "DSRT_REG \<equiv> 4"

abbreviation (input) BITS_PER_UNIT :: nat where "BITS_PER_UNIT \<equiv> 8"

text \<open>The zeroed memory of a new value; \<open>dsv_alloc\<close>.\<close>

definition dsv_alloc :: dsv where
  "dsv_alloc = Dsv VNull NULL DSVT_UNK DSV_SUBTYPE_DEF flag_zero 0 False"

fun dsv_set_raw :: "addr \<Rightarrow> dsv \<Rightarrow> dsv" where
  "dsv_set_raw raw (Dsv v r t st f n sg) = Dsv v raw t st f n sg"

definition dsv1_alloc :: "addr \<Rightarrow> int \<Rightarrow> nat \<Rightarrow> dsv1" where
  "dsv1_alloc raw offset bits = Dsv1 offset bits (dsv_set_raw raw dsv_alloc)"

text \<open>
  \<open>ds_rw_new\<close>: a data state of its own address, with one reference, the caller's. The base is
  set by \<open>ds_init_base\<close>, whose fields have 48 and 8 bits.
\<close>

definition ds_rw_new :: "addr \<Rightarrow> nat \<Rightarrow> addr \<Rightarrow> dsh \<Rightarrow> addr \<times> dsh" where
  "ds_rw_new a ty raw h =
     (ds_brk h, h\<lparr>ds_map := (ds_map h)(ds_brk h \<mapsto>
        \<lparr>ds_ref_base = a mod 2 ^ 48, ds_ref_type = ty mod 2 ^ 8, ds_refcnt = 1, ds_val = dsv_set_raw raw dsv_alloc\<rparr>),
      ds_brk := ds_brk h + 1\<rparr>)"

subsection \<open>Reference counts and release\<close>

text \<open>\<open>ds_hold\<close>; the memory of a freed data state is not touched again.\<close>

definition ds_hold :: "addr \<Rightarrow> dsh \<Rightarrow> dsh option" where
  "ds_hold a h =
     (if a = NULL then Some h
      else case ds_map h a of
          None \<Rightarrow> None
        | Some r \<Rightarrow> Some (h\<lparr>ds_map := (ds_map h)(a \<mapsto> r\<lparr>ds_refcnt := ds_refcnt r + 1\<rparr>)\<rparr>))"

text \<open>
  \<open>dsv_free_data\<close>, \<open>dsv1_free\<close> over the elements, and \<open>ds_drop\<close> with \<open>ds_destroy\<close>. The fuel
  bounds the nesting of destroyed data states. The count is 0 while the value of a data
  state is released, and only then is its memory freed.
\<close>

function (sequential) dsv_free_data :: "nat \<Rightarrow> dsv \<Rightarrow> dsh \<Rightarrow> (dsv \<times> dsh) option"
  and dsv1_free_all :: "nat \<Rightarrow> dsv1 list \<Rightarrow> dsh \<Rightarrow> dsh option"
  and ds_drop :: "nat \<Rightarrow> addr \<Rightarrow> dsh \<Rightarrow> dsh option" where
  "dsv_free_data n (Dsv v r t st f k sg) h =
     (case dsv_get_section t of
        DSV_SEC_UNK \<Rightarrow> Some (Dsv v r DSVT_UNK st f k sg, h)
      | DSV_SEC_1 \<Rightarrow> Some (Dsv VNull r DSVT_UNK st f k sg, h)
      | DSV_SEC_2 \<Rightarrow>
          (case v of
             VRef a offset bits \<Rightarrow> do {
               h \<leftarrow> ds_drop n a h;
               Some (Dsv VNull r DSVT_UNK st f k sg, h)
             }
           | _ \<Rightarrow> None)
      | DSV_SEC_3 \<Rightarrow>
          (case v of
             VElems es \<Rightarrow> do {
               h \<leftarrow> dsv1_free_all n es h;
               Some (Dsv VNull r DSVT_UNK st f k sg, h)
             }
           | _ \<Rightarrow> None))"
| "dsv1_free_all n [] h = Some h"
| "dsv1_free_all n (Dsv1 offset bits d # es) h =
     do { (d, h) \<leftarrow> dsv_free_data n d h; dsv1_free_all n es h }"
| "ds_drop n a h =
     (if a = NULL then Some h
      else case ds_map h a of
          None \<Rightarrow> None
        | Some r \<Rightarrow>
            let h = h\<lparr>ds_map := (ds_map h)(a \<mapsto> r\<lparr>ds_refcnt := ds_refcnt r - 1\<rparr>)\<rparr>
            in if ds_refcnt r - 1 \<noteq> 0 then Some h
               else case n of
                   0 \<Rightarrow> None
                 | Suc m \<Rightarrow> do {
                     (d, h) \<leftarrow> dsv_free_data m (ds_val r) h;
                     Some (h\<lparr>ds_map := (ds_map h)(a := None)\<rparr>)
                   })"
  by pat_completeness auto

termination
  by (relation "measures
      [\<lambda>x. case x of Inl (n, d, h) \<Rightarrow> n | Inr (Inl (n, es, h)) \<Rightarrow> n | Inr (Inr (n, a, h)) \<Rightarrow> n,
       \<lambda>x. case x of Inl (n, d, h) \<Rightarrow> size d | Inr (Inl (n, es, h)) \<Rightarrow> size_list size es | Inr (Inr _) \<Rightarrow> 0]")
    auto

text \<open>\<open>dsv_free\<close>: the value and its own memory.\<close>

definition dsv_free :: "nat \<Rightarrow> dsv \<Rightarrow> dsh \<Rightarrow> dsh option" where
  "dsv_free n d h = map_option snd (dsv_free_data n d h)"

subsection \<open>Allocation of the data of a value\<close>

fun dsv_set :: "dsv_value \<Rightarrow> dsvt \<Rightarrow> dsv_subtype \<Rightarrow> dsv \<Rightarrow> dsv" where
  "dsv_set v t st (Dsv _ r _ _ f k sg) = Dsv v r t st f k sg"

fun dsv_set_value :: "dsv_value \<Rightarrow> dsv \<Rightarrow> dsv" where
  "dsv_set_value v (Dsv _ r t st f k sg) = Dsv v r t st f k sg"

fun dsv_set_info :: "nat \<Rightarrow> bool \<Rightarrow> dsv \<Rightarrow> dsv" where
  "dsv_set_info k sg (Dsv v r t st f _ _) = Dsv v r t st f k sg"

definition dsv_alloc_data ::
    "nat \<Rightarrow> dsv \<Rightarrow> dsvt \<Rightarrow> dsv_subtype \<Rightarrow> nat \<Rightarrow> dsh \<Rightarrow> (dsv \<times> dsh) option" where
  "dsv_alloc_data n d val_type subtype bytes h =
     (if dsv_get_section val_type = DSV_SEC_1 \<and> dv_type d = val_type \<and> dv_bytes d = bytes
      then Some (dsv_set_value (VBytes (replicate bytes 0)) d, h)
      else do {
        (d, h) \<leftarrow> dsv_free_data n d h;
        (case dsv_get_section val_type of
           DSV_SEC_UNK \<Rightarrow> Some (dsv_set VNull val_type subtype d, h)
         | DSV_SEC_1 \<Rightarrow> do {
             BUG_ON (bytes = 0);
             Some (dsv_set_info bytes (dv_sign d) (dsv_set (VBytes (replicate bytes 0)) val_type subtype d), h)
           }
         | DSV_SEC_2 \<Rightarrow> Some (dsv_set (VRef NULL 0 0) val_type subtype d, h)
         | DSV_SEC_3 \<Rightarrow> Some (dsv_set (VElems []) val_type subtype d, h))
      })"

text \<open>The elements of a string constant.\<close>

definition str_elem :: "addr \<Rightarrow> nat \<Rightarrow> 8 word \<Rightarrow> dsv1" where
  "str_elem raw i c = Dsv1 (int (i * BITS_PER_UNIT)) (1 * BITS_PER_UNIT)
     (Dsv (VBytes [c]) raw DSVT_INT_CST DSV_SUBTYPE_DEF flag_zero 1 False)"

definition dsv_fill_str_data :: "addr \<Rightarrow> 8 word list \<Rightarrow> dsv1 list \<Rightarrow> dsv1 list" where
  "dsv_fill_str_data raw str es =
     (let es = es @ map (\<lambda>i. str_elem raw i (str ! i)) [0..<length str]
      in if str \<noteq> [] \<and> last str \<noteq> 0 then es @ [str_elem raw (length str) 0] else es)"

subsection \<open>References\<close>

text \<open>
  \<open>__ds_vref_setv\<close>; \<open>at\<close> is the data state whose own value is set, if it is one. A value
  that refers to itself is refused.
\<close>

definition ds_vref_set_raw :: "addr option \<Rightarrow> dsv \<Rightarrow> addr \<Rightarrow> int \<Rightarrow> nat \<Rightarrow> (int \<times> dsv) option" where
  "ds_vref_set_raw at t ds offset bits =
     (if dv_type t = DSVT_REF \<and> at = Some ds then Some (- 1, t)
      else case dv_value t of
          VRef _ _ _ \<Rightarrow> Some (0, dsv_set_value (VRef ds offset bits) t)
        | _ \<Rightarrow> None)"

definition ds_vref_hold_setv ::
    "addr option \<Rightarrow> dsv \<Rightarrow> addr \<Rightarrow> int \<Rightarrow> nat \<Rightarrow> dsh \<Rightarrow> (int \<times> dsv \<times> dsh) option" where
  "ds_vref_hold_setv at t ds offset bits h =
     do {
       (err, t) \<leftarrow> ds_vref_set_raw at t ds offset bits;
       (if err = 0 then do { h \<leftarrow> ds_hold ds h; Some (err, t, h) } else Some (err, t, h))
     }"

text \<open>A reference to a data state that is itself a reference is replaced by what that refers to.\<close>

definition ds_vref_setv ::
    "addr option \<Rightarrow> dsv \<Rightarrow> addr \<Rightarrow> int \<Rightarrow> nat \<Rightarrow> dsh \<Rightarrow> (int \<times> dsv \<times> dsh) option" where
  "ds_vref_setv at t ds offset bits h =
     do {
       r \<leftarrow> ds_map h ds;
       (if dv_type (ds_val r) = DSVT_REF
        then (case dv_value (ds_val r) of
            VRef a o2 _ \<Rightarrow> ds_vref_hold_setv at t a (offset + o2) bits h
          | _ \<Rightarrow> None)
        else ds_vref_hold_setv at t ds offset bits h)
     }"

subsection \<open>Copying a value\<close>

text \<open>
  \<open>__dsv_copy_data\<close>: the return value, the new destination and the store; the first is
  \<open>at\<close> as above. The loop over the elements gives the elements copied so far.
\<close>

fun dsv_copy_rec :: "nat \<Rightarrow> addr option \<Rightarrow> dsv \<Rightarrow> dsv \<Rightarrow> dsh \<Rightarrow> (int \<times> dsv \<times> dsh) option"
  and dsv_copy_elems :: "nat \<Rightarrow> dsv1 list \<Rightarrow> dsv1 list \<Rightarrow> dsh \<Rightarrow> (int \<times> dsv1 list \<times> dsh) option" where
  "dsv_copy_rec n at dst (Dsv v r t st f k sg) h =
     do {
       (dst, h) \<leftarrow> dsv_free_data n dst h;
       (ret, dst, h) \<leftarrow> (case dsv_get_section t of
           DSV_SEC_UNK \<Rightarrow> Some (0, dst, h)
         | DSV_SEC_1 \<Rightarrow> do {
             (dst, h) \<leftarrow> dsv_alloc_data n dst t DSV_SUBTYPE_DEF k h;
             (case v of
                VBytes bs \<Rightarrow>
                  if length bs < k then None else Some (0, dsv_set_value (VBytes (take k bs)) dst, h)
              | _ \<Rightarrow> None)
           }
         | DSV_SEC_2 \<Rightarrow> do {
             (dst, h) \<leftarrow> dsv_alloc_data n dst t DSV_SUBTYPE_DEF 0 h;
             (case v of
                VRef a offset bits \<Rightarrow> ds_vref_hold_setv at dst a offset bits h
              | _ \<Rightarrow> None)
           }
         | DSV_SEC_3 \<Rightarrow> do {
             (dst, h) \<leftarrow> dsv_alloc_data n dst t st 0 h;
             let dst = dsv_set_info k (dv_sign dst) dst;
             (case v of
                VElems es \<Rightarrow> do {
                  (ret, es, h) \<leftarrow> dsv_copy_elems n es [] h;
                  Some (ret, dsv_set_value (VElems es) dst, h)
                }
              | _ \<Rightarrow> None)
           });
       (if ret = 0 then Some (ret, dsv_set_raw r (dsv_set_info k sg dst), h) else Some (ret, dst, h))
     }"
| "dsv_copy_elems n [] acc h = Some (0, acc, h)"
| "dsv_copy_elems n (Dsv1 offset bits d # es) acc h =
     do {
       (ret, d', h) \<leftarrow> dsv_copy_rec n None (dsv_set_raw (dv_raw d) dsv_alloc) d h;
       (if ret = - 1 then do {
          (_, h) \<leftarrow> dsv_free_data n d' h;
          Some (- 1, acc, h)
        }
        else dsv_copy_elems n es (acc @ [Dsv1 offset bits d']) h)
     }"

text \<open>
  \<open>dsv_copy_data\<close>; \<open>same\<close> is whether destination and source are the same value. Otherwise the
  source is outside what the destination owns.
\<close>

definition dsv_copy_data ::
    "nat \<Rightarrow> bool \<Rightarrow> addr option \<Rightarrow> dsv \<Rightarrow> dsv \<Rightarrow> dsh \<Rightarrow> (int \<times> dsv \<times> dsh) option" where
  "dsv_copy_data n same at dst src h =
     (if same then Some (0, dst, h)
      else if dv_type dst = DSVT_CONSTRUCTOR \<and> dv_type src \<noteq> DSVT_CONSTRUCTOR then Some (- 1, dst, h)
      else if dv_type src = DSVT_CONSTRUCTOR \<and> dv_type dst \<noteq> DSVT_CONSTRUCTOR then Some (- 1, dst, h)
      else if dv_type src = DSVT_CONSTRUCTOR \<and> dv_subtype dst \<noteq> dv_subtype src then Some (- 1, dst, h)
      else dsv_copy_rec n at dst src h)"

definition dsv_copy_data_force ::
    "nat \<Rightarrow> addr option \<Rightarrow> dsv \<Rightarrow> dsv \<Rightarrow> dsh \<Rightarrow> (int \<times> dsv \<times> dsh) option" where
  "dsv_copy_data_force n at dst src h = dsv_copy_rec n at dst src h"

end
