(* ===== verification/Data_State_Refs.thy ===== *)
theory Data_State_Refs
  imports Data_State
begin

text \<open>
  The reference counts of the data states: the invariant that every count is the number of
  references there are, and what the release of values keeps of it.
\<close>

subsection \<open>References of a value\<close>

definition ref_mset :: "addr \<Rightarrow> addr multiset" where
  "ref_mset a = (if a = NULL then {#} else {#a#})"

fun dsv_refs :: "dsv \<Rightarrow> addr multiset" and dsv1s_refs :: "dsv1 list \<Rightarrow> addr multiset" where
  "dsv_refs (Dsv v r t st f k sg) =
     (case dsv_get_section t of
        DSV_SEC_2 \<Rightarrow> (case v of VRef a offset bits \<Rightarrow> ref_mset a | _ \<Rightarrow> {#})
      | DSV_SEC_3 \<Rightarrow> (case v of VElems es \<Rightarrow> dsv1s_refs es | _ \<Rightarrow> {#})
      | _ \<Rightarrow> {#})"
| "dsv1s_refs [] = {#}"
| "dsv1s_refs (Dsv1 offset bits d # es) = dsv_refs d + dsv1s_refs es"

text \<open>The value has the form its type says.\<close>

fun dsv_wf :: "dsv \<Rightarrow> bool" and dsv1s_wf :: "dsv1 list \<Rightarrow> bool" where
  "dsv_wf (Dsv v r t st f k sg) =
     (case dsv_get_section t of
        DSV_SEC_UNK \<Rightarrow> v = VNull
      | DSV_SEC_1 \<Rightarrow> (case v of VBytes bs \<Rightarrow> length bs = k \<and> 0 < k | _ \<Rightarrow> False)
      | DSV_SEC_2 \<Rightarrow> (case v of VRef a offset bits \<Rightarrow> True | _ \<Rightarrow> False)
      | DSV_SEC_3 \<Rightarrow> (case v of VElems es \<Rightarrow> dsv1s_wf es | _ \<Rightarrow> False))"
| "dsv1s_wf [] = True"
| "dsv1s_wf (Dsv1 offset bits d # es) \<longleftrightarrow> dsv_wf d \<and> dsv1s_wf es"

lemma dsv1s_refs_append [simp]: "dsv1s_refs (es @ fs) = dsv1s_refs es + dsv1s_refs fs"
proof (induction es)
  case (Cons e es)
  then show ?case by (cases e) simp
qed simp

lemma dsv1s_wf_append [simp]: "dsv1s_wf (es @ fs) \<longleftrightarrow> dsv1s_wf es \<and> dsv1s_wf fs"
proof (induction es)
  case (Cons e es)
  then show ?case by (cases e) simp
qed simp

subsection \<open>The invariant\<close>

text \<open>
  \<open>Z\<close> are the data states whose value is being released, \<open>ext\<close> the references held outside
  the store (by lists, local variables and the values at hand).
\<close>

abbreviation val_at :: "dsh \<Rightarrow> addr \<Rightarrow> dsv" where
  "val_at h a \<equiv> ds_val (the (ds_map h a))"

definition all_refs :: "dsh \<Rightarrow> addr set \<Rightarrow> addr multiset \<Rightarrow> addr multiset" where
  "all_refs h Z ext = ext + (\<Sum>b \<in> dom (ds_map h) - Z. dsv_refs (val_at h b))"

definition ref_inv :: "dsh \<Rightarrow> addr set \<Rightarrow> addr multiset \<Rightarrow> bool" where
  "ref_inv h Z ext \<longleftrightarrow>
     finite (dom (ds_map h)) \<and> NULL \<notin> dom (ds_map h) \<and> Z \<subseteq> dom (ds_map h) \<and>
     (\<forall>a \<in> dom (ds_map h). a < ds_brk h) \<and> 0 < ds_brk h \<and>
     (\<forall>a \<in> dom (ds_map h) - Z. dsv_wf (val_at h a)) \<and>
     (\<forall>a. a \<notin> dom (ds_map h) \<or> a \<in> Z \<longrightarrow> count (all_refs h Z ext) a = 0) \<and>
     (\<forall>a \<in> dom (ds_map h). ds_refcnt (the (ds_map h a)) = int (count (all_refs h Z ext) a))"

declare ref_inv_def [inv_defs]

text \<open>\<open>shrinks h h'\<close>: some data states are gone, the values of the others are as before.\<close>

definition shrinks :: "dsh \<Rightarrow> dsh \<Rightarrow> bool" where
  "shrinks h h' \<longleftrightarrow> dom (ds_map h') \<subseteq> dom (ds_map h) \<and> ds_brk h' = ds_brk h \<and>
     (\<forall>a \<in> dom (ds_map h'). val_at h' a = val_at h a)"

lemma shrinks_refl [simp]: "shrinks h h"
  by (simp add: shrinks_def)

lemma shrinks_trans: "shrinks h g \<Longrightarrow> shrinks g k \<Longrightarrow> shrinks h k"
  by (simp add: shrinks_def) (metis (no_types) subset_eq)

definition set_refcnt :: "addr \<Rightarrow> int \<Rightarrow> dsh \<Rightarrow> dsh" where
  "set_refcnt a c h = h\<lparr>ds_map := (ds_map h)(a \<mapsto> (the (ds_map h a))\<lparr>ds_refcnt := c\<rparr>)\<rparr>"

lemma set_refcnt_simps:
  assumes "ds_map h a = Some r"
  shows "dom (ds_map (set_refcnt a c h)) = dom (ds_map h)" "val_at (set_refcnt a c h) b = val_at h b"
    "ds_brk (set_refcnt a c h) = ds_brk h"
    "ds_refcnt (the (ds_map (set_refcnt a c h) b)) = (if b = a then c else ds_refcnt (the (ds_map h b)))"
    "ds_map (set_refcnt a c h) a = Some (r\<lparr>ds_refcnt := c\<rparr>)"
  using assms by (auto simp: set_refcnt_def)

lemma all_refs_set_refcnt:
  "ds_map h a = Some r \<Longrightarrow> all_refs (set_refcnt a c h) Z ext = all_refs h Z ext"
  by (simp add: all_refs_def set_refcnt_simps)

lemma all_refs_add: "all_refs h Z (add_mset a ext) = add_mset a (all_refs h Z ext)"
  by (simp add: all_refs_def)

lemma all_refs_insert:
  assumes "finite (dom (ds_map h))" "a \<in> dom (ds_map h)" "a \<notin> Z"
  shows "all_refs h (insert a Z) (ext + dsv_refs (val_at h a)) = all_refs h Z ext"
proof -
  have "dom (ds_map h) - insert a Z = (dom (ds_map h) - Z) - {a}" by blast
  then show ?thesis using assms
    by (simp add: all_refs_def sum.remove [of "dom (ds_map h) - Z" a] add.assoc)
qed

lemma ref_inv_live:
  assumes "ref_inv h Z (add_mset a ext)"
  shows "a \<in> dom (ds_map h)" "a \<notin> Z"
    "ds_refcnt (the (ds_map h a)) = int (count (all_refs h Z ext) a) + 1"
proof -
  have c: "count (all_refs h Z (add_mset a ext)) a = count (all_refs h Z ext) a + 1"
    by (simp add: all_refs_add)
  show d: "a \<in> dom (ds_map h)" "a \<notin> Z" using assms c by (auto simp: ref_inv_def)
  have "ds_refcnt (the (ds_map h a)) = int (count (all_refs h Z (add_mset a ext)) a)"
    using assms d(1) unfolding ref_inv_def by blast
  then show "ds_refcnt (the (ds_map h a)) = int (count (all_refs h Z ext) a) + 1" using c by simp
qed

text \<open>Giving one reference back, while others remain.\<close>

lemma ref_inv_dec:
  assumes "ref_inv h Z (add_mset a ext)"
  shows "ref_inv (set_refcnt a (ds_refcnt (the (ds_map h a)) - 1) h) Z ext"
proof -
  let ?h = "set_refcnt a (ds_refcnt (the (ds_map h a)) - 1) h"
  note live = ref_inv_live [OF assms]
  from live(1) obtain r where r: "ds_map h a = Some r" by blast
  note s = set_refcnt_simps [OF r]
  have refs: "all_refs ?h Z ext = all_refs h Z ext" by (rule all_refs_set_refcnt [OF r])
  have cnt: "count (all_refs h Z (add_mset a ext)) b =
      count (all_refs h Z ext) b + (if b = a then 1 else 0)" for b
    by (simp add: all_refs_add)
  have z: "count (all_refs h Z ext) b = 0" if "b \<notin> dom (ds_map h) \<or> b \<in> Z" for b
  proof -
    have "count (all_refs h Z (add_mset a ext)) b = 0" using assms that unfolding ref_inv_def by blast
    then show ?thesis using cnt [of b] by simp
  qed
  have c: "ds_refcnt (the (ds_map ?h b)) = int (count (all_refs h Z ext) b)" if "b \<in> dom (ds_map h)" for b
  proof -
    have "ds_refcnt (the (ds_map h b)) = int (count (all_refs h Z (add_mset a ext)) b)"
      using assms that unfolding ref_inv_def by blast
    then show ?thesis using cnt [of b] live(3) by (simp add: s)
  qed
  show ?thesis using assms z c unfolding ref_inv_def refs by (simp add: s)
qed

text \<open>Taking one more reference.\<close>

lemma ref_inv_inc:
  assumes "ref_inv h Z ext" "ds_map h a = Some r" "a \<notin> Z"
  shows "ref_inv (set_refcnt a (ds_refcnt r + 1) h) Z (add_mset a ext)"
proof -
  let ?h = "set_refcnt a (ds_refcnt r + 1) h"
  note s = set_refcnt_simps [OF assms(2)]
  have refs: "all_refs ?h Z (add_mset a ext) = add_mset a (all_refs h Z ext)"
    by (simp add: all_refs_set_refcnt [OF assms(2)] all_refs_add)
  have z: "count (add_mset a (all_refs h Z ext)) b = 0" if "b \<notin> dom (ds_map h) \<or> b \<in> Z" for b
  proof -
    have "count (all_refs h Z ext) b = 0" "b \<noteq> a" using assms that unfolding ref_inv_def by blast+
    then show ?thesis by simp
  qed
  have c: "ds_refcnt (the (ds_map ?h b)) = int (count (add_mset a (all_refs h Z ext)) b)"
    if "b \<in> dom (ds_map h)" for b
  proof -
    have "ds_refcnt (the (ds_map h b)) = int (count (all_refs h Z ext) b)"
      using assms(1) that unfolding ref_inv_def by blast
    then show ?thesis using assms(2) by (cases "b = a") (simp_all add: s)
  qed
  show ?thesis using assms(1) z c unfolding ref_inv_def refs by (simp add: s)
qed

text \<open>Starting and ending the release of the value of a data state that nobody refers to.\<close>

lemma ref_inv_zombie:
  assumes "ref_inv h Z ext" "a \<in> dom (ds_map h)" "a \<notin> Z" "ds_refcnt (the (ds_map h a)) = 0"
  shows "ref_inv h (insert a Z) (ext + dsv_refs (val_at h a))"
proof -
  have fin: "finite (dom (ds_map h))" using assms(1) by (simp add: ref_inv_def)
  note refs = all_refs_insert [OF fin assms(2,3), of ext]
  have "int (count (all_refs h Z ext) a) = 0" using assms(1,2,4) unfolding ref_inv_def by metis
  then show ?thesis using assms(1-3) unfolding ref_inv_def refs by auto
qed

lemma ref_inv_gone:
  assumes "ref_inv h (insert a Z) ext" "a \<notin> Z"
  shows "ref_inv (h\<lparr>ds_map := (ds_map h)(a := None)\<rparr>) Z ext"
proof -
  let ?h = "h\<lparr>ds_map := (ds_map h)(a := None)\<rparr>"
  have dm: "dom (ds_map ?h) - Z = dom (ds_map h) - insert a Z" by auto
  have at: "val_at ?h b = val_at h b" if "b \<in> dom (ds_map h) - insert a Z" for b using that by auto
  have refs: "all_refs ?h Z ext = all_refs h (insert a Z) ext"
    unfolding all_refs_def dm by (intro arg_cong [of _ _ "\<lambda>x. ext + x"] sum.cong) (simp_all add: at)
  show ?thesis using assms unfolding ref_inv_def refs by (auto simp: at)
qed

subsection \<open>Releasing values\<close>

fun dsv_freed :: "dsv \<Rightarrow> dsv" where
  "dsv_freed (Dsv v r t st f k sg) = Dsv VNull r DSVT_UNK st f k sg"

text \<open>What a release with the references \<open>m\<close> does to the store.\<close>

definition releases :: "dsh \<Rightarrow> addr set \<Rightarrow> addr multiset \<Rightarrow> dsh \<Rightarrow> bool" where
  "releases h Z ext h' \<longleftrightarrow> ref_inv h' Z ext \<and> shrinks h h'"

lemma card_live_mono:
  assumes "ref_inv h Z ext" "shrinks h h'"
  shows "card (dom (ds_map h') - Z) \<le> card (dom (ds_map h) - Z)"
  using assms by (intro card_mono) (auto simp: ref_inv_def shrinks_def)

lemma drop_zero_case:
  assumes "ref_inv h Z (add_mset a ext)" "ds_map h a = Some r" "ds_refcnt r = 1"
    and "card (dom (ds_map h) - Z) \<le> n" and g: "g = set_refcnt a 0 h"
  shows "\<exists>m. n = Suc m \<and> ref_inv g (insert a Z) (ext + dsv_refs (ds_val r)) \<and> dsv_wf (ds_val r) \<and>
    card (dom (ds_map g) - insert a Z) \<le> m"
proof -
  note live = ref_inv_live [OF assms(1)]
  note s = set_refcnt_simps [OF assms(2)]
  have dec: "ref_inv g Z ext" using ref_inv_dec [OF assms(1)] assms(2,3) by (simp add: g)
  have "ref_inv g (insert a Z) (ext + dsv_refs (val_at g a))"
    by (rule ref_inv_zombie [OF dec]) (use live s g in simp_all)
  then have z: "ref_inv g (insert a Z) (ext + dsv_refs (ds_val r))" using assms(2) by (simp add: g s)
  have "dsv_wf (val_at h a)" using assms(1) live(1,2) unfolding ref_inv_def by blast
  then have wf: "dsv_wf (ds_val r)" using assms(2) by simp
  have fin: "finite (dom (ds_map h) - Z)" using assms(1) by (simp add: ref_inv_def)
  have "dom (ds_map g) - insert a Z = (dom (ds_map h) - Z) - {a}" by (auto simp: g s)
  then have "card (dom (ds_map g) - insert a Z) < card (dom (ds_map h) - Z)"
    using card_Diff1_less [OF fin, of a] live by simp
  then obtain m where "n = Suc m" "card (dom (ds_map g) - insert a Z) \<le> m"
    using assms(4) by (cases n) auto
  then show ?thesis using z wf by blast
qed

text \<open>
  With fuel for every live data state, the release of a well-formed value whose references
  are counted succeeds and gives its references back.
\<close>

lemma release_all:
  "(\<forall>Z ext. ref_inv h Z (ext + dsv_refs d) \<and> dsv_wf d \<and> card (dom (ds_map h) - Z) \<le> n \<longrightarrow>
     (\<exists>h'. dsv_free_data n d h = Some (dsv_freed d, h') \<and> releases h Z ext h'))"
  "(\<forall>Z ext. ref_inv h Z (ext + dsv1s_refs es) \<and> dsv1s_wf es \<and> card (dom (ds_map h) - Z) \<le> n \<longrightarrow>
     (\<exists>h'. dsv1_free_all n es h = Some h' \<and> releases h Z ext h'))"
  "(\<forall>Z ext. ref_inv h Z (ext + ref_mset a) \<and> card (dom (ds_map h) - Z) \<le> n \<longrightarrow>
     (\<exists>h'. ds_drop n a h = Some h' \<and> releases h Z ext h'))"
proof (induction n d h and n es h and n a h rule: dsv_free_data_dsv1_free_all_ds_drop.induct)
  case (1 n v r t st f k sg h)
  show ?case
  proof (intro allI impI, elim conjE)
    fix Z ext
    assume inv: "ref_inv h Z (ext + dsv_refs (Dsv v r t st f k sg))" and wf: "dsv_wf (Dsv v r t st f k sg)"
      and card: "card (dom (ds_map h) - Z) \<le> n"
    show "\<exists>h'. dsv_free_data n (Dsv v r t st f k sg) h = Some (dsv_freed (Dsv v r t st f k sg), h') \<and>
        releases h Z ext h'"
    proof (cases "dsv_get_section t")
      case DSV_SEC_UNK
      then show ?thesis using inv wf by (simp add: releases_def)
    next
      case DSV_SEC_1
      then show ?thesis using inv by (simp add: releases_def)
    next
      case DSV_SEC_2
      then obtain a offset bits where v: "v = VRef a offset bits" using wf by (cases v) auto
      from 1(1) [OF DSV_SEC_2 v] obtain h' where "ds_drop n a h = Some h'" "releases h Z ext h'"
        using inv card DSV_SEC_2 v by auto
      then show ?thesis using DSV_SEC_2 v by simp
    next
      case DSV_SEC_3
      then obtain es where v: "v = VElems es" using wf by (cases v) auto
      from 1(2) [OF DSV_SEC_3 v] obtain h' where "dsv1_free_all n es h = Some h'" "releases h Z ext h'"
        using inv wf card DSV_SEC_3 v by auto
      then show ?thesis using DSV_SEC_3 v by simp
    qed
  qed
next
  case (2 n h)
  then show ?case by (simp add: releases_def)
next
  case (3 n offset bits d es h)
  show ?case
  proof (intro allI impI, elim conjE)
    fix Z ext
    assume inv: "ref_inv h Z (ext + dsv1s_refs (Dsv1 offset bits d # es))"
      and wf: "dsv1s_wf (Dsv1 offset bits d # es)" and card: "card (dom (ds_map h) - Z) \<le> n"
    have "ref_inv h Z ((ext + dsv1s_refs es) + dsv_refs d)" using inv by (simp add: ac_simps)
    then obtain h1 where one: "dsv_free_data n d h = Some (dsv_freed d, h1)"
      "releases h Z (ext + dsv1s_refs es) h1"
      using 3(1) wf card by auto
    then have "ref_inv h1 Z (ext + dsv1s_refs es)" "card (dom (ds_map h1) - Z) \<le> n"
      using card_live_mono [OF inv] card by (auto simp: releases_def intro: order_trans)
    then obtain h' where two: "dsv1_free_all n es h1 = Some h'" "releases h1 Z ext h'"
      using 3(2) [OF one(1) refl] wf by auto
    then have "releases h Z ext h'" using one(2) shrinks_trans by (auto simp: releases_def)
    then show "\<exists>h'. dsv1_free_all n (Dsv1 offset bits d # es) h = Some h' \<and> releases h Z ext h'"
      using one(1) two(1) by simp
  qed
next
  case (4 n a h)
  show ?case
  proof (intro allI impI, elim conjE)
    fix Z ext
    assume inv: "ref_inv h Z (ext + ref_mset a)" and card: "card (dom (ds_map h) - Z) \<le> n"
    show "\<exists>h'. ds_drop n a h = Some h' \<and> releases h Z ext h'"
    proof (cases "a = NULL")
      case True
      then show ?thesis using inv by (simp add: ref_mset_def releases_def)
    next
      case False
      then have inv: "ref_inv h Z (add_mset a ext)" using inv by (simp add: ref_mset_def)
      then obtain r where r: "ds_map h a = Some r" using ref_inv_live(1) by blast
      let ?g = "set_refcnt a (ds_refcnt r - 1) h"
      have g: "h\<lparr>ds_map := (ds_map h)(a \<mapsto> r\<lparr>ds_refcnt := ds_refcnt r - 1\<rparr>)\<rparr> = ?g"
        using r by (simp add: set_refcnt_def)
      have sh: "shrinks h ?g" using set_refcnt_simps [OF r] by (simp add: shrinks_def)
      show ?thesis
      proof (cases "ds_refcnt r - 1 = 0")
        case nz: False
        have "ref_inv ?g Z ext" using ref_inv_dec [OF inv] r by simp
        then show ?thesis using False r nz sh g by (simp add: releases_def)
      next
        case zero: True
        then have one: "ds_refcnt r = 1" by simp
        have g0: "?g = set_refcnt a 0 h" using one by simp
        from drop_zero_case [OF inv r one card g0] obtain m where m: "n = Suc m"
          "ref_inv ?g (insert a Z) (ext + dsv_refs (ds_val r))" "dsv_wf (ds_val r)"
          "card (dom (ds_map ?g) - insert a Z) \<le> m" by blast
        then obtain h2 where h2: "dsv_free_data m (ds_val r) ?g = Some (dsv_freed (ds_val r), h2)"
          "releases ?g (insert a Z) ext h2"
          using 4 False r zero g by fastforce
        let ?h3 = "h2\<lparr>ds_map := (ds_map h2)(a := None)\<rparr>"
        have run: "ds_drop n a h = Some ?h3" using False r zero g m(1) h2(1) by simp
        have "a \<notin> Z" by (rule ref_inv_live(2) [OF inv])
        then have "ref_inv ?h3 Z ext" using ref_inv_gone h2(2) by (simp add: releases_def)
        moreover have "shrinks ?g ?h3" using h2(2) by (auto simp: releases_def shrinks_def)
        ultimately have "releases h Z ext ?h3" using sh shrinks_trans by (auto simp: releases_def)
        then show ?thesis using run by blast
      qed
    qed
  qed
qed

end
