(* ===== verification/Data_State_Copy.thy ===== *)
theory Data_State_Copy
  imports Data_State_Refs
begin

text \<open>
  Copying values (\<open>dsv_copy_data\<close> of include/si_ds.h): the reference counts stay exact and the
  copy is the source, and the properties of release and copy.
\<close>

subsection \<open>What a copy is\<close>

text \<open>
  The part of a value a copy carries over: the flags are not copied, and the subtype only
  of a constructor.
\<close>

fun dsv_norm :: "dsv \<Rightarrow> dsv" and dsv1s_norm :: "dsv1 list \<Rightarrow> dsv1 list" where
  "dsv_norm (Dsv v r t st f k sg) =
     (case v of
        VElems es \<Rightarrow> Dsv (VElems (dsv1s_norm es)) r t st flag_zero k sg
      | _ \<Rightarrow> Dsv v r t DSV_SUBTYPE_DEF flag_zero k sg)"
| "dsv1s_norm [] = []"
| "dsv1s_norm (Dsv1 offset bits d # es) = Dsv1 offset bits (dsv_norm d) # dsv1s_norm es"

lemma dsv1s_norm_append [simp]: "dsv1s_norm (es @ fs) = dsv1s_norm es @ dsv1s_norm fs"
proof (induction es)
  case (Cons e es)
  then show ?case by (cases e) simp
qed simp

lemma dsv_freed_simps [simp]:
  "dsv_refs (dsv_freed d) = {#}" "dsv_wf (dsv_freed d)" "dv_type (dsv_freed d) = DSVT_UNK"
  "dsv_free_data n (dsv_freed d) h = Some (dsv_freed d, h)"
  by (cases d; simp)+

lemma alloc_freed:
  "dsv_alloc_data n (Dsv VNull r0 DSVT_UNK st0 f0 k0 sg0) t st k h =
     (case dsv_get_section t of
        DSV_SEC_UNK \<Rightarrow> Some (Dsv VNull r0 t st f0 k0 sg0, h)
      | DSV_SEC_1 \<Rightarrow> if k = 0 then None else Some (Dsv (VBytes (replicate k 0)) r0 t st f0 k sg0, h)
      | DSV_SEC_2 \<Rightarrow> Some (Dsv (VRef NULL 0 0) r0 t st f0 k0 sg0, h)
      | DSV_SEC_3 \<Rightarrow> Some (Dsv (VElems []) r0 t st f0 k0 sg0, h))"
  by (cases t) (simp_all add: dsv_alloc_data_def)

definition self_ref :: "addr option \<Rightarrow> dsv \<Rightarrow> bool" where
  "self_ref at src \<longleftrightarrow> dv_type src = DSVT_REF \<and>
     (case dv_value src of VRef a _ _ \<Rightarrow> at = Some a | _ \<Rightarrow> False)"

text \<open>
  \<open>copied at src h ext ret d h'\<close>: the result of a copy into a value whose references have
  been given back.
\<close>

definition copied ::
    "addr option \<Rightarrow> dsv \<Rightarrow> dsh \<Rightarrow> addr multiset \<Rightarrow> int \<Rightarrow> dsv \<Rightarrow> dsh \<Rightarrow> bool" where
  "copied at src h ext ret d h' \<longleftrightarrow>
     ret = (if self_ref at src then - 1 else 0) \<and> ref_inv h' {} (ext + dsv_refs d) \<and> dsv_wf d \<and>
     shrinks h h' \<and> (ret = 0 \<longrightarrow> dsv_norm d = dsv_norm src)"

lemma hold_ext:
  assumes "ref_inv h {} ext" "ref_mset a \<subseteq># ext"
  shows "\<exists>h'. ds_hold a h = Some h' \<and> ref_inv h' {} (ext + ref_mset a) \<and> shrinks h h'"
proof (cases "a = NULL")
  case True
  then show ?thesis using assms(1) by (simp add: ds_hold_def ref_mset_def)
next
  case False
  then obtain e where e: "ext = add_mset a e"
    using assms(2) by (auto simp: ref_mset_def dest: insert_DiffM [symmetric])
  then obtain r where r: "ds_map h a = Some r" using ref_inv_live(1) assms(1) by blast
  let ?h = "set_refcnt a (ds_refcnt r + 1) h"
  have "ds_hold a h = Some ?h" using False r by (simp add: ds_hold_def set_refcnt_def)
  moreover have "ref_inv ?h {} (ext + ref_mset a)"
    using ref_inv_inc [OF assms(1) r] False by (simp add: ref_mset_def)
  moreover have "shrinks h ?h" using set_refcnt_simps [OF r] by (simp add: shrinks_def)
  ultimately show ?thesis by blast
qed

lemma copy_all:
  "\<forall>ext. ref_inv h {} (ext + dsv_refs dst) \<and> dsv_wf dst \<and> dsv_wf src \<and> dsv_refs src \<subseteq># ext \<and>
     card (dom (ds_map h)) \<le> n \<longrightarrow>
     (\<exists>ret d h'. dsv_copy_rec n at dst src h = Some (ret, d, h') \<and> copied at src h ext ret d h')"
  "\<forall>ext. ref_inv h {} (ext + dsv1s_refs acc) \<and> dsv1s_wf acc \<and> dsv1s_wf es \<and> dsv1s_refs es \<subseteq># ext \<and>
     card (dom (ds_map h)) \<le> n \<longrightarrow>
     (\<exists>fs h'. dsv_copy_elems n es acc h = Some (0, acc @ fs, h') \<and>
        ref_inv h' {} (ext + dsv1s_refs (acc @ fs)) \<and> dsv1s_wf fs \<and> shrinks h h' \<and>
        dsv1s_norm fs = dsv1s_norm es)"
proof (induction n at dst src h and n es acc h rule: dsv_copy_rec_dsv_copy_elems.induct)
  case (1 n at dst v r t st f k sg h)
  let ?src = "Dsv v r t st f k sg"
  show ?case
  proof (intro allI impI, elim conjE)
    fix ext
    assume inv: "ref_inv h {} (ext + dsv_refs dst)" and wfd: "dsv_wf dst" and wfs: "dsv_wf ?src"
      and src: "dsv_refs ?src \<subseteq># ext" and card: "card (dom (ds_map h)) \<le> n"
    have "card (dom (ds_map h) - {}) \<le> n" using card by simp
    then obtain h1 where free: "dsv_free_data n dst h = Some (dsv_freed dst, h1)"
      and rel: "releases h {} ext h1"
      using release_all(1) inv wfd by blast
    have inv1: "ref_inv h1 {} ext" and sh: "shrinks h h1" using rel by (simp_all add: releases_def)
    have card1: "card (dom (ds_map h1)) \<le> n" using card_live_mono [OF inv sh] card by simp
    obtain r0 st0 f0 k0 sg0 where "dsv_freed dst = Dsv VNull r0 DSVT_UNK st0 f0 k0 sg0" by (cases dst) simp
    then have free: "dsv_free_data n dst h = Some (Dsv VNull r0 DSVT_UNK st0 f0 k0 sg0, h1)"
      using free by simp
    show "\<exists>ret d h'. dsv_copy_rec n at dst ?src h = Some (ret, d, h') \<and> copied at ?src h ext ret d h'"
    proof (cases "dsv_get_section t")
      case DSV_SEC_UNK
      then have "t = DSVT_UNK" "v = VNull" using wfs by (cases t; simp)+
      then show ?thesis using free inv1 sh
        by (simp add: copied_def self_ref_def)
    next
      case DSV_SEC_1
      then obtain bs where v: "v = VBytes bs" "length bs = k" "0 < k" using wfs by (cases v) auto
      have "t \<noteq> DSVT_REF" using DSV_SEC_1 by auto
      then show ?thesis using free inv1 sh DSV_SEC_1 v
        by (simp add: alloc_freed copied_def self_ref_def)
    next
      case DSV_SEC_2
      then obtain a offset bits where v: "v = VRef a offset bits" using wfs by (cases v) auto
      show ?thesis
      proof (cases "t = DSVT_REF \<and> at = Some a")
        case True
        then show ?thesis using free inv1 sh DSV_SEC_2 v
          by (simp add: alloc_freed copied_def self_ref_def ds_vref_hold_setv_def ds_vref_set_raw_def ref_mset_def)
      next
        case False
        have "ref_mset a \<subseteq># ext" using src DSV_SEC_2 v by simp
        then obtain h2 where "ds_hold a h1 = Some h2" "ref_inv h2 {} (ext + ref_mset a)" "shrinks h1 h2"
          using hold_ext [OF inv1] by blast
        then show ?thesis using free sh DSV_SEC_2 v False shrinks_trans
          by (auto simp: alloc_freed copied_def self_ref_def ds_vref_hold_setv_def ds_vref_set_raw_def)
      qed
    next
      case DSV_SEC_3
      then obtain es where v: "v = VElems es" using wfs by (cases v) auto
      have t: "t \<noteq> DSVT_REF" using DSV_SEC_3 by auto
      have alloc: "dsv_alloc_data n (Dsv VNull r0 DSVT_UNK st0 f0 k0 sg0) t st 0 h1 =
          Some (Dsv (VElems []) r0 t st f0 k0 sg0, h1)" using DSV_SEC_3 by (simp add: alloc_freed)
      obtain fs h2 where c: "dsv_copy_elems n es [] h1 = Some (0, fs, h2)"
        "ref_inv h2 {} (ext + dsv1s_refs fs)" "dsv1s_wf fs" "shrinks h1 h2" "dsv1s_norm fs = dsv1s_norm es"
        using 1 [OF free refl DSV_SEC_3 alloc refl refl v] inv1 wfs src card1 DSV_SEC_3 v by auto
      then show ?thesis using free alloc sh DSV_SEC_3 v t shrinks_trans
        by (auto simp: copied_def self_ref_def)
    qed
  qed
next
  case (2 n acc h)
  show ?case by auto
next
  case (3 n offset bits d es acc h)
  show ?case
  proof (intro allI impI, elim conjE)
    fix ext
    assume inv: "ref_inv h {} (ext + dsv1s_refs acc)" and wfa: "dsv1s_wf acc"
      and wfs: "dsv1s_wf (Dsv1 offset bits d # es)" and src: "dsv1s_refs (Dsv1 offset bits d # es) \<subseteq># ext"
      and card: "card (dom (ds_map h)) \<le> n"
    let ?new = "dsv_set_raw (dv_raw d) dsv_alloc"
    have new: "dsv_refs ?new = {#}" "dsv_wf ?new" by (simp_all add: dsv_alloc_def)
    have s1: "dsv_refs d \<subseteq># ext + dsv1s_refs acc" "dsv1s_refs es \<subseteq># ext"
      using src by (simp_all add: subseteq_mset_def) (metis add_leD1 trans_le_add1, metis add_leD2)
    obtain ret d' h1 where c1: "dsv_copy_rec n None ?new d h = Some (ret, d', h1)"
      "copied None d h (ext + dsv1s_refs acc) ret d' h1"
      using 3(1) inv new wfs s1 card by auto
    then have r: "ret = 0" "ref_inv h1 {} (ext + dsv1s_refs acc + dsv_refs d')" "dsv_wf d'"
      "shrinks h h1" "dsv_norm d' = dsv_norm d"
      by (auto simp: copied_def self_ref_def split: dsv_value.splits)
    have card1: "card (dom (ds_map h1)) \<le> n" using card_live_mono [OF inv r(4)] card by simp
    have "ref_inv h1 {} (ext + dsv1s_refs (acc @ [Dsv1 offset bits d']))" using r(2) by (simp add: add.assoc)
    then obtain fs h2 where c2: "dsv_copy_elems n es (acc @ [Dsv1 offset bits d']) h1 =
        Some (0, (acc @ [Dsv1 offset bits d']) @ fs, h2)"
      "ref_inv h2 {} (ext + dsv1s_refs ((acc @ [Dsv1 offset bits d']) @ fs))" "dsv1s_wf fs"
      "shrinks h1 h2" "dsv1s_norm fs = dsv1s_norm es"
      using 3(2) [OF c1(1) refl refl] r(1,3) wfa wfs s1(2) card1 by auto
    show "\<exists>fs h'. dsv_copy_elems n (Dsv1 offset bits d # es) acc h = Some (0, acc @ fs, h') \<and>
        ref_inv h' {} (ext + dsv1s_refs (acc @ fs)) \<and> dsv1s_wf fs \<and> shrinks h h' \<and>
        dsv1s_norm fs = dsv1s_norm (Dsv1 offset bits d # es)"
      using c1(1) c2 r shrinks_trans by (intro exI [of _ "Dsv1 offset bits d' # fs"] exI [of _ h2]) auto
  qed
qed

subsection \<open>The properties of release and copy\<close>

text \<open>
  C31. Dropping a reference is sound: with the counts exact before, the drop returns, the
  counts are exact afterwards without that reference, the data state is freed exactly when
  it was the last one, and everything still referred to from outside is alive, so nothing
  is used after it was freed. Fuel for every live data state is enough.
\<close>

theorem ds_drop_sound:
  assumes "ref_inv h {} (add_mset a ext)" "card (dom (ds_map h)) \<le> n"
  shows "\<exists>h'. ds_drop n a h = Some h' \<and> ref_inv h' {} ext \<and>
    (ds_map h' a = None \<longleftrightarrow> ds_refcnt (the (ds_map h a)) = 1) \<and>
    (\<forall>b. b \<in># ext \<longrightarrow> ds_map h' b \<noteq> None) \<and> shrinks h h'"
proof -
  note live = ref_inv_live [OF assms(1)]
  obtain r where r: "ds_map h a = Some r" using live(1) by blast
  have nz: "a \<noteq> NULL" using assms(1) r by (auto simp: ref_inv_def)
  then have "ref_inv h {} (ext + ref_mset a)" using assms(1) by (simp add: ref_mset_def)
  then obtain h' where run: "ds_drop n a h = Some h'" and rel: "releases h {} ext h'"
    using release_all(3) assms(2) by fastforce
  have last: "ds_map h' a = None \<longleftrightarrow> ds_refcnt r = 1"
  proof (cases "ds_refcnt r = 1")
    case True
    then show ?thesis using run r nz by (auto simp: Let_def bind_splits split: nat.splits)
  next
    case False
    then show ?thesis using run r nz by (auto simp: Let_def)
  qed
  have "ds_map h' b \<noteq> None" if "b \<in># ext" for b
  proof
    assume "ds_map h' b = None"
    then have "b \<notin> dom (ds_map h')" by (simp add: domIff)
    then have "count (all_refs h' {} ext) b = 0" using rel unfolding releases_def ref_inv_def by blast
    then have "count ext b = 0" by (simp add: all_refs_def)
    then show False using that by (simp add: count_eq_zero_iff)
  qed
  then show ?thesis using run rel last r by (auto simp: releases_def)
qed

text \<open>The forms \<open>dsv_copy_data\<close> copies between.\<close>

definition compat :: "dsv \<Rightarrow> dsv \<Rightarrow> bool" where
  "compat dst src \<longleftrightarrow> (dv_type dst = DSVT_CONSTRUCTOR \<longleftrightarrow> dv_type src = DSVT_CONSTRUCTOR) \<and>
     (dv_type src = DSVT_CONSTRUCTOR \<longrightarrow> dv_subtype dst = dv_subtype src)"

lemma copy_data_cases:
  "dsv_copy_data n False at dst src h =
     (if compat dst src then dsv_copy_rec n at dst src h else Some (- 1, dst, h))"
  by (auto simp: dsv_copy_data_def compat_def)

text \<open>
  C30. Copying a value is exact and sound. The destination's old references are given back, the
  new ones are counted, and the copy equals the source in everything but the flags; the only
  failures are a constructor against a value of another form, which changes nothing, and a
  reference copied into the data state it refers to.
\<close>

theorem dsv_copy_exact:
  assumes "ref_inv h {} (ext + dsv_refs dst)" "dsv_wf dst" "dsv_wf src" "dsv_refs src \<subseteq># ext"
    and "card (dom (ds_map h)) \<le> n"
  shows "\<exists>ret d h'. dsv_copy_data n False at dst src h = Some (ret, d, h') \<and>
    (ret = 0 \<longleftrightarrow> compat dst src \<and> \<not> self_ref at src) \<and>
    (ret = 0 \<longrightarrow> dsv_norm d = dsv_norm src) \<and> (\<not> compat dst src \<longrightarrow> d = dst \<and> h' = h) \<and>
    ref_inv h' {} (ext + dsv_refs d) \<and> dsv_wf d"
proof (cases "compat dst src")
  case True
  obtain ret d h' where run: "dsv_copy_rec n at dst src h = Some (ret, d, h')"
    and c: "copied at src h ext ret d h'" using copy_all(1) assms by blast
  show ?thesis using run c True by (auto simp: copy_data_cases copied_def)
next
  case False
  then show ?thesis using assms(1,2) by (simp add: copy_data_cases)
qed

subsection \<open>Concrete runs\<close>

text \<open>
  Three data states: 1 holds the address of 2, 2 refers to 3, and 3 holds a number. The
  counts are one each, for an outside holder of 1.
\<close>

definition dx_num :: dsv where
  "dx_num = Dsv (VBytes [7, 0, 0, 0]) 50 DSVT_INT_CST DSV_SUBTYPE_DEF flag_zero 4 False"

definition dx_ref :: "dsvt \<Rightarrow> addr \<Rightarrow> dsv" where
  "dx_ref t a = Dsv (VRef a 0 32) 50 t DSV_SUBTYPE_DEF flag_zero 0 False"

definition dx_rw :: "int \<Rightarrow> dsv \<Rightarrow> ds_rw" where
  "dx_rw c v = \<lparr>ds_ref_base = 50, ds_ref_type = DSRT_RAW, ds_refcnt = c, ds_val = v\<rparr>"

definition dx_heap :: dsh where
  "dx_heap = \<lparr>ds_map = [1 \<mapsto> dx_rw 1 (dx_ref DSVT_ADDR 2), 2 \<mapsto> dx_rw 1 (dx_ref DSVT_REF 3),
     3 \<mapsto> dx_rw 1 dx_num], ds_brk = 4\<rparr>"

lemma dx_dom: "dom (ds_map dx_heap) = {1, 2, 3}"
  by (auto simp: dx_heap_def)

lemma dx_vals: "val_at dx_heap 1 = dx_ref DSVT_ADDR 2" "val_at dx_heap 2 = dx_ref DSVT_REF 3"
  "val_at dx_heap 3 = dx_num" "\<And>a. a \<in> {1, 2, 3} \<Longrightarrow> ds_refcnt (the (ds_map dx_heap a)) = 1"
  by (auto simp: dx_heap_def dx_rw_def)

lemma dx_all: "all_refs dx_heap {} {#1#} = {#1, 2, 3#}"
proof -
  have "dsv_refs (val_at dx_heap 1) = {#2#}" "dsv_refs (val_at dx_heap 2) = {#3#}"
    "dsv_refs (val_at dx_heap 3) = {#}"
    unfolding dx_vals by (simp_all add: dx_ref_def dx_num_def ref_mset_def)
  moreover have "(\<Sum>b \<in> {1, 2, 3 :: addr}. f b) = f 1 + (f 2 + f 3)" for f :: "addr \<Rightarrow> addr multiset"
    by simp
  ultimately show ?thesis unfolding all_refs_def dx_dom Diff_empty by simp
qed

lemma dx_inv: "ref_inv dx_heap {} {#1#}"
proof -
  have "dsv_wf (val_at dx_heap a)" if "a \<in> {1, 2, 3}" for a
    using that dx_vals by (auto simp: dx_ref_def dx_num_def)
  moreover have "count {#1, 2, 3#} a = 0" if "a \<notin> {1, 2, 3 :: nat}" for a using that by auto
  moreover have "count {#1, 2, 3#} a = 1" if "a \<in> {1, 2, 3 :: nat}" for a using that by auto
  ultimately show ?thesis unfolding ref_inv_def dx_all dx_dom using dx_vals(4)
    by (auto simp: dx_heap_def)
qed

text \<open>Dropping the last reference to 1 frees all three.\<close>

theorem ds_drop_sound_witness:
  "\<exists>h'. ds_drop 3 1 dx_heap = Some h' \<and> ref_inv h' {} {#} \<and> ds_map h' 1 = None"
proof -
  have "card (dom (ds_map dx_heap)) \<le> 3" by (simp add: dx_dom)
  from ds_drop_sound [OF dx_inv this] dx_vals(4) [of 1] show ?thesis by auto
qed

theorem dsv_copy_exact_witness:
  "\<exists>d h'. dsv_copy_data 3 False None (dsv_set_raw 9 dsv_alloc) dx_num dx_heap = Some (0, d, h') \<and>
     dsv_norm d = dsv_norm dx_num \<and> ref_inv h' {} {#1#}"
proof -
  let ?d = "dsv_set_raw 9 dsv_alloc"
  have p: "ref_inv dx_heap {} ({#1#} + dsv_refs ?d)" "dsv_wf ?d" "dsv_wf dx_num" "dsv_refs dx_num \<subseteq># {#1#}"
    "card (dom (ds_map dx_heap)) \<le> 3"
    using dx_inv by (simp_all add: dsv_alloc_def dx_num_def dx_dom)
  have c: "compat ?d dx_num" "\<not> self_ref None dx_num"
    by (simp_all add: compat_def self_ref_def dx_num_def dsv_alloc_def)
  from dsv_copy_exact [OF p, of None] c obtain d h' where
    r: "dsv_copy_data 3 False None ?d dx_num dx_heap = Some (0, d, h')" "dsv_norm d = dsv_norm dx_num"
      "ref_inv h' {} ({#1#} + dsv_refs d)" by auto
  have "d = dsv_set_raw 50 (Dsv (VBytes [7, 0, 0, 0]) 9 DSVT_INT_CST DSV_SUBTYPE_DEF flag_zero 4 False)"
    using r(1) c(1) by (simp add: copy_data_cases dx_num_def dsv_alloc_def alloc_freed)
  then have "dsv_refs d = {#}" by simp
  with r show ?thesis by auto
qed

end
