(* ===== verification/Data_State_Find.thy ===== *)
theory Data_State_Find
  imports Data_State_Copy Use_Lists
begin

text \<open>
  include/si_ds.h, second part: the search for the element of a constructor at an offset, the
  array of results and the copies through it, and the lists of data states of functions,
  active calls and the project.
\<close>

subsection \<open>The array of results\<close>

text \<open>
  A result is the value at a path: the indexes of the elements from the root, and whether
  there is an element (\<open>dsv1\<close>) it belongs to. \<open>ret_cnt\<close> is a \<open>u8\<close> that counts on when the
  array of 16 is full.
\<close>

abbreviation (input) DSV_FIND_ARG_MAX_RESULT :: nat where "DSV_FIND_ARG_MAX_RESULT \<equiv> 16"

record dsv_find_arg =
  fa_vals :: "(bool \<times> nat list) list"
  fa_ret_cnt :: nat

definition find_arg0 :: dsv_find_arg where
  "find_arg0 = \<lparr>fa_vals = [], fa_ret_cnt = 0\<rparr>"

definition dsv_find_arg_add :: "bool \<Rightarrow> nat list \<Rightarrow> dsv_find_arg \<Rightarrow> dsv_find_arg" where
  "dsv_find_arg_add is1 path arg =
     (let cnt = fa_ret_cnt arg;
          arg = arg\<lparr>fa_ret_cnt := (cnt + 1) mod 256\<rparr>
      in if DSV_FIND_ARG_MAX_RESULT \<le> cnt then arg
         else arg\<lparr>fa_vals := (if cnt < length (fa_vals arg) then (fa_vals arg)[cnt := (is1, path)]
           else fa_vals arg @ [(is1, path)])\<rparr>)"

subsection \<open>The search\<close>

definition u32_of :: "int \<Rightarrow> nat" where
  "u32_of x = nat (x mod 2 ^ 32)"

text \<open>
  Whether \<open>[offset, offset + bits]\<close> lies in the element: the first comparison is signed, the
  sums of the second are unsigned words.
\<close>

definition covers :: "int \<Rightarrow> nat \<Rightarrow> int \<Rightarrow> nat \<Rightarrow> bool" where
  "covers offset bits fieldoffset fieldbits \<longleftrightarrow>
     fieldoffset \<le> offset \<and> u32_of (offset + int bits) \<le> u32_of (fieldoffset + int fieldbits)"

text \<open>
  \<open>find_elem\<close> is \<open>__dsv_find_constructor_elem\<close> for the value at \<open>path\<close>; \<open>find_loop\<close> is its
  loop, from the element number \<open>i\<close> on, with the current offset and error.
\<close>

fun find_elem :: "dsv \<Rightarrow> nat list \<Rightarrow> int \<Rightarrow> nat \<Rightarrow> dsv_find_arg \<Rightarrow> int \<times> dsv_find_arg"
  and find_loop :: "dsv1 list \<Rightarrow> nat \<Rightarrow> nat list \<Rightarrow> dsv_subtype \<Rightarrow> int \<Rightarrow> nat \<Rightarrow> int \<Rightarrow> dsv_find_arg \<Rightarrow>
    int \<times> dsv_find_arg" where
  "find_elem (Dsv v r t st f k sg) path offset bits arg =
     (case v of
        VElems es \<Rightarrow>
          if t \<noteq> DSVT_CONSTRUCTOR \<or> es = [] then (- 1, arg)
          else
            let arg = (if offset = 0 \<and> bits = k * BITS_PER_UNIT
                       then dsv_find_arg_add False path arg else arg)
            in find_loop es 0 path st offset bits 0 arg
      | _ \<Rightarrow> (- 1, arg))"
| "find_loop [] i path st offset bits err arg = (err, arg)"
| "find_loop (Dsv1 fieldoffset fieldbits d # es) i path st offset bits err arg =
     (if \<not> covers offset bits fieldoffset fieldbits
      then find_loop es (i + 1) path st offset bits err arg
      else if dv_type d = DSVT_CONSTRUCTOR
      then (let offset = offset - fieldoffset;
                (err, arg) = find_elem d (path @ [i]) offset bits arg
            in if err = - 1 then (err, arg)
               else if st = DSV_SUBTYPE_UNION
               then find_loop es (i + 1) path st offset bits err arg
               else (err, arg))
      else if offset = fieldoffset \<and> bits = fieldbits
      then (let arg = dsv_find_arg_add True (path @ [i]) arg
            in if err = - 1 then (err, arg)
               else if st = DSV_SUBTYPE_UNION
               then find_loop es (i + 1) path st offset bits err arg
               else (err, arg))
      else (- 1, arg))"

definition dsv_find_constructor_elem :: "dsv \<Rightarrow> int \<Rightarrow> nat \<Rightarrow> dsv_find_arg \<Rightarrow> int \<times> dsv_find_arg" where
  "dsv_find_constructor_elem d offset bits arg =
     (if offset = 0 \<and> bits = 0 then (0, arg) else find_elem d [] offset bits arg)"

subsection \<open>Values at paths, and copies through the results\<close>

fun dsv_at :: "dsv \<Rightarrow> nat list \<Rightarrow> dsv option" where
  "dsv_at d [] = Some d"
| "dsv_at d (i # p) =
     (case dv_value d of
        VElems es \<Rightarrow> if i < length es then dsv_at (d1_val (es ! i)) p else None
      | _ \<Rightarrow> None)"

fun dsv_put :: "dsv \<Rightarrow> nat list \<Rightarrow> dsv \<Rightarrow> dsv" where
  "dsv_put d [] e = e"
| "dsv_put d (i # p) e =
     (case dv_value d of
        VElems es \<Rightarrow> dsv_set_value (VElems (es[i := Dsv1 (d1_offset (es ! i)) (d1_bits (es ! i))
          (dsv_put (d1_val (es ! i)) p e)])) d
      | _ \<Rightarrow> d)"

text \<open>
  \<open>dsv_arg_find\<close>: the index of the \<open>tms\<close>-th result of a type. Reading \<open>vals[i]\<close> with an index
  that was never stored is out of the array or uninitialised, \<open>None\<close>.
\<close>

function arg_find_loop :: "dsv \<Rightarrow> dsv_find_arg \<Rightarrow> dsvt \<Rightarrow> int \<Rightarrow> nat \<Rightarrow> int option" where
  "arg_find_loop root arg ty tms i =
     (if fa_ret_cnt arg \<le> i then Some (- 1)
      else if length (fa_vals arg) \<le> i then None
      else case dsv_at root (snd (fa_vals arg ! i)) of
          None \<Rightarrow> None
        | Some d \<Rightarrow>
            if dv_type d = ty then
              (if tms - 1 = 0 then Some (int i) else arg_find_loop root arg ty (tms - 1) (i + 1))
            else arg_find_loop root arg ty tms (i + 1))"
  by pat_completeness auto
termination by (relation "measure (\<lambda>(_, arg, _, _, i). fa_ret_cnt arg - i)") auto

definition dsv_arg_find :: "dsv \<Rightarrow> dsv_find_arg \<Rightarrow> dsvt \<Rightarrow> int \<Rightarrow> int option" where
  "dsv_arg_find root arg ty tms = arg_find_loop root arg ty tms 0"

definition dsv_arg_first_int_or_real :: "dsv \<Rightarrow> dsv_find_arg \<Rightarrow> int option" where
  "dsv_arg_first_int_or_real root arg =
     do {
       idx \<leftarrow> dsv_arg_find root arg DSVT_INT_CST 1;
       (if idx \<noteq> - 1 then Some idx else dsv_arg_find root arg DSVT_REAL_CST 1)
     }"

text \<open>
  \<open>dsv_copy_to_arg\<close>: the source goes into the first result that takes it; the new root.
  \<open>dsv_copy_from_arg\<close>: the destination takes the first result that fits. A failed attempt
  may have changed its destination.
\<close>

function copy_to_loop ::
    "nat \<Rightarrow> addr option \<Rightarrow> dsv \<Rightarrow> dsv_find_arg \<Rightarrow> dsv \<Rightarrow> nat \<Rightarrow> dsh \<Rightarrow> (int \<times> dsv \<times> dsh) option" where
  "copy_to_loop n at root arg src i h =
     (if fa_ret_cnt arg \<le> i then Some (- 1, root, h)
      else if length (fa_vals arg) \<le> i then None
      else let path = snd (fa_vals arg ! i) in
        case dsv_at root path of
          None \<Rightarrow> None
        | Some dst \<Rightarrow>
            (case dsv_copy_data n False (if path = [] then at else None) dst src h of
               None \<Rightarrow> None
             | Some (err, d, h) \<Rightarrow>
                 if err = 0 then Some (int i, dsv_put root path d, h)
                 else copy_to_loop n at (dsv_put root path d) arg src (i + 1) h))"
  by pat_completeness auto
termination by (relation "measure (\<lambda>(_, _, _, arg, _, i, _). fa_ret_cnt arg - i)") auto

definition dsv_copy_to_arg ::
    "nat \<Rightarrow> addr option \<Rightarrow> dsv \<Rightarrow> dsv_find_arg \<Rightarrow> dsv \<Rightarrow> dsh \<Rightarrow> (int \<times> dsv \<times> dsh) option" where
  "dsv_copy_to_arg n at root arg src h = copy_to_loop n at root arg src 0 h"

function copy_from_loop ::
    "nat \<Rightarrow> addr option \<Rightarrow> dsv \<Rightarrow> dsv \<Rightarrow> dsv_find_arg \<Rightarrow> nat \<Rightarrow> dsh \<Rightarrow> (int \<times> dsv \<times> dsh) option" where
  "copy_from_loop n at dst root arg i h =
     (if fa_ret_cnt arg \<le> i then Some (- 1, dst, h)
      else if length (fa_vals arg) \<le> i then None
      else case dsv_at root (snd (fa_vals arg ! i)) of
          None \<Rightarrow> None
        | Some src \<Rightarrow>
            (case dsv_copy_data n False at dst src h of
               None \<Rightarrow> None
             | Some (err, d, h) \<Rightarrow>
                 if err = 0 then Some (int i, d, h) else copy_from_loop n at d root arg (i + 1) h))"
  by pat_completeness auto
termination by (relation "measure (\<lambda>(_, _, _, _, arg, i, _). fa_ret_cnt arg - i)") auto

definition dsv_copy_from_arg ::
    "nat \<Rightarrow> addr option \<Rightarrow> dsv \<Rightarrow> dsv \<Rightarrow> dsv_find_arg \<Rightarrow> dsh \<Rightarrow> (int \<times> dsv \<times> dsh) option" where
  "dsv_copy_from_arg n at dst root arg h = copy_from_loop n at dst root arg 0 h"

declare arg_find_loop.simps [simp del] copy_to_loop.simps [simp del] copy_from_loop.simps [simp del]

subsection \<open>The properties of the search\<close>

text \<open>A structure or array: the elements follow each other.\<close>

fun laid :: "int \<Rightarrow> dsv1 list \<Rightarrow> bool" where
  "laid lo [] = True"
| "laid lo (Dsv1 off bits d # es) \<longleftrightarrow> lo \<le> off \<and> 0 < bits \<and> off + int bits < 2 ^ 31 \<and>
     laid (off + int bits) es"

lemma laid_bound: "laid lo es \<Longrightarrow> j < length es \<Longrightarrow> lo \<le> d1_offset (es ! j) \<and>
    0 < d1_bits (es ! j) \<and> d1_offset (es ! j) + int (d1_bits (es ! j)) < 2 ^ 31"
proof (induction es arbitrary: lo j)
  case (Cons e es)
  obtain off bits d where e: "e = Dsv1 off bits d" by (cases e)
  show ?case
  proof (cases j)
    case 0
    then show ?thesis using Cons.prems e by simp
  next
    case (Suc k)
    then have "off + int bits \<le> d1_offset (es ! k) \<and> 0 < d1_bits (es ! k) \<and>
        d1_offset (es ! k) + int (d1_bits (es ! k)) < 2 ^ 31"
      using Cons.IH [of "off + int bits" k] Cons.prems e by simp
    then show ?thesis using Suc Cons.prems e by auto
  qed
qed simp

lemma u32_small: "0 \<le> x \<Longrightarrow> x < 2 ^ 31 \<Longrightarrow> u32_of x = nat x"
  by (simp add: u32_of_def)

definition velems :: "dsv \<Rightarrow> dsv1 list" where
  "velems d = (case dv_value d of VElems es \<Rightarrow> es | _ \<Rightarrow> [])"

text \<open>Where the value at a path lies in the whole, and how wide its element is.\<close>

fun path_offset :: "dsv \<Rightarrow> nat list \<Rightarrow> int" where
  "path_offset d [] = 0"
| "path_offset d (i # p) = d1_offset (velems d ! i) + path_offset (d1_val (velems d ! i)) p"

fun path_bits :: "dsv \<Rightarrow> nat list \<Rightarrow> nat" where
  "path_bits d [] = 0"
| "path_bits d [i] = d1_bits (velems d ! i)"
| "path_bits d (i # p) = path_bits (d1_val (velems d ! i)) p"

text \<open>A path through structures and arrays, each place in that of its element, to a value that is not one.\<close>

fun struct_path :: "dsv \<Rightarrow> nat list \<Rightarrow> bool" where
  "struct_path d [] \<longleftrightarrow> dv_type d \<noteq> DSVT_CONSTRUCTOR"
| "struct_path d (i # p) \<longleftrightarrow> dv_type d = DSVT_CONSTRUCTOR \<and> dv_subtype d = DSV_SUBTYPE_DEF \<and>
     (\<exists>es. dv_value d = VElems es) \<and> laid 0 (velems d) \<and> i < length (velems d) \<and>
     path_offset (d1_val (velems d ! i)) p + int (path_bits d (i # p)) \<le> int (d1_bits (velems d ! i)) \<and>
     struct_path (d1_val (velems d ! i)) p"

text \<open>The constructors on the way that are the place as a whole, and then the element.\<close>

definition path_whole :: "dsv \<Rightarrow> nat list \<Rightarrow> nat \<Rightarrow> bool" where
  "path_whole d p m \<longleftrightarrow> path_offset d (take m p) = path_offset d p \<and>
     (\<exists>e. dsv_at d (take m p) = Some e \<and> dv_bytes e * BITS_PER_UNIT = path_bits d p)"

definition path_results :: "dsv \<Rightarrow> nat list \<Rightarrow> (bool \<times> nat list) list" where
  "path_results d p = map (\<lambda>m. (False, take m p)) (filter (path_whole d p) [0..<length p]) @ [(True, p)]"

lemma laid_before:
  assumes "laid lo es" "j < length es" "i < j"
  shows "d1_offset (es ! i) + int (d1_bits (es ! i)) \<le> d1_offset (es ! j)"
  using assms
proof (induction es arbitrary: lo i j)
  case (Cons e es)
  obtain off bits d where e: "e = Dsv1 off bits d" by (cases e)
  obtain k where j: "j = Suc k" using Cons.prems(3) by (cases j) auto
  show ?case
  proof (cases i)
    case 0
    then show ?thesis using laid_bound [of "off + int bits" es k] Cons.prems j e by simp
  next
    case (Suc m)
    then show ?thesis using Cons.IH [of "off + int bits" k m] Cons.prems j e by simp
  qed
qed simp

text \<open>The loop passes over the elements before the one in which the place lies.\<close>

lemma find_loop_skips:
  assumes "laid lo es" "0 \<le> lo" "j < length es" "d1_offset (es ! j) \<le> off" "0 < bits"
    and "off + int bits \<le> d1_offset (es ! j) + int (d1_bits (es ! j))"
  shows "find_loop es i path st off bits 0 arg = find_loop (drop j es) (i + j) path st off bits 0 arg"
  using assms
proof (induction es arbitrary: lo i j)
  case (Cons e es)
  obtain fo fb d where e: "e = Dsv1 fo fb d" by (cases e)
  show ?case
  proof (cases j)
    case (Suc k)
    have rest: "laid (fo + int fb) es" "0 \<le> fo + int fb" and k: "k < length es"
      using Cons.prems e Suc by auto
    note b = laid_bound [OF rest(1) k]
    have far: "fo + int fb \<le> off" "off + int bits < 2 ^ 31" using b Cons.prems(4,6) Suc by auto
    have "u32_of (off + int bits) = nat (off + int bits)" "u32_of (fo + int fb) = nat (fo + int fb)"
      using far rest(2) Cons.prems(1,5) e by (auto intro!: u32_small)
    then have "\<not> covers off bits fo fb" using far Cons.prems(5) rest(2) by (auto simp: covers_def)
    moreover have "find_loop es (i + 1) path st off bits 0 arg = find_loop (drop k es) (i + 1 + k) path st off bits 0 arg"
      by (rule Cons.IH [OF rest k]) (use Cons.prems(4-6) Suc in simp_all)
    ultimately show ?thesis using e Suc by simp
  qed simp
qed simp

lemma struct_path_offset: "struct_path d p \<Longrightarrow> 0 \<le> path_offset d p \<and> (p \<noteq> [] \<longrightarrow> 0 < path_bits d p)"
proof (induction p arbitrary: d)
  case (Cons i p)
  have "0 \<le> path_offset (d1_val (velems d ! i)) p \<and> (p \<noteq> [] \<longrightarrow> 0 < path_bits (d1_val (velems d ! i)) p)"
    using Cons by simp
  moreover have "0 \<le> d1_offset (velems d ! i)" "0 < d1_bits (velems d ! i)"
    using laid_bound [of 0 "velems d" i] Cons.prems by auto
  ultimately show ?case by (cases p) auto
qed simp

lemma results_Cons:
  assumes "struct_path d (i # p)" "p \<noteq> []"
  shows "path_results d (i # p) =
    (if path_offset d (i # p) = 0 \<and> path_bits d (i # p) = dv_bytes d * BITS_PER_UNIT then [(False, [])] else []) @
    map (\<lambda>(b, q). (b, i # q)) (path_results (d1_val (velems d ! i)) p)"
proof -
  obtain es where es: "dv_value d = VElems es" "velems d = es" using assms(1) by (auto simp: velems_def)
  have i: "i < length es" using assms(1) es by simp
  let ?e = "d1_val (es ! i)"
  have bits: "path_bits d (i # p) = path_bits ?e p" using assms(2) es by (cases p) simp_all
  have u: "[0..<length (i # p)] = 0 # map Suc [0..<length p]" by (simp add: upt_conv_Cons map_Suc_upt del: upt_Suc)
  have "path_whole d (i # p) (Suc m) = path_whole ?e p m" for m
    unfolding path_whole_def bits by (simp add: es i)
  then have "filter (path_whole d (i # p)) (map Suc [0..<length p]) = map Suc (filter (path_whole ?e p) [0..<length p])"
    unfolding filter_map by (simp add: o_def)
  moreover have "path_whole d (i # p) 0 \<longleftrightarrow>
      path_offset d (i # p) = 0 \<and> path_bits d (i # p) = dv_bytes d * BITS_PER_UNIT"
    by (auto simp: path_whole_def simp del: path_offset.simps(2) path_bits.simps)
  ultimately show ?thesis
    unfolding path_results_def u es
    by (simp add: o_def del: path_offset.simps path_bits.simps)
qed

definition add_results :: "(bool \<times> nat list) list \<Rightarrow> dsv_find_arg \<Rightarrow> dsv_find_arg" where
  "add_results rs arg = fold (\<lambda>(b, q). dsv_find_arg_add b q) rs arg"

lemma add_results_simps [simp]:
  "add_results [] arg = arg" "add_results ((b, q) # rs) arg = add_results rs (dsv_find_arg_add b q arg)"
  "add_results (rs @ rs') arg = add_results rs' (add_results rs arg)"
  by (simp_all add: add_results_def)

lemma find_elem_path:
  assumes "struct_path d p" "p \<noteq> []"
  shows "find_elem d pre (path_offset d p) (path_bits d p) arg =
    (0, add_results (map (\<lambda>(b, q). (b, pre @ q)) (path_results d p)) arg)"
  using assms
proof (induction p arbitrary: d pre arg)
  case (Cons i p)
  obtain v r f k sg where d: "d = Dsv v r DSVT_CONSTRUCTOR DSV_SUBTYPE_DEF f k sg"
    using Cons.prems(1) by (cases d) simp
  obtain es where v: "v = VElems es" using Cons.prems(1) d by auto
  have es: "velems d = es" by (simp add: velems_def d v)
  let ?e = "d1_val (es ! i)" and ?off = "path_offset d (i # p)" and ?bits = "path_bits d (i # p)"
  let ?arg = "if ?off = 0 \<and> ?bits = k * BITS_PER_UNIT then dsv_find_arg_add False pre arg else arg"
  have sp: "laid 0 es" "i < length es" "struct_path ?e p" "path_offset ?e p + int ?bits \<le> int (d1_bits (es ! i))"
    using Cons.prems(1) es by simp_all
  note b = laid_bound [OF sp(1,2)]
  have off: "?off = d1_offset (es ! i) + path_offset ?e p" by (simp add: es)
  have pos: "0 \<le> path_offset ?e p" "0 < ?bits"
    using struct_path_offset [OF sp(3)] struct_path_offset [OF Cons.prems(1)] by simp_all
  have "find_elem d pre ?off ?bits arg = find_loop es 0 pre DSV_SUBTYPE_DEF ?off ?bits 0 ?arg"
    using sp(2) by (auto simp: d v Let_def simp del: path_offset.simps path_bits.simps)
  also have "\<dots> = find_loop (drop i es) (0 + i) pre DSV_SUBTYPE_DEF ?off ?bits 0 ?arg"
    by (rule find_loop_skips [OF sp(1) order_refl sp(2)]) (use pos off sp(4) in linarith)+
  also have "drop i es = es ! i # drop (Suc i) es" by (rule Cons_nth_drop_Suc [OF sp(2), symmetric])
  also have "es ! i = Dsv1 (d1_offset (es ! i)) (d1_bits (es ! i)) ?e" by simp
  finally have run: "find_elem d pre ?off ?bits arg =
      find_loop (Dsv1 (d1_offset (es ! i)) (d1_bits (es ! i)) ?e # drop (Suc i) es) i pre DSV_SUBTYPE_DEF ?off ?bits 0 ?arg"
    by (simp del: path_offset.simps path_bits.simps dsv1.collapse)
  have cov: "covers ?off ?bits (d1_offset (es ! i)) (d1_bits (es ! i))"
  proof -
    have "u32_of (?off + int ?bits) = nat (?off + int ?bits)"
      "u32_of (d1_offset (es ! i) + int (d1_bits (es ! i))) = nat (d1_offset (es ! i) + int (d1_bits (es ! i)))"
      by (rule u32_small; use b off pos sp(4) in linarith)+
    then show ?thesis using off pos sp(4) by (simp add: covers_def)
  qed
  show ?case
  proof (cases "p = []")
    case True
    have bits: "?bits = d1_bits (es ! i)" using True es by simp
    have "find_elem d pre ?off ?bits arg = (0, dsv_find_arg_add True (pre @ [i]) ?arg)"
      using run cov sp(3) True off bits by (simp del: dsv1.collapse)
    moreover have "path_results d [i] = (if ?off = 0 \<and> ?bits = k * BITS_PER_UNIT then [(False, [])] else []) @ [(True, [i])]"
      using True by (auto simp: path_results_def path_whole_def es d)
    ultimately show ?thesis using True by simp
  next
    case False
    have bits: "?bits = path_bits ?e p" using False es by (cases p) simp_all
    have ct: "dv_type ?e = DSVT_CONSTRUCTOR" using sp(3) False by (cases p) simp_all
    have "?off - d1_offset (es ! i) = path_offset ?e p" by (simp add: es)
    then have "find_elem d pre ?off ?bits arg =
        (0, add_results (map (\<lambda>(b, q). (b, (pre @ [i]) @ q)) (path_results ?e p)) ?arg)"
      using run cov ct Cons.IH [OF sp(3) False, of "pre @ [i]" ?arg] bits by (simp del: path_offset.simps path_bits.simps dsv1.collapse)
    moreover have "map (\<lambda>(b, q). (b, pre @ q)) (path_results d (i # p)) =
        (if ?off = 0 \<and> ?bits = k * BITS_PER_UNIT then [(False, pre)] else []) @
        map (\<lambda>(b, q). (b, (pre @ [i]) @ q)) (path_results ?e p)"
      unfolding results_Cons [OF Cons.prems(1) False] es
      by (simp add: d case_prod_beta del: path_offset.simps path_bits.simps)
    ultimately show ?thesis by simp
  qed
qed simp

lemma add_results_many:
  "length rs \<le> 255 \<Longrightarrow> fa_ret_cnt (add_results rs find_arg0) = length rs \<and>
     fa_vals (add_results rs find_arg0) = take 16 rs"
proof (induction rs rule: rev_induct)
  case (snoc x rs)
  then show ?case by (cases x) (auto simp: dsv_find_arg_add_def Let_def)
qed (simp add: find_arg0_def)

lemma struct_path_at: "struct_path d p \<Longrightarrow> \<exists>e. dsv_at d p = Some e \<and> dv_type e \<noteq> DSVT_CONSTRUCTOR"
  by (induction p arbitrary: d) (auto simp: velems_def)

lemma path_results_length: "length (path_results d p) \<le> length p + 1"
  using length_filter_le [of "path_whole d p" "[0..<length p]"] by (simp add: path_results_def)

text \<open>
  C32. The search of a constructor built of structures and arrays, at any depth, for the place of
  a value that is not a constructor succeeds: it stores every constructor on the way that is that
  place as a whole, the outermost first and the searched value itself included, and then the
  element. So the place is taken relative to each constructor the search goes into. The array
  takes the first 16 results; the counter counts them all.
\<close>

theorem find_struct_elem:
  assumes "struct_path d p" "p \<noteq> []" "length p < 255"
  shows "\<exists>arg. dsv_find_constructor_elem d (path_offset d p) (path_bits d p) find_arg0 = (0, arg) \<and>
    fa_vals arg = take 16 (path_results d p) \<and> fa_ret_cnt arg = length (path_results d p) \<and>
    (\<exists>e. dsv_at d p = Some e \<and> dv_type e \<noteq> DSVT_CONSTRUCTOR)"
proof -
  have "0 < path_bits d p" using struct_path_offset [OF assms(1)] assms(2) by simp
  then have "dsv_find_constructor_elem d (path_offset d p) (path_bits d p) find_arg0 =
      (0, add_results (path_results d p) find_arg0)"
    using find_elem_path [OF assms(1,2), of "[]" find_arg0] by (simp add: dsv_find_constructor_elem_def)
  moreover have "length (path_results d p) \<le> 255" using path_results_length [of d p] assms(3) by simp
  ultimately show ?thesis using add_results_many struct_path_at [OF assms(1)] by simp
qed

text \<open>
  The search of a union gives up at the first member that covers the place without being
  it: no later member is looked at and the result is an error, although the comment in the
  code wants every member with that offset and width.
\<close>

theorem union_search_gives_up:
  assumes "covers offset bits fo fb" "dv_type e \<noteq> DSVT_CONSTRUCTOR" "\<not> (offset = fo \<and> bits = fb)"
    and "d = Dsv (VElems (Dsv1 fo fb e # es)) r DSVT_CONSTRUCTOR DSV_SUBTYPE_UNION f k sg"
    and "bits \<noteq> k * BITS_PER_UNIT" "0 < bits"
  shows "dsv_find_constructor_elem d offset bits find_arg0 = (- 1, find_arg0)"
  using assms by (auto simp: dsv_find_constructor_elem_def)

lemma add_many:
  "length ps \<le> 255 \<Longrightarrow>
     fa_ret_cnt (fold (dsv_find_arg_add True) ps find_arg0) = length ps \<and>
     fa_vals (fold (dsv_find_arg_add True) ps find_arg0) = map (Pair True) (take 16 ps)"
proof (induction ps rule: rev_induct)
  case (snoc p ps)
  then show ?case by (auto simp: dsv_find_arg_add_def Let_def)
qed (simp add: find_arg0_def)

lemma arg_find_overrun:
  assumes "length (fa_vals arg) < fa_ret_cnt arg" "i \<le> length (fa_vals arg)"
    and "\<And>j. j < length (fa_vals arg) \<Longrightarrow>
      \<exists>d. dsv_at root (snd (fa_vals arg ! j)) = Some d \<and> dv_type d \<noteq> ty"
  shows "arg_find_loop root arg ty t i = None"
  using assms(2)
proof (induction "length (fa_vals arg) - i" arbitrary: i)
  case 0
  then show ?case using assms(1) by (subst arg_find_loop.simps) simp
next
  case (Suc m)
  then have i: "i < length (fa_vals arg)" by simp
  from assms(3) [OF i] obtain d where d: "dsv_at root (snd (fa_vals arg ! i)) = Some d" "dv_type d \<noteq> ty"
    by blast
  have "arg_find_loop root arg ty t (i + 1) = None" using Suc i by simp
  then show ?case using d i assms(1) by (subst arg_find_loop.simps) simp
qed

text \<open>
  \<open>ret_cnt\<close> counts the results that did not fit: when a search has found more than 16 values
  and none of the first 16 has the type \<open>dsv_arg_find\<close> looks for, the loop runs on past the
  end of \<open>vals\<close>.
\<close>

theorem find_arg_overruns:
  assumes "arg = fold (dsv_find_arg_add True) ps find_arg0" "16 < length ps" "length ps \<le> 255"
    and "\<And>p. p \<in> set ps \<Longrightarrow> \<exists>d. dsv_at root p = Some d \<and> dv_type d \<noteq> ty"
  shows "fa_ret_cnt arg = length ps \<and> length (fa_vals arg) = 16 \<and> dsv_arg_find root arg ty t = None"
proof -
  have a: "fa_ret_cnt arg = length ps" "fa_vals arg = map (Pair True) (take 16 ps)"
    using add_many [OF assms(3)] assms(1) by simp_all
  have "\<exists>d. dsv_at root (snd (fa_vals arg ! j)) = Some d \<and> dv_type d \<noteq> ty" if "j < length (fa_vals arg)" for j
    using assms(4) [of "ps ! j"] that a(2) by simp
  then have "dsv_arg_find root arg ty t = None"
    unfolding dsv_arg_find_def using assms(2) a by (intro arg_find_overrun) simp_all
  then show ?thesis using a assms(2) by simp
qed

subsection \<open>Concrete runs\<close>

definition fx_int :: "nat \<Rightarrow> dsv" where
  "fx_int n = Dsv (VBytes (replicate n 0)) 50 DSVT_INT_CST DSV_SUBTYPE_DEF flag_zero n False"

text \<open>\<open>union { long a; int b; }\<close>.\<close>

definition fx_union :: dsv where
  "fx_union = Dsv (VElems [Dsv1 0 64 (fx_int 8), Dsv1 0 32 (fx_int 4)]) 60
     DSVT_CONSTRUCTOR DSV_SUBTYPE_UNION flag_zero 8 False"

text \<open>\<open>struct { int a; struct { struct { int b; } c; char e; } f; }\<close>: the place of \<open>b\<close> is also that of \<open>c\<close>.\<close>

definition fx_inner :: dsv where
  "fx_inner = Dsv (VElems [Dsv1 0 32 (fx_int 4)]) 60 DSVT_CONSTRUCTOR DSV_SUBTYPE_DEF flag_zero 4 False"

definition fx_nested :: dsv where
  "fx_nested = Dsv (VElems [Dsv1 0 32 (fx_int 4), Dsv1 32 64
       (Dsv (VElems [Dsv1 0 32 fx_inner, Dsv1 32 8 (fx_int 1)]) 60 DSVT_CONSTRUCTOR DSV_SUBTYPE_DEF flag_zero 8 False)]) 60
     DSVT_CONSTRUCTOR DSV_SUBTYPE_DEF flag_zero 12 False"

theorem find_struct_elem_witness:
  "\<exists>arg. dsv_find_constructor_elem fx_nested 32 32 find_arg0 = (0, arg) \<and>
     fa_vals arg = [(False, [1, 0]), (True, [1, 0, 0])]"
proof -
  have "struct_path fx_nested [1, 0, 0]" by (simp add: fx_nested_def velems_def fx_inner_def fx_int_def)
  moreover have "path_offset fx_nested [1, 0, 0] = 32" "path_bits fx_nested [1, 0, 0] = 32"
    by (simp_all add: fx_nested_def velems_def fx_inner_def)
  moreover have "path_results fx_nested [1, 0, 0] = [(False, [1, 0]), (True, [1, 0, 0])]"
    by (simp add: path_results_def path_whole_def fx_nested_def velems_def fx_inner_def upt_rec)
  ultimately show ?thesis using find_struct_elem [of fx_nested "[1, 0, 0]"] by fastforce
qed

theorem union_search_gives_up_witness:
  "dsv_find_constructor_elem fx_union 0 32 find_arg0 = (- 1, find_arg0) \<and>
   dsv_at fx_union [1] = Some (fx_int 4)"
proof -
  have "covers 0 32 0 64" "dv_type (fx_int 8) \<noteq> DSVT_CONSTRUCTOR" "\<not> ((0 :: int) = 0 \<and> (32 :: nat) = 64)"
    "(32 :: nat) \<noteq> 8 * BITS_PER_UNIT" "(0 :: nat) < 32"
    by (simp_all add: covers_def u32_of_def fx_int_def)
  from union_search_gives_up [OF this(1-3) fx_union_def this(4,5)] show ?thesis
    by (simp add: fx_union_def)
qed

theorem find_arg_overruns_witness:
  "dsv_arg_find fx_union (fold (dsv_find_arg_add True) (replicate 17 [1]) find_arg0) DSVT_REAL_CST 1 = None"
proof -
  have "16 < length (replicate 17 [1 :: nat])" "length (replicate 17 [1 :: nat]) \<le> 255" by simp_all
  moreover have "\<exists>d. dsv_at fx_union p = Some d \<and> dv_type d \<noteq> DSVT_REAL_CST"
    if "p \<in> set (replicate 17 [1 :: nat])" for p
    using that by (simp add: fx_union_def fx_int_def)
  ultimately show ?thesis
    using find_arg_overruns [OF refl, of "replicate 17 [1]" fx_union DSVT_REAL_CST 1] by blast
qed

end
