(* ===== verification/Data_State_Compute.thy ===== *)
theory Data_State_Compute
  imports Data_State_Copy
begin

text \<open>
  analysis/data-state.c: computing with two runtime values. The operands are copied, an
  address becomes the number it is, and \<open>clib_compute_bits\<close> does the arithmetic, which is a
  parameter: the bytes, the number of bytes and the sign flag of both sides, the operation,
  and the result if there is one.
\<close>

datatype clib_compute_flag = CLIB_COMPUTE_F_COMPARE | CLIB_COMPUTE_F_OTHER nat

datatype dsv_comp_flag =
    DSV_COMP_F_UNK | DSV_COMP_F_EQ | DSV_COMP_F_NE | DSV_COMP_F_GE | DSV_COMP_F_GT
  | DSV_COMP_F_LE | DSV_COMP_F_LT

type_synonym clib_compute =
  "8 word list \<Rightarrow> nat \<Rightarrow> bool \<Rightarrow> 8 word list \<Rightarrow> nat \<Rightarrow> bool \<Rightarrow> clib_compute_flag \<Rightarrow> int option"

text \<open>The result of a comparison from the three-way result; \<open>None\<close> is \<open>BUG()\<close>.\<close>

fun comp_result :: "dsv_comp_flag \<Rightarrow> int \<Rightarrow> int option" where
  "comp_result DSV_COMP_F_EQ c = Some (if c = 0 then 1 else 0)"
| "comp_result DSV_COMP_F_NE c = Some (if c = 0 then 0 else 1)"
| "comp_result DSV_COMP_F_GE c = Some (if c = - 1 then 0 else 1)"
| "comp_result DSV_COMP_F_GT c = Some (if c = 1 then 1 else 0)"
| "comp_result DSV_COMP_F_LE c = Some (if c = 1 then 0 else 1)"
| "comp_result DSV_COMP_F_LT c = Some (if c = - 1 then 1 else 0)"
| "comp_result DSV_COMP_F_UNK c = None"

text \<open>\<open>__dsv_compute\<close>: the error and \<open>*retval\<close> when it is set.\<close>

definition dsv_compute_raw ::
    "clib_compute \<Rightarrow> dsv \<Rightarrow> dsv \<Rightarrow> clib_compute_flag \<Rightarrow> dsv_comp_flag \<Rightarrow> (int \<times> int option) option" where
  "dsv_compute_raw C l r flag extra_flag =
     (case (dv_value l, dv_value r) of
        (VBytes lb, VBytes rb) \<Rightarrow>
          (case C lb (dv_bytes l) (dv_sign l) rb (dv_bytes r) (dv_sign r) flag of
             None \<Rightarrow> Some (- 1, None)
           | Some c \<Rightarrow>
               (if flag = CLIB_COMPUTE_F_COMPARE
                then do { v \<leftarrow> comp_result extra_flag c; Some (0, Some v) }
                else Some (0, Some c)))
      | _ \<Rightarrow> None)"

text \<open>A pointer as the eight bytes it is stored in.\<close>

definition ptr_bytes :: "int \<Rightarrow> 8 word list" where
  "ptr_bytes p = map (\<lambda>i. word_of_int (p div 256 ^ i)) [0..<8]"

text \<open>
  The body of the loop over the two operands: the copy \<open>fake\<close> of the operand \<open>cur\<close>, made a
  number; \<open>False\<close> is the jump to \<open>out\<close>.
\<close>

definition to_number :: "nat \<Rightarrow> dsv \<Rightarrow> dsv \<Rightarrow> dsh \<Rightarrow> (bool \<times> dsv \<times> dsh) option" where
  "to_number n cur fake h =
     (case dv_type cur of
        DSVT_INT_CST \<Rightarrow> Some (True, fake, h)
      | DSVT_REAL_CST \<Rightarrow> Some (True, fake, h)
      | DSVT_ADDR \<Rightarrow> do {
          (fake, h) \<leftarrow> dsv_free_data n fake h;
          (fake, h) \<leftarrow> dsv_alloc_data n fake DSVT_INT_CST DSV_SUBTYPE_DEF 8 h;
          (case dv_value cur of
             VRef a offset bits \<Rightarrow> Some (True, dsv_set_value (VBytes (ptr_bytes (int a + offset))) fake, h)
           | _ \<Rightarrow> None)
        }
      | _ \<Rightarrow> Some (False, fake, h))"

text \<open>The label \<open>out\<close>.\<close>

definition free_both :: "nat \<Rightarrow> dsv \<Rightarrow> dsv \<Rightarrow> dsh \<Rightarrow> dsh option" where
  "free_both n fl fr h =
     do { (_, h) \<leftarrow> dsv_free_data n fl h; (_, h) \<leftarrow> dsv_free_data n fr h; Some h }"

definition dsv_compute ::
    "clib_compute \<Rightarrow> nat \<Rightarrow> dsv \<Rightarrow> dsv \<Rightarrow> clib_compute_flag \<Rightarrow> dsv_comp_flag \<Rightarrow> dsh \<Rightarrow>
     (int \<times> int option \<times> dsh) option" where
  "dsv_compute C n l r flag extra_flag h =
     do {
       (err, fl, h) \<leftarrow> dsv_copy_data n False None dsv_alloc l h;
       (if err = - 1 then Some (- 1, None, h) else do {
         (err, fr, h) \<leftarrow> dsv_copy_data n False None dsv_alloc r h;
         (if err = - 1 then Some (- 1, None, h) else do {
           (ok, fl, h) \<leftarrow> to_number n l fl h;
           (if \<not> ok then do { h \<leftarrow> free_both n fl fr h; Some (- 1, None, h) } else do {
             (ok, fr, h) \<leftarrow> to_number n r fr h;
             (if \<not> ok then do { h \<leftarrow> free_both n fl fr h; Some (- 1, None, h) }
              else if dv_type fl \<noteq> dv_type fr then Some (- 1, None, h)
              else if dv_type fl \<noteq> DSVT_INT_CST then Some (- 1, None, h)
              else do {
                (err, ret) \<leftarrow> dsv_compute_raw C fl fr flag extra_flag;
                h \<leftarrow> free_both n fl fr h;
                Some (err, ret, h)
              })
           })
         })
       })
     }"

definition dsv_union_data_update :: "dsv \<Rightarrow> dsv \<Rightarrow> int" where
  "dsv_union_data_update union_dsv updated_dsv = - 1"

subsection \<open>Copies of operands\<close>

text \<open>The references of every operand are counted outside, in \<open>ext\<close>.\<close>

lemma copy_operand:
  assumes "ref_inv h {} ext" "dsv_wf d" "dsv_refs d \<subseteq># ext" "card (dom (ds_map h)) \<le> n"
    and "dv_type d \<noteq> DSVT_CONSTRUCTOR"
  shows "\<exists>f h'. dsv_copy_data n False None dsv_alloc d h = Some (0, f, h') \<and>
    ref_inv h' {} (ext + dsv_refs f) \<and> dsv_wf f \<and> dsv_norm f = dsv_norm d \<and> shrinks h h'"
proof -
  have z: "ref_inv h {} (ext + dsv_refs dsv_alloc)" "dsv_wf dsv_alloc" using assms(1) by (simp_all add: dsv_alloc_def)
  have c: "compat dsv_alloc d" using assms(5) by (simp add: compat_def dsv_alloc_def)
  obtain ret f h' where run: "dsv_copy_rec n None dsv_alloc d h = Some (ret, f, h')"
    and cp: "copied None d h ext ret f h'" using copy_all(1) z assms by blast
  have "ret = 0" using cp by (auto simp: copied_def self_ref_def split: dsv_value.splits)
  then show ?thesis using run cp c by (auto simp: copy_data_cases copied_def)
qed

lemma norm_fields:
  assumes "dsv_norm f = dsv_norm d"
  shows "dv_type f = dv_type d" "dv_bytes f = dv_bytes d" "dv_sign f = dv_sign d"
    "dv_value d = VBytes bs \<Longrightarrow> dv_value f = VBytes bs"
    "dv_value d = VRef a offset bits \<Longrightarrow> dv_value f = VRef a offset bits"
  using assms by (cases f; cases d; auto split: dsv_value.splits)+

lemma wf_int:
  assumes "dsv_wf d" "dv_type d = DSVT_INT_CST \<or> dv_type d = DSVT_REAL_CST"
  shows "\<exists>bs. dv_value d = VBytes bs" "dsv_refs d = {#}"
  using assms by (cases d; auto split: dsv_value.splits)+

lemma wf_addr:
  assumes "dsv_wf d" "dv_type d = DSVT_ADDR"
  shows "\<exists>a offset bits. dv_value d = VRef a offset bits"
  using assms by (cases d; auto split: dsv_value.splits)+

text \<open>The number an operand stands for.\<close>

fun number_of :: "dsv \<Rightarrow> 8 word list \<times> nat \<times> bool" where
  "number_of (Dsv (VBytes bs) r t st f k sg) = (bs, k, sg)"
| "number_of (Dsv (VRef a offset bits) r t st f k sg) = (ptr_bytes (int a + offset), 8, sg)"
| "number_of (Dsv v r t st f k sg) = ([], 0, sg)"

lemma to_number_spec:
  assumes "ref_inv h {} (ext + dsv_refs f)" "dsv_wf f" "dsv_norm f = dsv_norm d" "dsv_wf d"
    and "card (dom (ds_map h)) \<le> n" "dv_type d = DSVT_INT_CST \<or> dv_type d = DSVT_ADDR"
  shows "\<exists>g h'. to_number n d f h = Some (True, g, h') \<and> dv_type g = DSVT_INT_CST \<and>
    dsv_refs g = {#} \<and> dsv_wf g \<and> ref_inv h' {} ext \<and> shrinks h h' \<and>
    dv_value g = VBytes (fst (number_of d)) \<and> dv_bytes g = fst (snd (number_of d)) \<and>
    dv_sign g = snd (snd (number_of d))"
proof (cases "dv_type d = DSVT_INT_CST")
  case True
  then obtain bs where bs: "dv_value d = VBytes bs" using wf_int(1) assms(4) by blast
  note nf = norm_fields [OF assms(3)]
  have "dsv_refs f = {#}" using wf_int(2) assms(2) nf(1) True by simp
  moreover have "number_of d = (bs, dv_bytes d, dv_sign d)" using bs by (cases d) simp
  ultimately show ?thesis using assms(1,2) True bs nf by (simp add: to_number_def)
next
  case False
  then have ad: "dv_type d = DSVT_ADDR" using assms(6) by blast
  then obtain a offset bits where v: "dv_value d = VRef a offset bits" using wf_addr assms(4) by blast
  have "card (dom (ds_map h) - {}) \<le> n" using assms(5) by simp
  then obtain h1 where fr: "dsv_free_data n f h = Some (dsv_freed f, h1)" and rel: "releases h {} ext h1"
    using release_all(1) assms(1,2) by blast
  obtain r0 st0 f0 k0 sg0 where fz: "dsv_freed f = Dsv VNull r0 DSVT_UNK st0 f0 k0 sg0" and "dv_sign f = sg0"
    by (cases f) simp
  then have "dv_sign d = sg0" using norm_fields(3) [OF assms(3)] by simp
  moreover have "number_of d = (ptr_bytes (int a + offset), 8, dv_sign d)" using v by (cases d) simp
  moreover have "length (ptr_bytes p) = 8" for p by (simp add: ptr_bytes_def)
  ultimately show ?thesis using ad v fr fz rel
    by (simp add: to_number_def alloc_freed releases_def)
qed

subsection \<open>The properties\<close>

fun comp_holds :: "dsv_comp_flag \<Rightarrow> int \<Rightarrow> int \<Rightarrow> bool" where
  "comp_holds DSV_COMP_F_EQ x y = (x = y)"
| "comp_holds DSV_COMP_F_NE x y = (x \<noteq> y)"
| "comp_holds DSV_COMP_F_GE x y = (y \<le> x)"
| "comp_holds DSV_COMP_F_GT x y = (y < x)"
| "comp_holds DSV_COMP_F_LE x y = (x \<le> y)"
| "comp_holds DSV_COMP_F_LT x y = (x < y)"
| "comp_holds DSV_COMP_F_UNK x y = False"

lemma comp_result_holds:
  "fl \<noteq> DSV_COMP_F_UNK \<Longrightarrow> comp_result fl (sgn (x - y)) = Some (if comp_holds fl x y then 1 else 0)"
  by (cases fl) (auto simp: sgn_if)

definition operand :: "dsv \<Rightarrow> addr multiset \<Rightarrow> bool" where
  "operand d ext \<longleftrightarrow> dsv_wf d \<and> dsv_refs d \<subseteq># ext \<and> (dv_type d = DSVT_INT_CST \<or> dv_type d = DSVT_ADDR)"

lemma free_both_numbers:
  assumes "ref_inv h {} ext" "dsv_wf f" "dsv_wf g" "dsv_refs f = {#}" "dsv_refs g = {#}"
    and "card (dom (ds_map h)) \<le> n"
  shows "\<exists>h'. free_both n f g h = Some h' \<and> ref_inv h' {} ext \<and> shrinks h h'"
proof -
  have c: "card (dom (ds_map h) - {}) \<le> n" using assms(6) by simp
  have i0: "ref_inv h {} (ext + dsv_refs f)" using assms(1,4) by simp
  obtain h1 where 1: "dsv_free_data n f h = Some (dsv_freed f, h1)" "releases h {} ext h1"
    using release_all(1) i0 assms(2) c by blast
  then have i1: "ref_inv h1 {} (ext + dsv_refs g)" "card (dom (ds_map h1) - {}) \<le> n"
    using card_live_mono [OF assms(1), of h1] c assms(5) by (simp_all add: releases_def)
  obtain h2 where 2: "dsv_free_data n g h1 = Some (dsv_freed g, h2)" "releases h1 {} ext h2"
    using release_all(1) i1 assms(3) by blast
  show ?thesis using 1 2 shrinks_trans by (auto simp: free_both_def releases_def)
qed

lemma compute_compares:
  assumes "ref_inv h {} ext" "operand l ext" "operand r ext" "card (dom (ds_map h)) \<le> n"
    and "C (fst (number_of l)) (fst (snd (number_of l))) (snd (snd (number_of l)))
      (fst (number_of r)) (fst (snd (number_of r))) (snd (snd (number_of r))) CLIB_COMPUTE_F_COMPARE =
      Some (sgn (x - y))" "fl \<noteq> DSV_COMP_F_UNK"
  shows "\<exists>h'. dsv_compute C n l r CLIB_COMPUTE_F_COMPARE fl h =
      Some (0, Some (if comp_holds fl x y then 1 else 0), h') \<and> ref_inv h' {} ext \<and> shrinks h h'"
proof -
  have nc: "dv_type l \<noteq> DSVT_CONSTRUCTOR" "dv_type r \<noteq> DSVT_CONSTRUCTOR"
    using assms(2,3) by (auto simp: operand_def)
  obtain f h1 where 1: "dsv_copy_data n False None dsv_alloc l h = Some (0, f, h1)"
    "ref_inv h1 {} (ext + dsv_refs f)" "dsv_wf f" "dsv_norm f = dsv_norm l" "shrinks h h1"
    using copy_operand [of h ext l n] assms(1-4) nc by (auto simp: operand_def)
  have c1: "card (dom (ds_map h1)) \<le> n" using card_live_mono [OF assms(1) 1(5)] assms(4) by simp
  have "dsv_refs r \<subseteq># ext + dsv_refs f" using assms(3) by (simp add: operand_def subset_mset.add_increasing2)
  then obtain g h2 where 2: "dsv_copy_data n False None dsv_alloc r h1 = Some (0, g, h2)"
    "ref_inv h2 {} (ext + dsv_refs f + dsv_refs g)" "dsv_wf g" "dsv_norm g = dsv_norm r" "shrinks h1 h2"
    using copy_operand [of h1 "ext + dsv_refs f" r n] 1(2) assms(3) c1 nc by (auto simp: operand_def)
  have c2: "card (dom (ds_map h2)) \<le> n" using card_live_mono [OF 1(2) 2(5)] c1 by simp
  have "ref_inv h2 {} ((ext + dsv_refs g) + dsv_refs f)" using 2(2) by (simp add: ac_simps)
  then obtain f2 h3 where 3: "to_number n l f h2 = Some (True, f2, h3)" "dv_type f2 = DSVT_INT_CST"
    "dsv_refs f2 = {#}" "dsv_wf f2" "ref_inv h3 {} (ext + dsv_refs g)" "shrinks h2 h3"
    "dv_value f2 = VBytes (fst (number_of l))" "dv_bytes f2 = fst (snd (number_of l))"
    "dv_sign f2 = snd (snd (number_of l))"
    using to_number_spec [of h2 "ext + dsv_refs g" f l n] 1(3,4) assms(2) c2 by (auto simp: operand_def)
  have c3: "card (dom (ds_map h3)) \<le> n" using card_live_mono [OF 2(2) 3(6)] c2 by simp
  obtain g2 h4 where 4: "to_number n r g h3 = Some (True, g2, h4)" "dv_type g2 = DSVT_INT_CST"
    "dsv_refs g2 = {#}" "dsv_wf g2" "ref_inv h4 {} ext" "shrinks h3 h4"
    "dv_value g2 = VBytes (fst (number_of r))" "dv_bytes g2 = fst (snd (number_of r))"
    "dv_sign g2 = snd (snd (number_of r))"
    using to_number_spec [of h3 ext g r n] 3(5) 2(3,4) assms(3) c3 by (auto simp: operand_def)
  have c4: "card (dom (ds_map h4)) \<le> n" using card_live_mono [OF 3(5) 4(6)] c3 by simp
  obtain h5 where 5: "free_both n f2 g2 h4 = Some h5" "ref_inv h5 {} ext" "shrinks h4 h5"
    using free_both_numbers [OF 4(5) 3(4) 4(4) 3(3) 4(3) c4] by blast
  have "dsv_compute_raw C f2 g2 CLIB_COMPUTE_F_COMPARE fl =
      Some (0, Some (if comp_holds fl x y then 1 else 0))"
    using assms(5,6) 3(7-9) 4(7-9) comp_result_holds by (simp add: dsv_compute_raw_def)
  moreover have "shrinks h h5" using 1(5) 2(5) 3(6) 4(6) 5(3) shrinks_trans by blast
  ultimately show ?thesis using 1(1) 2(1) 3(1,2) 4(1,2) 5 by (simp add: dsv_compute_def)
qed

text \<open>
  Comparing two numbers, or addresses as numbers, gives the truth of the relation asked
  for, when \<open>clib_compute_bits\<close> gives the sign of the difference; and the comparison leaves
  every reference count as it was, its copies included.
\<close>

theorem dsv_compute_compares:
  assumes "ref_inv h {} ext" "operand l ext" "operand r ext" "card (dom (ds_map h)) \<le> n"
    and "C (fst (number_of l)) (fst (snd (number_of l))) (snd (snd (number_of l)))
      (fst (number_of r)) (fst (snd (number_of r))) (snd (snd (number_of r))) CLIB_COMPUTE_F_COMPARE =
      Some (sgn (x - y))" "fl \<noteq> DSV_COMP_F_UNK"
  shows "\<exists>h'. dsv_compute C n l r CLIB_COMPUTE_F_COMPARE fl h =
      Some (0, Some (if comp_holds fl x y then 1 else 0), h') \<and> ref_inv h' {} ext"
  using compute_compares [of h ext l r n C x y fl, OF assms] by blast

text \<open>
  Comparing an address with a constructor leaks: the copy of the address is not released on
  that error path, so the data state it refers to is counted once more than it is referred
  to, and is never freed.
\<close>

theorem dsv_compute_leaks:
  assumes "ref_inv h {} ext" "dsv_wf l" "dsv_refs l \<subseteq># ext" "card (dom (ds_map h)) \<le> n"
    and "dv_type l = DSVT_ADDR" "dsv_refs l = {#a#}" "dv_type r = DSVT_CONSTRUCTOR"
  shows "\<exists>h'. dsv_compute C n l r flag fl h = Some (- 1, None, h') \<and> ref_inv h' {} (add_mset a ext)"
proof -
  obtain f h1 where 1: "dsv_copy_data n False None dsv_alloc l h = Some (0, f, h1)"
    "ref_inv h1 {} (ext + dsv_refs f)" "dsv_wf f" "dsv_norm f = dsv_norm l"
    using copy_operand [OF assms(1-4)] assms(5) by auto
  obtain b offset bits where v: "dv_value l = VRef b offset bits" using wf_addr assms(2,5) by blast
  note nf = norm_fields [OF 1(4)]
  have "dsv_refs l = ref_mset b" using v assms(5) by (cases l) simp
  moreover have "dsv_refs f = ref_mset b" using nf(1,5) v assms(5) by (cases f) simp
  ultimately have "dsv_refs f = {#a#}" using assms(6) by simp
  then have "ref_inv h1 {} (add_mset a ext)" using 1(2) by simp
  moreover have "dsv_copy_data n False None dsv_alloc r h1 = Some (- 1, dsv_alloc, h1)"
    using assms(7) by (simp add: copy_data_cases compat_def dsv_alloc_def)
  ultimately show ?thesis using 1(1) by (simp add: dsv_compute_def)
qed

subsection \<open>Concrete runs\<close>

text \<open>A comparison of one-byte numbers.\<close>

definition cmp_bytes :: clib_compute where
  "cmp_bytes lb ln ls rb rn rs fl =
     (case (lb, rb) of (x # _, y # _) \<Rightarrow> Some (sgn (uint x - uint y)) | _ \<Rightarrow> None)"

definition cx_num :: "8 word \<Rightarrow> dsv" where
  "cx_num w = Dsv (VBytes [w]) 50 DSVT_INT_CST DSV_SUBTYPE_DEF flag_zero 1 False"

theorem dsv_compute_compares_witness:
  "\<exists>h'. dsv_compute cmp_bytes 3 (cx_num 5) (cx_num 9) CLIB_COMPUTE_F_COMPARE DSV_COMP_F_LT dx_heap =
     Some (0, Some 1, h') \<and> ref_inv h' {} {#1#}"
proof -
  have o: "operand (cx_num 5) {#1#}" "operand (cx_num 9) {#1#}" by (simp_all add: operand_def cx_num_def)
  have c: "card (dom (ds_map dx_heap)) \<le> 3" by (simp add: dx_dom)
  have "cmp_bytes (fst (number_of (cx_num 5))) (fst (snd (number_of (cx_num 5)))) (snd (snd (number_of (cx_num 5))))
      (fst (number_of (cx_num 9))) (fst (snd (number_of (cx_num 9)))) (snd (snd (number_of (cx_num 9))))
      CLIB_COMPUTE_F_COMPARE = Some (sgn (5 - 9))"
    by (simp add: cmp_bytes_def cx_num_def)
  from dsv_compute_compares [of dx_heap "{#1#}" "cx_num 5" "cx_num 9" 3 cmp_bytes 5 9 DSV_COMP_F_LT,
      OF dx_inv o c this]
  show ?thesis by simp
qed

theorem dsv_compute_leaks_witness:
  "\<exists>h'. dsv_compute cmp_bytes 3 (dx_ref DSVT_ADDR 1)
       (Dsv (VElems []) 60 DSVT_CONSTRUCTOR DSV_SUBTYPE_DEF flag_zero 0 False)
       CLIB_COMPUTE_F_COMPARE DSV_COMP_F_EQ dx_heap = Some (- 1, None, h') \<and>
     ref_inv h' {} {#1, 1#}"
proof -
  let ?l = "dx_ref DSVT_ADDR 1"
  let ?r = "Dsv (VElems []) 60 DSVT_CONSTRUCTOR DSV_SUBTYPE_DEF flag_zero 0 False"
  have p: "dsv_wf ?l" "dsv_refs ?l \<subseteq># {#1#}" "card (dom (ds_map dx_heap)) \<le> 3" "dv_type ?l = DSVT_ADDR"
    "dsv_refs ?l = {#1#}" "dv_type ?r = DSVT_CONSTRUCTOR"
    by (simp_all add: dx_ref_def ref_mset_def dx_dom)
  from dsv_compute_leaks [OF dx_inv p, of cmp_bytes CLIB_COMPUTE_F_COMPARE DSV_COMP_F_EQ]
  show ?thesis by simp
qed

end
