(* ===== verification/Data_State_Lists.thy ===== *)
theory Data_State_Lists
  imports Data_State_Copy Call_Graph
begin

text \<open>
  include/si_ds.h, last part: the lists of data states. The project and every function keep
  bases, the identities of the data states they have; the run of a function (\<open>struct fn_list\<close>)
  and the project keep the data states themselves, made from the bases. All lists are searched
  by address and kind. Bases are never removed, so a pointer to one is its position.
\<close>

subsection \<open>Bases\<close>

text \<open>\<open>struct data_state_base\<close>; \<open>ds_init_base\<close> fills fields of 48 and 8 bits.\<close>

record ds_base =
  db_ref_base :: nat
  db_ref_type :: nat

definition ds_base_new :: "nat \<Rightarrow> nat \<Rightarrow> ds_base" where
  "ds_base_new a ty = \<lparr>db_ref_base = a mod 2 ^ 48, db_ref_type = ty mod 2 ^ 8\<rparr>"

definition base_match :: "ds_base \<Rightarrow> nat \<times> nat \<Rightarrow> bool" where
  "base_match b k \<longleftrightarrow> db_ref_base b = fst k \<and> db_ref_type b = snd k"

definition ds_find :: "ds_base list \<Rightarrow> nat \<Rightarrow> nat \<Rightarrow> nat option" where
  "ds_find head a ty = slist_pos (\<lambda>b. base_match b (a, ty)) head"

text \<open>Find or append, on the list of a function and on that of the project.\<close>

definition ds_base_add :: "nat \<times> nat \<Rightarrow> unit \<Rightarrow> ds_base list \<Rightarrow> nat \<times> ds_base list" where
  "ds_base_add k u head =
     (case ds_find head (fst k) (snd k) of
        Some i \<Rightarrow> (i, head)
      | None \<Rightarrow> (length head, slist_add_tail (ds_base_new (fst k) (snd k)) head))"

definition ds_key_ok :: "nat \<times> nat \<Rightarrow> bool" where
  "ds_key_ok k \<longleftrightarrow> fst k < 2 ^ 48 \<and> snd k < 2 ^ 8"

interpretation db: find_append base_match "\<lambda>k _. ds_base_new (fst k) (snd k)" ds_base_add ds_key_ok
  by unfold_locales
    (simp_all add: base_match_def ds_base_new_def ds_key_ok_def ds_base_add_def ds_find_def)

text \<open>
  The state: the store, the bases of the project and its data states, and the bases of the
  functions. The variable and function nodes are those of the call graph.
\<close>

record dss =
  dss_h :: dsh
  dss_global :: "ds_base list"
  dss_rw :: "addr list"
  dss_fn :: "addr \<Rightarrow> ds_base list"

definition fn_ds_find :: "addr \<Rightarrow> nat \<Rightarrow> nat \<Rightarrow> dss \<Rightarrow> nat option" where
  "fn_ds_find fn a ty s = ds_find (dss_fn s fn) a ty"

definition fn_ds_add :: "addr \<Rightarrow> nat \<Rightarrow> nat \<Rightarrow> dss \<Rightarrow> nat \<times> dss" where
  "fn_ds_add fn a ty s =
     (let (i, l) = ds_base_add (a, ty) () (dss_fn s fn) in (i, s\<lparr>dss_fn := (dss_fn s)(fn := l)\<rparr>))"

definition global_ds_base_find :: "nat \<Rightarrow> nat \<Rightarrow> dss \<Rightarrow> nat option" where
  "global_ds_base_find a ty s = ds_find (dss_global s) a ty"

definition global_ds_base_add :: "nat \<Rightarrow> nat \<Rightarrow> dss \<Rightarrow> nat \<times> dss" where
  "global_ds_base_add a ty s =
     (let (i, l) = ds_base_add (a, ty) () (dss_global s) in (i, s\<lparr>dss_global := l\<rparr>))"

text \<open>\<open>ds_base_find\<close>: the project first, then the function if there is one.\<close>

definition ds_base_find :: "addr \<Rightarrow> nat \<Rightarrow> nat \<Rightarrow> dss \<Rightarrow> (ds_base list \<times> nat) option" where
  "ds_base_find fn a ty s =
     (case global_ds_base_find a ty s of
        Some i \<Rightarrow> Some (dss_global s, i)
      | None \<Rightarrow> if fn \<noteq> NULL then map_option (Pair (dss_fn s fn)) (fn_ds_find fn a ty s) else None)"

subsection \<open>Data states\<close>

text \<open>\<open>ds_dup_base\<close>: a data state for a base, with the tree node of its variable or function.\<close>

definition ds_dup_base :: "cgs \<Rightarrow> ds_base \<Rightarrow> dsh \<Rightarrow> (addr \<times> dsh) option" where
  "ds_dup_base st b h =
     (if db_ref_type b = DSRT_VN then
        Some (ds_rw_new (db_ref_base b) (db_ref_type b) (vn_node (h_vn st (db_ref_base b))) h)
      else if db_ref_type b = DSRT_FN then
        Some (ds_rw_new (db_ref_base b) (db_ref_type b) (fn_node (h_fn st (db_ref_base b))) h)
      else if db_ref_type b = DSRT_RAW then
        Some (ds_rw_new (db_ref_base b) (db_ref_type b) (db_ref_base b) h)
      else None)"

text \<open>\<open>__ds_find\<close> on a list of data states; \<open>NULL\<close> when there is none.\<close>

fun ds_rw_search :: "addr list \<Rightarrow> nat \<Rightarrow> nat \<Rightarrow> dsh \<Rightarrow> addr option" where
  "ds_rw_search [] a ty h = Some NULL"
| "ds_rw_search (d # ds) a ty h =
     (case ds_map h d of
        None \<Rightarrow> None
      | Some r \<Rightarrow> if ds_ref_base r = a \<and> ds_ref_type r = ty then Some d else ds_rw_search ds a ty h)"

text \<open>The state found is held for the caller.\<close>

definition fnl_ds_find :: "addr list \<Rightarrow> nat \<Rightarrow> nat \<Rightarrow> dsh \<Rightarrow> (addr \<times> dsh) option" where
  "fnl_ds_find head a ty h =
     do {
       d \<leftarrow> ds_rw_search head a ty h;
       (if d = NULL then Some (NULL, h) else do { h \<leftarrow> ds_hold d h; Some (d, h) })
     }"

text \<open>
  Find or add: a new data state has the reference of the list and that of the caller.
  \<open>add_check\<close> is the result of clib's \<open>slist_add_tail_check\<close>, which appends unless it
  objects; the data state is then dropped.
\<close>

definition fnl_ds_add ::
    "(addr \<Rightarrow> addr list \<Rightarrow> bool) \<Rightarrow> nat \<Rightarrow> addr list \<Rightarrow> nat \<Rightarrow> nat \<Rightarrow> addr \<Rightarrow> dsh \<Rightarrow>
      (addr \<times> addr list \<times> dsh) option" where
  "fnl_ds_add add_check n head a ty raw h =
     do {
       (d, h) \<leftarrow> fnl_ds_find head a ty h;
       (if d \<noteq> NULL then Some (d, head, h)
        else do {
          let (d, h) = ds_rw_new a ty raw h;
          (if add_check d head then do { h \<leftarrow> ds_drop n d h; Some (NULL, head, h) }
           else do { h \<leftarrow> ds_hold d h; Some (d, slist_add_tail d head, h) })
        })
     }"

text \<open>\<open>init_global_ds_rw\<close> over the bases.\<close>

fun init_rw_loop :: "cgs \<Rightarrow> ds_base list \<Rightarrow> addr list \<Rightarrow> dsh \<Rightarrow> (addr list \<times> dsh) option" where
  "init_rw_loop st [] rw h = Some (rw, h)"
| "init_rw_loop st (b # bs) rw h =
     do { (d, h) \<leftarrow> ds_dup_base st b h; init_rw_loop st bs (slist_add_tail d rw) h }"

definition init_global_ds_rw :: "cgs \<Rightarrow> dss \<Rightarrow> dss option" where
  "init_global_ds_rw st s =
     do {
       (rw, h) \<leftarrow> init_rw_loop st (dss_global s) (dss_rw s) (dss_h s);
       Some (s\<lparr>dss_rw := rw, dss_h := h\<rparr>)
     }"

definition init_if_empty :: "cgs \<Rightarrow> dss \<Rightarrow> dss option" where
  "init_if_empty st s = (if dss_rw s = [] then init_global_ds_rw st s else Some s)"

definition global_ds_rw_find :: "cgs \<Rightarrow> nat \<Rightarrow> nat \<Rightarrow> dss \<Rightarrow> (addr \<times> dss) option" where
  "global_ds_rw_find st a ty s =
     do {
       s \<leftarrow> init_if_empty st s;
       (d, h) \<leftarrow> fnl_ds_find (dss_rw s) a ty (dss_h s);
       Some (d, s\<lparr>dss_h := h\<rparr>)
     }"

definition global_ds_rw_add ::
    "(addr \<Rightarrow> addr list \<Rightarrow> bool) \<Rightarrow> nat \<Rightarrow> cgs \<Rightarrow> nat \<Rightarrow> nat \<Rightarrow> addr \<Rightarrow> dss \<Rightarrow> (addr \<times> dss) option" where
  "global_ds_rw_add add_check n st a ty raw s =
     do {
       s \<leftarrow> init_if_empty st s;
       (d, rw, h) \<leftarrow> fnl_ds_add add_check n (dss_rw s) a ty raw (dss_h s);
       Some (d, s\<lparr>dss_rw := rw, dss_h := h\<rparr>)
     }"

text \<open>
  \<open>ds_rw_find\<close>: the project, then the states the sample set allocated, then those of the
  active function; the last two only if given.
\<close>

definition ds_rw_find ::
    "cgs \<Rightarrow> addr list option \<Rightarrow> addr list option \<Rightarrow> nat \<Rightarrow> nat \<Rightarrow> dss \<Rightarrow> (addr \<times> dss) option" where
  "ds_rw_find st allocated fnl a ty s =
     do {
       (d, s) \<leftarrow> global_ds_rw_find st a ty s;
       (if d \<noteq> NULL then Some (d, s)
        else do {
          (d, h) \<leftarrow> (case allocated of None \<Rightarrow> Some (NULL, dss_h s) | Some l \<Rightarrow> fnl_ds_find l a ty (dss_h s));
          (if d \<noteq> NULL then Some (d, s\<lparr>dss_h := h\<rparr>)
           else do {
             (d, h) \<leftarrow> (case fnl of None \<Rightarrow> Some (NULL, h) | Some l \<Rightarrow> fnl_ds_find l a ty h);
             Some (d, s\<lparr>dss_h := h\<rparr>)
           })
        })
     }"

subsection \<open>References of the lists\<close>

definition ds_key :: "dsh \<Rightarrow> addr \<Rightarrow> nat \<times> nat" where
  "ds_key h d = (ds_ref_base (the (ds_map h d)), ds_ref_type (the (ds_map h d)))"

lemma new_refs [simp]:
  "dsv_refs (dsv_set_raw raw dsv_alloc) = {#}" "dsv_wf (dsv_set_raw raw dsv_alloc)"
  by (simp_all add: dsv_alloc_def)

lemma ref_inv_new:
  assumes "ref_inv h {} ext" "ds_rw_new a ty raw h = (d, h')"
  shows "d \<notin> dom (ds_map h)" "d \<noteq> NULL" "ref_inv h' {} (add_mset d ext)"
    "\<And>b. b \<noteq> d \<Longrightarrow> ds_map h' b = ds_map h b" "ds_key h' d = (a mod 2 ^ 48, ty mod 2 ^ 8)"
    "dom (ds_map h') = insert d (dom (ds_map h))"
proof -
  have d: "d = ds_brk h" and h': "h' = h\<lparr>ds_map := (ds_map h)(d \<mapsto> \<lparr>ds_ref_base = a mod 2 ^ 48,
      ds_ref_type = ty mod 2 ^ 8, ds_refcnt = 1, ds_val = dsv_set_raw raw dsv_alloc\<rparr>), ds_brk := d + 1\<rparr>"
    using assms(2) by (auto simp: ds_rw_new_def)
  show nd: "d \<notin> dom (ds_map h)" "d \<noteq> NULL" using assms(1) by (auto simp: ref_inv_def d)
  show other: "\<And>b. b \<noteq> d \<Longrightarrow> ds_map h' b = ds_map h b" by (simp add: h')
  show "ds_key h' d = (a mod 2 ^ 48, ty mod 2 ^ 8)" by (simp add: h' ds_key_def)
  show dm: "dom (ds_map h') = insert d (dom (ds_map h))" by (auto simp: h')
  have fin: "finite (dom (ds_map h))" using assms(1) by (simp add: ref_inv_def)
  have "(\<Sum>b \<in> dom (ds_map h') - {}. dsv_refs (val_at h' b)) =
      dsv_refs (val_at h' d) + (\<Sum>b \<in> dom (ds_map h). dsv_refs (val_at h' b))"
    using fin nd(1) by (simp add: dm)
  also have "(\<Sum>b \<in> dom (ds_map h). dsv_refs (val_at h' b)) = (\<Sum>b \<in> dom (ds_map h). dsv_refs (val_at h b))"
    by (intro sum.cong refl) (metis nd(1) other)
  moreover have "dsv_refs (val_at h' d) = {#}" by (simp add: h')
  ultimately have refs: "all_refs h' {} (add_mset d ext) = add_mset d (all_refs h {} ext)"
    by (simp add: all_refs_def)
  have z: "count (all_refs h {} ext) b = 0" if "b \<notin> dom (ds_map h)" for b
    using assms(1) that unfolding ref_inv_def by blast
  have c: "ds_refcnt (the (ds_map h' b)) = int (count (add_mset d (all_refs h {} ext)) b)"
    if "b \<in> dom (ds_map h')" for b
  proof (cases "b = d")
    case True
    then show ?thesis using z [OF nd(1)] by (simp add: h')
  next
    case False
    then have "b \<in> dom (ds_map h)" using that dm by simp
    then have "ds_refcnt (the (ds_map h b)) = int (count (all_refs h {} ext) b)"
      using assms(1) unfolding ref_inv_def by blast
    then show ?thesis using False by (simp add: other)
  qed
  have w: "dsv_wf (val_at h' b)" if "b \<in> dom (ds_map h')" for b
  proof (cases "b = d")
    case True
    then show ?thesis by (simp add: h')
  next
    case False
    then show ?thesis using that assms(1) unfolding ref_inv_def dm by (simp add: other)
  qed
  have zz: "count (add_mset d (all_refs h {} ext)) b = 0" if "b \<notin> dom (ds_map h')" for b
    using that z [of b] by (simp add: dm)
  have lim: "b < ds_brk h'" if "b \<in> dom (ds_map h')" for b
  proof (cases "b = d")
    case False
    then have "b < ds_brk h" using that assms(1) unfolding ref_inv_def dm by blast
    then show ?thesis by (simp add: h' d)
  qed (simp add: h')
  show "ref_inv h' {} (add_mset d ext)"
    using fin nd(2) assms(1) z c w zz lim unfolding ref_inv_def refs dm
    by (simp add: dm h' del: count_add_mset)
qed

lemma list_live:
  assumes "ref_inv h {} (ext + mset l)" "d \<in> set l"
  shows "d \<in> dom (ds_map h)" "d \<noteq> NULL"
proof -
  have "d \<in># ext + mset l" using assms(2) by simp
  then obtain e where "ext + mset l = add_mset d e" by (metis insert_DiffM)
  then show "d \<in> dom (ds_map h)" using ref_inv_live(1) assms(1) by metis
  then show "d \<noteq> NULL" using assms(1) unfolding ref_inv_def by metis
qed

lemma hold_one:
  assumes "ref_inv h {} ext" "a \<in># ext"
  shows "\<exists>h'. ds_hold a h = Some h' \<and> ref_inv h' {} (add_mset a ext) \<and> shrinks h h' \<and>
    dom (ds_map h') = dom (ds_map h) \<and> ds_key h' = ds_key h"
proof -
  obtain e where e: "ext = add_mset a e" using assms(2) by (metis insert_DiffM)
  then obtain r where r: "ds_map h a = Some r" using ref_inv_live(1) assms(1) by blast
  have "a \<noteq> NULL" using r assms(1) by (auto simp: ref_inv_def)
  let ?h = "set_refcnt a (ds_refcnt r + 1) h"
  have "ds_hold a h = Some ?h" using \<open>a \<noteq> NULL\<close> r by (simp add: ds_hold_def set_refcnt_def)
  moreover have "ref_inv ?h {} (add_mset a ext)" using ref_inv_inc [OF assms(1) r] by simp
  moreover have "shrinks h ?h" "dom (ds_map ?h) = dom (ds_map h)"
    using set_refcnt_simps [OF r] by (simp_all add: shrinks_def)
  moreover have "ds_key ?h = ds_key h" using r by (auto simp: set_refcnt_def ds_key_def)
  ultimately show ?thesis by blast
qed

lemma search_list:
  assumes "\<And>d. d \<in> set l \<Longrightarrow> d \<in> dom (ds_map h)"
  shows "ds_rw_search l a ty h =
    Some (case List.find (\<lambda>d. ds_key h d = (a, ty)) l of None \<Rightarrow> NULL | Some d \<Rightarrow> d)"
  using assms
proof (induction l)
  case (Cons d l)
  then obtain r where "ds_map h d = Some r" by fastforce
  then show ?case using Cons by (simp add: ds_key_def)
qed simp

text \<open>The search of a list whose states are counted: none, or the first with the key, held.\<close>

lemma fnl_ds_find_spec:
  assumes "ref_inv h {} (ext + mset l)"
  shows "(\<exists>d h'. d \<in> set l \<and> ds_key h d = (a, ty) \<and> fnl_ds_find l a ty h = Some (d, h') \<and> d \<noteq> NULL \<and>
      ref_inv h' {} (add_mset d (ext + mset l)) \<and> shrinks h h' \<and> dom (ds_map h') = dom (ds_map h) \<and>
      ds_key h' = ds_key h) \<or>
    ((\<forall>d \<in> set l. ds_key h d \<noteq> (a, ty)) \<and> fnl_ds_find l a ty h = Some (NULL, h))"
proof (cases "List.find (\<lambda>d. ds_key h d = (a, ty)) l")
  case None
  have "ds_rw_search l a ty h = Some NULL"
    using search_list [of l h a ty] list_live(1) [OF assms] None by (simp only: option.case)
  then show ?thesis using None by (auto simp: fnl_ds_find_def find_None_iff)
next
  case (Some d)
  then have d: "d \<in> set l" "ds_key h d = (a, ty)" by (auto simp: find_Some_iff)
  obtain h' where "ds_hold d h = Some h'" "ref_inv h' {} (add_mset d (ext + mset l))" "shrinks h h'"
    "dom (ds_map h') = dom (ds_map h)" "ds_key h' = ds_key h"
    using hold_one [OF assms, of d] d(1) by auto
  moreover have "d \<noteq> NULL" by (rule list_live(2) [OF assms d(1)])
  moreover have "ds_rw_search l a ty h = Some d"
    using search_list [of l h a ty] list_live(1) [OF assms] Some by (simp only: option.case)
  ultimately show ?thesis using d unfolding fnl_ds_find_def by (intro disjI1 exI [of _ d] exI [of _ h']) simp
qed

text \<open>Releasing a list.\<close>

fun ds_drop_all :: "nat \<Rightarrow> addr list \<Rightarrow> dsh \<Rightarrow> dsh option" where
  "ds_drop_all n [] h = Some h"
| "ds_drop_all n (d # ds) h = do { h \<leftarrow> ds_drop n d h; ds_drop_all n ds h }"

lemma drop_one:
  assumes "ref_inv h {} (ext + ref_mset d)" "card (dom (ds_map h)) \<le> n"
  shows "\<exists>h'. ds_drop n d h = Some h' \<and> ref_inv h' {} ext \<and> shrinks h h' \<and> card (dom (ds_map h')) \<le> n"
proof -
  have c: "card (dom (ds_map h) - {}) \<le> n" using assms(2) by simp
  then obtain h' where "ds_drop n d h = Some h'" "releases h {} ext h'"
    using release_all(3) assms(1) by blast
  then show ?thesis using card_live_mono [OF assms(1), of h'] assms(2) by (auto simp: releases_def)
qed

lemma drop_all:
  assumes "ref_inv h {} (ext + mset l)" "card (dom (ds_map h)) \<le> n"
  shows "\<exists>h'. ds_drop_all n l h = Some h' \<and> ref_inv h' {} ext \<and> shrinks h h' \<and> card (dom (ds_map h')) \<le> n"
  using assms
proof (induction l arbitrary: h)
  case (Cons d l)
  have "d \<noteq> NULL" using list_live(2) [OF Cons.prems(1)] by simp
  then have "ref_inv h {} ((ext + mset l) + ref_mset d)" using Cons.prems(1) by (simp add: ref_mset_def)
  then obtain h1 where 1: "ds_drop n d h = Some h1" "ref_inv h1 {} (ext + mset l)" "shrinks h h1"
    "card (dom (ds_map h1)) \<le> n"
    using drop_one Cons.prems(2) by blast
  then show ?case using Cons.IH [OF 1(2,4)] shrinks_trans by fastforce
qed simp

subsection \<open>The invariant of the lists of the project\<close>

definition base_key :: "ds_base \<Rightarrow> nat \<times> nat" where
  "base_key b = (db_ref_base b, db_ref_type b)"

definition base_ok :: "ds_base \<Rightarrow> bool" where
  "base_ok b \<longleftrightarrow> db_ref_base b < 2 ^ 48 \<and> db_ref_type b \<in> {DSRT_VN, DSRT_FN, DSRT_RAW}"

text \<open>
  Every reference is counted, those of the list of data states included, and no key occurs
  twice; \<open>ext\<close> are the references held elsewhere.
\<close>

definition dss_inv :: "dss \<Rightarrow> addr multiset \<Rightarrow> bool" where
  "dss_inv s ext \<longleftrightarrow>
     ref_inv (dss_h s) {} (ext + mset (dss_rw s)) \<and> (\<forall>b \<in> set (dss_global s). base_ok b) \<and>
     distinct (map base_key (dss_global s)) \<and> distinct (map (ds_key (dss_h s)) (dss_rw s))"

lemma dup_base_spec:
  assumes "ref_inv h {} ext" "base_ok b"
  shows "\<exists>d h'. ds_dup_base st b h = Some (d, h') \<and> ref_inv h' {} (add_mset d ext) \<and>
    ds_key h' d = base_key b \<and> d \<notin> dom (ds_map h) \<and> (\<forall>c. c \<noteq> d \<longrightarrow> ds_map h' c = ds_map h c)"
proof -
  obtain raw where run: "ds_dup_base st b h = Some (ds_rw_new (db_ref_base b) (db_ref_type b) raw h)"
    using assms(2) by (auto simp: ds_dup_base_def base_ok_def)
  obtain d h' where n: "ds_rw_new (db_ref_base b) (db_ref_type b) raw h = (d, h')" by fastforce
  have "(db_ref_base b mod 2 ^ 48, db_ref_type b mod 2 ^ 8) = base_key b"
    using assms(2) by (auto simp: base_ok_def base_key_def)
  then show ?thesis using ref_inv_new [OF assms(1) n] run n by auto
qed

lemma keys_kept:
  assumes "\<And>d. d \<in> set l \<Longrightarrow> ds_map h' d = ds_map h d"
  shows "map (ds_key h') l = map (ds_key h) l"
  using assms by (simp add: ds_key_def)

lemma init_rw_loop_spec:
  assumes "ref_inv h {} (ext + mset rw)" "\<forall>b \<in> set bs. base_ok b"
  shows "\<exists>ds h'. init_rw_loop st bs rw h = Some (rw @ ds, h') \<and> ref_inv h' {} (ext + mset (rw @ ds)) \<and>
    map (ds_key h') ds = map base_key bs \<and> (\<forall>c \<in> dom (ds_map h). ds_map h' c = ds_map h c)"
  using assms
proof (induction bs arbitrary: rw h)
  case (Cons b bs)
  obtain d h1 where 1: "ds_dup_base st b h = Some (d, h1)" "ref_inv h1 {} (add_mset d (ext + mset rw))"
    "ds_key h1 d = base_key b" "d \<notin> dom (ds_map h)" "\<forall>c. c \<noteq> d \<longrightarrow> ds_map h1 c = ds_map h c"
    using dup_base_spec [OF Cons.prems(1)] Cons.prems(2) by (metis list.set_intros(1))
  have "ref_inv h1 {} (ext + mset (rw @ [d]))" using 1(2) by simp
  then obtain ds h' where 2: "init_rw_loop st bs (rw @ [d]) h1 = Some ((rw @ [d]) @ ds, h')"
    "ref_inv h' {} (ext + mset ((rw @ [d]) @ ds))" "map (ds_key h') ds = map base_key bs"
    "\<forall>c \<in> dom (ds_map h1). ds_map h' c = ds_map h1 c"
    using Cons.IH [of h1 "rw @ [d]"] Cons.prems(2) by auto
  have "d \<in> dom (ds_map h1)" using ref_inv_live(1) [OF 1(2)] .
  then have k: "ds_key h' d = base_key b" using 2(4) 1(3) by (simp add: ds_key_def)
  have old: "ds_map h' c = ds_map h c" if "c \<in> dom (ds_map h)" for c
  proof -
    have "c \<noteq> d" using 1(4) that by blast
    then have "ds_map h1 c = ds_map h c" using 1(5) by blast
    moreover from this have "c \<in> dom (ds_map h1)" using that by (simp add: domIff)
    ultimately show ?thesis using 2(4) by simp
  qed
  have "init_rw_loop st (b # bs) rw h = Some (rw @ d # ds, h')"
    using 1(1) 2(1) by (simp add: slist_add_tail_def)
  then show ?case using 2(2,3) k old by (intro exI [of _ "d # ds"] exI [of _ h']) simp
qed simp

lemma init_if_empty_spec:
  assumes "dss_inv s ext"
  shows "\<exists>s'. init_if_empty st s = Some s' \<and> dss_inv s' ext \<and> dss_global s' = dss_global s \<and>
    dss_fn s' = dss_fn s \<and> (dss_rw s \<noteq> [] \<longrightarrow> s' = s) \<and>
    (dss_rw s = [] \<longrightarrow> map (ds_key (dss_h s')) (dss_rw s') = map base_key (dss_global s))"
proof (cases "dss_rw s = []")
  case True
  have "ref_inv (dss_h s) {} (ext + mset [])" using assms True by (simp add: dss_inv_def)
  then obtain ds h' where 1: "init_rw_loop st (dss_global s) [] (dss_h s) = Some (ds, h')"
    "ref_inv h' {} (ext + mset ds)" "map (ds_key h') ds = map base_key (dss_global s)"
    using init_rw_loop_spec [of "dss_h s" ext "[]" "dss_global s" st] assms by (auto simp: dss_inv_def)
  then have "init_if_empty st s = Some (s\<lparr>dss_rw := ds, dss_h := h'\<rparr>)"
    using True by (simp add: init_if_empty_def init_global_ds_rw_def)
  moreover have "dss_inv (s\<lparr>dss_rw := ds, dss_h := h'\<rparr>) ext" using 1(2,3) assms by (simp add: dss_inv_def)
  ultimately show ?thesis using True 1(3) by simp
next
  case False
  then show ?thesis using assms by (simp add: init_if_empty_def)
qed

lemma global_find_spec:
  assumes "dss_inv s ext" "d \<in> set (dss_rw s)" "ds_key (dss_h s) d = (a, ty)"
  shows "\<exists>s'. global_ds_rw_find st a ty s = Some (d, s') \<and> d \<noteq> NULL \<and> dss_inv s' (add_mset d ext) \<and>
    dss_rw s' = dss_rw s \<and> ds_key (dss_h s') = ds_key (dss_h s) \<and> dss_global s' = dss_global s"
proof -
  have ne: "init_if_empty st s = Some s" using assms(2) by (auto simp: init_if_empty_def)
  have inv: "ref_inv (dss_h s) {} (ext + mset (dss_rw s))" and dist: "distinct (map (ds_key (dss_h s)) (dss_rw s))"
    using assms(1) by (simp_all add: dss_inv_def)
  have uniq: "e = d" if "e \<in> set (dss_rw s)" "ds_key (dss_h s) e = (a, ty)" for e
    using dist that assms(2,3) unfolding distinct_map inj_on_def by simp
  obtain h' where "fnl_ds_find (dss_rw s) a ty (dss_h s) = Some (d, h')" "d \<noteq> NULL"
    "ref_inv h' {} (add_mset d (ext + mset (dss_rw s)))" "ds_key h' = ds_key (dss_h s)"
    using fnl_ds_find_spec [OF inv, of a ty] assms(2,3) uniq by blast
  then show ?thesis using ne assms(1)
    by (intro exI [of _ "s\<lparr>dss_h := h'\<rparr>"]) (auto simp: global_ds_rw_find_def dss_inv_def)
qed

text \<open>What clib documents: \<open>slist_add_tail_check\<close> refuses only what the list already has.\<close>

definition check_ok :: "(addr \<Rightarrow> addr list \<Rightarrow> bool) \<Rightarrow> bool" where
  "check_ok add_check \<longleftrightarrow> (\<forall>d l. d \<notin> set l \<longrightarrow> \<not> add_check d l)"

lemma fnl_ds_add_spec:
  assumes "ref_inv h {} (ext + mset l)" "distinct (map (ds_key h) l)" "a < 2 ^ 48" "ty < 2 ^ 8"
    and chk: "check_ok add_check"
  shows "\<exists>d l' h'. fnl_ds_add add_check n l a ty raw h = Some (d, l', h') \<and> d \<in> set l' \<and> d \<noteq> NULL \<and>
    ds_key h' d = (a, ty) \<and> ref_inv h' {} (add_mset d (ext + mset l')) \<and> distinct (map (ds_key h') l') \<and>
    (l' = l \<or> l' = l @ [d])"
proof -
  from fnl_ds_find_spec [OF assms(1), of a ty] consider
    (found) d h' where "d \<in> set l" "ds_key h d = (a, ty)" "fnl_ds_find l a ty h = Some (d, h')" "d \<noteq> NULL"
      "ref_inv h' {} (add_mset d (ext + mset l))" "ds_key h' = ds_key h"
  | (new) "\<forall>d \<in> set l. ds_key h d \<noteq> (a, ty)" "fnl_ds_find l a ty h = Some (NULL, h)" by blast
  then show ?thesis
  proof cases
    case found
    then have "fnl_ds_add add_check n l a ty raw h = Some (d, l, h')" by (simp add: fnl_ds_add_def)
    then show ?thesis using found(1,2,4-6) assms(2)
      by (intro exI [of _ d] exI [of _ l] exI [of _ h']) simp
  next
    case new
    obtain d h1 where mk: "ds_rw_new a ty raw h = (d, h1)" by fastforce
    note nw = ref_inv_new [OF assms(1) mk]
    have dl: "d \<notin> set l" using list_live(1) [OF assms(1)] nw(1) by blast
    obtain h2 where h2: "ds_hold d h1 = Some h2" "ref_inv h2 {} (add_mset d (add_mset d (ext + mset l)))"
      "ds_key h2 = ds_key h1" using hold_one [OF nw(3), of d] by auto
    have run: "fnl_ds_add add_check n l a ty raw h = Some (d, l @ [d], h2)"
      using new(2) mk h2(1) chk dl by (simp add: fnl_ds_add_def slist_add_tail_def check_ok_def)
    have k: "ds_key h2 d = (a, ty)" using nw(5) h2(3) assms(3,4) by simp
    have old: "ds_key h2 c = ds_key h c" if "c \<in> set l" for c
    proof -
      have "ds_map h1 c = ds_map h c" using nw(4) dl that by metis
      then show ?thesis using h2(3) by (simp add: ds_key_def)
    qed
    then have eq: "map (ds_key h2) l = map (ds_key h) l" by simp
    then have "ds_key h2 ` set l = ds_key h ` set l" by (metis list.set_map)
    moreover have "(a, ty) \<notin> ds_key h ` set l" using new(1) by force
    ultimately have "distinct (map (ds_key h2) (l @ [d]))"
      using assms(2) unfolding map_append eq by (simp add: k)
    then show ?thesis using run k nw(2) h2(2)
      by (intro exI [of _ d] exI [of _ "l @ [d]"] exI [of _ h2]) simp
  qed
qed

subsection \<open>The property\<close>

text \<open>
  C37. A data state that is added to the project, or is there already, is what every later
  search for its address and kind returns, whatever the sample set and the active function
  have under that key; it is not freed meanwhile, as each of the returned pointers and the
  list count as a reference; and no key gets a second data state.
\<close>

theorem ds_rw_add_found:
  assumes "dss_inv s ext" "a < 2 ^ 48" "ty < 2 ^ 8" "check_ok add_check"
  shows "\<exists>d s'. global_ds_rw_add add_check n st a ty raw s = Some (d, s') \<and> d \<noteq> NULL \<and>
    dss_inv s' (add_mset d ext) \<and>
    (\<forall>allocated fnl. \<exists>s''. ds_rw_find st allocated fnl a ty s' = Some (d, s'') \<and>
      dss_inv s'' (add_mset d (add_mset d ext)))"
proof -
  obtain s0 where 0: "init_if_empty st s = Some s0" "dss_inv s0 ext"
    using init_if_empty_spec [OF assms(1)] by blast
  have "ref_inv (dss_h s0) {} (ext + mset (dss_rw s0))" "distinct (map (ds_key (dss_h s0)) (dss_rw s0))"
    using 0(2) by (simp_all add: dss_inv_def)
  from fnl_ds_add_spec [OF this assms(2-4)] obtain d rw h where
    1: "fnl_ds_add add_check n (dss_rw s0) a ty raw (dss_h s0) = Some (d, rw, h)" "d \<in> set rw" "d \<noteq> NULL"
      "ds_key h d = (a, ty)" "ref_inv h {} (add_mset d (ext + mset rw))" "distinct (map (ds_key h) rw)"
    by blast
  let ?s1 = "s0\<lparr>dss_rw := rw, dss_h := h\<rparr>"
  have run: "global_ds_rw_add add_check n st a ty raw s = Some (d, ?s1)"
    using 0(1) 1(1) by (simp add: global_ds_rw_add_def)
  have inv: "dss_inv ?s1 (add_mset d ext)" using 0(2) 1(5,6) by (simp add: dss_inv_def)
  obtain s2 where "global_ds_rw_find st a ty ?s1 = Some (d, s2)" "dss_inv s2 (add_mset d (add_mset d ext))"
    using global_find_spec [OF inv] 1(2,4) by fastforce
  then have "ds_rw_find st allocated fnl a ty ?s1 = Some (d, s2) \<and> dss_inv s2 (add_mset d (add_mset d ext))"
    for allocated fnl using 1(3) by (simp add: ds_rw_find_def)
  then show ?thesis using run 1(3) inv by blast
qed

definition lx_dss :: dss where
  "lx_dss = \<lparr>dss_h = \<lparr>ds_map = Map.empty, ds_brk = 1\<rparr>, dss_global = [ds_base_new 5 DSRT_RAW],
     dss_rw = [], dss_fn = (\<lambda>_. [])\<rparr>"

definition lx_check :: "addr \<Rightarrow> addr list \<Rightarrow> bool" where
  "lx_check d l \<longleftrightarrow> d \<in> set l"

lemma lx_inv: "dss_inv lx_dss {#}"
  by (simp add: dss_inv_def lx_dss_def ref_inv_def all_refs_def base_ok_def ds_base_new_def)

theorem ds_rw_add_found_witness:
  "\<exists>d s'. global_ds_rw_add lx_check 0 cg_ex 7 DSRT_VN 9 lx_dss = Some (d, s') \<and> d \<noteq> NULL \<and>
    dss_inv s' {#d#} \<and>
    (\<forall>allocated fnl. \<exists>s''. ds_rw_find cg_ex allocated fnl 7 DSRT_VN s' = Some (d, s'') \<and>
      dss_inv s'' {#d, d#})"
proof -
  have k: "(7 :: nat) < 2 ^ 48" "DSRT_VN < 2 ^ 8" by simp_all
  have c: "check_ok lx_check" by (simp add: check_ok_def lx_check_def)
  show ?thesis by (rule ds_rw_add_found [OF lx_inv k c])
qed

end
