(* ===== verification/Dsv_Flags.thy ===== *)
theory Dsv_Flags
  imports Data_State_Copy
begin

text \<open>
  The flags of a runtime value (include/si_helper.h): what is checked and set when the value
  is read, written, allocated, freed, or its reference counter changes. The results are the
  numbers of \<open>enum sample_set_flag\<close>.
\<close>

abbreviation (input) SAMPLE_SF_OK :: int where "SAMPLE_SF_OK \<equiv> - 1"
abbreviation (input) SAMPLE_SF_NULLREF :: int where "SAMPLE_SF_NULLREF \<equiv> 0"
abbreviation (input) SAMPLE_SF_MEMLK :: int where "SAMPLE_SF_MEMLK \<equiv> 1"
abbreviation (input) SAMPLE_SF_UAF :: int where "SAMPLE_SF_UAF \<equiv> 2"
abbreviation (input) SAMPLE_SF_UNINIT :: int where "SAMPLE_SF_UNINIT \<equiv> 3"
abbreviation (input) SAMPLE_SF_NCHKRV :: int where "SAMPLE_SF_NCHKRV \<equiv> 7"
abbreviation (input) SAMPLE_SF_VOIDRV :: int where "SAMPLE_SF_VOIDRV \<equiv> 8"
abbreviation (input) SAMPLE_SF_DEADLK :: int where "SAMPLE_SF_DEADLK \<equiv> 9"
abbreviation (input) SAMPLE_SF_INFLOOP :: int where "SAMPLE_SF_INFLOOP \<equiv> 10"
abbreviation (input) SAMPLE_SF_DECERR :: int where "SAMPLE_SF_DECERR \<equiv> 31"
abbreviation (input) SAMPLE_SF_MAX :: int where "SAMPLE_SF_MAX \<equiv> 32"

datatype dsv_flag_action =
    DS_F_ACT_READ | DS_F_ACT_WRITE | DS_F_ACT_ALLOCATED | DS_F_ACT_FREED
  | DS_F_ACT_INCREF | DS_F_ACT_DECREF

fun check_dsv_flag :: "dsv_flag \<Rightarrow> dsv_flag_action \<Rightarrow> int" where
  "check_dsv_flag f DS_F_ACT_READ =
     (if \<not> fl_init f then SAMPLE_SF_UNINIT else if fl_freed f then SAMPLE_SF_UAF else SAMPLE_SF_OK)"
| "check_dsv_flag f DS_F_ACT_WRITE = (if fl_freed f then SAMPLE_SF_UAF else SAMPLE_SF_OK)"
| "check_dsv_flag f DS_F_ACT_ALLOCATED = SAMPLE_SF_OK"
| "check_dsv_flag f DS_F_ACT_FREED = (if fl_freed f then SAMPLE_SF_UAF else SAMPLE_SF_OK)"
| "check_dsv_flag f DS_F_ACT_INCREF = (if fl_freed f then SAMPLE_SF_UAF else SAMPLE_SF_OK)"
| "check_dsv_flag f DS_F_ACT_DECREF =
     (if fl_refcount f = 0 then SAMPLE_SF_DECERR
      else if fl_allocated f \<and> \<not> fl_freed f \<and> fl_refcount f = 1 then SAMPLE_SF_MEMLK
      else SAMPLE_SF_OK)"

fun set_dsv_flag :: "dsv_flag \<Rightarrow> dsv_flag_action \<Rightarrow> dsv_flag" where
  "set_dsv_flag f DS_F_ACT_READ = f\<lparr>fl_used := True\<rparr>"
| "set_dsv_flag f DS_F_ACT_WRITE = f\<lparr>fl_init := True, fl_used := True\<rparr>"
| "set_dsv_flag f DS_F_ACT_ALLOCATED = f\<lparr>fl_allocated := True\<rparr>"
| "set_dsv_flag f DS_F_ACT_FREED = f\<lparr>fl_freed := True\<rparr>"
| "set_dsv_flag f DS_F_ACT_INCREF = f\<lparr>fl_refcount := fl_refcount f + 1\<rparr>"
| "set_dsv_flag f DS_F_ACT_DECREF = f\<lparr>fl_refcount := fl_refcount f - 1\<rparr>"

definition check_and_set_dsv_flag :: "dsv_flag \<Rightarrow> dsv_flag_action \<Rightarrow> int \<times> dsv_flag" where
  "check_and_set_dsv_flag f act =
     (let ret = check_dsv_flag f act in (ret, if ret = SAMPLE_SF_OK then set_dsv_flag f act else f))"

subsection \<open>Histories\<close>

text \<open>The results of a sequence of actions, and the flags after it.\<close>

fun flag_results :: "dsv_flag \<Rightarrow> dsv_flag_action list \<Rightarrow> int list" where
  "flag_results f [] = []"
| "flag_results f (a # as) = fst (check_and_set_dsv_flag f a) # flag_results (snd (check_and_set_dsv_flag f a)) as"

definition flags_after :: "dsv_flag \<Rightarrow> dsv_flag_action list \<Rightarrow> dsv_flag" where
  "flags_after f as = foldl (\<lambda>f a. snd (check_and_set_dsv_flag f a)) f as"

lemma length_flag_results [simp]: "length (flag_results f as) = length as"
  by (induction f as rule: flag_results.induct) simp_all

lemma flag_results_snoc:
  "flag_results f (as @ [a]) = flag_results f as @ [check_dsv_flag (flags_after f as) a]"
  by (induction f as rule: flag_results.induct)
    (simp_all add: flags_after_def check_and_set_dsv_flag_def Let_def)

lemma flag_results_nth:
  assumes "i < length as"
  shows "flag_results f as ! i = check_dsv_flag (flags_after f (take i as)) (as ! i)"
  using assms
proof (induction as arbitrary: f i)
  case (Cons a as)
  then show ?case by (cases i) (simp_all add: flags_after_def check_and_set_dsv_flag_def Let_def)
qed simp

text \<open>
  The history read as what happened to the object: it is freed once it has been freed,
  initialised if it was written before that, and the counter is what the successful
  increments and decrements leave.
\<close>

definition was_freed :: "dsv_flag_action list \<Rightarrow> bool" where
  "was_freed as \<longleftrightarrow> DS_F_ACT_FREED \<in> set as"

definition was_written :: "dsv_flag_action list \<Rightarrow> bool" where
  "was_written as \<longleftrightarrow> DS_F_ACT_WRITE \<in> set (takeWhile (\<lambda>a. a \<noteq> DS_F_ACT_FREED) as)"

definition done_count :: "dsv_flag_action \<Rightarrow> dsv_flag_action list \<Rightarrow> int list \<Rightarrow> int" where
  "done_count a as rs = int (length (filter (\<lambda>p. p = (a, SAMPLE_SF_OK)) (zip as rs)))"

definition ref_count :: "dsv_flag_action list \<Rightarrow> int" where
  "ref_count as = done_count DS_F_ACT_INCREF as (flag_results flag_zero as) -
     done_count DS_F_ACT_DECREF as (flag_results flag_zero as)"

lemma was_written_snoc:
  "was_written (as @ [a]) \<longleftrightarrow> was_written as \<or> a = DS_F_ACT_WRITE \<and> \<not> was_freed as"
proof (cases "DS_F_ACT_FREED \<in> set as")
  case True
  then show ?thesis by (simp add: was_written_def was_freed_def)
next
  case False
  then have eq: "takeWhile (\<lambda>a. a \<noteq> DS_F_ACT_FREED) as = as" by (auto simp: takeWhile_eq_all_conv)
  have app: "takeWhile (\<lambda>a. a \<noteq> DS_F_ACT_FREED) (as @ [a]) = as @ takeWhile (\<lambda>a. a \<noteq> DS_F_ACT_FREED) [a]"
    using False by (intro takeWhile_append2) auto
  show ?thesis unfolding was_written_def was_freed_def app eq using False by auto
qed

lemma ref_count_snoc:
  "ref_count (as @ [a]) = ref_count as +
     (if check_dsv_flag (flags_after flag_zero as) a = SAMPLE_SF_OK
      then (if a = DS_F_ACT_INCREF then 1 else if a = DS_F_ACT_DECREF then - 1 else 0) else 0)"
  by (simp add: ref_count_def done_count_def flag_results_snoc)

lemma flags_after_history:
  "fl_freed (flags_after flag_zero as) = was_freed as \<and>
   fl_init (flags_after flag_zero as) = was_written as \<and>
   fl_allocated (flags_after flag_zero as) = (DS_F_ACT_ALLOCATED \<in> set as) \<and>
   fl_refcount (flags_after flag_zero as) = ref_count as \<and> 0 \<le> ref_count as"
proof (induction as rule: rev_induct)
  case Nil
  then show ?case
    by (simp add: flags_after_def flag_zero_def was_freed_def was_written_def ref_count_def done_count_def)
next
  case (snoc a as)
  let ?f = "flags_after flag_zero as"
  have f: "flags_after flag_zero (as @ [a]) = snd (check_and_set_dsv_flag ?f a)"
    by (simp add: flags_after_def)
  show ?case
    using snoc.IH unfolding f was_written_snoc ref_count_snoc
    by (cases a) (auto simp: check_and_set_dsv_flag_def was_freed_def)
qed

text \<open>
  C36. The verdict on each action is the one its history calls for: a read of an object never
  written while it lived is uninitialised, any other access after the object was freed is a
  use after free, an allocation is always fine, and giving up a reference is an error when
  none is left and a leak when it is the last of an allocated object that is not freed.
\<close>

theorem flag_verdicts:
  assumes "i < length as"
  defines "hist \<equiv> take i as"
  shows "flag_results flag_zero as ! i =
    (case as ! i of
       DS_F_ACT_READ \<Rightarrow> if \<not> was_written hist then SAMPLE_SF_UNINIT
         else if was_freed hist then SAMPLE_SF_UAF else SAMPLE_SF_OK
     | DS_F_ACT_ALLOCATED \<Rightarrow> SAMPLE_SF_OK
     | DS_F_ACT_DECREF \<Rightarrow> if ref_count hist = 0 then SAMPLE_SF_DECERR
         else if DS_F_ACT_ALLOCATED \<in> set hist \<and> \<not> was_freed hist \<and> ref_count hist = 1
         then SAMPLE_SF_MEMLK else SAMPLE_SF_OK
     | _ \<Rightarrow> if was_freed hist then SAMPLE_SF_UAF else SAMPLE_SF_OK) \<and>
    0 \<le> ref_count hist"
  using flag_results_nth [OF assms(1), of flag_zero] flags_after_history [of hist]
  unfolding hist_def by (cases "as ! i") simp_all

theorem flag_verdicts_witness:
  "flag_results flag_zero [DS_F_ACT_WRITE, DS_F_ACT_FREED, DS_F_ACT_READ] ! 2 = SAMPLE_SF_UAF"
  using flag_verdicts [of 2 "[DS_F_ACT_WRITE, DS_F_ACT_FREED, DS_F_ACT_READ]"]
  by (simp add: was_written_def was_freed_def)

end
