(* ===== verification/Sample.thy ===== *)
theory Sample
  imports Data_State_Lists Data_State_Compute Dsv_Flags
begin

text \<open>
  The samples (analysis/sample.c and their part of include/si_helper.h): a sample set is what
  the static checker runs, one sample per thread. A sample has the active functions with their
  data states, the code paths taken, the arguments and the result of a call, the loop it may
  be in, and the entries to run. Structures from \<open>malloc\<close> and from the data region are not
  told apart.
\<close>

subsection \<open>Structures\<close>

record fn_list =
  fnl_fn :: addr
  fnl_ds :: "addr list"
  fnl_cps :: "addr list"
  fnl_curpos :: addr

record arg_record =
  ar_ds :: addr
  ar_raw :: addr

record loop_info =
  li_start :: int
  li_end :: int
  li_head :: int
  li_tail :: int
  li_lhs :: dsv
  li_rhs :: dsv

text \<open>\<open>struct sample_state\<close>; \<open>entries\<close> is empty when the pointer is \<open>NULL\<close>.\<close>

record sample_state =
  st_fns :: "fn_list list"
  st_cps :: "addr list"
  st_args :: "arg_record list"
  st_retval :: addr
  st_loop :: loop_info
  st_entries :: "addr list"
  st_entry_count :: nat
  st_entry_curidx :: int

definition VOID_RETVAL :: addr where "VOID_RETVAL = 2 ^ 64 - 1"

record sample_set =
  ss_allocated :: "addr list"
  ss_id :: nat
  ss_flag :: nat
  ss_count :: nat
  ss_mode :: nat
  ss_samples :: "sample_state list"

text \<open>\<open>sample_state_init_loopinfo\<close> and \<open>sample_state_alloc\<close>.\<close>

definition loop_info0 :: loop_info where
  "loop_info0 = \<lparr>li_start = - 1, li_end = - 1, li_head = - 1, li_tail = - 1,
     li_lhs = dsv_alloc, li_rhs = dsv_alloc\<rparr>"

definition sample_state_alloc :: sample_state where
  "sample_state_alloc = \<lparr>st_fns = [], st_cps = [], st_args = [], st_retval = NULL,
     st_loop = loop_info0, st_entries = [], st_entry_count = 0, st_entry_curidx = - 1\<rparr>"

definition sample_state_entry_alloc :: "nat \<Rightarrow> addr list" where
  "sample_state_entry_alloc cnt = replicate cnt NULL"

text \<open>\<open>count\<close> is kept in a byte; the array has all the samples asked for.\<close>

definition sample_set_alloc :: "nat \<Rightarrow> sample_set" where
  "sample_set_alloc cnt = \<lparr>ss_allocated = [], ss_id = 0, ss_flag = 0, ss_count = cnt mod 256,
     ss_mode = 0, ss_samples = replicate cnt sample_state_alloc\<rparr>"

definition upd_sample :: "nat \<Rightarrow> (sample_state \<Rightarrow> sample_state) \<Rightarrow> sample_set \<Rightarrow> sample_set" where
  "upd_sample i f ss = ss\<lparr>ss_samples := (ss_samples ss)[i := f (ss_samples ss ! i)]\<rparr>"

subsection \<open>Functions and code paths of a sample\<close>

text \<open>\<open>fn_list_new\<close>: the data states of the function are made from its bases.\<close>

definition fn_list_new :: "cgs \<Rightarrow> addr \<Rightarrow> dss \<Rightarrow> (fn_list \<times> dss) option" where
  "fn_list_new st fn s =
     do {
       (l, h) \<leftarrow> init_rw_loop st (dss_fn s fn) [] (dss_h s);
       Some (\<lparr>fnl_fn = fn, fnl_ds = l, fnl_cps = [], fnl_curpos = NULL\<rparr>, s\<lparr>dss_h := h\<rparr>)
     }"

definition fn_list_free :: "nat \<Rightarrow> fn_list \<Rightarrow> dsh \<Rightarrow> dsh option" where
  "fn_list_free n f h = ds_drop_all n (fnl_ds f) h"

definition sample_add_new_fn :: "cgs \<Rightarrow> addr \<Rightarrow> sample_state \<Rightarrow> dss \<Rightarrow> (sample_state \<times> dss) option" where
  "sample_add_new_fn st fn sm s =
     do { (f, s) \<leftarrow> fn_list_new st fn s; Some (sm\<lparr>st_fns := slist_add_tail f (st_fns sm)\<rparr>, s) }"

definition sample_add_new_cp :: "addr \<Rightarrow> sample_state \<Rightarrow> sample_state" where
  "sample_add_new_cp cp sm = sm\<lparr>st_cps := slist_add_tail cp (st_cps sm)\<rparr>"

definition fnl_add_new_cp :: "addr \<Rightarrow> fn_list \<Rightarrow> fn_list" where
  "fnl_add_new_cp cp f = f\<lparr>fnl_cps := slist_add_tail cp (fnl_cps f)\<rparr>"

definition fnl_last_cpl :: "fn_list \<Rightarrow> addr option" where
  "fnl_last_cpl f = (if fnl_cps f \<noteq> [] then Some (last (fnl_cps f)) else None)"

definition sample_state_first_fnl :: "sample_state \<Rightarrow> fn_list option" where
  "sample_state_first_fnl sm = (case st_fns sm of [] \<Rightarrow> None | f # fs \<Rightarrow> Some f)"

definition sample_state_last_fnl :: "sample_state \<Rightarrow> fn_list option" where
  "sample_state_last_fnl sm = (if st_fns sm \<noteq> [] then Some (last (st_fns sm)) else None)"

subsection \<open>The entries\<close>

definition s8_of :: "int \<Rightarrow> int" where
  "s8_of x = (x + 128) mod 256 - 128"

text \<open>An access to the array of entries; outside of it the result is undefined.\<close>

definition entry_at :: "sample_state \<Rightarrow> int \<Rightarrow> addr option" where
  "entry_at sm i = (if 0 \<le> i \<and> nat i < length (st_entries sm) then Some (st_entries sm ! nat i) else None)"

text \<open>
  \<open>sample_state_cur_entry\<close>: it moves on to the next entry when no function is active.
  \<open>entry_curidx\<close> is a signed byte.
\<close>

definition sample_state_cur_entry :: "sample_state \<Rightarrow> (addr \<times> sample_state) option" where
  "sample_state_cur_entry sm =
     (if st_entry_curidx sm = - 1 then do {
        let sm = sm\<lparr>st_entry_curidx := 0\<rparr>;
        e \<leftarrow> entry_at sm 0;
        Some (e, sm)
      }
      else do {
        let sm = (if sample_state_last_fnl sm = None
                  then sm\<lparr>st_entry_curidx := s8_of (st_entry_curidx sm + 1)\<rparr> else sm);
        (if st_entry_curidx sm = int (st_entry_count sm) then Some (NULL, sm)
         else do { e \<leftarrow> entry_at sm (st_entry_curidx sm); Some (e, sm) })
      })"

text \<open>\<open>sample_set_done\<close>, the loop from the sample \<open>i\<close> on; every sample looked at may move on.\<close>

function done_loop :: "nat \<Rightarrow> sample_set \<Rightarrow> (bool \<times> sample_set) option" where
  "done_loop i ss =
     (if ss_count ss \<le> i then Some (True, ss)
      else if length (ss_samples ss) \<le> i then None
      else case sample_state_cur_entry (ss_samples ss ! i) of
          None \<Rightarrow> None
        | Some (e, sm) \<Rightarrow>
            let ss = ss\<lparr>ss_samples := (ss_samples ss)[i := sm]\<rparr>
            in if e \<noteq> NULL then Some (False, ss) else done_loop (i + 1) ss)"
  by pat_completeness auto
termination by (relation "measure (\<lambda>(i, ss). ss_count ss - i)") auto

declare done_loop.simps [simp del]

definition sample_set_done :: "sample_set \<Rightarrow> (bool \<times> sample_set) option" where
  "sample_set_done ss = done_loop 0 ss"

subsection \<open>Release\<close>

text \<open>\<open>value.v1\<close> is not \<open>NULL\<close>: the first word of the union.\<close>

definition v1_set :: "dsv \<Rightarrow> bool" where
  "v1_set d = (case dv_value d of VNull \<Rightarrow> False | VElems es \<Rightarrow> es \<noteq> [] | _ \<Rightarrow> True)"

definition free_if_set :: "nat \<Rightarrow> dsv \<Rightarrow> dsh \<Rightarrow> dsh option" where
  "free_if_set n d h = (if v1_set d then map_option snd (dsv_free_data n d h) else Some h)"

definition sample_state_cleanup_loopinfo :: "nat \<Rightarrow> loop_info \<Rightarrow> dsh \<Rightarrow> (loop_info \<times> dsh) option" where
  "sample_state_cleanup_loopinfo n li h =
     do {
       h \<leftarrow> free_if_set n (li_lhs li) h;
       h \<leftarrow> free_if_set n (li_rhs li) h;
       Some (loop_info0, h)
     }"

definition sample_empty_arg_head :: "nat \<Rightarrow> sample_state \<Rightarrow> dsh \<Rightarrow> (sample_state \<times> dsh) option" where
  "sample_empty_arg_head n sm h =
     do { h \<leftarrow> ds_drop_all n (map ar_ds (st_args sm)) h; Some (sm\<lparr>st_args := []\<rparr>, h) }"

fun free_fns :: "nat \<Rightarrow> fn_list list \<Rightarrow> dsh \<Rightarrow> dsh option" where
  "free_fns n [] h = Some h"
| "free_fns n (f # fs) h = do { h \<leftarrow> fn_list_free n f h; free_fns n fs h }"

definition drop_retval :: "nat \<Rightarrow> addr \<Rightarrow> dsh \<Rightarrow> dsh option" where
  "drop_retval n a h = (if a \<noteq> NULL \<and> a \<noteq> VOID_RETVAL then ds_drop n a h else Some h)"

definition sample_state_free :: "nat \<Rightarrow> sample_state \<Rightarrow> dsh \<Rightarrow> dsh option" where
  "sample_state_free n sm h =
     do {
       h \<leftarrow> free_fns n (st_fns sm) h;
       (sm, h) \<leftarrow> sample_empty_arg_head n sm h;
       h \<leftarrow> drop_retval n (st_retval sm) h;
       (li, h) \<leftarrow> sample_state_cleanup_loopinfo n (st_loop sm) h;
       Some h
     }"

fun free_samples :: "nat \<Rightarrow> sample_state list \<Rightarrow> dsh \<Rightarrow> dsh option" where
  "free_samples n [] h = Some h"
| "free_samples n (sm # sms) h = do { h \<leftarrow> sample_state_free n sm h; free_samples n sms h }"

definition sample_set_free :: "nat \<Rightarrow> sample_set \<Rightarrow> dsh \<Rightarrow> dsh option" where
  "sample_set_free n ss h =
     do {
       h \<leftarrow> ds_drop_all n (ss_allocated ss) h;
       (if length (ss_samples ss) < ss_count ss then None
        else free_samples n (take (ss_count ss) (ss_samples ss)) h)
     }"

subsection \<open>Flags\<close>

text \<open>
  \<open>flag\<close> is a word of 32 bits; \<open>test_bit\<close> and its kin reach it as a \<open>long\<close>. A negative number
  reaches other memory.
\<close>

definition sample_set_zeroflag :: "sample_set \<Rightarrow> bool" where
  "sample_set_zeroflag ss \<longleftrightarrow> ss_flag ss = 0"

definition sample_set_chk_flag :: "sample_set \<Rightarrow> nat \<Rightarrow> bool" where
  "sample_set_chk_flag ss nr = bit (ss_flag ss) nr"

definition sample_set_set_flag :: "int \<Rightarrow> sample_set \<Rightarrow> sample_set option" where
  "sample_set_set_flag nr ss =
     (if SAMPLE_SF_MAX \<le> nr then Some ss
      else if nr < 0 then None
      else Some (ss\<lparr>ss_flag := set_bit (nat nr) (ss_flag ss)\<rparr>))"

definition sample_set_clear_flag :: "int \<Rightarrow> sample_set \<Rightarrow> sample_set option" where
  "sample_set_clear_flag nr ss =
     (if SAMPLE_SF_MAX \<le> nr then Some ss
      else if nr < 0 then None
      else Some (ss\<lparr>ss_flag := unset_bit (nat nr) (ss_flag ss)\<rparr>))"

subsection \<open>Comparing and saving sample sets\<close>

definition sample_state_same :: "sample_state \<Rightarrow> sample_state \<Rightarrow> bool" where
  "sample_state_same a b \<longleftrightarrow>
     length (st_cps a) = length (st_cps b) \<and>
     list_all (\<lambda>i. st_cps a ! i = st_cps b ! i) [0..<length (st_cps a)]"

text \<open>
  \<open>sample_set_same\<close>: \<open>js\<close> are the indexes the inner loop has still to look at, \<open>m\<close> is
  \<open>matched_idx\<close>. Both samples compared are of the saved set.
\<close>

fun same_inner :: "sample_state list \<Rightarrow> nat \<Rightarrow> nat list \<Rightarrow> nat list \<Rightarrow> bool \<Rightarrow> nat list \<times> bool" where
  "same_inner sms i [] m matched = (m, matched)"
| "same_inner sms i (j # js) m matched =
     (if j \<in> set m then same_inner sms i js m matched
      else let matched = sample_state_same (sms ! i) (sms ! j)
        in same_inner sms i js (if matched then m @ [j] else m) matched)"

fun same_outer :: "sample_state list \<Rightarrow> nat \<Rightarrow> nat list \<Rightarrow> nat list \<Rightarrow> bool" where
  "same_outer sms cnt [] m = True"
| "same_outer sms cnt (i # is) m =
     (let (m, matched) = same_inner sms i [0..<cnt] m False
      in if \<not> matched then False else same_outer sms cnt is m)"

definition sample_set_same :: "sample_set \<Rightarrow> sample_set \<Rightarrow> bool" where
  "sample_set_same saved new =
     (if ss_count saved \<noteq> ss_count new then False
      else same_outer (ss_samples saved) (ss_count saved) [0..<ss_count saved] [])"

text \<open>The sample sets saved in the project, and the next id (\<open>sample_set_curid\<close>).\<close>

record saved_sets =
  sv_sets :: "sample_set list"
  sv_curid :: nat

definition sample_set_exists :: "sample_set \<Rightarrow> saved_sets \<Rightarrow> bool" where
  "sample_set_exists ss sv \<longleftrightarrow> slist_find (\<lambda>tmp. sample_set_same tmp ss) (sv_sets sv) \<noteq> None"

definition sample_set_validate :: "sample_set \<Rightarrow> int" where
  "sample_set_validate ss = 0"

definition src_set_sset_curid :: "nat \<Rightarrow> saved_sets \<Rightarrow> saved_sets" where
  "src_set_sset_curid i sv = sv\<lparr>sv_curid := i mod 2 ^ 64\<rparr>"

text \<open>\<open>save_sample_state\<close> into \<open>dst\<close>: the code paths and the entries.\<close>

definition save_sample_state :: "sample_state \<Rightarrow> sample_state \<Rightarrow> sample_state" where
  "save_sample_state dst s =
     (let dst = dst\<lparr>st_cps := st_cps dst @ st_cps s\<rparr>
      in if st_entry_count s \<noteq> 0
         then dst\<lparr>st_entries := take (st_entry_count s) (st_entries s), st_entry_count := st_entry_count s\<rparr>
         else dst)"

definition save_sample_set :: "sample_set \<Rightarrow> saved_sets \<Rightarrow> saved_sets" where
  "save_sample_set ss sv =
     (let new = (sample_set_alloc (ss_count ss))
          \<lparr>ss_samples := map (\<lambda>i. save_sample_state sample_state_alloc (ss_samples ss ! i)) [0..<ss_count ss]\<rparr>
      in sv\<lparr>sv_sets := slist_add_tail new (sv_sets sv)\<rparr>)"

subsection \<open>Running\<close>

definition sample_can_run :: "sample_set \<Rightarrow> nat \<Rightarrow> bool" where
  "sample_can_run ss idx = (if ss_count ss = 1 then True else True)"

definition sample_set_stuck :: "sample_set \<Rightarrow> bool" where
  "sample_set_stuck ss \<longleftrightarrow> \<not> list_ex (sample_can_run ss) [0..<ss_count ss]"

definition sample_set_select_entries :: "sample_set \<Rightarrow> int \<times> sample_set" where
  "sample_set_select_entries ss = (0, ss)"

text \<open>
  \<open>sample_state_check_loop\<close>. clib's \<open>clib_in_loop\<close> is a parameter: the code paths with the next
  one, start, end, head and tail of the loop known so far, to the result and the four
  numbers. The comparison is \<open>dsv_compute\<close> with its parameter.
\<close>

type_synonym in_loop = "addr list \<Rightarrow> int \<Rightarrow> int \<Rightarrow> int \<Rightarrow> int \<Rightarrow> int \<times> int \<times> int \<times> int \<times> int"

definition or_default :: "int \<Rightarrow> int \<Rightarrow> int" where
  "or_default x d = (if x \<noteq> - 1 then x else d)"

definition loop_not_infinite :: "nat \<Rightarrow> sample_state \<Rightarrow> dsh \<Rightarrow> (int \<times> sample_state \<times> dsh) option" where
  "loop_not_infinite n sm h =
     do { (li, h) \<leftarrow> sample_state_cleanup_loopinfo n (st_loop sm) h; Some (0, sm\<lparr>st_loop := li\<rparr>, h) }"

definition loop_record ::
    "nat \<Rightarrow> sample_state \<Rightarrow> dsv \<Rightarrow> dsv \<Rightarrow> int \<Rightarrow> int \<Rightarrow> dsh \<Rightarrow> (int \<times> sample_state \<times> dsh) option" where
  "loop_record n sm lhs_dsv rhs_dsv head tail h =
     do {
       (err, l, h) \<leftarrow> dsv_copy_data n False None (li_lhs (st_loop sm)) lhs_dsv h;
       let sm = sm\<lparr>st_loop := (st_loop sm)\<lparr>li_lhs := l\<rparr>\<rparr>;
       (if err = - 1 then Some (- 1, sm, h)
        else do {
          (err, r, h) \<leftarrow> dsv_copy_data n False None (li_rhs (st_loop sm)) rhs_dsv h;
          let sm = sm\<lparr>st_loop := (st_loop sm)\<lparr>li_rhs := r\<rparr>\<rparr>;
          (if err = - 1 then do {
             (l, h) \<leftarrow> dsv_free_data n (li_lhs (st_loop sm)) h;
             Some (- 1, sm\<lparr>st_loop := (st_loop sm)\<lparr>li_lhs := l\<rparr>\<rparr>, h)
           }
           else Some (0, sm\<lparr>st_loop := (st_loop sm)\<lparr>li_head := head, li_tail := tail\<rparr>\<rparr>, h))
        })
     }"

definition loop_compare ::
    "clib_compute \<Rightarrow> nat \<Rightarrow> sample_state \<Rightarrow> dsv \<Rightarrow> dsv \<Rightarrow> dsh \<Rightarrow> (int \<times> sample_state \<times> dsh) option" where
  "loop_compare C n sm lhs_dsv rhs_dsv h =
     do {
       (err, ret, h) \<leftarrow> dsv_compute C n (li_lhs (st_loop sm)) lhs_dsv CLIB_COMPUTE_F_COMPARE DSV_COMP_F_EQ h;
       (if err = - 1 then Some (- 1, sm, h)
        else if ret = Some 0 then loop_not_infinite n sm h
        else do {
          (err, ret, h) \<leftarrow>
            dsv_compute C n (li_rhs (st_loop sm)) rhs_dsv CLIB_COMPUTE_F_COMPARE DSV_COMP_F_EQ h;
          (if err = - 1 then Some (- 1, sm, h)
           else if ret = Some 0 then loop_not_infinite n sm h
           else Some (1, sm, h))
        })
     }"

definition sample_state_check_loop ::
    "in_loop \<Rightarrow> clib_compute \<Rightarrow> nat \<Rightarrow> sample_state \<Rightarrow> dsv \<Rightarrow> dsv \<Rightarrow> addr \<Rightarrow> dsh \<Rightarrow>
      (int \<times> sample_state \<times> dsh) option" where
  "sample_state_check_loop L C n sm lhs_dsv rhs_dsv next_cp h =
     (let arr = st_cps sm @ [next_cp];
          li = st_loop sm;
          (in_loop, start, end', head, tail) =
            L arr (or_default (li_start li) 0) (or_default (li_end li) 0) (li_head li) (li_tail li);
          sm = sm\<lparr>st_loop := li\<lparr>li_start := start, li_end := end'\<rparr>\<rparr>
      in if in_loop = - 1 then Some (0, sm, h)
         else if in_loop = 0 then loop_not_infinite n sm h
         else if li_head (st_loop sm) = - 1 then loop_record n sm lhs_dsv rhs_dsv head tail h
         else loop_compare C n sm lhs_dsv rhs_dsv h)"

end
