(* ===== verification/Sample_Props.thy ===== *)
theory Sample_Props
  imports Sample
begin

text \<open>
  The samples: what their release gives back, how the comparison of sample sets comes out,
  where the walk over the entries ends, and when an infinite loop is reported.
\<close>

subsection \<open>References of a sample set\<close>

definition loop_refs :: "loop_info \<Rightarrow> addr multiset" where
  "loop_refs li = dsv_refs (li_lhs li) + dsv_refs (li_rhs li)"

definition retval_refs :: "addr \<Rightarrow> addr multiset" where
  "retval_refs a = (if a = VOID_RETVAL then {#} else ref_mset a)"

definition args_refs :: "arg_record list \<Rightarrow> addr multiset" where
  "args_refs as = sum_list (map (\<lambda>a. ref_mset (ar_ds a)) as)"

definition fns_refs :: "fn_list list \<Rightarrow> addr multiset" where
  "fns_refs fs = sum_list (map (\<lambda>f. mset (fnl_ds f)) fs)"

definition sample_refs :: "sample_state \<Rightarrow> addr multiset" where
  "sample_refs sm = fns_refs (st_fns sm) + args_refs (st_args sm) + retval_refs (st_retval sm) +
     loop_refs (st_loop sm)"

definition sset_refs :: "sample_set \<Rightarrow> addr multiset" where
  "sset_refs ss = mset (ss_allocated ss) + sum_list (map sample_refs (ss_samples ss))"

definition loop_wf :: "loop_info \<Rightarrow> bool" where
  "loop_wf li \<longleftrightarrow> dsv_wf (li_lhs li) \<and> dsv_wf (li_rhs li)"

text \<open>The bound on the live data states goes down with every release.\<close>

definition rel_ok :: "nat \<Rightarrow> dsh \<Rightarrow> addr multiset \<Rightarrow> dsh option \<Rightarrow> bool" where
  "rel_ok n h ext r \<longleftrightarrow>
     (\<exists>h'. r = Some h' \<and> ref_inv h' {} ext \<and> shrinks h h' \<and> card (dom (ds_map h')) \<le> n)"

lemma rel_okI: "ref_inv h {} ext \<Longrightarrow> card (dom (ds_map h)) \<le> n \<Longrightarrow> rel_ok n h ext (Some h)"
  by (simp add: rel_ok_def)

lemma rel_ok_bind:
  assumes "rel_ok n h ext r" "\<And>h'. ref_inv h' {} ext \<Longrightarrow> card (dom (ds_map h')) \<le> n \<Longrightarrow> rel_ok n h' ext' (k h')"
  shows "rel_ok n h ext' (Option.bind r k)"
proof -
  obtain h' where 1: "r = Some h'" "ref_inv h' {} ext" "shrinks h h'" "card (dom (ds_map h')) \<le> n"
    using assms(1) by (auto simp: rel_ok_def)
  obtain h2 where "k h' = Some h2" "ref_inv h2 {} ext'" "shrinks h' h2" "card (dom (ds_map h2)) \<le> n"
    using assms(2) [OF 1(2,4)] by (auto simp: rel_ok_def)
  then show ?thesis using 1 shrinks_trans by (auto simp: rel_ok_def)
qed

lemma rel_ok_list:
  assumes "ref_inv h {} (ext + mset l)" "card (dom (ds_map h)) \<le> n"
  shows "rel_ok n h ext (ds_drop_all n l h)"
  using drop_all [OF assms] by (auto simp: rel_ok_def)

lemma rel_ok_one:
  assumes "ref_inv h {} (ext + ref_mset a)" "card (dom (ds_map h)) \<le> n"
  shows "rel_ok n h ext (ds_drop n a h)"
  using drop_one [OF assms] by (auto simp: rel_ok_def)

lemma rel_ok_val:
  assumes "ref_inv h {} (ext + dsv_refs d)" "dsv_wf d" "card (dom (ds_map h)) \<le> n"
  shows "rel_ok n h ext (free_if_set n d h)"
proof (cases "v1_set d")
  case True
  have "card (dom (ds_map h) - {}) \<le> n" using assms(3) by simp
  then obtain h' where "dsv_free_data n d h = Some (dsv_freed d, h')" "releases h {} ext h'"
    using release_all(1) assms(1,2) by blast
  then show ?thesis using True card_live_mono [OF assms(1), of h'] assms(3)
    by (auto simp: free_if_set_def rel_ok_def releases_def)
next
  case False
  have "dsv_refs d = {#}" using False
    by (cases d) (auto simp: v1_set_def split: dsv_value.splits dsv_section.splits)
  then show ?thesis using False assms by (simp add: free_if_set_def rel_okI)
qed

lemma rel_ok_args:
  assumes "ref_inv h {} (ext + args_refs as)" "card (dom (ds_map h)) \<le> n"
  shows "rel_ok n h ext (ds_drop_all n (map ar_ds as) h)"
  using assms
proof (induction as arbitrary: h)
  case Nil
  then show ?case by (simp add: rel_okI args_refs_def)
next
  case (Cons a as)
  have "ref_inv h {} ((ext + args_refs as) + ref_mset (ar_ds a))"
    using Cons.prems(1) by (simp add: args_refs_def ac_simps)
  then have "rel_ok n h (ext + args_refs as) (ds_drop n (ar_ds a) h)"
    using rel_ok_one Cons.prems(2) by blast
  then show ?case using Cons.IH by (simp add: rel_ok_bind)
qed

lemma rel_ok_fns:
  assumes "ref_inv h {} (ext + fns_refs fs)" "card (dom (ds_map h)) \<le> n"
  shows "rel_ok n h ext (free_fns n fs h)"
  using assms
proof (induction fs arbitrary: h)
  case Nil
  then show ?case by (simp add: rel_okI fns_refs_def)
next
  case (Cons f fs)
  have "ref_inv h {} ((ext + fns_refs fs) + mset (fnl_ds f))"
    using Cons.prems(1) by (simp add: fns_refs_def ac_simps)
  then have "rel_ok n h (ext + fns_refs fs) (fn_list_free n f h)"
    using rel_ok_list Cons.prems(2) by (simp add: fn_list_free_def)
  then show ?case using Cons.IH by (simp add: rel_ok_bind)
qed

lemma map_snd_bind: "map_option snd (Option.bind r (\<lambda>h. Some (c, h))) = r"
  by (cases r) simp_all

lemma bind_snd: "Option.bind r (\<lambda>(l, h). Some h) = map_option snd r"
  by (cases r) auto

lemma rel_ok_loop:
  assumes "ref_inv h {} (ext + loop_refs li)" "loop_wf li" "card (dom (ds_map h)) \<le> n"
  shows "rel_ok n h ext (map_option snd (sample_state_cleanup_loopinfo n li h))"
proof -
  have "ref_inv h {} ((ext + dsv_refs (li_rhs li)) + dsv_refs (li_lhs li))"
    using assms(1) by (simp add: loop_refs_def ac_simps)
  then have "rel_ok n h (ext + dsv_refs (li_rhs li)) (free_if_set n (li_lhs li) h)"
    using rel_ok_val assms(2,3) by (simp add: loop_wf_def)
  then have "rel_ok n h ext (Option.bind (free_if_set n (li_lhs li) h) (free_if_set n (li_rhs li)))"
    by (rule rel_ok_bind) (use rel_ok_val assms(2) loop_wf_def in blast)
  moreover have "map_option snd (sample_state_cleanup_loopinfo n li h) =
      Option.bind (free_if_set n (li_lhs li) h) (free_if_set n (li_rhs li))"
    by (cases "free_if_set n (li_lhs li) h") (simp_all add: sample_state_cleanup_loopinfo_def map_snd_bind)
  ultimately show ?thesis by simp
qed

lemma rel_ok_sample:
  assumes "ref_inv h {} (ext + sample_refs sm)" "loop_wf (st_loop sm)" "card (dom (ds_map h)) \<le> n"
  shows "rel_ok n h ext (sample_state_free n sm h)"
proof -
  let ?L = "loop_refs (st_loop sm)" and ?R = "retval_refs (st_retval sm)" and ?A = "args_refs (st_args sm)"
  have 1: "rel_ok n h (((ext + ?L) + ?R) + ?A) (free_fns n (st_fns sm) h)"
    by (rule rel_ok_fns) (use assms in \<open>simp_all add: sample_refs_def ac_simps\<close>)
  have ret: "rel_ok n g (ext + ?L) (drop_retval n (st_retval sm) g)"
    if "ref_inv g {} ((ext + ?L) + ?R)" "card (dom (ds_map g)) \<le> n" for g
    using that rel_ok_one [of g "ext + ?L" "st_retval sm" n]
    by (auto simp: retval_refs_def ref_mset_def drop_retval_def rel_okI simp del: ds_drop.simps split: if_splits)
  have eq: "sample_state_free n sm h = Option.bind (free_fns n (st_fns sm) h) (\<lambda>h.
      Option.bind (ds_drop_all n (map ar_ds (st_args sm)) h) (\<lambda>h.
      Option.bind (drop_retval n (st_retval sm) h) (\<lambda>h.
      map_option snd (sample_state_cleanup_loopinfo n (st_loop sm) h))))"
    by (simp add: sample_state_free_def sample_empty_arg_head_def Option.bind_assoc bind_snd)
  show ?thesis unfolding eq
    by (rule rel_ok_bind [OF 1], rule rel_ok_bind [OF rel_ok_args], assumption, assumption,
        rule rel_ok_bind [OF ret], assumption, assumption, rule rel_ok_loop)
      (use assms(2) in auto)
qed

lemma rel_ok_samples:
  assumes "ref_inv h {} (ext + sum_list (map sample_refs sms))" "\<forall>sm \<in> set sms. loop_wf (st_loop sm)"
    and "card (dom (ds_map h)) \<le> n"
  shows "rel_ok n h ext (free_samples n sms h)"
  using assms
proof (induction sms arbitrary: h)
  case Nil
  then show ?case by (simp add: rel_okI)
next
  case (Cons sm sms)
  have "ref_inv h {} ((ext + sum_list (map sample_refs sms)) + sample_refs sm)"
    using Cons.prems(1) by (simp add: ac_simps)
  then have "rel_ok n h (ext + sum_list (map sample_refs sms)) (sample_state_free n sm h)"
    using rel_ok_sample Cons.prems(2,3) by simp
  then show ?case using Cons.IH Cons.prems(2) by (simp add: rel_ok_bind)
qed

text \<open>
  C33. The release of a sample set gives back every reference it has, of the states it
  allocated, of its active functions, arguments, results and loops, and no other: all
  counts are exact afterwards, and no state that somebody else refers to is freed.
\<close>

theorem sample_set_free_releases:
  assumes "ref_inv h {} (ext + sset_refs ss)" "\<forall>sm \<in> set (ss_samples ss). loop_wf (st_loop sm)"
    and "card (dom (ds_map h)) \<le> n" "ss_count ss = length (ss_samples ss)"
  shows "\<exists>h'. sample_set_free n ss h = Some h' \<and> ref_inv h' {} ext \<and> set_mset ext \<subseteq> dom (ds_map h')"
proof -
  have "ref_inv h {} ((ext + sum_list (map sample_refs (ss_samples ss))) + mset (ss_allocated ss))"
    using assms(1) by (simp add: sset_refs_def ac_simps)
  then have 1: "rel_ok n h (ext + sum_list (map sample_refs (ss_samples ss))) (ds_drop_all n (ss_allocated ss) h)"
    using rel_ok_list assms(3) by blast
  have "rel_ok n h ext (Option.bind (ds_drop_all n (ss_allocated ss) h) (free_samples n (ss_samples ss)))"
    by (rule rel_ok_bind [OF 1]) (use rel_ok_samples assms(2) in blast)
  then have "rel_ok n h ext (sample_set_free n ss h)" using assms(4) by (simp add: sample_set_free_def)
  then obtain h' where h': "sample_set_free n ss h = Some h'" "ref_inv h' {} ext" by (auto simp: rel_ok_def)
  have "set_mset ext \<subseteq> dom (ds_map h')"
  proof
    fix a assume "a \<in># ext"
    then obtain e where "ext = add_mset a e" by (metis insert_DiffM)
    then show "a \<in> dom (ds_map h')" using ref_inv_live(1) h'(2) by blast
  qed
  then show ?thesis using h' by blast
qed

lemma dx_card: "card (dom (ds_map dx_heap)) \<le> 3"
  by (simp add: dx_dom)

definition fx_set :: sample_set where
  "fx_set = (sample_set_alloc 1)\<lparr>ss_allocated := [1]\<rparr>"

lemma fx_refs: "sset_refs fx_set = {#1#}"
  by (simp add: fx_set_def sset_refs_def sample_set_alloc_def sample_state_alloc_def sample_refs_def
      fns_refs_def args_refs_def retval_refs_def ref_mset_def loop_refs_def loop_info0_def dsv_alloc_def
      VOID_RETVAL_def)

theorem sample_set_free_releases_witness:
  "\<exists>h'. sample_set_free 3 fx_set dx_heap = Some h' \<and> ref_inv h' {} {#} \<and> set_mset {#} \<subseteq> dom (ds_map h')"
proof -
  have 1: "ref_inv dx_heap {} ({#} + sset_refs fx_set)" using dx_inv by (simp add: fx_refs)
  have 2: "\<forall>sm \<in> set (ss_samples fx_set). loop_wf (st_loop sm)" "ss_count fx_set = length (ss_samples fx_set)"
    by (simp_all add: fx_set_def sample_set_alloc_def sample_state_alloc_def loop_wf_def loop_info0_def dsv_alloc_def)
  show ?thesis by (rule sample_set_free_releases [OF 1 2(1) dx_card 2(2)])
qed

subsection \<open>Comparing sample sets\<close>

lemma sample_state_same_eq: "sample_state_same a b \<longleftrightarrow> st_cps a = st_cps b"
  by (auto simp: sample_state_same_def list_all_iff intro: nth_equalityI)

text \<open>The matched indexes are closed under equality of the samples.\<close>

definition m_closed :: "sample_state list \<Rightarrow> nat \<Rightarrow> nat list \<Rightarrow> bool" where
  "m_closed sms cnt m \<longleftrightarrow> (\<forall>i j. i \<in> set m \<longrightarrow> j < cnt \<longrightarrow> st_cps (sms ! i) = st_cps (sms ! j) \<longrightarrow> j \<in> set m)"

lemma same_inner_ext:
  "set (fst (same_inner sms i js m b)) =
     set m \<union> {j \<in> set js. j \<notin> set m \<and> st_cps (sms ! i) = st_cps (sms ! j)}"
proof (induction sms i js m b rule: same_inner.induct)
  case (2 sms i j js m matched)
  show ?case
  proof (cases "j \<in> set m")
    case True
    then show ?thesis using 2(1) by auto
  next
    case False
    then show ?thesis using 2(2) [OF False refl] by (auto simp: Let_def sample_state_same_eq)
  qed
qed simp

lemma same_inner_none:
  assumes "\<And>j. j \<in> set js \<Longrightarrow> j \<notin> set m \<Longrightarrow> st_cps (sms ! i) \<noteq> st_cps (sms ! j)"
  shows "\<not> snd (same_inner sms i js m False)"
  using assms by (induction js arbitrary: m) (auto simp: Let_def sample_state_same_eq)

lemma same_inner_last:
  assumes "snd (same_inner sms i (js @ [k]) m b)" "k \<notin> set m" "k \<notin> set js"
  shows "k \<in> set (fst (same_inner sms i (js @ [k]) m b))"
  using assms by (induction js arbitrary: m b) (auto simp: Let_def sample_state_same_eq split: if_splits)

lemma same_inner_closed:
  assumes "m_closed sms cnt m" "i < cnt"
  shows "m_closed sms cnt (fst (same_inner sms i [0..<cnt] m b))"
  using assms unfolding m_closed_def same_inner_ext by auto

lemma same_outer_Cons:
  "same_outer sms cnt (i # is) m \<longleftrightarrow> snd (same_inner sms i [0..<cnt] m False) \<and>
     same_outer sms cnt is (fst (same_inner sms i [0..<cnt] m False))"
  by (simp add: case_prod_beta)

lemma same_outer_one: "same_outer sms 1 [0..<1] []"
  by (simp add: sample_state_same_eq)

lemma same_outer_matched:
  assumes "m_closed sms cnt m" "\<exists>i \<in> set is. i \<in> set m" "\<forall>i \<in> set is. i < cnt"
  shows "\<not> same_outer sms cnt is m"
  using assms
proof (induction "is" arbitrary: m)
  case (Cons i "is")
  let ?r = "same_inner sms i [0..<cnt] m False"
  show ?case
  proof (cases "i \<in> set m")
    case True
    have "\<not> snd ?r" by (rule same_inner_none) (use True Cons.prems(1) in \<open>auto simp: m_closed_def\<close>)
    then show ?thesis by (simp add: case_prod_beta)
  next
    case False
    have "m_closed sms cnt (fst ?r)" by (rule same_inner_closed) (use Cons.prems in simp_all)
    moreover have "\<exists>i \<in> set is. i \<in> set (fst ?r)" using Cons.prems(2) False same_inner_ext by fastforce
    ultimately have "\<not> same_outer sms cnt is (fst ?r)" using Cons.IH Cons.prems(3) by simp
    then show ?thesis by (simp add: case_prod_beta)
  qed
qed simp

lemma same_outer_big:
  assumes "2 \<le> cnt"
  shows "\<not> same_outer sms cnt [0..<cnt] []"
proof -
  let ?r = "same_inner sms 0 [0..<cnt] [] False"
  obtain k where k: "cnt = Suc k" "0 < k" using assms by (cases cnt) auto
  have up: "[0..<cnt] = 0 # [1..<cnt]" using assms by (simp add: upt_conv_Cons)
  then have step: "same_outer sms cnt [0..<cnt] [] \<longleftrightarrow> snd ?r \<and> same_outer sms cnt [1..<cnt] (fst ?r)"
    using same_outer_Cons [of sms cnt 0 "[1..<cnt]" "[]"] by simp
  show ?thesis
  proof (cases "snd ?r")
    case True
    then have "k \<in> set (fst ?r)" using same_inner_last [of sms 0 "[0..<k]" k "[]" False] k(1) by simp
    moreover have "m_closed sms cnt (fst ?r)"
      by (rule same_inner_closed) (use assms in \<open>simp_all add: m_closed_def\<close>)
    moreover have "k \<in> set [1..<cnt]" using k by simp
    ultimately have "\<not> same_outer sms cnt [1..<cnt] (fst ?r)"
      by (intro same_outer_matched) (auto intro!: bexI [of _ k])
    then show ?thesis using step by blast
  next
    case False
    then show ?thesis using step by blast
  qed
qed

lemma sample_set_same_iff:
  "sample_set_same saved new \<longleftrightarrow> ss_count saved = ss_count new \<and> ss_count saved \<le> 1"
proof (cases "2 \<le> ss_count saved")
  case True
  then show ?thesis using same_outer_big by (auto simp: sample_set_same_def)
next
  case False
  then consider "ss_count saved = 0" | "ss_count saved = 1" by fastforce
  then show ?thesis
  proof cases
    case 1
    then show ?thesis by (simp add: sample_set_same_def)
  next
    case 2
    then show ?thesis unfolding sample_set_same_def 2 by (simp only: same_outer_one order_refl simp_thms split: if_split)
  qed
qed

text \<open>
  Two sample sets compare equal exactly when both have the same number of samples and
  that is at most one: the loop compares the saved set with itself, so the paths of the new
  set do not count, and a set of two samples is not even equal to itself.
\<close>

theorem sample_set_same_compares_counts:
  "sample_set_same saved new = (ss_count saved = ss_count new \<and> ss_count saved \<le> 1)"
  by (simp add: sample_set_same_iff)

subsection \<open>The walk over the entries\<close>

text \<open>The results of \<open>k\<close> calls of \<open>sample_state_cur_entry\<close>.\<close>

fun entry_calls :: "nat \<Rightarrow> sample_state \<Rightarrow> addr list option" where
  "entry_calls 0 sm = Some []"
| "entry_calls (Suc k) sm =
     do { (e, sm) \<leftarrow> sample_state_cur_entry sm; es \<leftarrow> entry_calls k sm; Some (e # es) }"

lemma entry_calls_step:
  "sample_state_cur_entry sm = Some (e, sm') \<Longrightarrow> entry_calls (Suc k) sm = map_option (Cons e) (entry_calls k sm')"
  by (cases "entry_calls k sm'") simp_all

lemma entry_calls_stop: "sample_state_cur_entry sm = None \<Longrightarrow> entry_calls (Suc k) sm = None"
  by simp

declare entry_calls.simps(2) [simp del]

lemma s8_small: "- 128 \<le> x \<Longrightarrow> x < 128 \<Longrightarrow> s8_of x = x"
  by (simp add: s8_of_def)

lemma cur_entry_next:
  assumes "st_fns sm = []" "st_entry_curidx sm = int i" "i < 127"
  shows "sample_state_cur_entry sm =
    (let sm' = sm\<lparr>st_entry_curidx := int (Suc i)\<rparr>
     in if Suc i = st_entry_count sm then Some (NULL, sm')
        else if Suc i < length (st_entries sm) then Some (st_entries sm ! Suc i, sm') else None)"
proof -
  have "s8_of (int i + 1) = int (Suc i)" using assms(3) by (subst s8_small) simp_all
  then show ?thesis using assms
    by (simp add: sample_state_cur_entry_def sample_state_last_fnl_def entry_at_def Let_def del: of_nat_Suc)
qed

lemma cur_entry_past:
  assumes "st_fns sm = []" "st_entry_curidx sm = int n" "st_entry_count sm = n"
    "length (st_entries sm) = n" "n \<le> 127"
  shows "sample_state_cur_entry sm = None"
proof (cases "n < 127")
  case True
  then show ?thesis using cur_entry_next [OF assms(1,2) True] assms(3,4) by (simp add: Let_def)
next
  case False
  then have "n = 127" using assms(5) by simp
  then show ?thesis using assms
    by (simp add: sample_state_cur_entry_def sample_state_last_fnl_def entry_at_def s8_of_def Let_def)
qed

lemma entry_calls_rest:
  assumes "st_fns sm = []" "st_entry_curidx sm = int i" "st_entry_count sm = n"
    "length (st_entries sm) = n" "n \<le> 127" "i + Suc k = n"
  shows "entry_calls (Suc k) sm = Some (drop (Suc i) (st_entries sm) @ [NULL]) \<and>
    entry_calls (Suc (Suc k)) sm = None"
  using assms
proof (induction k arbitrary: i sm)
  case 0
  let ?sm = "sm\<lparr>st_entry_curidx := int n\<rparr>"
  have c: "sample_state_cur_entry sm = Some (NULL, ?sm)"
    using cur_entry_next [of sm i] 0 by (simp add: Let_def)
  have "sample_state_cur_entry ?sm = None" by (rule cur_entry_past [of _ n]) (use 0 in simp_all)
  then show ?case using entry_calls_step [OF c] entry_calls_stop 0 by simp
next
  case (Suc k)
  let ?sm = "sm\<lparr>st_entry_curidx := int (Suc i)\<rparr>"
  have c: "sample_state_cur_entry sm = Some (st_entries sm ! Suc i, ?sm)"
    using cur_entry_next [of sm i] Suc.prems by (simp add: Let_def)
  have ih: "entry_calls (Suc k) ?sm = Some (drop (Suc (Suc i)) (st_entries ?sm) @ [NULL])"
    "entry_calls (Suc (Suc k)) ?sm = None"
    using Suc.IH [of ?sm "Suc i"] Suc.prems by simp_all
  have "drop (Suc i) (st_entries sm) = st_entries sm ! Suc i # drop (Suc (Suc i)) (st_entries sm)"
    using Suc.prems by (intro Cons_nth_drop_Suc [symmetric]) simp
  then show ?case using ih unfolding entry_calls_step [OF c] by simp
qed

text \<open>
  A sample hands out its entries in order and then \<open>NULL\<close>; the call after that reads past
  the array. As \<open>sample_set_done\<close> calls it for the finished samples as long as another sample
  is running, a set with two samples reads out of bounds.
\<close>

theorem entries_overrun:
  assumes "st_fns sm = []" "st_entry_curidx sm = - 1" "st_entry_count sm = n"
    "length (st_entries sm) = n" "0 < n" "n \<le> 127"
  shows "entry_calls (n + 1) sm = Some (st_entries sm @ [NULL]) \<and> entry_calls (n + 2) sm = None"
proof -
  let ?sm = "sm\<lparr>st_entry_curidx := 0\<rparr>"
  obtain m where m: "n = Suc m" using assms(5) by (cases n) auto
  have c: "sample_state_cur_entry sm = Some (st_entries sm ! 0, ?sm)"
    using assms by (auto simp: sample_state_cur_entry_def entry_at_def Let_def)
  have r: "entry_calls (Suc m) ?sm = Some (drop (Suc 0) (st_entries sm) @ [NULL])"
    "entry_calls (Suc (Suc m)) ?sm = None"
    using entry_calls_rest [of ?sm 0 n m] assms m by simp_all
  have "st_entries sm = st_entries sm ! 0 # drop (Suc 0) (st_entries sm)"
    using assms(4,5) by (metis Cons_nth_drop_Suc drop0)
  then show ?thesis
    using r entry_calls_step [OF c] by (simp_all add: m)
qed

theorem entries_overrun_witness:
  "entry_calls 3 (sample_state_alloc\<lparr>st_entries := [8, 16], st_entry_count := 2\<rparr>) = Some [8, 16, NULL] \<and>
   entry_calls 4 (sample_state_alloc\<lparr>st_entries := [8, 16], st_entry_count := 2\<rparr>) = None"
  using entries_overrun [of "sample_state_alloc\<lparr>st_entries := [8, 16], st_entry_count := 2\<rparr>" 2]
  by (simp add: sample_state_alloc_def)

subsection \<open>Infinite loops\<close>

text \<open>
  What clib documents of \<open>clib_compute_bits\<close>: a comparison gives the sign of the difference of
  the numbers that the bytes, their number and the sign flag stand for.
\<close>

definition cmp_exact :: "clib_compute \<Rightarrow> (8 word list \<times> nat \<times> bool \<Rightarrow> int) \<Rightarrow> bool" where
  "cmp_exact C V \<longleftrightarrow>
     (\<forall>lb ln ls rb rn rs. C lb ln ls rb rn rs CLIB_COMPUTE_F_COMPARE = Some (sgn (V (lb, ln, ls) - V (rb, rn, rs))))"

lemma number_of_norm: "dsv_norm f = dsv_norm d \<Longrightarrow> number_of f = number_of d"
  by (cases f; cases d) (auto split: dsv_value.splits)

lemma compute_eq:
  assumes "cmp_exact C V" "ref_inv h {} ext" "operand l ext" "operand r ext" "card (dom (ds_map h)) \<le> n"
  shows "\<exists>h'. dsv_compute C n l r CLIB_COMPUTE_F_COMPARE DSV_COMP_F_EQ h =
      Some (0, Some (if V (number_of l) = V (number_of r) then 1 else 0), h') \<and>
      ref_inv h' {} ext \<and> card (dom (ds_map h')) \<le> n"
proof -
  have c: "C (fst (number_of l)) (fst (snd (number_of l))) (snd (snd (number_of l)))
      (fst (number_of r)) (fst (snd (number_of r))) (snd (snd (number_of r))) CLIB_COMPUTE_F_COMPARE =
      Some (sgn (V (number_of l) - V (number_of r)))"
    using assms(1) by (simp add: cmp_exact_def)
  from compute_compares [of h ext l r n C "V (number_of l)" "V (number_of r)" DSV_COMP_F_EQ, OF assms(2-5) c]
  obtain h' where h': "dsv_compute C n l r CLIB_COMPUTE_F_COMPARE DSV_COMP_F_EQ h =
      Some (0, Some (if V (number_of l) = V (number_of r) then 1 else 0), h')" "ref_inv h' {} ext" "shrinks h h'"
    by auto
  then show ?thesis using card_live_mono [OF assms(2) h'(3)] assms(5) by auto
qed

lemma operand_mono: "operand d ext \<Longrightarrow> operand d (ext + m)"
  by (auto simp: operand_def subset_mset.add_increasing2)

lemma operand_copy:
  assumes "operand d ext" "dsv_wf f" "dsv_norm f = dsv_norm d" "dsv_refs f \<subseteq># ext'"
  shows "operand f ext'"
  using assms norm_fields(1) [OF assms(3)] by (simp add: operand_def)

text \<open>The first time around: both operands are recorded.\<close>

lemma loop_record_spec:
  assumes "ref_inv h {} ext" "operand l ext" "operand r ext" "card (dom (ds_map h)) \<le> n"
    and "li_lhs (st_loop sm) = dsv_alloc" "li_rhs (st_loop sm) = dsv_alloc"
  shows "\<exists>f g h'. loop_record n sm l r hp tp h =
      Some (0, sm\<lparr>st_loop := (st_loop sm)\<lparr>li_lhs := f, li_rhs := g, li_head := hp, li_tail := tp\<rparr>\<rparr>, h') \<and>
      ref_inv h' {} (ext + dsv_refs f + dsv_refs g) \<and> card (dom (ds_map h')) \<le> n \<and> dsv_wf f \<and> dsv_wf g \<and>
      dsv_norm f = dsv_norm l \<and> dsv_norm g = dsv_norm r"
proof -
  have nc: "dv_type l \<noteq> DSVT_CONSTRUCTOR" "dv_type r \<noteq> DSVT_CONSTRUCTOR"
    using assms(2,3) by (auto simp: operand_def)
  obtain f h1 where 1: "dsv_copy_data n False None dsv_alloc l h = Some (0, f, h1)"
    "ref_inv h1 {} (ext + dsv_refs f)" "dsv_wf f" "dsv_norm f = dsv_norm l" "shrinks h h1"
    using copy_operand [of h ext l n] assms(1-4) nc by (auto simp: operand_def)
  have c1: "card (dom (ds_map h1)) \<le> n" using card_live_mono [OF assms(1) 1(5)] assms(4) by simp
  have "operand r (ext + dsv_refs f)" using assms(3) by (rule operand_mono)
  then obtain g h2 where 2: "dsv_copy_data n False None dsv_alloc r h1 = Some (0, g, h2)"
    "ref_inv h2 {} (ext + dsv_refs f + dsv_refs g)" "dsv_wf g" "dsv_norm g = dsv_norm r" "shrinks h1 h2"
    using copy_operand [of h1 "ext + dsv_refs f" r n] 1(2) c1 nc by (auto simp: operand_def)
  have "card (dom (ds_map h2)) \<le> n" using card_live_mono [OF 1(2) 2(5)] c1 by simp
  moreover have "loop_record n sm l r hp tp h =
      Some (0, sm\<lparr>st_loop := (st_loop sm)\<lparr>li_lhs := f, li_rhs := g, li_head := hp, li_tail := tp\<rparr>\<rparr>, h2)"
    using 1(1) 2(1) assms(5,6) by (simp add: loop_record_def)
  ultimately show ?thesis using 1 2 by blast
qed

text \<open>The next time: the operands are compared with the recorded ones.\<close>

lemma loop_compare_spec:
  assumes "cmp_exact C V" "ref_inv h {} (ext + loop_refs (st_loop sm))" "card (dom (ds_map h)) \<le> n"
    and "operand l ext" "operand r ext" "loop_wf (st_loop sm)"
    and "operand (li_lhs (st_loop sm)) (ext + loop_refs (st_loop sm))"
      "operand (li_rhs (st_loop sm)) (ext + loop_refs (st_loop sm))"
  shows "\<exists>sm' h'. loop_compare C n sm l r h =
      Some (if V (number_of (li_lhs (st_loop sm))) = V (number_of l) \<and>
        V (number_of (li_rhs (st_loop sm))) = V (number_of r) then 1 else 0, sm', h') \<and>
      ref_inv h' {} (ext + loop_refs (st_loop sm'))"
proof -
  let ?e = "ext + loop_refs (st_loop sm)"
  have clean: "\<exists>sm' h'. loop_not_infinite n sm g = Some (0, sm', h') \<and> ref_inv h' {} (ext + loop_refs (st_loop sm'))"
    if g: "ref_inv g {} ?e" "card (dom (ds_map g)) \<le> n" for g
  proof -
    obtain li h' where 1: "sample_state_cleanup_loopinfo n (st_loop sm) g = Some (li, h')" "ref_inv h' {} ext"
      using rel_ok_loop [OF g(1) assms(6) g(2)] by (auto simp: rel_ok_def)
    moreover have "li = loop_info0"
      using 1(1) by (auto simp: sample_state_cleanup_loopinfo_def bind_splits)
    ultimately show ?thesis by (simp add: loop_not_infinite_def loop_refs_def loop_info0_def dsv_alloc_def)
  qed
  obtain h1 where 1: "dsv_compute C n (li_lhs (st_loop sm)) l CLIB_COMPUTE_F_COMPARE DSV_COMP_F_EQ h =
      Some (0, Some (if V (number_of (li_lhs (st_loop sm))) = V (number_of l) then 1 else 0), h1)"
    "ref_inv h1 {} ?e" "card (dom (ds_map h1)) \<le> n"
    using compute_eq [OF assms(1,2,7) operand_mono [OF assms(4)] assms(3)] by blast
  obtain h2 where 2: "dsv_compute C n (li_rhs (st_loop sm)) r CLIB_COMPUTE_F_COMPARE DSV_COMP_F_EQ h1 =
      Some (0, Some (if V (number_of (li_rhs (st_loop sm))) = V (number_of r) then 1 else 0), h2)"
    "ref_inv h2 {} ?e" "card (dom (ds_map h2)) \<le> n"
    using compute_eq [OF assms(1) 1(2) assms(8) operand_mono [OF assms(5)] 1(3)] by blast
  show ?thesis
  proof (cases "V (number_of (li_lhs (st_loop sm))) = V (number_of l)")
    case l: True
    then show ?thesis
    proof (cases "V (number_of (li_rhs (st_loop sm))) = V (number_of r)")
      case True
      then show ?thesis using l 1(1) 2(1,2) by (simp add: loop_compare_def)
    next
      case False
      then show ?thesis using l 1(1) 2(1) clean [OF 2(2,3)] by (simp add: loop_compare_def)
    qed
  next
    case False
    then show ?thesis using 1(1) clean [OF 1(2,3)] by (simp add: loop_compare_def)
  qed
qed

text \<open>
  When a sample is in a loop, the first call records the two operands of the condition
  that leaves it, and the next call reports an infinite loop exactly when both operands
  have the values they had then; the references of what is recorded stay counted.
\<close>

theorem loop_detected:
  assumes "cmp_exact C V" "ref_inv h {} ext" "card (dom (ds_map h)) \<le> n" "st_loop sm = loop_info0"
    and "operand l ext" "operand r ext" "operand l2 ext" "operand r2 ext"
    and in_loop: "L (st_cps sm @ [cp]) 0 0 (- 1) (- 1) = (1, s, e, hp, tp)" "hp \<noteq> - 1"
      "L (st_cps sm @ [cp]) (or_default s 0) (or_default e 0) hp tp = (1, s2, e2, hp2, tp2)"
  shows "\<exists>sm1 h1 sm2 h2. sample_state_check_loop L C n sm l r cp h = Some (0, sm1, h1) \<and>
      sample_state_check_loop L C n sm1 l2 r2 cp h1 =
        Some (if V (number_of l) = V (number_of l2) \<and> V (number_of r) = V (number_of r2) then 1 else 0, sm2, h2) \<and>
      ref_inv h2 {} (ext + loop_refs (st_loop sm2))"
proof -
  let ?sm = "sm\<lparr>st_loop := loop_info0\<lparr>li_start := s, li_end := e\<rparr>\<rparr>"
  have z: "li_lhs (st_loop ?sm) = dsv_alloc" "li_rhs (st_loop ?sm) = dsv_alloc" by (simp_all add: loop_info0_def)
  obtain f g h1 where 1: "loop_record n ?sm l r hp tp h =
      Some (0, ?sm\<lparr>st_loop := (st_loop ?sm)\<lparr>li_lhs := f, li_rhs := g, li_head := hp, li_tail := tp\<rparr>\<rparr>, h1)"
    "ref_inv h1 {} (ext + dsv_refs f + dsv_refs g)" "card (dom (ds_map h1)) \<le> n" "dsv_wf f" "dsv_wf g"
    "dsv_norm f = dsv_norm l" "dsv_norm g = dsv_norm r"
    using loop_record_spec [OF assms(2,5,6,3) z] by blast
  let ?sm1 = "sm\<lparr>st_loop := \<lparr>li_start = s, li_end = e, li_head = hp, li_tail = tp, li_lhs = f, li_rhs = g\<rparr>\<rparr>"
  have sm1: "?sm\<lparr>st_loop := (st_loop ?sm)\<lparr>li_lhs := f, li_rhs := g, li_head := hp, li_tail := tp\<rparr>\<rparr> = ?sm1"
    by (simp add: loop_info0_def)
  have fst_run: "sample_state_check_loop L C n sm l r cp h = Some (0, ?sm1, h1)"
    using in_loop(1) 1(1) unfolding sm1 [symmetric]
    by (simp add: sample_state_check_loop_def assms(4) or_default_def Let_def) (simp add: loop_info0_def)
  let ?sm2 = "sm\<lparr>st_loop := \<lparr>li_start = s2, li_end = e2, li_head = hp, li_tail = tp, li_lhs = f, li_rhs = g\<rparr>\<rparr>"
  have snd_run: "sample_state_check_loop L C n ?sm1 l2 r2 cp h1 = loop_compare C n ?sm2 l2 r2 h1"
    using in_loop(2,3) by (simp add: sample_state_check_loop_def Let_def)
  have refs: "loop_refs (st_loop ?sm2) = dsv_refs f + dsv_refs g" by (simp add: loop_refs_def)
  have inv: "ref_inv h1 {} (ext + loop_refs (st_loop ?sm2))" using 1(2) unfolding refs by (simp add: ac_simps)
  have sel: "li_lhs (st_loop ?sm2) = f" "li_rhs (st_loop ?sm2) = g" by simp_all
  have op: "operand (li_lhs (st_loop ?sm2)) (ext + loop_refs (st_loop ?sm2))"
    "operand (li_rhs (st_loop ?sm2)) (ext + loop_refs (st_loop ?sm2))"
    unfolding refs sel
    by (rule operand_copy [OF assms(5) 1(4,6)], simp add: subset_mset.add_increasing)
      (rule operand_copy [OF assms(6) 1(5,7)], simp add: subset_mset.add_increasing)
  have wf: "loop_wf (st_loop ?sm2)" unfolding loop_wf_def sel using 1(4,5) by blast
  obtain sm3 h2 where last: "loop_compare C n ?sm2 l2 r2 h1 =
      Some (if V (number_of (li_lhs (st_loop ?sm2))) = V (number_of l2) \<and>
        V (number_of (li_rhs (st_loop ?sm2))) = V (number_of r2) then 1 else 0, sm3, h2)"
    "ref_inv h2 {} (ext + loop_refs (st_loop sm3))"
    using loop_compare_spec [OF assms(1) inv 1(3) assms(7,8) wf op] by blast
  have num: "number_of (li_lhs (st_loop ?sm2)) = number_of l" "number_of (li_rhs (st_loop ?sm2)) = number_of r"
    unfolding sel by (rule number_of_norm [OF 1(6)], rule number_of_norm [OF 1(7)])
  show ?thesis
    by (rule exI [of _ ?sm1], rule exI [of _ h1], rule exI [of _ sm3], rule exI [of _ h2])
      (use fst_run snd_run last [unfolded num] in simp)
qed

text \<open>A loop that is entered at once, and a comparison that reads the first byte.\<close>

definition lx_loop :: in_loop where
  "lx_loop cps s e hp tp = (1, 0, 4, 0, 4)"

definition lx_val :: "8 word list \<times> nat \<times> bool \<Rightarrow> int" where
  "lx_val k = (case fst k of [] \<Rightarrow> 0 | x # _ \<Rightarrow> uint x)"

definition lx_cmp :: clib_compute where
  "lx_cmp lb ln ls rb rn rs fl = Some (sgn (lx_val (lb, ln, ls) - lx_val (rb, rn, rs)))"

theorem loop_detected_witness:
  "\<exists>sm1 h1 sm2 h2.
      sample_state_check_loop lx_loop lx_cmp 3 sample_state_alloc (cx_num 5) (cx_num 9) 7 dx_heap = Some (0, sm1, h1) \<and>
      sample_state_check_loop lx_loop lx_cmp 3 sm1 (cx_num 5) (cx_num 9) 7 h1 = Some (1, sm2, h2) \<and>
      ref_inv h2 {} ({#1#} + loop_refs (st_loop sm2))"
proof -
  have o: "operand (cx_num 5) {#1#}" "operand (cx_num 9) {#1#}" by (simp_all add: operand_def cx_num_def)
  have c: "cmp_exact lx_cmp lx_val" by (simp add: cmp_exact_def lx_cmp_def)
  have l: "st_loop sample_state_alloc = loop_info0" by (simp add: sample_state_alloc_def)
  have i: "lx_loop (st_cps sample_state_alloc @ [7]) 0 0 (- 1) (- 1) = (1, 0, 4, 0, 4)" "(0 :: int) \<noteq> - 1"
    "lx_loop (st_cps sample_state_alloc @ [7]) (or_default 0 0) (or_default 4 0) 0 4 = (1, 0, 4, 0, 4)"
    by (simp_all add: lx_loop_def)
  from loop_detected [of lx_cmp lx_val dx_heap "{#1#}" 3 sample_state_alloc "cx_num 5" "cx_num 9" "cx_num 5"
      "cx_num 9" lx_loop 7 0 4 0 4 0 4 0 4, OF c dx_inv dx_card l o o i]
  show ?thesis by simp
qed

end
