(* ===== verification/Staticchk.thy ===== *)
theory Staticchk
  imports Sample_Props Parse
begin

text \<open>
  The static checker (hacking/staticchk.cc, analysis/dec.c, hacking/uaf.cc and
  include/si_hacking.h): a sample set is run one statement at a time, in a random order of its
  samples, until all samples are through or a problem was found; then it is saved in the
  project unless an equal one is there. What a language module does with one statement is a
  parameter, as are the random numbers and what the other checking modules do.
\<close>

subsection \<open>Checking modules\<close>

datatype hacking_flag = HACKING_FLAG_NONE | HACKING_FLAG_STATIC | HACKING_FLAG_FUZZ | HACKING_FLAG_OTHER

text \<open>\<open>struct hacking_module\<close>; the two functions by their addresses.\<close>

record hacking_module =
  hm_name :: string
  hm_flag :: hacking_flag
  hm_doit :: addr
  hm_done :: addr

definition hacking_module_find :: "hacking_module list \<Rightarrow> hacking_module \<Rightarrow> hacking_module option" where
  "hacking_module_find h m = slist_find (\<lambda>tmp. hm_doit tmp = hm_doit m) h"

definition register_hacking_module :: "hacking_module \<Rightarrow> hacking_module list \<Rightarrow> hacking_module list" where
  "register_hacking_module m h =
     (if hacking_module_find h m \<noteq> None then h
      else if hm_flag m = HACKING_FLAG_FUZZ then slist_add_tail m h else slist_add m h)"

definition unregister_hacking_module :: "hacking_module \<Rightarrow> hacking_module list \<Rightarrow> hacking_module list" where
  "unregister_hacking_module m h = slist_del m h"

text \<open>\<open>uaf_done\<close>: an allocated state that is freed and still referred to.\<close>

fun uaf_loop :: "addr list \<Rightarrow> dsh \<Rightarrow> sample_set \<Rightarrow> sample_set option" where
  "uaf_loop [] h ss = Some ss"
| "uaf_loop (d # ds) h ss =
     (case ds_map h d of
        None \<Rightarrow> None
      | Some r \<Rightarrow>
          if \<not> fl_freed (dv_flag (ds_val r)) then uaf_loop ds h ss
          else if fl_refcount (dv_flag (ds_val r)) = 0 then uaf_loop ds h ss
          else do { ss \<leftarrow> sample_set_set_flag SAMPLE_SF_UAF ss; uaf_loop ds h ss })"

definition uaf_done :: "dsh \<Rightarrow> sample_set \<Rightarrow> sample_set option" where
  "uaf_done h ss = uaf_loop (ss_allocated ss) h ss"

subsection \<open>One statement\<close>

text \<open>The project, the store of data states and the saved sample sets.\<close>

record chk =
  ck_cg :: cgs
  ck_h :: dsh
  ck_sv :: saved_sets

type_synonym lang_dec = "lang_ops \<Rightarrow> sample_set \<Rightarrow> nat \<Rightarrow> addr \<Rightarrow> chk \<Rightarrow> (int \<times> sample_set \<times> chk) option"

abbreviation upd_si :: "src \<Rightarrow> chk \<Rightarrow> chk" where
  "upd_si s c \<equiv> c\<lparr>ck_cg := (ck_cg c)\<lparr>cg_si := s\<rparr>\<rparr>"

definition dec_next ::
    "env \<Rightarrow> world \<Rightarrow> lang_ops list \<Rightarrow> lang_dec \<Rightarrow> nat \<Rightarrow> nat \<Rightarrow> sample_set \<Rightarrow> chk \<Rightarrow>
      (int \<times> sample_set \<times> chk) option" where
  "dec_next E W ops dec u idx ss c =
     (if length (ss_samples ss) \<le> idx then None
      else do {
        (entry_fsn, sm) \<leftarrow> sample_state_cur_entry (ss_samples ss ! idx);
        let ss = ss\<lparr>ss_samples := (ss_samples ss)[idx := sm]\<rparr>;
        let s = cg_si (ck_cg c);
        (if entry_fsn = NULL \<or> sn_data (h_sn s entry_fsn) = NULL then Some (0, ss, c)
         else do {
           let entry_fn = sn_data (h_sn s entry_fsn);
           let buf = find_target_sibuf s (fn_node (h_fn (ck_cg c) entry_fn));
           (if buf = NULL then Some (- 1, ss, c)
            else do {
              (held, s) \<leftarrow> sibuf_hold E W u buf s;
              fc \<leftarrow> fc_read W buf s;
              let c = upd_si (drop_if held u buf s) c;
              (case lang_ops_find ops (fc_type fc) of
                 None \<Rightarrow> Some (- 1, ss, c)
               | Some op \<Rightarrow> dec op ss idx entry_fn c)
            })
         })
      })"

subsection \<open>Running a sample set\<close>

text \<open>The modules of the kind asked for; \<open>call\<close> is what the function at an address does.\<close>

type_synonym module_call = "addr \<Rightarrow> nat \<Rightarrow> chk \<Rightarrow> sample_set \<Rightarrow> sample_set option"

definition module_runs :: "string \<Rightarrow> hacking_module \<Rightarrow> bool" where
  "module_runs modname m \<longleftrightarrow>
     hm_flag m = HACKING_FLAG_STATIC \<and> (strcmp modname ''all'' = 0 \<or> strcmp modname (hm_name m) = 0)"

fun run_modules ::
    "module_call \<Rightarrow> string \<Rightarrow> bool \<Rightarrow> nat \<Rightarrow> hacking_module list \<Rightarrow> chk \<Rightarrow> sample_set \<Rightarrow> sample_set option" where
  "run_modules call modname done i [] c ss = Some ss"
| "run_modules call modname done i (m # ms) c ss =
     (if \<not> module_runs modname m then run_modules call modname done i ms c ss
      else if done \<and> hm_done m \<noteq> NULL
      then do { ss \<leftarrow> call (hm_done m) i c ss; run_modules call modname done i ms c ss }
      else if \<not> done \<and> hm_doit m \<noteq> NULL
      then do { ss \<leftarrow> call (hm_doit m) i c ss; run_modules call modname done i ms c ss }
      else run_modules call modname done i ms c ss)"

datatype chk_next = ChkAgain | ChkSave | ChkOut

text \<open>
  The body of the loop with the random number \<open>rnd\<close>: how it goes on, \<open>err\<close>, the sample set
  and the rest. \<open>s_random() % threads\<close> with no thread is a division by zero.
\<close>

record checker =
  cx_env :: env
  cx_world :: world
  cx_ops :: "lang_ops list"
  cx_dec :: lang_dec
  cx_tid :: nat
  cx_call :: module_call
  cx_modules :: "hacking_module list"
  cx_random :: "nat \<Rightarrow> nat"

definition staticchk_step ::
    "checker \<Rightarrow> string option \<Rightarrow> nat \<Rightarrow> int \<Rightarrow> sample_set \<Rightarrow> chk \<Rightarrow>
      (chk_next \<times> int \<times> sample_set \<times> chk) option" where
  "staticchk_step X modname k err ss c =
     (if ss_count ss = 0 then None
      else let i = cx_random X k mod ss_count ss in
        if sample_set_stuck ss then do {
          ss \<leftarrow> sample_set_set_flag SAMPLE_SF_DEADLK ss;
          Some (ChkSave, err, ss, c)
        }
        else if \<not> sample_can_run ss i then Some (ChkAgain, err, ss, c)
        else do {
          (err, ss, c) \<leftarrow> dec_next (cx_env X) (cx_world X) (cx_ops X) (cx_dec X) (cx_tid X) i ss c;
          (if err = - 1 then Some (ChkOut, err, ss, c)
           else do {
             (done, ss) \<leftarrow> sample_set_done ss;
             ss \<leftarrow> (case modname of
                 None \<Rightarrow> Some ss
               | Some nm \<Rightarrow> run_modules (cx_call X) nm done i (cx_modules X) c ss);
             Some (if done \<or> \<not> sample_set_zeroflag ss then ChkSave else ChkAgain, err, ss, c)
           })
        })"

text \<open>The label \<open>check_saved\<close>.\<close>

definition check_saved :: "sample_set \<Rightarrow> saved_sets \<Rightarrow> saved_sets" where
  "check_saved ss sv =
     (if \<not> sample_set_exists ss sv \<and> sample_set_validate ss = 0
      then src_set_sset_curid (ss_id ss + 1) (save_sample_set ss sv) else sv)"

text \<open>The loop, which may run forever; the dump of the sample set is not modelled.\<close>

partial_function (option) staticchk_loop ::
    "checker \<Rightarrow> string option \<Rightarrow> nat \<Rightarrow> int \<Rightarrow> sample_set \<Rightarrow> chk \<Rightarrow> (int \<times> sample_set \<times> chk) option" where
  "staticchk_loop X modname k err ss c =
     (case staticchk_step X modname k err ss c of
        None \<Rightarrow> None
      | Some (nxt, err, ss, c) \<Rightarrow>
          (case nxt of
             ChkAgain \<Rightarrow> staticchk_loop X modname (k + 1) err ss c
           | ChkSave \<Rightarrow> Some (err, ss, c\<lparr>ck_sv := check_saved ss (ck_sv c)\<rparr>)
           | ChkOut \<Rightarrow> Some (err, ss, c)))"

definition staticchk_sample_set ::
    "checker \<Rightarrow> string option \<Rightarrow> sample_set \<Rightarrow> chk \<Rightarrow> (int \<times> sample_set \<times> chk) option" where
  "staticchk_sample_set X modname ss c = staticchk_loop X modname 0 0 ss c"

text \<open>\<open>_do_staticchk\<close>: whether a sample set counts as saved.\<close>

definition do_staticchk :: "checker \<Rightarrow> nat \<Rightarrow> nat \<Rightarrow> string option \<Rightarrow> chk \<Rightarrow> (bool \<times> chk) option" where
  "do_staticchk X n threads modname c =
     do {
       let ss = (sample_set_alloc threads)\<lparr>ss_id := sv_curid (ck_sv c), ss_mode := 0\<rparr>;
       let (err, ss) = sample_set_select_entries ss;
       (err, ss, c) \<leftarrow> (if err = - 1 then Some (err, ss, c) else staticchk_sample_set X modname ss c);
       h \<leftarrow> sample_set_free n ss (ck_h c);
       Some (err = 1, c\<lparr>ck_h := h\<rparr>)
     }"

text \<open>\<open>staticchk_quick_single_func\<close>: one sample with one entry.\<close>

definition quick_set :: "addr \<Rightarrow> sample_set" where
  "quick_set fsn = (sample_set_alloc 1)\<lparr>ss_mode := 1,
     ss_samples := [sample_state_alloc\<lparr>st_entries := [fsn], st_entry_count := 1\<rparr>]\<rparr>"

definition staticchk_quick_single_func :: "checker \<Rightarrow> nat \<Rightarrow> nat \<Rightarrow> chk \<Rightarrow> chk option" where
  "staticchk_quick_single_func X n funcid c =
     do {
       fsn \<leftarrow> sinode_search (cg_si (ck_cg c)) (siid_type (wrap32 funcid)) SEARCH_BY_ID (ArgId (wrap32 funcid));
       (if fsn = NULL then Some c
        else do {
          (err, ss, c) \<leftarrow> staticchk_sample_set X None (quick_set fsn) c;
          h \<leftarrow> sample_set_free n ss (ck_h c);
          Some (c\<lparr>ck_h := h\<rparr>)
        })
     }"

text \<open>
  \<open>staticchk_quick_cb\<close> over all functions: the ids from the first of each type on. Its
  argument checks and \<open>mark_entry\<close> come before.
\<close>

fun quick_ids :: "checker \<Rightarrow> nat \<Rightarrow> nat list \<Rightarrow> chk \<Rightarrow> chk option" where
  "quick_ids X n [] c = Some c"
| "quick_ids X n (i # is) c = do { c \<leftarrow> staticchk_quick_single_func X n i c; quick_ids X n is c }"

definition staticchk_quick_all :: "checker \<Rightarrow> nat \<Rightarrow> chk \<Rightarrow> chk option" where
  "staticchk_quick_all X n c =
     do {
       let s = cg_si (ck_cg c);
       c \<leftarrow> quick_ids X n [mk_siid TYPE_FUNC_GLOBAL 0..<si_id_idx s TYPE_FUNC_GLOBAL] c;
       let s = cg_si (ck_cg c);
       quick_ids X n [mk_siid TYPE_FUNC_STATIC 0..<si_id_idx s TYPE_FUNC_STATIC] c
     }"

subsection \<open>The properties\<close>

lemma entry_none: "sample_state_cur_entry sample_state_alloc = None"
  by (simp add: sample_state_cur_entry_def sample_state_alloc_def entry_at_def Let_def)

lemma fresh_step:
  "staticchk_step X modname k err ((sample_set_alloc threads)\<lparr>ss_id := i, ss_mode := 0\<rparr>) c = None"
proof (cases "threads mod 256 = 0")
  case True
  then show ?thesis by (simp add: staticchk_step_def sample_set_alloc_def)
next
  case False
  let ?ss = "(sample_set_alloc threads)\<lparr>ss_id := i, ss_mode := 0\<rparr>"
  let ?i = "cx_random X k mod (threads mod 256)"
  have "threads mod 256 \<le> threads" by simp
  moreover have "?i < threads mod 256" using False by simp
  ultimately have i: "?i < length (ss_samples ?ss)" "ss_samples ?ss ! ?i = sample_state_alloc"
    by (simp_all add: sample_set_alloc_def)
  have "dec_next E W ops dec u ?i ?ss c = None" for E W ops dec u
    using i by (simp add: dec_next_def entry_none)
  moreover have "\<not> sample_set_stuck ?ss"
    using False by (auto simp: sample_set_stuck_def sample_can_run_def sample_set_alloc_def list_ex_iff)
  moreover have "ss_count ?ss = threads mod 256" by (simp add: sample_set_alloc_def)
  ultimately show ?thesis using False by (simp add: staticchk_step_def sample_can_run_def Let_def)
qed

text \<open>
  C34. The full static check faults on its first statement, for every number of threads: no
  entries are selected, so the first sample reads the entry array through \<open>NULL\<close>, or, when
  the number of threads is 0 modulo 256, the choice of a sample divides by zero.
\<close>

theorem full_check_faults:
  "staticchk_step X modname 0 0 ((sample_set_alloc threads)\<lparr>ss_id := sv_curid (ck_sv c), ss_mode := 0\<rparr>) c = None \<and>
   do_staticchk X n threads modname c = None"
proof -
  let ?ss = "(sample_set_alloc threads)\<lparr>ss_id := sv_curid (ck_sv c), ss_mode := 0\<rparr>"
  have "staticchk_sample_set X modname ?ss c = None"
    unfolding staticchk_sample_set_def
    by (subst staticchk_loop.simps) (simp add: fresh_step)
  then show ?thesis by (simp add: fresh_step do_staticchk_def sample_set_select_entries_def)
qed

lemma exists_iff:
  "sample_set_exists ss sv \<longleftrightarrow> ss_count ss \<le> 1 \<and> (\<exists>s \<in> set (sv_sets sv). ss_count s = ss_count ss)"
  by (auto simp: sample_set_exists_def slist_find_None sample_set_same_iff)

lemma saved_samples:
  assumes "ss_count ss \<le> length (ss_samples ss)"
  shows "map st_cps (map (\<lambda>i. save_sample_state sample_state_alloc (ss_samples ss ! i)) [0..<ss_count ss]) =
    map st_cps (take (ss_count ss) (ss_samples ss))"
  using assms by (intro nth_equalityI) (simp_all add: save_sample_state_def sample_state_alloc_def Let_def)

text \<open>
  C35. What is saved of the checks: a set of two or more samples every time, even when the same
  one is there; a set of one sample only when no set of one sample was saved before, whatever
  it went through. The saved copy has the code paths, and its flags, the problems found, are
  gone.
\<close>

theorem check_saved_keeps:
  assumes "ss_count ss = length (ss_samples ss)" "ss_count ss < 256"
  shows "(ss_count ss \<le> 1 \<and> (\<exists>s \<in> set (sv_sets sv). ss_count s = ss_count ss) \<longrightarrow> check_saved ss sv = sv) \<and>
    (\<not> (ss_count ss \<le> 1 \<and> (\<exists>s \<in> set (sv_sets sv). ss_count s = ss_count ss)) \<longrightarrow>
      (\<exists>new. sv_sets (check_saved ss sv) = sv_sets sv @ [new] \<and> ss_count new = ss_count ss \<and>
        map st_cps (ss_samples new) = map st_cps (ss_samples ss) \<and> sample_set_zeroflag new))"
proof -
  let ?new = "(sample_set_alloc (ss_count ss))
    \<lparr>ss_samples := map (\<lambda>i. save_sample_state sample_state_alloc (ss_samples ss ! i)) [0..<ss_count ss]\<rparr>"
  have "ss_count ?new = ss_count ss" "sample_set_zeroflag ?new"
    using assms(2) by (simp_all add: sample_set_alloc_def sample_set_zeroflag_def)
  moreover have "map st_cps (ss_samples ?new) = map st_cps (ss_samples ss)"
    using saved_samples [of ss] assms(1) by simp
  moreover have "sv_sets (src_set_sset_curid (ss_id ss + 1) (save_sample_set ss sv)) = sv_sets sv @ [?new]"
    by (simp add: src_set_sset_curid_def save_sample_set_def slist_add_tail_def)
  ultimately show ?thesis
    unfolding check_saved_def exists_iff sample_set_validate_def by (auto intro!: exI [of _ ?new])
qed

theorem check_saved_keeps_witness:
  "let ss = (sample_set_alloc 1)\<lparr>ss_flag := 4\<rparr>; sv = \<lparr>sv_sets = [sample_set_alloc 1], sv_curid = 1\<rparr>
   in check_saved ss sv = sv"
  using check_saved_keeps [of "(sample_set_alloc 1)\<lparr>ss_flag := 4\<rparr>" "\<lparr>sv_sets = [sample_set_alloc 1], sv_curid = 1\<rparr>"]
  by (simp add: sample_set_alloc_def)

end
