(* ===== verification/Gcc_Obj.thy ===== *)
theory Gcc_Obj
  imports Si_Types
begin

text \<open>
  The object table of \<open>analysis/gcc/c.cc\<close>. A compiled file is a sequence of objects, copied
  from the memory of the compiler; the pointers inside them still hold the addresses of the
  compiler (\<open>fake_addr\<close>) and are turned into addresses of the loaded file (\<open>real_addr\<close>)
  while the trees are walked. The same walkers visit the trees a second time in phase 4,
  with a list of the objects already seen instead of the flag of the table.

  The memory of the objects is a function from addresses to the pointer or location stored
  there. Everything the walkers read but never write (counts, codes, flag bits) is read
  through the record \<open>gcc\<close>, which stands for the layout of the structures of GCC.
\<close>

subsection \<open>What GCC defines\<close>

datatype tree_class =
    tcc_exceptional | tcc_constant | tcc_type | tcc_declaration | tcc_reference
  | tcc_comparison | tcc_unary | tcc_binary | tcc_statement | tcc_vl_exp | tcc_expression

datatype tree_code =
    INTEGER_CST | TREE_BINFO | TREE_VEC | VECTOR_CST | STRING_CST | OMP_CLAUSE
  | FIELD_DECL | PARM_DECL | VAR_DECL | LABEL_DECL | RESULT_DECL | CONST_DECL | TYPE_DECL
  | FUNCTION_DECL | DEBUG_EXPR_DECL | TRANSLATION_UNIT_DECL | NAMESPACE_DECL | IMPORTED_DECL
  | NAMELIST_DECL | VOID_CST | REAL_CST | FIXED_CST | COMPLEX_CST | IDENTIFIER_NODE
  | TREE_LIST | ERROR_MARK | PLACEHOLDER_EXPR | SSA_NAME | STATEMENT_LIST | BLOCK
  | CONSTRUCTOR | OPTIMIZATION_NODE | TARGET_OPTION_NODE
  | COMPONENT_REF | BIT_FIELD_REF | ADDR_EXPR | MEM_REF | ARRAY_REF
  | Other_code nat

datatype gimple_code =
    GIMPLE_ASM | GIMPLE_ASSIGN | GIMPLE_CALL | GIMPLE_COND | GIMPLE_LABEL | GIMPLE_GOTO
  | GIMPLE_NOP | GIMPLE_RETURN | GIMPLE_SWITCH | GIMPLE_PHI | GIMPLE_OMP_PARALLEL
  | GIMPLE_OMP_TASK | GIMPLE_OMP_ATOMIC_LOAD | GIMPLE_OMP_ATOMIC_STORE | GIMPLE_OMP_FOR
  | GIMPLE_OMP_CONTINUE | GIMPLE_OMP_SINGLE | GIMPLE_OMP_TARGET | GIMPLE_OMP_TEAMS
  | GIMPLE_OMP_RETURN | GIMPLE_OMP_SECTIONS | GIMPLE_OMP_SECTIONS_SWITCH
  | GIMPLE_OMP_MASTER | GIMPLE_OMP_TASKGROUP | GIMPLE_OMP_SECTION | GIMPLE_OMP_GRID_BODY
  | GIMPLE_OMP_ORDERED | GIMPLE_OMP_CRITICAL | GIMPLE_BIND | GIMPLE_TRY | GIMPLE_CATCH
  | GIMPLE_EH_FILTER | GIMPLE_EH_MUST_NOT_THROW | GIMPLE_EH_ELSE | GIMPLE_RESX
  | GIMPLE_EH_DISPATCH | GIMPLE_DEBUG | GIMPLE_PREDICT | GIMPLE_TRANSACTION
  | Other_gimple nat

datatype ntv = NTV_MACRO | NTV_ANSWER | NTV_BUILTIN | NTV_ARGUMENT | NTV_NONE | NTV_other

datatype token_fld =
    CPP_TOKEN_FLD_NODE | CPP_TOKEN_FLD_SOURCE | CPP_TOKEN_FLD_STR | CPP_TOKEN_FLD_ARG_NO
  | CPP_TOKEN_FLD_TOKEN_NO | CPP_TOKEN_FLD_PRAGMA | CPP_TOKEN_FLD_other

datatype macro_kind = cmk_macro | cmk_assert | cmk_traditional

text \<open>
  \<open>g_off\<close> is \<open>offsetof\<close> of a member, named with its structure; \<open>g_size\<close> is \<open>sizeof\<close>;
  \<open>g_get\<close> reads a member (or an accessor macro) that no walker writes, of the object at an
  address; the rest are \<open>TREE_CODE\<close>, \<open>TREE_CODE_CLASS\<close>, \<open>gimple_code\<close>,
  \<open>CPP_HASHNODE_VALUE_IDX\<close>, the tag byte of a preprocessor token, the kind of a macro, the
  version of GCC and the two compile-time switches of the walkers.
\<close>

record gcc =
  g_off :: "string \<Rightarrow> nat"
  g_size :: "string \<Rightarrow> nat"
  g_get :: "string \<Rightarrow> addr \<Rightarrow> nat"
  g_code :: "addr \<Rightarrow> tree_code"
  g_class :: "tree_code \<Rightarrow> tree_class"
  g_gimple_code :: "addr \<Rightarrow> gimple_code"
  g_ntv :: "addr \<Rightarrow> ntv"
  g_token_fld :: "addr \<Rightarrow> token_fld"
  g_macro_kind :: "addr \<Rightarrow> macro_kind"
  g_version :: nat
  g_collect_more :: bool
  g_free_ssanames :: bool

definition at :: "gcc \<Rightarrow> addr \<Rightarrow> string \<Rightarrow> addr" where
  "at g node member = node + g_off g member"

subsection \<open>The state of a walk\<close>

text \<open>
  The thread's globals: the object table, the array \<open>real_addrs\<close> (the real addresses of the
  table when the pass began), \<open>obj_idx\<close>, \<open>obj_adjusted\<close>, the memory, and \<open>phase4_obj_checked\<close>
  up to \<open>phase4_obj_idx\<close>. The array \<open>fake_addrs\<close> is a copy of a field that never changes. \<open>wk_marks\<close> are the declarations and references phase
  4 hands to its handlers, in the order it reaches them.
\<close>

datatype mark =
    Mark_result_decl | Mark_parm_decl | Mark_var_decl | Mark_function_decl
  | Mark_component_ref | Mark_bit_field_ref | Mark_addr_expr | Mark_mem_ref | Mark_array_ref

record wstate =
  wk_objs :: "file_obj list"
  wk_reals :: "addr list"
  wk_idx :: nat
  wk_adjusted :: nat
  wk_mem :: "addr \<Rightarrow> nat"
  wk_checked :: "addr list"
  wk_marks :: "(mark \<times> addr) list"

text \<open>
  How a walk ends: it returns, the process aborts (\<open>BUG()\<close>, or a read past the table), or
  the bound on the depth of the recursion that the model runs with is too small.
\<close>

datatype outcome = Ret wstate | Abort | Deep

primrec and_then :: "outcome \<Rightarrow> (wstate \<Rightarrow> outcome) \<Rightarrow> outcome" where
  "and_then (Ret s) f = f s"
| "and_then Abort f = Abort"
| "and_then Deep f = Deep"

subsection \<open>The searches through the table\<close>

definition MAX_OBJS_PER_FILE :: nat where
  "MAX_OBJS_PER_FILE = 0x800000"

text \<open>
  The order of a search: a large table is searched from an eighth of the maximum upwards
  first, then from the start.
\<close>

definition search_order :: "bool \<Rightarrow> nat \<Rightarrow> nat list" where
  "search_order reverse cnt =
     (if reverse \<and> MAX_OBJS_PER_FILE div 8 < cnt
      then [MAX_OBJS_PER_FILE div 8..<cnt] @ [0..<MAX_OBJS_PER_FILE div 8] else [0..<cnt])"

definition get_real_obj_cnt :: "file_obj list \<Rightarrow> nat" where
  "get_real_obj_cnt objs =
     (case slist_find (\<lambda>i. fo_gcc_global_varidx (objs ! i) \<noteq> 0) [0..<length objs] of
        Some i \<Rightarrow> i | None \<Rightarrow> length objs)"

text \<open>
  \<open>__get_real_addr\<close>: the new value of the pointer, and whether the object it points to is
  still to be walked.
\<close>

definition get_real_addr :: "bool \<Rightarrow> file_obj list \<Rightarrow> nat \<Rightarrow> nat \<times> bool" where
  "get_real_addr reverse objs fake =
     (if fake = 0 then (0, False)
      else case slist_find (\<lambda>i. fo_fake_addr (objs ! i) = fake \<and> fo_real_addr (objs ! i) \<noteq> 0)
                  (search_order reverse (length objs)) of
             Some i \<Rightarrow> (fo_real_addr (objs ! i), \<not> fo_is_adjusted (objs ! i))
           | None \<Rightarrow> (0, False))"

text \<open>
  \<open>__is_obj_checked\<close>: \<open>None\<close> is \<open>BUG()\<close>; otherwise the value returned and the new state. In
  mode adjust an object that is not in the table aborts; in phase 4 the list of seen objects
  grows, and aborts when it reaches the number of objects.
\<close>

definition mark_adjusted :: "nat \<Rightarrow> wstate \<Rightarrow> wstate" where
  "mark_adjusted i s =
     s\<lparr>wk_objs := (wk_objs s)[i := (wk_objs s ! i)\<lparr>fo_is_adjusted := True\<rparr>],
       wk_adjusted := wk_adjusted s + 1\<rparr>"

definition is_obj_checked_adjust :: "bool \<Rightarrow> addr \<Rightarrow> wstate \<Rightarrow> (bool \<times> wstate) option" where
  "is_obj_checked_adjust reverse real s =
     (case slist_find (\<lambda>i. wk_reals s ! i = real)
             (search_order reverse (length (wk_objs s))) of
        None \<Rightarrow> None
      | Some i \<Rightarrow>
          (let s = s\<lparr>wk_idx := i\<rparr>
           in if fo_is_adjusted (wk_objs s ! i) then Some (True, s)
              else Some (False, mark_adjusted i s)))"

definition is_obj_checked_step4 :: "bool \<Rightarrow> addr \<Rightarrow> wstate \<Rightarrow> (bool \<times> wstate) option" where
  "is_obj_checked_step4 reverse real s =
     (case slist_find (\<lambda>i. wk_checked s ! i = real)
             (search_order reverse (length (wk_checked s))) of
        Some i \<Rightarrow> Some (True, s)
      | None \<Rightarrow>
          (let s = s\<lparr>wk_checked := wk_checked s @ [real]\<rparr>
           in if length (wk_objs s) \<le> length (wk_checked s) then None else Some (False, s)))"

definition is_obj_checked :: "nat \<Rightarrow> addr \<Rightarrow> wstate \<Rightarrow> (bool \<times> wstate) option" where
  "is_obj_checked mode real s =
     (if mode = MODE_ADJUST then is_obj_checked_adjust True real s
      else if mode = MODE_GETSTEP4 then is_obj_checked_step4 True real s
      else None)"

subsection \<open>Locations\<close>

definition is_location :: "nat \<Rightarrow> bool" where
  "is_location fake_addr \<longleftrightarrow> 0x800000000000 \<le> fake_addr"

text \<open>
  \<open>my_expand_location\<close>: the location of the object being walked is the next object of the
  table that is not adjusted. Without one the loop reads past the table.
\<close>

definition my_expand_location :: "addr \<Rightarrow> wstate \<Rightarrow> (addr \<times> wstate) option" where
  "my_expand_location loc s =
     (case slist_find (\<lambda>i. \<not> fo_is_adjusted (wk_objs s ! i)) [wk_idx s..<length (wk_objs s)] of
        None \<Rightarrow> None
      | Some i \<Rightarrow>
          (let ob = wk_objs s ! i
           in if \<not> is_location (fo_fake_addr ob) then None
              else Some (fo_real_addr ob,
                     mark_adjusted i (s\<lparr>wk_idx := i, wk_mem := (wk_mem s)(loc := fo_offs ob)\<rparr>))))"

end
