(* ===== verification/Walk_Steps.thy ===== *)
theory Walk_Steps
  imports Gcc_Obj
begin

text \<open>
  The language the walkers of \<open>analysis/gcc/c.cc\<close> are translated into, and its meaning.

  Each walker \<open>do_x(node, flag)\<close> becomes a definition of the same name that yields the
  statements of its body as a list of steps, in the order of the code. A walker called on a
  part of its own object (\<open>flag\<close> 0) is a plain application, so its statements stand in place;
  a walker called on what a pointer leads to is named by a constructor of \<open>walker\<close>, and the
  run of steps calls it with \<open>flag\<close> 1, as the code does.
\<close>

datatype walker =
    W_tree | W_gimple_seq
  | W_vec_tree | W_vec_constructor
  | W_c_scope | W_c_spot_bindings | W_c_goto_bindings | W_vec_c_goto_bindings | W_c_label_vars
  | W_c_binding | W_cpp_hashnode | W_cpp_token | W_cpp_macro | W_answer | W_real_value
  | W_sorted_fields_type | W_c_lang_type | W_c_lang_decl | W_symtab_node | W_splay_tree_node_s
  | W_splay_tree_s | W_c_switch | W_vec_c_arg_tag | W_c_arg_info | W_language_function
  | W_use_optype_d | W_gomp_for_iter
  | W_edge | W_vec_edge | W_nb_iter_bound | W_control_iv | W_loop_exit | W_niter_desc | W_loop
  | W_vec_loop | W_basic_block | W_vec_basic_block | W_cfg | W_gimple_df | W_loops
  | W_histogram_value | W_histogram_values | W_function | W_statement_list_node
  | W_tree_p | W_ssa_use_operand | W_ptr_info_def | W_range_info_def

text \<open>
  \<open>Enter node flag body\<close> is the head of a walker: return if the node is NULL, return if the
  flag is set and the object was checked before, else run the body. \<open>Real cell next\<close> is the
  macro \<open>do_real_addr\<close>, \<open>Blob cell\<close> is its use on an object without pointers,
  \<open>do_real_addr(&p, is_obj_checked(p))\<close>, \<open>Chk\<close> is \<open>is_obj_checked\<close> called for its effect, \<open>Loc\<close> is
  \<open>do_location\<close>, \<open>Load\<close> reads a pointer and continues with it, \<open>Mark\<close> hands a node to its
  phase 4 handler.
\<close>

datatype step =
    BUG
  | Enter addr bool "step list"
  | Real addr "step list"
  | Blob addr
  | Call walker addr
  | Chk addr
  | Loc addr
  | Load addr "nat \<Rightarrow> step list"
  | Mark mark addr

text \<open>The shapes that recur in the walkers.\<close>

definition Go :: "walker \<Rightarrow> addr \<Rightarrow> step" where
  "Go w cell = Load cell (\<lambda>p. [Call w p])"

definition ptr :: "addr \<Rightarrow> walker \<Rightarrow> step" where
  "ptr cell w = Real cell [Go w cell]"

definition loop :: "nat \<Rightarrow> (nat \<Rightarrow> step list) \<Rightarrow> step list" where
  "loop n body = concat (map body [0..<n])"

definition switch_mode :: "nat \<Rightarrow> step list \<Rightarrow> step list \<Rightarrow> step list" where
  "switch_mode mode adjust step4 =
     (if mode = MODE_ADJUST then adjust else if mode = MODE_GETSTEP4 then step4 else [BUG])"

text \<open>The vectors of GCC: a prefix with the number of elements, then the elements.\<close>

definition vec_len :: "gcc \<Rightarrow> addr \<Rightarrow> nat" where
  "vec_len g node = g_get g ''vec_prefix.m_num'' node"

definition vec_slot :: "gcc \<Rightarrow> addr \<Rightarrow> nat \<Rightarrow> addr" where
  "vec_slot g node i = at g node ''vec.vecdata'' + 8 * i"

definition elt_at :: "gcc \<Rightarrow> addr \<Rightarrow> string \<Rightarrow> nat \<Rightarrow> addr" where
  "elt_at g node elt i = at g node ''vec.vecdata'' + g_size g elt * i"

subsection \<open>The run of a list of steps\<close>

text \<open>
  The meaning of a step, given the meaning of the calls. \<open>my_expand_location\<close> finds the
  location structure of \<open>Loc\<close>, whose file name is then relocated and checked.
\<close>

type_synonym runner = "walker \<Rightarrow> addr \<Rightarrow> wstate \<Rightarrow> outcome"

primrec chain :: "(wstate \<Rightarrow> outcome) list \<Rightarrow> wstate \<Rightarrow> outcome" where
  "chain [] s = Ret s"
| "chain (f # fs) s = and_then (f s) (chain fs)"

definition do_check :: "nat \<Rightarrow> addr \<Rightarrow> wstate \<Rightarrow> outcome" where
  "do_check mode p s = (case is_obj_checked mode p s of None \<Rightarrow> Abort | Some (b, s') \<Rightarrow> Ret s')"

definition do_enter :: "nat \<Rightarrow> addr \<Rightarrow> bool \<Rightarrow> (wstate \<Rightarrow> outcome) \<Rightarrow> wstate \<Rightarrow> outcome" where
  "do_enter mode node flag body s =
     (if node = 0 then Ret s
      else if flag
      then case is_obj_checked mode node s of
             None \<Rightarrow> Abort
           | Some (checked, s') \<Rightarrow> if checked then Ret s' else body s'
      else body s)"

definition do_real_addr :: "addr \<Rightarrow> (wstate \<Rightarrow> outcome) \<Rightarrow> wstate \<Rightarrow> outcome" where
  "do_real_addr cell next s =
     (let (real, do_next) = get_real_addr True (wk_objs s) (wk_mem s cell);
          s = s\<lparr>wk_mem := (wk_mem s)(cell := real)\<rparr>
      in if do_next then next s else Ret s)"

definition do_blob :: "nat \<Rightarrow> addr \<Rightarrow> wstate \<Rightarrow> outcome" where
  "do_blob mode cell = do_real_addr cell (\<lambda>s. do_check mode (wk_mem s cell) s)"

definition do_location :: "gcc \<Rightarrow> nat \<Rightarrow> addr \<Rightarrow> wstate \<Rightarrow> outcome" where
  "do_location g mode loc s =
     (if mode \<noteq> MODE_ADJUST then Abort
      else case my_expand_location loc s of
             None \<Rightarrow> Abort
           | Some (xloc, s) \<Rightarrow> do_blob mode (at g xloc ''expanded_location.file'') s)"

primrec run_step :: "gcc \<Rightarrow> nat \<Rightarrow> runner \<Rightarrow> step \<Rightarrow> wstate \<Rightarrow> outcome" where
  "run_step g m rec BUG = (\<lambda>s. Abort)"
| "run_step g m rec (Enter node flag body) = do_enter m node flag (chain (map (run_step g m rec) body))"
| "run_step g m rec (Real cell next) = do_real_addr cell (chain (map (run_step g m rec) next))"
| "run_step g m rec (Blob cell) = do_blob m cell"
| "run_step g m rec (Call w p) = rec w p"
| "run_step g m rec (Chk p) = do_check m p"
| "run_step g m rec (Loc loc) = do_location g m loc"
| "run_step g m rec (Load cell k) = (\<lambda>s. (chain \<circ> (map (run_step g m rec) \<circ> k)) (wk_mem s cell) s)"
| "run_step g m rec (Mark mk p) = (\<lambda>s. Ret (s\<lparr>wk_marks := wk_marks s @ [(mk, p)]\<rparr>))"

definition run_steps :: "gcc \<Rightarrow> nat \<Rightarrow> runner \<Rightarrow> step list \<Rightarrow> wstate \<Rightarrow> outcome" where
  "run_steps g m rec ss = chain (map (run_step g m rec) ss)"

lemma run_steps_Nil [simp]: "run_steps g m rec [] s = Ret s"
  by (simp add: run_steps_def)

lemma run_steps_Cons [simp]:
  "run_steps g m rec (x # xs) s = and_then (run_step g m rec x s) (run_steps g m rec xs)"
  by (simp add: run_steps_def)

lemma run_step_Load: "run_step g m rec (Load cell k) s = run_steps g m rec (k (wk_mem s cell)) s"
  by (simp add: run_steps_def)

lemma run_step_Enter:
  "run_step g m rec (Enter node flag body) s = do_enter m node flag (run_steps g m rec body) s"
  by (simp add: run_steps_def)

lemma run_step_Real:
  "run_step g m rec (Real cell next) s = do_real_addr cell (run_steps g m rec next) s"
  by (simp add: run_steps_def)

text \<open>
  The walkers by name, and the recursion with a bound on its depth.
\<close>

primrec run_walker :: "gcc \<Rightarrow> nat \<Rightarrow> (walker \<Rightarrow> addr \<Rightarrow> step list) \<Rightarrow> nat \<Rightarrow> runner" where
  "run_walker g m code 0 = (\<lambda>w p s. Deep)"
| "run_walker g m code (Suc depth) = (\<lambda>w p s. run_steps g m (run_walker g m code depth) (code w p) s)"

end
