(* ===== verification/Walk_Lang.thy ===== *)
theory Walk_Lang
  imports Walk_Steps
begin

text \<open>
  The walkers of the structures of the C front end and the preprocessor: scopes, bindings,
  labels, macros and their tokens, answers, the language parts of types and functions, the
  symbol table, the pending switch statements, and the common parts of trees they embed. The
  order follows the code, except that the common parts of trees come where they are used.
\<close>

definition do_vec_tree :: "gcc \<Rightarrow> nat \<Rightarrow> bool \<Rightarrow> addr \<Rightarrow> step list" where
  "do_vec_tree g m flag node = [Enter node flag (switch_mode m
     (loop (vec_len g node) (\<lambda>i. [ptr (vec_slot g node i) W_tree]))
     [])]"

definition do_vec_constructor :: "gcc \<Rightarrow> nat \<Rightarrow> bool \<Rightarrow> addr \<Rightarrow> step list" where
  "do_vec_constructor g m flag node = [Enter node flag (switch_mode m
     (loop (vec_len g node) (\<lambda>i.
        let elt = elt_at g node ''constructor_elt'' i
        in [ptr (at g elt ''constructor_elt.index'') W_tree,
            ptr (at g elt ''constructor_elt.value'') W_tree]))
     (loop (vec_len g node) (\<lambda>i.
        let elt = elt_at g node ''constructor_elt'' i
        in [Go W_tree (at g elt ''constructor_elt.index''),
            Go W_tree (at g elt ''constructor_elt.value'')])))]"

definition do_c_scope :: "gcc \<Rightarrow> nat \<Rightarrow> bool \<Rightarrow> addr \<Rightarrow> step list" where
  "do_c_scope g m flag node = [Enter node flag (switch_mode m
     [ptr (at g node ''c_scope.outer'') W_c_scope,
      ptr (at g node ''c_scope.outer_function'') W_c_scope,
      ptr (at g node ''c_scope.bindings'') W_c_binding,
      ptr (at g node ''c_scope.blocks'') W_tree,
      ptr (at g node ''c_scope.blocks_last'') W_tree]
     [])]"

definition do_c_spot_bindings :: "gcc \<Rightarrow> nat \<Rightarrow> bool \<Rightarrow> addr \<Rightarrow> step list" where
  "do_c_spot_bindings g m flag node = [Enter node flag (switch_mode m
     [ptr (at g node ''c_spot_bindings.scope'') W_c_scope,
      ptr (at g node ''c_spot_bindings.bindings_in_scope'') W_c_binding]
     [])]"

definition do_c_goto_bindings :: "gcc \<Rightarrow> nat \<Rightarrow> bool \<Rightarrow> addr \<Rightarrow> step list" where
  "do_c_goto_bindings g m flag node = [Enter node flag (switch_mode m
     ([Loc (at g node ''c_goto_bindings.loc'')] @
      do_c_spot_bindings g m False (at g node ''c_goto_bindings.goto_bindings''))
     [])]"

definition do_vec_c_goto_bindings :: "gcc \<Rightarrow> nat \<Rightarrow> bool \<Rightarrow> addr \<Rightarrow> step list" where
  "do_vec_c_goto_bindings g m flag node = [Enter node flag (switch_mode m
     (loop (vec_len g node) (\<lambda>i. [ptr (vec_slot g node i) W_c_goto_bindings]))
     [])]"

definition do_c_label_vars :: "gcc \<Rightarrow> nat \<Rightarrow> bool \<Rightarrow> addr \<Rightarrow> step list" where
  "do_c_label_vars g m flag node = [Enter node flag (switch_mode m
     ([ptr (at g node ''c_label_vars.shadowed'') W_c_label_vars] @
      do_c_spot_bindings g m False (at g node ''c_label_vars.label_bindings'') @
      [ptr (at g node ''c_label_vars.decls_in_scope'') W_vec_tree,
       ptr (at g node ''c_label_vars.gotos'') W_vec_c_goto_bindings])
     [])]"

definition do_c_binding :: "gcc \<Rightarrow> nat \<Rightarrow> bool \<Rightarrow> addr \<Rightarrow> step list" where
  "do_c_binding g m flag node = [Enter node flag (switch_mode m
     [Loc (at g node ''c_binding.locus''),
      ptr (at g node ''c_binding.decl'') W_tree,
      Load (at g node ''c_binding.decl'') (\<lambda>decl.
        if decl = 0 then [BUG]
        else if g_code g decl \<noteq> LABEL_DECL then [ptr (at g node ''c_binding.u.type'') W_tree]
        else [ptr (at g node ''c_binding.u.label'') W_c_label_vars]),
      ptr (at g node ''c_binding.id'') W_tree,
      ptr (at g node ''c_binding.prev'') W_c_binding,
      ptr (at g node ''c_binding.shadowed'') W_c_binding]
     [])]"

definition do_ht_identifier :: "gcc \<Rightarrow> nat \<Rightarrow> bool \<Rightarrow> addr \<Rightarrow> step list" where
  "do_ht_identifier g m flag node = [Enter node flag (switch_mode m
     [Blob (at g node ''ht_identifier.str'')]
     [])]"

definition do_cpp_hashnode :: "gcc \<Rightarrow> nat \<Rightarrow> bool \<Rightarrow> addr \<Rightarrow> step list" where
  "do_cpp_hashnode g m flag node = [Enter node flag (switch_mode m
     (do_ht_identifier g m False (at g node ''cpp_hashnode.ident'') @
      (if g_collect_more g
       then case g_ntv g node of
              NTV_MACRO \<Rightarrow> [ptr (at g node ''cpp_hashnode.value.macro'') W_cpp_macro]
            | NTV_ANSWER \<Rightarrow> [ptr (at g node ''cpp_hashnode.value.answers'') W_answer]
            | NTV_BUILTIN \<Rightarrow> []
            | NTV_ARGUMENT \<Rightarrow> []
            | NTV_NONE \<Rightarrow> []
            | NTV_other \<Rightarrow> [BUG]
       else []))
     [])]"

definition do_cpp_marco_arg :: "gcc \<Rightarrow> nat \<Rightarrow> bool \<Rightarrow> addr \<Rightarrow> step list" where
  "do_cpp_marco_arg g m flag node = [Enter node flag (switch_mode m
     [ptr (at g node ''cpp_macro_arg.spelling'') W_cpp_hashnode]
     [])]"

definition do_cpp_string :: "gcc \<Rightarrow> nat \<Rightarrow> bool \<Rightarrow> addr \<Rightarrow> step list" where
  "do_cpp_string g m flag node = [Enter node flag (switch_mode m
     [Blob (at g node ''cpp_string.text'')]
     [])]"

definition do_cpp_identifier :: "gcc \<Rightarrow> nat \<Rightarrow> bool \<Rightarrow> addr \<Rightarrow> step list" where
  "do_cpp_identifier g m flag node = [Enter node flag (switch_mode m
     [ptr (at g node ''cpp_identifier.node'') W_cpp_hashnode,
      ptr (at g node ''cpp_identifier.spelling'') W_cpp_hashnode]
     [])]"

definition do_cpp_token :: "gcc \<Rightarrow> nat \<Rightarrow> bool \<Rightarrow> addr \<Rightarrow> step list" where
  "do_cpp_token g m flag node = [Enter node flag (switch_mode m
     (Loc (at g node ''cpp_token.src_loc'') #
      (case g_token_fld g (node + g_size g ''cpp_token'') of
         CPP_TOKEN_FLD_NODE \<Rightarrow> do_cpp_identifier g m False (at g node ''cpp_token.val.node'')
       | CPP_TOKEN_FLD_SOURCE \<Rightarrow> [ptr (at g node ''cpp_token.val.source'') W_cpp_token]
       | CPP_TOKEN_FLD_STR \<Rightarrow> do_cpp_string g m False (at g node ''cpp_token.val.str'')
       | CPP_TOKEN_FLD_ARG_NO \<Rightarrow> do_cpp_marco_arg g m False (at g node ''cpp_token.val.macro_arg'')
       | CPP_TOKEN_FLD_TOKEN_NO \<Rightarrow> []
       | CPP_TOKEN_FLD_PRAGMA \<Rightarrow> []
       | CPP_TOKEN_FLD_other \<Rightarrow> [BUG]))
     [])]"

definition macro_params :: "gcc \<Rightarrow> addr \<Rightarrow> addr \<Rightarrow> step list" where
  "macro_params g node params =
     loop (g_get g ''cpp_macro.paramc'' node) (\<lambda>i. [ptr (params + 8 * i) W_cpp_hashnode])"

definition macro_tokens :: "gcc \<Rightarrow> nat \<Rightarrow> addr \<Rightarrow> step" where
  "macro_tokens g m node =
     Load (at g node ''cpp_macro.exp.tokens'') (\<lambda>tokens.
       if tokens = 0 then []
       else [Blob (at g node ''cpp_macro.exp.tokens''),
             Load (at g node ''cpp_macro.exp.tokens'') (\<lambda>tokens.
               loop (g_get g ''cpp_macro.count'' node) (\<lambda>i.
                 do_cpp_token g m False (tokens + g_size g ''cpp_token'' * i)))])"

definition macro_text :: "gcc \<Rightarrow> addr \<Rightarrow> step" where
  "macro_text g node =
     Load (at g node ''cpp_macro.exp.text'') (\<lambda>text.
       if text = 0 then [] else [Blob (at g node ''cpp_macro.exp.text'')])"

definition do_cpp_macro_8 :: "gcc \<Rightarrow> nat \<Rightarrow> bool \<Rightarrow> addr \<Rightarrow> step list" where
  "do_cpp_macro_8 g m flag node = [Enter node flag (switch_mode m
     [Loc (at g node ''cpp_macro.line''),
      Load (at g node ''cpp_macro.params'') (\<lambda>params.
        if params = 0 then []
        else [Blob (at g node ''cpp_macro.params''),
              Load (at g node ''cpp_macro.params'') (macro_params g node)]),
      (if g_get g ''cpp_macro.traditional'' node = 0 then macro_tokens g m node
       else if g_get g ''cpp_macro.traditional'' node = 1 then macro_text g node
       else BUG)]
     [])]"

definition do_cpp_macro_9 :: "gcc \<Rightarrow> nat \<Rightarrow> bool \<Rightarrow> addr \<Rightarrow> step list" where
  "do_cpp_macro_9 g m flag node = [Enter node flag (switch_mode m
     [Loc (at g node ''cpp_macro.line''),
      (if g_macro_kind g node = cmk_assert
       then ptr (at g node ''cpp_macro.parm.next'') W_cpp_macro
       else Load (at g node ''cpp_macro.parm.params'') (\<lambda>addr.
              if addr = 0 then []
              else Real (at g node ''cpp_macro.parm.params'') [Chk addr] # macro_params g node addr)),
      (if g_macro_kind g node = cmk_traditional then macro_text g node
       else macro_tokens g m node)]
     [])]"

definition do_cpp_macro :: "gcc \<Rightarrow> nat \<Rightarrow> bool \<Rightarrow> addr \<Rightarrow> step list" where
  "do_cpp_macro g m flag node =
     (if g_version g < 9 then do_cpp_macro_8 g m flag node else do_cpp_macro_9 g m flag node)"

definition do_answer :: "gcc \<Rightarrow> nat \<Rightarrow> bool \<Rightarrow> addr \<Rightarrow> step list" where
  "do_answer g m flag node = [Enter node flag (switch_mode m
     (ptr (at g node ''answer.next'') W_answer #
      loop (g_get g ''answer.count'' node) (\<lambda>i.
        do_cpp_token g m False (at g node ''answer.first'' + g_size g ''cpp_token'' * i)))
     [])]"

definition do_base :: "gcc \<Rightarrow> nat \<Rightarrow> bool \<Rightarrow> addr \<Rightarrow> step list" where
  "do_base g m flag node = [Enter node False (switch_mode m [] [])]"

definition do_typed :: "gcc \<Rightarrow> nat \<Rightarrow> bool \<Rightarrow> addr \<Rightarrow> step list" where
  "do_typed g m flag node = [Enter node flag (switch_mode m
     (do_base g m False (at g node ''tree_typed.base'') @
      [ptr (at g node ''tree_typed.type'') W_tree])
     [])]"

definition do_common :: "gcc \<Rightarrow> nat \<Rightarrow> bool \<Rightarrow> addr \<Rightarrow> step list" where
  "do_common g m flag node = [Enter node flag (switch_mode m
     (do_typed g m False (at g node ''tree_common.typed'') @
      [ptr (at g node ''tree_common.chain'') W_tree])
     [])]"

definition do_c_common_identifier :: "gcc \<Rightarrow> nat \<Rightarrow> bool \<Rightarrow> addr \<Rightarrow> step list" where
  "do_c_common_identifier g m flag node = [Enter node flag (switch_mode m
     (do_common g m False (at g node ''c_common_identifier.common'') @
      do_cpp_hashnode g m False (at g node ''c_common_identifier.node''))
     [])]"

definition do_real_value :: "gcc \<Rightarrow> nat \<Rightarrow> bool \<Rightarrow> addr \<Rightarrow> step list" where
  "do_real_value g m flag node = [Enter node flag []]"

definition do_sorted_fields_type :: "gcc \<Rightarrow> nat \<Rightarrow> bool \<Rightarrow> addr \<Rightarrow> step list" where
  "do_sorted_fields_type g m flag node = [Enter node flag
     ((if g_get g ''sorted_fields_type.len'' node = 0 then [BUG] else []) @
      switch_mode m
        (loop (g_get g ''sorted_fields_type.len'' node) (\<lambda>i.
           [ptr (at g node ''sorted_fields_type.elts'' + 8 * i) W_tree]))
        [])]"

definition do_c_lang_type :: "gcc \<Rightarrow> nat \<Rightarrow> bool \<Rightarrow> addr \<Rightarrow> step list" where
  "do_c_lang_type g m flag node = [Enter node flag (switch_mode m
     [ptr (at g node ''c_lang_type.s'') W_sorted_fields_type,
      ptr (at g node ''c_lang_type.enum_min'') W_tree,
      ptr (at g node ''c_lang_type.enum_max'') W_tree,
      ptr (at g node ''c_lang_type.objc_info'') W_tree]
     [])]"

definition do_c_lang_decl :: "gcc \<Rightarrow> nat \<Rightarrow> bool \<Rightarrow> addr \<Rightarrow> step list" where
  "do_c_lang_decl g m flag node = [Enter node flag []]"

definition do_symtab_node :: "gcc \<Rightarrow> nat \<Rightarrow> bool \<Rightarrow> addr \<Rightarrow> step list" where
  "do_symtab_node g m flag node = [Enter node flag (switch_mode m
     [ptr (at g node ''symtab_node.decl'') W_tree,
      ptr (at g node ''symtab_node.next'') W_symtab_node,
      ptr (at g node ''symtab_node.previous'') W_symtab_node,
      ptr (at g node ''symtab_node.next_sharing_asm_name'') W_symtab_node,
      ptr (at g node ''symtab_node.previous_sharing_asm_name'') W_symtab_node,
      ptr (at g node ''symtab_node.same_comdat_group'') W_symtab_node,
      ptr (at g node ''symtab_node.alias_target'') W_tree,
      ptr (at g node ''symtab_node.x_comdat_group'') W_tree]
     [])]"

definition do_stmt_tree_s :: "gcc \<Rightarrow> nat \<Rightarrow> bool \<Rightarrow> addr \<Rightarrow> step list" where
  "do_stmt_tree_s g m flag node = [Enter node flag (switch_mode m
     [ptr (at g node ''stmt_tree_s.x_cur_stmt_list'') W_vec_tree]
     [])]"

definition do_c_language_function :: "gcc \<Rightarrow> nat \<Rightarrow> bool \<Rightarrow> addr \<Rightarrow> step list" where
  "do_c_language_function g m flag node = [Enter node flag (switch_mode m
     (do_stmt_tree_s g m False (at g node ''c_language_function.x_stmt_tree'') @
      [ptr (at g node ''c_language_function.local_typedefs'') W_vec_tree])
     [])]"

definition do_splay_tree_node_s :: "gcc \<Rightarrow> nat \<Rightarrow> bool \<Rightarrow> addr \<Rightarrow> step list" where
  "do_splay_tree_node_s g m flag node = [Enter node flag (switch_mode m
     [ptr (at g node ''splay_tree_node_s.left'') W_splay_tree_node_s,
      ptr (at g node ''splay_tree_node_s.right'') W_splay_tree_node_s]
     [])]"

definition do_splay_tree_s :: "gcc \<Rightarrow> nat \<Rightarrow> bool \<Rightarrow> addr \<Rightarrow> step list" where
  "do_splay_tree_s g m flag node = [Enter node flag (switch_mode m
     [ptr (at g node ''splay_tree_s.root'') W_splay_tree_node_s]
     [])]"

definition do_c_switch :: "gcc \<Rightarrow> nat \<Rightarrow> bool \<Rightarrow> addr \<Rightarrow> step list" where
  "do_c_switch g m flag node = [Enter node flag (switch_mode m
     [ptr (at g node ''c_switch.switch_expr'') W_tree,
      ptr (at g node ''c_switch.orig_type'') W_tree,
      ptr (at g node ''c_switch.cases'') W_splay_tree_s,
      ptr (at g node ''c_switch.bindings'') W_c_spot_bindings,
      ptr (at g node ''c_switch.next'') W_c_switch]
     [])]"

definition do_c_arg_tag :: "gcc \<Rightarrow> nat \<Rightarrow> bool \<Rightarrow> addr \<Rightarrow> step list" where
  "do_c_arg_tag g m flag node = [Enter node flag (switch_mode m
     [ptr (at g node ''node.id'') W_tree,
      ptr (at g node ''node.type'') W_tree]
     [])]"

definition do_vec_c_arg_tag :: "gcc \<Rightarrow> nat \<Rightarrow> bool \<Rightarrow> addr \<Rightarrow> step list" where
  "do_vec_c_arg_tag g m flag node = [Enter node flag (switch_mode m
     ((if vec_len g node = 0 then [BUG] else []) @
      loop (vec_len g node) (\<lambda>i. do_c_arg_tag g m False (elt_at g node ''c_arg_tag'' i)))
     [])]"

definition do_c_arg_info :: "gcc \<Rightarrow> nat \<Rightarrow> bool \<Rightarrow> addr \<Rightarrow> step list" where
  "do_c_arg_info g m flag node = [Enter node flag (switch_mode m
     [ptr (at g node ''c_arg_info.parms'') W_tree,
      ptr (at g node ''c_arg_info.tags'') W_vec_c_arg_tag,
      ptr (at g node ''c_arg_info.types'') W_tree,
      ptr (at g node ''c_arg_info.others'') W_tree,
      ptr (at g node ''c_arg_info.pending_sizes'') W_tree]
     [])]"

definition do_language_function :: "gcc \<Rightarrow> nat \<Rightarrow> bool \<Rightarrow> addr \<Rightarrow> step list" where
  "do_language_function g m flag node = [Enter node flag (switch_mode m
     (do_c_language_function g m False (at g node ''language_function.base'') @
      [ptr (at g node ''language_function.x_break_label'') W_tree,
       ptr (at g node ''language_function.x_cont_label'') W_tree,
       ptr (at g node ''language_function.x_switch_stack'') W_c_switch,
       ptr (at g node ''language_function.arg_info'') W_c_arg_info])
     [])]"

end
