(* ===== verification/Walk_Gimple.thy ===== *)
theory Walk_Gimple
  imports Walk_Lang
begin

text \<open>
  The walkers of the gimple statements, one per structure of a statement, and the dispatch on
  the code of a statement. They do not look at the mode: only \<open>do_gimple_seq\<close> calls them, in
  mode adjust.
\<close>

definition do_gimple_base :: "gcc \<Rightarrow> nat \<Rightarrow> bool \<Rightarrow> addr \<Rightarrow> step list" where
  "do_gimple_base g m flag gs = [Enter gs flag (
     [Loc (at g gs ''gimple.location''),
      ptr (at g gs ''gimple.bb'') W_basic_block,
      ptr (at g gs ''gimple.next'') W_gimple_seq,
      ptr (at g gs ''gimple.prev'') W_gimple_seq])]"

definition do_ssa_use_operand :: "gcc \<Rightarrow> nat \<Rightarrow> bool \<Rightarrow> addr \<Rightarrow> step list" where
  "do_ssa_use_operand g m flag node = [Enter node flag (switch_mode m
     [ptr (at g node ''ssa_use_operand_t.prev'') W_ssa_use_operand,
      ptr (at g node ''ssa_use_operand_t.next'') W_ssa_use_operand,
      Load (at g node ''ssa_use_operand_t.use'') (\<lambda>u.
        if u \<noteq> 0
        then [ptr (at g node ''ssa_use_operand_t.loc.stmt'') W_gimple_seq,
              ptr (at g node ''ssa_use_operand_t.use'') W_tree_p]
        else [ptr (at g node ''ssa_use_operand_t.loc.ssa_name'') W_tree])]
     [Go W_ssa_use_operand (at g node ''ssa_use_operand_t.prev''),
      Go W_ssa_use_operand (at g node ''ssa_use_operand_t.next''),
      Load (at g node ''ssa_use_operand_t.use'') (\<lambda>u.
        if u \<noteq> 0
        then [Go W_gimple_seq (at g node ''ssa_use_operand_t.loc.stmt''),
              Go W_tree_p (at g node ''ssa_use_operand_t.use'')]
        else [Go W_tree (at g node ''ssa_use_operand_t.loc.ssa_name'')])])]"

definition do_use_optype_d :: "gcc \<Rightarrow> nat \<Rightarrow> bool \<Rightarrow> addr \<Rightarrow> step list" where
  "do_use_optype_d g m flag node = [Enter node flag (
     [ptr (at g node ''use_optype_d.next'') W_use_optype_d] @
     do_ssa_use_operand g m False (at g node ''use_optype_d.use_ptr''))]"

definition do_gs_with_ops_base :: "gcc \<Rightarrow> nat \<Rightarrow> bool \<Rightarrow> addr \<Rightarrow> step list" where
  "do_gs_with_ops_base g m flag gs = [Enter gs flag (
     do_gimple_base g m False gs @
     [ptr (at g gs ''gimple_statement_with_ops_base.use_ops'') W_use_optype_d])]"

definition do_gs_ops :: "gcc \<Rightarrow> addr \<Rightarrow> step list" where
  "do_gs_ops g gs = loop (g_get g ''gimple_num_ops'' gs) (\<lambda>i. [ptr (g_get g ''gimple_ops'' gs + 8 * i) W_tree])"

definition do_gs_with_ops :: "gcc \<Rightarrow> nat \<Rightarrow> bool \<Rightarrow> addr \<Rightarrow> step list" where
  "do_gs_with_ops g m flag gs = [Enter gs flag (
     do_gs_with_ops_base g m False gs @
     do_gs_ops g gs)]"

definition do_gs_with_mem_ops_base :: "gcc \<Rightarrow> nat \<Rightarrow> bool \<Rightarrow> addr \<Rightarrow> step list" where
  "do_gs_with_mem_ops_base g m flag gs = [Enter gs flag (
     do_gs_with_ops_base g m False gs @
     [ptr (at g gs ''gimple_statement_with_memory_ops_base.vdef'') W_tree,
      ptr (at g gs ''gimple_statement_with_memory_ops_base.vuse'') W_tree])]"

definition do_gs_with_mem_ops :: "gcc \<Rightarrow> nat \<Rightarrow> bool \<Rightarrow> addr \<Rightarrow> step list" where
  "do_gs_with_mem_ops g m flag gs = [Enter gs flag (
     do_gs_with_mem_ops_base g m False gs @
     do_gs_ops g gs)]"

definition do_gcall :: "gcc \<Rightarrow> nat \<Rightarrow> bool \<Rightarrow> addr \<Rightarrow> step list" where
  "do_gcall g m flag gs = [Enter gs flag
     (do_gs_with_mem_ops_base g m False gs @
      (if g_get g ''gimple.subcode & GF_CALL_INTERNAL'' gs = 0
       then [ptr (at g gs ''gcall.u.fntype'') W_tree] else []) @
      do_gs_ops g gs)]"

definition do_gs_omp :: "gcc \<Rightarrow> nat \<Rightarrow> bool \<Rightarrow> addr \<Rightarrow> step list" where
  "do_gs_omp g m flag gs = [Enter gs flag (
     do_gimple_base g m False gs @
     [ptr (at g gs ''gimple_statement_omp.body'') W_gimple_seq])]"

definition do_gbind :: "gcc \<Rightarrow> nat \<Rightarrow> bool \<Rightarrow> addr \<Rightarrow> step list" where
  "do_gbind g m flag gs = [Enter gs flag (
     do_gimple_base g m False gs @
     [ptr (at g gs ''gbind.vars'') W_tree,
      ptr (at g gs ''gbind.block'') W_tree,
      ptr (at g gs ''gbind.body'') W_gimple_seq])]"

definition do_gcatch :: "gcc \<Rightarrow> nat \<Rightarrow> bool \<Rightarrow> addr \<Rightarrow> step list" where
  "do_gcatch g m flag gs = [Enter gs flag (
     do_gimple_base g m False gs @
     [ptr (at g gs ''gcatch.types'') W_tree,
      ptr (at g gs ''gcatch.handler'') W_gimple_seq])]"

definition do_geh_filter :: "gcc \<Rightarrow> nat \<Rightarrow> bool \<Rightarrow> addr \<Rightarrow> step list" where
  "do_geh_filter g m flag gs = [Enter gs flag (
     do_gimple_base g m False gs @
     [ptr (at g gs ''geh_filter.types'') W_tree,
      ptr (at g gs ''geh_filter.failure'') W_gimple_seq])]"

definition do_geh_else :: "gcc \<Rightarrow> nat \<Rightarrow> bool \<Rightarrow> addr \<Rightarrow> step list" where
  "do_geh_else g m flag gs = [Enter gs flag (
     do_gimple_base g m False gs @
     [ptr (at g gs ''geh_else.n_body'') W_gimple_seq,
      ptr (at g gs ''geh_else.e_body'') W_gimple_seq])]"

definition do_geh_mnt :: "gcc \<Rightarrow> nat \<Rightarrow> bool \<Rightarrow> addr \<Rightarrow> step list" where
  "do_geh_mnt g m flag gs = [Enter gs flag (
     do_gimple_base g m False gs @
     [ptr (at g gs ''geh_mnt.fndecl'') W_tree])]"

definition do_phi_arg_d :: "gcc \<Rightarrow> nat \<Rightarrow> bool \<Rightarrow> addr \<Rightarrow> step list" where
  "do_phi_arg_d g m flag node = [Enter node flag (
     do_ssa_use_operand g m False (at g node ''phi_arg_d.imm_use'') @
     [ptr (at g node ''phi_arg_d.def'') W_tree])]"

definition do_gphi :: "gcc \<Rightarrow> nat \<Rightarrow> bool \<Rightarrow> addr \<Rightarrow> step list" where
  "do_gphi g m flag gs = [Enter gs flag
     (do_gimple_base g m False gs @
      [ptr (at g gs ''gphi.result'') W_tree] @
      loop (g_get g ''gphi.nargs'' gs) (\<lambda>i.
        do_phi_arg_d g m False (at g gs ''gphi.args'' + g_size g ''phi_arg_d'' * i)))]"

definition do_gs_eh_ctrl :: "gcc \<Rightarrow> nat \<Rightarrow> bool \<Rightarrow> addr \<Rightarrow> step list" where
  "do_gs_eh_ctrl g m flag gs = [Enter gs flag (
     do_gimple_base g m False gs)]"

definition do_gresx :: "gcc \<Rightarrow> nat \<Rightarrow> bool \<Rightarrow> addr \<Rightarrow> step list" where
  "do_gresx g m flag gs = [Enter gs flag (
     do_gs_eh_ctrl g m False gs)]"

definition do_geh_dispatch :: "gcc \<Rightarrow> nat \<Rightarrow> bool \<Rightarrow> addr \<Rightarrow> step list" where
  "do_geh_dispatch g m flag gs = [Enter gs flag (
     do_gs_eh_ctrl g m False gs)]"

definition do_gtry :: "gcc \<Rightarrow> nat \<Rightarrow> bool \<Rightarrow> addr \<Rightarrow> step list" where
  "do_gtry g m flag gs = [Enter gs flag (
     do_gimple_base g m False gs @
     [ptr (at g gs ''gtry.eval'') W_gimple_seq,
      ptr (at g gs ''gtry.cleanup'') W_gimple_seq])]"

definition do_gs_wce :: "gcc \<Rightarrow> nat \<Rightarrow> bool \<Rightarrow> addr \<Rightarrow> step list" where
  "do_gs_wce g m flag gs = [Enter gs flag (
     do_gimple_base g m False gs @
     [ptr (at g gs ''gimple_statement_wce.cleanup'') W_gimple_seq])]"

definition do_gasm :: "gcc \<Rightarrow> nat \<Rightarrow> bool \<Rightarrow> addr \<Rightarrow> step list" where
  "do_gasm g m flag gs = [Enter gs flag (
     do_gs_with_mem_ops_base g m False gs @
     [Blob (at g gs ''gasm.string'')] @
     do_gs_ops g gs)]"

definition do_gomp_critical :: "gcc \<Rightarrow> nat \<Rightarrow> bool \<Rightarrow> addr \<Rightarrow> step list" where
  "do_gomp_critical g m flag gs = [Enter gs flag (
     do_gs_omp g m False gs @
     [ptr (at g gs ''gomp_critical.clauses'') W_tree,
      ptr (at g gs ''gomp_critical.name'') W_tree])]"

definition do_gomp_for_iter :: "gcc \<Rightarrow> nat \<Rightarrow> bool \<Rightarrow> addr \<Rightarrow> step list" where
  "do_gomp_for_iter g m flag node = [Enter node flag (
     [ptr (at g node ''gimple_omp_for_iter.index'') W_tree,
      ptr (at g node ''gimple_omp_for_iter.initial'') W_tree,
      ptr (at g node ''gimple_omp_for_iter.final'') W_tree,
      ptr (at g node ''gimple_omp_for_iter.incr'') W_tree])]"

definition do_gomp_for :: "gcc \<Rightarrow> nat \<Rightarrow> bool \<Rightarrow> addr \<Rightarrow> step list" where
  "do_gomp_for g m flag gs = [Enter gs flag (
     do_gs_omp g m False gs @
     [ptr (at g gs ''gomp_for.clauses'') W_tree,
      ptr (at g gs ''gomp_for.iter'') W_gomp_for_iter,
      ptr (at g gs ''gomp_for.pre_body'') W_gimple_seq])]"

definition do_gs_omp_parallel_layout :: "gcc \<Rightarrow> nat \<Rightarrow> bool \<Rightarrow> addr \<Rightarrow> step list" where
  "do_gs_omp_parallel_layout g m flag gs = [Enter gs flag (
     do_gs_omp g m False gs @
     [ptr (at g gs ''gimple_statement_omp_parallel_layout.clauses'') W_tree,
      ptr (at g gs ''gimple_statement_omp_parallel_layout.child_fn'') W_tree,
      ptr (at g gs ''gimple_statement_omp_parallel_layout.data_arg'') W_tree])]"

definition do_gs_omp_taskreg :: "gcc \<Rightarrow> nat \<Rightarrow> bool \<Rightarrow> addr \<Rightarrow> step list" where
  "do_gs_omp_taskreg g m flag gs = [Enter gs flag (
     do_gs_omp_parallel_layout g m False gs)]"

definition do_gomp_parallel :: "gcc \<Rightarrow> nat \<Rightarrow> bool \<Rightarrow> addr \<Rightarrow> step list" where
  "do_gomp_parallel g m flag gs = [Enter gs flag (
     do_gs_omp_taskreg g m False gs)]"

definition do_gomp_target :: "gcc \<Rightarrow> nat \<Rightarrow> bool \<Rightarrow> addr \<Rightarrow> step list" where
  "do_gomp_target g m flag gs = [Enter gs flag (
     do_gs_omp_parallel_layout g m False gs)]"

definition do_gomp_task :: "gcc \<Rightarrow> nat \<Rightarrow> bool \<Rightarrow> addr \<Rightarrow> step list" where
  "do_gomp_task g m flag gs = [Enter gs flag (
     do_gs_omp_taskreg g m False gs @
     [ptr (at g gs ''gomp_task.copy_fn'') W_tree,
      ptr (at g gs ''gomp_task.arg_size'') W_tree,
      ptr (at g gs ''gomp_task.arg_align'') W_tree])]"

definition do_gomp_sections :: "gcc \<Rightarrow> nat \<Rightarrow> bool \<Rightarrow> addr \<Rightarrow> step list" where
  "do_gomp_sections g m flag gs = [Enter gs flag (
     do_gs_omp g m False gs @
     [ptr (at g gs ''gomp_sections.clauses'') W_tree,
      ptr (at g gs ''gomp_sections.control'') W_tree])]"

definition do_gomp_continue :: "gcc \<Rightarrow> nat \<Rightarrow> bool \<Rightarrow> addr \<Rightarrow> step list" where
  "do_gomp_continue g m flag gs = [Enter gs flag (
     do_gimple_base g m False gs @
     [ptr (at g gs ''gomp_continue.control_def'') W_tree,
      ptr (at g gs ''gomp_continue.control_use'') W_tree])]"

definition do_gs_omp_single_layout :: "gcc \<Rightarrow> nat \<Rightarrow> bool \<Rightarrow> addr \<Rightarrow> step list" where
  "do_gs_omp_single_layout g m flag gs = [Enter gs flag (
     do_gs_omp g m False gs @
     [ptr (at g gs ''gimple_statement_omp_single_layout.clauses'') W_tree])]"

definition do_gomp_single :: "gcc \<Rightarrow> nat \<Rightarrow> bool \<Rightarrow> addr \<Rightarrow> step list" where
  "do_gomp_single g m flag gs = [Enter gs flag (
     do_gs_omp_single_layout g m False gs)]"

definition do_gomp_teams :: "gcc \<Rightarrow> nat \<Rightarrow> bool \<Rightarrow> addr \<Rightarrow> step list" where
  "do_gomp_teams g m flag gs = [Enter gs flag (
     do_gs_omp_single_layout g m False gs)]"

definition do_gomp_ordered :: "gcc \<Rightarrow> nat \<Rightarrow> bool \<Rightarrow> addr \<Rightarrow> step list" where
  "do_gomp_ordered g m flag gs = [Enter gs flag (
     do_gs_omp_single_layout g m False gs)]"

definition do_gomp_atomic_load :: "gcc \<Rightarrow> nat \<Rightarrow> bool \<Rightarrow> addr \<Rightarrow> step list" where
  "do_gomp_atomic_load g m flag gs = [Enter gs flag (
     do_gimple_base g m False gs @
     [ptr (at g gs ''gomp_atomic_load.rhs'') W_tree,
      ptr (at g gs ''gomp_atomic_load.lhs'') W_tree])]"

definition do_gs_omp_atomic_store_layout :: "gcc \<Rightarrow> nat \<Rightarrow> bool \<Rightarrow> addr \<Rightarrow> step list" where
  "do_gs_omp_atomic_store_layout g m flag gs = [Enter gs flag (
     do_gimple_base g m False gs @
     [ptr (at g gs ''gimple_statement_omp_atomic_store_layout.val'') W_tree])]"

definition do_gomp_atomic_store :: "gcc \<Rightarrow> nat \<Rightarrow> bool \<Rightarrow> addr \<Rightarrow> step list" where
  "do_gomp_atomic_store g m flag gs = [Enter gs flag (
     do_gs_omp_atomic_store_layout g m False gs)]"

definition do_gs_omp_return :: "gcc \<Rightarrow> nat \<Rightarrow> bool \<Rightarrow> addr \<Rightarrow> step list" where
  "do_gs_omp_return g m flag gs = [Enter gs flag (
     do_gs_omp_atomic_store_layout g m False gs)]"

definition do_gtransaction :: "gcc \<Rightarrow> nat \<Rightarrow> bool \<Rightarrow> addr \<Rightarrow> step list" where
  "do_gtransaction g m flag gs = [Enter gs flag (
     do_gs_with_mem_ops_base g m False gs @
     [ptr (at g gs ''gtransaction.body'') W_gimple_seq,
      ptr (at g gs ''gtransaction.label_norm'') W_tree,
      ptr (at g gs ''gtransaction.label_uninst'') W_tree,
      ptr (at g gs ''gtransaction.label_over'') W_tree])]"

definition do_gcond :: "gcc \<Rightarrow> nat \<Rightarrow> bool \<Rightarrow> addr \<Rightarrow> step list" where
  "do_gcond g m flag gs = [Enter gs flag (
     do_gs_with_ops g m False gs)]"

definition do_gdebug :: "gcc \<Rightarrow> nat \<Rightarrow> bool \<Rightarrow> addr \<Rightarrow> step list" where
  "do_gdebug g m flag gs = [Enter gs flag (
     do_gs_with_ops g m False gs)]"

definition do_ggoto :: "gcc \<Rightarrow> nat \<Rightarrow> bool \<Rightarrow> addr \<Rightarrow> step list" where
  "do_ggoto g m flag gs = [Enter gs flag (
     do_gs_with_ops g m False gs)]"

definition do_glabel :: "gcc \<Rightarrow> nat \<Rightarrow> bool \<Rightarrow> addr \<Rightarrow> step list" where
  "do_glabel g m flag gs = [Enter gs flag (
     do_gs_with_ops g m False gs)]"

definition do_gswitch :: "gcc \<Rightarrow> nat \<Rightarrow> bool \<Rightarrow> addr \<Rightarrow> step list" where
  "do_gswitch g m flag gs = [Enter gs flag (
     do_gs_with_ops g m False gs)]"

definition do_gassign :: "gcc \<Rightarrow> nat \<Rightarrow> bool \<Rightarrow> addr \<Rightarrow> step list" where
  "do_gassign g m flag gs = [Enter gs flag (
     do_gs_with_mem_ops g m False gs)]"

definition do_greturn :: "gcc \<Rightarrow> nat \<Rightarrow> bool \<Rightarrow> addr \<Rightarrow> step list" where
  "do_greturn g m flag gs = [Enter gs flag (
     do_gs_with_mem_ops g m False gs)]"

text \<open>\<open>do_gimple_seq\<close>: the dispatch on the code of a statement.\<close>

definition do_gimple_seq :: "gcc \<Rightarrow> nat \<Rightarrow> addr \<Rightarrow> step list" where
  "do_gimple_seq g m gs =
     (if gs = 0 then []
      else switch_mode m
        (case g_gimple_code g gs of
           GIMPLE_ASM \<Rightarrow> do_gasm g m True gs
         | GIMPLE_ASSIGN \<Rightarrow> do_gassign g m True gs
         | GIMPLE_CALL \<Rightarrow> do_gcall g m True gs
         | GIMPLE_COND \<Rightarrow> do_gcond g m True gs
         | GIMPLE_LABEL \<Rightarrow> do_glabel g m True gs
         | GIMPLE_GOTO \<Rightarrow> do_ggoto g m True gs
         | GIMPLE_NOP \<Rightarrow> do_gimple_base g m True gs
         | GIMPLE_RETURN \<Rightarrow> do_greturn g m True gs
         | GIMPLE_SWITCH \<Rightarrow> do_gswitch g m True gs
         | GIMPLE_PHI \<Rightarrow> do_gphi g m True gs
         | GIMPLE_OMP_PARALLEL \<Rightarrow> do_gomp_parallel g m True gs
         | GIMPLE_OMP_TASK \<Rightarrow> do_gomp_task g m True gs
         | GIMPLE_OMP_ATOMIC_LOAD \<Rightarrow> do_gomp_atomic_load g m True gs
         | GIMPLE_OMP_ATOMIC_STORE \<Rightarrow> do_gomp_atomic_store g m True gs
         | GIMPLE_OMP_FOR \<Rightarrow> do_gomp_for g m True gs
         | GIMPLE_OMP_CONTINUE \<Rightarrow> do_gomp_continue g m True gs
         | GIMPLE_OMP_SINGLE \<Rightarrow> do_gomp_single g m True gs
         | GIMPLE_OMP_TARGET \<Rightarrow> do_gomp_target g m True gs
         | GIMPLE_OMP_TEAMS \<Rightarrow> do_gomp_teams g m True gs
         | GIMPLE_OMP_RETURN \<Rightarrow> do_gs_omp_return g m True gs
         | GIMPLE_OMP_SECTIONS \<Rightarrow> do_gomp_sections g m True gs
         | GIMPLE_OMP_SECTIONS_SWITCH \<Rightarrow> do_gimple_base g m True gs
         | GIMPLE_OMP_MASTER \<Rightarrow> do_gs_omp g m True gs
         | GIMPLE_OMP_TASKGROUP \<Rightarrow> do_gs_omp g m True gs
         | GIMPLE_OMP_SECTION \<Rightarrow> do_gs_omp g m True gs
         | GIMPLE_OMP_GRID_BODY \<Rightarrow> do_gs_omp g m True gs
         | GIMPLE_OMP_ORDERED \<Rightarrow> do_gomp_ordered g m True gs
         | GIMPLE_OMP_CRITICAL \<Rightarrow> do_gomp_critical g m True gs
         | GIMPLE_BIND \<Rightarrow> do_gbind g m True gs
         | GIMPLE_TRY \<Rightarrow> do_gtry g m True gs
         | GIMPLE_CATCH \<Rightarrow> do_gcatch g m True gs
         | GIMPLE_EH_FILTER \<Rightarrow> do_geh_filter g m True gs
         | GIMPLE_EH_MUST_NOT_THROW \<Rightarrow> do_geh_mnt g m True gs
         | GIMPLE_EH_ELSE \<Rightarrow> do_geh_else g m True gs
         | GIMPLE_RESX \<Rightarrow> do_gresx g m True gs
         | GIMPLE_EH_DISPATCH \<Rightarrow> do_geh_dispatch g m True gs
         | GIMPLE_DEBUG \<Rightarrow> do_gdebug g m True gs
         | GIMPLE_PREDICT \<Rightarrow> do_gimple_base g m True gs
         | GIMPLE_TRANSACTION \<Rightarrow> do_gtransaction g m True gs
         | Other_gimple n \<Rightarrow> [BUG])
        [])"

end
