(* ===== verification/Walk_Cfg.thy ===== *)
theory Walk_Cfg
  imports Walk_Lang
begin

text \<open>
  The walkers of the control flow graph of a function: edges, loops, blocks, the SSA tables,
  the value histograms, and the function structure that owns them.
\<close>

definition do_edge :: "gcc \<Rightarrow> nat \<Rightarrow> bool \<Rightarrow> addr \<Rightarrow> step list" where
  "do_edge g m flag node = [Enter node flag (switch_mode m
     [Loc (at g node ''edge_def.goto_locus''),
      ptr (at g node ''edge_def.src'') W_basic_block,
      ptr (at g node ''edge_def.dest'') W_basic_block,
      ptr (at g node ''edge_def.insns.g'') W_gimple_seq]
     [Go W_basic_block (at g node ''edge_def.src''),
      Go W_basic_block (at g node ''edge_def.dest''),
      Go W_gimple_seq (at g node ''edge_def.insns.g'')])]"

definition do_vec_edge :: "gcc \<Rightarrow> nat \<Rightarrow> bool \<Rightarrow> addr \<Rightarrow> step list" where
  "do_vec_edge g m flag node = [Enter node flag (switch_mode m
     (loop (vec_len g node) (\<lambda>i. [ptr (vec_slot g node i) W_edge]))
     (loop (vec_len g node) (\<lambda>i. [Go W_edge (vec_slot g node i)])))]"

definition do_nb_iter_bound :: "gcc \<Rightarrow> nat \<Rightarrow> bool \<Rightarrow> addr \<Rightarrow> step list" where
  "do_nb_iter_bound g m flag node = [Enter node flag (switch_mode m
     [ptr (at g node ''nb_iter_bound.stmt'') W_gimple_seq,
      ptr (at g node ''nb_iter_bound.next'') W_nb_iter_bound]
     [Go W_gimple_seq (at g node ''nb_iter_bound.stmt''),
      Go W_nb_iter_bound (at g node ''nb_iter_bound.next'')])]"

definition do_control_iv :: "gcc \<Rightarrow> nat \<Rightarrow> bool \<Rightarrow> addr \<Rightarrow> step list" where
  "do_control_iv g m flag node = [Enter node flag (switch_mode m
     [ptr (at g node ''control_iv.base'') W_tree,
      ptr (at g node ''control_iv.step'') W_tree,
      ptr (at g node ''control_iv.next'') W_control_iv]
     [Go W_tree (at g node ''control_iv.base''),
      Go W_tree (at g node ''control_iv.step''),
      Go W_control_iv (at g node ''control_iv.next'')])]"

definition do_loop_exit :: "gcc \<Rightarrow> nat \<Rightarrow> bool \<Rightarrow> addr \<Rightarrow> step list" where
  "do_loop_exit g m flag node = [Enter node flag (switch_mode m
     [ptr (at g node ''loop_exit.e'') W_edge,
      ptr (at g node ''loop_exit.prev'') W_loop_exit,
      ptr (at g node ''loop_exit.next'') W_loop_exit,
      ptr (at g node ''loop_exit.next_e'') W_loop_exit]
     [Go W_edge (at g node ''loop_exit.e''),
      Go W_loop_exit (at g node ''loop_exit.prev''),
      Go W_loop_exit (at g node ''loop_exit.next''),
      Go W_loop_exit (at g node ''loop_exit.next_e'')])]"

definition do_niter_desc :: "gcc \<Rightarrow> nat \<Rightarrow> bool \<Rightarrow> addr \<Rightarrow> step list" where
  "do_niter_desc g m flag node = [Enter node flag (switch_mode m
     [ptr (at g node ''niter_desc.out_edge'') W_edge,
      ptr (at g node ''niter_desc.in_edge'') W_edge]
     [Go W_edge (at g node ''niter_desc.out_edge''),
      Go W_edge (at g node ''niter_desc.in_edge'')])]"

definition do_loop :: "gcc \<Rightarrow> nat \<Rightarrow> bool \<Rightarrow> addr \<Rightarrow> step list" where
  "do_loop g m flag node = [Enter node flag (switch_mode m
     [ptr (at g node ''loop.header'') W_basic_block,
      ptr (at g node ''loop.latch'') W_basic_block,
      ptr (at g node ''loop.superloops'') W_vec_loop,
      ptr (at g node ''loop.inner'') W_loop,
      ptr (at g node ''loop.next'') W_loop,
      ptr (at g node ''loop.nb_iterations'') W_tree,
      ptr (at g node ''loop.simduid'') W_tree,
      ptr (at g node ''loop.bounds'') W_nb_iter_bound,
      ptr (at g node ''loop.control_ivs'') W_control_iv,
      ptr (at g node ''loop.exits'') W_loop_exit,
      ptr (at g node ''loop.simple_loop_desc'') W_niter_desc,
      ptr (at g node ''loop.former_header'') W_basic_block]
     [Go W_basic_block (at g node ''loop.header''),
      Go W_basic_block (at g node ''loop.latch''),
      Go W_vec_loop (at g node ''loop.superloops''),
      Go W_loop (at g node ''loop.inner''),
      Go W_loop (at g node ''loop.next''),
      Go W_tree (at g node ''loop.nb_iterations''),
      Go W_tree (at g node ''loop.simduid''),
      Go W_nb_iter_bound (at g node ''loop.bounds''),
      Go W_control_iv (at g node ''loop.control_ivs''),
      Go W_loop_exit (at g node ''loop.exits''),
      Go W_niter_desc (at g node ''loop.simple_loop_desc''),
      Go W_basic_block (at g node ''loop.former_header'')])]"

definition do_vec_loop :: "gcc \<Rightarrow> nat \<Rightarrow> bool \<Rightarrow> addr \<Rightarrow> step list" where
  "do_vec_loop g m flag node = [Enter node flag (switch_mode m
     (loop (vec_len g node) (\<lambda>i. [ptr (vec_slot g node i) W_loop]))
     (loop (vec_len g node) (\<lambda>i. [Go W_loop (vec_slot g node i)])))]"

definition do_basic_block :: "gcc \<Rightarrow> nat \<Rightarrow> bool \<Rightarrow> addr \<Rightarrow> step list" where
  "do_basic_block g m flag node = [Enter node flag (switch_mode m
     [ptr (at g node ''basic_block_def.preds'') W_vec_edge,
      ptr (at g node ''basic_block_def.succs'') W_vec_edge,
      ptr (at g node ''basic_block_def.loop_father'') W_loop,
      ptr (at g node ''basic_block_def.prev_bb'') W_basic_block,
      ptr (at g node ''basic_block_def.next_bb'') W_basic_block,
      ptr (at g node ''basic_block_def.il.gimple.seq'') W_gimple_seq,
      ptr (at g node ''basic_block_def.il.gimple.phi_nodes'') W_gimple_seq]
     [Go W_vec_edge (at g node ''basic_block_def.preds''),
      Go W_vec_edge (at g node ''basic_block_def.succs''),
      Go W_loop (at g node ''basic_block_def.loop_father''),
      Go W_basic_block (at g node ''basic_block_def.prev_bb''),
      Go W_basic_block (at g node ''basic_block_def.next_bb''),
      Go W_gimple_seq (at g node ''basic_block_def.il.gimple.seq''),
      Go W_gimple_seq (at g node ''basic_block_def.il.gimple.phi_nodes'')])]"

definition do_vec_basic_block :: "gcc \<Rightarrow> nat \<Rightarrow> bool \<Rightarrow> addr \<Rightarrow> step list" where
  "do_vec_basic_block g m flag node = [Enter node flag (switch_mode m
     (loop (vec_len g node) (\<lambda>i. [ptr (vec_slot g node i) W_basic_block]))
     (loop (vec_len g node) (\<lambda>i. [Go W_basic_block (vec_slot g node i)])))]"

definition do_cfg :: "gcc \<Rightarrow> nat \<Rightarrow> bool \<Rightarrow> addr \<Rightarrow> step list" where
  "do_cfg g m flag node = [Enter node flag (switch_mode m
     [ptr (at g node ''control_flow_graph.x_entry_block_ptr'') W_basic_block,
      ptr (at g node ''control_flow_graph.x_exit_block_ptr'') W_basic_block,
      ptr (at g node ''control_flow_graph.x_basic_block_info'') W_vec_basic_block,
      ptr (at g node ''control_flow_graph.x_label_to_block_map'') W_vec_basic_block]
     [Go W_basic_block (at g node ''control_flow_graph.x_entry_block_ptr''),
      Go W_basic_block (at g node ''control_flow_graph.x_exit_block_ptr''),
      Go W_vec_basic_block (at g node ''control_flow_graph.x_basic_block_info''),
      Go W_vec_basic_block (at g node ''control_flow_graph.x_label_to_block_map'')])]"

definition do_ssa_operands :: "gcc \<Rightarrow> nat \<Rightarrow> bool \<Rightarrow> addr \<Rightarrow> step list" where
  "do_ssa_operands g m flag node = [Enter node flag (switch_mode m
     []
     [])]"

definition do_gimple_df :: "gcc \<Rightarrow> nat \<Rightarrow> bool \<Rightarrow> addr \<Rightarrow> step list" where
  "do_gimple_df g m flag node = [Enter node flag (switch_mode m
     ([ptr (at g node ''gimple_df.ssa_names'') W_vec_tree,
       ptr (at g node ''gimple_df.vop'') W_tree] @
      (if g_free_ssanames g
       then [ptr (at g node ''gimple_df.free_ssanames'') W_vec_tree,
             ptr (at g node ''gimple_df.free_ssanames_queue'') W_vec_tree]
       else []) @
      do_ssa_operands g m False (at g node ''gimple_df.ssa_operands''))
     ([Go W_vec_tree (at g node ''gimple_df.ssa_names''),
       Go W_tree (at g node ''gimple_df.vop'')] @
      (if g_free_ssanames g
       then [Go W_vec_tree (at g node ''gimple_df.free_ssanames''),
             Go W_vec_tree (at g node ''gimple_df.free_ssanames_queue'')]
       else []) @
      do_ssa_operands g m False (at g node ''gimple_df.ssa_operands'')))]"

definition do_loops :: "gcc \<Rightarrow> nat \<Rightarrow> bool \<Rightarrow> addr \<Rightarrow> step list" where
  "do_loops g m flag node = [Enter node flag (switch_mode m
     [ptr (at g node ''loops.larray'') W_vec_loop,
      ptr (at g node ''loops.tree_root'') W_loop]
     [Go W_vec_loop (at g node ''loops.larray''),
      Go W_loop (at g node ''loops.tree_root'')])]"

definition do_histogram_value :: "gcc \<Rightarrow> nat \<Rightarrow> addr \<Rightarrow> step list" where
  "do_histogram_value g m node = [Enter node True (switch_mode m
     [Blob (at g node ''histogram_value_t.hvalue.counters''),
      ptr (at g node ''histogram_value_t.fun'') W_function,
      ptr (at g node ''histogram_value_t.hvalue.value'') W_tree,
      ptr (at g node ''histogram_value_t.hvalue.stmt'') W_gimple_seq,
      ptr (at g node ''histogram_value_t.hvalue.next'') W_histogram_value]
     [Go W_function (at g node ''histogram_value_t.fun''),
      Go W_tree (at g node ''histogram_value_t.hvalue.value''),
      Go W_gimple_seq (at g node ''histogram_value_t.hvalue.stmt''),
      Go W_histogram_value (at g node ''histogram_value_t.hvalue.next'')])]"

text \<open>\<open>HTAB_EMPTY_ENTRY\<close> and \<open>HTAB_DELETED_ENTRY\<close> are the pointers 0 and 1.\<close>

definition do_histogram_values :: "gcc \<Rightarrow> nat \<Rightarrow> bool \<Rightarrow> addr \<Rightarrow> step list" where
  "do_histogram_values g m flag node = [Enter node flag (switch_mode m
     [Blob (at g node ''htab.entries''),
      Load (at g node ''htab.entries'') (\<lambda>entries.
        loop (g_get g ''htab.size'' node) (\<lambda>i.
          [Load (entries + 8 * i) (\<lambda>entry.
             if entry = 0 \<or> entry = 1 then [] else [ptr (entries + 8 * i) W_histogram_value])]))]
     [Load (at g node ''htab.entries'') (\<lambda>entries.
        loop (g_get g ''htab.size'' node) (\<lambda>i.
          [Load (entries + 8 * i) (\<lambda>entry.
             if entry = 0 \<or> entry = 1 then [] else [Call W_histogram_value entry])]))])]"

definition do_function :: "gcc \<Rightarrow> nat \<Rightarrow> bool \<Rightarrow> addr \<Rightarrow> step list" where
  "do_function g m flag node = [Enter node flag (switch_mode m
     ([Loc (at g node ''function.function_start_locus''),
       Loc (at g node ''function.function_end_locus''),
       ptr (at g node ''function.language'') W_language_function,
       ptr (at g node ''function.decl'') W_tree,
       ptr (at g node ''function.static_chain_decl'') W_tree,
       ptr (at g node ''function.nonlocal_goto_save_area'') W_tree,
       ptr (at g node ''function.local_decls'') W_vec_tree] @
      (if g_version g < 8 then [ptr (at g node ''function.cilk_frame_decl'') W_tree] else []) @
      [ptr (at g node ''function.gimple_body'') W_gimple_seq,
       ptr (at g node ''function.cfg'') W_cfg,
       ptr (at g node ''function.gimple_df'') W_gimple_df,
       ptr (at g node ''function.x_current_loops'') W_loops,
       ptr (at g node ''function.value_histograms'') W_histogram_values])
     ([Go W_language_function (at g node ''function.language''),
       Go W_tree (at g node ''function.decl''),
       Go W_tree (at g node ''function.static_chain_decl''),
       Go W_tree (at g node ''function.nonlocal_goto_save_area''),
       Go W_vec_tree (at g node ''function.local_decls'')] @
      (if g_version g < 8 then [Go W_tree (at g node ''function.cilk_frame_decl'')] else []) @
      [Go W_gimple_seq (at g node ''function.gimple_body''),
       Go W_cfg (at g node ''function.cfg''),
       Go W_gimple_df (at g node ''function.gimple_df''),
       Go W_loops (at g node ''function.x_current_loops''),
       Go W_histogram_values (at g node ''function.value_histograms'')]))]"

definition do_statement_list_node :: "gcc \<Rightarrow> nat \<Rightarrow> bool \<Rightarrow> addr \<Rightarrow> step list" where
  "do_statement_list_node g m flag node = [Enter node flag (switch_mode m
     [ptr (at g node ''tree_statement_list_node.prev'') W_statement_list_node,
      ptr (at g node ''tree_statement_list_node.next'') W_statement_list_node,
      ptr (at g node ''tree_statement_list_node.stmt'') W_tree]
     [])]"

end
