(* ===== verification/Walk_Tree.thy ===== *)
theory Walk_Tree
  imports Walk_Gimple Walk_Cfg
begin

text \<open>
  The walkers of the trees: constants, identifiers, expressions, types, declarations and SSA
  names, and \<open>do_tree\<close>, the dispatch on the code and class of a tree.
\<close>

definition do_string :: "gcc \<Rightarrow> nat \<Rightarrow> bool \<Rightarrow> addr \<Rightarrow> step list" where
  "do_string g m flag node = [Enter node flag (switch_mode m
     (do_typed g m False (at g node ''tree_string.typed''))
     [])]"

definition do_real_cst :: "gcc \<Rightarrow> nat \<Rightarrow> bool \<Rightarrow> addr \<Rightarrow> step list" where
  "do_real_cst g m flag node = [Enter node flag (switch_mode m
     (do_typed g m False (at g node ''tree_real_cst.typed'') @
      [ptr (at g node ''tree_real_cst.real_cst_ptr'') W_real_value])
     [])]"

definition do_int_cst :: "gcc \<Rightarrow> nat \<Rightarrow> bool \<Rightarrow> addr \<Rightarrow> step list" where
  "do_int_cst g m flag node = [Enter node flag (switch_mode m
     (do_typed g m False (at g node ''tree_int_cst.typed''))
     [])]"

definition do_identifier :: "gcc \<Rightarrow> nat \<Rightarrow> bool \<Rightarrow> addr \<Rightarrow> step list" where
  "do_identifier g m flag node = [Enter node flag (switch_mode m
     (do_common g m False (at g node ''tree_identifier.common'') @
      do_ht_identifier g m False (at g node ''tree_identifier.id''))
     [])]"

definition do_c_lang_identifier :: "gcc \<Rightarrow> nat \<Rightarrow> bool \<Rightarrow> addr \<Rightarrow> step list" where
  "do_c_lang_identifier g m flag node = [Enter node flag (switch_mode m
     (do_c_common_identifier g m False (at g node ''c_lang_identifier.common_id'') @
      (if g_collect_more g
       then [ptr (at g node ''c_lang_identifier.symbol_binding'') W_c_binding,
             ptr (at g node ''c_lang_identifier.tag_binding'') W_c_binding,
             ptr (at g node ''c_lang_identifier.label_binding'') W_c_binding]
       else []))
     [])]"

definition do_constructor :: "gcc \<Rightarrow> nat \<Rightarrow> bool \<Rightarrow> addr \<Rightarrow> step list" where
  "do_constructor g m flag node = [Enter node flag (switch_mode m
     (do_typed g m False (at g node ''tree_constructor.typed'') @
      [ptr (at g node ''tree_constructor.elts'') W_vec_constructor])
     (do_typed g m False (at g node ''tree_constructor.typed'') @
      [Go W_vec_constructor (at g node ''tree_constructor.elts'')]))]"

definition do_statement_list :: "gcc \<Rightarrow> nat \<Rightarrow> bool \<Rightarrow> addr \<Rightarrow> step list" where
  "do_statement_list g m flag node = [Enter node flag (switch_mode m
     (do_typed g m False (at g node ''tree_statement_list.typed'') @
      [ptr (at g node ''tree_statement_list.head'') W_statement_list_node,
       ptr (at g node ''tree_statement_list.tail'') W_statement_list_node])
     [])]"

definition do_block :: "gcc \<Rightarrow> nat \<Rightarrow> bool \<Rightarrow> addr \<Rightarrow> step list" where
  "do_block g m flag node = [Enter node flag (switch_mode m
     ([Loc (at g node ''tree_block.locus''),
       Loc (at g node ''tree_block.end_locus'')] @
      do_base g m False (at g node ''tree_block.base'') @
      [ptr (at g node ''tree_block.chain'') W_tree,
       ptr (at g node ''tree_block.vars'') W_tree,
       ptr (at g node ''tree_block.nonlocalized_vars'') W_vec_tree,
       ptr (at g node ''tree_block.subblocks'') W_tree,
       ptr (at g node ''tree_block.supercontext'') W_tree,
       ptr (at g node ''tree_block.abstract_origin'') W_tree,
       ptr (at g node ''tree_block.fragment_origin'') W_tree,
       ptr (at g node ''tree_block.fragment_chain'') W_tree])
     [])]"

definition exp_operand :: "gcc \<Rightarrow> addr \<Rightarrow> nat \<Rightarrow> addr" where
  "exp_operand g node i = at g node ''tree_exp.operands'' + 8 * i"

text \<open>
  \<open>VL_EXP_OPERAND_LENGTH(node)\<close> is the value of the integer constant that operand 0 leads to.
\<close>

definition vl_operands :: "gcc \<Rightarrow> addr \<Rightarrow> (nat \<Rightarrow> step) \<Rightarrow> step" where
  "vl_operands g node visit =
     Load (exp_operand g node 0) (\<lambda>c.
       if c = 0 then [BUG]
       else if g_get g ''TREE_INT_CST_LOW'' c = 0 then [BUG]
       else map visit [1..<g_get g ''TREE_INT_CST_LOW'' c])"

definition exp_mark :: "tree_code \<Rightarrow> addr \<Rightarrow> step list" where
  "exp_mark code node =
     (case code of
        COMPONENT_REF \<Rightarrow> [Mark Mark_component_ref node]
      | BIT_FIELD_REF \<Rightarrow> [Mark Mark_bit_field_ref node]
      | ADDR_EXPR \<Rightarrow> [Mark Mark_addr_expr node]
      | MEM_REF \<Rightarrow> [Mark Mark_mem_ref node]
      | ARRAY_REF \<Rightarrow> [Mark Mark_array_ref node]
      | _ \<Rightarrow> [])"

definition do_exp :: "gcc \<Rightarrow> nat \<Rightarrow> bool \<Rightarrow> addr \<Rightarrow> step list" where
  "do_exp g m flag node = [Enter node flag (switch_mode m
     ([Loc (at g node ''tree_exp.locus'')] @
      do_typed g m False (at g node ''tree_exp.typed'') @
      (if g_class g (g_code g node) = tcc_vl_exp
       then [ptr (exp_operand g node 0) W_tree,
             vl_operands g node (\<lambda>i. ptr (exp_operand g node i) W_tree)]
       else loop (g_get g ''TREE_CODE_LENGTH'' node) (\<lambda>i. [ptr (exp_operand g node i) W_tree])))
     (do_typed g m False (at g node ''tree_exp.typed'') @
      (if g_class g (g_code g node) = tcc_vl_exp
       then [Go W_tree (exp_operand g node 0),
             vl_operands g node (\<lambda>i. Go W_tree (exp_operand g node i))]
       else loop (g_get g ''TREE_CODE_LENGTH'' node) (\<lambda>i. [Go W_tree (exp_operand g node i)])) @
      exp_mark (g_code g node) node))]"

definition do_list :: "gcc \<Rightarrow> nat \<Rightarrow> bool \<Rightarrow> addr \<Rightarrow> step list" where
  "do_list g m flag node = [Enter node flag (switch_mode m
     (do_common g m False (at g node ''tree_list.common'') @
      [ptr (at g node ''tree_list.purpose'') W_tree,
       ptr (at g node ''tree_list.value'') W_tree])
     (do_common g m False (at g node ''tree_list.common'') @
      [Go W_tree (at g node ''tree_list.purpose''),
       Go W_tree (at g node ''tree_list.value'')]))]"

definition do_type_common :: "gcc \<Rightarrow> nat \<Rightarrow> bool \<Rightarrow> addr \<Rightarrow> step list" where
  "do_type_common g m flag node = [Enter node flag (switch_mode m
     (do_common g m False (at g node ''tree_type_common.common'') @
      [ptr (at g node ''tree_type_common.size'') W_tree,
       ptr (at g node ''tree_type_common.size_unit'') W_tree,
       ptr (at g node ''tree_type_common.attributes'') W_tree,
       ptr (at g node ''tree_type_common.pointer_to'') W_tree,
       ptr (at g node ''tree_type_common.reference_to'') W_tree,
       ptr (at g node ''tree_type_common.canonical'') W_tree,
       ptr (at g node ''tree_type_common.next_variant'') W_tree,
       ptr (at g node ''tree_type_common.main_variant'') W_tree,
       ptr (at g node ''tree_type_common.context'') W_tree,
       ptr (at g node ''tree_type_common.name'') W_tree])
     [])]"

definition do_type_with_lang_specific :: "gcc \<Rightarrow> nat \<Rightarrow> bool \<Rightarrow> addr \<Rightarrow> step list" where
  "do_type_with_lang_specific g m flag node = [Enter node flag (switch_mode m
     (do_type_common g m False (at g node ''tree_type_with_lang_specific.common'') @
      [ptr (at g node ''tree_type_with_lang_specific.lang_specific'') W_c_lang_type])
     [])]"

definition do_type_non_common :: "gcc \<Rightarrow> nat \<Rightarrow> bool \<Rightarrow> addr \<Rightarrow> step list" where
  "do_type_non_common g m flag node = [Enter node flag (switch_mode m
     (do_type_with_lang_specific g m False (at g node ''tree_type_non_common.with_lang_specific'') @
      [ptr (at g node ''tree_type_non_common.values'') W_tree,
       ptr (at g node ''tree_type_non_common.minval'') W_tree,
       ptr (at g node ''tree_type_non_common.maxval'') W_tree,
       (if g_version g < 8 then ptr (at g node ''tree_type_non_common.binfo'') W_tree
        else ptr (at g node ''tree_type_non_common.lang_1'') W_tree)])
     [])]"

definition do_decl_minimal :: "gcc \<Rightarrow> nat \<Rightarrow> bool \<Rightarrow> addr \<Rightarrow> step list" where
  "do_decl_minimal g m flag node = [Enter node flag (switch_mode m
     ([Loc (at g node ''tree_decl_minimal.locus'')] @
      do_common g m False (at g node ''tree_decl_minimal.common'') @
      [ptr (at g node ''tree_decl_minimal.name'') W_tree,
       ptr (at g node ''tree_decl_minimal.context'') W_tree])
     [])]"

definition do_lang_decl :: "addr \<Rightarrow> step list" where
  "do_lang_decl node = [Enter node False [BUG]]"

definition do_decl_common :: "gcc \<Rightarrow> nat \<Rightarrow> bool \<Rightarrow> addr \<Rightarrow> step list" where
  "do_decl_common g m flag node = [Enter node flag (switch_mode m
     (do_decl_minimal g m False (at g node ''tree_decl_common.common'') @
      [ptr (at g node ''tree_decl_common.size'') W_tree,
       ptr (at g node ''tree_decl_common.size_unit'') W_tree,
       ptr (at g node ''tree_decl_common.initial'') W_tree,
       ptr (at g node ''tree_decl_common.attributes'') W_tree,
       ptr (at g node ''tree_decl_common.abstract_origin'') W_tree,
       ptr (at g node ''tree_decl_common.lang_specific'') W_c_lang_decl])
     [])]"

definition do_field_decl :: "gcc \<Rightarrow> nat \<Rightarrow> bool \<Rightarrow> addr \<Rightarrow> step list" where
  "do_field_decl g m flag node = [Enter node flag (switch_mode m
     (do_decl_common g m False (at g node ''tree_field_decl.common'') @
      [ptr (at g node ''tree_field_decl.offset'') W_tree,
       ptr (at g node ''tree_field_decl.bit_field_type'') W_tree,
       ptr (at g node ''tree_field_decl.qualifier'') W_tree,
       ptr (at g node ''tree_field_decl.bit_offset'') W_tree,
       ptr (at g node ''tree_field_decl.fcontext'') W_tree])
     [])]"

definition do_decl_with_rtl :: "gcc \<Rightarrow> nat \<Rightarrow> bool \<Rightarrow> addr \<Rightarrow> step list" where
  "do_decl_with_rtl g m flag node = [Enter node flag (switch_mode m
     (do_decl_common g m False (at g node ''tree_decl_with_rtl.common''))
     [])]"

definition do_label_decl :: "gcc \<Rightarrow> nat \<Rightarrow> bool \<Rightarrow> addr \<Rightarrow> step list" where
  "do_label_decl g m flag node = [Enter node flag (switch_mode m
     (do_decl_with_rtl g m False (at g node ''tree_label_decl.common''))
     [])]"

definition do_result_decl :: "gcc \<Rightarrow> nat \<Rightarrow> bool \<Rightarrow> addr \<Rightarrow> step list" where
  "do_result_decl g m flag node = [Enter node flag (switch_mode m
     (do_decl_with_rtl g m False (at g node ''tree_result_decl.common''))
     [Mark Mark_result_decl node])]"

definition do_parm_decl :: "gcc \<Rightarrow> nat \<Rightarrow> bool \<Rightarrow> addr \<Rightarrow> step list" where
  "do_parm_decl g m flag node = [Enter node flag (switch_mode m
     (do_decl_with_rtl g m False (at g node ''tree_parm_decl.common''))
     [Mark Mark_parm_decl node])]"

definition do_decl_with_vis :: "gcc \<Rightarrow> nat \<Rightarrow> bool \<Rightarrow> addr \<Rightarrow> step list" where
  "do_decl_with_vis g m flag node = [Enter node flag (switch_mode m
     (do_decl_with_rtl g m False (at g node ''tree_decl_with_vis.common'') @
      [ptr (at g node ''tree_decl_with_vis.assembler_name'') W_tree,
       ptr (at g node ''tree_decl_with_vis.symtab_node'') W_symtab_node])
     [])]"

definition do_var_decl :: "gcc \<Rightarrow> nat \<Rightarrow> bool \<Rightarrow> addr \<Rightarrow> step list" where
  "do_var_decl g m flag node = [Enter node flag (switch_mode m
     (do_decl_with_vis g m False (at g node ''tree_var_decl.common''))
     [Mark Mark_var_decl node])]"

definition do_decl_non_common :: "gcc \<Rightarrow> nat \<Rightarrow> bool \<Rightarrow> addr \<Rightarrow> step list" where
  "do_decl_non_common g m flag node = [Enter node flag (switch_mode m
     (do_decl_with_vis g m False (at g node ''tree_decl_non_common.common'') @
      [ptr (at g node ''tree_decl_non_common.result'') W_tree])
     (do_decl_with_vis g m False (at g node ''tree_decl_non_common.common'') @
      [Go W_tree (at g node ''tree_decl_non_common.result'')]))]"

definition do_type_decl :: "gcc \<Rightarrow> nat \<Rightarrow> bool \<Rightarrow> addr \<Rightarrow> step list" where
  "do_type_decl g m flag node = [Enter node flag (switch_mode m
     (do_decl_non_common g m False (at g node ''tree_type_decl.common''))
     [])]"

definition do_translation_unit_decl :: "gcc \<Rightarrow> nat \<Rightarrow> bool \<Rightarrow> addr \<Rightarrow> step list" where
  "do_translation_unit_decl g m flag node = [Enter node flag (switch_mode m
     (do_decl_common g m False (at g node ''tree_translation_unit_decl.common'') @
      [Blob (at g node ''tree_translation_unit_decl.language'')])
     [])]"

definition do_function_decl :: "gcc \<Rightarrow> nat \<Rightarrow> bool \<Rightarrow> addr \<Rightarrow> step list" where
  "do_function_decl g m flag node = (if node \<noteq> 0 \<and> \<not> flag then [BUG] else [Enter node True (switch_mode m
     (do_decl_non_common g m False (at g node ''tree_function_decl.common'') @
      [ptr (at g node ''tree_function_decl.f'') W_function,
       ptr (at g node ''tree_function_decl.arguments'') W_tree,
       ptr (at g node ''tree_function_decl.personality'') W_tree,
       ptr (at g node ''tree_function_decl.function_specific_target'') W_tree,
       ptr (at g node ''tree_function_decl.function_specific_optimization'') W_tree,
       ptr (at g node ''tree_function_decl.saved_tree'') W_tree,
       ptr (at g node ''tree_function_decl.vindex'') W_tree])
     [Mark Mark_function_decl node])])"

definition do_const_decl :: "gcc \<Rightarrow> nat \<Rightarrow> bool \<Rightarrow> addr \<Rightarrow> step list" where
  "do_const_decl g m flag node = [Enter node flag (switch_mode m
     (do_decl_common g m False (at g node ''tree_const_decl.common''))
     [])]"

definition do_vec :: "gcc \<Rightarrow> nat \<Rightarrow> bool \<Rightarrow> addr \<Rightarrow> step list" where
  "do_vec g m flag node = [Enter node flag (switch_mode m
     (do_common g m False (at g node ''tree_vec.common'') @
      loop (g_get g ''TREE_VEC_LENGTH'' node) (\<lambda>i. [ptr (at g node ''tree_vec.a'' + 8 * i) W_tree]))
     (do_common g m False (at g node ''tree_vec.common'') @
      loop (g_get g ''TREE_VEC_LENGTH'' node) (\<lambda>i. [Go W_tree (at g node ''tree_vec.a'' + 8 * i)])))]"

definition do_fixed_cst :: "gcc \<Rightarrow> nat \<Rightarrow> bool \<Rightarrow> addr \<Rightarrow> step list" where
  "do_fixed_cst g m flag node = [Enter node flag (switch_mode m
     []
     [])]"

definition do_vector :: "gcc \<Rightarrow> nat \<Rightarrow> bool \<Rightarrow> addr \<Rightarrow> step list" where
  "do_vector g m flag node = [Enter node flag (switch_mode m
     []
     [])]"

definition do_complex :: "gcc \<Rightarrow> nat \<Rightarrow> bool \<Rightarrow> addr \<Rightarrow> step list" where
  "do_complex g m flag node = [Enter node flag (switch_mode m
     []
     [])]"

definition do_tree_p :: "gcc \<Rightarrow> nat \<Rightarrow> addr \<Rightarrow> step list" where
  "do_tree_p g m node = [Enter node True (switch_mode m [ptr node W_tree] [Go W_tree node])]"

definition do_ptr_info_def :: "gcc \<Rightarrow> nat \<Rightarrow> bool \<Rightarrow> addr \<Rightarrow> step list" where
  "do_ptr_info_def g m flag node = [Enter node flag []]"

definition do_range_info_def :: "gcc \<Rightarrow> nat \<Rightarrow> bool \<Rightarrow> addr \<Rightarrow> step list" where
  "do_range_info_def g m flag node = [Enter node flag []]"

definition do_ssa_name :: "gcc \<Rightarrow> nat \<Rightarrow> bool \<Rightarrow> addr \<Rightarrow> step list" where
  "do_ssa_name g m flag node = [Enter node flag (switch_mode m
     (do_typed g m False (at g node ''tree_ssa_name.typed'') @
      [ptr (at g node ''tree_ssa_name.var'') W_tree,
       ptr (at g node ''tree_ssa_name.def_stmt'') W_gimple_seq,
       Load (at g (at g node ''tree_ssa_name.typed'') ''tree_typed.type'') (\<lambda>ty.
         if ty = 0 then []
         else if g_get g ''POINTER_TYPE_P'' ty \<noteq> 0
         then [ptr (at g node ''tree_ssa_name.info.ptr_info'') W_ptr_info_def]
         else [ptr (at g node ''tree_ssa_name.info.range_info'') W_range_info_def])] @
      do_ssa_use_operand g m False (at g node ''tree_ssa_name.imm_uses''))
     (do_typed g m False (at g node ''tree_ssa_name.typed'') @
      [Go W_tree (at g node ''tree_ssa_name.var''),
       Go W_gimple_seq (at g node ''tree_ssa_name.def_stmt''),
       Load (at g (at g node ''tree_ssa_name.typed'') ''tree_typed.type'') (\<lambda>ty.
         if ty = 0 then []
         else if g_get g ''POINTER_TYPE_P'' ty \<noteq> 0
         then [Go W_ptr_info_def (at g node ''tree_ssa_name.info.ptr_info'')]
         else [Go W_range_info_def (at g node ''tree_ssa_name.info.range_info'')])] @
      do_ssa_use_operand g m False (at g node ''tree_ssa_name.imm_uses'')))]"

definition do_binfo :: "gcc \<Rightarrow> nat \<Rightarrow> bool \<Rightarrow> addr \<Rightarrow> step list" where
  "do_binfo g m flag node = [Enter node flag (switch_mode m
     []
     [])]"

definition do_omp_clause :: "gcc \<Rightarrow> nat \<Rightarrow> bool \<Rightarrow> addr \<Rightarrow> step list" where
  "do_omp_clause g m flag node = [Enter node flag (switch_mode m
     []
     [])]"

definition do_optimization_option :: "gcc \<Rightarrow> nat \<Rightarrow> bool \<Rightarrow> addr \<Rightarrow> step list" where
  "do_optimization_option g m flag node = [Enter node flag (switch_mode m
     (if g_version g < 8 then do_common g m False (at g node ''tree_optimization_option.common'')
      else do_base g m False (at g node ''tree_optimization_option.base''))
     [])]"

definition do_target_option :: "gcc \<Rightarrow> nat \<Rightarrow> bool \<Rightarrow> addr \<Rightarrow> step list" where
  "do_target_option g m flag node = [Enter node flag (switch_mode m
     []
     [])]"

text \<open>
  \<open>do_tree\<close>: first by code, then by class. A case that ends in \<open>BUG()\<close> does not return, so no
  case falls through.
\<close>

definition tree_declaration :: "gcc \<Rightarrow> nat \<Rightarrow> tree_code \<Rightarrow> addr \<Rightarrow> step list" where
  "tree_declaration g m code node =
     (case code of
        FIELD_DECL \<Rightarrow> do_field_decl g m True node
      | PARM_DECL \<Rightarrow> do_parm_decl g m True node
      | VAR_DECL \<Rightarrow> do_var_decl g m True node
      | LABEL_DECL \<Rightarrow> do_label_decl g m True node
      | RESULT_DECL \<Rightarrow> do_result_decl g m True node
      | CONST_DECL \<Rightarrow> do_const_decl g m True node
      | TYPE_DECL \<Rightarrow> do_type_decl g m True node
      | FUNCTION_DECL \<Rightarrow> do_function_decl g m True node
      | DEBUG_EXPR_DECL \<Rightarrow> do_decl_with_rtl g m True node
      | TRANSLATION_UNIT_DECL \<Rightarrow> do_translation_unit_decl g m True node
      | NAMESPACE_DECL \<Rightarrow> do_decl_non_common g m True node
      | IMPORTED_DECL \<Rightarrow> do_decl_non_common g m True node
      | NAMELIST_DECL \<Rightarrow> do_decl_non_common g m True node
      | _ \<Rightarrow> [BUG])"

definition tree_constant :: "gcc \<Rightarrow> nat \<Rightarrow> tree_code \<Rightarrow> addr \<Rightarrow> step list" where
  "tree_constant g m code node =
     (case code of
        VOID_CST \<Rightarrow> do_typed g m True node
      | REAL_CST \<Rightarrow> do_real_cst g m True node
      | FIXED_CST \<Rightarrow> do_fixed_cst g m True node
      | COMPLEX_CST \<Rightarrow> do_complex g m True node
      | VECTOR_CST \<Rightarrow> do_vector g m True node
      | _ \<Rightarrow> [BUG])"

definition tree_exceptional :: "gcc \<Rightarrow> nat \<Rightarrow> tree_code \<Rightarrow> addr \<Rightarrow> step list" where
  "tree_exceptional g m code node =
     (case code of
        IDENTIFIER_NODE \<Rightarrow> do_c_lang_identifier g m True node
      | TREE_LIST \<Rightarrow> do_list g m True node
      | ERROR_MARK \<Rightarrow> do_common g m True node
      | PLACEHOLDER_EXPR \<Rightarrow> do_common g m True node
      | SSA_NAME \<Rightarrow> do_ssa_name g m True node
      | STATEMENT_LIST \<Rightarrow> do_statement_list g m True node
      | BLOCK \<Rightarrow> do_block g m True node
      | CONSTRUCTOR \<Rightarrow> do_constructor g m True node
      | OPTIMIZATION_NODE \<Rightarrow> do_optimization_option g m True node
      | TARGET_OPTION_NODE \<Rightarrow> do_target_option g m True node
      | _ \<Rightarrow> [BUG])"

definition tree_by_class :: "gcc \<Rightarrow> nat \<Rightarrow> tree_code \<Rightarrow> addr \<Rightarrow> step list" where
  "tree_by_class g m code node =
     (case g_class g code of
        tcc_vl_exp \<Rightarrow> do_exp g m True node
      | tcc_declaration \<Rightarrow> tree_declaration g m code node
      | tcc_type \<Rightarrow> do_type_non_common g m True node
      | tcc_reference \<Rightarrow> do_exp g m True node
      | tcc_expression \<Rightarrow> do_exp g m True node
      | tcc_statement \<Rightarrow> do_exp g m True node
      | tcc_comparison \<Rightarrow> do_exp g m True node
      | tcc_unary \<Rightarrow> do_exp g m True node
      | tcc_binary \<Rightarrow> do_exp g m True node
      | tcc_constant \<Rightarrow> tree_constant g m code node
      | tcc_exceptional \<Rightarrow> tree_exceptional g m code node)"

definition do_tree :: "gcc \<Rightarrow> nat \<Rightarrow> addr \<Rightarrow> step list" where
  "do_tree g m node =
     (if node = 0 then []
      else case g_code g node of
             INTEGER_CST \<Rightarrow> do_int_cst g m True node
           | TREE_BINFO \<Rightarrow> do_binfo g m True node
           | TREE_VEC \<Rightarrow> do_vec g m True node
           | VECTOR_CST \<Rightarrow> do_vector g m True node
           | STRING_CST \<Rightarrow> do_string g m True node
           | OMP_CLAUSE \<Rightarrow> do_omp_clause g m True node
           | code \<Rightarrow> tree_by_class g m code node)"

end
