(* ===== verification/Walk_Rel.thy ===== *)
theory Walk_Rel
  imports Walk_Steps "HOL-Library.Sublist"
begin

text \<open>
  What every walk has in common, proved once for any table of walkers: a relation between the
  state before and after that the primitive steps respect is respected by the whole walk, and
  a walk whose calls all stand behind a check of the object ends within a depth that the
  number of objects not yet checked bounds.
\<close>

subsection \<open>Which steps a list may hold\<close>

text \<open>
  \<open>allowed writes W\<close>: the step writes memory only when \<open>writes\<close>, calls only walkers of \<open>W\<close> and
  checks no NULL pointer.
  \<open>guarded\<close>: every call stands in the body of a checked object.
\<close>

primrec allowed :: "bool \<Rightarrow> (walker \<Rightarrow> bool) \<Rightarrow> step \<Rightarrow> bool" where
  "allowed writes W BUG \<longleftrightarrow> True"
| "allowed writes W (Enter node flag body) \<longleftrightarrow> list_all (allowed writes W) body"
| "allowed writes W (Real cell next) \<longleftrightarrow> writes \<and> list_all (allowed writes W) next"
| "allowed writes W (Blob cell) \<longleftrightarrow> writes"
| "allowed writes W (Call w p) \<longleftrightarrow> W w"
| "allowed writes W (Chk p) \<longleftrightarrow> p \<noteq> 0"
| "allowed writes W (Loc loc) \<longleftrightarrow> writes"
| "allowed writes W (Load cell k) \<longleftrightarrow> (\<forall>v. (list_all (allowed writes W) \<circ> k) v)"
| "allowed writes W (Mark mk p) \<longleftrightarrow> True"

primrec guarded :: "step \<Rightarrow> bool" where
  "guarded BUG \<longleftrightarrow> True"
| "guarded (Enter node flag body) \<longleftrightarrow> flag \<or> list_all guarded body"
| "guarded (Real cell next) \<longleftrightarrow> list_all guarded next"
| "guarded (Blob cell) \<longleftrightarrow> True"
| "guarded (Call w p) \<longleftrightarrow> False"
| "guarded (Chk p) \<longleftrightarrow> True"
| "guarded (Loc loc) \<longleftrightarrow> True"
| "guarded (Load cell k) \<longleftrightarrow> (\<forall>v. (list_all guarded \<circ> k) v)"
| "guarded (Mark mk p) \<longleftrightarrow> True"

subsection \<open>Sequences\<close>

lemma and_then_Ret: "and_then r f = Ret s \<longleftrightarrow> (\<exists>s1. r = Ret s1 \<and> f s1 = Ret s)"
  by (cases r) auto

lemma and_then_Deep: "and_then r f = Deep \<longleftrightarrow> r = Deep \<or> (\<exists>s1. r = Ret s1 \<and> f s1 = Deep)"
  by (cases r) auto

lemma and_then_cong: "r = r' \<Longrightarrow> (\<And>s. r' = Ret s \<Longrightarrow> f s = f' s) \<Longrightarrow> and_then r f = and_then r' f'"
  by (cases r') auto

lemma and_then_assoc: "and_then (and_then r f) h = and_then r (\<lambda>s. and_then (f s) h)"
  by (cases r) auto

lemma run_steps_append:
  "run_steps g m rec (xs @ ys) s = and_then (run_steps g m rec xs s) (run_steps g m rec ys)"
proof (induction xs arbitrary: s)
  case (Cons x xs)
  then show ?case by (simp add: and_then_assoc cong: and_then_cong)
qed simp

subsection \<open>Relations a walk keeps\<close>

locale walk_relation =
  fixes g :: gcc and m :: nat and R :: "wstate \<Rightarrow> wstate \<Rightarrow> bool"
    and writes :: bool and W :: "walker \<Rightarrow> bool"
  assumes refl: "R s s"
    and trans: "R s t \<Longrightarrow> R t u \<Longrightarrow> R s u"
    and check: "0 < p \<Longrightarrow> is_obj_checked m p s = Some (b, t) \<Longrightarrow> R s t"
    and store: "writes \<Longrightarrow> R s (s\<lparr>wk_mem := (wk_mem s)(cell := v)\<rparr>)"
    and locate: "writes \<Longrightarrow> m = MODE_ADJUST \<Longrightarrow> my_expand_location loc s = Some (x, t) \<Longrightarrow> R s t"
    and mark: "R s (s\<lparr>wk_marks := wk_marks s @ [e]\<rparr>)"
begin

definition keeps :: "(wstate \<Rightarrow> outcome) \<Rightarrow> bool" where
  "keeps f \<longleftrightarrow> (\<forall>s t. f s = Ret t \<longrightarrow> R s t)"

lemma keepsD: "keeps f \<Longrightarrow> f s = Ret t \<Longrightarrow> R s t"
  by (simp add: keeps_def)

lemma chain_keeps: "(\<And>f. f \<in> set fs \<Longrightarrow> keeps f) \<Longrightarrow> keeps (chain fs)"
proof (induction fs)
  case Nil
  then show ?case by (simp add: keeps_def refl)
next
  case (Cons f fs)
  have "keeps f" "keeps (chain fs)" using Cons by auto
  then show ?case using trans unfolding keeps_def chain.simps and_then_Ret by metis
qed

lemma do_check_keeps: "p \<noteq> 0 \<Longrightarrow> keeps (do_check m p)"
  by (auto simp: keeps_def do_check_def split: option.splits intro: check)

lemma do_enter_keeps: "keeps f \<Longrightarrow> keeps (do_enter m node flag f)"
  unfolding keeps_def do_enter_def
  by (auto simp: refl split: option.splits if_splits prod.splits intro: check trans)

lemma do_real_addr_keeps:
  assumes "writes" "keeps f"
  shows "keeps (do_real_addr cell f)"
proof -
  have "R s t" if run: "do_real_addr cell f s = Ret t" for s t
  proof -
    obtain real b where r: "get_real_addr True (wk_objs s) (wk_mem s cell) = (real, b)"
      by fastforce
    have "R s (s\<lparr>wk_mem := (wk_mem s)(cell := real)\<rparr>)" using store assms(1) by blast
    then show ?thesis using run r assms(2)
      by (auto simp: do_real_addr_def keeps_def Let_def split: if_splits intro: trans)
  qed
  then show ?thesis by (simp add: keeps_def)
qed

lemma get_real_addr_next: "get_real_addr r objs fake = (real, True) \<Longrightarrow> real \<noteq> 0"
  by (auto simp: get_real_addr_def split: if_splits option.splits dest: slist_find_Some)

lemma do_blob_keeps:
  assumes "writes"
  shows "keeps (do_blob m cell)"
proof -
  have "R s t" if run: "do_blob m cell s = Ret t" for s t
  proof -
    obtain real b where r: "get_real_addr True (wk_objs s) (wk_mem s cell) = (real, b)"
      by fastforce
    let ?s = "s\<lparr>wk_mem := (wk_mem s)(cell := real)\<rparr>"
    have 1: "R s ?s" using store [OF assms] .
    show ?thesis
    proof (cases b)
      case True
      then have "real \<noteq> 0" using r get_real_addr_next by simp
      moreover have "do_check m real ?s = Ret t"
        using run r True by (simp add: do_blob_def do_real_addr_def)
      ultimately show ?thesis using 1 do_check_keeps trans by (blast dest: keepsD)
    next
      case False
      then show ?thesis using run r 1 by (simp add: do_blob_def do_real_addr_def)
    qed
  qed
  then show ?thesis by (simp add: keeps_def)
qed

lemma do_location_keeps:
  assumes "writes"
  shows "keeps (do_location g m loc)"
  using do_blob_keeps [OF assms] locate [OF assms] trans
  by (auto simp: keeps_def do_location_def split: if_splits option.splits) blast

lemma run_step_keeps:
  assumes rec: "\<And>w p. W w \<Longrightarrow> keeps (rec w p)"
  shows "allowed writes W x \<Longrightarrow> keeps (run_step g m rec x)"
proof (induction x)
  case (Load cell k)
  have "keeps (chain (map (run_step g m rec) (k v)))" for v
    using Load by (intro chain_keeps) (auto simp: list_all_iff)
  then show ?case by (auto simp: keeps_def)
next
  case (Enter node flag body)
  then show ?case by (auto simp: list_all_iff intro!: do_enter_keeps chain_keeps)
next
  case (Real cell nxt)
  then show ?case by (auto simp: list_all_iff intro!: do_real_addr_keeps chain_keeps)
qed (auto simp: rec do_check_keeps do_blob_keeps do_location_keeps, auto simp: keeps_def mark)

lemma run_steps_keeps:
  assumes "\<And>w p. W w \<Longrightarrow> keeps (rec w p)" "list_all (allowed writes W) xs"
  shows "keeps (run_steps g m rec xs)"
  unfolding run_steps_def using run_step_keeps [OF assms(1)] assms(2)
  by (intro chain_keeps) (auto simp: list_all_iff)

lemma run_walker_keeps:
  assumes "\<And>w p. W w \<Longrightarrow> list_all (allowed writes W) (code w p)"
  shows "W w \<Longrightarrow> keeps (run_walker g m code n w p)"
proof (induction n arbitrary: w p)
  case 0
  then show ?case by (simp add: keeps_def)
next
  case (Suc n)
  have "keeps (run_steps g m (run_walker g m code n) (code w p))"
    using Suc.IH assms Suc.prems by (intro run_steps_keeps) auto
  then show ?case by (simp add: keeps_def)
qed

end


subsection \<open>Walks that end\<close>

text \<open>
  With a number of objects still to be checked that each first check makes smaller, a walk
  whose calls are guarded needs no more depth than that number.
\<close>

locale walk_bounded = walk_relation +
  fixes todo :: "wstate \<Rightarrow> nat"
  assumes shrink: "0 < p \<Longrightarrow> is_obj_checked m p s = Some (False, t) \<Longrightarrow> todo t < todo s"
    and todo_mono: "R s t \<Longrightarrow> todo t \<le> todo s"
begin

definition fits :: "nat \<Rightarrow> (wstate \<Rightarrow> outcome) \<Rightarrow> bool" where
  "fits n f \<longleftrightarrow> (\<forall>s. todo s < n \<longrightarrow> f s \<noteq> Deep)"

lemma fitsD: "fits n f \<Longrightarrow> todo s < n \<Longrightarrow> f s \<noteq> Deep"
  by (simp add: fits_def)

lemma chain_fits:
  "(\<And>f. f \<in> set fs \<Longrightarrow> keeps f \<and> fits n f) \<Longrightarrow> fits n (chain fs)"
proof (induction fs)
  case Nil
  then show ?case by (simp add: fits_def)
next
  case (Cons f fs)
  have k: "keeps f" and f: "fits n f" and fs: "fits n (chain fs)" using Cons by auto
  have "chain (f # fs) s \<noteq> Deep" if s: "todo s < n" for s
  proof
    assume "chain (f # fs) s = Deep"
    then obtain t where t: "f s = Ret t" "chain fs t = Deep"
      using fitsD [OF f s] by (auto simp: and_then_Deep)
    have "todo t < n" using todo_mono [OF keepsD [OF k t(1)]] s by simp
    then show False using fitsD [OF fs] t(2) by blast
  qed
  then show ?case by (simp add: fits_def del: chain.simps)
qed

lemma do_check_fits: "fits n (do_check m p)"
  by (auto simp: fits_def do_check_def split: option.splits)

lemma do_enter_fits: "fits n f \<Longrightarrow> fits n (do_enter m node flag f)"
  unfolding fits_def do_enter_def
  by (auto split: option.splits if_splits prod.splits dest: check todo_mono)
     (meson check le_less_trans todo_mono)

lemma do_enter_guarded: "fits n f \<Longrightarrow> fits (Suc n) (do_enter m node True f)"
  unfolding fits_def do_enter_def
  by (auto split: option.splits if_splits prod.splits dest!: shrink)

lemma do_real_addr_fits: "writes \<Longrightarrow> fits n f \<Longrightarrow> fits n (do_real_addr cell f)"
  unfolding fits_def do_real_addr_def Let_def
  using todo_mono [OF store] by (auto split: prod.splits if_splits) (meson le_less_trans)

lemma do_blob_fits: "fits n (do_blob m cell)"
  by (auto simp: fits_def do_blob_def do_check_def do_real_addr_def Let_def
      split: option.splits prod.splits if_splits)

lemma do_location_fits: "fits n (do_location g m loc)"
  by (auto simp: fits_def do_location_def do_blob_def do_check_def do_real_addr_def Let_def
      split: option.splits prod.splits if_splits)

lemma run_step_fits:
  assumes rec: "\<And>w p. W w \<Longrightarrow> keeps (rec w p) \<and> fits n (rec w p)"
  shows "allowed writes W x \<Longrightarrow> fits n (run_step g m rec x)"
proof (induction x)
  case (Load cell k)
  have "fits n (chain (map (run_step g m rec) (k v)))" for v
    using Load run_step_keeps [of rec] rec by (intro chain_fits) (auto simp: list_all_iff)
  then show ?case by (auto simp: fits_def)
next
  case (Enter node flag body)
  then show ?case using run_step_keeps [of rec] rec
    by (auto simp: list_all_iff intro!: do_enter_fits chain_fits)
next
  case (Real cell nxt)
  then show ?case using run_step_keeps [of rec] rec
    by (auto simp: list_all_iff intro!: do_real_addr_fits chain_fits)
qed (auto simp: rec do_check_fits do_blob_fits do_location_fits, auto simp: fits_def)

lemma run_step_guarded:
  assumes rec: "\<And>w p. W w \<Longrightarrow> keeps (rec w p) \<and> fits n (rec w p)"
  shows "allowed writes W x \<Longrightarrow> guarded x \<Longrightarrow> fits (Suc n) (run_step g m rec x)"
proof (induction x)
  case (Load cell k)
  have "fits (Suc n) (run_step g m rec x)" if "x \<in> set (k v)" for x v
    using that Load.prems by (intro Load.IH [of "k v"]) (auto simp: list_all_iff)
  then have "fits (Suc n) (chain (map (run_step g m rec) (k v)))" for v
    using Load.prems run_step_keeps [of rec] rec by (intro chain_fits) (auto simp: list_all_iff)
  then show ?case by (auto simp: fits_def)
next
  case (Enter node flag body)
  have k: "x \<in> set body \<Longrightarrow> keeps (run_step g m rec x) \<and> fits n (run_step g m rec x)" for x
    using Enter.prems(1) run_step_keeps [of rec] run_step_fits [of rec] rec
    by (auto simp: list_all_iff)
  show ?case
  proof (cases flag)
    case True
    have "fits n (chain (map (run_step g m rec) body))" using k by (intro chain_fits) auto
    then show ?thesis using True by (simp add: do_enter_guarded)
  next
    case False
    then have "fits (Suc n) (chain (map (run_step g m rec) body))"
      using Enter k by (intro chain_fits) (auto simp: list_all_iff)
    then show ?thesis by (simp add: do_enter_fits)
  qed
next
  case (Real cell nxt)
  then show ?case using run_step_keeps [of rec] rec
    by (auto simp: list_all_iff intro!: do_real_addr_fits chain_fits)
qed (auto simp: do_check_fits do_blob_fits do_location_fits, auto simp: fits_def)

lemma run_walker_fits:
  assumes code: "\<And>w p. W w \<Longrightarrow> list_all (allowed writes W) (code w p) \<and> list_all guarded (code w p)"
  shows "W w \<Longrightarrow> fits n (run_walker g m code n w p)"
proof (induction n arbitrary: w p)
  case 0
  then show ?case by (simp add: fits_def)
next
  case (Suc n)
  let ?rec = "run_walker g m code n"
  have rec: "\<And>w p. W w \<Longrightarrow> keeps (?rec w p) \<and> fits n (?rec w p)"
    using Suc.IH run_walker_keeps code by blast
  have "fits (Suc n) (chain (map (run_step g m ?rec) (code w p)))"
    using code [OF Suc.prems] rec run_step_keeps [of ?rec] run_step_guarded [of ?rec n]
    by (intro chain_fits) (auto simp: list_all_iff)
  then show ?case by (simp add: fits_def run_steps_def)
qed

end

end
