(* ===== verification/Walk_Run.thy ===== *)
theory Walk_Run
  imports Walk_Tree Walk_Rel
begin

text \<open>
  The walkers tied together, and what holds of every walk: it ends, it only ever adjusts
  objects, counting each one once, and in phase 4 it changes nothing but the list of objects
  seen.
\<close>

definition walker_code :: "gcc \<Rightarrow> nat \<Rightarrow> walker \<Rightarrow> addr \<Rightarrow> step list" where
  "walker_code g m w p =
     (case w of
        W_tree \<Rightarrow> do_tree g m p
      | W_gimple_seq \<Rightarrow> do_gimple_seq g m p
      | W_vec_tree \<Rightarrow> do_vec_tree g m True p
      | W_vec_constructor \<Rightarrow> do_vec_constructor g m True p
      | W_c_scope \<Rightarrow> do_c_scope g m True p
      | W_c_spot_bindings \<Rightarrow> do_c_spot_bindings g m True p
      | W_c_goto_bindings \<Rightarrow> do_c_goto_bindings g m True p
      | W_vec_c_goto_bindings \<Rightarrow> do_vec_c_goto_bindings g m True p
      | W_c_label_vars \<Rightarrow> do_c_label_vars g m True p
      | W_c_binding \<Rightarrow> do_c_binding g m True p
      | W_cpp_hashnode \<Rightarrow> do_cpp_hashnode g m True p
      | W_cpp_token \<Rightarrow> do_cpp_token g m True p
      | W_cpp_macro \<Rightarrow> do_cpp_macro g m True p
      | W_answer \<Rightarrow> do_answer g m True p
      | W_real_value \<Rightarrow> do_real_value g m True p
      | W_sorted_fields_type \<Rightarrow> do_sorted_fields_type g m True p
      | W_c_lang_type \<Rightarrow> do_c_lang_type g m True p
      | W_c_lang_decl \<Rightarrow> do_c_lang_decl g m True p
      | W_symtab_node \<Rightarrow> do_symtab_node g m True p
      | W_splay_tree_node_s \<Rightarrow> do_splay_tree_node_s g m True p
      | W_splay_tree_s \<Rightarrow> do_splay_tree_s g m True p
      | W_c_switch \<Rightarrow> do_c_switch g m True p
      | W_vec_c_arg_tag \<Rightarrow> do_vec_c_arg_tag g m True p
      | W_c_arg_info \<Rightarrow> do_c_arg_info g m True p
      | W_language_function \<Rightarrow> do_language_function g m True p
      | W_use_optype_d \<Rightarrow> do_use_optype_d g m True p
      | W_gomp_for_iter \<Rightarrow> do_gomp_for_iter g m True p
      | W_edge \<Rightarrow> do_edge g m True p
      | W_vec_edge \<Rightarrow> do_vec_edge g m True p
      | W_nb_iter_bound \<Rightarrow> do_nb_iter_bound g m True p
      | W_control_iv \<Rightarrow> do_control_iv g m True p
      | W_loop_exit \<Rightarrow> do_loop_exit g m True p
      | W_niter_desc \<Rightarrow> do_niter_desc g m True p
      | W_loop \<Rightarrow> do_loop g m True p
      | W_vec_loop \<Rightarrow> do_vec_loop g m True p
      | W_basic_block \<Rightarrow> do_basic_block g m True p
      | W_vec_basic_block \<Rightarrow> do_vec_basic_block g m True p
      | W_cfg \<Rightarrow> do_cfg g m True p
      | W_gimple_df \<Rightarrow> do_gimple_df g m True p
      | W_loops \<Rightarrow> do_loops g m True p
      | W_histogram_value \<Rightarrow> do_histogram_value g m p
      | W_histogram_values \<Rightarrow> do_histogram_values g m True p
      | W_function \<Rightarrow> do_function g m True p
      | W_statement_list_node \<Rightarrow> do_statement_list_node g m True p
      | W_tree_p \<Rightarrow> do_tree_p g m p
      | W_ssa_use_operand \<Rightarrow> do_ssa_use_operand g m True p
      | W_ptr_info_def \<Rightarrow> do_ptr_info_def g m True p
      | W_range_info_def \<Rightarrow> do_range_info_def g m True p)"

definition walk_run :: "gcc \<Rightarrow> nat \<Rightarrow> nat \<Rightarrow> walker \<Rightarrow> addr \<Rightarrow> wstate \<Rightarrow> outcome" where
  "walk_run g m depth = run_walker g m (walker_code g m) depth"

subsection \<open>Every call is guarded\<close>

lemma list_all_loop [simp]: "list_all P (loop n f) \<longleftrightarrow> (\<forall>i<n. list_all P (f i))"
  by (auto simp: loop_def list_all_iff)

lemma switch_mode_weak_cong [cong]: "m = m' \<Longrightarrow> switch_mode m a s = switch_mode m' a s"
  by simp

lemma switch_mode_simps [simp]:
  "switch_mode MODE_ADJUST a s = a" "switch_mode (Suc 0) a s = a" "switch_mode MODE_GETSTEP4 a s = s"
  by (simp_all add: switch_mode_def)

lemma list_all_switch_mode: "list_all P a \<Longrightarrow> list_all P s \<Longrightarrow> P BUG \<Longrightarrow> list_all P (switch_mode m a s)"
  by (simp add: switch_mode_def)

lemma guarded_enter: "list_all guarded [Enter p True b]"
  by simp

lemmas walker_heads =
    do_field_decl_def do_parm_decl_def do_var_decl_def do_label_decl_def do_result_decl_def
    do_const_decl_def do_type_decl_def do_function_decl_def do_decl_with_rtl_def do_translation_unit_decl_def
    do_decl_non_common_def do_typed_def do_real_cst_def do_fixed_cst_def do_complex_def
    do_vector_def do_c_lang_identifier_def do_list_def do_common_def do_ssa_name_def
    do_statement_list_def do_block_def do_constructor_def do_optimization_option_def do_target_option_def
    do_exp_def do_type_non_common_def do_int_cst_def do_binfo_def do_vec_def
    do_string_def do_omp_clause_def do_gasm_def do_gassign_def do_gcall_def
    do_gcond_def do_glabel_def do_ggoto_def do_gimple_base_def do_greturn_def
    do_gswitch_def do_gphi_def do_gomp_parallel_def do_gomp_task_def do_gomp_atomic_load_def
    do_gomp_atomic_store_def do_gomp_for_def do_gomp_continue_def do_gomp_single_def do_gomp_target_def
    do_gomp_teams_def do_gs_omp_return_def do_gomp_sections_def do_gs_omp_def do_gomp_ordered_def
    do_gomp_critical_def do_gbind_def do_gtry_def do_gcatch_def do_geh_filter_def
    do_geh_mnt_def do_geh_else_def do_gresx_def do_geh_dispatch_def do_gdebug_def
    do_gtransaction_def do_vec_tree_def do_vec_constructor_def do_c_scope_def do_c_spot_bindings_def
    do_c_goto_bindings_def do_vec_c_goto_bindings_def do_c_label_vars_def do_c_binding_def do_cpp_hashnode_def
    do_cpp_token_def do_cpp_macro_def do_answer_def do_real_value_def do_sorted_fields_type_def
    do_c_lang_type_def do_c_lang_decl_def do_symtab_node_def do_splay_tree_node_s_def do_splay_tree_s_def
    do_c_switch_def do_vec_c_arg_tag_def do_c_arg_info_def do_language_function_def do_use_optype_d_def
    do_gomp_for_iter_def do_edge_def do_vec_edge_def do_nb_iter_bound_def do_control_iv_def
    do_loop_exit_def do_niter_desc_def do_loop_def do_vec_loop_def do_basic_block_def
    do_vec_basic_block_def do_cfg_def do_gimple_df_def do_loops_def do_histogram_value_def
    do_histogram_values_def do_function_def do_statement_list_node_def do_tree_p_def do_ssa_use_operand_def
    do_ptr_info_def_def do_range_info_def_def
    do_cpp_macro_8_def do_cpp_macro_9_def

lemma guarded_tree: "list_all guarded (do_tree g m p)"
proof -
  have "list_all guarded (tree_by_class g m code p)" for code
    by (cases "g_class g code"; cases code;
        simp add: tree_by_class_def tree_declaration_def tree_constant_def tree_exceptional_def
          walker_heads)
  then show ?thesis by (cases "g_code g p") (simp_all add: do_tree_def walker_heads)
qed

lemma guarded_gimple_seq: "list_all guarded (do_gimple_seq g m p)"
  by (cases "g_gimple_code g p"; auto simp: do_gimple_seq_def walker_heads intro!: list_all_switch_mode)

lemma walker_code_guarded: "list_all guarded (walker_code g m w p)"
  by (cases w) (simp_all add: walker_code_def guarded_tree guarded_gimple_seq walker_heads)


subsection \<open>Phase 4 reads only\<close>

text \<open>
  In phase 4 no walker writes memory or looks for a location, and none of the walkers that
  only gimple statements lead to is called.
\<close>

definition step4_walker :: "walker \<Rightarrow> bool" where
  "step4_walker w \<longleftrightarrow> w \<noteq> W_use_optype_d \<and> w \<noteq> W_gomp_for_iter"

lemma list_all_map: "list_all P (map f xs) \<longleftrightarrow> (\<forall>x \<in> set xs. P (f x))"
  by (simp add: list_all_iff)

lemmas step4_defs =
    Go_def step4_walker_def Let_def exp_mark_def vl_operands_def
    do_vec_tree_def do_vec_constructor_def do_c_scope_def do_c_spot_bindings_def do_c_goto_bindings_def
    do_vec_c_goto_bindings_def do_c_label_vars_def do_c_binding_def do_ht_identifier_def do_cpp_hashnode_def
    do_cpp_marco_arg_def do_cpp_string_def do_cpp_identifier_def do_cpp_token_def macro_params_def
    macro_tokens_def macro_text_def do_cpp_macro_def do_answer_def do_base_def
    do_typed_def do_common_def do_c_common_identifier_def do_real_value_def do_sorted_fields_type_def
    do_c_lang_type_def do_c_lang_decl_def do_symtab_node_def do_stmt_tree_s_def do_c_language_function_def
    do_splay_tree_node_s_def do_splay_tree_s_def do_c_switch_def do_c_arg_tag_def do_vec_c_arg_tag_def
    do_c_arg_info_def do_language_function_def do_ssa_use_operand_def do_edge_def
    do_vec_edge_def do_nb_iter_bound_def do_control_iv_def do_loop_exit_def do_niter_desc_def
    do_loop_def do_vec_loop_def do_basic_block_def do_vec_basic_block_def do_cfg_def
    do_ssa_operands_def do_gimple_df_def do_loops_def do_histogram_value_def do_histogram_values_def
    do_function_def do_statement_list_node_def do_string_def do_real_cst_def do_int_cst_def
    do_identifier_def do_c_lang_identifier_def do_constructor_def do_statement_list_def do_block_def
    do_list_def do_type_common_def do_type_with_lang_specific_def do_type_non_common_def do_decl_minimal_def
    do_lang_decl_def do_decl_common_def do_field_decl_def do_decl_with_rtl_def do_label_decl_def
    do_result_decl_def do_parm_decl_def do_decl_with_vis_def do_var_decl_def do_decl_non_common_def
    do_type_decl_def do_translation_unit_decl_def do_function_decl_def do_const_decl_def do_vec_def
    do_fixed_cst_def do_vector_def do_complex_def do_tree_p_def do_ptr_info_def_def
    do_range_info_def_def do_ssa_name_def do_binfo_def do_omp_clause_def do_optimization_option_def
    do_target_option_def

lemma step4_exp: "list_all (allowed False step4_walker) (do_exp g MODE_GETSTEP4 flag p)"
  by (cases "g_code g p") (simp_all add: do_exp_def step4_defs list_all_map)

lemma step4_tree: "list_all (allowed False step4_walker) (do_tree g MODE_GETSTEP4 p)"
proof -
  have "list_all (allowed False step4_walker) (tree_by_class g MODE_GETSTEP4 code p)" for code
    by (cases "g_class g code"; cases code;
        simp add: tree_by_class_def tree_declaration_def tree_constant_def tree_exceptional_def
          step4_exp step4_defs)
  then show ?thesis by (cases "g_code g p") (simp_all add: do_tree_def step4_defs)
qed

lemma walker_code_step4:
  "step4_walker w \<Longrightarrow> list_all (allowed False step4_walker) (walker_code g MODE_GETSTEP4 w p)"
  by (cases w) (simp_all add: walker_code_def step4_tree step4_defs do_gimple_seq_def
      do_cpp_macro_8_def do_cpp_macro_9_def)

subsection \<open>The adjustment checks no NULL pointer\<close>

lemmas adjust_defs = step4_defs ptr_def
    do_gimple_base_def do_use_optype_d_def do_gs_with_ops_base_def do_gs_ops_def do_gs_with_ops_def
    do_gs_with_mem_ops_base_def do_gs_with_mem_ops_def do_gcall_def do_gs_omp_def do_gbind_def
    do_gcatch_def do_geh_filter_def do_geh_else_def do_geh_mnt_def do_phi_arg_d_def
    do_gphi_def do_gs_eh_ctrl_def do_gresx_def do_geh_dispatch_def do_gtry_def
    do_gs_wce_def do_gasm_def do_gomp_critical_def do_gomp_for_iter_def do_gomp_for_def
    do_gs_omp_parallel_layout_def do_gs_omp_taskreg_def do_gomp_parallel_def do_gomp_target_def do_gomp_task_def
    do_gomp_sections_def do_gomp_continue_def do_gs_omp_single_layout_def do_gomp_single_def do_gomp_teams_def
    do_gomp_ordered_def do_gomp_atomic_load_def do_gs_omp_atomic_store_layout_def do_gomp_atomic_store_def do_gs_omp_return_def
    do_gtransaction_def do_gcond_def do_gdebug_def do_ggoto_def do_glabel_def
    do_gswitch_def do_gassign_def do_greturn_def

lemma adjust_exp: "list_all (allowed True (\<lambda>w. True)) (do_exp g MODE_ADJUST flag p)"
  by (simp add: do_exp_def adjust_defs list_all_map)

lemma adjust_tree: "list_all (allowed True (\<lambda>w. True)) (do_tree g MODE_ADJUST p)"
proof -
  have "list_all (allowed True (\<lambda>w. True)) (tree_by_class g MODE_ADJUST code p)" for code
    by (cases "g_class g code"; cases code;
        simp add: tree_by_class_def tree_declaration_def tree_constant_def tree_exceptional_def
          adjust_exp [simplified] adjust_defs split: ntv.split)
  then show ?thesis by (cases "g_code g p") (simp_all add: do_tree_def adjust_defs)
qed

lemma adjust_gimple_seq: "list_all (allowed True (\<lambda>w. True)) (do_gimple_seq g MODE_ADJUST p)"
  by (cases "g_gimple_code g p"; simp add: do_gimple_seq_def adjust_defs)

lemma walker_code_adjust:
  "list_all (allowed True (\<lambda>w. True)) (walker_code g MODE_ADJUST w p)"
  by (cases w) (simp_all add: walker_code_def adjust_tree [simplified]
      adjust_gimple_seq [simplified] adjust_defs do_cpp_macro_8_def do_cpp_macro_9_def
      split: ntv.split token_fld.split)

end
