(* ===== verification/Walk_Props.thy ===== *)
theory Walk_Props
  imports Walk_Run
begin

text \<open>
  What a walk does to the object table: the relation each mode respects, its interpretation
  in the general theory of walks, and the properties of the adjusting pass of a file.
\<close>

subsection \<open>The table during the adjustment\<close>

definition adj_cnt :: "file_obj list \<Rightarrow> nat" where
  "adj_cnt objs = length (filter fo_is_adjusted objs)"

definition obj_le :: "file_obj \<Rightarrow> file_obj \<Rightarrow> bool" where
  "obj_le a b \<longleftrightarrow> b = a\<lparr>fo_is_adjusted := fo_is_adjusted b\<rparr> \<and> (fo_is_adjusted a \<longrightarrow> fo_is_adjusted b)"

text \<open>
  \<open>idle_obj s i\<close>: the object is neither a location nor at an address; no walk reaches it.
\<close>

definition idle_obj :: "wstate \<Rightarrow> nat \<Rightarrow> bool" where
  "idle_obj s i \<longleftrightarrow> wk_reals s ! i = 0 \<and> \<not> is_location (fo_fake_addr (wk_objs s ! i))"

definition grows :: "wstate \<Rightarrow> wstate \<Rightarrow> bool" where
  "grows s t \<longleftrightarrow>
     list_all2 obj_le (wk_objs s) (wk_objs t) \<and> wk_reals t = wk_reals s \<and>
     wk_adjusted t + adj_cnt (wk_objs s) = wk_adjusted s + adj_cnt (wk_objs t) \<and>
     (\<forall>i < length (wk_objs s). idle_obj s i \<longrightarrow>
        fo_is_adjusted (wk_objs t ! i) = fo_is_adjusted (wk_objs s ! i))"

lemma obj_le_refl: "obj_le a a"
  by (simp add: obj_le_def)

lemma obj_le_trans: "obj_le a b \<Longrightarrow> obj_le b c \<Longrightarrow> obj_le a c"
  by (cases a; cases b; cases c) (auto simp: obj_le_def)

lemma grows_refl: "grows s s"
  by (simp add: grows_def list_all2_refl obj_le_refl)

lemma obj_le_fake: "list_all2 obj_le xs ys \<Longrightarrow> i < length xs \<Longrightarrow> fo_fake_addr (ys ! i) = fo_fake_addr (xs ! i)"
  by (drule (1) list_all2_nthD) (metis file_obj.select_convs(1) file_obj.surjective
      file_obj.update_convs(9) obj_le_def)

lemma grows_trans:
  assumes "grows s t" "grows t u"
  shows "grows s u"
proof -
  have len: "length (wk_objs t) = length (wk_objs s)"
    using assms(1) by (auto simp: grows_def dest: list_all2_lengthD)
  have "idle_obj t i \<longleftrightarrow> idle_obj s i" if "i < length (wk_objs s)" for i
    using assms(1) obj_le_fake that by (auto simp: grows_def idle_obj_def)
  moreover have "list_all2 obj_le (wk_objs s) (wk_objs u)"
    using list_all2_trans [of obj_le obj_le obj_le "wk_objs s" "wk_objs t" "wk_objs u"] assms obj_le_trans
    unfolding grows_def by blast
  ultimately show ?thesis using assms len unfolding grows_def by auto
qed

lemma adj_cnt_bound: "adj_cnt objs \<le> length objs"
  by (simp add: adj_cnt_def)

lemma adj_cnt_mono: "list_all2 obj_le xs ys \<Longrightarrow> adj_cnt xs \<le> adj_cnt ys"
  by (induction rule: list_all2_induct) (auto simp: adj_cnt_def obj_le_def)

lemma adj_cnt_update:
  "i < length objs \<Longrightarrow> \<not> fo_is_adjusted (objs ! i) \<Longrightarrow>
   adj_cnt (objs[i := (objs ! i)\<lparr>fo_is_adjusted := True\<rparr>]) = adj_cnt objs + 1"
proof (induction objs arbitrary: i)
  case (Cons a objs)
  then show ?case by (cases i) (auto simp: adj_cnt_def)
qed simp

lemma adj_cnt_full: "adj_cnt objs = length objs \<longleftrightarrow> (\<forall>ob \<in> set objs. fo_is_adjusted ob)"
  unfolding adj_cnt_def by (metis filter_True length_filter_less less_irrefl)

lemma mark_adjusted_grows:
  assumes "i < length (wk_objs s)" "\<not> fo_is_adjusted (wk_objs s ! i)" "\<not> idle_obj s i"
  shows "grows s (mark_adjusted i s)"
proof -
  have "list_all2 obj_le (wk_objs s) ((wk_objs s)[i := (wk_objs s ! i)\<lparr>fo_is_adjusted := True\<rparr>])"
    using assms by (auto simp: list_all2_conv_all_nth nth_list_update obj_le_def)
  moreover have "fo_is_adjusted ((wk_objs s)[i := (wk_objs s ! i)\<lparr>fo_is_adjusted := True\<rparr>] ! j) =
      fo_is_adjusted (wk_objs s ! j)" if "idle_obj s j" for j
    using that assms(3) by (cases "i = j") auto
  ultimately show ?thesis using adj_cnt_update [OF assms(1,2)]
    by (simp add: grows_def mark_adjusted_def)
qed

lemma grows_cong:
  "wk_objs s' = wk_objs s \<Longrightarrow> wk_reals s' = wk_reals s \<Longrightarrow> wk_adjusted s' = wk_adjusted s \<Longrightarrow>
   grows s' t \<longleftrightarrow> grows s t"
  by (simp add: grows_def idle_obj_def)

lemma search_order_bound: "i \<in> set (search_order reverse n) \<longleftrightarrow> i < n"
  by (auto simp: search_order_def)

lemma slist_find_order:
  "slist_find P (search_order reverse n) = Some i \<Longrightarrow> i < n \<and> P i"
  using slist_find_Some search_order_bound by metis

lemma adjust_check:
  assumes "is_obj_checked_adjust reverse p s = Some (b, t)" "0 < p"
  shows "grows s t \<and> (\<not> b \<longrightarrow> adj_cnt (wk_objs s) < adj_cnt (wk_objs t))"
proof -
  let ?s = "\<lambda>i. s\<lparr>wk_idx := i\<rparr>"
  from assms(1) obtain i where i: "i < length (wk_objs s)" "wk_reals s ! i = p"
    and t: "t = (if fo_is_adjusted (wk_objs s ! i) then ?s i else mark_adjusted i (?s i))"
    and b: "b \<longleftrightarrow> fo_is_adjusted (wk_objs s ! i)"
    by (auto simp: is_obj_checked_adjust_def Let_def split: option.splits if_splits
        dest!: slist_find_order)
  show ?thesis
  proof (cases "fo_is_adjusted (wk_objs s ! i)")
    case True
    then show ?thesis using t b grows_refl [of s] by (simp add: grows_def)
  next
    case False
    have "grows (?s i) t"
      using mark_adjusted_grows [of i "?s i"] i t False assms(2) by (simp add: idle_obj_def)
    then have "grows s t" using grows_cong [of "?s i" s] by simp
    moreover have "adj_cnt (wk_objs t) = adj_cnt (wk_objs s) + 1"
      using t False adj_cnt_update [OF i(1) False] by (simp add: mark_adjusted_def)
    ultimately show ?thesis by simp
  qed
qed

lemma expand_location_grows: "my_expand_location loc s = Some (x, t) \<Longrightarrow> grows s t"
proof -
  assume "my_expand_location loc s = Some (x, t)"
  then obtain i where i: "i < length (wk_objs s)" "\<not> fo_is_adjusted (wk_objs s ! i)"
      "is_location (fo_fake_addr (wk_objs s ! i))"
    and t: "t = mark_adjusted i (s\<lparr>wk_idx := i, wk_mem := (wk_mem s)(loc := fo_offs (wk_objs s ! i))\<rparr>)"
    by (auto simp: my_expand_location_def Let_def split: option.splits if_splits dest!: slist_find_Some)
  let ?s = "s\<lparr>wk_idx := i, wk_mem := (wk_mem s)(loc := fo_offs (wk_objs s ! i))\<rparr>"
  have "grows ?s t" using mark_adjusted_grows [of i ?s] i t by (simp add: idle_obj_def)
  then show "grows s t" using grows_cong [of ?s s] by simp
qed

text \<open>In phase 4: the table and the memory stay, the list of objects seen grows.\<close>

definition looks :: "wstate \<Rightarrow> wstate \<Rightarrow> bool" where
  "looks s t \<longleftrightarrow>
     wk_objs t = wk_objs s \<and> wk_mem t = wk_mem s \<and> wk_idx t = wk_idx s \<and> wk_adjusted t = wk_adjusted s \<and>
     prefix (wk_checked s) (wk_checked t) \<and> prefix (wk_marks s) (wk_marks t) \<and>
     (distinct (wk_checked s) \<longrightarrow> distinct (wk_checked t)) \<and>
     (length (wk_checked s) < length (wk_objs s) \<longrightarrow> length (wk_checked t) < length (wk_objs t))"

lemma looks_refl: "looks s s"
  by (simp add: looks_def)

lemma looks_trans: "looks s t \<Longrightarrow> looks t u \<Longrightarrow> looks s u"
  unfolding looks_def using prefix_order.trans by auto

lemma not_seen: "slist_find (\<lambda>i. xs ! i = p) (search_order reverse (length xs)) = None \<longleftrightarrow> p \<notin> set xs"
proof -
  have "slist_find (\<lambda>i. xs ! i = p) (search_order reverse (length xs)) = None \<longleftrightarrow> (\<forall>i < length xs. xs ! i \<noteq> p)"
    unfolding slist_find_None using search_order_bound by metis
  then show ?thesis by (metis in_set_conv_nth)
qed

lemma step4_check:
  assumes "is_obj_checked_step4 reverse p s = Some (b, t)"
  shows "looks s t \<and> (b \<longrightarrow> t = s \<and> p \<in> set (wk_checked s)) \<and>
         (\<not> b \<longrightarrow> p \<notin> set (wk_checked s) \<and> wk_checked t = wk_checked s @ [p] \<and>
                   length (wk_checked t) < length (wk_objs s))"
proof (cases "p \<in> set (wk_checked s)")
  case True
  then show ?thesis using assms not_seen [of "wk_checked s" p reverse] looks_refl
    by (auto simp: is_obj_checked_step4_def split: option.splits)
next
  case False
  then show ?thesis using assms not_seen [of "wk_checked s" p reverse]
    by (auto simp: is_obj_checked_step4_def looks_def Let_def split: option.splits if_splits)
qed

subsection \<open>The two modes as instances\<close>

lemma check_adjust:
  "0 < p \<Longrightarrow> is_obj_checked MODE_ADJUST p s = Some (b, t) \<Longrightarrow>
   grows s t \<and> (\<not> b \<longrightarrow> adj_cnt (wk_objs s) < adj_cnt (wk_objs t))"
  by (rule adjust_check [of True]) (simp_all add: is_obj_checked_def)

lemma check_step4:
  "is_obj_checked MODE_GETSTEP4 p s = Some (b, t) \<Longrightarrow>
   looks s t \<and> (b \<longrightarrow> t = s \<and> p \<in> set (wk_checked s)) \<and>
   (\<not> b \<longrightarrow> p \<notin> set (wk_checked s) \<and> wk_checked t = wk_checked s @ [p] \<and>
             length (wk_checked t) < length (wk_objs s))"
  by (rule step4_check [of True]) (simp add: is_obj_checked_def)

interpretation adjusting: walk_bounded g MODE_ADJUST grows True "\<lambda>w. True"
    "\<lambda>s. length (wk_objs s) - adj_cnt (wk_objs s)" for g
proof unfold_locales
  show "grows s s" for s by (rule grows_refl)
  show "grows s t \<Longrightarrow> grows t u \<Longrightarrow> grows s u" for s t u by (rule grows_trans)
  show "0 < p \<Longrightarrow> is_obj_checked MODE_ADJUST p s = Some (b, t) \<Longrightarrow> grows s t" for p s b t
    using check_adjust by blast
  show "grows s (s\<lparr>wk_mem := (wk_mem s)(cell := v)\<rparr>)" for s cell v
    using grows_refl [of s] by (simp add: grows_def)
  show "my_expand_location loc s = Some (x, t) \<Longrightarrow> grows s t" for loc s x t
    by (rule expand_location_grows)
  show "grows s (s\<lparr>wk_marks := wk_marks s @ [e]\<rparr>)" for s e
    using grows_refl [of s] by (simp add: grows_def)
  show "length (wk_objs t) - adj_cnt (wk_objs t) < length (wk_objs s) - adj_cnt (wk_objs s)"
    if "0 < p" "is_obj_checked MODE_ADJUST p s = Some (False, t)" for p s t
    using check_adjust [OF that] adj_cnt_bound [of "wk_objs t"]
    by (auto simp: grows_def dest!: list_all2_lengthD)
  show "length (wk_objs t) - adj_cnt (wk_objs t) \<le> length (wk_objs s) - adj_cnt (wk_objs s)"
    if "grows s t" for s t
    using that adj_cnt_mono list_all2_lengthD by (fastforce simp: grows_def)
qed

interpretation looking: walk_bounded g MODE_GETSTEP4 looks False step4_walker
    "\<lambda>s. length (wk_objs s) - length (wk_checked s)" for g
proof unfold_locales
  show "looks s s" for s by (rule looks_refl)
  show "looks s t \<Longrightarrow> looks t u \<Longrightarrow> looks s u" for s t u by (rule looks_trans)
  show "is_obj_checked MODE_GETSTEP4 p s = Some (b, t) \<Longrightarrow> looks s t" for p s b t
    using check_step4 by blast
  show "looks s (s\<lparr>wk_marks := wk_marks s @ [e]\<rparr>)" for s e by (simp add: looks_def)
  show "length (wk_objs t) - length (wk_checked t) < length (wk_objs s) - length (wk_checked s)"
    if "is_obj_checked MODE_GETSTEP4 p s = Some (False, t)" for p s t
    using check_step4 [OF that] by (auto simp: looks_def)
  show "length (wk_objs t) - length (wk_checked t) \<le> length (wk_objs s) - length (wk_checked s)"
    if "looks s t" for s t
    using that by (auto simp: looks_def dest!: prefix_length_le)
qed (simp_all)

end
