(* ===== verification/Walk_Adjust.thy ===== *)
theory Walk_Adjust
  imports Walk_Props
begin

text \<open>
  The adjusting pass of one compiled file: case \<open>MODE_ADJUST\<close> of \<open>c_parse\<close> with
  \<open>do_gcc_global_var_adjust\<close>, and the properties of the walks.
\<close>

definition THREAD_STACKSZ :: nat where
  "THREAD_STACKSZ = 1024 * 1024 * 16"

text \<open>
  The table before the pass. A global variable of GCC that is NULL, or that is an object
  collected elsewhere in the file (its size is 0), has no address of its own.
\<close>

definition unplaced :: "file_obj \<Rightarrow> bool" where
  "unplaced ob \<longleftrightarrow> fo_gcc_global_varidx ob \<noteq> 0 \<and> (fo_fake_addr ob = 0 \<or> fo_size ob = 0)"

definition prepare_obj :: "file_obj \<Rightarrow> file_obj" where
  "prepare_obj ob =
     ob\<lparr>fo_is_adjusted := False, fo_real_addr := (if unplaced ob then 0 else fo_real_addr ob)\<rparr>"

definition adjust_start :: "file_obj list \<Rightarrow> (addr \<Rightarrow> nat) \<Rightarrow> wstate" where
  "adjust_start objs mem =
     \<lparr>wk_objs = map prepare_obj objs, wk_reals = map (\<lambda>ob. fo_real_addr (prepare_obj ob)) objs,
      wk_idx = 0, wk_adjusted = 0, wk_mem = mem, wk_checked = [], wk_marks = []\<rparr>"

definition place_global :: "nat \<Rightarrow> addr \<Rightarrow> wstate \<Rightarrow> wstate" where
  "place_global i real s =
     s\<lparr>wk_objs := (wk_objs s)[i := (wk_objs s ! i)\<lparr>fo_real_addr := real, fo_is_adjusted := True\<rparr>],
       wk_adjusted := wk_adjusted s + 1\<rparr>"

definition adjust_global :: "gcc \<Rightarrow> nat \<Rightarrow> nat \<Rightarrow> wstate \<Rightarrow> outcome" where
  "adjust_global g depth i s =
     (let ob = wk_objs s ! i in
      if fo_gcc_global_varidx ob = 0 then Ret s
      else if fo_fake_addr ob = 0 then Ret (place_global i 0 s)
      else if fo_size ob = 0
      then let real = fst (get_real_addr False (wk_objs s) (fo_fake_addr ob))
           in if real = 0 then Abort else Ret (place_global i real s)
      else and_then (walk_run g MODE_ADJUST depth W_tree (fo_real_addr ob) s)
             (\<lambda>t. if wk_adjusted t \<le> wk_adjusted s then Abort else Ret t))"

definition do_gcc_global_var_adjust :: "gcc \<Rightarrow> nat \<Rightarrow> wstate \<Rightarrow> outcome" where
  "do_gcc_global_var_adjust g depth s = chain (map (adjust_global g depth) [0..<length (wk_objs s)]) s"

definition c_parse_adjust :: "gcc \<Rightarrow> nat \<Rightarrow> file_obj list \<Rightarrow> (addr \<Rightarrow> nat) \<Rightarrow> outcome" where
  "c_parse_adjust g depth objs mem =
     (let s = adjust_start objs mem in
      if objs = [] then Ret s
      else if THREAD_STACKSZ \<le> length objs * 8 * 2 then Abort
      else and_then (walk_run g MODE_ADJUST depth W_tree (fo_real_addr (wk_objs s ! 0)) s)
        (\<lambda>s. and_then (do_gcc_global_var_adjust g depth s)
           (\<lambda>s. if wk_adjusted s \<noteq> length (wk_objs s) then Abort else Ret s)))"

subsection \<open>Every walk ends\<close>

lemma adjust_fits: "length (wk_objs s) < depth \<Longrightarrow> walk_run g MODE_ADJUST depth w p s \<noteq> Deep"
proof -
  assume "length (wk_objs s) < depth"
  moreover have "adjusting.fits depth (walk_run g MODE_ADJUST depth w p)"
    unfolding walk_run_def using walker_code_adjust walker_code_guarded
    by (intro adjusting.run_walker_fits) auto
  ultimately show ?thesis using adjusting.fitsD by (metis diff_le_self le_less_trans)
qed

lemma step4_fits:
  "step4_walker w \<Longrightarrow> length (wk_objs s) < depth \<Longrightarrow> walk_run g MODE_GETSTEP4 depth w p s \<noteq> Deep"
proof -
  assume w: "step4_walker w" and "length (wk_objs s) < depth"
  moreover have "looking.fits depth (walk_run g MODE_GETSTEP4 depth w p)"
    unfolding walk_run_def using walker_code_step4 walker_code_guarded w
    by (intro looking.run_walker_fits) auto
  ultimately show ?thesis using looking.fitsD by (metis diff_le_self le_less_trans)
qed

lemma adjust_grows: "walk_run g MODE_ADJUST depth w p s = Ret t \<Longrightarrow> grows s t"
proof -
  have "adjusting.keeps (walk_run g MODE_ADJUST depth w p)"
    unfolding walk_run_def using walker_code_adjust by (intro adjusting.run_walker_keeps) auto
  then show "walk_run g MODE_ADJUST depth w p s = Ret t \<Longrightarrow> grows s t" by (rule adjusting.keepsD)
qed

lemma step4_looks: "step4_walker w \<Longrightarrow> walk_run g MODE_GETSTEP4 depth w p s = Ret t \<Longrightarrow> looks s t"
proof -
  assume "step4_walker w"
  then have "looking.keeps (walk_run g MODE_GETSTEP4 depth w p)"
    unfolding walk_run_def using walker_code_step4 by (intro looking.run_walker_keeps) auto
  then show "walk_run g MODE_GETSTEP4 depth w p s = Ret t \<Longrightarrow> looks s t" by (rule looking.keepsD)
qed

text \<open>
  C9. A walk over the objects of a file ends: from any walker on any pointer, whatever the
  memory holds (cycles and shared nodes included), a recursion depth of one more than the
  number of objects is enough, both for the adjustment and for phase 4.
\<close>

theorem walk_ends:
  assumes "length (wk_objs s) < depth"
    and "m = MODE_ADJUST \<or> m = MODE_GETSTEP4 \<and> step4_walker w"
  shows "walk_run g m depth w p s \<noteq> Deep"
  using assms adjust_fits step4_fits by blast

subsection \<open>The globals of GCC\<close>

text \<open>What the pass knows before it handles the global at index \<open>i\<close>.\<close>

definition globals_from :: "file_obj list \<Rightarrow> nat \<Rightarrow> wstate \<Rightarrow> bool" where
  "globals_from objs i s \<longleftrightarrow>
     length (wk_objs s) = length objs \<and> wk_reals s = map (\<lambda>ob. fo_real_addr (prepare_obj ob)) objs \<and>
     wk_adjusted s = adj_cnt (wk_objs s) \<and>
     (\<forall>j < length objs.
        fo_fake_addr (wk_objs s ! j) = fo_fake_addr (objs ! j) \<and>
        fo_size (wk_objs s ! j) = fo_size (objs ! j) \<and>
        fo_gcc_global_varidx (wk_objs s ! j) = fo_gcc_global_varidx (objs ! j) \<and>
        (i \<le> j \<and> unplaced (objs ! j) \<longrightarrow> \<not> fo_is_adjusted (wk_objs s ! j)))"

lemma grows_globals_from:
  assumes "globals_from objs i s" "grows s t"
    and "\<forall>ob \<in> set objs. fo_gcc_global_varidx ob \<noteq> 0 \<longrightarrow> \<not> is_location (fo_fake_addr ob)"
  shows "globals_from objs i t"
proof -
  have all: "list_all2 obj_le (wk_objs s) (wk_objs t)" using assms(2) by (simp add: grows_def)
  have len: "length (wk_objs t) = length (wk_objs s)" using all by (simp add: list_all2_lengthD)
  have eq: "fo_fake_addr (wk_objs t ! j) = fo_fake_addr (wk_objs s ! j) \<and>
      fo_size (wk_objs t ! j) = fo_size (wk_objs s ! j) \<and>
      fo_gcc_global_varidx (wk_objs t ! j) = fo_gcc_global_varidx (wk_objs s ! j)"
    if "j < length (wk_objs s)" for j
  proof -
    have "wk_objs t ! j = (wk_objs s ! j)\<lparr>fo_is_adjusted := fo_is_adjusted (wk_objs t ! j)\<rparr>"
      using all that by (auto dest: list_all2_nthD simp: obj_le_def)
    then have "fo_fake_addr (wk_objs t ! j) = fo_fake_addr ((wk_objs s ! j)\<lparr>fo_is_adjusted := fo_is_adjusted (wk_objs t ! j)\<rparr>)"
      "fo_size (wk_objs t ! j) = fo_size ((wk_objs s ! j)\<lparr>fo_is_adjusted := fo_is_adjusted (wk_objs t ! j)\<rparr>)"
      "fo_gcc_global_varidx (wk_objs t ! j) = fo_gcc_global_varidx ((wk_objs s ! j)\<lparr>fo_is_adjusted := fo_is_adjusted (wk_objs t ! j)\<rparr>)"
      by metis+
    then show ?thesis by simp
  qed
  have idle: "fo_is_adjusted (wk_objs t ! j) = fo_is_adjusted (wk_objs s ! j)"
    if "j < length objs" "unplaced (objs ! j)" for j
  proof -
    have "idle_obj s j" using that assms(1,3) by (auto simp: idle_obj_def globals_from_def prepare_obj_def unplaced_def)
    then show ?thesis using assms(1,2) that by (simp add: grows_def globals_from_def)
  qed
  show ?thesis using assms(1,2) eq idle len by (auto simp: globals_from_def grows_def)
qed

lemma place_global_from:
  assumes "globals_from objs i s" "i < length objs" "unplaced (objs ! i)"
  shows "globals_from objs (Suc i) (place_global i real s)"
proof -
  let ?o = "(wk_objs s ! i)\<lparr>fo_real_addr := real, fo_is_adjusted := True\<rparr>"
  have i: "i < length (wk_objs s)" "\<not> fo_is_adjusted (wk_objs s ! i)"
    using assms by (auto simp: globals_from_def)
  have "adj_cnt ((wk_objs s)[i := ?o]) = adj_cnt (wk_objs s) + 1"
    using i
  proof (induction "wk_objs s" arbitrary: i s)
    case (Cons a objs)
    show ?case
    proof (cases i)
      case 0
      then show ?thesis using Cons.prems by (simp add: adj_cnt_def flip: Cons.hyps(2))
    next
      case (Suc j)
      have "adj_cnt (objs[j := (objs ! j)\<lparr>fo_real_addr := real, fo_is_adjusted := True\<rparr>]) = adj_cnt objs + 1"
        using Cons.hyps(1) [of "s\<lparr>wk_objs := objs\<rparr>" j] Cons.prems Suc by (simp flip: Cons.hyps(2))
      then show ?thesis using Suc by (simp add: adj_cnt_def flip: Cons.hyps(2))
    qed
  qed simp
  then show ?thesis using assms(1) i
    by (auto simp: globals_from_def place_global_def nth_list_update)
qed

lemma adjust_global_from:
  assumes "globals_from objs i s" "i < length objs" "adjust_global g depth i s = Ret t"
    and "\<forall>ob \<in> set objs. fo_gcc_global_varidx ob \<noteq> 0 \<longrightarrow> \<not> is_location (fo_fake_addr ob)"
  shows "globals_from objs (Suc i) t"
proof (cases "unplaced (objs ! i)")
  case True
  then obtain real where "t = place_global i real s"
    using assms(1-3) by (auto simp: adjust_global_def unplaced_def globals_from_def Let_def split: if_splits)
  then show ?thesis using place_global_from assms(1,2) True by blast
next
  case False
  then have "t = s \<or> grows s t"
    using assms(1-3)
    by (auto simp: adjust_global_def unplaced_def globals_from_def Let_def and_then_Ret
        split: if_splits dest: adjust_grows [simplified])
  then have "globals_from objs i t" using grows_globals_from assms(1,4) by blast
  then show ?thesis by (auto simp: globals_from_def)
qed

lemma adjust_globals_from:
  assumes "\<forall>ob \<in> set objs. fo_gcc_global_varidx ob \<noteq> 0 \<longrightarrow> \<not> is_location (fo_fake_addr ob)"
  shows "globals_from objs i s \<Longrightarrow> i + n = length objs \<Longrightarrow>
     chain (map (adjust_global g depth) [i..<length objs]) s = Ret t \<Longrightarrow> globals_from objs (length objs) t"
proof (induction n arbitrary: i s)
  case (Suc n)
  then have i: "i < length objs" by simp
  from Suc.prems(3) obtain u where u: "adjust_global g depth i s = Ret u"
      "chain (map (adjust_global g depth) [Suc i..<length objs]) u = Ret t"
    using i by (auto simp: upt_conv_Cons and_then_Ret)
  show ?case using Suc.IH [OF adjust_global_from [OF Suc.prems(1) i u(1) assms] _ u(2)] Suc.prems(2) by simp
qed simp

lemma adjust_globals_end:
  assumes "length (wk_objs s) < depth"
  shows "chain (map (adjust_global g depth) is) s \<noteq> Deep"
  using assms
proof (induction "is" arbitrary: s)
  case (Cons i "is")
  have "adjust_global g depth i s \<noteq> Deep"
    using adjust_fits [OF Cons.prems]
    by (auto simp: adjust_global_def Let_def and_then_Deep split: if_splits)
  moreover have "length (wk_objs t) = length (wk_objs s)" if "adjust_global g depth i s = Ret t" for t
    using that by (auto simp: adjust_global_def Let_def and_then_Ret place_global_def grows_def
        split: if_splits dest!: adjust_grows [simplified] list_all2_lengthD)
  ultimately show ?case using Cons by (auto simp: and_then_Deep)
qed simp

lemma adjust_start_from: "globals_from objs 0 (adjust_start objs mem)"
  by (auto simp: globals_from_def adjust_start_def adj_cnt_def prepare_obj_def filter_empty_conv)

text \<open>
  The adjusting pass of a file ends: it returns or aborts for every table and memory, with
  a recursion depth of one more than the number of objects.
\<close>

theorem adjust_pass_ends:
  assumes "length objs < depth"
  shows "c_parse_adjust g depth objs mem \<noteq> Deep"
proof
  let ?s = "adjust_start objs mem"
  assume "c_parse_adjust g depth objs mem = Deep"
  moreover have "length (wk_objs ?s) < depth" using assms by (simp add: adjust_start_def)
  moreover have "length (wk_objs t) = length (wk_objs ?s)"
    if "walk_run g MODE_ADJUST depth W_tree p ?s = Ret t" for p t
    using adjust_grows [OF that] by (auto simp: grows_def dest: list_all2_lengthD)
  ultimately show False
    using adjust_fits adjust_globals_end
    by (fastforce simp: c_parse_adjust_def Let_def and_then_Deep do_gcc_global_var_adjust_def
        split: if_splits)
qed

text \<open>
  C3. When the adjusting pass of a file returns, every object of the file has been adjusted,
  each one exactly once: the counter the pass checks at its end is the number of adjusted
  objects. The locations of a file are never globals of GCC.
\<close>

theorem adjust_pass_complete:
  assumes "c_parse_adjust g depth objs mem = Ret t"
    and "\<forall>ob \<in> set objs. fo_gcc_global_varidx ob \<noteq> 0 \<longrightarrow> \<not> is_location (fo_fake_addr ob)"
  shows "(\<forall>ob \<in> set (wk_objs t). fo_is_adjusted ob) \<and> wk_adjusted t = length objs"
proof (cases "objs = []")
  case True
  then show ?thesis using assms(1) by (auto simp: c_parse_adjust_def adjust_start_def)
next
  case False
  then obtain p s where s: "walk_run g MODE_ADJUST depth W_tree p (adjust_start objs mem) = Ret s"
      "do_gcc_global_var_adjust g depth s = Ret t" "wk_adjusted t = length (wk_objs t)"
    using assms(1) by (auto simp: c_parse_adjust_def Let_def and_then_Ret split: if_splits)
  have "globals_from objs 0 s"
    using grows_globals_from [OF adjust_start_from adjust_grows [OF s(1)] assms(2)] .
  then have "globals_from objs (length objs) t"
    using adjust_globals_from [OF assms(2), of 0 s "length objs"] s(2)
    by (auto simp: do_gcc_global_var_adjust_def globals_from_def)
  then show ?thesis using s(3) adj_cnt_full [of "wk_objs t"] by (auto simp: globals_from_def)
qed

text \<open>
  C15. The phase 4 walk reads only: it changes neither the memory nor the object table, never
  puts an object on its list of seen objects twice, and keeps that list shorter than the
  table, so that the array it lives in is never overrun.
\<close>

theorem step4_reads_only:
  assumes "walk_run g MODE_GETSTEP4 depth w p s = Ret t" "step4_walker w"
    and "distinct (wk_checked s)" "length (wk_checked s) < length (wk_objs s)"
  shows "wk_mem t = wk_mem s \<and> wk_objs t = wk_objs s \<and> prefix (wk_checked s) (wk_checked t) \<and>
         distinct (wk_checked t) \<and> length (wk_checked t) < length (wk_objs t)"
  using step4_looks [OF assms(2,1)] assms(3,4) unfolding looks_def by auto

text \<open>
  A file with 0x100000 objects or more cannot be adjusted: the two address arrays would
  not fit the stack of the thread, and the process aborts, although the format allows
  0x800000 objects. A pass that returns has therefore only seen tables so small that the
  search from an eighth of the maximum upwards was never used.
\<close>

theorem adjust_pass_small:
  assumes "c_parse_adjust g depth objs mem = Ret t"
  shows "length objs < 0x100000 \<and> search_order True (length objs) = [0..<length objs]"
  using assms
  by (auto simp: c_parse_adjust_def THREAD_STACKSZ_def search_order_def MAX_OBJS_PER_FILE_def
      Let_def split: if_splits)

subsection \<open>A small file\<close>

text \<open>
  Two integer constants whose type pointers lead to each other, and a global of GCC that is
  NULL.
\<close>

definition gcc0 :: gcc where
  "gcc0 = \<lparr>g_off = (\<lambda>n. if n = ''tree_typed.type'' then 8 else 0), g_size = (\<lambda>n. 8), g_get = (\<lambda>n p. 0),
     g_code = (\<lambda>p. INTEGER_CST), g_class = (\<lambda>c. tcc_constant), g_gimple_code = (\<lambda>p. GIMPLE_NOP),
     g_ntv = (\<lambda>p. NTV_NONE), g_token_fld = (\<lambda>p. CPP_TOKEN_FLD_PRAGMA), g_macro_kind = (\<lambda>p. cmk_macro),
     g_version = 9, g_collect_more = False, g_free_ssanames = False\<rparr>"

definition obj0 :: "nat \<Rightarrow> nat \<Rightarrow> nat \<Rightarrow> file_obj" where
  "obj0 fake real varidx =
     \<lparr>fo_fake_addr = fake, fo_real_addr = real, fo_size = 24, fo_offs = 0, fo_gcc_global_varidx = varidx,
      fo_is_function = False, fo_is_global_var = False, fo_is_type = False, fo_is_adjusted = False,
      fo_is_dropped = False, fo_is_replaced = False\<rparr>"

definition file0 :: "file_obj list" where
  "file0 = [obj0 16 4096 0, obj0 32 8192 0, obj0 0 0 1]"

definition mem0 :: "addr \<Rightarrow> nat" where
  "mem0 = (\<lambda>a. if a = 4104 then 32 else if a = 8200 then 16 else 0)"

lemmas file0_defs = gcc0_def obj0_def file0_def mem0_def

lemma walk_run_depth:
  "walk_run g m (numeral k) w p s = run_steps g m (walk_run g m (pred_numeral k)) (walker_code g m w p) s"
  "walk_run g m (Suc n) w p s = run_steps g m (walk_run g m n) (walker_code g m w p) s"
  by (simp_all add: walk_run_def numeral_eq_Suc)

lemmas walk_eval =
  walk_run_depth walker_code_def do_tree_def do_int_cst_def do_typed_def do_base_def at_def ptr_def Go_def
  is_obj_checked_def is_obj_checked_adjust_def is_obj_checked_step4_def get_real_addr_def
  search_order_def MAX_OBJS_PER_FILE_def do_enter_def do_check_def do_real_addr_def mark_adjusted_def

lemma start0: "adjust_start file0 mem0 =
  \<lparr>wk_objs = [obj0 16 4096 0, obj0 32 8192 0, obj0 0 0 1], wk_reals = [4096, 8192, 0],
      wk_idx = 0, wk_adjusted = 0, wk_mem = mem0, wk_checked = [], wk_marks = []\<rparr>"
  by (simp add: adjust_start_def file0_defs prepare_obj_def unplaced_def)

lemma walk0: "\<exists>t. walk_run gcc0 MODE_ADJUST 4 W_tree 4096 (adjust_start file0 mem0) = Ret t \<and>
   wk_objs t = [(obj0 16 4096 0)\<lparr>fo_is_adjusted := True\<rparr>, (obj0 32 8192 0)\<lparr>fo_is_adjusted := True\<rparr>, obj0 0 0 1] \<and>
   wk_reals t = [4096, 8192, 0] \<and> wk_adjusted t = 2 \<and> wk_mem t = mem0(4104 := 8192, 8200 := 4096)"
  unfolding start0
  by (simp add: file0_defs walk_eval)

lemma pass0: "\<exists>t. c_parse_adjust gcc0 4 file0 mem0 = Ret t \<and> wk_adjusted t = 3 \<and>
    wk_mem t = mem0(4104 := 8192, 8200 := 4096)"
proof -
  obtain t where t: "walk_run gcc0 MODE_ADJUST 4 W_tree 4096 (adjust_start file0 mem0) = Ret t"
    "wk_objs t = [(obj0 16 4096 0)\<lparr>fo_is_adjusted := True\<rparr>, (obj0 32 8192 0)\<lparr>fo_is_adjusted := True\<rparr>, obj0 0 0 1]"
    "wk_adjusted t = 2" "wk_mem t = mem0(4104 := 8192, 8200 := 4096)"
    using walk0 by blast
  have "do_gcc_global_var_adjust gcc0 4 t = Ret (place_global 2 0 t)"
    by (simp add: do_gcc_global_var_adjust_def adjust_global_def t(2) obj0_def eval_nat_numeral)
  moreover have "fo_real_addr (wk_objs (adjust_start file0 mem0) ! 0) = 4096"
    by (simp add: start0 obj0_def)
  moreover have "length file0 = 3" "file0 \<noteq> []" by (simp_all add: file0_def)
  ultimately show ?thesis using t
    by (simp add: c_parse_adjust_def Let_def THREAD_STACKSZ_def place_global_def)
qed

theorem walk_ends_witness:
  "walk_run gcc0 MODE_ADJUST 4 W_tree 4096 (adjust_start file0 mem0) \<noteq> Deep"
  by (rule walk_ends) (simp_all add: start0)

theorem adjust_pass_ends_witness: "c_parse_adjust gcc0 4 file0 mem0 \<noteq> Deep"
  by (rule adjust_pass_ends) (simp add: file0_def)

lemma file0_no_location: "\<forall>ob \<in> set file0. fo_gcc_global_varidx ob \<noteq> 0 \<longrightarrow> \<not> is_location (fo_fake_addr ob)"
  by (simp add: file0_def obj0_def is_location_def)

theorem adjust_pass_complete_witness:
  "\<exists>t. c_parse_adjust gcc0 4 file0 mem0 = Ret t \<and> (\<forall>ob \<in> set (wk_objs t). fo_is_adjusted ob) \<and>
       wk_adjusted t = 3"
proof -
  obtain t where t: "c_parse_adjust gcc0 4 file0 mem0 = Ret t" using pass0 by blast
  show ?thesis using t adjust_pass_complete [OF t file0_no_location] by (simp add: file0_def)
qed

theorem adjust_pass_small_witness: "search_order True (length file0) = [0, 1, 2]"
proof -
  obtain t where t: "c_parse_adjust gcc0 4 file0 mem0 = Ret t" using pass0 by blast
  show ?thesis using adjust_pass_small [OF t] by (simp add: file0_def)
qed

text \<open>A list of two constants, walked in phase 4.\<close>

definition gcc1 :: gcc where
  "gcc1 = gcc0\<lparr>g_off := (\<lambda>n. if n = ''tree_list.purpose'' then 8 else if n = ''tree_list.value'' then 16 else 0),
     g_code := (\<lambda>p. if p = 4096 then TREE_LIST else INTEGER_CST),
     g_class := (\<lambda>c. if c = TREE_LIST then tcc_exceptional else tcc_constant)\<rparr>"

definition mem1 :: "addr \<Rightarrow> nat" where
  "mem1 = (\<lambda>a. if a = 4104 then 8192 else if a = 4112 then 8192 else 0)"

lemma step4_0: "\<exists>t. walk_run gcc1 MODE_GETSTEP4 4 W_tree 4096 (adjust_start file0 mem1) = Ret t \<and>
    wk_checked t = [4096, 8192]"
  by (simp add: adjust_start_def prepare_obj_def unplaced_def gcc1_def mem1_def file0_defs walk_eval
      tree_by_class_def tree_exceptional_def do_list_def do_common_def)

theorem step4_reads_only_witness:
  "\<exists>t. walk_run gcc1 MODE_GETSTEP4 4 W_tree 4096 (adjust_start file0 mem1) = Ret t \<and>
       wk_mem t = mem1 \<and> distinct (wk_checked t)"
proof -
  obtain t where t: "walk_run gcc1 MODE_GETSTEP4 4 W_tree 4096 (adjust_start file0 mem1) = Ret t"
    using step4_0 by blast
  have "step4_walker W_tree" by (simp add: step4_walker_def)
  then show ?thesis using t step4_reads_only [OF t]
    by (auto simp: adjust_start_def file0_def)
qed

subsection \<open>Relocation\<close>

text \<open>
  C13. A relocated pointer is NULL or the address of an object whose compiler address it held.
  Relocating the same field a second time would lose it: no real address is the compiler
  address of an object, so the second relocation makes the pointer NULL.
\<close>

theorem relocated_once:
  assumes "get_real_addr r objs fake = (v, b)"
    and "\<forall>ob \<in> set objs. \<forall>ob' \<in> set objs. fo_real_addr ob \<noteq> 0 \<longrightarrow> fo_fake_addr ob' \<noteq> fo_real_addr ob"
  shows "(v = 0 \<or> (\<exists>ob \<in> set objs. fo_fake_addr ob = fake \<and> fo_real_addr ob = v)) \<and>
         get_real_addr r objs v = (0, False)"
proof (cases "v = 0")
  case True
  then show ?thesis by (simp add: get_real_addr_def)
next
  case False
  then obtain i where i: "i < length objs" "fo_fake_addr (objs ! i) = fake" "fo_real_addr (objs ! i) = v"
    using assms(1) by (auto simp: get_real_addr_def split: if_splits option.splits dest!: slist_find_order)
  have "slist_find (\<lambda>i. fo_fake_addr (objs ! i) = v \<and> fo_real_addr (objs ! i) \<noteq> 0)
      (search_order r (length objs)) = None"
    using assms(2) i False search_order_bound nth_mem unfolding slist_find_None by metis
  then show ?thesis using i by (auto simp: get_real_addr_def)
qed

theorem relocated_once_witness:
  "get_real_addr True file0 32 = (8192, True) \<and> get_real_addr True file0 8192 = (0, False)"
proof -
  have r: "get_real_addr True file0 32 = (8192, True)"
    by (simp add: file0_def obj0_def get_real_addr_def search_order_def MAX_OBJS_PER_FILE_def)
  then show ?thesis using relocated_once [OF r] by (simp add: file0_def obj0_def)
qed

subsection \<open>Macros of GCC 9\<close>

lemma do_check_unknown:
  "p \<notin> set (wk_reals s) \<Longrightarrow> length (wk_reals s) = length (wk_objs s) \<Longrightarrow> do_check MODE_ADJUST p s = Abort"
proof -
  assume p: "p \<notin> set (wk_reals s)" "length (wk_reals s) = length (wk_objs s)"
  have "slist_find (\<lambda>i. wk_reals s ! i = p) (search_order True (length (wk_objs s))) = None"
    using p search_order_bound nth_mem unfolding slist_find_None by metis
  then show ?thesis by (simp add: do_check_def is_obj_checked_def is_obj_checked_adjust_def)
qed

text \<open>
  C37. With GCC 9 or later, a macro with parameters aborts the adjustment: the walker reads the
  parameter array before it relocates the pointer and then looks the compiler address up among
  the real ones.
\<close>

theorem macro_params_abort:
  assumes "9 \<le> g_version g" "g_macro_kind g node \<noteq> cmk_assert" "node \<noteq> 0"
    and "do_location g MODE_ADJUST (at g node ''cpp_macro.line'') s = Ret s1"
    and "wk_mem s1 (at g node ''cpp_macro.parm.params'') = fake" "fake \<noteq> 0"
    and "get_real_addr True (wk_objs s1) fake = (real, True)"
    and "fake \<notin> set (wk_reals s1)" "length (wk_reals s1) = length (wk_objs s1)"
  shows "run_steps g MODE_ADJUST rec (do_cpp_macro g MODE_ADJUST False node) s = Abort"
proof -
  let ?cell = "at g node ''cpp_macro.parm.params''"
  have "do_check MODE_ADJUST fake (s1\<lparr>wk_mem := (wk_mem s1)(?cell := real)\<rparr>) = Abort"
    using assms(8,9) by (intro do_check_unknown) simp_all
  then have "do_real_addr ?cell (run_steps g MODE_ADJUST rec [Chk fake]) s1 = Abort"
    using assms(5,7) by (simp add: do_real_addr_def)
  then show ?thesis using assms
    by (simp add: do_cpp_macro_def do_cpp_macro_9_def run_step_Enter run_step_Real run_step_Load
        do_enter_def del: run_step.simps(3))
qed

definition gcc9 :: gcc where
  "gcc9 = gcc0\<lparr>g_off := (\<lambda>n. if n = ''cpp_macro.parm.params'' then 8 else 0), g_collect_more := True\<rparr>"

definition walk9 :: wstate where
  "walk9 = \<lparr>wk_objs = [(obj0 16 4096 0)\<lparr>fo_is_adjusted := True\<rparr>, obj0 0x800000000000 5000 0, obj0 32 8192 0],
     wk_reals = [4096, 5000, 8192], wk_idx = 0, wk_adjusted = 1,
     wk_mem = (\<lambda>a. if a = 4104 then 32 else 0), wk_checked = [], wk_marks = []\<rparr>"

lemma location9:
  "\<exists>s1. do_location gcc9 MODE_ADJUST (at gcc9 4096 ''cpp_macro.line'') walk9 = Ret s1 \<and>
     wk_mem s1 4104 = 32 \<and> wk_reals s1 = [4096, 5000, 8192] \<and> length (wk_objs s1) = 3 \<and>
     get_real_addr True (wk_objs s1) 32 = (8192, True)"
  by (simp add: do_location_def do_blob_def my_expand_location_def is_location_def gcc9_def walk9_def
      file0_defs walk_eval)

theorem macro_params_abort_witness:
  "run_steps gcc9 MODE_ADJUST (\<lambda>w p s. Deep) (do_cpp_macro gcc9 MODE_ADJUST False 4096) walk9 = Abort"
proof -
  obtain s1 where s1: "do_location gcc9 MODE_ADJUST (at gcc9 4096 ''cpp_macro.line'') walk9 = Ret s1"
    "wk_mem s1 4104 = 32" "wk_reals s1 = [4096, 5000, 8192]" "length (wk_objs s1) = 3"
    "get_real_addr True (wk_objs s1) 32 = (8192, True)"
    using location9 by blast
  have "at gcc9 4096 ''cpp_macro.parm.params'' = 4104" by (simp add: at_def gcc9_def)
  moreover have "9 \<le> g_version gcc9" "g_macro_kind gcc9 4096 \<noteq> cmk_assert" by (simp_all add: gcc9_def gcc0_def)
  ultimately show ?thesis using s1
    by (intro macro_params_abort [where ?s1.0 = s1 and fake = 32 and real = 8192]) auto
qed

end
