(* ===== verification/Walk_Phase4.thy ===== *)
theory Walk_Phase4
  imports Walk_Adjust
begin

text \<open>
  What the walk of phase 4 visits: everything the pointers of the objects lead to, and every
  declaration and reference it meets is handed to its handler.
\<close>

subsection \<open>What the body of a walker asks for\<close>

text \<open>
  The calls and the marks of a step, given the memory, which phase 4 does not change.
\<close>

primrec calls :: "(addr \<Rightarrow> nat) \<Rightarrow> step \<Rightarrow> (walker \<times> addr) set" where
  "calls mem BUG = {}"
| "calls mem (Enter node flag body) = (if node = 0 then {} else \<Union> (set (map (calls mem) body)))"
| "calls mem (Real cell nxt) = {}"
| "calls mem (Blob cell) = {}"
| "calls mem (Call w p) = {(w, p)}"
| "calls mem (Chk p) = {}"
| "calls mem (Loc loc) = {}"
| "calls mem (Load cell k) = ((\<lambda>xs. \<Union> (set xs)) \<circ> (map (calls mem) \<circ> k)) (mem cell)"
| "calls mem (Mark mk p) = {}"

primrec notices :: "(addr \<Rightarrow> nat) \<Rightarrow> step \<Rightarrow> (mark \<times> addr) set" where
  "notices mem BUG = {}"
| "notices mem (Enter node flag body) = (if node = 0 then {} else \<Union> (set (map (notices mem) body)))"
| "notices mem (Real cell nxt) = {}"
| "notices mem (Blob cell) = {}"
| "notices mem (Call w p) = {}"
| "notices mem (Chk p) = {}"
| "notices mem (Loc loc) = {}"
| "notices mem (Load cell k) = ((\<lambda>xs. \<Union> (set xs)) \<circ> (map (notices mem) \<circ> k)) (mem cell)"
| "notices mem (Mark mk p) = {(mk, p)}"

text \<open>\<open>shallow\<close>: no object is checked inside the body of another.\<close>

primrec shallow :: "step \<Rightarrow> bool" where
  "shallow BUG \<longleftrightarrow> True"
| "shallow (Enter node flag body) \<longleftrightarrow> \<not> flag \<and> list_all shallow body"
| "shallow (Real cell nxt) \<longleftrightarrow> False"
| "shallow (Blob cell) \<longleftrightarrow> False"
| "shallow (Call w p) \<longleftrightarrow> True"
| "shallow (Chk p) \<longleftrightarrow> False"
| "shallow (Loc loc) \<longleftrightarrow> False"
| "shallow (Load cell k) \<longleftrightarrow> (\<forall>v. (list_all shallow \<circ> k) v)"
| "shallow (Mark mk p) \<longleftrightarrow> True"

definition body_of :: "gcc \<Rightarrow> walker \<Rightarrow> addr \<Rightarrow> step list" where
  "body_of g w p = (case walker_code g MODE_GETSTEP4 w p of [Enter q f b] \<Rightarrow> b | _ \<Rightarrow> [])"

definition enters :: "gcc \<Rightarrow> walker \<Rightarrow> addr \<Rightarrow> bool" where
  "enters g w p \<longleftrightarrow> p \<noteq> 0 \<and> walker_code g MODE_GETSTEP4 w p = [Enter p True (body_of g w p)]"

definition plain :: "addr \<Rightarrow> step list \<Rightarrow> bool" where
  "plain p ss \<longleftrightarrow> ss = [] \<or> ss = [BUG] \<or> (\<exists>b. ss = [Enter p True b] \<and> list_all shallow b)"

lemma plain_Enter [simp]: "plain p [Enter q f b] \<longleftrightarrow> q = p \<and> f \<and> list_all shallow b"
  by (auto simp: plain_def)

lemma plain_Nil [simp]: "plain p []" and plain_BUG [simp]: "plain p [BUG]"
  by (simp_all add: plain_def)

lemma plain_exp: "plain p (do_exp g MODE_GETSTEP4 True p)"
  by (cases "g_code g p") (simp_all add: do_exp_def step4_defs list_all_map)

lemma plain_tree: "plain p (do_tree g MODE_GETSTEP4 p)"
proof -
  have "plain p (tree_by_class g MODE_GETSTEP4 code p)" for code
    by (cases "g_class g code"; cases code;
        simp add: tree_by_class_def tree_declaration_def tree_constant_def tree_exceptional_def
          plain_exp step4_defs)
  then show ?thesis by (cases "g_code g p") (simp_all add: do_tree_def step4_defs)
qed

lemma walker_code_plain: "step4_walker w \<Longrightarrow> plain p (walker_code g MODE_GETSTEP4 w p)"
  by (cases w) (simp_all add: walker_code_def plain_tree step4_defs do_gimple_seq_def
      do_cpp_macro_8_def do_cpp_macro_9_def)

subsection \<open>The walk is complete\<close>

definition reached :: "gcc \<Rightarrow> walker \<Rightarrow> addr \<Rightarrow> wstate \<Rightarrow> bool" where
  "reached g w p t \<longleftrightarrow> (enters g w p \<longrightarrow> p \<in> set (wk_checked t))"

definition all_calls :: "(addr \<Rightarrow> nat) \<Rightarrow> step list \<Rightarrow> (walker \<times> addr) set" where
  "all_calls mem ss = \<Union> (set (map (calls mem) ss))"

definition all_notices :: "(addr \<Rightarrow> nat) \<Rightarrow> step list \<Rightarrow> (mark \<times> addr) set" where
  "all_notices mem ss = \<Union> (set (map (notices mem) ss))"

text \<open>
  An object is handled when, for the walker that entered it, everything its pointers lead to
  is on the list of seen objects and every declaration or reference in it is marked.
\<close>

definition handled :: "gcc \<Rightarrow> addr \<Rightarrow> wstate \<Rightarrow> bool" where
  "handled g p t \<longleftrightarrow>
     (\<exists>w. enters g w p \<and> (\<forall>(w', q) \<in> all_calls (wk_mem t) (body_of g w p). reached g w' q t) \<and>
          all_notices (wk_mem t) (body_of g w p) \<subseteq> set (wk_marks t))"

definition covers_walk :: "gcc \<Rightarrow> (walker \<times> addr) set \<Rightarrow> (mark \<times> addr) set \<Rightarrow> wstate \<Rightarrow> wstate \<Rightarrow> bool" where
  "covers_walk g C N s t \<longleftrightarrow>
     looks s t \<and> (\<forall>(w, p) \<in> C. reached g w p t) \<and> N \<subseteq> set (wk_marks t) \<and>
     (\<forall>q \<in> set (wk_checked t) - set (wk_checked s). handled g q t)"

lemma reached_mono: "looks s t \<Longrightarrow> reached g w p s \<Longrightarrow> reached g w p t"
  by (auto simp: reached_def looks_def dest: set_mono_prefix)

lemma handled_mono: "looks s t \<Longrightarrow> handled g p s \<Longrightarrow> handled g p t"
proof -
  assume l: "looks s t" and h: "handled g p s"
  have "wk_mem t = wk_mem s" "set (wk_marks s) \<subseteq> set (wk_marks t)"
    using l by (auto simp: looks_def dest: set_mono_prefix)
  then show ?thesis using h reached_mono [OF l] unfolding handled_def by fastforce
qed

lemma covers_refl: "covers_walk g {} {} s s"
  by (simp add: covers_walk_def looks_refl)

lemma covers_trans:
  assumes "covers_walk g C N s t" "covers_walk g C' N' t u"
  shows "covers_walk g (C \<union> C') (N \<union> N') s u"
proof -
  have l: "looks t u" using assms(2) by (simp add: covers_walk_def)
  have l': "looks s u" using assms(1) looks_trans [OF _ l] by (simp add: covers_walk_def)
  have "set (wk_marks t) \<subseteq> set (wk_marks u)" using l by (simp add: looks_def set_mono_prefix)
  then have n: "N \<union> N' \<subseteq> set (wk_marks u)" using assms unfolding covers_walk_def by blast
  have r: "reached g w p u" if "(w, p) \<in> C \<union> C'" for w p
  proof -
    have "reached g w p t \<or> reached g w p u" using that assms unfolding covers_walk_def by auto
    then show ?thesis using reached_mono [OF l] by blast
  qed
  have "handled g q u" if "q \<in> set (wk_checked u) - set (wk_checked s)" for q
  proof -
    have "handled g q t \<or> handled g q u" using that assms unfolding covers_walk_def by blast
    then show ?thesis using handled_mono [OF l] by blast
  qed
  then show ?thesis using l' n r unfolding covers_walk_def by auto
qed

lemma covers_chain:
  assumes "\<And>x s t. x \<in> set xs \<Longrightarrow> wk_mem s = mem \<Longrightarrow> f x s = Ret t \<Longrightarrow> covers_walk g (C x) (N x) s t"
  shows "wk_mem s = mem \<Longrightarrow> chain (map f xs) s = Ret t \<Longrightarrow>
    covers_walk g (\<Union> (set (map C xs))) (\<Union> (set (map N xs))) s t"
  using assms
proof (induction xs arbitrary: s)
  case Nil
  then show ?case by (simp add: covers_refl)
next
  case (Cons x xs)
  from Cons.prems(2) obtain u where u: "f x s = Ret u" "chain (map f xs) u = Ret t"
    by (auto simp: and_then_Ret)
  have 1: "covers_walk g (C x) (N x) s u" using Cons.prems(1,3) u(1) by simp
  then have "wk_mem u = mem" using Cons.prems(1) by (simp add: covers_walk_def looks_def)
  then have "covers_walk g (\<Union> (set (map C xs))) (\<Union> (set (map N xs))) u t"
    using Cons.IH [of u] u(2) Cons.prems(3) by simp
  then show ?case using covers_trans [OF 1] by simp
qed

definition faithful :: "gcc \<Rightarrow> runner \<Rightarrow> bool" where
  "faithful g rec \<longleftrightarrow>
     (\<forall>w p s t. step4_walker w \<longrightarrow> rec w p s = Ret t \<longrightarrow> covers_walk g {(w, p)} {} s t)"

lemma run_step_covers:
  assumes rec: "faithful g rec"
  shows "allowed False step4_walker x \<Longrightarrow> shallow x \<Longrightarrow> run_step g MODE_GETSTEP4 rec x s = Ret t \<Longrightarrow>
    covers_walk g (calls (wk_mem s) x) (notices (wk_mem s) x) s t"
proof (induction x arbitrary: s t)
  case (Enter node flag body)
  show ?case
  proof (cases "node = 0")
    case True
    then show ?thesis using Enter.prems covers_refl by (simp add: do_enter_def)
  next
    case False
    have "covers_walk g (\<Union> (set (map (calls (wk_mem s)) body))) (\<Union> (set (map (notices (wk_mem s)) body))) s t"
    proof (rule covers_chain)
      show "chain (map (run_step g MODE_GETSTEP4 rec) body) s = Ret t"
        using Enter.prems False by (simp add: do_enter_def)
      show "covers_walk g (calls (wk_mem s) x) (notices (wk_mem s) x) s' t'"
        if "x \<in> set body" "wk_mem s' = wk_mem s" "run_step g MODE_GETSTEP4 rec x s' = Ret t'" for x s' t'
        using Enter.IH [OF that(1) _ _ that(3)] that Enter.prems(1,2) by (simp add: list_all_iff)
    qed simp
    then show ?thesis using False by simp
  qed
next
  case (Load cell k)
  let ?b = "k (wk_mem s cell)"
  have "covers_walk g (\<Union> (set (map (calls (wk_mem s)) ?b))) (\<Union> (set (map (notices (wk_mem s)) ?b))) s t"
  proof (rule covers_chain)
    show "chain (map (run_step g MODE_GETSTEP4 rec) ?b) s = Ret t" using Load.prems(3) by simp
    show "covers_walk g (calls (wk_mem s) x) (notices (wk_mem s) x) s' t'"
      if "x \<in> set ?b" "wk_mem s' = wk_mem s" "run_step g MODE_GETSTEP4 rec x s' = Ret t'" for x s' t'
      using Load.IH [OF _ that(1) _ _ that(3)] that Load.prems(1,2) by (simp add: list_all_iff)
  qed simp
  then show ?case by simp
next
  case (Call w p)
  then show ?case using rec by (simp add: faithful_def)
next
  case (Mark mk p)
  then show ?case by (auto simp: covers_walk_def looks_def)
qed simp_all

lemma run_walker_faithful: "faithful g (walk_run g MODE_GETSTEP4 depth)"
proof (induction depth)
  case 0
  then show ?case by (simp add: faithful_def walk_run_def)
next
  case (Suc d)
  let ?rec = "walk_run g MODE_GETSTEP4 d"
  have "covers_walk g {(w, p)} {} s t"
    if w: "step4_walker w" and run: "walk_run g MODE_GETSTEP4 (Suc d) w p s = Ret t" for w p s t
  proof (cases "enters g w p")
    case False
    have "walker_code g MODE_GETSTEP4 w p = [] \<or> walker_code g MODE_GETSTEP4 w p = [BUG] \<or> p = 0"
      using walker_code_plain [OF w, of p g] False by (auto simp: plain_def enters_def body_of_def)
    moreover have "looks s t" using step4_looks [OF w run] .
    ultimately have "s = t"
      using run walker_code_plain [OF w, of p g]
      by (auto simp: walk_run_depth plain_def run_step_Enter do_enter_def)
    then show ?thesis using False by (simp add: covers_walk_def looks_refl reached_def)
  next
    case True
    let ?b = "body_of g w p"
    have p: "p \<noteq> 0" and code: "walker_code g MODE_GETSTEP4 w p = [Enter p True ?b]"
      using True by (simp_all add: enters_def)
    have ok: "list_all shallow ?b" "list_all (allowed False step4_walker) ?b"
      using walker_code_plain [OF w, of p g] walker_code_step4 [OF w, of g p] code by auto
    have "do_enter MODE_GETSTEP4 p True (chain (map (run_step g MODE_GETSTEP4 ?rec) ?b)) s = Ret t"
      using run code by (simp add: walk_run_depth and_then_Ret)
    then obtain b u where c: "is_obj_checked MODE_GETSTEP4 p s = Some (b, u)"
      "if b then t = u else chain (map (run_step g MODE_GETSTEP4 ?rec) ?b) u = Ret t"
      using p by (auto simp: do_enter_def split: option.splits if_splits)
    show ?thesis
    proof (cases b)
      case True
      then show ?thesis using check_step4 [OF c(1)] c(2)
        by (auto simp: covers_walk_def looks_refl reached_def)
    next
      case False
      have u: "looks s u" "wk_checked u = wk_checked s @ [p]" using check_step4 [OF c(1)] False by auto
      have "covers_walk g (all_calls (wk_mem u) ?b) (all_notices (wk_mem u) ?b) u t"
        unfolding all_calls_def all_notices_def
      proof (rule covers_chain)
        show "chain (map (run_step g MODE_GETSTEP4 ?rec) ?b) u = Ret t"
          using c(2) False by simp
        show "covers_walk g (calls (wk_mem u) x) (notices (wk_mem u) x) s' t'"
          if "x \<in> set ?b" "wk_mem s' = wk_mem u" "run_step g MODE_GETSTEP4 ?rec x s' = Ret t'" for x s' t'
          using run_step_covers [OF Suc.IH _ _ that(3)] that ok by (simp add: list_all_iff)
      qed simp
      then have cov: "looks u t" "\<forall>(w', q) \<in> all_calls (wk_mem t) ?b. reached g w' q t"
        "all_notices (wk_mem t) ?b \<subseteq> set (wk_marks t)"
        "\<forall>q \<in> set (wk_checked t) - set (wk_checked u). handled g q t"
        by (auto simp: covers_walk_def looks_def)
      then have "handled g p t" using True by (auto simp: handled_def)
      moreover have "p \<in> set (wk_checked t)" using cov(1) u(2) by (auto simp: looks_def dest: set_mono_prefix)
      ultimately show ?thesis using cov u looks_trans [OF u(1) cov(1)]
        by (auto simp: covers_walk_def reached_def)
    qed
  qed
  then show ?case by (simp add: faithful_def)
qed



end
