(* ===== verification/Getbase.thy ===== *)
theory Getbase
  imports Call_Graph Parse_Phase Gcc_Obj
begin

text \<open>
  Phase 2 of the gcc module (\<open>do_get_base\<close> of analysis/gcc/c.cc with its helpers of
  include/si_gcc.h): every type, function and global variable among the objects of a file
  gets a sinode, or a node among the unnamed types of the sibuf, unless the declaration is
  external or a conflict with a node of another file decides against it.

  The trees are relocated and are not written any more, so their members are read through the
  record of the layout of GCC, here with what phase 2 reads besides.
\<close>

subsection \<open>Reading trees\<close>

record expanded_location =
  xl_file :: "string option"
  xl_line :: int
  xl_col :: int

datatype type_code =
    OFFSET_TYPE | NULLPTR_TYPE | FIXED_POINT_TYPE | QUAL_UNION_TYPE | METHOD_TYPE | LANG_TYPE
  | REFERENCE_TYPE | POINTER_BOUNDS_TYPE | BOOLEAN_TYPE | VOID_TYPE | ENUMERAL_TYPE
  | INTEGER_TYPE | REAL_TYPE | POINTER_TYPE | COMPLEX_TYPE | VECTOR_TYPE | ARRAY_TYPE
  | RECORD_TYPE | UNION_TYPE | FUNCTION_TYPE | No_type

text \<open>
  \<open>t_type_code\<close> and \<open>t_num\<close> are \<open>TREE_CODE\<close>, as the code of a type and as the number of the
  enumeration; \<open>t_ident\<close> is the text of an identifier, \<open>t_xloc\<close> the location at an address
  of a payload, \<open>t_vec\<close> the elements of a vector of pointers, \<open>t_num_of\<close> the number of a code. Flags and pointers are read with \<open>g_get\<close> by the name of their accessor.
\<close>

record trees = gcc +
  t_type_code :: "addr \<Rightarrow> type_code"
  t_num :: "addr \<Rightarrow> nat"
  t_ident :: "addr \<Rightarrow> string"
  t_xloc :: "addr \<Rightarrow> expanded_location"
  t_vec :: "addr \<Rightarrow> addr list"
  t_num_of :: "type_code \<Rightarrow> nat"

abbreviation tget :: "trees \<Rightarrow> string \<Rightarrow> addr \<Rightarrow> addr" where
  "tget g member node \<equiv> g_get g member node"

abbreviation tflag :: "trees \<Rightarrow> string \<Rightarrow> addr \<Rightarrow> bool" where
  "tflag g member node \<equiv> g_get g member node \<noteq> 0"

datatype file_type = TYPE_DEFINED | TYPE_UNDEFINED | TYPE_CANONICALED
datatype file_var = VAR_IS_EXTERN | VAR_IS_STATIC | VAR_IS_GLOBAL | VAR_IS_LOCAL
datatype file_func = FUNC_IS_EXTERN | FUNC_IS_STATIC | FUNC_IS_GLOBAL

definition check_file_type :: "trees \<Rightarrow> addr \<Rightarrow> file_type" where
  "check_file_type g node =
     (if tget g ''TYPE_CANONICAL'' node = NULL then TYPE_DEFINED
      else if tget g ''TYPE_CANONICAL'' node \<noteq> node then TYPE_CANONICALED
      else if (t_type_code g node = RECORD_TYPE \<or> t_type_code g node = UNION_TYPE) \<and>
          tget g ''TYPE_CANONICAL'' node = node \<and> tget g ''TYPE_VALUES'' node = NULL
        then TYPE_UNDEFINED
      else TYPE_DEFINED)"

definition check_file_var :: "trees \<Rightarrow> addr \<Rightarrow> file_var option" where
  "check_file_var g node =
     do {
       BUG_ON (g_code g node \<noteq> VAR_DECL);
       (if \<not> tflag g ''DECL_EXTERNAL'' node then
          (if tflag g ''TREE_PUBLIC'' node
           then do { BUG_ON (tget g ''DECL_NAME'' node = NULL); Some VAR_IS_GLOBAL }
           else if \<not> tflag g ''TREE_STATIC'' node then Some VAR_IS_LOCAL
           else Some VAR_IS_STATIC)
        else do { BUG_ON (tget g ''DECL_NAME'' node = NULL); Some VAR_IS_EXTERN })
     }"

text \<open>\<open>DECL_STRUCT_FUNCTION\<close>, and its \<open>cfg\<close>.\<close>

definition has_cfg :: "trees \<Rightarrow> addr \<Rightarrow> bool" where
  "has_cfg g node \<longleftrightarrow> tget g ''DECL_STRUCT_FUNCTION'' node \<noteq> NULL \<and>
     tget g ''function.cfg'' (tget g ''DECL_STRUCT_FUNCTION'' node) \<noteq> NULL"

definition check_file_func :: "trees \<Rightarrow> addr \<Rightarrow> file_func option" where
  "check_file_func g node =
     do {
       BUG_ON (g_code g node \<noteq> FUNCTION_DECL);
       BUG_ON (tget g ''DECL_NAME'' node = NULL);
       (if \<not> tflag g ''DECL_EXTERNAL'' node \<or> has_cfg g node then
          (if tflag g ''TREE_PUBLIC'' node then Some FUNC_IS_GLOBAL
           else do { BUG_ON (\<not> tflag g ''TREE_STATIC'' node); Some FUNC_IS_STATIC })
        else Some FUNC_IS_EXTERN)
     }"

datatype get_loc = GET_LOC_TYPE | GET_LOC_VAR | GET_LOC_FUNC

text \<open>The address of the location in the payload, or \<open>NULL\<close>.\<close>

definition get_location :: "trees \<Rightarrow> get_loc \<Rightarrow> addr \<Rightarrow> addr \<Rightarrow> addr" where
  "get_location g fl payload node =
     (if fl = GET_LOC_VAR \<or> fl = GET_LOC_FUNC
      then payload + tget g ''DECL_SOURCE_LOCATION'' node
      else if tget g ''TYPE_NAME'' node \<noteq> NULL \<and> g_code g (tget g ''TYPE_NAME'' node) = TYPE_DECL
      then payload + tget g ''DECL_SOURCE_LOCATION'' (tget g ''TYPE_NAME'' node)
      else if (t_type_code g node = RECORD_TYPE \<or> t_type_code g node = UNION_TYPE) \<and>
          tget g ''TYPE_FIELDS'' node \<noteq> NULL
      then payload + tget g ''DECL_SOURCE_LOCATION'' (tget g ''TYPE_FIELDS'' node)
      else NULL)"

subsection \<open>Names\<close>

definition get_node_name :: "trees \<Rightarrow> addr \<Rightarrow> string option" where
  "get_node_name g name =
     do {
       BUG_ON (name = NULL);
       BUG_ON (g_code g name \<noteq> IDENTIFIER_NODE);
       BUG_ON (length (t_ident g name) = 0);
       BUG_ON (NAME_MAX \<le> length (t_ident g name));
       Some (t_ident g name)
     }"

definition get_function_name :: "trees \<Rightarrow> addr \<Rightarrow> string option" where
  "get_function_name g node = get_node_name g (tget g ''DECL_NAME'' node)"

text \<open>The conversions of \<open>snprintf\<close>: \<open>%d\<close>, \<open>%ld\<close>, \<open>%08lx\<close>.\<close>

fun show_base :: "nat \<Rightarrow> nat \<Rightarrow> string" where
  "show_base b n =
     (let c = char_of (if n mod b < 10 then 48 + n mod b else 87 + n mod b)
      in if n < b \<or> b \<le> 1 then [c] else show_base b (n div b) @ [c])"

declare show_base.simps [simp del]

definition show_nat :: "nat \<Rightarrow> string" where
  "show_nat n = show_base 10 n"

definition show_int :: "int \<Rightarrow> string" where
  "show_int i = (if i < 0 then ''-'' @ show_nat (nat (- i)) else show_nat (nat i))"

definition show_hex8 :: "nat \<Rightarrow> string" where
  "show_hex8 n = (let s = show_base 16 n in replicate (8 - length s) (CHR ''0'') @ s)"

definition get_var_name :: "trees \<Rightarrow> addr \<Rightarrow> string option" where
  "get_var_name g node =
     (if tget g ''DECL_NAME'' node \<noteq> NULL then get_node_name g (tget g ''DECL_NAME'' node)
      else Some (take (NAME_MAX - 1) (''_'' @ show_hex8 node)))"

text \<open>The empty string when the type has no name.\<close>

definition get_type_name :: "trees \<Rightarrow> addr \<Rightarrow> string option" where
  "get_type_name g node =
     (let name = tget g ''TYPE_NAME'' node in
      if name = NULL then Some []
      else if g_code g name = IDENTIFIER_NODE then get_node_name g name
      else if tget g ''DECL_NAME'' name = NULL then Some []
      else get_node_name g (tget g ''DECL_NAME'' name))"

text \<open>
  \<open>gen_type_name\<close> writes behind the pointer \<open>p\<close> into the caller's array of \<open>NAME_MAX\<close> bytes
  and does not use its parameter \<open>namelen\<close>: a write past the end has no result.
\<close>

definition FIELD_NAME_MAX :: nat where "FIELD_NAME_MAX = 8"

definition put_name :: "string \<Rightarrow> string \<Rightarrow> string option" where
  "put_name name s = (if length name + length s + 1 \<le> NAME_MAX then Some (name @ s) else None)"

partial_function (option) gen_fields ::
    "trees \<Rightarrow> addr \<Rightarrow> nat \<Rightarrow> nat \<Rightarrow> string \<Rightarrow> (nat \<times> string) option" where
  "gen_fields g field field_cnt copied_cnt name =
     (if field = NULL then Some (field_cnt, name)
      else if copied_cnt < FIELD_NAME_MAX \<and> tget g ''DECL_NAME'' field \<noteq> NULL
      then Option.bind (get_node_name g (tget g ''DECL_NAME'' field)) (\<lambda>tmp_name.
        if tmp_name \<noteq> []
        then Option.bind (put_name name ''_'') (\<lambda>name.
             Option.bind (put_name name tmp_name) (\<lambda>name.
             gen_fields g (tget g ''DECL_CHAIN'' field) (field_cnt + 1) (copied_cnt + 1) name))
        else gen_fields g (tget g ''DECL_CHAIN'' field) (field_cnt + 1) copied_cnt name)
      else gen_fields g (tget g ''DECL_CHAIN'' field) (field_cnt + 1) copied_cnt name)"

definition gen_type_name ::
    "trees \<Rightarrow> string \<Rightarrow> addr \<Rightarrow> addr \<Rightarrow> expanded_location \<Rightarrow> string option" where
  "gen_type_name g name node loc_file xloc =
     (if t_type_code g node \<noteq> UNION_TYPE \<and> t_type_code g node \<noteq> RECORD_TYPE then Some name
      else do {
        (field_cnt, name) \<leftarrow> gen_fields g (tget g ''TYPE_FIELDS'' node) 0 0 [];
        put_name name (take (NAME_MAX - 1)
          (''_'' @ show_nat (t_num g node) @ ''_'' @ show_nat field_cnt @ ''_'' @ show_nat loc_file @
           ''_'' @ show_int (xl_line xloc) @ ''_'' @ show_int (xl_col xloc)))
      })"

subsection \<open>The state, and conflicts with other files\<close>

text \<open>
  The project with the objects of all files and the unnamed types of the sibufs. An unnamed
  type is a \<open>type_node\<close> too: the one embedded in a \<open>sibuf_typenode\<close> has the address of that.
\<close>

record gbs =
  gb_cg :: cgs
  gb_obj :: "addr \<Rightarrow> file_obj"
  gb_stn :: stn_heap

definition gb_si :: "gbs \<Rightarrow> src" where
  "gb_si st = cg_si (gb_cg st)"

definition set_si :: "src \<Rightarrow> gbs \<Rightarrow> gbs" where
  "set_si s st = st\<lparr>gb_cg := (gb_cg st)\<lparr>cg_si := s\<rparr>\<rparr>"

definition upd_obj :: "addr \<Rightarrow> (file_obj \<Rightarrow> file_obj) \<Rightarrow> gbs \<Rightarrow> gbs" where
  "upd_obj p f st = st\<lparr>gb_obj := (gb_obj st)(p := f (gb_obj st p))\<rparr>"

lemma gb_frames [simp]:
  "gb_si (set_si s st) = s" "gb_obj (set_si s st) = gb_obj st" "gb_stn (set_si s st) = gb_stn st"
  "gb_si (upd_obj p f st) = gb_si st" "gb_stn (upd_obj p f st) = gb_stn st"
  "gb_cg (upd_obj p f st) = gb_cg st"
  "gb_obj (upd_obj p f st) q = (if q = p then f (gb_obj st p) else gb_obj st q)"
  by (simp_all add: gb_si_def set_si_def upd_obj_def)

text \<open>\<open>((struct tree_decl_with_vis * )node)->weak_flag\<close>, an unsigned field of one bit.\<close>

definition decl_weak :: "trees \<Rightarrow> addr \<Rightarrow> nat" where
  "decl_weak g node = tget g ''tree_decl_with_vis.weak_flag'' node mod 2"

text \<open>
  The conflict of the declaration \<open>newtree\<close> with the node \<open>old\<close>; \<open>ob\<close> are the objects. The
  flag of a node is signed, that of a tree is not.
\<close>

definition func_conflict ::
    "env \<Rightarrow> world \<Rightarrow> nat \<Rightarrow> trees \<Rightarrow> (addr \<Rightarrow> file_obj) \<Rightarrow> addr \<Rightarrow> addr \<Rightarrow> src \<Rightarrow> (conflict \<times> src) option" where
  "func_conflict E W u g ob newtree old s =
     do {
       (fmt, s) \<leftarrow> si_data_fmt_of E W u (sn_buf (h_sn s old)) s;
       let oldtree = fo_real_addr (ob (sn_obj (h_sn s old)));
       Some (if fmt \<noteq> SI_TYPE_DF_GIMPLE then
               (if int (decl_weak g newtree) < sn_weak_flag (h_sn s old)
                then TREE_NAME_CONFLICT_REPLACE else TREE_NAME_CONFLICT_DROP)
             else if decl_weak g newtree < decl_weak g oldtree then TREE_NAME_CONFLICT_REPLACE
             else if tget g ''DECL_STRUCT_FUNCTION'' oldtree = NULL \<and>
                 tget g ''DECL_STRUCT_FUNCTION'' newtree \<noteq> NULL then TREE_NAME_CONFLICT_REPLACE
             else TREE_NAME_CONFLICT_DROP, s)
     }"

definition var_conflict ::
    "env \<Rightarrow> world \<Rightarrow> nat \<Rightarrow> trees \<Rightarrow> (addr \<Rightarrow> file_obj) \<Rightarrow> addr \<Rightarrow> addr \<Rightarrow> src \<Rightarrow> (conflict \<times> src) option" where
  "var_conflict E W u g ob newtree old s =
     do {
       (fmt, s) \<leftarrow> si_data_fmt_of E W u (sn_buf (h_sn s old)) s;
       let oldtree = fo_real_addr (ob (sn_obj (h_sn s old)));
       Some (if fmt \<noteq> SI_TYPE_DF_GIMPLE then
               (if int (decl_weak g newtree) < sn_weak_flag (h_sn s old)
                then TREE_NAME_CONFLICT_REPLACE else TREE_NAME_CONFLICT_DROP)
             else if decl_weak g oldtree \<le> decl_weak g newtree then TREE_NAME_CONFLICT_DROP
             else TREE_NAME_CONFLICT_REPLACE, s)
     }"

definition type_conflict :: conflict where
  "type_conflict = TREE_NAME_CONFLICT_DROP"

definition check_conflict ::
    "env \<Rightarrow> world \<Rightarrow> nat \<Rightarrow> trees \<Rightarrow> (addr \<Rightarrow> file_obj) \<Rightarrow> nat \<Rightarrow> addr \<Rightarrow> addr \<Rightarrow> src \<Rightarrow>
     (conflict \<times> src) option" where
  "check_conflict E W u g ob type newt old s =
     do {
       (fmt, s) \<leftarrow> si_data_fmt_of E W u (sn_buf (h_sn s old)) s;
       BUG_ON (fmt = SI_TYPE_DF_GIMPLE \<and>
         g_class g (g_code g newt) \<noteq> g_class g (g_code g (fo_real_addr (ob (sn_obj (h_sn s old))))));
       (if type = TYPE_FUNC_STATIC \<or> type = TYPE_FUNC_GLOBAL then func_conflict E W u g ob newt old s
        else if type = TYPE_VAR_GLOBAL then var_conflict E W u g ob newt old s
        else if type = TYPE_TYPE then Some (type_conflict, s)
        else None)
     }"

subsection \<open>One object\<close>

text \<open>
  The part before the lock: an object is passed over, dropped, or to be recorded with a type,
  a name and the address of a location.
\<close>

datatype gb_plan = Gb_skip | Gb_drop | Gb_base nat string addr

definition gb_plan_of :: "trees \<Rightarrow> addr \<Rightarrow> file_obj \<Rightarrow> gb_plan option" where
  "gb_plan_of g payload ob =
     (let node = fo_real_addr ob in
      if fo_is_type ob then
        (if check_file_type g node \<noteq> TYPE_DEFINED then Some Gb_drop
         else do {
           name \<leftarrow> get_type_name g node;
           let xloc = get_location g GET_LOC_TYPE payload node;
           Some (Gb_base (if name \<noteq> [] \<and> xloc \<noteq> NULL \<and> xl_file (t_xloc g xloc) \<noteq> None
                          then TYPE_TYPE else TYPE_NONE) name xloc)
         })
      else if fo_is_function ob then do {
        fl \<leftarrow> check_file_func g node;
        (if fl = FUNC_IS_EXTERN then Some Gb_drop
         else do {
           name \<leftarrow> get_function_name g node;
           Some (Gb_base (if fl = FUNC_IS_STATIC then TYPE_FUNC_STATIC else TYPE_FUNC_GLOBAL) name
                   (get_location g GET_LOC_FUNC payload node))
         })
      }
      else if fo_is_global_var ob then do {
        fl \<leftarrow> check_file_var g node;
        (if fl = VAR_IS_EXTERN \<or> fl = VAR_IS_LOCAL then Some Gb_drop
         else do {
           name \<leftarrow> get_var_name g node;
           Some (Gb_base (if fl = VAR_IS_STATIC then TYPE_VAR_STATIC else TYPE_VAR_GLOBAL) name
                   (get_location g GET_LOC_VAR payload node))
         })
      }
      else Some Gb_skip)"

text \<open>The sinode of the file of the location, made when it is not there.\<close>

definition gb_loc_file :: "env \<Rightarrow> trees \<Rightarrow> addr \<Rightarrow> src \<Rightarrow> (addr \<times> src) option" where
  "gb_loc_file E g xloc s =
     (if xloc = NULL then Some (NULL, s)
      else case xl_file (t_xloc g xloc) of
        None \<Rightarrow> Some (NULL, s)
      | Some fname \<Rightarrow> do {
          loc_file \<leftarrow> sinode_search s TYPE_FILE SEARCH_BY_SPEC (ArgFile fname);
          (if loc_file \<noteq> NULL then Some (loc_file, s)
           else do {
             (loc_file, s) \<leftarrow> sinode_new E TYPE_FILE (Some fname) None s;
             BUG_ON (loc_file = NULL);
             (r, s) \<leftarrow> sinode_insert E loc_file SINODE_INSERT_BH_NONE s;
             BUG_ON (r \<noteq> 0);
             Some (loc_file, s)
           })
        })"

definition gb_name_type :: "trees \<Rightarrow> nat \<Rightarrow> string \<Rightarrow> addr \<Rightarrow> addr \<Rightarrow> addr \<Rightarrow> (nat \<times> string) option" where
  "gb_name_type g type name node loc_file xloc =
     (if type = TYPE_NONE \<and> loc_file \<noteq> NULL \<and> name = [] then do {
        name \<leftarrow> gen_type_name g name node loc_file (t_xloc g xloc);
        Some (if name \<noteq> [] then TYPE_TYPE else type, name)
      }
      else Some (type, name))"

definition gb_search :: "addr \<Rightarrow> nat \<Rightarrow> string \<Rightarrow> addr \<Rightarrow> expanded_location \<Rightarrow> src \<Rightarrow> addr option" where
  "gb_search buf type name loc_file xloc s =
     (if type = TYPE_FUNC_GLOBAL \<or> type = TYPE_VAR_GLOBAL then do {
        BUG_ON (name = []);
        sinode_search s type SEARCH_BY_SPEC
          (ArgResfile (sb_rf (h_sb s buf)) (get_builtin_resfile s) name)
      }
      else do {
        BUG_ON (loc_file = NULL);
        BUG_ON (name = []);
        sinode_search s type SEARCH_BY_SPEC (ArgLoc loc_file (xl_line xloc) (xl_col xloc) name)
      })"

text \<open>A type without name or location goes into the tree of the sibuf.\<close>

definition gb_unnamed :: "env \<Rightarrow> trees \<Rightarrow> addr \<Rightarrow> addr \<Rightarrow> gbs \<Rightarrow> gbs option" where
  "gb_unnamed E g buf node st =
     (let tc = t_num g node in
      case sibuf_typenode_search (gb_stn st) (sb_file_types (h_sb (gb_si st) buf)) tc node of
        Some tn \<Rightarrow> Some st
      | None \<Rightarrow> do {
          (p, s, h) \<leftarrow> sibuf_typenode_new E (gb_si st) (gb_stn st);
          let h = h(p := (h p)\<lparr>stn_type_code := tc mod 2 ^ 16, stn_node := node\<rparr>);
          let st = (set_si s st)\<lparr>gb_stn := h\<rparr>;
          let st = st\<lparr>gb_cg := upd_tn p (\<lambda>_. type_node_init node tc) (gb_cg st)\<rparr>;
          (root, h) \<leftarrow> sibuf_typenode_insert E (sb_file_types (h_sb (gb_si st) buf)) p (gb_stn st);
          Some ((set_si (upd_sb buf (\<lambda>b. b\<lparr>sb_file_types := root\<rparr>) (gb_si st)) st)\<lparr>gb_stn := h\<rparr>)
        })"

text \<open>The payload of a new node: a type, a variable, or a function with a body.\<close>

definition set_payload :: "addr \<Rightarrow> addr \<Rightarrow> nat \<Rightarrow> gbs \<Rightarrow> gbs" where
  "set_payload sn d len st = set_si (upd_sn sn (\<lambda>n. n\<lparr>sn_data := d, sn_datalen := len\<rparr>) (gb_si st)) st"

definition gb_payload :: "env \<Rightarrow> trees \<Rightarrow> nat \<Rightarrow> addr \<Rightarrow> addr \<Rightarrow> gbs \<Rightarrow> gbs option" where
  "gb_payload E g type sn node st =
     (let name = sn_str (gb_si st) sn in
      if type = TYPE_TYPE then do {
        (tn, cg) \<leftarrow> type_node_new E node (t_num g node) (gb_cg st);
        let cg = upd_tn tn (\<lambda>n. n\<lparr>tn_name := name\<rparr>) cg;
        Some (set_payload sn tn (csize E SzTypeNode) (st\<lparr>gb_cg := cg\<rparr>))
      }
      else if type = TYPE_VAR_GLOBAL \<or> type = TYPE_VAR_STATIC then do {
        (vn, cg) \<leftarrow> var_node_new E node (gb_cg st);
        let cg = upd_vn vn (\<lambda>n. n\<lparr>vn_name := name\<rparr>) cg;
        Some (set_payload sn vn (csize E SzVarNode) (st\<lparr>gb_cg := cg\<rparr>))
      }
      else if (type = TYPE_FUNC_GLOBAL \<or> type = TYPE_FUNC_STATIC) \<and> has_cfg g node then do {
        (fn, cg) \<leftarrow> func_node_new E node (gb_cg st);
        let cg = upd_fn fn (\<lambda>n. n\<lparr>fn_name := name\<rparr>) cg;
        Some (set_payload sn fn (csize E SzFuncNode) (st\<lparr>gb_cg := cg\<rparr>))
      }
      else Some st)"

text \<open>
  The new node, filled and inserted. An assignment to the signed one-bit flag of the node
  turns 1 into \<open>- 1\<close>.
\<close>

definition gb_fill :: "trees \<Rightarrow> addr \<Rightarrow> addr \<Rightarrow> addr \<Rightarrow> addr \<Rightarrow> sinode \<Rightarrow> sinode" where
  "gb_fill g buf obj loc_file xloc n =
     (let n = n\<lparr>sn_buf := buf, sn_obj := obj, sn_loc_file := loc_file\<rparr>
      in if loc_file \<noteq> NULL
         then n\<lparr>sn_loc_line := xl_line (t_xloc g xloc), sn_loc_col := xl_col (t_xloc g xloc)\<rparr>
         else n)"

definition gb_weak :: "trees \<Rightarrow> nat \<Rightarrow> addr \<Rightarrow> sinode \<Rightarrow> sinode" where
  "gb_weak g type node n =
     (if type = TYPE_VAR_GLOBAL \<or> type = TYPE_VAR_STATIC \<or> type = TYPE_FUNC_GLOBAL \<or>
         type = TYPE_FUNC_STATIC
      then n\<lparr>sn_weak_flag := - int (decl_weak g node)\<rparr> else n)"

definition gb_create ::
    "env \<Rightarrow> trees \<Rightarrow> addr \<Rightarrow> addr \<Rightarrow> nat \<Rightarrow> string \<Rightarrow> addr \<Rightarrow> addr \<Rightarrow> insert_behavior \<Rightarrow> gbs \<Rightarrow> gbs option" where
  "gb_create E g buf obj type name loc_file xloc behavior st =
     (let node = fo_real_addr (gb_obj st obj) in
      do {
        (sn_new, s) \<leftarrow> sinode_new E type (Some name) None (gb_si st);
        BUG_ON (sn_new = NULL);
        let st = set_si (upd_sn sn_new (gb_fill g buf obj loc_file xloc) s) st;
        st \<leftarrow> gb_payload E g type sn_new node st;
        let s = upd_sn sn_new (gb_weak g type node) (gb_si st);
        (r, s) \<leftarrow> sinode_insert E sn_new behavior s;
        BUG_ON (r \<noteq> 0);
        Some (set_si s st)
      })"

text \<open>
  A global name, or a static function without a body, that is taken: the new declaration is
  dropped or replaces the old one, whose object is marked when it is one of the gcc module.
\<close>

definition gb_conflict ::
    "env \<Rightarrow> world \<Rightarrow> nat \<Rightarrow> trees \<Rightarrow> addr \<Rightarrow> nat \<Rightarrow> addr \<Rightarrow> gbs \<Rightarrow> (conflict \<times> gbs) option" where
  "gb_conflict E W u g obj type sn_tmp st =
     (let b = sn_buf (h_sn (gb_si st) sn_tmp) in
      do {
        (held, s) \<leftarrow> sibuf_hold E W u b (gb_si st);
        (chk_val, s) \<leftarrow> check_conflict E W u g (gb_obj st) type (fo_real_addr (gb_obj st obj)) sn_tmp s;
        let s = drop_if held u b s;
        BUG_ON (chk_val = TREE_NAME_CONFLICT_FAILED);
        (if chk_val = TREE_NAME_CONFLICT_DROP
         then Some (chk_val, upd_obj obj (\<lambda>ob. ob\<lparr>fo_is_dropped := True\<rparr>) (set_si s st))
         else if chk_val = TREE_NAME_CONFLICT_REPLACE then do {
           (fmt, s) \<leftarrow> si_data_fmt_of E W u b s;
           Some (chk_val,
             (if fmt = SI_TYPE_DF_GIMPLE
              then upd_obj (sn_obj (h_sn s sn_tmp)) (\<lambda>ob. ob\<lparr>fo_is_replaced := True\<rparr>) (set_si s st)
              else set_si s st))
         }
         else None)
      })"

text \<open>The part under \<open>getbase_lock\<close>.\<close>

definition gb_record ::
    "env \<Rightarrow> world \<Rightarrow> nat \<Rightarrow> trees \<Rightarrow> addr \<Rightarrow> addr \<Rightarrow> nat \<Rightarrow> string \<Rightarrow> addr \<Rightarrow> gbs \<Rightarrow> gbs option" where
  "gb_record E W u g buf obj type name xloc st =
     (let node = fo_real_addr (gb_obj st obj) in
      do {
        (loc_file, s) \<leftarrow> gb_loc_file E g xloc (gb_si st);
        let st = set_si s st;
        (type, name) \<leftarrow> gb_name_type g type name node loc_file xloc;
        (if type = TYPE_NONE then gb_unnamed E g buf node st
         else do {
           sn_tmp \<leftarrow> gb_search buf type name loc_file (t_xloc g xloc) (gb_si st);
           (if sn_tmp \<noteq> NULL \<and> (type = TYPE_FUNC_STATIC \<and> sn_data (h_sn (gb_si st) sn_tmp) \<noteq> NULL \<or>
                type = TYPE_VAR_STATIC \<or> type = TYPE_TYPE)
            then Some st
            else if sn_tmp \<noteq> NULL then do {
              (chk_val, st) \<leftarrow> gb_conflict E W u g obj type sn_tmp st;
              (if chk_val = TREE_NAME_CONFLICT_DROP then Some st
               else gb_create E g buf obj type name loc_file xloc SINODE_INSERT_BH_REPLACE st)
            }
            else gb_create E g buf obj type name loc_file xloc SINODE_INSERT_BH_NONE st)
         })
      })"

text \<open>\<open>&objs[i]\<close> of the sibuf.\<close>

definition obj_at :: "trees \<Rightarrow> addr \<Rightarrow> nat \<Rightarrow> gbs \<Rightarrow> addr" where
  "obj_at g buf i st = sb_objs (h_sb (gb_si st) buf) + i * g_size g ''file_obj''"

definition get_base_obj :: "env \<Rightarrow> world \<Rightarrow> nat \<Rightarrow> trees \<Rightarrow> addr \<Rightarrow> nat \<Rightarrow> gbs \<Rightarrow> gbs option" where
  "get_base_obj E W u g buf i st =
     (let obj = obj_at g buf i st;
          st = upd_obj obj (\<lambda>ob. ob\<lparr>fo_is_dropped := False, fo_is_replaced := False\<rparr>) st
      in do {
        plan \<leftarrow> gb_plan_of g (sb_payload (h_sb (gb_si st) buf)) (gb_obj st obj);
        (case plan of
           Gb_skip \<Rightarrow> Some st
         | Gb_drop \<Rightarrow> Some (upd_obj obj (\<lambda>ob. ob\<lparr>fo_is_dropped := True\<rparr>) st)
         | Gb_base type name xloc \<Rightarrow> gb_record E W u g buf obj type name xloc st)
      })"

text \<open>The loop over the \<open>real_obj_cnt\<close> objects of the file.\<close>

fun get_base_objs :: "env \<Rightarrow> world \<Rightarrow> nat \<Rightarrow> trees \<Rightarrow> addr \<Rightarrow> nat list \<Rightarrow> gbs \<Rightarrow> gbs option" where
  "get_base_objs E W u g buf [] st = Some st"
| "get_base_objs E W u g buf (i # is) st =
     do { st \<leftarrow> get_base_obj E W u g buf i st; get_base_objs E W u g buf is st }"

definition do_get_base :: "env \<Rightarrow> world \<Rightarrow> nat \<Rightarrow> trees \<Rightarrow> nat \<Rightarrow> addr \<Rightarrow> gbs \<Rightarrow> gbs option" where
  "do_get_base E W u g real_obj_cnt buf st =
     do {
       (held, s) \<leftarrow> sibuf_hold E W u buf (gb_si st);
       st \<leftarrow> get_base_objs E W u g buf [0..<real_obj_cnt] (set_si s st);
       Some (set_si (drop_if held u buf (gb_si st)) st)
     }"

end
