(* ===== verification/Getdetail.thy ===== *)
theory Getdetail
  imports Getbase
begin

text \<open>
  Phase 3 of the gcc module (\<open>do_get_detail\<close> of analysis/gcc/c.cc with its helpers of
  include/si_gcc.h): the type nodes of a file are linked to the types they are made of, the
  variables and functions get their types and attributes, and the body of a function becomes
  an array of code paths, one per basic block, joined like the blocks.

  Loops over chains of trees (fields, arguments, enumerators, attributes, statements) end when
  the chain does; they and the recursion over types take fuel.
\<close>

subsection \<open>Operations on the parts of the state\<close>

definition on_si :: "(src \<Rightarrow> ('a \<times> src) option) \<Rightarrow> gbs \<Rightarrow> ('a \<times> gbs) option" where
  "on_si f st = do { (r, s) \<leftarrow> f (gb_si st); Some (r, set_si s st) }"

definition in_cg :: "(cgs \<Rightarrow> cgs) \<Rightarrow> gbs \<Rightarrow> gbs" where
  "in_cg f st = st\<lparr>gb_cg := f (gb_cg st)\<rparr>"

definition on_cg :: "(cgs \<Rightarrow> ('a \<times> cgs) option) \<Rightarrow> gbs \<Rightarrow> ('a \<times> gbs) option" where
  "on_cg f st = do { (r, c) \<leftarrow> f (gb_cg st); Some (r, st\<lparr>gb_cg := c\<rparr>) }"

definition drop_at :: "int \<Rightarrow> nat \<Rightarrow> addr \<Rightarrow> gbs \<Rightarrow> gbs" where
  "drop_at held u b st = set_si (drop_if held u b (gb_si st)) st"

subsection \<open>Finding the nodes of phase 2\<close>

text \<open>\<open>get_type_xnode\<close>, after the sibuf is held: the sinode of a type, or its unnamed node.\<close>

definition xnode_search :: "trees \<Rightarrow> addr \<Rightarrow> addr \<Rightarrow> string \<Rightarrow> addr \<Rightarrow> gbs \<Rightarrow> (addr \<times> addr) option" where
  "xnode_search g b node name xloc st =
     do {
       loc_file \<leftarrow> (if xloc = NULL then Some NULL
         else case xl_file (t_xloc g xloc) of
             None \<Rightarrow> Some NULL
           | Some fname \<Rightarrow> do {
               lf \<leftarrow> sinode_search (gb_si st) TYPE_FILE SEARCH_BY_SPEC (ArgFile fname);
               BUG_ON (lf = NULL);
               Some lf
             });
       name \<leftarrow> (if loc_file \<noteq> NULL \<and> name = [] then gen_type_name g name node loc_file (t_xloc g xloc)
         else Some name);
       (if name \<noteq> [] \<and> loc_file \<noteq> NULL then do {
          sn \<leftarrow> sinode_search (gb_si st) TYPE_TYPE SEARCH_BY_SPEC
            (ArgLoc loc_file (xl_line (t_xloc g xloc)) (xl_col (t_xloc g xloc)) name);
          Some (sn, NULL)
        }
        else Some (NULL, ptr_of (sibuf_typenode_search (gb_stn st)
          (sb_file_types (h_sb (gb_si st) b)) (t_num g node) node)))
     }"

definition xnode_at :: "trees \<Rightarrow> addr \<Rightarrow> addr \<Rightarrow> gbs \<Rightarrow> (addr \<times> addr) option" where
  "xnode_at g b node st =
     do {
       name \<leftarrow> get_type_name g node;
       xnode_search g b node name (get_location g GET_LOC_TYPE (sb_payload (h_sb (gb_si st) b)) node) st
     }"

definition get_type_xnode :: "env \<Rightarrow> world \<Rightarrow> nat \<Rightarrow> trees \<Rightarrow> addr \<Rightarrow> gbs \<Rightarrow> ((addr \<times> addr) \<times> gbs) option" where
  "get_type_xnode E W u g node st =
     (let b = find_target_sibuf (gb_si st) node in
      if b = NULL then Some ((NULL, NULL), st)
      else do {
        (held, st) \<leftarrow> on_si (sibuf_hold E W u b) st;
        name \<leftarrow> get_type_name g node;
        (case check_file_type g node of
           TYPE_CANONICALED \<Rightarrow>
             (let st = drop_at held u b st;
                  node = tget g ''TYPE_CANONICAL'' node;
                  b = find_target_sibuf (gb_si st) node
              in if b = NULL then Some ((NULL, NULL), st)
                 else do {
                   (held, st) \<leftarrow> on_si (sibuf_hold E W u b) st;
                   r \<leftarrow> xnode_at g b node st;
                   Some (r, drop_at held u b st)
                 })
         | TYPE_UNDEFINED \<Rightarrow> Some ((NULL, NULL), drop_at held u b st)
         | TYPE_DEFINED \<Rightarrow> do {
             r \<leftarrow> xnode_at g b node st;
             Some (r, drop_at held u b st)
           })
      })"

definition find_type_node :: "env \<Rightarrow> world \<Rightarrow> nat \<Rightarrow> trees \<Rightarrow> addr \<Rightarrow> gbs \<Rightarrow> (addr \<times> gbs) option" where
  "find_type_node E W u g type st =
     do {
       ((sn, tn), st) \<leftarrow> get_type_xnode E W u g type st;
       Some (if sn \<noteq> NULL then sn_data (h_sn (gb_si st) sn) else tn, st)
     }"

text \<open>The search for a global name from a sibuf, and the one by location.\<close>

definition search_global :: "src \<Rightarrow> addr \<Rightarrow> nat \<Rightarrow> string \<Rightarrow> addr option" where
  "search_global s b type name =
     sinode_search s type SEARCH_BY_SPEC (ArgResfile (sb_rf (h_sb s b)) (get_builtin_resfile s) name)"

definition search_static :: "trees \<Rightarrow> src \<Rightarrow> nat \<Rightarrow> string \<Rightarrow> addr \<Rightarrow> addr option" where
  "search_static g s type name xloc =
     do {
       fname \<leftarrow> xl_file (t_xloc g xloc);
       loc_file \<leftarrow> sinode_search s TYPE_FILE SEARCH_BY_SPEC (ArgFile fname);
       BUG_ON (loc_file = NULL);
       sinode_search s type SEARCH_BY_SPEC
         (ArgLoc loc_file (xl_line (t_xloc g xloc)) (xl_col (t_xloc g xloc)) name)
     }"

definition get_func_sinode ::
    "env \<Rightarrow> world \<Rightarrow> nat \<Rightarrow> trees \<Rightarrow> addr \<Rightarrow> bool \<Rightarrow> gbs \<Rightarrow> (addr \<times> gbs) option" where
  "get_func_sinode E W u g node flag st =
     (let b = find_target_sibuf (gb_si st) node in
      do {
        BUG_ON (b = NULL);
        (held, st) \<leftarrow> on_si (sibuf_hold E W u b) st;
        name \<leftarrow> get_function_name g node;
        func_flag \<leftarrow> check_file_func g node;
        sn \<leftarrow> (case func_flag of
            FUNC_IS_EXTERN \<Rightarrow> if flag then search_global (gb_si st) b TYPE_FUNC_GLOBAL name else Some NULL
          | FUNC_IS_GLOBAL \<Rightarrow> do {
              sn \<leftarrow> search_global (gb_si st) b TYPE_FUNC_GLOBAL name;
              BUG_ON (sn = NULL);
              Some sn
            }
          | FUNC_IS_STATIC \<Rightarrow> search_static g (gb_si st) TYPE_FUNC_STATIC name
              (get_location g GET_LOC_FUNC (sb_payload (h_sb (gb_si st) b)) node));
        Some (sn, drop_at held u b st)
      })"

definition get_var_sinode ::
    "env \<Rightarrow> world \<Rightarrow> nat \<Rightarrow> trees \<Rightarrow> addr \<Rightarrow> bool \<Rightarrow> gbs \<Rightarrow> (addr \<times> gbs) option" where
  "get_var_sinode E W u g node flag st =
     (let b = find_target_sibuf (gb_si st) node in
      do {
        BUG_ON (b = NULL);
        (held, st) \<leftarrow> on_si (sibuf_hold E W u b) st;
        name \<leftarrow> get_var_name g node;
        var_flag \<leftarrow> check_file_var g node;
        sn \<leftarrow> (case var_flag of
            VAR_IS_EXTERN \<Rightarrow> if flag then search_global (gb_si st) b TYPE_VAR_GLOBAL name else Some NULL
          | VAR_IS_GLOBAL \<Rightarrow> do {
              sn \<leftarrow> search_global (gb_si st) b TYPE_VAR_GLOBAL name;
              BUG_ON (sn = NULL);
              Some sn
            }
          | VAR_IS_STATIC \<Rightarrow> search_static g (gb_si st) TYPE_VAR_STATIC name
              (get_location g GET_LOC_VAR (sb_payload (h_sb (gb_si st) b)) node)
          | VAR_IS_LOCAL \<Rightarrow> Some NULL);
        Some (sn, drop_at held u b st)
      })"

subsection \<open>Types\<close>

text \<open>\<open>TREE_INT_CST_LOW\<close>, and its conversion to \<open>long\<close>.\<close>

definition int_low :: "trees \<Rightarrow> addr \<Rightarrow> nat option" where
  "int_low g a = (if a = NULL then None else Some (wrap64 (tget g ''TREE_INT_CST_LOW'' a)))"

definition slong :: "nat \<Rightarrow> int" where
  "slong n = (if wrap64 n < 2 ^ 63 then int (wrap64 n) else int (wrap64 n) - 2 ^ 64)"

definition type_missed :: "trees \<Rightarrow> type_code \<Rightarrow> bool" where
  "type_missed g c \<longleftrightarrow> c \<in> {OFFSET_TYPE, NULLPTR_TYPE, FIXED_POINT_TYPE, QUAL_UNION_TYPE, METHOD_TYPE,
     LANG_TYPE, No_type} \<or> c = POINTER_BOUNDS_TYPE \<and> 9 \<le> g_version g"

text \<open>Whether the case of the type reads \<open>TYPE_SIZE_UNIT\<close>; \<open>COMPLETE_TYPE_P\<close> is \<open>TYPE_SIZE\<close>.\<close>

definition type_sized :: "trees \<Rightarrow> addr \<Rightarrow> bool" where
  "type_sized g node =
     (let c = t_type_code g node in
      if c = INTEGER_TYPE \<or> c = REAL_TYPE then True
      else if c = ARRAY_TYPE \<or> c = RECORD_TYPE \<or> c = UNION_TYPE then tget g ''TYPE_SIZE_UNIT'' node \<noteq> NULL
      else tget g ''TYPE_SIZE'' node \<noteq> NULL)"

text \<open>What a case of \<open>__get_type_detail\<close> sets from the tree alone.\<close>

definition set_self :: "trees \<Rightarrow> addr \<Rightarrow> type_node \<Rightarrow> type_node option" where
  "set_self g node n =
     (let c = t_type_code g node;
          dom = tget g ''TYPE_DOMAIN'' node;
          n = n\<lparr>tn_is_set := True\<rparr>;
          n = (if c = ENUMERAL_TYPE \<or> c = INTEGER_TYPE
               then n\<lparr>tn_is_unsigned := tflag g ''TYPE_UNSIGNED'' node\<rparr> else n);
          n = (if c = ENUMERAL_TYPE \<or> c = INTEGER_TYPE \<or> c = REAL_TYPE
               then n\<lparr>tn_baselen := int (tget g ''TYPE_PRECISION'' node)\<rparr> else n)
      in do {
        n \<leftarrow> (if c = ARRAY_TYPE \<and> dom \<noteq> NULL \<and> tget g ''TYPE_MAX_VALUE'' dom \<noteq> NULL
          then do {
            low \<leftarrow> int_low g (tget g ''TYPE_MAX_VALUE'' dom);
            Some (n\<lparr>tn_baselen := slong (1 + low)\<rparr>)
          }
          else Some n);
        (if type_sized g node then do {
           low \<leftarrow> int_low g (tget g ''TYPE_SIZE_UNIT'' node);
           Some (n\<lparr>tn_ofsize := slong low\<rparr>)
         }
         else Some n)
      })"

definition var_list_new :: "env \<Rightarrow> addr \<Rightarrow> gbs \<Rightarrow> (addr \<times> gbs) option" where
  "var_list_new E node st =
     do {
       (p, st) \<leftarrow> on_si (si_buf_get E (csize E SzVarList)) st;
       Some (p, in_cg (upd_vn p (\<lambda>_. var_node_init node)) st)
     }"

definition add_child :: "addr \<Rightarrow> addr \<Rightarrow> gbs \<Rightarrow> gbs" where
  "add_child tn c = in_cg (upd_tn tn (\<lambda>n. n\<lparr>tn_children := slist_add_tail c (tn_children n)\<rparr>))"

text \<open>The enumerators, each a variable with one possible value.\<close>

definition enum_value :: "env \<Rightarrow> trees \<Rightarrow> addr \<Rightarrow> addr \<Rightarrow> gbs \<Rightarrow> gbs option" where
  "enum_value E g tn enum_list st =
     do {
       name \<leftarrow> get_node_name g (tget g ''TREE_PURPOSE'' enum_list);
       (v, st) \<leftarrow> var_list_new E enum_list st;
       (q, st) \<leftarrow> on_si (name_list_add E name) st;
       let st = in_cg (upd_vn v (\<lambda>x. x\<lparr>vn_name := name\<rparr>)) st;
       value \<leftarrow> int_low g (tget g ''TREE_VALUE'' enum_list);
       Some (add_child tn v (in_cg (add_possible v VALUE_IS_INT_CST value 0) st))
     }"

primrec enum_values :: "nat \<Rightarrow> env \<Rightarrow> trees \<Rightarrow> addr \<Rightarrow> addr \<Rightarrow> gbs \<Rightarrow> gbs option" where
  "enum_values 0 E g tn enum_list st = None"
| "enum_values (Suc n) E g tn enum_list st =
     (if enum_list = NULL then Some st
      else do {
        st \<leftarrow> enum_value E g tn enum_list st;
        enum_values n E g tn (tget g ''TREE_CHAIN'' enum_list) st
      })"

definition ARG_VA_LIST_NAME :: string where "ARG_VA_LIST_NAME = ''__VA_ARGS__''"

text \<open>A type whose node is pointed to by the \<open>next\<close> of another.\<close>

definition type_has_next :: "type_code \<Rightarrow> bool" where
  "type_has_next c \<longleftrightarrow> c = REFERENCE_TYPE \<or> c = POINTER_TYPE \<or> c = VECTOR_TYPE \<or> c = ARRAY_TYPE"

text \<open>
  The loops over fields and arguments, with \<open>detail\<close> for the recursive call of
  \<open>__get_type_detail\<close>.
\<close>

type_synonym detail_fun = "addr \<Rightarrow> gbs \<Rightarrow> (addr \<times> gbs) option"

definition field_name :: "env \<Rightarrow> trees \<Rightarrow> addr \<Rightarrow> addr \<Rightarrow> gbs \<Rightarrow> gbs option" where
  "field_name E g field v st =
     (if tget g ''DECL_NAME'' field = NULL then Some st
      else do {
        name \<leftarrow> get_node_name g (tget g ''DECL_NAME'' field);
        (q, st) \<leftarrow> on_si (name_list_add E name) st;
        Some (in_cg (upd_vn v (\<lambda>x. x\<lparr>vn_name := name\<rparr>)) st)
      })"

definition mark_variant :: "trees \<Rightarrow> addr \<Rightarrow> addr \<Rightarrow> gbs \<Rightarrow> gbs" where
  "mark_variant g tn field st =
     (if tget g ''DECL_CHAIN'' field = NULL \<and> t_type_code g (tget g ''TREE_TYPE'' field) = ARRAY_TYPE
      then in_cg (upd_tn tn (\<lambda>x. x\<lparr>tn_is_variant := True\<rparr>)) st else st)"

definition type_field :: "detail_fun \<Rightarrow> env \<Rightarrow> trees \<Rightarrow> addr \<Rightarrow> addr \<Rightarrow> gbs \<Rightarrow> gbs option" where
  "type_field detail E g tn field st =
     do {
       (v, st) \<leftarrow> var_list_new E field (mark_variant g tn field st);
       (t, st) \<leftarrow> detail (tget g ''TREE_TYPE'' field) st;
       st \<leftarrow> field_name E g field v (in_cg (upd_vn v (\<lambda>x. x\<lparr>vn_type := t\<rparr>)) st);
       Some (add_child tn v st)
     }"

primrec type_fields :: "nat \<Rightarrow> detail_fun \<Rightarrow> env \<Rightarrow> trees \<Rightarrow> addr \<Rightarrow> addr \<Rightarrow> gbs \<Rightarrow> gbs option" where
  "type_fields 0 detail E g tn field st = None"
| "type_fields (Suc n) detail E g tn field st =
     (if field = NULL then Some st
      else do {
        st \<leftarrow> type_field detail E g tn field st;
        type_fields n detail E g tn (tget g ''DECL_CHAIN'' field) st
      })"

definition arg_is_va :: "trees \<Rightarrow> addr \<Rightarrow> bool" where
  "arg_is_va g args \<longleftrightarrow> tget g ''TREE_CHAIN'' args = NULL \<and>
     tget g ''TYPE_MODE_RAW'' (tget g ''TREE_VALUE'' args) = 0"

definition type_arg :: "detail_fun \<Rightarrow> env \<Rightarrow> trees \<Rightarrow> addr \<Rightarrow> addr \<Rightarrow> gbs \<Rightarrow> gbs option" where
  "type_arg detail E g tn args st =
     (if arg_is_va g args then do {
        (p, st) \<leftarrow> on_cg (type_node_new E args (t_num_of g VOID_TYPE)) st;
        (q, st) \<leftarrow> on_si (name_list_add E ARG_VA_LIST_NAME) st;
        Some (add_child tn p (in_cg (upd_tn p (\<lambda>x. x\<lparr>tn_name := ARG_VA_LIST_NAME\<rparr>)) st))
      }
      else do { (t, st) \<leftarrow> detail (tget g ''TREE_VALUE'' args) st; Some st })"

primrec type_args :: "nat \<Rightarrow> detail_fun \<Rightarrow> env \<Rightarrow> trees \<Rightarrow> addr \<Rightarrow> addr \<Rightarrow> gbs \<Rightarrow> gbs option" where
  "type_args 0 detail E g tn args st = None"
| "type_args (Suc n) detail E g tn args st =
     (if args = NULL then Some st
      else do {
        st \<leftarrow> type_arg detail E g tn args st;
        type_args n detail E g tn (tget g ''TREE_CHAIN'' args) st
      })"

text \<open>The case of a type whose node \<open>tn\<close> was not set before.\<close>

definition type_case :: "nat \<Rightarrow> detail_fun \<Rightarrow> env \<Rightarrow> trees \<Rightarrow> addr \<Rightarrow> addr \<Rightarrow> gbs \<Rightarrow> gbs option" where
  "type_case n detail E g node tn st =
     (let c = t_type_code g node in
      if type_has_next c then do {
        (t, st) \<leftarrow> detail (tget g ''TREE_TYPE'' node) st;
        Some (in_cg (upd_tn tn (\<lambda>x. x\<lparr>tn_next := t\<rparr>)) st)
      }
      else if c = COMPLEX_TYPE then do {
        (t, st) \<leftarrow> detail (tget g ''TREE_TYPE'' node) st;
        Some st
      }
      else if c = ENUMERAL_TYPE then enum_values n E g tn (tget g ''TYPE_VALUES'' node) st
      else if c = RECORD_TYPE \<or> c = UNION_TYPE
      then type_fields n detail E g tn (tget g ''TYPE_FIELDS'' node) st
      else if c = FUNCTION_TYPE then do {
        (t, st) \<leftarrow> detail (tget g ''TREE_TYPE'' node) st;
        type_args n detail E g tn (tget g ''TYPE_ARG_TYPES'' node) st
      }
      else Some st)"

text \<open>\<open>__get_type_detail\<close>; the value is what it stores through \<open>base\<close> or \<open>next\<close>.\<close>

primrec type_detail :: "nat \<Rightarrow> env \<Rightarrow> world \<Rightarrow> nat \<Rightarrow> trees \<Rightarrow> addr \<Rightarrow> gbs \<Rightarrow> (addr \<times> gbs) option" where
  "type_detail 0 E W u g node st = None"
| "type_detail (Suc n) E W u g node st =
     do {
       BUG_ON (node = NULL);
       BUG_ON (g_class g (g_code g node) \<noteq> tcc_type);
       (if type_missed g (t_type_code g node) then Some (NULL, st)
        else do {
          (tn, st) \<leftarrow> find_type_node E W u g node st;
          (if tn = NULL \<or> tn_is_set (h_tn (gb_cg st) tn) then Some (tn, st)
           else do {
             x \<leftarrow> set_self g node (h_tn (gb_cg st) tn);
             st \<leftarrow> type_case n (type_detail n E W u g) E g node tn (in_cg (upd_tn tn (\<lambda>_. x)) st);
             Some (tn, st)
           })
        })
     }"

text \<open>\<open>_get_type_detail\<close>: the node found for the tree of a node must be that node.\<close>

definition get_type_detail_of :: "nat \<Rightarrow> env \<Rightarrow> world \<Rightarrow> nat \<Rightarrow> trees \<Rightarrow> addr \<Rightarrow> gbs \<Rightarrow> gbs option" where
  "get_type_detail_of n E W u g tn st =
     do {
       (new_type, st) \<leftarrow> type_detail n E W u g (tn_node (h_tn (gb_cg st) tn)) st;
       BUG_ON (tn \<noteq> new_type);
       Some st
     }"

subsection \<open>Attributes\<close>

fun strstr :: "string \<Rightarrow> string \<Rightarrow> bool" where
  "strstr [] pat = (pat = [])"
| "strstr (c # cs) pat = (take (length pat) (c # cs) = pat \<or> strstr cs pat)"

definition si_cxx11_attribute_p :: "trees \<Rightarrow> addr \<Rightarrow> bool" where
  "si_cxx11_attribute_p g attr \<longleftrightarrow> attr \<noteq> NULL \<and> g_code g attr = TREE_LIST \<and>
     g_code g (tget g ''TREE_PURPOSE'' attr) = TREE_LIST"

definition si_get_attribute_name :: "trees \<Rightarrow> addr \<Rightarrow> addr" where
  "si_get_attribute_name g attr =
     (if si_cxx11_attribute_p g attr then tget g ''TREE_VALUE'' (tget g ''TREE_PURPOSE'' attr)
      else tget g ''TREE_PURPOSE'' attr)"

primrec attr_nodes :: "nat \<Rightarrow> env \<Rightarrow> trees \<Rightarrow> string \<Rightarrow> addr \<Rightarrow> addr \<Rightarrow> gbs \<Rightarrow> gbs option" where
  "attr_nodes 0 E g name newal vals st = None"
| "attr_nodes (Suc n) E g name newal vals st =
     (if vals = NULL then Some st
      else do {
        (p, st) \<leftarrow> on_si (si_buf_get E (csize E SzAttrvalList)) st;
        let (node, vals) = (if strstr name ''no_sanitize'' then (vals, NULL)
          else (tget g ''TREE_VALUE'' vals, tget g ''TREE_CHAIN'' vals));
        attr_nodes n E g name newal vals
          (in_cg (upd_attr newal (\<lambda>a. a\<lparr>al_values := slist_add_tail node (al_values a)\<rparr>)) st)
      })"

primrec attr_list_of :: "nat \<Rightarrow> env \<Rightarrow> trees \<Rightarrow> addr \<Rightarrow> addr \<Rightarrow> gbs \<Rightarrow> gbs option" where
  "attr_list_of 0 E g sn attr st = None"
| "attr_list_of (Suc n) E g sn attr st =
     (if attr = NULL then Some st
      else do {
        name \<leftarrow> get_node_name g (si_get_attribute_name g attr);
        (q, st) \<leftarrow> on_si (name_list_add E name) st;
        (newal, st) \<leftarrow> on_si (si_buf_get E (csize E SzAttrList)) st;
        let st = in_cg (upd_attr newal (\<lambda>_. \<lparr>al_name = name, al_values = []\<rparr>)) st;
        st \<leftarrow> attr_nodes n E g name newal (tget g ''TREE_VALUE'' attr) st;
        attr_list_of n E g sn (tget g ''TREE_CHAIN'' attr)
          (set_si (upd_sn sn (\<lambda>x. x\<lparr>sn_attributes := slist_add_tail newal (sn_attributes x)\<rparr>) (gb_si st)) st)
      })"

text \<open>The attributes of a tree, added to those of the sinode.\<close>

definition get_attributes :: "nat \<Rightarrow> env \<Rightarrow> trees \<Rightarrow> addr \<Rightarrow> addr \<Rightarrow> gbs \<Rightarrow> gbs option" where
  "get_attributes n E g sn attr_node st =
     (if attr_node = NULL then Some st
      else do {
        BUG_ON (g_code g attr_node \<noteq> TREE_LIST);
        attr_list_of n E g sn attr_node st
      })"

text \<open>The tree of a sinode of the gcc module.\<close>

definition sn_tree :: "addr \<Rightarrow> gbs \<Rightarrow> addr" where
  "sn_tree sn st = fo_real_addr (gb_obj st (sn_obj (h_sn (gb_si st) sn)))"

definition sn_sibuf :: "addr \<Rightarrow> gbs \<Rightarrow> addr" where
  "sn_sibuf sn st = sn_buf (h_sn (gb_si st) sn)"

definition get_type_detail :: "nat \<Rightarrow> env \<Rightarrow> world \<Rightarrow> nat \<Rightarrow> trees \<Rightarrow> addr \<Rightarrow> gbs \<Rightarrow> gbs option" where
  "get_type_detail n E W u g tsn st =
     (let b = sn_sibuf tsn st in
      do {
        (held, st) \<leftarrow> on_si (sibuf_hold E W u b) st;
        st \<leftarrow> get_attributes n E g tsn (tget g ''TYPE_ATTRIBUTES'' (sn_tree tsn st)) st;
        Some (drop_at held u b st)
      })"

definition get_var_detail :: "nat \<Rightarrow> env \<Rightarrow> world \<Rightarrow> nat \<Rightarrow> trees \<Rightarrow> addr \<Rightarrow> gbs \<Rightarrow> gbs option" where
  "get_var_detail n E W u g sn st =
     (let b = sn_sibuf sn st; new_var = sn_data (h_sn (gb_si st) sn) in
      do {
        (held, st) \<leftarrow> on_si (sibuf_hold E W u b) st;
        let node = sn_tree sn st;
        BUG_ON (new_var = NULL);
        (if vn_detailed (h_vn (gb_cg st) new_var) then Some (drop_at held u b st)
         else do {
           (t, st) \<leftarrow> type_detail n E W u g (tget g ''TREE_TYPE'' node) st;
           let st = in_cg (upd_vn new_var (\<lambda>x. x\<lparr>vn_type := t\<rparr>)) st;
           st \<leftarrow> get_attributes n E g sn (tget g ''DECL_ATTRIBUTES'' node) st;
           Some (drop_at held u b (in_cg (upd_vn new_var (\<lambda>x. x\<lparr>vn_detailed := True\<rparr>)) st))
         })
      })"

subsection \<open>The control flow graph\<close>

text \<open>
  A basic block, an edge and a statement are addresses; the vectors of the edges into and out
  of a block are \<open>NULL\<close> or have the elements \<open>t_vec\<close>.
\<close>

definition bb_vec :: "trees \<Rightarrow> string \<Rightarrow> addr \<Rightarrow> addr list" where
  "bb_vec g member b =
     (let v = tget g member b in if v = NULL then [] else t_vec g v)"

abbreviation preds :: "trees \<Rightarrow> addr \<Rightarrow> addr list" where
  "preds g b \<equiv> bb_vec g ''basic_block.preds'' b"

abbreviation succs :: "trees \<Rightarrow> addr \<Rightarrow> addr list" where
  "succs g b \<equiv> bb_vec g ''basic_block.succs'' b"

text \<open>
  The array \<open>edges\<close> of \<open>edge_cnt\<close> elements, filled up to \<open>edge_cur\<close> and zero behind. The search
  before an edge into a block is recorded ends at \<open>edge_cur\<close>, that for an edge out of it at
  \<open>edge_cnt\<close>, so that what follows it is mostly skipped.
\<close>

fun pos_from :: "addr \<Rightarrow> addr list \<Rightarrow> nat" where
  "pos_from e [] = 0"
| "pos_from e (x # xs) = (if x = e then 0 else Suc (pos_from e xs))"

fun edges_in :: "nat \<Rightarrow> addr list \<Rightarrow> addr list \<Rightarrow> addr list option" where
  "edges_in edge_cnt [] edges = Some edges"
| "edges_in edge_cnt (e # es) edges =
     (if pos_from e edges = length edges then do {
        BUG_ON (edge_cnt \<le> length edges);
        edges_in edge_cnt es (edges @ [e])
      }
      else edges_in edge_cnt es edges)"

fun edges_out :: "nat \<Rightarrow> addr list \<Rightarrow> addr list \<Rightarrow> addr list option" where
  "edges_out edge_cnt [] edges = Some edges"
| "edges_out edge_cnt (e # es) edges =
     (if pos_from e (edges @ replicate (edge_cnt - length edges) NULL) = length edges then do {
        BUG_ON (edge_cnt \<le> length edges);
        edges_out edge_cnt es (edges @ [e])
      }
      else edges_out edge_cnt es edges)"

text \<open>The statements of a block: a condition must be the last, and becomes \<open>cond_head\<close>.\<close>

primrec find_cond :: "nat \<Rightarrow> trees \<Rightarrow> addr \<Rightarrow> addr option" where
  "find_cond 0 g gs = None"
| "find_cond (Suc n) g gs =
     (if gs = NULL then Some NULL
      else if g_gimple_code g gs = GIMPLE_DEBUG \<or> g_gimple_code g gs = GIMPLE_NOP
      then find_cond n g (tget g ''gimple.next'' gs)
      else if tget g ''gimple.next'' gs = NULL \<and> g_gimple_code g gs = GIMPLE_COND then Some gs
      else if g_gimple_code g gs = GIMPLE_COND then None
      else find_cond n g (tget g ''gimple.next'' gs))"

definition code_path_new :: "env \<Rightarrow> addr \<Rightarrow> nat \<Rightarrow> gbs \<Rightarrow> (addr \<times> gbs) option" where
  "code_path_new E func extra_branches st =
     do {
       (p, st) \<leftarrow> on_si (si_buf_get E (wrap64 (csize E SzCodePath + extra_branches * 8))) st;
       Some (p, in_cg (upd_cp p (\<lambda>_. \<lparr>cp_func = func, cp_cp = NULL, cp_cond_head = NULL,
         cp_branches = 2 + extra_branches, cp_next = replicate (2 + extra_branches) NULL\<rparr>)) st)
     }"

text \<open>
  The loop over the blocks along \<open>next_bb\<close>. The check \<open>block_cur \<ge> block_cnt\<close> bounds it: the first
  argument is what is left. The result are the arrays \<open>bbs\<close> and \<open>cps\<close> and the recorded edges.
\<close>

definition cfg_block :: "nat \<Rightarrow> env \<Rightarrow> trees \<Rightarrow> addr \<Rightarrow> nat \<Rightarrow> addr \<Rightarrow> addr list \<Rightarrow> gbs \<Rightarrow>
    (addr list \<times> addr \<times> gbs) option" where
  "cfg_block n E g fn edge_cnt b edges st =
     do {
       edges \<leftarrow> edges_in edge_cnt (preds g b) edges;
       edges \<leftarrow> edges_out edge_cnt (succs g b) edges;
       (cp, st) \<leftarrow> code_path_new E fn (length (succs g b) - 2) st;
       cond \<leftarrow> find_cond n g (tget g ''basic_block.il.gimple.seq'' b);
       Some (edges, cp, in_cg (upd_cp cp (\<lambda>c. c\<lparr>cp_cp := b, cp_cond_head := cond\<rparr>)) st)
     }"

primrec cfg_blocks :: "nat \<Rightarrow> nat \<Rightarrow> env \<Rightarrow> trees \<Rightarrow> addr \<Rightarrow> nat \<Rightarrow> addr \<Rightarrow> addr list \<Rightarrow> addr list \<Rightarrow> addr list \<Rightarrow> gbs \<Rightarrow>
    (addr list \<times> addr list \<times> addr list \<times> gbs) option" where
  "cfg_blocks 0 n E g fn edge_cnt b bbs edges cps st =
     (if b = NULL then Some (bbs, edges, cps, st) else None)"
| "cfg_blocks (Suc remain) n E g fn edge_cnt b bbs edges cps st =
     (if b = NULL then Some (bbs, edges, cps, st)
      else do {
        BUG_ON (b \<in> set bbs);
        (edges, cp, st) \<leftarrow> cfg_block n E g fn edge_cnt b edges st;
        cfg_blocks remain n E g fn edge_cnt (tget g ''basic_block.next_bb'' b) (bbs @ [b]) edges (cps @ [cp]) st
      })"

text \<open>The index of the block an edge leads to: it must be among the \<open>preds\<close> of exactly one.\<close>

fun dest_preds :: "addr \<Rightarrow> nat \<Rightarrow> addr list \<Rightarrow> nat option \<Rightarrow> nat option option" where
  "dest_preds t k [] res = Some res"
| "dest_preds t k (e # es) res =
     (if e \<noteq> t then dest_preds t k es res
      else if res \<noteq> None then None
      else dest_preds t k es (Some k))"

fun dest_blocks :: "trees \<Rightarrow> addr \<Rightarrow> nat \<Rightarrow> addr list \<Rightarrow> nat option \<Rightarrow> nat option option" where
  "dest_blocks g t k [] res = Some res"
| "dest_blocks g t k (b # bs) res =
     do { res \<leftarrow> dest_preds t k (preds g b) res; dest_blocks g t (k + 1) bs res }"

fun edge_dests :: "trees \<Rightarrow> addr list \<Rightarrow> addr list \<Rightarrow> nat list option" where
  "edge_dests g bbs [] = Some []"
| "edge_dests g bbs (t # ts) =
     do { res \<leftarrow> dest_blocks g t 0 bbs None; k \<leftarrow> res; ks \<leftarrow> edge_dests g bbs ts; Some (k # ks) }"

text \<open>
  The successors of a code path. With a condition \<open>next[1]\<close> is where the true edge leads and
  \<open>next[0]\<close> where the false edge does; otherwise they are in the order of the edges.
\<close>

definition set_next :: "nat \<Rightarrow> addr \<Rightarrow> code_path \<Rightarrow> code_path" where
  "set_next j p c = c\<lparr>cp_next := (cp_next c)[j := p]\<rparr>"

definition path_next :: "trees \<Rightarrow> addr list \<Rightarrow> addr list \<Rightarrow> nat list \<Rightarrow> code_path \<Rightarrow> code_path option" where
  "path_next g cps addr res cp =
     (if cp_cond_head cp \<noteq> NULL then do {
        BUG_ON (length addr < 2);
        (if tflag g ''EDGE_TRUE_VALUE'' (addr ! 0) then do {
           BUG_ON (\<not> tflag g ''EDGE_FALSE_VALUE'' (addr ! 1));
           Some (set_next 0 (cps ! (res ! 1)) (set_next 1 (cps ! (res ! 0)) cp))
         }
         else do {
           BUG_ON (\<not> tflag g ''EDGE_FALSE_VALUE'' (addr ! 0));
           BUG_ON (\<not> tflag g ''EDGE_TRUE_VALUE'' (addr ! 1));
           Some (set_next 1 (cps ! (res ! 1)) (set_next 0 (cps ! (res ! 0)) cp))
         })
      }
      else Some (foldl (\<lambda>c j. set_next j (cps ! (res ! j)) c) cp [0..<length addr]))"

fun cfg_edges :: "trees \<Rightarrow> addr list \<Rightarrow> addr list \<Rightarrow> nat list \<Rightarrow> gbs \<Rightarrow> gbs option" where
  "cfg_edges g bbs cps [] st = Some st"
| "cfg_edges g bbs cps (i # is) st =
     (let b0 = bbs ! i in
      if tget g ''basic_block.succs'' b0 = NULL then cfg_edges g bbs cps is st
      else do {
        res \<leftarrow> edge_dests g bbs (succs g b0);
        c \<leftarrow> path_next g cps (succs g b0) res (h_cp (gb_cg st) (cps ! i));
        cfg_edges g bbs cps is (in_cg (upd_cp (cps ! i) (\<lambda>_. c)) st)
      })"

text \<open>The part of \<open>get_function_detail\<close> about the graph; \<open>cfg\<close> is that of the function.\<close>

definition cfg_detail :: "nat \<Rightarrow> env \<Rightarrow> trees \<Rightarrow> addr \<Rightarrow> addr \<Rightarrow> gbs \<Rightarrow> gbs option" where
  "cfg_detail n E g new_func cfg st =
     (let block_cnt = tget g ''cfg.x_n_basic_blocks'' cfg;
          edge_cnt = tget g ''cfg.x_n_edges'' cfg
      in do {
        (p, st) \<leftarrow> on_si (si_buf_get E (wrap64 (block_cnt * 8))) st;
        (bbs, edges, cps, st) \<leftarrow>
          cfg_blocks block_cnt n E g new_func edge_cnt (tget g ''cfg.x_entry_block_ptr'' cfg) [] [] [] st;
        BUG_ON (length bbs \<noteq> block_cnt);
        BUG_ON (length edges \<noteq> edge_cnt);
        st \<leftarrow> cfg_edges g bbs cps [0..<block_cnt] st;
        Some (in_cg (upd_fn new_func (\<lambda>f. f\<lparr>fn_cps := cps, fn_cp_cnt := block_cnt mod 2 ^ 16,
          fn_detailed := True\<rparr>)) st)
      })"

subsection \<open>Functions, and the phase\<close>

primrec func_args :: "nat \<Rightarrow> env \<Rightarrow> world \<Rightarrow> nat \<Rightarrow> trees \<Rightarrow> addr \<Rightarrow> addr \<Rightarrow> gbs \<Rightarrow> gbs option" where
  "func_args 0 E W u g fn args st = None"
| "func_args (Suc n) E W u g fn args st =
     (if args = NULL then Some st
      else do {
        (v, st) \<leftarrow> var_list_new E args st;
        (t, st) \<leftarrow> type_detail n E W u g (tget g ''TREE_TYPE'' args) st;
        let st = in_cg (upd_vn v (\<lambda>x. x\<lparr>vn_type := t\<rparr>)) st;
        name \<leftarrow> get_node_name g (tget g ''DECL_NAME'' args);
        (q, st) \<leftarrow> on_si (name_list_add E name) st;
        let st = in_cg (upd_vn v (\<lambda>x. x\<lparr>vn_name := name\<rparr>)) st;
        func_args n E W u g fn (tget g ''TREE_CHAIN'' args)
          (in_cg (upd_fn fn (\<lambda>f. f\<lparr>fn_args := slist_add_tail v (fn_args f)\<rparr>)) st)
      })"

definition get_function_detail :: "nat \<Rightarrow> env \<Rightarrow> world \<Rightarrow> nat \<Rightarrow> trees \<Rightarrow> addr \<Rightarrow> gbs \<Rightarrow> gbs option" where
  "get_function_detail n E W u g sn st =
     (let b = sn_sibuf sn st in
      do {
        (held, st) \<leftarrow> on_si (sibuf_hold E W u b) st;
        let node = sn_tree sn st;
        (if \<not> has_cfg g node then Some (drop_at held u b st)
         else do {
           let new_func = sn_data (h_sn (gb_si st) sn);
           BUG_ON (new_func = NULL);
           (if fn_detailed (h_fn (gb_cg st) new_func) then Some (drop_at held u b st)
            else do {
              (t, st) \<leftarrow> type_detail n E W u g (tget g ''TREE_TYPE'' (tget g ''TREE_TYPE'' node)) st;
              let st = in_cg (upd_fn new_func (\<lambda>f. f\<lparr>fn_ret_type := t\<rparr>)) st;
              st \<leftarrow> get_attributes n E g sn (tget g ''DECL_ATTRIBUTES'' node) st;
              st \<leftarrow> func_args n E W u g new_func (tget g ''DECL_ARGUMENTS'' node) st;
              st \<leftarrow> cfg_detail n E g new_func
                (tget g ''function.cfg'' (tget g ''DECL_STRUCT_FUNCTION'' node)) st;
              Some (drop_at held u b st)
            })
         })
      })"

text \<open>The two loops of \<open>do_get_detail\<close> over the objects of the file.\<close>

definition obj_out :: "file_obj \<Rightarrow> bool" where
  "obj_out ob \<longleftrightarrow> fo_is_dropped ob \<or> fo_is_replaced ob"

definition detail_type :: "nat \<Rightarrow> env \<Rightarrow> world \<Rightarrow> nat \<Rightarrow> trees \<Rightarrow> addr \<Rightarrow> nat \<Rightarrow> gbs \<Rightarrow> gbs option" where
  "detail_type n E W u g buf i st =
     (let ob = gb_obj st (obj_at g buf i st) in
      if \<not> fo_is_type ob \<or> obj_out ob then Some st
      else do {
        ((sn, tn), st) \<leftarrow> get_type_xnode E W u g (fo_real_addr ob) st;
        (tn, st) \<leftarrow> (if sn \<noteq> NULL then do {
              let tn = sn_data (h_sn (gb_si st) sn);
              st \<leftarrow> get_type_detail n E W u g sn st;
              Some (tn, st)
            }
          else Some (tn, st));
        BUG_ON (tn = NULL);
        (if tn_is_set (h_tn (gb_cg st) tn) then Some st else get_type_detail_of n E W u g tn st)
      })"

definition detail_decl :: "nat \<Rightarrow> env \<Rightarrow> world \<Rightarrow> nat \<Rightarrow> trees \<Rightarrow> addr \<Rightarrow> nat \<Rightarrow> gbs \<Rightarrow> gbs option" where
  "detail_decl n E W u g buf i st =
     (let ob = gb_obj st (obj_at g buf i st) in
      if obj_out ob then Some st
      else if fo_is_global_var ob then do {
        (sn, st) \<leftarrow> get_var_sinode E W u g (fo_real_addr ob) False st;
        (if sn = NULL then Some st else get_var_detail n E W u g sn st)
      }
      else if fo_is_function ob then do {
        (sn, st) \<leftarrow> get_func_sinode E W u g (fo_real_addr ob) False st;
        (if sn = NULL then Some st else get_function_detail n E W u g sn st)
      }
      else Some st)"

text \<open>A loop over the objects of the file.\<close>

fun over_objs :: "(nat \<Rightarrow> gbs \<Rightarrow> gbs option) \<Rightarrow> nat list \<Rightarrow> gbs \<Rightarrow> gbs option" where
  "over_objs f [] st = Some st"
| "over_objs f (i # is) st = do { st \<leftarrow> f i st; over_objs f is st }"

definition do_get_detail :: "nat \<Rightarrow> env \<Rightarrow> world \<Rightarrow> nat \<Rightarrow> trees \<Rightarrow> nat \<Rightarrow> addr \<Rightarrow> gbs \<Rightarrow> gbs option" where
  "do_get_detail n E W u g real_obj_cnt buf st =
     do {
       (held, st) \<leftarrow> on_si (sibuf_hold E W u buf) st;
       st \<leftarrow> over_objs (detail_type n E W u g buf) [0..<real_obj_cnt] st;
       st \<leftarrow> over_objs (detail_decl n E W u g buf) [0..<real_obj_cnt] st;
       Some (drop_at held u buf st)
     }"

end
