(* ===== verification/Getdetail_Cfg.thy ===== *)
theory Getdetail_Cfg
  imports Getdetail
begin

text \<open>
  The code paths of a function are its control flow graph: one per basic block, in the order
  of the blocks, and the successors of a code path are the code paths of the blocks the edges
  lead to, so that the walks through both graphs are the same.
\<close>

subsection \<open>Frames\<close>

lemma in_cg_frames [simp]:
  "gb_cg (in_cg f st) = f (gb_cg st)" "gb_obj (in_cg f st) = gb_obj st" "gb_stn (in_cg f st) = gb_stn st"
  by (simp_all add: in_cg_def)

lemma upd_cp_frames [simp]:
  "cg_si (upd_cp p f c) = cg_si c" "h_fn (upd_cp p f c) = h_fn c" "h_tn (upd_cp p f c) = h_tn c"
  "h_vn (upd_cp p f c) = h_vn c" "h_cp (upd_cp p f c) q = (if q = p then f (h_cp c p) else h_cp c q)"
  by (simp_all add: upd_cp_def)

lemma in_cg_si [simp]: "cg_si (f (gb_cg st)) = cg_si (gb_cg st) \<Longrightarrow> gb_si (in_cg f st) = gb_si st"
  by (simp add: gb_si_def)

lemma set_si_cg [simp]: "h_cp (gb_cg (set_si s st)) = h_cp (gb_cg st)" "h_fn (gb_cg (set_si s st)) = h_fn (gb_cg st)"
  "h_tn (gb_cg (set_si s st)) = h_tn (gb_cg st)" "h_vn (gb_cg (set_si s st)) = h_vn (gb_cg st)"
  by (simp_all add: set_si_def)

lemma on_si_split:
  assumes "on_si f st = Some (r, st')"
  obtains s where "f (gb_si st) = Some (r, s)" "st' = set_si s st"
  using assms by (auto simp: on_si_def bind_splits)

subsection \<open>New code paths\<close>

abbreviation st_cur :: "gbs \<Rightarrow> nat" where
  "st_cur st \<equiv> buf_cur (si_sbuf (gb_si st))"

definition region_ok :: "env \<Rightarrow> gbs \<Rightarrow> bool" where
  "region_ok E st \<longleftrightarrow> env_ok E \<and> src_buf_inv (si_sbuf (gb_si st))"

definition cfg_sizes :: "env \<Rightarrow> trees \<Rightarrow> bool" where
  "cfg_sizes E g \<longleftrightarrow> 0 < csize E SzCodePath \<and> csize E SzCodePath \<le> 2 ^ 30 \<and>
     (\<forall>b. length (succs g b) \<le> 2 ^ 30)"

lemma get_spec:
  assumes "region_ok E st" "len_ok len" "on_si (si_buf_get E len) st = Some (p, st')"
  shows "p = st_cur st" "region_ok E st'" "p + len \<le> st_cur st'" "0 < p"
    "\<exists>b. st' = set_si ((gb_si st)\<lparr>si_sbuf := b\<rparr>) st"
proof -
  obtain s where s: "si_buf_get E len (gb_si st) = Some (p, s)" "st' = set_si s st"
    using assms(3) by (rule on_si_split)
  note g = si_buf_get_spec [OF _ _ assms(2) s(1)]
  show "p = st_cur st" "region_ok E st'" "p + len \<le> st_cur st'" "0 < p"
    "\<exists>b. st' = set_si ((gb_si st)\<lparr>si_sbuf := b\<rparr>) st"
    using g assms(1) s(2) by (auto simp: region_ok_def)
qed

text \<open>The code path of a block as \<open>cfg_block\<close> makes it.\<close>

definition path_of :: "nat \<Rightarrow> trees \<Rightarrow> addr \<Rightarrow> addr \<Rightarrow> code_path \<Rightarrow> bool" where
  "path_of n g fn b c \<longleftrightarrow> cp_func c = fn \<and> cp_cp c = b \<and>
     find_cond n g (tget g ''basic_block.il.gimple.seq'' b) = Some (cp_cond_head c) \<and>
     cp_branches c = 2 + (length (succs g b) - 2)"

definition blank_path :: "nat \<Rightarrow> trees \<Rightarrow> addr \<Rightarrow> addr \<Rightarrow> code_path \<Rightarrow> bool" where
  "blank_path n g fn b c \<longleftrightarrow> path_of n g fn b c \<and> cp_next c = replicate (cp_branches c) NULL"

lemma cfg_block_spec:
  assumes ok: "region_ok E st" "cfg_sizes E g"
    and run: "cfg_block n E g fn cnt b edges st = Some (edges', cp, st')"
  shows "cp = st_cur st" "region_ok E st'" "cp < st_cur st'" "blank_path n g fn b (h_cp (gb_cg st') cp)"
    "\<And>q. q \<noteq> cp \<Longrightarrow> h_cp (gb_cg st') q = h_cp (gb_cg st) q" "h_fn (gb_cg st') = h_fn (gb_cg st)"
proof -
  let ?x = "length (succs g b) - 2" and ?len = "wrap64 (csize E SzCodePath + (length (succs g b) - 2) * 8)"
  obtain st1 cond where new: "on_si (si_buf_get E ?len) st = Some (cp, st1)"
    and cond: "find_cond n g (tget g ''basic_block.il.gimple.seq'' b) = Some cond"
    and st': "st' = in_cg (upd_cp cp (\<lambda>c. c\<lparr>cp_cp := b, cp_cond_head := cond\<rparr>))
      (in_cg (upd_cp cp (\<lambda>_. \<lparr>cp_func = fn, cp_cp = NULL, cp_cond_head = NULL, cp_branches = 2 + ?x,
        cp_next = replicate (2 + ?x) NULL\<rparr>)) st1)"
    using run by (auto simp: cfg_block_def code_path_new_def bind_splits)
  have sz: "csize E SzCodePath + ?x * 8 \<le> 2 ^ 34" "0 < csize E SzCodePath"
  proof -
    have "csize E SzCodePath \<le> 2 ^ 30" "length (succs g b) \<le> 2 ^ 30" "0 < csize E SzCodePath"
      using ok(2) by (auto simp: cfg_sizes_def)
    then show "csize E SzCodePath + ?x * 8 \<le> 2 ^ 34" "0 < csize E SzCodePath" by simp_all
  qed
  then have len: "?len = csize E SzCodePath + ?x * 8" by simp
  have "csize E SzCodePath \<le> 2 ^ 30" "length (succs g b) \<le> 2 ^ 30" using ok(2) by (auto simp: cfg_sizes_def)
  then have "len_ok ?len" unfolding len by (simp add: len_ok_def src_buf_consts)
  note a = get_spec [OF ok(1) this new]
  have si: "gb_si st' = gb_si st1" by (simp add: st')
  show "cp = st_cur st" by (rule a(1))
  show "region_ok E st'" using a(2) by (simp add: region_ok_def si)
  show "cp < st_cur st'" using a(3) sz(2) len by (simp add: si)
  show "blank_path n g fn b (h_cp (gb_cg st') cp)"
    using cond by (simp add: blank_path_def path_of_def st')
  show "h_cp (gb_cg st') q = h_cp (gb_cg st) q" if "q \<noteq> cp" for q using that a(5) by (auto simp: st')
  show "h_fn (gb_cg st') = h_fn (gb_cg st)" using a(5) by (auto simp: st')
qed

subsection \<open>The loop over the blocks\<close>

fun bb_chain :: "trees \<Rightarrow> addr \<Rightarrow> addr list \<Rightarrow> bool" where
  "bb_chain g b [] \<longleftrightarrow> b = NULL"
| "bb_chain g b (x # xs) \<longleftrightarrow> b = x \<and> b \<noteq> NULL \<and> bb_chain g (tget g ''basic_block.next_bb'' b) xs"

lemma cfg_blocks_spec:
  assumes "region_ok E st" "cfg_sizes E g" "distinct bbs"
    and "cfg_blocks m n E g fn cnt b bbs edges cps st = Some (bbs', edges', cps', st')"
  shows "\<exists>bs ps. bbs' = bbs @ bs \<and> cps' = cps @ ps \<and> length ps = length bs \<and> bb_chain g b bs \<and> distinct bbs' \<and>
    distinct ps \<and> (\<forall>p \<in> set ps. st_cur st \<le> p \<and> p < st_cur st') \<and> region_ok E st' \<and> st_cur st \<le> st_cur st' \<and>
    (\<forall>i < length bs. blank_path n g fn (bs ! i) (h_cp (gb_cg st') (ps ! i))) \<and>
    (\<forall>q. q \<notin> set ps \<longrightarrow> h_cp (gb_cg st') q = h_cp (gb_cg st) q) \<and> h_fn (gb_cg st') = h_fn (gb_cg st)"
  using assms
proof (induction m arbitrary: b bbs edges cps st)
  case 0
  then have "b = NULL" "bbs' = bbs" "cps' = cps" "st' = st" by (auto split: if_splits)
  then show ?case using 0 by (intro exI [of _ "[]"]) simp
next
  case (Suc m)
  show ?case
  proof (cases "b = NULL")
    case True
    then have "bbs' = bbs" "cps' = cps" "st' = st" using Suc.prems(4) by auto
    then show ?thesis using Suc.prems True by (intro exI [of _ "[]"]) simp
  next
    case False
    obtain es cp st1 where new: "b \<notin> set bbs" and blk: "cfg_block n E g fn cnt b edges st = Some (es, cp, st1)"
      and rest: "cfg_blocks m n E g fn cnt (tget g ''basic_block.next_bb'' b) (bbs @ [b]) es (cps @ [cp]) st1 =
        Some (bbs', edges', cps', st')"
      using Suc.prems(4) False by (auto simp: bind_splits)
    note c = cfg_block_spec [OF Suc.prems(1,2) blk]
    have "distinct (bbs @ [b])" using Suc.prems(3) new by simp
    from Suc.IH [OF c(2) Suc.prems(2) this rest]
    obtain bs ps where IH: "bbs' = (bbs @ [b]) @ bs" "cps' = (cps @ [cp]) @ ps" "length ps = length bs"
      "bb_chain g (tget g ''basic_block.next_bb'' b) bs" "distinct bbs'" "distinct ps"
      "\<forall>p \<in> set ps. st_cur st1 \<le> p \<and> p < st_cur st'" "region_ok E st'" "st_cur st1 \<le> st_cur st'"
      "\<forall>i < length bs. blank_path n g fn (bs ! i) (h_cp (gb_cg st') (ps ! i))"
      "\<forall>q. q \<notin> set ps \<longrightarrow> h_cp (gb_cg st') q = h_cp (gb_cg st1) q" "h_fn (gb_cg st') = h_fn (gb_cg st1)"
      by blast
    have out: "cp \<notin> set ps" using IH(7) c(3) by fastforce
    have "blank_path n g fn ((b # bs) ! i) (h_cp (gb_cg st') ((cp # ps) ! i))" if "i < length (b # bs)" for i
      using that IH(10,11) out c(4) by (cases i) auto
    moreover have "\<forall>p \<in> set (cp # ps). st_cur st \<le> p \<and> p < st_cur st'" using IH(7,9) c(1,3) by fastforce
    moreover have "\<forall>q. q \<notin> set (cp # ps) \<longrightarrow> h_cp (gb_cg st') q = h_cp (gb_cg st) q" using IH(11) c(5) by simp
    ultimately show ?thesis
      using IH out False c by (intro exI [of _ "b # bs"] exI [of _ "cp # ps"]) auto
  qed
qed

subsection \<open>Where edges lead\<close>

text \<open>The edge \<open>t\<close> is among the edges into the block of index \<open>k\<close> and into no other.\<close>

definition leads_to :: "trees \<Rightarrow> addr list \<Rightarrow> addr \<Rightarrow> nat \<Rightarrow> bool" where
  "leads_to g bbs t k \<longleftrightarrow> k < length bbs \<and> (\<forall>m < length bbs. t \<in> set (preds g (bbs ! m)) \<longleftrightarrow> m = k)"

lemma dest_preds_value:
  "dest_preds t k es res = Some r \<Longrightarrow> (if t \<in> set es then res = None \<and> r = Some k else r = res)"
proof (induction es arbitrary: res)
  case (Cons e es)
  then show ?case
    using Cons.IH [of "Some k"] Cons.IH [of res] by (cases "e = t"; cases "t \<in> set es") (simp_all split: if_splits)
qed simp

lemma dest_blocks_value:
  assumes "dest_blocks g t k bs res = Some r"
  shows "(case res of Some x \<Rightarrow> r = Some x \<and> (\<forall>b \<in> set bs. t \<notin> set (preds g b))
    | None \<Rightarrow> (case r of None \<Rightarrow> \<forall>b \<in> set bs. t \<notin> set (preds g b)
       | Some m \<Rightarrow> k \<le> m \<and> leads_to g bs t (m - k)))"
  using assms
proof (induction bs arbitrary: k res)
  case Nil
  then show ?case by (auto split: option.splits)
next
  case (Cons b bs)
  obtain res1 where r1: "dest_preds t k (preds g b) res = Some res1"
    and r2: "dest_blocks g t (k + 1) bs res1 = Some r"
    using Cons.prems by (auto simp: bind_splits)
  note v = dest_preds_value [OF r1] and IH = Cons.IH [OF r2]
  show ?case
  proof (cases "t \<in> set (preds g b)")
    case True
    then have "res = None" "res1 = Some k" using v by auto
    moreover have "leads_to g (b # bs) t 0"
      using True IH \<open>res1 = Some k\<close> by (auto simp: leads_to_def nth_Cons split: nat.splits)
    ultimately show ?thesis using IH by simp
  next
    case False
    then have eq: "res1 = res" using v by simp
    show ?thesis
    proof (cases res)
      case (Some x)
      then show ?thesis using IH eq False by simp
    next
      case None
      show ?thesis
      proof (cases r)
        case None
        then show ?thesis using IH eq False \<open>res = None\<close> by simp
      next
        case (Some m)
        then have m: "k + 1 \<le> m" "leads_to g bs t (m - (k + 1))" using IH eq None by auto
        then have "m - k = Suc (m - (k + 1))" by simp
        then have "leads_to g (b # bs) t (m - k)"
          using m(2) False by (auto simp: leads_to_def nth_Cons split: nat.splits)
        then show ?thesis using Some None m(1) by simp
      qed
    qed
  qed
qed

lemma edge_dests_value:
  assumes "edge_dests g bbs ts = Some ks"
  shows "length ks = length ts \<and> (\<forall>j < length ts. leads_to g bbs (ts ! j) (ks ! j))"
  using assms
proof (induction ts arbitrary: ks)
  case Nil
  then show ?case by simp
next
  case (Cons t ts)
  obtain k ks' where k: "dest_blocks g t 0 bbs None = Some (Some k)" and r: "edge_dests g bbs ts = Some ks'"
    and ks: "ks = k # ks'"
    using Cons.prems by (auto simp: bind_splits)
  have "leads_to g bbs t k" using dest_blocks_value [OF k] by simp
  then show ?case using Cons.IH [OF r] ks by (auto simp: nth_Cons split: nat.splits)
qed

subsection \<open>The successors\<close>

text \<open>
  How many edges of a block become successors, and which place of \<open>next\<close> the edge \<open>j\<close> takes.
\<close>

definition used_edges :: "trees \<Rightarrow> addr \<Rightarrow> code_path \<Rightarrow> nat" where
  "used_edges g b c = (if cp_cond_head c \<noteq> NULL \<and> tget g ''basic_block.succs'' b \<noteq> NULL then 2 else length (succs g b))"

definition place_of :: "trees \<Rightarrow> addr \<Rightarrow> code_path \<Rightarrow> nat \<Rightarrow> nat" where
  "place_of g b c j =
     (if cp_cond_head c = NULL then j
      else if tflag g ''EDGE_TRUE_VALUE'' (succs g b ! 0) then 1 - j else j)"

lemma set_next_frame [simp]:
  "cp_func (set_next j p c) = cp_func c" "cp_cp (set_next j p c) = cp_cp c"
  "cp_cond_head (set_next j p c) = cp_cond_head c" "cp_branches (set_next j p c) = cp_branches c"
  "cp_next (set_next j p c) = (cp_next c)[j := p]"
  by (simp_all add: set_next_def)

lemma fold_next:
  "n \<le> length (cp_next c) \<Longrightarrow>
    foldl (\<lambda>c j. set_next j (f j) c) c [0..<n] = c\<lparr>cp_next := map f [0..<n] @ drop n (cp_next c)\<rparr>"
proof (induction n)
  case 0
  then show ?case by simp
next
  case (Suc n)
  then have "drop n (cp_next c) = cp_next c ! n # drop (Suc n) (cp_next c)" by (simp add: Cons_nth_drop_Suc)
  then show ?case using Suc by (simp add: set_next_def list_update_append)
qed

lemma path_next_value:
  assumes "path_next g cps (succs g b) res c = Some c'" "tget g ''basic_block.succs'' b \<noteq> NULL"
    and "length (succs g b) \<le> length (cp_next c)" "2 \<le> length (cp_next c)"
  shows "\<exists>nx. c' = c\<lparr>cp_next := nx\<rparr> \<and> length nx = length (cp_next c) \<and> used_edges g b c \<le> length (succs g b) \<and>
    (\<forall>j < used_edges g b c. place_of g b c j < length nx \<and> nx ! place_of g b c j = cps ! (res ! j)) \<and>
    (\<forall>i < length nx. nx ! i = cp_next c ! i \<or> (\<exists>j < used_edges g b c. place_of g b c j = i)) \<and>
    (cp_cond_head c \<noteq> NULL \<longrightarrow> (\<forall>j < 2.
       tflag g (if place_of g b c j = 1 then ''EDGE_TRUE_VALUE'' else ''EDGE_FALSE_VALUE'') (succs g b ! j)))"
proof (cases "cp_cond_head c = NULL")
  case True
  then have c': "c' = foldl (\<lambda>c j. set_next j (cps ! (res ! j)) c) c [0..<length (succs g b)]"
    using assms(1) by (simp add: path_next_def)
  show ?thesis
    unfolding c' fold_next [OF assms(3)]
    using True assms(3)
    by (intro exI [of _ "map (\<lambda>j. cps ! (res ! j)) [0..<length (succs g b)] @ drop (length (succs g b)) (cp_next c)"])
       (auto simp: used_edges_def place_of_def nth_append)
next
  case False
  have two: "2 \<le> length (succs g b)" using assms(1) False by (auto simp: path_next_def bind_splits split: if_splits)
  have less2: "j < 2 \<longleftrightarrow> j = 0 \<or> j = Suc 0" for j :: nat by auto
  have used: "used_edges g b c = 2" using False assms(2) by (simp add: used_edges_def)
  have rest: "\<exists>j < used_edges g b c. place_of g b c j = i" if "i < 2" for i
    unfolding used using that by (intro exI [of _ "place_of g b c i"]) (auto simp: place_of_def)
  have beyond: "(cp_next c)[k := x, l := y] ! i = cp_next c ! i \<or> (\<exists>j < used_edges g b c. place_of g b c j = i)"
    if "k < 2" "l < 2" for k l i x y
    using rest [of i] that by (cases "i < 2") auto
  have len: "0 < length (cp_next c)" "Suc 0 < length (cp_next c)" using assms(4) by linarith+
  show ?thesis
  proof (cases "tflag g ''EDGE_TRUE_VALUE'' (succs g b ! 0)")
    case True
    then have e: "tflag g ''EDGE_FALSE_VALUE'' (succs g b ! 1)"
      "c' = set_next 0 (cps ! (res ! 1)) (set_next 1 (cps ! (res ! 0)) c)"
      using assms(1) False by (auto simp: path_next_def bind_splits split: if_splits)
    show ?thesis
      using e True False len two assms(2)
      by (intro exI [of _ "(cp_next c)[1 := cps ! (res ! 0), 0 := cps ! (res ! 1)]"] conjI allI impI beyond)
         (auto simp: set_next_def used_edges_def place_of_def less2)
  next
    case no: False
    then have e: "tflag g ''EDGE_FALSE_VALUE'' (succs g b ! 0)" "tflag g ''EDGE_TRUE_VALUE'' (succs g b ! 1)"
      "c' = set_next 1 (cps ! (res ! 1)) (set_next 0 (cps ! (res ! 0)) c)"
      using assms(1) False by (auto simp: path_next_def bind_splits split: if_splits)
    show ?thesis
      using e no False len two assms(2)
      by (intro exI [of _ "(cp_next c)[0 := cps ! (res ! 0), 1 := cps ! (res ! 1)]"] conjI allI impI beyond)
         (auto simp: set_next_def used_edges_def place_of_def less2)
  qed
qed


text \<open>The loop over the code paths: every one is set once, from what the blocks say.\<close>

lemma cfg_edges_value:
  assumes "cfg_edges g bbs cps is st = Some st'" "distinct is" "distinct cps" "\<forall>i \<in> set is. i < length cps"
  shows "(\<forall>i \<in> set is. if tget g ''basic_block.succs'' (bbs ! i) = NULL
      then h_cp (gb_cg st') (cps ! i) = h_cp (gb_cg st) (cps ! i)
      else \<exists>res. edge_dests g bbs (succs g (bbs ! i)) = Some res \<and>
        path_next g cps (succs g (bbs ! i)) res (h_cp (gb_cg st) (cps ! i)) = Some (h_cp (gb_cg st') (cps ! i))) \<and>
    (\<forall>q. q \<notin> (!) cps ` set is \<longrightarrow> h_cp (gb_cg st') q = h_cp (gb_cg st) q) \<and> h_fn (gb_cg st') = h_fn (gb_cg st)"
  using assms
proof (induction "is" arbitrary: st)
  case Nil
  then show ?case by simp
next
  case (Cons i "is")
  have other: "cps ! k \<noteq> cps ! i" if "k \<in> set is" for k
    using that Cons.prems(2-4) nth_eq_iff_index_eq [OF Cons.prems(3)] by auto
  have dom: "cps ! i \<notin> (!) cps ` set is" using other by (metis imageE)
  show ?case
  proof (cases "tget g ''basic_block.succs'' (bbs ! i) = NULL")
    case True
    then have r: "cfg_edges g bbs cps is st = Some st'" using Cons.prems(1) by simp
    note IH = Cons.IH [OF r] Cons.prems
    have "h_cp (gb_cg st') (cps ! i) = h_cp (gb_cg st) (cps ! i)" using IH dom by auto
    then show ?thesis using IH True by auto
  next
    case False
    let ?c = "h_cp (gb_cg st) (cps ! i)"
    obtain res c' where e: "edge_dests g bbs (succs g (bbs ! i)) = Some res"
      "path_next g cps (succs g (bbs ! i)) res ?c = Some c'"
      and r: "cfg_edges g bbs cps is (in_cg (upd_cp (cps ! i) (\<lambda>_. c')) st) = Some st'"
      using Cons.prems(1) False by (auto simp: Let_def bind_splits)
    have "distinct is" "\<forall>i \<in> set is. i < length cps" using Cons.prems(2,4) by auto
    note IH = Cons.IH [OF r this(1) Cons.prems(3) this(2)]
    have i: "h_cp (gb_cg st') (cps ! i) = c'" using IH dom by auto
    have "if tget g ''basic_block.succs'' (bbs ! k) = NULL
        then h_cp (gb_cg st') (cps ! k) = h_cp (gb_cg st) (cps ! k)
        else \<exists>res. edge_dests g bbs (succs g (bbs ! k)) = Some res \<and>
          path_next g cps (succs g (bbs ! k)) res (h_cp (gb_cg st) (cps ! k)) = Some (h_cp (gb_cg st') (cps ! k))"
      if "k \<in> set is" for k
      using conjunct1 [OF IH] that other [OF that] by auto
    then show ?thesis using IH i e False by auto
  qed
qed

subsection \<open>The graph\<close>

text \<open>
  \<open>graph_of\<close>: the code paths \<open>cps\<close> stand for the blocks \<open>bbs\<close>, and each edge that is used leads
  to the code path of its block; with a condition, \<open>next[1]\<close> is the true edge.
\<close>

definition linked_path :: "nat \<Rightarrow> trees \<Rightarrow> addr \<Rightarrow> addr list \<Rightarrow> addr list \<Rightarrow> addr \<Rightarrow> code_path \<Rightarrow> bool" where
  "linked_path n g fn bbs cps b c \<longleftrightarrow>
     path_of n g fn b c \<and> length (cp_next c) = cp_branches c \<and> used_edges g b c \<le> length (succs g b) \<and>
     (\<forall>j < used_edges g b c. \<exists>k. leads_to g bbs (succs g b ! j) k \<and>
        place_of g b c j < length (cp_next c) \<and> cp_next c ! place_of g b c j = cps ! k) \<and>
     (\<forall>i < length (cp_next c). cp_next c ! i = NULL \<or> (\<exists>j < used_edges g b c. place_of g b c j = i)) \<and>
     (cp_cond_head c \<noteq> NULL \<and> tget g ''basic_block.succs'' b \<noteq> NULL \<longrightarrow> (\<forall>j < 2.
        tflag g (if place_of g b c j = 1 then ''EDGE_TRUE_VALUE'' else ''EDGE_FALSE_VALUE'') (succs g b ! j)))"

definition graph_of :: "nat \<Rightarrow> trees \<Rightarrow> addr \<Rightarrow> addr list \<Rightarrow> addr list \<Rightarrow> cgs \<Rightarrow> bool" where
  "graph_of n g fn bbs cps cg \<longleftrightarrow> distinct bbs \<and> distinct cps \<and> NULL \<notin> set cps \<and> length cps = length bbs \<and>
     (\<forall>i < length bbs. linked_path n g fn bbs cps (bbs ! i) (h_cp cg (cps ! i)))"

lemma linked_none:
  assumes "blank_path n g fn b c" "tget g ''basic_block.succs'' b = NULL"
  shows "linked_path n g fn bbs cps b c"
  using assms by (auto simp: linked_path_def blank_path_def used_edges_def bb_vec_def)

lemma linked_edges:
  assumes "blank_path n g fn b c" "tget g ''basic_block.succs'' b \<noteq> NULL"
    and e: "edge_dests g bbs (succs g b) = Some res" "path_next g cps (succs g b) res c = Some c'"
  shows "linked_path n g fn bbs cps b c'"
proof -
  have len: "length (succs g b) \<le> length (cp_next c)" "2 \<le> length (cp_next c)"
    "length (cp_next c) = cp_branches c"
    using assms(1) by (auto simp: blank_path_def path_of_def)
  obtain nx where nx: "c' = c\<lparr>cp_next := nx\<rparr>" "length nx = length (cp_next c)" "used_edges g b c \<le> length (succs g b)"
    "\<forall>j < used_edges g b c. place_of g b c j < length nx \<and> nx ! place_of g b c j = cps ! (res ! j)"
    "\<forall>i < length nx. nx ! i = cp_next c ! i \<or> (\<exists>j < used_edges g b c. place_of g b c j = i)"
    "cp_cond_head c \<noteq> NULL \<longrightarrow> (\<forall>j < 2.
       tflag g (if place_of g b c j = 1 then ''EDGE_TRUE_VALUE'' else ''EDGE_FALSE_VALUE'') (succs g b ! j))"
    using path_next_value [OF e(2) assms(2) len(1,2)] by blast
  have same: "used_edges g b c' = used_edges g b c" "place_of g b c' = place_of g b c"
    by (simp_all add: nx(1) used_edges_def place_of_def fun_eq_iff)
  have "leads_to g bbs (succs g b ! j) (res ! j)" if "j < used_edges g b c" for j
    using edge_dests_value [OF e(1)] that nx(3) by simp
  then have to: "\<forall>j < used_edges g b c. \<exists>k. leads_to g bbs (succs g b ! j) k \<and>
      place_of g b c j < length nx \<and> nx ! place_of g b c j = cps ! k" using nx(4) by blast
  have "cp_next c ! i = NULL" if "i < length (cp_next c)" for i
    using assms(1) that by (simp add: blank_path_def)
  then have "\<forall>i < length nx. nx ! i = NULL \<or> (\<exists>j < used_edges g b c. place_of g b c j = i)"
    using nx(2,5) by metis
  moreover have "path_of n g fn b c'" using assms(1) by (simp add: nx(1) blank_path_def path_of_def)
  ultimately show ?thesis
    using to nx(2,3,6) len(3) assms(2) unfolding linked_path_def same by (simp add: nx(1))
qed

lemma cfg_graph:
  assumes "region_ok E st" "cfg_sizes E g" "tget g ''cfg.x_n_basic_blocks'' cfg \<le> 2 ^ 30"
    and "cfg_detail n E g fn cfg st = Some st'"
  obtains bbs where "bb_chain g (tget g ''cfg.x_entry_block_ptr'' cfg) bbs"
    "length bbs = tget g ''cfg.x_n_basic_blocks'' cfg"
    "graph_of n g fn bbs (fn_cps (h_fn (gb_cg st') fn)) (gb_cg st')"
proof -
  let ?m = "tget g ''cfg.x_n_basic_blocks'' cfg"
  obtain p st1 bbs edges cps st2 st3 where a: "on_si (si_buf_get E (wrap64 (?m * 8))) st = Some (p, st1)"
    and blocks: "cfg_blocks ?m n E g fn (tget g ''cfg.x_n_edges'' cfg) (tget g ''cfg.x_entry_block_ptr'' cfg)
        [] [] [] st1 = Some (bbs, edges, cps, st2)"
    and m: "length bbs = ?m" and edges: "cfg_edges g bbs cps [0..<?m] st2 = Some st3"
    and st': "st' = in_cg (upd_fn fn (\<lambda>f. f\<lparr>fn_cps := cps, fn_cp_cnt := ?m mod 2 ^ 16, fn_detailed := True\<rparr>)) st3"
    using assms(4) by (auto simp: cfg_detail_def Let_def bind_splits)
  have "?m * 8 \<le> 2 ^ 33" using assms(3) by simp
  then have "len_ok (wrap64 (?m * 8))" by (simp add: len_ok_def src_buf_consts)
  note g1 = get_spec [OF assms(1) this a]
  from cfg_blocks_spec [OF g1(2) assms(2) _ blocks]
  have b: "length cps = length bbs" "bb_chain g (tget g ''cfg.x_entry_block_ptr'' cfg) bbs" "distinct bbs" "distinct cps" "NULL \<notin> set cps"
    "\<forall>i < length bbs. blank_path n g fn (bbs ! i) (h_cp (gb_cg st2) (cps ! i))"
    using g1(2) by (auto simp: region_ok_def src_buf_inv_def SRC_BUF_START_def)
  have "\<forall>i \<in> set [0..<?m]. i < length cps" using b(1) m by simp
  note e = cfg_edges_value [OF edges distinct_upt b(4) this]
  have cp: "h_cp (gb_cg st') = h_cp (gb_cg st3)" by (simp add: st' upd_fn_def)
  have fn: "fn_cps (h_fn (gb_cg st') fn) = cps" by (simp add: st')
  have "graph_of n g fn bbs cps (gb_cg st3)"
    unfolding graph_of_def
  proof (intro conjI allI impI)
    fix i assume i: "i < length bbs"
    let ?b = "bbs ! i"
    have blank: "blank_path n g fn ?b (h_cp (gb_cg st2) (cps ! i))" using b(6) i by blast
    have "i \<in> set [0..<?m]" using i m by simp
    with e have "if tget g ''basic_block.succs'' ?b = NULL
        then h_cp (gb_cg st3) (cps ! i) = h_cp (gb_cg st2) (cps ! i)
        else \<exists>res. edge_dests g bbs (succs g ?b) = Some res \<and>
          path_next g cps (succs g ?b) res (h_cp (gb_cg st2) (cps ! i)) = Some (h_cp (gb_cg st3) (cps ! i))"
      by blast
    then show "linked_path n g fn bbs cps ?b (h_cp (gb_cg st3) (cps ! i))"
      using linked_none [OF blank] linked_edges [OF blank] by (auto split: if_splits)
  qed (use b in simp_all)
  then show thesis using b(2) m by (intro that [of bbs]) (simp_all add: fn graph_of_def cp)
qed

text \<open>
  C7. When \<open>get_function_detail\<close> has read the control flow graph of a function, its code
  paths are the graph: one per block of the chain from the entry block, in that order, and the
  place of \<open>next\<close> an edge takes holds the code path of the one block the edge leads to, the
  true edge of a condition at 1 and the false edge at 0.
\<close>

theorem code_paths_built:
  assumes "region_ok E st" "cfg_sizes E g" "tget g ''cfg.x_n_basic_blocks'' cfg \<le> 2 ^ 30"
    and "cfg_detail n E g fn cfg st = Some st'"
  shows "\<exists>bbs. bb_chain g (tget g ''cfg.x_entry_block_ptr'' cfg) bbs \<and>
    length bbs = tget g ''cfg.x_n_basic_blocks'' cfg \<and>
    graph_of n g fn bbs (fn_cps (h_fn (gb_cg st') fn)) (gb_cg st')"
  using cfg_graph [OF assms] by metis


subsection \<open>The same walks\<close>

text \<open>The edges out of a block that count: both of a condition, otherwise all.\<close>

definition out_edges :: "nat \<Rightarrow> trees \<Rightarrow> addr \<Rightarrow> addr list" where
  "out_edges n g b =
     (case find_cond n g (tget g ''basic_block.il.gimple.seq'' b) of
        Some c \<Rightarrow> if c \<noteq> NULL then take 2 (succs g b) else succs g b
      | None \<Rightarrow> succs g b)"

definition bb_flow :: "nat \<Rightarrow> trees \<Rightarrow> addr list \<Rightarrow> addr \<Rightarrow> addr \<Rightarrow> bool" where
  "bb_flow n g bbs b b' \<longleftrightarrow> b \<in> set bbs \<and> b' \<in> set bbs \<and> (\<exists>e \<in> set (out_edges n g b). e \<in> set (preds g b'))"

definition cp_flow :: "cgs \<Rightarrow> addr list \<Rightarrow> addr \<Rightarrow> addr \<Rightarrow> bool" where
  "cp_flow cg cps p p' \<longleftrightarrow> p \<in> set cps \<and> p' \<noteq> NULL \<and> p' \<in> set (cp_next (h_cp cg p))"

fun walk_in :: "('a \<Rightarrow> 'a \<Rightarrow> bool) \<Rightarrow> 'a list \<Rightarrow> bool" where
  "walk_in r (x # y # zs) \<longleftrightarrow> r x y \<and> walk_in r (y # zs)"
| "walk_in r xs \<longleftrightarrow> True"

lemma flow_agree:
  assumes gr: "graph_of n g fn bbs cps cg" and p: "p \<in> set cps"
  shows "cp_flow cg cps p p' \<longleftrightarrow> p' \<in> set cps \<and> bb_flow n g bbs (cp_cp (h_cp cg p)) (cp_cp (h_cp cg p'))"
proof -
  obtain i where i: "i < length bbs" "p = cps ! i" using gr p by (metis graph_of_def in_set_conv_nth)
  let ?b = "bbs ! i" and ?c = "h_cp cg p"
  have cp: "cp_cp (h_cp cg (cps ! k)) = bbs ! k" if "k < length bbs" for k
    using gr that by (auto simp: graph_of_def linked_path_def path_of_def)
  have l: "linked_path n g fn bbs cps ?b ?c" using gr i by (simp add: graph_of_def)
  then have u: "used_edges g ?b ?c \<le> length (succs g ?b)"
    and to: "\<forall>j < used_edges g ?b ?c. \<exists>k. leads_to g bbs (succs g ?b ! j) k \<and>
        place_of g ?b ?c j < length (cp_next ?c) \<and> cp_next ?c ! place_of g ?b ?c j = cps ! k"
    and rest: "\<forall>i < length (cp_next ?c). cp_next ?c ! i = NULL \<or> (\<exists>j < used_edges g ?b ?c. place_of g ?b ?c j = i)"
    unfolding linked_path_def by blast+
  have out: "out_edges n g ?b = take (used_edges g ?b ?c) (succs g ?b)"
    using l by (auto simp: linked_path_def path_of_def out_edges_def used_edges_def bb_vec_def)
  have same: "cps ! k = cps ! k' \<longleftrightarrow> k = k'" if "k < length bbs" "k' < length bbs" for k k'
    using gr that by (simp add: graph_of_def nth_eq_iff_index_eq)
  show ?thesis
  proof
    assume "cp_flow cg cps p p'"
    then obtain m where m: "m < length (cp_next ?c)" "p' = cp_next ?c ! m" "p' \<noteq> NULL"
      by (auto simp: cp_flow_def in_set_conv_nth)
    then obtain j where j: "j < used_edges g ?b ?c" "place_of g ?b ?c j = m" using rest by auto
    then obtain k where k: "leads_to g bbs (succs g ?b ! j) k" "p' = cps ! k" using to m(2) by blast
    then have kl: "k < length bbs" "succs g ?b ! j \<in> set (preds g (bbs ! k))" by (auto simp: leads_to_def)
    moreover have "succs g ?b ! j \<in> set (out_edges n g ?b)"
      using j(1) u by (auto simp: out in_set_conv_nth intro!: exI [of _ j])
    ultimately show "p' \<in> set cps \<and> bb_flow n g bbs (cp_cp ?c) (cp_cp (h_cp cg p'))"
      using i gr k(2) by (auto simp: bb_flow_def cp graph_of_def)
  next
    assume r: "p' \<in> set cps \<and> bb_flow n g bbs (cp_cp ?c) (cp_cp (h_cp cg p'))"
    then obtain k where k: "k < length bbs" "p' = cps ! k" using gr by (metis graph_of_def in_set_conv_nth)
    then obtain e where e: "e \<in> set (out_edges n g ?b)" "e \<in> set (preds g (bbs ! k))"
      using r i by (auto simp: bb_flow_def cp)
    then obtain j where j: "j < used_edges g ?b ?c" "e = succs g ?b ! j"
      by (auto simp: out in_set_conv_nth)
    then obtain k' where k': "leads_to g bbs e k'" "place_of g ?b ?c j < length (cp_next ?c)"
      "cp_next ?c ! place_of g ?b ?c j = cps ! k'" using to by blast
    have "k = k'" using k'(1) k(1) e(2) by (auto simp: leads_to_def)
    then have "p' \<in> set (cp_next ?c)" using k' k(2) by (metis nth_mem)
    moreover have "p' \<noteq> NULL" using r gr unfolding graph_of_def by metis
    ultimately show "cp_flow cg cps p p'" using p by (simp add: cp_flow_def)
  qed
qed

lemma walks_agree:
  assumes "graph_of n g fn bbs cps cg" "p \<in> set cps"
  shows "walk_in (cp_flow cg cps) (p # ps) \<longleftrightarrow>
    set ps \<subseteq> set cps \<and> walk_in (bb_flow n g bbs) (map (\<lambda>p. cp_cp (h_cp cg p)) (p # ps))"
  using assms(2)
proof (induction ps arbitrary: p)
  case (Cons q ps)
  show ?case
  proof (cases "q \<in> set cps")
    case True
    then show ?thesis using Cons.IH [OF True] flow_agree [OF assms(1) Cons.prems, of q] by auto
  next
    case False
    then show ?thesis using flow_agree [OF assms(1) Cons.prems, of q] by simp
  qed
qed simp

text \<open>
  C8. The code paths of a function refine its control flow graph in both directions: a
  sequence of code paths from the first one follows \<open>next\<close> pointers exactly when the blocks it
  stands for follow edges of the graph from the entry block, and each block is stood for by
  exactly one code path.
\<close>

theorem code_paths_walk:
  assumes "region_ok E st" "cfg_sizes E g" "tget g ''cfg.x_n_basic_blocks'' cfg \<le> 2 ^ 30"
    and "cfg_detail n E g fn cfg st = Some st'"
  shows "\<exists>bbs. bb_chain g (tget g ''cfg.x_entry_block_ptr'' cfg) bbs \<and>
    (let cg = gb_cg st'; cps = fn_cps (h_fn cg fn); block = (\<lambda>p. cp_cp (h_cp cg p)) in
       map block cps = bbs \<and> distinct bbs \<and>
       (\<forall>p ps. walk_in (cp_flow cg cps) (p # ps) \<and> p \<in> set cps \<longleftrightarrow>
          set (p # ps) \<subseteq> set cps \<and> walk_in (bb_flow n g bbs) (map block (p # ps))))"
proof -
  obtain bbs where c: "bb_chain g (tget g ''cfg.x_entry_block_ptr'' cfg) bbs"
    and gr: "graph_of n g fn bbs (fn_cps (h_fn (gb_cg st') fn)) (gb_cg st')"
    using cfg_graph [OF assms] by metis
  have "map (\<lambda>p. cp_cp (h_cp (gb_cg st') p)) (fn_cps (h_fn (gb_cg st') fn)) = bbs" "distinct bbs"
    using gr by (auto simp: graph_of_def linked_path_def path_of_def intro: nth_equalityI)
  then show ?thesis
    using c walks_agree [OF gr] by (intro exI [of _ bbs]) (auto simp: Let_def)
qed

subsection \<open>A loop\<close>

text \<open>
  The entry block 1000 leads to 1100; that ends in the condition 2000, whose true edge 3002
  leaves for 1200 and whose false edge 3003 leads back to 1100.
\<close>

definition trees_cfg :: trees where
  "trees_cfg = \<lparr>g_off = (\<lambda>_. 0), g_size = (\<lambda>_. 64),
     g_get = (\<lambda>m a. if m = ''cfg.x_n_basic_blocks'' \<or> m = ''cfg.x_n_edges'' then 3
       else if m = ''cfg.x_entry_block_ptr'' then 1000
       else if m = ''basic_block.next_bb'' then (if a = 1000 then 1100 else if a = 1100 then 1200 else 0)
       else if m = ''basic_block.preds'' then (if a = 1100 then 4001 else if a = 1200 then 4002 else 0)
       else if m = ''basic_block.succs'' then (if a = 1000 then 4003 else if a = 1100 then 4004 else 0)
       else if m = ''basic_block.il.gimple.seq'' then (if a = 1100 then 2000 else 0)
       else if m = ''EDGE_TRUE_VALUE'' then (if a = 3002 then 1 else 0)
       else if m = ''EDGE_FALSE_VALUE'' then (if a = 3003 then 1 else 0) else 0),
     g_code = (\<lambda>a. Other_code 0), g_class = (\<lambda>_. tcc_declaration), g_gimple_code = (\<lambda>_. GIMPLE_COND),
     g_ntv = (\<lambda>_. NTV_NONE), g_token_fld = (\<lambda>_. CPP_TOKEN_FLD_PRAGMA), g_macro_kind = (\<lambda>_. cmk_macro),
     g_version = 8, g_collect_more = False, g_free_ssanames = False, t_type_code = (\<lambda>_. No_type),
     t_num = (\<lambda>_. 0), t_ident = (\<lambda>_. []), t_xloc = (\<lambda>_. \<lparr>xl_file = None, xl_line = 3, xl_col = 5\<rparr>),
     t_vec = (\<lambda>v. if v = 4001 then [3001, 3003] else if v = 4002 then [3002] else if v = 4003 then [3001]
       else [3002, 3003]), t_num_of = (\<lambda>_. 34)\<rparr>"

abbreviation buf_at :: "nat \<Rightarrow> src_buf" where
  "buf_at cur \<equiv> src_buf0\<lparr>buf_cur := cur, src_modified := True\<rparr>"

definition gbs_cfg :: gbs where
  "gbs_cfg = \<lparr>gb_cg = cg_ex\<lparr>cg_si := src0\<lparr>si_sbuf := buf_at 4294967296\<rparr>\<rparr>, gb_obj = (\<lambda>_. undefined),
     gb_stn = (\<lambda>_. stn_zero)\<rparr>"

lemma trees_cfg_simps:
  "tget trees_cfg ''cfg.x_n_basic_blocks'' c = 3" "tget trees_cfg ''cfg.x_n_edges'' c = 3"
  "tget trees_cfg ''cfg.x_entry_block_ptr'' c = 1000"
  "tget trees_cfg ''basic_block.next_bb'' b = (if b = 1000 then 1100 else if b = 1100 then 1200 else 0)"
  "preds trees_cfg b = (if b = 1100 then [3001, 3003] else if b = 1200 then [3002] else [])"
  "succs trees_cfg b = (if b = 1000 then [3001] else if b = 1100 then [3002, 3003] else [])"
  "tget trees_cfg ''basic_block.succs'' b = (if b = 1000 then 4003 else if b = 1100 then 4004 else 0)"
  "tget trees_cfg ''basic_block.il.gimple.seq'' b = (if b = 1100 then 2000 else 0)"
  "tget trees_cfg ''EDGE_TRUE_VALUE'' e = (if e = 3002 then 1 else 0)"
  "tget trees_cfg ''EDGE_FALSE_VALUE'' e = (if e = 3003 then 1 else 0)"
  "tget trees_cfg ''gimple.next'' b = 0" "g_gimple_code trees_cfg b = GIMPLE_COND"
  by (simp_all add: trees_cfg_def bb_vec_def)

lemma get_at: "cur < 4294971000 \<Longrightarrow> 4294967296 \<le> cur \<Longrightarrow> len \<le> 100 \<Longrightarrow>
   src_buf_get env0 len (buf_at cur) = Some (cur, buf_at ((cur + len + 7) div 8 * 8))"
  by (simp add: src_buf_get_def src_buf0_def src_buf_consts wrap64_def)

lemma block_step:
  assumes "si_sbuf (gb_si st) = buf_at cur" "cur < 4294971000" "4294967296 \<le> cur" "length (succs g b) \<le> 2"
    and "edges_in cnt (preds g b) es = Some es1" "edges_out cnt (succs g b) es1 = Some es2"
    and "find_cond n g (tget g ''basic_block.il.gimple.seq'' b) = Some c"
  shows "\<exists>st'. cfg_block n env0 g fn cnt b es st = Some (es2, cur, st') \<and>
    si_sbuf (gb_si st') = buf_at ((cur + 71) div 8 * 8) \<and>
    h_cp (gb_cg st') = (h_cp (gb_cg st))(cur := \<lparr>cp_func = fn, cp_cp = b, cp_cond_head = c, cp_branches = 2,
      cp_next = [NULL, NULL]\<rparr>)"
  using assms
  by (simp add: cfg_block_def code_path_new_def on_si_def si_buf_get_def get_at) (simp add: upd_cp_def numeral_2_eq_2)

lemma cfg_runs: "\<exists>st'. cfg_detail 2 env0 trees_cfg 9 50 gbs_cfg = Some st'"
proof -
  obtain st1 where a: "on_si (si_buf_get env0 24) gbs_cfg = Some (4294967296, st1)"
    and b1: "si_sbuf (gb_si st1) = buf_at 4294967320"
    by (simp add: on_si_def gbs_cfg_def gb_si_def si_buf_get_def get_at) (simp add: set_si_def)
  have ins: "edges_in 3 (preds trees_cfg 1000) [] = Some []"
    "edges_in 3 (preds trees_cfg 1100) [] = Some [3001, 3003]"
    "edges_in 3 (preds trees_cfg 1200) [3001, 3003] = Some [3001, 3003, 3002]"
    by (simp_all add: trees_cfg_simps)
  have outs: "edges_out 3 (succs trees_cfg 1000) [] = Some []"
    "edges_out 3 (succs trees_cfg 1100) [3001, 3003] = Some [3001, 3003]"
    "edges_out 3 (succs trees_cfg 1200) [3001, 3003, 3002] = Some [3001, 3003, 3002]"
    by (simp_all add: trees_cfg_simps numeral_3_eq_3)
  have conds: "find_cond 2 trees_cfg (tget trees_cfg ''basic_block.il.gimple.seq'' b) =
      Some (if b = 1100 then 2000 else 0)" for b
    by (simp add: trees_cfg_simps numeral_2_eq_2)
  have two: "length (succs trees_cfg b) \<le> 2" for b by (simp add: trees_cfg_simps)
  obtain st2 where k1: "cfg_block 2 env0 trees_cfg 9 3 1000 [] st1 = Some ([], 4294967320, st2)"
    and b2: "si_sbuf (gb_si st2) = buf_at 4294967384"
    and h2: "cp_cond_head (h_cp (gb_cg st2) 4294967320) = 0"
    using block_step [OF b1 _ _ two ins(1) outs(1) conds, of 9] by auto
  obtain st3 where k2: "cfg_block 2 env0 trees_cfg 9 3 1100 [] st2 = Some ([3001, 3003], 4294967384, st3)"
    and b3: "si_sbuf (gb_si st3) = buf_at 4294967448"
    and h3: "h_cp (gb_cg st3) 4294967384 = \<lparr>cp_func = 9, cp_cp = 1100, cp_cond_head = 2000, cp_branches = 2, cp_next = [NULL, NULL]\<rparr>"
      "cp_cond_head (h_cp (gb_cg st3) 4294967320) = cp_cond_head (h_cp (gb_cg st2) 4294967320)"
    using block_step [OF b2 _ _ two ins(2) outs(2) conds, of 9] by auto
  obtain st4 where k3: "cfg_block 2 env0 trees_cfg 9 3 1200 [3001, 3003] st3 = Some ([3001, 3003, 3002], 4294967448, st4)"
    and h4: "h_cp (gb_cg st4) 4294967384 = h_cp (gb_cg st3) 4294967384"
      "cp_cond_head (h_cp (gb_cg st4) 4294967320) = cp_cond_head (h_cp (gb_cg st3) 4294967320)"
    using block_step [OF b3 _ _ two ins(3) outs(3) conds, of 9] by auto
  have "cfg_blocks 3 2 env0 trees_cfg 9 3 1000 [] [] [] st1 =
      Some ([1000, 1100, 1200], [3001, 3003, 3002], [4294967320, 4294967384, 4294967448], st4)"
    using k1 k2 k3 by (simp add: numeral_3_eq_3 trees_cfg_simps(4))
  moreover have "edge_dests trees_cfg [1000, 1100, 1200] [3001] = Some [1]"
    "edge_dests trees_cfg [1000, 1100, 1200] [3002, 3003] = Some [2, 1]"
    by (simp_all add: trees_cfg_simps numeral_2_eq_2)
  ultimately show ?thesis
    using a h2 h3 h4 by (simp add: cfg_detail_def trees_cfg_simps upt_rec path_next_def Let_def) 
qed


lemma cfg_ok: "region_ok env0 gbs_cfg" "cfg_sizes env0 trees_cfg" "tget trees_cfg ''cfg.x_n_basic_blocks'' 50 \<le> 2 ^ 30"
proof -
  show "region_ok env0 gbs_cfg"
    using env0_ok by (simp add: region_ok_def gbs_cfg_def gb_si_def src_buf_inv_def src_buf0_def src_buf_consts)
  show "cfg_sizes env0 trees_cfg" by (simp add: cfg_sizes_def trees_cfg_simps)
  show "tget trees_cfg ''cfg.x_n_basic_blocks'' 50 \<le> 2 ^ 30" by (simp add: trees_cfg_simps)
qed

lemma chain_next: "bb_chain g b bbs \<Longrightarrow> bbs = (if b = NULL then [] else b # tl bbs) \<and>
    (b \<noteq> NULL \<longrightarrow> bb_chain g (tget g ''basic_block.next_bb'' b) (tl bbs))"
  by (cases bbs) auto

lemma loop_chain: "bb_chain trees_cfg 1000 bbs \<Longrightarrow> bbs = [1000, 1100, 1200]"
  using chain_next [of trees_cfg 1000 bbs] chain_next [of trees_cfg 1100 "tl bbs"]
    chain_next [of trees_cfg 1200 "tl (tl bbs)"] chain_next [of trees_cfg 0 "tl (tl (tl bbs))"]
  by (simp add: trees_cfg_simps)

theorem code_paths_built_witness:
  "\<exists>st'. cfg_detail 2 env0 trees_cfg 9 50 gbs_cfg = Some st' \<and>
     graph_of 2 trees_cfg 9 [1000, 1100, 1200] (fn_cps (h_fn (gb_cg st') 9)) (gb_cg st')"
proof -
  obtain st' where r: "cfg_detail 2 env0 trees_cfg 9 50 gbs_cfg = Some st'" using cfg_runs by blast
  obtain bbs where "bb_chain trees_cfg (tget trees_cfg ''cfg.x_entry_block_ptr'' 50) bbs"
    "length bbs = tget trees_cfg ''cfg.x_n_basic_blocks'' 50"
    and gr: "graph_of 2 trees_cfg 9 bbs (fn_cps (h_fn (gb_cg st') 9)) (gb_cg st')"
    using code_paths_built [OF cfg_ok r] by blast
  then have "bbs = [1000, 1100, 1200]" using loop_chain by (simp add: trees_cfg_simps)
  then show ?thesis using r gr by blast
qed

theorem code_paths_walk_witness:
  "\<exists>st' ps. cfg_detail 2 env0 trees_cfg 9 50 gbs_cfg = Some st' \<and>
     walk_in (cp_flow (gb_cg st') (fn_cps (h_fn (gb_cg st') 9))) ps \<and>
     map (\<lambda>p. cp_cp (h_cp (gb_cg st') p)) ps = [1000, 1100, 1100, 1200]"
proof -
  obtain st' where r: "cfg_detail 2 env0 trees_cfg 9 50 gbs_cfg = Some st'" using cfg_runs by blast
  let ?cps = "fn_cps (h_fn (gb_cg st') 9)" and ?block = "\<lambda>p. cp_cp (h_cp (gb_cg st') p)"
  obtain bbs where c: "bb_chain trees_cfg 1000 bbs" and m: "map ?block ?cps = bbs"
    and w: "\<And>p ps. walk_in (cp_flow (gb_cg st') ?cps) (p # ps) \<and> p \<in> set ?cps \<longleftrightarrow>
      set (p # ps) \<subseteq> set ?cps \<and> walk_in (bb_flow 2 trees_cfg bbs) (map ?block (p # ps))"
    using code_paths_walk [OF cfg_ok r] by (auto simp: Let_def trees_cfg_simps)
  have bbs: "bbs = [1000, 1100, 1200]" by (rule loop_chain [OF c])
  with m obtain p q s where cps: "?cps = [p, q, s]" "?block p = 1000" "?block q = 1100" "?block s = 1200"
    by (auto simp: map_eq_Cons_conv)
  have out: "out_edges 2 trees_cfg b = succs trees_cfg b" for b
    by (simp add: out_edges_def trees_cfg_simps numeral_2_eq_2)
  have "walk_in (bb_flow 2 trees_cfg bbs) [1000, 1100, 1100, 1200]"
    by (simp add: bb_flow_def bbs out trees_cfg_simps)
  then have "walk_in (cp_flow (gb_cg st') ?cps) [p, q, q, s]"
    using w [of p "[q, q, s]"] cps by simp
  then show ?thesis using r cps by (intro exI [of _ st'] exI [of _ "[p, q, q, s]"]) simp
qed

end
