(* ===== verification/Getdetail_Types.thy ===== *)
theory Getdetail_Types
  imports Getdetail_Cfg
begin

text \<open>
  The types of a file after phase 3: what the lookup of a type node depends on, and the
  invariant of the recursion over types, which is a depth-first walk: a node is set before the
  types it is made of are, so it is complete when the walk is back at it.
\<close>

subsection \<open>What the recursion leaves alone\<close>

text \<open>
  \<open>still s s'\<close>: only the region, the names behind its old end, the attributes of sinodes and what
  loading a sibuf changes are different.
\<close>

definition same_sn :: "sinode \<Rightarrow> sinode \<Rightarrow> bool" where
  "same_sn m n \<longleftrightarrow> n\<lparr>sn_attributes := []\<rparr> = m\<lparr>sn_attributes := []\<rparr>"

lemma same_sn_refl [simp]: "same_sn m m" "same_sn m (m\<lparr>sn_attributes := as\<rparr>)"
  by (simp_all add: same_sn_def)

lemma same_sn_trans: "same_sn a b \<Longrightarrow> same_sn b c \<Longrightarrow> same_sn a c"
  by (simp add: same_sn_def)

lemma same_sn_fields:
  assumes "same_sn m n"
  shows "sn_data n = sn_data m" "sn_name n = sn_name m" "sn_loc_file n = sn_loc_file m"
    "sn_loc_line n = sn_loc_line m" "sn_loc_col n = sn_loc_col m" "sn_buf n = sn_buf m" "sn_obj n = sn_obj m"
  using assms by (cases m; cases n; simp add: same_sn_def)+

definition still :: "src \<Rightarrow> src \<Rightarrow> bool" where
  "still s s' \<longleftrightarrow> (\<exists>b h r hb hr hs m. s' = s\<lparr>si_sbuf := b, h_name := h, si_names_root := r, h_sb := hb, h_rf := hr,
       h_sn := hs, si_sibuf_mem_usage := m\<rparr>) \<and>
     (\<forall>b. same_sb (h_sb s b) (h_sb s' b)) \<and> (\<forall>r. same_rf (h_rf s r) (h_rf s' r)) \<and>
     (\<forall>d. same_sn (h_sn s d) (h_sn s' d)) \<and>
     (\<forall>p < buf_cur (si_sbuf s). h_name s' p = h_name s p) \<and> buf_cur (si_sbuf s) \<le> buf_cur (si_sbuf s')"

lemma stillI:
  assumes "s' = s\<lparr>si_sbuf := b, h_name := h, si_names_root := r, h_sb := hb, h_rf := hr, h_sn := hs, si_sibuf_mem_usage := m\<rparr>"
    and "\<And>x. same_sb (h_sb s x) (hb x)" "\<And>x. same_rf (h_rf s x) (hr x)" "\<And>x. same_sn (h_sn s x) (hs x)"
    and "\<And>p. p < buf_cur (si_sbuf s) \<Longrightarrow> h p = h_name s p" "buf_cur (si_sbuf s) \<le> buf_cur b"
  shows "still s s'"
  unfolding still_def
proof (intro conjI)
  show "\<exists>b h r hb hr hs m. s' = s\<lparr>si_sbuf := b, h_name := h, si_names_root := r, h_sb := hb, h_rf := hr,
       h_sn := hs, si_sibuf_mem_usage := m\<rparr>"
    using assms(1) by blast
qed (use assms in simp_all)

text \<open>The parts that change, one at a time.\<close>

lemma still_parts:
  "buf_cur (si_sbuf s) \<le> buf_cur b \<Longrightarrow> (\<And>p. p < buf_cur (si_sbuf s) \<Longrightarrow> h p = h_name s p) \<Longrightarrow>
    still s (s\<lparr>si_sbuf := b, h_name := h, si_names_root := r\<rparr>)"
  "(\<And>x. same_sb (h_sb s x) (hb x)) \<Longrightarrow> (\<And>x. same_rf (h_rf s x) (hr x)) \<Longrightarrow>
    still s (s\<lparr>h_sb := hb, h_rf := hr, si_sibuf_mem_usage := m\<rparr>)"
  "(\<And>x. same_sn (h_sn s x) (hs x)) \<Longrightarrow> still s (s\<lparr>h_sn := hs\<rparr>)"
proof -
  show "buf_cur (si_sbuf s) \<le> buf_cur b \<Longrightarrow> (\<And>p. p < buf_cur (si_sbuf s) \<Longrightarrow> h p = h_name s p) \<Longrightarrow>
      still s (s\<lparr>si_sbuf := b, h_name := h, si_names_root := r\<rparr>)"
    by (rule stillI [where b = b and h = h and r = r and hb = "h_sb s" and hr = "h_rf s" and hs = "h_sn s" and
          m = "si_sibuf_mem_usage s"]) simp_all
  show "(\<And>x. same_sb (h_sb s x) (hb x)) \<Longrightarrow> (\<And>x. same_rf (h_rf s x) (hr x)) \<Longrightarrow>
      still s (s\<lparr>h_sb := hb, h_rf := hr, si_sibuf_mem_usage := m\<rparr>)"
    by (rule stillI [where b = "si_sbuf s" and h = "h_name s" and r = "si_names_root s" and hb = hb and hr = hr and
          hs = "h_sn s" and m = m]) simp_all
  show "(\<And>x. same_sn (h_sn s x) (hs x)) \<Longrightarrow> still s (s\<lparr>h_sn := hs\<rparr>)"
    by (rule stillI [where b = "si_sbuf s" and h = "h_name s" and r = "si_names_root s" and hb = "h_sb s" and
          hr = "h_rf s" and hs = hs and m = "si_sibuf_mem_usage s"]) simp_all
qed

lemma still_refl [simp]: "still s s"
  using still_parts(3) [of s "h_sn s"] by simp

lemma still_trans:
  assumes "still s t" "still t u"
  shows "still s u"
proof -
  obtain b h r hb hr hs m where t: "t = s\<lparr>si_sbuf := b, h_name := h, si_names_root := r, h_sb := hb, h_rf := hr,
       h_sn := hs, si_sibuf_mem_usage := m\<rparr>" using assms(1) by (auto simp: still_def)
  obtain b2 h2 r2 hb2 hr2 hs2 m2 where u: "u = t\<lparr>si_sbuf := b2, h_name := h2, si_names_root := r2, h_sb := hb2,
       h_rf := hr2, h_sn := hs2, si_sibuf_mem_usage := m2\<rparr>" using assms(2) by (auto simp: still_def)
  have sb: "same_sb (h_sb s x) (hb2 x)" for x
    by (rule same_sb_trans [of _ "h_sb t x"]) (use assms u in \<open>simp_all add: still_def\<close>)
  have rf: "same_rf (h_rf s x) (hr2 x)" for x
    by (rule same_rf_trans [of _ "h_rf t x"]) (use assms u in \<open>simp_all add: still_def\<close>)
  have sn: "same_sn (h_sn s x) (hs2 x)" for x
    by (rule same_sn_trans [of _ "h_sn t x"]) (use assms u in \<open>simp_all add: still_def\<close>)
  have le: "buf_cur (si_sbuf s) \<le> buf_cur (si_sbuf t)" "buf_cur (si_sbuf t) \<le> buf_cur (si_sbuf u)"
    using assms by (simp_all add: still_def)
  have nm: "h2 p = h_name s p" if "p < buf_cur (si_sbuf s)" for p
  proof -
    have "h_name u p = h_name t p" "h_name t p = h_name s p"
      using assms that le by (simp_all add: still_def)
    then show ?thesis by (simp add: u)
  qed
  show ?thesis
    by (rule stillI [where b = b2 and h = h2 and r = r2 and hb = hb2 and hr = hr2 and hs = hs2 and m = m2])
       (use sb rf sn nm le in \<open>simp_all add: t u\<close>)
qed

lemma quiet_still:
  assumes "quiet s s'"
  shows "still s s'"
proof -
  obtain hb hr m where s': "s' = s\<lparr>h_sb := hb, h_rf := hr, si_sibuf_mem_usage := m\<rparr>"
    using assms by (auto simp: quiet_def)
  then show ?thesis unfolding s' by (intro still_parts(2)) (use assms s' in \<open>simp_all add: quiet_def\<close>)
qed

lemma buf_still: "buf_cur (si_sbuf s) \<le> buf_cur b \<Longrightarrow> still s (s\<lparr>si_sbuf := b\<rparr>)"
  using still_parts(1) [of s b "h_name s" "si_names_root s"] by simp

lemma name_still:
  assumes "env_ok E" "names_inv s" "namelen_ok E nm" "name_list_add E nm s = Some (p, s')"
  shows "still s s'" "names_inv s'"
proof -
  note n = name_list_add_spec [OF assms]
  obtain b r h where s': "s' = s\<lparr>si_sbuf := b, h_name := h, si_names_root := r\<rparr>" using n(8) by blast
  then show "still s s'" unfolding s' by (intro still_parts(1)) (use n(6,7) s' in simp_all)
  show "names_inv s'" by (rule n(1))
qed

lemma still_fields:
  assumes "still s s'"
  shows "si_by_spec s' = si_by_spec s" "same_sn (h_sn s d) (h_sn s' d)" "si_resfile_head s' = si_resfile_head s"
    "si_sibuf_head s' = si_sibuf_head s" "buf_cur (si_sbuf s) \<le> buf_cur (si_sbuf s')"
    "sb_payload (h_sb s' b) = sb_payload (h_sb s b)" "sb_file_types (h_sb s' b) = sb_file_types (h_sb s b)"
    "in_sibuf (h_sb s' b) a = in_sibuf (h_sb s b) a" "sb_objs (h_sb s' b) = sb_objs (h_sb s b)"
proof -
  have sb: "same_sb (h_sb s b) (h_sb s' b)" using assms by (simp add: still_def)
  then show "sb_payload (h_sb s' b) = sb_payload (h_sb s b)" "sb_file_types (h_sb s' b) = sb_file_types (h_sb s b)"
    "in_sibuf (h_sb s' b) a = in_sibuf (h_sb s b) a" "sb_objs (h_sb s' b) = sb_objs (h_sb s b)"
    by (cases "h_sb s b"; cases "h_sb s' b"; simp add: same_sb_def in_sibuf_def)+
qed (use assms in \<open>auto simp: still_def\<close>)

definition names_low :: "src \<Rightarrow> bool" where
  "names_low s \<longleftrightarrow> (\<forall>t < TYPE_MAX. \<forall>d \<in> set_tree (si_by_spec s t). sn_name (h_sn s d) < buf_cur (si_sbuf s))"

lemma names_low_still: "still s s' \<Longrightarrow> names_low s \<Longrightarrow> names_low s'"
proof -
  assume s: "still s s'" and low: "names_low s"
  have "sn_name (h_sn s' d) = sn_name (h_sn s d)" for d by (rule same_sn_fields(2) [OF still_fields(2) [OF s]])
  then show ?thesis
    using low still_fields(1) [OF s] still_fields(5) [OF s] order_less_le_trans unfolding names_low_def by metis
qed

lemma names_low_inv: "sinode_inv s \<Longrightarrow> names_low s"
  unfolding names_low_def sinode_inv_def type_inv_def name_ok_def names_inv_def by blast

lemma still_str:
  assumes "still s s'" "names_low s" "t < TYPE_MAX" "d \<in> set_tree (si_by_spec s t)"
  shows "sn_str s' d = sn_str s d"
proof -
  have "sn_name (h_sn s d) < buf_cur (si_sbuf s)" using assms(2-4) by (simp add: names_low_def)
  then have "h_name s' (sn_name (h_sn s d)) = h_name s (sn_name (h_sn s d))" using assms(1) by (simp add: still_def)
  then show ?thesis by (simp add: sn_str_def same_sn_fields(2) [OF still_fields(2) [OF assms(1)]])
qed

lemma still_search:
  assumes "still s s'" "names_low s"
  shows "sinode_search s' TYPE_FILE SEARCH_BY_SPEC (ArgFile nm) = sinode_search s TYPE_FILE SEARCH_BY_SPEC (ArgFile nm)"
    "sinode_search s' TYPE_TYPE SEARCH_BY_SPEC (ArgLoc lf line col nm) =
      sinode_search s TYPE_TYPE SEARCH_BY_SPEC (ArgLoc lf line col nm)"
proof -
  note f = still_fields [OF assms(1)]
  have "rb_find (cmp_file s' nm) (si_by_spec s TYPE_FILE) = rb_find (cmp_file s nm) (si_by_spec s TYPE_FILE)"
    by (rule rb_find_cong) (simp add: cmp_file_def still_str [OF assms, of TYPE_FILE])
  then show "sinode_search s' TYPE_FILE SEARCH_BY_SPEC (ArgFile nm) = sinode_search s TYPE_FILE SEARCH_BY_SPEC (ArgFile nm)"
    by (simp add: sinode_search_file_def f(1))
  have "rb_find (cmp_name_loc s' nm lf line col) (si_by_spec s TYPE_TYPE) =
      rb_find (cmp_name_loc s nm lf line col) (si_by_spec s TYPE_TYPE)"
    by (rule rb_find_cong) (simp add: cmp_name_loc_def still_str [OF assms, of TYPE_TYPE] Let_def
        same_sn_fields(3-5) [OF still_fields(2) [OF assms(1)]])
  then show "sinode_search s' TYPE_TYPE SEARCH_BY_SPEC (ArgLoc lf line col nm) =
      sinode_search s TYPE_TYPE SEARCH_BY_SPEC (ArgLoc lf line col nm)"
    by (simp add: sinode_search_name_loc_def f(1))
qed

lemma still_target: "still s s' \<Longrightarrow> find_target_sibuf s' a = find_target_sibuf s a"
proof -
  assume s: "still s s'"
  have "(\<lambda>b. in_sibuf (h_sb s' b) a) = (\<lambda>b. in_sibuf (h_sb s b) a)"
    by (rule ext) (rule still_fields(8) [OF s])
  then show ?thesis by (simp only: find_target_sibuf_def still_fields(4) [OF s])
qed

subsection \<open>The node of a type\<close>

text \<open>
  \<open>xnode_of\<close> is what \<open>get_type_xnode\<close> finds, without loading and unloading, and \<open>node_of\<close> the
  type node \<open>find_type_node\<close> makes of it.
\<close>

definition xnode_of :: "trees \<Rightarrow> addr \<Rightarrow> gbs \<Rightarrow> (addr \<times> addr) option" where
  "xnode_of g node st =
     (let b = find_target_sibuf (gb_si st) node in
      if b = NULL then Some (NULL, NULL)
      else do {
        name \<leftarrow> get_type_name g node;
        (case check_file_type g node of
           TYPE_CANONICALED \<Rightarrow>
             (let node = tget g ''TYPE_CANONICAL'' node; b = find_target_sibuf (gb_si st) node
              in if b = NULL then Some (NULL, NULL) else xnode_at g b node st)
         | TYPE_UNDEFINED \<Rightarrow> Some (NULL, NULL)
         | TYPE_DEFINED \<Rightarrow> xnode_at g b node st)
      })"

definition node_of :: "trees \<Rightarrow> addr \<Rightarrow> gbs \<Rightarrow> addr option" where
  "node_of g node st =
     map_option (\<lambda>(sn, tn). if sn \<noteq> NULL then sn_data (h_sn (gb_si st) sn) else tn) (xnode_of g node st)"

lemma xnode_at_still:
  assumes "still (gb_si st) (gb_si st')" "names_low (gb_si st)" "gb_stn st' = gb_stn st"
  shows "xnode_at g b node st' = xnode_at g b node st"
  unfolding xnode_at_def xnode_search_def still_search [OF assms(1,2)] assms(3)
    still_fields(6,7) [OF assms(1)] ..

lemma node_of_still:
  assumes "still (gb_si st) (gb_si st')" "names_low (gb_si st)" "gb_stn st' = gb_stn st"
  shows "xnode_of g node st' = xnode_of g node st" "node_of g node st' = node_of g node st"
proof -
  show *: "xnode_of g node st' = xnode_of g node st"
    unfolding xnode_of_def xnode_at_still [OF assms] still_target [OF assms(1)] ..
  show "node_of g node st' = node_of g node st"
    unfolding node_of_def * same_sn_fields(1) [OF still_fields(2) [OF assms(1)]] ..
qed

lemma on_hold_quiet:
  assumes "on_si (sibuf_hold E W u b) st = Some (held, st')"
  shows "\<exists>s. st' = set_si s st \<and> quiet (gb_si st) s"
  using assms quiet_hold by (auto elim!: on_si_split)

lemma set_si_set [simp]: "set_si s (set_si s' st) = set_si s st"
  by (simp add: set_si_def)

lemma drop_at_quiet: "\<exists>s. drop_at held u b st = set_si s st \<and> quiet (gb_si st) s"
  by (auto simp: drop_at_def)

text \<open>A step that only loads or unloads.\<close>

definition loads :: "gbs \<Rightarrow> gbs \<Rightarrow> bool" where
  "loads st st' \<longleftrightarrow> (\<exists>s. st' = set_si s st \<and> quiet (gb_si st) s)"

lemma loads_refl [simp]: "loads st st"
  unfolding loads_def by (rule exI [of _ "gb_si st"]) (simp add: set_si_def gb_si_def)

lemma loads_trans: "loads st st' \<Longrightarrow> loads st' st'' \<Longrightarrow> loads st st''"
  unfolding loads_def using quiet_trans by force

lemma loads_hold: "on_si (sibuf_hold E W u b) st = Some (held, st') \<Longrightarrow> loads st st'"
  unfolding loads_def by (rule on_hold_quiet)

lemma loads_drop: "loads st (drop_at held u b st)"
  unfolding loads_def by (rule drop_at_quiet)

lemma loads_still: "loads st st' \<Longrightarrow> still (gb_si st) (gb_si st')"
  by (auto simp: loads_def quiet_still)

lemma loads_frames:
  "loads st st' \<Longrightarrow> gb_stn st' = gb_stn st \<and> gb_obj st' = gb_obj st \<and> h_tn (gb_cg st') = h_tn (gb_cg st) \<and>
     h_vn (gb_cg st') = h_vn (gb_cg st) \<and> h_sn (gb_si st') = h_sn (gb_si st) \<and> st_cur st' = st_cur st \<and>
     si_names_root (gb_si st') = si_names_root (gb_si st) \<and> names_inv (gb_si st') = names_inv (gb_si st)"
proof -
  assume "loads st st'"
  then obtain hb hr m where st': "st' = set_si ((gb_si st)\<lparr>h_sb := hb, h_rf := hr, si_sibuf_mem_usage := m\<rparr>) st"
    by (auto simp: loads_def quiet_def)
  have "name_key (gb_si st') = name_key (gb_si st)" by (simp add: st' fun_eq_iff name_key_def)
  then show ?thesis by (simp add: st' names_inv_def)
qed

lemma xnode_value:
  assumes "get_type_xnode E W u g node st = Some (r, st')" "names_low (gb_si st)"
  shows "xnode_of g node st = Some r" "loads st st'"
proof -
  let ?b = "find_target_sibuf (gb_si st) node"
  have at: "xnode_at g b a st2 = xnode_at g b a st" if "loads st st2" for b a st2
    using xnode_at_still [OF loads_still [OF that] assms(2)] loads_frames [OF that] by simp
  have tg: "find_target_sibuf (gb_si st2) a = find_target_sibuf (gb_si st) a" if "loads st st2" for a st2
    by (rule still_target [OF loads_still [OF that]])
  have "xnode_of g node st = Some r \<and> loads st st'"
  proof (cases "?b = NULL")
    case True
    then show ?thesis using assms(1) by (auto simp: get_type_xnode_def xnode_of_def)
  next
    case False
    obtain held st1 name where h: "on_si (sibuf_hold E W u ?b) st = Some (held, st1)"
      and name: "get_type_name g node = Some name"
      and rest: "(case check_file_type g node of
           TYPE_CANONICALED \<Rightarrow>
             (let st = drop_at held u ?b st1; node = tget g ''TYPE_CANONICAL'' node;
                  b = find_target_sibuf (gb_si st) node
              in if b = NULL then Some ((NULL, NULL), st)
                 else do {
                   (held, st) \<leftarrow> on_si (sibuf_hold E W u b) st;
                   r \<leftarrow> xnode_at g b node st;
                   Some (r, drop_at held u b st)
                 })
         | TYPE_UNDEFINED \<Rightarrow> Some ((NULL, NULL), drop_at held u ?b st1)
         | TYPE_DEFINED \<Rightarrow> do {
             r \<leftarrow> xnode_at g ?b node st1;
             Some (r, drop_at held u ?b st1)
           }) = Some (r, st')"
      using assms(1) False by (auto simp: get_type_xnode_def Let_def bind_splits)
    have l1: "loads st st1" by (rule loads_hold [OF h])
    have l2: "loads st (drop_at held u ?b st1)" by (rule loads_trans [OF l1 loads_drop])
    show ?thesis
    proof (cases "check_file_type g node")
      case TYPE_DEFINED
      then show ?thesis using rest l2 False name at [OF l1] by (auto simp: xnode_of_def bind_splits)
    next
      case TYPE_UNDEFINED
      then show ?thesis using rest l2 False name by (auto simp: xnode_of_def)
    next
      case TYPE_CANONICALED
      let ?c = "tget g ''TYPE_CANONICAL'' node"
      let ?bc = "find_target_sibuf (gb_si st) ?c"
      show ?thesis
      proof (cases "?bc = NULL")
        case True
        then show ?thesis using rest l2 False name TYPE_CANONICALED tg [OF l2] by (auto simp: xnode_of_def)
      next
        case nb: False
        then obtain held2 st2 where h2: "on_si (sibuf_hold E W u ?bc) (drop_at held u ?b st1) = Some (held2, st2)"
          and x: "xnode_at g ?bc ?c st2 = Some r" and st': "st' = drop_at held2 u ?bc st2"
          using rest TYPE_CANONICALED tg [OF l2] by (auto simp: Let_def bind_splits)
        have l3: "loads st st2" by (rule loads_trans [OF l2 loads_hold [OF h2]])
        then show ?thesis
          using x at [OF l3] False nb name TYPE_CANONICALED st' loads_trans [OF l3 loads_drop]
          by (auto simp: xnode_of_def)
      qed
    qed
  qed
  then show "xnode_of g node st = Some r" "loads st st'" by auto
qed

lemma find_node_value:
  assumes "find_type_node E W u g node st = Some (t, st')" "names_low (gb_si st)"
  shows "node_of g node st = Some t" "loads st st'"
proof -
  obtain r where x: "get_type_xnode E W u g node st = Some (r, st')"
    and t: "t = (if fst r \<noteq> NULL then sn_data (h_sn (gb_si st') (fst r)) else snd r)"
    using assms(1) by (auto simp: find_type_node_def bind_splits split: prod.splits)
  note v = xnode_value [OF x assms(2)]
  show "loads st st'" by (rule v(2))
  show "node_of g node st = Some t" using v t loads_frames [OF v(2)] by (simp add: node_of_def split: prod.splits)
qed

end
