(* ===== verification/Getbase_Props.thy ===== *)
theory Getbase_Props
  imports Getbase Sinode_Replace
begin

text \<open>
  What phase 2 decides and names: how a conflict of two declarations ends, and the names made
  for types without one.
\<close>

subsection \<open>The format of a sibuf\<close>

definition data_fmt :: "world \<Rightarrow> src \<Rightarrow> addr \<Rightarrow> nat" where
  "data_fmt W s b =
     (if b = NULL then SI_TYPE_DF_NONE
      else ty_fmt (fc_type (wd_fc W (rf_path (h_rf s (sb_rf (h_sb s b)))) (sb_offs_of_resfile (h_sb s b)))))"

lemma data_fmt_quiet:
  assumes "quiet s s'"
  shows "data_fmt W s' b = data_fmt W s b"
proof -
  have b: "same_sb (h_sb s b) (h_sb s' b)"
    and r: "same_rf (h_rf s (sb_rf (h_sb s b))) (h_rf s' (sb_rf (h_sb s b)))"
    using assms by (simp_all add: quiet_def)
  show ?thesis by (simp add: data_fmt_def same_sb_fields [OF b] same_rf_fields [OF r])
qed

lemma data_fmt_of:
  assumes "si_data_fmt_of E W u b s = Some (fmt, s')"
  shows "quiet s s'" "fmt = data_fmt W s b"
proof -
  have "quiet s s' \<and> fmt = data_fmt W s b"
  proof (cases "b = NULL")
    case False
    obtain h t where h: "sibuf_hold E W u b s = Some (h, t)"
      using assms False by (auto simp: si_data_fmt_of_def bind_splits)
    then have q: "quiet s t" by (rule quiet_hold)
    have s': "s' = drop_if h u b t" "fmt = data_fmt W t b"
      using assms False h by (auto simp: si_data_fmt_of_def fc_read_def data_fmt_def bind_splits split: if_splits)
    show ?thesis unfolding s' using q data_fmt_quiet [OF q] quiet_trans [OF q quiet_drop] by simp
  qed (use assms in \<open>simp add: si_data_fmt_of_def data_fmt_def\<close>)
  then show "quiet s s'" "fmt = data_fmt W s b" by blast+
qed

subsection \<open>Conflicts\<close>

text \<open>When a declaration takes the place of the one the project has, among trees of GCC.\<close>

definition stronger :: "trees \<Rightarrow> nat \<Rightarrow> addr \<Rightarrow> addr \<Rightarrow> bool" where
  "stronger g type newt oldt \<longleftrightarrow>
     (type = TYPE_FUNC_STATIC \<or> type = TYPE_FUNC_GLOBAL \<or> type = TYPE_VAR_GLOBAL) \<and>
       decl_weak g newt < decl_weak g oldt \<or>
     (type = TYPE_FUNC_STATIC \<or> type = TYPE_FUNC_GLOBAL) \<and>
       tget g ''DECL_STRUCT_FUNCTION'' oldt = NULL \<and> tget g ''DECL_STRUCT_FUNCTION'' newt \<noteq> NULL"

text \<open>No flag of a tree is below a flag that is 0 or \<open>- 1\<close>.\<close>

lemma weak_never_less: "x \<in> {0, - 1} \<Longrightarrow> \<not> int n < x"
  by auto

lemma func_conflict_value:
  assumes "func_conflict E W u g ob newt old s = Some (c, s')" "sn_weak_flag (h_sn s old) \<in> {0, - 1}"
    and "type = TYPE_FUNC_STATIC \<or> type = TYPE_FUNC_GLOBAL"
  shows "quiet s s'" "c = (if data_fmt W s (sn_buf (h_sn s old)) = SI_TYPE_DF_GIMPLE \<and>
      stronger g type newt (fo_real_addr (ob (sn_obj (h_sn s old))))
    then TREE_NAME_CONFLICT_REPLACE else TREE_NAME_CONFLICT_DROP)"
proof -
  obtain fmt where f: "si_data_fmt_of E W u (sn_buf (h_sn s old)) s = Some (fmt, s')"
    using assms(1) by (auto simp: func_conflict_def Let_def bind_splits)
  note d = data_fmt_of [OF f]
  show "quiet s s'" by (rule d(1))
  show "c = (if data_fmt W s (sn_buf (h_sn s old)) = SI_TYPE_DF_GIMPLE \<and>
      stronger g type newt (fo_real_addr (ob (sn_obj (h_sn s old))))
    then TREE_NAME_CONFLICT_REPLACE else TREE_NAME_CONFLICT_DROP)"
    using assms(1,3) f d(2) quietD(2) [OF d(1)] weak_never_less [OF assms(2)]
    by (auto simp: func_conflict_def Let_def stronger_def split: if_splits)
qed

lemma var_conflict_value:
  assumes "var_conflict E W u g ob newt old s = Some (c, s')" "sn_weak_flag (h_sn s old) \<in> {0, - 1}"
  shows "quiet s s'" "c = (if data_fmt W s (sn_buf (h_sn s old)) = SI_TYPE_DF_GIMPLE \<and>
      stronger g TYPE_VAR_GLOBAL newt (fo_real_addr (ob (sn_obj (h_sn s old))))
    then TREE_NAME_CONFLICT_REPLACE else TREE_NAME_CONFLICT_DROP)"
proof -
  obtain fmt where f: "si_data_fmt_of E W u (sn_buf (h_sn s old)) s = Some (fmt, s')"
    using assms(1) by (auto simp: var_conflict_def Let_def bind_splits)
  note d = data_fmt_of [OF f]
  show "quiet s s'" by (rule d(1))
  show "c = (if data_fmt W s (sn_buf (h_sn s old)) = SI_TYPE_DF_GIMPLE \<and>
      stronger g TYPE_VAR_GLOBAL newt (fo_real_addr (ob (sn_obj (h_sn s old))))
    then TREE_NAME_CONFLICT_REPLACE else TREE_NAME_CONFLICT_DROP)"
    using assms(1) f d(2) quietD(2) [OF d(1)] weak_never_less [OF assms(2)]
    by (auto simp: var_conflict_def Let_def stronger_def split: if_splits)
qed

lemma check_conflict_value:
  assumes run: "check_conflict E W u g ob type newt old s = Some (c, s')"
    and fl: "sn_weak_flag (h_sn s old) \<in> {0, - 1}"
  shows "quiet s s'" "c = (if data_fmt W s (sn_buf (h_sn s old)) = SI_TYPE_DF_GIMPLE \<and>
      stronger g type newt (fo_real_addr (ob (sn_obj (h_sn s old))))
    then TREE_NAME_CONFLICT_REPLACE else TREE_NAME_CONFLICT_DROP)"
proof -
  obtain fmt t where f: "si_data_fmt_of E W u (sn_buf (h_sn s old)) s = Some (fmt, t)"
    and rest: "(if type = TYPE_FUNC_STATIC \<or> type = TYPE_FUNC_GLOBAL then func_conflict E W u g ob newt old t
        else if type = TYPE_VAR_GLOBAL then var_conflict E W u g ob newt old t
        else if type = TYPE_TYPE then Some (type_conflict, t) else None) = Some (c, s')"
    using run by (auto simp: check_conflict_def bind_splits)
  note d = data_fmt_of [OF f]
  have h: "h_sn t = h_sn s" "data_fmt W t b = data_fmt W s b" for b
    using quietD(2) [OF d(1)] data_fmt_quiet [OF d(1)] by auto
  have fl': "sn_weak_flag (h_sn t old) \<in> {0, - 1}" using fl h by simp
  let ?c = "if data_fmt W s (sn_buf (h_sn s old)) = SI_TYPE_DF_GIMPLE \<and>
      stronger g type newt (fo_real_addr (ob (sn_obj (h_sn s old))))
    then TREE_NAME_CONFLICT_REPLACE else TREE_NAME_CONFLICT_DROP"
  consider "type = TYPE_FUNC_STATIC \<or> type = TYPE_FUNC_GLOBAL" | "type = TYPE_VAR_GLOBAL" | "type = TYPE_TYPE"
    using rest by (auto split: if_splits)
  then have "quiet t s' \<and> c = ?c"
  proof cases
    case 1
    then have "func_conflict E W u g ob newt old t = Some (c, s')" using rest by (simp split: if_splits)
    from func_conflict_value [OF this fl' 1] h show ?thesis by simp
  next
    case 2
    then have "var_conflict E W u g ob newt old t = Some (c, s')" using rest by simp
    from var_conflict_value [OF this fl'] h 2 show ?thesis by simp
  next
    case 3
    then show ?thesis using rest by (simp add: type_conflict_def stronger_def)
  qed
  then show "quiet s s'" "c = ?c" using quiet_trans [OF d(1)] by blast+
qed

text \<open>
  C38. When a name is taken, the decision is replacement exactly when the node there is one of
  GCC and the new declaration is the stronger one: not weak against weak, or, for functions,
  one with a function structure against one without. A node of another module, such as the
  assembler's, is kept always, also when it is weak and the new declaration is not: the flag
  of a node is a signed field of one bit, so the comparison with it never holds.
\<close>

theorem conflict_decided:
  assumes "check_conflict E W u g ob type newt old s = Some (c, s')"
    and "sn_weak_flag (h_sn s old) \<in> {0, - 1}"
  shows "c = (if data_fmt W s (sn_buf (h_sn s old)) = SI_TYPE_DF_GIMPLE \<and>
      stronger g type newt (fo_real_addr (ob (sn_obj (h_sn s old))))
    then TREE_NAME_CONFLICT_REPLACE else TREE_NAME_CONFLICT_DROP)"
  by (rule check_conflict_value(2) [OF assms])

subsection \<open>The names made for types\<close>

primrec field_chain :: "trees \<Rightarrow> addr \<Rightarrow> addr list \<Rightarrow> bool" where
  "field_chain g f [] \<longleftrightarrow> f = NULL"
| "field_chain g f (x # xs) \<longleftrightarrow> f = x \<and> x \<noteq> NULL \<and> field_chain g (tget g ''DECL_CHAIN'' x) xs"

definition field_names :: "trees \<Rightarrow> addr list \<Rightarrow> string list" where
  "field_names g fs =
     map (\<lambda>f. t_ident g (tget g ''DECL_NAME'' f)) (filter (\<lambda>f. tget g ''DECL_NAME'' f \<noteq> NULL) fs)"

definition names_text :: "string list \<Rightarrow> string" where
  "names_text ns = concat (map (\<lambda>n. ''_'' @ n) ns)"

definition names_read :: "trees \<Rightarrow> addr list \<Rightarrow> bool" where
  "names_read g fs \<longleftrightarrow> (\<forall>f \<in> set fs. tget g ''DECL_NAME'' f \<noteq> NULL \<longrightarrow>
     get_node_name g (tget g ''DECL_NAME'' f) \<noteq> None)"

lemma node_name_value: "get_node_name g n = Some nm \<Longrightarrow> nm = t_ident g n \<and> nm \<noteq> [] \<and> length nm < NAME_MAX"
  by (auto simp: get_node_name_def bind_splits)

lemma put_name_append:
  "put_name name (x @ y) = Option.bind (put_name name x) (\<lambda>name. put_name name y)"
  by (simp add: put_name_def)

lemma put_name_id: "length name + 1 \<le> NAME_MAX \<Longrightarrow> put_name name [] = Some name"
  by (simp add: put_name_def)

lemma gen_fields_value:
  assumes "field_chain g f fs" "names_read g fs" "length name + 1 \<le> NAME_MAX" "copied \<le> FIELD_NAME_MAX"
  shows "gen_fields g f cnt copied name =
    map_option (\<lambda>nm. (cnt + length fs, nm))
      (put_name name (names_text (take (FIELD_NAME_MAX - copied) (field_names g fs))))"
  using assms
proof (induction fs arbitrary: f cnt copied name)
  case Nil
  then show ?case by (subst gen_fields.simps) (simp add: names_text_def field_names_def put_name_id)
next
  case (Cons x xs)
  have f: "f = x" "x \<noteq> NULL" and ch: "field_chain g (tget g ''DECL_CHAIN'' x) xs"
    and rd: "names_read g xs" using Cons.prems by (auto simp: names_read_def)
  note IH = Cons.IH [OF ch rd]
  show ?case
  proof (cases "copied < FIELD_NAME_MAX \<and> tget g ''DECL_NAME'' x \<noteq> NULL")
    case True
    then obtain nm where nm: "get_node_name g (tget g ''DECL_NAME'' x) = Some nm"
      using Cons.prems(2) by (auto simp: names_read_def)
    have v: "nm = t_ident g (tget g ''DECL_NAME'' x)" "nm \<noteq> []" using node_name_value [OF nm] by auto
    have tk: "names_text (take (FIELD_NAME_MAX - copied) (field_names g (x # xs))) =
        (''_'' @ nm) @ names_text (take (FIELD_NAME_MAX - (copied + 1)) (field_names g xs))"
    proof -
      have "FIELD_NAME_MAX - copied = Suc (FIELD_NAME_MAX - (copied + 1))"
        using True by (simp add: Suc_diff_Suc)
      then show ?thesis using True v by (simp add: field_names_def names_text_def)
    qed
    show ?thesis
      unfolding tk put_name_append
      using True nm v(2) f IH [of _ "copied + 1" "cnt + 1"]
      by (subst gen_fields.simps) (auto simp: put_name_def)
  next
    case False
    then have "take (FIELD_NAME_MAX - copied) (field_names g (x # xs)) =
        take (FIELD_NAME_MAX - copied) (field_names g xs)"
      using Cons.prems(4) by (auto simp: field_names_def)
    then show ?thesis
      using False f IH [OF Cons.prems(3,4), of "cnt + 1"] by (subst gen_fields.simps) auto
  qed
qed

definition type_suffix :: "trees \<Rightarrow> addr \<Rightarrow> nat \<Rightarrow> addr \<Rightarrow> expanded_location \<Rightarrow> string" where
  "type_suffix g node cnt loc_file xloc = take (NAME_MAX - 1)
     (''_'' @ show_nat (t_num g node) @ ''_'' @ show_nat cnt @ ''_'' @ show_nat loc_file @
      ''_'' @ show_int (xl_line xloc) @ ''_'' @ show_int (xl_col xloc))"

text \<open>
  C40. The name made for an unnamed structure or union is the names of its first eight named
  fields and a suffix of numbers, provided that this fits into the 255 bytes of the caller's
  array. When it does not, \<open>gen_type_name\<close> writes past the end of the array. The comment above
  the function promises up to ten names; \<open>FIELD_NAME_MAX\<close> is 8.
\<close>

theorem type_name_made:
  assumes "t_type_code g node = RECORD_TYPE \<or> t_type_code g node = UNION_TYPE"
    and "field_chain g (tget g ''TYPE_FIELDS'' node) fs" "names_read g fs"
  shows "gen_type_name g name node loc_file xloc =
    (let made = names_text (take 8 (field_names g fs)) @ type_suffix g node (length fs) loc_file xloc
     in if length made < NAME_MAX then Some made else None)"
proof -
  have "gen_fields g (tget g ''TYPE_FIELDS'' node) 0 0 [] =
      map_option (\<lambda>nm. (length fs, nm)) (put_name [] (names_text (take 8 (field_names g fs))))"
    using gen_fields_value [OF assms(2,3), of "[]" 0 0] by (simp add: FIELD_NAME_MAX_def NAME_MAX_def)
  then have "gen_type_name g name node loc_file xloc =
      Option.bind (put_name [] (names_text (take 8 (field_names g fs))))
        (\<lambda>nm. put_name nm (type_suffix g node (length fs) loc_file xloc))"
    using assms(1) unfolding gen_type_name_def type_suffix_def
    by (cases "put_name [] (names_text (take 8 (field_names g fs)))") auto
  then show ?thesis unfolding put_name_append [symmetric] by (auto simp: put_name_def Let_def)
qed

end
