(* ===== verification/Getdetail_Walk.thy ===== *)
theory Getdetail_Walk
  imports Getdetail_Types Getbase_Props
begin

text \<open>
  The recursion over types of phase 3 as a walk: the invariant \<open>dinv\<close>, steps that may write only
  some of the old nodes and variables (\<open>dstep\<close>), and the locale \<open>type_walk\<close> of what the recursive
  call promises to the loops over fields, arguments and enumerators, interpreted on
  \<open>type_detail\<close>.
\<close>

subsection \<open>Complete nodes\<close>

definition detail_env :: "env \<Rightarrow> bool" where
  "detail_env E \<longleftrightarrow> env_ok E \<and> len_ok (csize E SzVarList) \<and> 0 < csize E SzVarList \<and>
     len_ok (csize E SzTypeNode) \<and> 0 < csize E SzTypeNode \<and> len_ok (csize E SzNameList + 256) \<and>
     len_ok (csize E SzAttrList) \<and> len_ok (csize E SzAttrvalList)"

abbreviation is_set :: "gbs \<Rightarrow> addr \<Rightarrow> bool" where
  "is_set st tn \<equiv> tn_is_set (h_tn (gb_cg st) tn)"

text \<open>What the recursion has to return for the type \<open>a\<close>.\<close>

definition type_at :: "trees \<Rightarrow> gbs \<Rightarrow> addr \<Rightarrow> addr \<Rightarrow> bool" where
  "type_at g st a t \<longleftrightarrow>
     (if type_missed g (t_type_code g a) then t = NULL else node_of g a st = Some t) \<and>
     (t \<noteq> NULL \<longrightarrow> is_set st t)"

definition field_done :: "trees \<Rightarrow> gbs \<Rightarrow> addr \<Rightarrow> addr \<Rightarrow> bool" where
  "field_done g st v f \<longleftrightarrow>
     (let x = h_vn (gb_cg st) v in vn_node x = f \<and> type_at g st (tget g ''TREE_TYPE'' f) (vn_type x) \<and>
        vn_name x = (if tget g ''DECL_NAME'' f = NULL then [] else t_ident g (tget g ''DECL_NAME'' f)))"

fun enum_chain :: "trees \<Rightarrow> addr \<Rightarrow> addr list \<Rightarrow> bool" where
  "enum_chain g e [] \<longleftrightarrow> e = NULL"
| "enum_chain g e (x # xs) \<longleftrightarrow> e = x \<and> e \<noteq> NULL \<and> enum_chain g (tget g ''TREE_CHAIN'' e) xs"

definition enum_done :: "trees \<Rightarrow> gbs \<Rightarrow> addr \<Rightarrow> addr \<Rightarrow> bool" where
  "enum_done g st v e \<longleftrightarrow>
     (let x = h_vn (gb_cg st) v in vn_node x = e \<and> vn_name x = t_ident g (tget g ''TREE_PURPOSE'' e) \<and>
        (\<exists>low. int_low g (tget g ''TREE_VALUE'' e) = Some low \<and>
           map (\<lambda>p. (pv_value_flag p, pv_value p)) (vn_possible_values x) = [(VALUE_IS_INT_CST, low)]))"

text \<open>The node \<open>x\<close> has what the tree \<open>node\<close> says.\<close>

definition shape :: "trees \<Rightarrow> gbs \<Rightarrow> addr \<Rightarrow> type_node \<Rightarrow> bool" where
  "shape g st node x \<longleftrightarrow>
     (let c = t_type_code g node in
      tn_is_set x \<and> (\<forall>v \<in> set (tn_children x). v < st_cur st) \<and>
      (type_sized g node \<longrightarrow> (\<exists>low. int_low g (tget g ''TYPE_SIZE_UNIT'' node) = Some low \<and> tn_ofsize x = slong low)) \<and>
      (type_has_next c \<longrightarrow> type_at g st (tget g ''TREE_TYPE'' node) (tn_next x)) \<and>
      (c = RECORD_TYPE \<or> c = UNION_TYPE \<longrightarrow> (\<exists>fs. field_chain g (tget g ''TYPE_FIELDS'' node) fs \<and>
         list_all2 (field_done g st) (tn_children x) fs)) \<and>
      (c = ENUMERAL_TYPE \<longrightarrow> (\<exists>es. enum_chain g (tget g ''TYPE_VALUES'' node) es \<and>
         list_all2 (enum_done g st) (tn_children x) es)))"

definition tn_complete :: "trees \<Rightarrow> gbs \<Rightarrow> addr \<Rightarrow> bool" where
  "tn_complete g st tn \<longleftrightarrow> (\<exists>node. \<not> type_missed g (t_type_code g node) \<and> node_of g node st = Some tn \<and>
     shape g st node (h_tn (gb_cg st) tn))"

text \<open>
  The invariant of the walk: a set node is complete unless it is one of \<open>G\<close>, whose cases are
  still running; \<open>R\<close> are the variables these have made and not yet filled.
\<close>

definition dinv :: "env \<Rightarrow> trees \<Rightarrow> addr set \<Rightarrow> addr set \<Rightarrow> gbs \<Rightarrow> bool" where
  "dinv E g G R st \<longleftrightarrow> detail_env E \<and> names_inv (gb_si st) \<and> names_low (gb_si st) \<and>
     (\<forall>node t. node_of g node st = Some t \<longrightarrow> t < st_cur st) \<and> (\<forall>v \<in> R. v < st_cur st) \<and>
     (\<forall>tn. if is_set st tn then tn < st_cur st \<and>
          (tn \<notin> G \<longrightarrow> tn_complete g st tn \<and> set (tn_children (h_tn (gb_cg st) tn)) \<inter> R = {})
        else tn_children (h_tn (gb_cg st) tn) = [])"

text \<open>A part of the walk; only the nodes \<open>X\<close> and the variables \<open>V\<close> may be written among the old ones.\<close>

definition dstep :: "addr set \<Rightarrow> addr set \<Rightarrow> gbs \<Rightarrow> gbs \<Rightarrow> bool" where
  "dstep X V st st' \<longleftrightarrow> still (gb_si st) (gb_si st') \<and> gb_stn st' = gb_stn st \<and> gb_obj st' = gb_obj st \<and>
     (\<forall>tn. is_set st tn \<longrightarrow> is_set st' tn \<and> (tn \<notin> X \<longrightarrow> h_tn (gb_cg st') tn = h_tn (gb_cg st) tn)) \<and>
     (\<forall>v < st_cur st. v \<notin> V \<longrightarrow> h_vn (gb_cg st') v = h_vn (gb_cg st) v)"

lemma dstep_refl [simp]: "dstep X V st st"
  by (simp add: dstep_def)

lemma dstep_cur: "dstep X V st st' \<Longrightarrow> st_cur st \<le> st_cur st'"
  by (simp add: dstep_def still_def)

lemma dstep_trans: "dstep X V st st' \<Longrightarrow> dstep X' V' st' st'' \<Longrightarrow> dstep (X \<union> X') (V \<union> V') st st''"
  using still_trans dstep_cur [of X V st st'] by (fastforce simp: dstep_def)

lemma dstep_mono: "dstep X V st st' \<Longrightarrow> X \<subseteq> X' \<Longrightarrow> \<forall>v \<in> V. v < st_cur st \<longrightarrow> v \<in> V' \<Longrightarrow> dstep X' V' st st'"
  by (auto simp: dstep_def)

lemma dstep_type_at:
  assumes "dstep X V st st'" "names_low (gb_si st)"
  shows "node_of g a st' = node_of g a st" "type_at g st a t \<Longrightarrow> type_at g st' a t"
proof -
  show *: "node_of g a st' = node_of g a st" for a
    by (rule node_of_still(2)) (use assms in \<open>simp_all add: dstep_def\<close>)
  show "type_at g st a t \<Longrightarrow> type_at g st' a t"
    using assms(1) by (auto simp: type_at_def * dstep_def split: if_splits)
qed

lemma list_all2_in: "list_all2 P xs ys \<Longrightarrow> (\<And>x y. x \<in> set xs \<Longrightarrow> P x y \<Longrightarrow> Q x y) \<Longrightarrow> list_all2 Q xs ys"
  by (auto simp: list_all2_conv_all_nth)

lemma dstep_shape:
  assumes st: "dstep X V st st'" "names_low (gb_si st)" and sh: "shape g st node x" and v: "set (tn_children x) \<inter> V = {}"
  shows "shape g st' node x"
proof -
  note t = dstep_type_at [OF st]
  have vn: "h_vn (gb_cg st') v = h_vn (gb_cg st) v \<and> v < st_cur st'" if "v \<in> set (tn_children x)" for v
    using st(1) sh v that dstep_cur [OF st(1)] by (fastforce simp: shape_def dstep_def Let_def)
  have f: "list_all2 (field_done g st') (tn_children x) fs" if "list_all2 (field_done g st) (tn_children x) fs" for fs
    using that
    by (rule list_all2_in) (use vn t(2) in \<open>auto simp: field_done_def Let_def\<close>)
  have e: "list_all2 (enum_done g st') (tn_children x) es" if "list_all2 (enum_done g st) (tn_children x) es" for es
    using that
    by (rule list_all2_in) (use vn in \<open>auto simp: enum_done_def Let_def\<close>)
  show ?thesis using sh f e vn t(2) unfolding shape_def Let_def by blast
qed

lemma dstep_complete:
  assumes "dstep X V st st'" "names_low (gb_si st)" "tn_complete g st tn" "is_set st tn" "tn \<notin> X"
    and "set (tn_children (h_tn (gb_cg st) tn)) \<inter> V = {}"
  shows "tn_complete g st' tn"
proof -
  have "h_tn (gb_cg st') tn = h_tn (gb_cg st) tn" using assms(1,4,5) by (simp add: dstep_def)
  then show ?thesis
    using assms(3) dstep_shape [OF assms(1,2) _ assms(6)] dstep_type_at(1) [OF assms(1,2)]
    by (auto simp: tn_complete_def)
qed

text \<open>The invariant after a step that sets no further node.\<close>

lemma dinv_step:
  assumes inv: "dinv E g G R st" and st: "dstep X V st st'" "names_inv (gb_si st')"
    and same: "\<And>tn. is_set st' tn = is_set st tn" "\<And>tn. \<not> is_set st tn \<Longrightarrow> tn_children (h_tn (gb_cg st') tn) = []"
    and sub: "X \<subseteq> G" "V \<subseteq> R" "\<forall>v \<in> R' - R. st_cur st \<le> v \<and> v < st_cur st'"
  shows "dinv E g G R' st'"
proof -
  have low: "names_low (gb_si st)" and cur: "st_cur st \<le> st_cur st'" using inv dstep_cur [OF st(1)] by (auto simp: dinv_def)
  have nodes: "node_of g a st' = node_of g a st" for a by (rule dstep_type_at(1) [OF st(1) low])
  have "names_low (gb_si st')" using names_low_still [OF _ low] st(1) by (simp add: dstep_def)
  moreover have "v < st_cur st'" if "v \<in> R'" for v
  proof (cases "v \<in> R")
    case True
    then show ?thesis using inv cur by (fastforce simp: dinv_def)
  next
    case False
    then show ?thesis using sub(3) that by blast
  qed
  moreover have "tn < st_cur st' \<and> (tn \<notin> G \<longrightarrow> tn_complete g st' tn \<and> set (tn_children (h_tn (gb_cg st') tn)) \<inter> R' = {})"
    if s: "is_set st tn" for tn
  proof (intro conjI impI)
    have i: "tn < st_cur st" "tn \<notin> G \<Longrightarrow> tn_complete g st tn \<and> set (tn_children (h_tn (gb_cg st) tn)) \<inter> R = {}"
      using inv s by (auto simp: dinv_def)
    then show "tn < st_cur st'" using cur by simp
    assume G: "tn \<notin> G"
    then have c: "tn_complete g st tn" "set (tn_children (h_tn (gb_cg st) tn)) \<inter> R = {}" using i by auto
    then show "tn_complete g st' tn"
      using dstep_complete [OF st(1) low _ s] G sub by blast
    have same: "h_tn (gb_cg st') tn = h_tn (gb_cg st) tn" using st(1) s G sub(1) by (auto simp: dstep_def)
    have "v \<notin> R'" if v: "v \<in> set (tn_children (h_tn (gb_cg st) tn))" for v
    proof -
      have "v < st_cur st" using c(1) v by (auto simp: tn_complete_def shape_def Let_def)
      moreover have "v \<notin> R" using c(2) v by blast
      ultimately show ?thesis using sub(3) by (meson DiffI leD)
    qed
    then show "set (tn_children (h_tn (gb_cg st') tn)) \<inter> R' = {}" unfolding same by blast
  qed
  moreover have "t < st_cur st'" if "node_of g a st' = Some t" for a t
  proof -
    have "t < st_cur st" using inv that nodes by (simp add: dinv_def)
    then show ?thesis using cur by simp
  qed
  moreover have "detail_env E" using inv by (simp add: dinv_def)
  ultimately show ?thesis unfolding dinv_def using st(2) same by auto
qed

subsection \<open>Elementary steps\<close>

lemma names_inv_buf: "names_inv s \<Longrightarrow> src_buf_inv b \<Longrightarrow> buf_cur (si_sbuf s) \<le> buf_cur b \<Longrightarrow> names_inv (s\<lparr>si_sbuf := b\<rparr>)"
proof -
  assume a: "names_inv s" "src_buf_inv b" "buf_cur (si_sbuf s) \<le> buf_cur b"
  have "name_key (s\<lparr>si_sbuf := b\<rparr>) = name_key s" by (simp add: fun_eq_iff name_key_def)
  then show ?thesis using a by (fastforce simp: names_inv_def)
qed

lemma load_step:
  assumes "dinv E g G R st" "loads st st'"
  shows "dstep {} {} st st'" "dinv E g G R st'"
proof -
  note f = loads_frames [OF assms(2)]
  show d: "dstep {} {} st st'" using f loads_still [OF assms(2)] by (simp add: dstep_def)
  have "names_inv (gb_si st')" using f assms(1) by (simp add: dinv_def)
  then show "dinv E g G R st'" by (rule dinv_step [OF assms(1) d]) (use f assms(1) in \<open>auto simp: dinv_def split: if_splits\<close>)
qed

lemma name_step:
  assumes inv: "dinv E g G R st" and run: "on_si (name_list_add E nm) st = Some (q, st')" and nm: "length nm < NAME_MAX"
  shows "dstep {} {} st st'" "dinv E g G R st'" "gb_cg st' = (gb_cg st)\<lparr>cg_si := gb_si st'\<rparr>"
proof -
  obtain s where r: "name_list_add E nm (gb_si st) = Some (q, s)" and st': "st' = set_si s st"
    using run by (rule on_si_split)
  have e: "env_ok E" "names_inv (gb_si st)" and l: "len_ok (csize E SzNameList + 256)"
    using inv by (auto simp: dinv_def detail_env_def)
  have "namelen_ok E nm" using nm l by (simp add: namelen_ok_def len_ok_def NAME_MAX_def)
  note n = name_still [OF e this r]
  show d: "dstep {} {} st st'" using n by (simp add: dstep_def st')
  show "dinv E g G R st'"
    by (rule dinv_step [OF inv d]) (use n inv in \<open>auto simp: st' dinv_def split: if_splits\<close>)
  show "gb_cg st' = (gb_cg st)\<lparr>cg_si := gb_si st'\<rparr>" by (simp add: st' set_si_def gb_si_def)
qed

text \<open>New memory for a variable or a type node.\<close>

lemma alloc_step:
  assumes inv: "dinv E g G R st" and run: "on_si (si_buf_get E len) st = Some (p, st1)" and len: "len_ok len" "0 < len"
  shows "p = st_cur st" "p < st_cur st1" "still (gb_si st) (gb_si st1)" "names_inv (gb_si st1)"
    "gb_cg st1 = (gb_cg st)\<lparr>cg_si := gb_si st1\<rparr>" "gb_stn st1 = gb_stn st" "gb_obj st1 = gb_obj st"
proof -
  have n: "names_inv (gb_si st)" using inv by (simp add: dinv_def)
  then have ok: "region_ok E st" using inv by (auto simp: region_ok_def dinv_def detail_env_def names_inv_def)
  note a = get_spec [OF ok len(1) run]
  obtain b where b: "st1 = set_si ((gb_si st)\<lparr>si_sbuf := b\<rparr>) st" using a(5) by blast
  show "p = st_cur st" "p < st_cur st1" using a(1,3) len(2) by simp_all
  have le: "buf_cur (si_sbuf (gb_si st)) \<le> buf_cur b" using a(1,3) b by simp
  show "still (gb_si st) (gb_si st1)" using buf_still [OF le] b by simp
  show "names_inv (gb_si st1)" using names_inv_buf [OF n _ le] a(2) b by (simp add: region_ok_def)
  show "gb_cg st1 = (gb_cg st)\<lparr>cg_si := gb_si st1\<rparr>" "gb_stn st1 = gb_stn st" "gb_obj st1 = gb_obj st"
    by (simp_all add: b set_si_def gb_si_def)
qed

lemma upd_vn_frames [simp]:
  "cg_si (upd_vn p f c) = cg_si c" "h_tn (upd_vn p f c) = h_tn c" "h_fn (upd_vn p f c) = h_fn c"
  "h_vn (upd_vn p f c) q = (if q = p then f (h_vn c p) else h_vn c q)"
  by (simp_all add: upd_vn_def)

lemma upd_tn_frames [simp]:
  "cg_si (upd_tn p f c) = cg_si c" "h_vn (upd_tn p f c) = h_vn c" "h_fn (upd_tn p f c) = h_fn c"
  "h_tn (upd_tn p f c) q = (if q = p then f (h_tn c p) else h_tn c q)"
  by (simp_all add: upd_tn_def)

lemma new_var_step:
  assumes inv: "dinv E g G R st" and run: "var_list_new E node st = Some (v, st')"
  shows "v = st_cur st" "dstep {} {} st st'" "dinv E g G (insert v R) st'"
    "h_vn (gb_cg st') v = var_node_init node" "h_tn (gb_cg st') = h_tn (gb_cg st)"
proof -
  obtain st1 where r: "on_si (si_buf_get E (csize E SzVarList)) st = Some (v, st1)"
    and st': "st' = in_cg (upd_vn v (\<lambda>_. var_node_init node)) st1"
    using run by (auto simp: var_list_new_def bind_splits)
  have len: "len_ok (csize E SzVarList)" "0 < csize E SzVarList" using inv by (auto simp: dinv_def detail_env_def)
  note a = alloc_step [OF inv r len]
  show "v = st_cur st" by (rule a(1))
  show "h_vn (gb_cg st') v = var_node_init node" "h_tn (gb_cg st') = h_tn (gb_cg st)"
    using a(5) by (simp_all add: st')
  have si: "gb_si st' = gb_si st1" by (simp add: st')
  show d: "dstep {} {} st st'"
    using a(1,3,6,7) by (simp add: dstep_def si) (simp add: st' a(5))
  show "dinv E g G (insert v R) st'"
    by (rule dinv_step [OF inv d])
       (use a(1,2,4) inv in \<open>auto simp: si st' a(5) dinv_def split: if_splits\<close>)
qed

lemma fill_var_step:
  assumes inv: "dinv E g G R st" and v: "v \<in> R"
  shows "dstep {} {v} st (in_cg (upd_vn v f) st)" "dinv E g G R (in_cg (upd_vn v f) st)"
proof -
  show d: "dstep {} {v} st (in_cg (upd_vn v f) st)" by (simp add: dstep_def)
  show "dinv E g G R (in_cg (upd_vn v f) st)"
    by (rule dinv_step [OF inv d]) (use inv v in \<open>auto simp: dinv_def split: if_splits\<close>)
qed

lemma write_node_step:
  assumes inv: "dinv E g G R st" and tn: "tn \<in> G" "is_set st tn" and f: "\<And>x. tn_is_set (f x) = tn_is_set x"
  shows "dstep {tn} {} st (in_cg (upd_tn tn f) st)" "dinv E g G R (in_cg (upd_tn tn f) st)"
proof -
  show d: "dstep {tn} {} st (in_cg (upd_tn tn f) st)" using f by (simp add: dstep_def)
  show "dinv E g G R (in_cg (upd_tn tn f) st)"
    by (rule dinv_step [OF inv d]) (use inv tn f in \<open>auto simp: dinv_def split: if_splits\<close>)
qed

lemma add_child_step:
  assumes "dinv E g G R st" "tn \<in> G" "is_set st tn"
  shows "dstep {tn} {} st (add_child tn c st)" "dinv E g G R (add_child tn c st)"
  unfolding add_child_def by (rule write_node_step [OF assms]; simp)+

lemma dinv_less:
  assumes "dinv E g G R st" "R' \<subseteq> R"
  shows "dinv E g G R' st"
  by (rule dinv_step [OF assms(1) dstep_refl [of "{}" "{}"]]) (use assms in \<open>auto simp: dinv_def split: if_splits\<close>)

lemma dinv_low: "dinv E g G R st \<Longrightarrow> names_low (gb_si st)"
  by (simp add: dinv_def)

text \<open>Steps one after the other; variables made on the way may be written.\<close>

lemma dstep_then:
  assumes "dstep X V st st'" "dstep X' V' st' st''" "X \<subseteq> Y" "X' \<subseteq> Y" "V \<subseteq> U" "\<forall>v \<in> V'. v < st_cur st \<longrightarrow> v \<in> U"
  shows "dstep Y U st st''"
  by (rule dstep_mono [OF dstep_trans [OF assms(1,2)]]) (use assms(3-6) in auto)

subsection \<open>The loops of a case\<close>

lemma enum_value_step:
  assumes inv: "dinv E g G R st" and tn: "tn \<in> G" "is_set st tn" and run: "enum_value E g tn e st = Some st'"
  shows "\<exists>v. dstep {tn} {} st st' \<and> dinv E g G R st' \<and> enum_done g st' v e \<and>
    h_tn (gb_cg st') tn = (h_tn (gb_cg st) tn)\<lparr>tn_children := tn_children (h_tn (gb_cg st) tn) @ [v]\<rparr> \<and>
    st_cur st \<le> v \<and> v < st_cur st'"
proof -
  obtain name v st1 q st2 low where n: "get_node_name g (tget g ''TREE_PURPOSE'' e) = Some name"
    and r1: "var_list_new E e st = Some (v, st1)" and r2: "on_si (name_list_add E name) st1 = Some (q, st2)"
    and low: "int_low g (tget g ''TREE_VALUE'' e) = Some low"
    and st': "st' = add_child tn v (in_cg (add_possible v VALUE_IS_INT_CST low 0)
      (in_cg (upd_vn v (\<lambda>x. x\<lparr>vn_name := name\<rparr>)) st2))"
    using run by (auto simp: enum_value_def Let_def bind_splits)
  have nm: "name = t_ident g (tget g ''TREE_PURPOSE'' e)" "length name < NAME_MAX"
    using node_name_value [OF n] by auto
  note s1 = new_var_step [OF inv r1]
  note s2 = name_step [OF s1(3) r2 nm(2)]
  note s3 = fill_var_step [OF s2(2) insertI1, of "\<lambda>x. x\<lparr>vn_name := name\<rparr>"]
  let ?f = "\<lambda>f. f\<lparr>vn_possible_values := snd (add_possible_list (vn_possible_values f) VALUE_IS_INT_CST low 0)\<rparr>"
  note s4 = fill_var_step [OF s3(2) insertI1, of ?f, folded add_possible_def]
  let ?st4 = "in_cg (add_possible v VALUE_IS_INT_CST low 0) (in_cg (upd_vn v (\<lambda>x. x\<lparr>vn_name := name\<rparr>)) st2)"
  have h2: "h_tn (gb_cg st2) = h_tn (gb_cg st)" "h_vn (gb_cg st2) = h_vn (gb_cg st1)"
    using s1(5) by (simp_all add: s2(3))
  have h4: "h_tn (gb_cg ?st4) tn = h_tn (gb_cg st) tn" by (simp add: h2 add_possible_def)
  then have tn4: "is_set ?st4 tn" using tn(2) by simp
  note s5 = add_child_step [OF s4(2) tn(1) tn4, of v, folded st']
  have d02: "dstep {} {} st st2" by (rule dstep_then [OF s1(2) s2(1)]) auto
  have d24: "dstep {} {v} st2 ?st4" by (rule dstep_then [OF s3(1) s4(1)]) auto
  have d04: "dstep {} {} st ?st4" by (rule dstep_then [OF d02 d24]) (auto simp: s1(1))
  have "dstep {tn} {} st st'" by (rule dstep_then [OF d04 s5(1)]) auto
  moreover have "dinv E g G R st'" by (rule dinv_less [OF s5(2)]) auto
  moreover have "enum_done g st' v e"
    using low nm(1) s1(4)
    by (simp add: enum_done_def st' add_child_def add_possible_def h2 var_node_init_def add_possible_list_def
        possible_list_find_def op_defs)
  moreover have "h_tn (gb_cg st') tn = (h_tn (gb_cg st) tn)\<lparr>tn_children := tn_children (h_tn (gb_cg st) tn) @ [v]\<rparr>"
    using h4 by (simp add: st' add_child_def op_defs)
  moreover have "v < st_cur st'" using s5(2) by (simp add: dinv_def)
  ultimately show ?thesis using s1(1) by auto
qed

lemma enum_values_step:
  assumes "dinv E g G R st" "tn \<in> G" "is_set st tn" "enum_values n E g tn e st = Some st'"
  shows "dstep {tn} {} st st' \<and> dinv E g G R st' \<and> (\<exists>es vs. enum_chain g e es \<and>
    list_all2 (enum_done g st') vs es \<and> (\<forall>v \<in> set vs. st_cur st \<le> v \<and> v < st_cur st') \<and>
    h_tn (gb_cg st') tn = (h_tn (gb_cg st) tn)\<lparr>tn_children := tn_children (h_tn (gb_cg st) tn) @ vs\<rparr>)"
  using assms
proof (induction n arbitrary: e st)
  case 0
  then show ?case by simp
next
  case (Suc n)
  show ?case
  proof (cases "e = NULL")
    case True
    then have "st' = st" using Suc.prems(4) by simp
    then show ?thesis using Suc.prems True by (intro conjI exI [of _ "[]"]) simp_all
  next
    case False
    obtain st1 where r: "enum_value E g tn e st = Some st1"
      and rest: "enum_values n E g tn (tget g ''TREE_CHAIN'' e) st1 = Some st'"
      using Suc.prems(4) False by (auto simp: bind_splits)
    obtain v where s1: "dstep {tn} {} st st1" "dinv E g G R st1" "enum_done g st1 v e"
      "h_tn (gb_cg st1) tn = (h_tn (gb_cg st) tn)\<lparr>tn_children := tn_children (h_tn (gb_cg st) tn) @ [v]\<rparr>"
      "st_cur st \<le> v" "v < st_cur st1"
      using enum_value_step [OF Suc.prems(1-3) r] by blast
    have "is_set st1 tn" using s1(1) Suc.prems(3) by (simp add: dstep_def)
    from Suc.IH [OF s1(2) Suc.prems(2) this rest]
    obtain es vs where s2: "dstep {tn} {} st1 st'" "dinv E g G R st'" "enum_chain g (tget g ''TREE_CHAIN'' e) es"
      "list_all2 (enum_done g st') vs es" "\<forall>v \<in> set vs. st_cur st1 \<le> v \<and> v < st_cur st'"
      "h_tn (gb_cg st') tn = (h_tn (gb_cg st1) tn)\<lparr>tn_children := tn_children (h_tn (gb_cg st1) tn) @ vs\<rparr>"
      by blast
    have "h_vn (gb_cg st') v = h_vn (gb_cg st1) v" using s2(1) s1(6) by (simp add: dstep_def)
    then have "enum_done g st' v e" using s1(3) by (simp add: enum_done_def Let_def)
    moreover have "\<forall>v \<in> set (v # vs). st_cur st \<le> v \<and> v < st_cur st'"
      using s1(5,6) s2(5) dstep_cur [OF s1(1)] dstep_cur [OF s2(1)] by fastforce
    ultimately show ?thesis
      using s2 s1(4) False dstep_then [OF s1(1) s2(1), of "{tn}" "{}"]
      by (intro conjI exI [of _ "e # es"] exI [of _ "v # vs"]) auto
  qed
qed

locale type_walk =
  fixes E :: env and g :: trees and detail :: detail_fun
  assumes detail_step: "dinv E g G R st \<Longrightarrow> detail a st = Some (t, st') \<Longrightarrow>
    dstep {} {} st st' \<and> dinv E g G R st' \<and> type_at g st' a t"
begin

lemma field_name_step:
  assumes inv: "dinv E g G R st" and v: "v \<in> R" and run: "field_name E g field v st = Some st'"
  shows "dstep {} {v} st st'" "dinv E g G R st'" "h_tn (gb_cg st') = h_tn (gb_cg st)"
    "h_vn (gb_cg st') v = (if tget g ''DECL_NAME'' field = NULL then h_vn (gb_cg st) v
       else (h_vn (gb_cg st) v)\<lparr>vn_name := t_ident g (tget g ''DECL_NAME'' field)\<rparr>)"
proof -
  have "dstep {} {v} st st' \<and> dinv E g G R st' \<and> h_tn (gb_cg st') = h_tn (gb_cg st) \<and>
    h_vn (gb_cg st') v = (if tget g ''DECL_NAME'' field = NULL then h_vn (gb_cg st) v
       else (h_vn (gb_cg st) v)\<lparr>vn_name := t_ident g (tget g ''DECL_NAME'' field)\<rparr>)"
  proof (cases "tget g ''DECL_NAME'' field = NULL")
    case True
    then show ?thesis using run inv by (simp add: field_name_def)
  next
    case False
    obtain name q st1 where n: "get_node_name g (tget g ''DECL_NAME'' field) = Some name"
      and r: "on_si (name_list_add E name) st = Some (q, st1)"
      and st': "st' = in_cg (upd_vn v (\<lambda>x. x\<lparr>vn_name := name\<rparr>)) st1"
      using run False by (auto simp: field_name_def bind_splits)
    have nm: "name = t_ident g (tget g ''DECL_NAME'' field)" "length name < NAME_MAX"
      using node_name_value [OF n] by auto
    note s1 = name_step [OF inv r nm(2)]
    note s2 = fill_var_step [OF s1(2) v, of "\<lambda>x. x\<lparr>vn_name := name\<rparr>", folded st']
    have "h_tn (gb_cg st1) = h_tn (gb_cg st)" "h_vn (gb_cg st1) = h_vn (gb_cg st)"
      by (simp_all add: s1(3))
    then show ?thesis
      using s2(2) dstep_then [OF s1(1) s2(1)] False nm(1) by (auto simp: st')
  qed
  then show "dstep {} {v} st st'" "dinv E g G R st'" "h_tn (gb_cg st') = h_tn (gb_cg st)"
    "h_vn (gb_cg st') v = (if tget g ''DECL_NAME'' field = NULL then h_vn (gb_cg st) v
       else (h_vn (gb_cg st) v)\<lparr>vn_name := t_ident g (tget g ''DECL_NAME'' field)\<rparr>)" by auto
qed

lemma type_field_step:
  assumes inv: "dinv E g G R st" and tn: "tn \<in> G" "is_set st tn" and run: "type_field detail E g tn field st = Some st'"
  shows "\<exists>v. dstep {tn} {} st st' \<and> dinv E g G R st' \<and> field_done g st' v field \<and>
    (\<exists>b. h_tn (gb_cg st') tn = (h_tn (gb_cg st) tn)\<lparr>tn_children := tn_children (h_tn (gb_cg st) tn) @ [v],
       tn_is_variant := b\<rparr>) \<and> st_cur st \<le> v \<and> v < st_cur st'"
proof -
  let ?st0 = "mark_variant g tn field st"
  obtain v st1 t st2 st3 where r1: "var_list_new E field ?st0 = Some (v, st1)"
    and r2: "detail (tget g ''TREE_TYPE'' field) st1 = Some (t, st2)"
    and r3: "field_name E g field v (in_cg (upd_vn v (\<lambda>x. x\<lparr>vn_type := t\<rparr>)) st2) = Some st3"
    and st': "st' = add_child tn v st3"
    using run by (auto simp: type_field_def bind_splits)
  have s0: "dstep {tn} {} st ?st0" "dinv E g G R ?st0"
    using write_node_step [OF inv tn, of "\<lambda>x. x\<lparr>tn_is_variant := True\<rparr>"] inv by (auto simp: mark_variant_def)
  have "\<exists>b. h_tn (gb_cg ?st0) tn = (h_tn (gb_cg st) tn)\<lparr>tn_is_variant := b\<rparr>"
    by (rule exI [of _ "tn_is_variant (h_tn (gb_cg ?st0) tn)"]) (simp add: mark_variant_def)
  then obtain b where b: "h_tn (gb_cg ?st0) tn = (h_tn (gb_cg st) tn)\<lparr>tn_is_variant := b\<rparr>" by blast
  have c0: "st_cur ?st0 = st_cur st" by (simp add: mark_variant_def)
  note s1 = new_var_step [OF s0(2) r1]
  note s2 = detail_step [OF s1(3) r2]
  let ?st2 = "in_cg (upd_vn v (\<lambda>x. x\<lparr>vn_type := t\<rparr>)) st2"
  have inv2: "dinv E g G (insert v R) st2" and d2: "dstep {} {} st1 st2" and ty: "type_at g st2 (tget g ''TREE_TYPE'' field) t"
    using s2 by auto
  note s3 = fill_var_step [OF inv2 insertI1, of "\<lambda>x. x\<lparr>vn_type := t\<rparr>"]
  note s4 = field_name_step [OF s3(2) insertI1 r3]
  have tn1: "is_set ?st0 tn" using s0(1) tn(2) by (simp add: dstep_def)
  have h1: "h_tn (gb_cg st1) tn = h_tn (gb_cg ?st0) tn" using s1(5) by simp
  then have h2: "h_tn (gb_cg st2) tn = h_tn (gb_cg ?st0) tn" using d2 tn1 by (simp add: dstep_def)
  have tn3: "is_set st3 tn" using h2 tn1 s4(3) by simp
  note s5 = add_child_step [OF s4(2) tn(1) tn3, of v, folded st']
  have "v < st_cur st1" using s1(3) by (simp add: dinv_def)
  then have vn: "h_vn (gb_cg st2) v = var_node_init field" using d2 s1(4) by (simp add: dstep_def)
  have vs: "h_vn (gb_cg st') v = (var_node_init field)\<lparr>vn_type := t,
      vn_name := (if tget g ''DECL_NAME'' field = NULL then [] else t_ident g (tget g ''DECL_NAME'' field))\<rparr>"
    using s4(4) vn by (simp add: st' add_child_def var_node_init_def)
  have d3: "dstep {} {v} st2 st3" by (rule dstep_then [OF s3(1) s4(1)]) auto
  have "type_at g st' (tget g ''TREE_TYPE'' field) t"
    by (rule dstep_type_at(2) [OF s5(1) dinv_low [OF s4(2)] dstep_type_at(2) [OF d3 dinv_low [OF inv2] ty]])
  then have fd: "field_done g st' v field" using vs by (simp add: field_done_def var_node_init_def)
  have v: "v = st_cur st" using s1(1) c0 by simp
  have d12: "dstep {tn} {} st st2"
    by (rule dstep_then [OF dstep_then [OF s0(1) s1(2), of "{tn}" "{}"] d2]) auto
  have d13: "dstep {tn} {} st st3" by (rule dstep_then [OF d12 d3]) (auto simp: v)
  have d: "dstep {tn} {} st st'" by (rule dstep_then [OF d13 s5(1)]) auto
  moreover have "dinv E g G R st'" by (rule dinv_less [OF s5(2)]) auto
  moreover have "h_tn (gb_cg st') tn = (h_tn (gb_cg st) tn)\<lparr>tn_children := tn_children (h_tn (gb_cg st) tn) @ [v],
       tn_is_variant := b\<rparr>"
    using h2 s4(3) b by (simp add: st' add_child_def op_defs)
  moreover have "v < st_cur st'" using s5(2) by (simp add: dinv_def)
  ultimately show ?thesis using fd v by blast
qed

text \<open>How the loops over fields, enumerators and arguments change the node of the type.\<close>

lemma type_fields_step:
  assumes "dinv E g G R st" "tn \<in> G" "is_set st tn" "type_fields n detail E g tn field st = Some st'"
  shows "dstep {tn} {} st st' \<and> dinv E g G R st' \<and> (\<exists>fs vs b. field_chain g field fs \<and>
    list_all2 (field_done g st') vs fs \<and> (\<forall>v \<in> set vs. st_cur st \<le> v \<and> v < st_cur st') \<and>
    h_tn (gb_cg st') tn = (h_tn (gb_cg st) tn)\<lparr>tn_children := tn_children (h_tn (gb_cg st) tn) @ vs, tn_is_variant := b\<rparr>)"
  using assms
proof (induction n arbitrary: field st)
  case 0
  then show ?case by simp
next
  case (Suc n)
  show ?case
  proof (cases "field = NULL")
    case True
    then have "st' = st" using Suc.prems(4) by simp
    then show ?thesis
      using Suc.prems True
      by (intro conjI exI [of _ "[]"] exI [of _ "tn_is_variant (h_tn (gb_cg st) tn)"]) simp_all
  next
    case False
    obtain st1 where r: "type_field detail E g tn field st = Some st1"
      and rest: "type_fields n detail E g tn (tget g ''DECL_CHAIN'' field) st1 = Some st'"
      using Suc.prems(4) False by (auto simp: bind_splits)
    obtain v b where s1: "dstep {tn} {} st st1" "dinv E g G R st1" "field_done g st1 v field"
      "h_tn (gb_cg st1) tn = (h_tn (gb_cg st) tn)\<lparr>tn_children := tn_children (h_tn (gb_cg st) tn) @ [v], tn_is_variant := b\<rparr>"
      "st_cur st \<le> v" "v < st_cur st1"
      using type_field_step [OF Suc.prems(1-3) r] by blast
    have "is_set st1 tn" using s1(1) Suc.prems(3) by (simp add: dstep_def)
    from Suc.IH [OF s1(2) Suc.prems(2) this rest]
    obtain fs vs c where s2: "dstep {tn} {} st1 st'" "dinv E g G R st'" "field_chain g (tget g ''DECL_CHAIN'' field) fs"
      "list_all2 (field_done g st') vs fs" "\<forall>v \<in> set vs. st_cur st1 \<le> v \<and> v < st_cur st'"
      "h_tn (gb_cg st') tn = (h_tn (gb_cg st1) tn)\<lparr>tn_children := tn_children (h_tn (gb_cg st1) tn) @ vs, tn_is_variant := c\<rparr>"
      by blast
    have "h_vn (gb_cg st') v = h_vn (gb_cg st1) v" using s2(1) s1(6) by (simp add: dstep_def)
    then have "field_done g st' v field"
      using s1(3) dstep_type_at(2) [OF s2(1) dinv_low [OF s1(2)]] by (simp add: field_done_def Let_def)
    moreover have "\<forall>v \<in> set (v # vs). st_cur st \<le> v \<and> v < st_cur st'"
      using s1(5,6) s2(5) dstep_cur [OF s1(1)] dstep_cur [OF s2(1)] by fastforce
    ultimately show ?thesis
      using s2 s1(4) False dstep_then [OF s1(1) s2(1), of "{tn}" "{}"]
      by (intro conjI exI [of _ "field # fs"] exI [of _ "v # vs"] exI [of _ c]) auto
  qed
qed

lemma type_arg_step:
  assumes inv: "dinv E g G R st" and tn: "tn \<in> G" "is_set st tn" and run: "type_arg detail E g tn args st = Some st'"
  shows "dstep {tn} {} st st' \<and> dinv E g G R st' \<and> (\<exists>vs. (\<forall>v \<in> set vs. st_cur st \<le> v \<and> v < st_cur st') \<and>
    h_tn (gb_cg st') tn = (h_tn (gb_cg st) tn)\<lparr>tn_children := tn_children (h_tn (gb_cg st) tn) @ vs\<rparr>)"
proof (cases "arg_is_va g args")
  case False
  then obtain t where r: "detail (tget g ''TREE_VALUE'' args) st = Some (t, st')"
    using run by (auto simp: type_arg_def bind_splits)
  note s = detail_step [OF inv r]
  have "h_tn (gb_cg st') tn = h_tn (gb_cg st) tn" using s tn(2) by (simp add: dstep_def)
  then show ?thesis using s dstep_mono [of "{}" "{}" st st' "{tn}" "{}"] by (intro conjI exI [of _ "[]"]) auto
next
  case True
  obtain p st1 q st2 where r1: "on_cg (type_node_new E args (t_num_of g VOID_TYPE)) st = Some (p, st1)"
    and r2: "on_si (name_list_add E ARG_VA_LIST_NAME) st1 = Some (q, st2)"
    and st': "st' = add_child tn p (in_cg (upd_tn p (\<lambda>x. x\<lparr>tn_name := ARG_VA_LIST_NAME\<rparr>)) st2)"
    using run True by (auto simp: type_arg_def bind_splits)
  obtain st0 where r0: "on_si (si_buf_get E (csize E SzTypeNode)) st = Some (p, st0)"
    and st1: "st1 = in_cg (upd_tn p (\<lambda>_. type_node_init args (t_num_of g VOID_TYPE))) st0"
    using r1 by (auto simp: on_cg_def on_si_def type_node_new_def bind_splits gb_si_def set_si_def in_cg_def)
  have len: "len_ok (csize E SzTypeNode)" "0 < csize E SzTypeNode" using inv by (auto simp: dinv_def detail_env_def)
  note a = alloc_step [OF inv r0 len]
  have unset: "\<not> is_set st p" using inv a(1) by (auto simp: dinv_def split: if_splits)
  have si1: "gb_si st1 = gb_si st0" by (simp add: st1)
  have d1: "dstep {} {} st st1" using a unset by (auto simp: dstep_def si1 st1 a(5))
  have inv1: "dinv E g G R st1"
    by (rule dinv_step [OF inv d1])
       (use a(4) unset inv in \<open>auto simp: si1 st1 a(5) type_node_init_def dinv_def split: if_splits\<close>)
  note s2 = name_step [OF inv1 r2]
  have s2: "dstep {} {} st1 st2" "dinv E g G R st2" "h_tn (gb_cg st2) = h_tn (gb_cg st1)"
    using name_step [OF inv1 r2] by (auto simp: ARG_VA_LIST_NAME_def NAME_MAX_def)
  let ?st3 = "in_cg (upd_tn p (\<lambda>x. x\<lparr>tn_name := ARG_VA_LIST_NAME\<rparr>)) st2"
  have unset2: "\<not> is_set st2 p" by (simp add: s2(3) st1 type_node_init_def)
  have d3: "dstep {} {} st2 ?st3" using unset2 by (auto simp: dstep_def)
  have inv3: "dinv E g G R ?st3"
    by (rule dinv_step [OF s2(2) d3]) (use s2(2) unset2 in \<open>auto simp: dinv_def split: if_splits\<close>)
  have ne: "tn \<noteq> p" using tn(2) unset by auto
  have h3: "h_tn (gb_cg ?st3) tn = h_tn (gb_cg st) tn" using ne by (simp add: s2(3) st1 a(5))
  then have tn3: "is_set ?st3 tn" using tn(2) by simp
  note s4 = add_child_step [OF inv3 tn(1) tn3, of p, folded st']
  have d: "dstep {tn} {} st st'"
    by (rule dstep_then [OF dstep_then [OF dstep_then [OF d1 s2(1), of "{}" "{}"] d3, of "{}" "{}"] s4(1)]) auto
  have "p < st_cur st'"
  proof -
    have "p < st_cur st1" using a(2) by (simp add: si1)
    then show ?thesis using dstep_cur [OF s2(1)] dstep_cur [OF s4(1)] by simp
  qed
  then show ?thesis
    using d s4(2) h3 a(1) by (intro conjI exI [of _ "[p]"]) (auto simp: st' add_child_def op_defs)
qed

lemma type_args_step:
  assumes "dinv E g G R st" "tn \<in> G" "is_set st tn" "type_args n detail E g tn args st = Some st'"
  shows "dstep {tn} {} st st' \<and> dinv E g G R st' \<and> (\<exists>vs. (\<forall>v \<in> set vs. st_cur st \<le> v \<and> v < st_cur st') \<and>
    h_tn (gb_cg st') tn = (h_tn (gb_cg st) tn)\<lparr>tn_children := tn_children (h_tn (gb_cg st) tn) @ vs\<rparr>)"
  using assms
proof (induction n arbitrary: args st)
  case 0
  then show ?case by simp
next
  case (Suc n)
  show ?case
  proof (cases "args = NULL")
    case True
    then have "st' = st" using Suc.prems(4) by simp
    then show ?thesis using Suc.prems by (intro conjI exI [of _ "[]"]) simp_all
  next
    case False
    obtain st1 where r: "type_arg detail E g tn args st = Some st1"
      and rest: "type_args n detail E g tn (tget g ''TREE_CHAIN'' args) st1 = Some st'"
      using Suc.prems(4) False by (auto simp: bind_splits)
    obtain vs where s1: "dstep {tn} {} st st1" "dinv E g G R st1" "\<forall>v \<in> set vs. st_cur st \<le> v \<and> v < st_cur st1"
      "h_tn (gb_cg st1) tn = (h_tn (gb_cg st) tn)\<lparr>tn_children := tn_children (h_tn (gb_cg st) tn) @ vs\<rparr>"
      using type_arg_step [OF Suc.prems(1-3) r] by blast
    have "is_set st1 tn" using s1(1) Suc.prems(3) by (simp add: dstep_def)
    from Suc.IH [OF s1(2) Suc.prems(2) this rest]
    obtain ws where s2: "dstep {tn} {} st1 st'" "dinv E g G R st'" "\<forall>v \<in> set ws. st_cur st1 \<le> v \<and> v < st_cur st'"
      "h_tn (gb_cg st') tn = (h_tn (gb_cg st1) tn)\<lparr>tn_children := tn_children (h_tn (gb_cg st1) tn) @ ws\<rparr>"
      by blast
    have "\<forall>v \<in> set (vs @ ws). st_cur st \<le> v \<and> v < st_cur st'"
      using s1(3) s2(3) dstep_cur [OF s1(1)] dstep_cur [OF s2(1)] by fastforce
    then show ?thesis
      using s2 s1(4) dstep_then [OF s1(1) s2(1), of "{tn}" "{}"] by (intro conjI exI [of _ "vs @ ws"]) auto
  qed
qed

lemma type_case_step:
  assumes inv: "dinv E g G R st" and tn: "tn \<in> G" "is_set st tn" "tn_children (h_tn (gb_cg st) tn) = []"
    and node: "type_sized g node \<longrightarrow> (\<exists>low. int_low g (tget g ''TYPE_SIZE_UNIT'' node) = Some low \<and>
      tn_ofsize (h_tn (gb_cg st) tn) = slong low)"
    and run: "type_case n detail E g node tn st = Some st'"
  shows "dstep {tn} {} st st' \<and> dinv E g G R st' \<and> shape g st' node (h_tn (gb_cg st') tn) \<and>
    (\<forall>v \<in> set (tn_children (h_tn (gb_cg st') tn)). st_cur st \<le> v)"
proof -
  let ?c = "t_type_code g node"
  have set': "is_set st' tn" if "dstep {tn} {} st st'" using that tn(2) by (simp add: dstep_def)
  consider (nx) "type_has_next ?c" | (cx) "?c = COMPLEX_TYPE" | (en) "?c = ENUMERAL_TYPE"
    | (ru) "?c = RECORD_TYPE \<or> ?c = UNION_TYPE" | (fn) "?c = FUNCTION_TYPE"
    | (no) "\<not> type_has_next ?c" "?c \<noteq> COMPLEX_TYPE" "?c \<noteq> ENUMERAL_TYPE" "\<not> (?c = RECORD_TYPE \<or> ?c = UNION_TYPE)"
      "?c \<noteq> FUNCTION_TYPE" by blast
  then show ?thesis
  proof cases
    case nx
    then obtain t st1 where r: "detail (tget g ''TREE_TYPE'' node) st = Some (t, st1)"
      and st': "st' = in_cg (upd_tn tn (\<lambda>x. x\<lparr>tn_next := t\<rparr>)) st1"
      using run by (auto simp: type_case_def Let_def bind_splits)
    note s1 = detail_step [OF inv r]
    have h1: "h_tn (gb_cg st1) tn = h_tn (gb_cg st) tn" using s1 tn(2) by (simp add: dstep_def)
    have inv1: "dinv E g G R st1" using s1 by blast
    have "is_set st1 tn" using h1 tn(2) by simp
    note s2 = write_node_step [OF inv1 tn(1) this, of "\<lambda>x. x\<lparr>tn_next := t\<rparr>", folded st', simplified]
    have d: "dstep {tn} {} st st'" by (rule dstep_then [OF conjunct1 [OF s1] s2(1)]) auto
    have "type_at g st' (tget g ''TREE_TYPE'' node) t"
      using dstep_type_at(2) [OF s2(1) dinv_low [OF inv1]] s1 by blast
    then show ?thesis
      using d s2(2) h1 tn(2,3) node nx by (auto simp: shape_def Let_def st' type_has_next_def)
  next
    case cx
    then obtain t where r: "detail (tget g ''TREE_TYPE'' node) st = Some (t, st')"
      using run by (auto simp: type_case_def Let_def type_has_next_def bind_splits)
    note s1 = detail_step [OF inv r]
    have "h_tn (gb_cg st') tn = h_tn (gb_cg st) tn" using s1 tn(2) by (simp add: dstep_def)
    then show ?thesis
      using s1 dstep_mono [of "{}" "{}" st st' "{tn}" "{}"] tn(2,3) node cx by (simp add: shape_def Let_def type_has_next_def)
  next
    case en
    then have "enum_values n E g tn (tget g ''TYPE_VALUES'' node) st = Some st'"
      using run by (simp add: type_case_def Let_def type_has_next_def)
    from enum_values_step [OF inv tn(1,2) this]
    obtain es vs where s: "dstep {tn} {} st st'" "dinv E g G R st'" "enum_chain g (tget g ''TYPE_VALUES'' node) es"
      "list_all2 (enum_done g st') vs es" "\<forall>v \<in> set vs. st_cur st \<le> v \<and> v < st_cur st'"
      "h_tn (gb_cg st') tn = (h_tn (gb_cg st) tn)\<lparr>tn_children := tn_children (h_tn (gb_cg st) tn) @ vs\<rparr>"
      by blast
    then show ?thesis using tn(2,3) node en by (auto simp: shape_def Let_def type_has_next_def)
  next
    case ru
    then have "type_fields n detail E g tn (tget g ''TYPE_FIELDS'' node) st = Some st'"
      using run by (auto simp: type_case_def Let_def type_has_next_def)
    from type_fields_step [OF inv tn(1,2) this]
    obtain fs vs b where s: "dstep {tn} {} st st'" "dinv E g G R st'" "field_chain g (tget g ''TYPE_FIELDS'' node) fs"
      "list_all2 (field_done g st') vs fs" "\<forall>v \<in> set vs. st_cur st \<le> v \<and> v < st_cur st'"
      "h_tn (gb_cg st') tn = (h_tn (gb_cg st) tn)\<lparr>tn_children := tn_children (h_tn (gb_cg st) tn) @ vs, tn_is_variant := b\<rparr>"
      by blast
    then show ?thesis using tn(2,3) node ru by (auto simp: shape_def Let_def type_has_next_def)
  next
    case fn
    then obtain t st1 where r: "detail (tget g ''TREE_TYPE'' node) st = Some (t, st1)"
      and r2: "type_args n detail E g tn (tget g ''TYPE_ARG_TYPES'' node) st1 = Some st'"
      using run by (auto simp: type_case_def Let_def type_has_next_def bind_splits)
    note s1 = detail_step [OF inv r]
    have h1: "h_tn (gb_cg st1) tn = h_tn (gb_cg st) tn" using s1 tn(2) by (simp add: dstep_def)
    have inv1: "dinv E g G R st1" using s1 by blast
    have "is_set st1 tn" using h1 tn(2) by simp
    from type_args_step [OF inv1 tn(1) this r2]
    obtain vs where s: "dstep {tn} {} st1 st'" "dinv E g G R st'" "\<forall>v \<in> set vs. st_cur st1 \<le> v \<and> v < st_cur st'"
      "h_tn (gb_cg st') tn = (h_tn (gb_cg st1) tn)\<lparr>tn_children := tn_children (h_tn (gb_cg st1) tn) @ vs\<rparr>"
      by blast
    have d: "dstep {tn} {} st st'" by (rule dstep_then [OF conjunct1 [OF s1] s(1)]) auto
    moreover have "st_cur st \<le> st_cur st1" using s1 dstep_cur by blast
    ultimately show ?thesis
      using s h1 tn(2,3) node fn by (auto simp: shape_def Let_def type_has_next_def)
  next
    case no
    then have "st' = st" using run by (simp add: type_case_def Let_def)
    then show ?thesis using inv tn node no by (simp add: shape_def Let_def)
  qed
qed

end

subsection \<open>The recursion\<close>

lemma set_self_value:
  assumes "set_self g node n = Some x"
  shows "tn_is_set x" "tn_children x = tn_children n"
    "type_sized g node \<longrightarrow> (\<exists>low. int_low g (tget g ''TYPE_SIZE_UNIT'' node) = Some low \<and> tn_ofsize x = slong low)"
proof -
  obtain m y where m: "tn_is_set m" "tn_children m = tn_children n"
    and y: "y = m \<or> (\<exists>l. y = m\<lparr>tn_baselen := l\<rparr>)"
    and x: "(if type_sized g node then do {
           low \<leftarrow> int_low g (tget g ''TYPE_SIZE_UNIT'' node);
           Some (y\<lparr>tn_ofsize := slong low\<rparr>)
         }
         else Some y) = Some x"
  proof -
    let ?c = "t_type_code g node"
    define m where "m = (let n = n\<lparr>tn_is_set := True\<rparr>;
          n = (if ?c = ENUMERAL_TYPE \<or> ?c = INTEGER_TYPE
               then n\<lparr>tn_is_unsigned := tflag g ''TYPE_UNSIGNED'' node\<rparr> else n)
      in if ?c = ENUMERAL_TYPE \<or> ?c = INTEGER_TYPE \<or> ?c = REAL_TYPE
         then n\<lparr>tn_baselen := int (tget g ''TYPE_PRECISION'' node)\<rparr> else n)"
    obtain y where y: "(if ?c = ARRAY_TYPE \<and> tget g ''TYPE_DOMAIN'' node \<noteq> NULL \<and>
          tget g ''TYPE_MAX_VALUE'' (tget g ''TYPE_DOMAIN'' node) \<noteq> NULL
        then do {
          low \<leftarrow> int_low g (tget g ''TYPE_MAX_VALUE'' (tget g ''TYPE_DOMAIN'' node));
          Some (m\<lparr>tn_baselen := slong (1 + low)\<rparr>)
        } else Some m) = Some y"
      and x: "(if type_sized g node then do {
           low \<leftarrow> int_low g (tget g ''TYPE_SIZE_UNIT'' node);
           Some (y\<lparr>tn_ofsize := slong low\<rparr>)
         }
         else Some y) = Some x"
      using assms unfolding set_self_def Let_def m_def bind_eq_Some_conv by blast
    show thesis
    proof (rule that [OF _ _ _ x])
      show "tn_is_set m" "tn_children m = tn_children n" by (simp_all add: m_def Let_def)
      show "y = m \<or> (\<exists>l. y = m\<lparr>tn_baselen := l\<rparr>)" using y by (auto simp: bind_splits split: if_splits)
    qed
  qed
  show "tn_is_set x" "tn_children x = tn_children n"
    "type_sized g node \<longrightarrow> (\<exists>low. int_low g (tget g ''TYPE_SIZE_UNIT'' node) = Some low \<and> tn_ofsize x = slong low)"
    using x y m by (auto simp: bind_splits split: if_splits)
qed

lemma detail_walks: "type_walk E g (type_detail n E W u g)"
proof (induction n)
  case 0
  then show ?case by unfold_locales simp_all
next
  case (Suc n)
  show ?case
  proof
    fix G R st a t st'
    assume inv: "dinv E g G R st" and run: "type_detail (Suc n) E W u g a st = Some (t, st')"
    show "dstep {} {} st st' \<and> dinv E g G R st' \<and> type_at g st' a t"
    proof (cases "type_missed g (t_type_code g a)")
      case True
      then have "t = NULL" "st' = st" using run by (auto simp: bind_splits)
      then show ?thesis using True inv by (simp add: type_at_def)
    next
      case False
      obtain st1 where f: "find_type_node E W u g a st = Some (t, st1)"
        and rest: "(if t = NULL \<or> is_set st1 t then Some (t, st1)
           else do {
             x \<leftarrow> set_self g a (h_tn (gb_cg st1) t);
             st \<leftarrow> type_case n (type_detail n E W u g) E g a t (in_cg (upd_tn t (\<lambda>_. x)) st1);
             Some (t, st)
           }) = Some (t, st')"
        using run False by (auto simp: bind_splits split: if_splits)
      note v = find_node_value [OF f dinv_low [OF inv]]
      note s1 = load_step [OF inv v(2)]
      have node1: "node_of g a st1 = Some t" using v(1) dstep_type_at(1) [OF s1(1) dinv_low [OF inv]] by simp
      show ?thesis
      proof (cases "t = NULL \<or> is_set st1 t")
        case True
        then have "st' = st1" using rest by simp
        then show ?thesis using s1 node1 True False by (auto simp: type_at_def)
      next
        case no: False
        then obtain x where x: "set_self g a (h_tn (gb_cg st1) t) = Some x"
          and c: "type_case n (type_detail n E W u g) E g a t (in_cg (upd_tn t (\<lambda>_. x)) st1) = Some st'"
          using rest by (auto simp: bind_splits)
        let ?st2 = "in_cg (upd_tn t (\<lambda>_. x)) st1"
        note xs = set_self_value [OF x]
        have unset: "\<not> is_set st1 t" and blank: "tn_children (h_tn (gb_cg st1) t) = []"
          using no s1(2) by (auto simp: dinv_def split: if_splits)
        have d2: "dstep {} {} st1 ?st2" using unset xs(1) by (auto simp: dstep_def)
        have low: "t < st_cur st1" using s1(2) node1 by (auto simp: dinv_def)
        have inv2: "dinv E g (insert t G) R ?st2"
        proof -
          have nodes: "node_of g b ?st2 = node_of g b st1" for b
            by (rule dstep_type_at(1) [OF d2 dinv_low [OF s1(2)]])
          have "tn_complete g ?st2 q" if "tn_complete g st1 q" "is_set st1 q" for q
            by (rule dstep_complete [OF d2 dinv_low [OF s1(2)] that]) auto
          then show ?thesis
            using s1(2) low xs(1) blank unfolding dinv_def nodes by (auto split: if_splits)
        qed
        have t2: "is_set ?st2 t" "tn_children (h_tn (gb_cg ?st2) t) = []" using xs(1,2) blank by simp_all
        have sized: "type_sized g a \<longrightarrow> (\<exists>low. int_low g (tget g ''TYPE_SIZE_UNIT'' a) = Some low \<and>
            tn_ofsize (h_tn (gb_cg ?st2) t) = slong low)" using xs(3) by simp
        note s3 = type_walk.type_case_step [OF Suc.IH inv2 insertI1 t2 sized c]
        have d13: "dstep {} {} st1 st'"
        proof -
          have "dstep {t} {} st1 st'" by (rule dstep_then [OF d2 conjunct1 [OF s3]]) auto
          then show ?thesis using unset by (auto simp: dstep_def)
        qed
        have d: "dstep {} {} st st'" by (rule dstep_then [OF s1(1) d13]) auto
        have node': "node_of g a st' = Some t" using dstep_type_at(1) [OF d13 dinv_low [OF s1(2)]] node1 by simp
        have set': "is_set st' t" using s3 t2(1) by (simp add: dstep_def)
        have comp: "tn_complete g st' t" using s3 node' False by (auto simp: tn_complete_def)
        have "set (tn_children (h_tn (gb_cg st') t)) \<inter> R = {}"
          using s3 inv2 by (fastforce simp: dinv_def)
        then have "dinv E g G R st'"
          using s3 comp set' unfolding dinv_def by (auto split: if_splits)
        then show ?thesis using d node' set' False by (simp add: type_at_def)
      qed
    qed
  qed
qed

interpretation tw: type_walk E g "type_detail n E W u g" for E g n W u
  by (rule detail_walks)

end
