(* ===== verification/Getbase_Links.thy ===== *)
theory Getbase_Links
  imports Getbase_Props Sinode_Replace
begin

text \<open>
  What the operations of phase 2 leave alone: the key of every linked sinode and its place in
  the indexes (\<open>kept\<close>), and what the later searches find for a node just linked.
\<close>

subsection \<open>What a new node leaves alone\<close>

lemma sinode_new_frame:
  assumes "new_ok E t (Some nm) None s" "sinode_new E t (Some nm) None s = Some (p, s')"
  obtains b h r x n where "s' = s\<lparr>si_sbuf := b, h_name := h, si_names_root := r, si_id_idx := x,
      h_sn := (h_sn s)(p := n)\<rparr>"
    "buf_cur (si_sbuf s) \<le> buf_cur b" "x = (si_id_idx s)(t := mk_siid t (id_value (si_id_idx s t) + 1))"
    "\<forall>d. name_ok s d \<and> d \<noteq> p \<longrightarrow> sn_str s' d = sn_str s d \<and> name_ok s' d"
    "sn_weak_flag n = 0" "sn_datalen n = 0"
proof -
  note ok = assms(1) [unfolded new_ok_def]
  have inv: "sinode_inv s" and t: "t < TYPE_MAX" and E: "env_ok E" using ok by auto
  obtain s1 i s2 q s4 where g: "si_buf_get E (csize E SzSinode) s = Some (p, s1)"
    and i: "sinode_id t (upd_sn p (\<lambda>_. sinode_zero) s1) = Some (i, s2)"
    and q: "name_list_add E nm (upd_sn p (sn_id_update (\<lambda>_. i)) s2) = Some (q, s4)"
    and s': "s' = upd_sn p (\<lambda>n. n\<lparr>sn_name := q, sn_namelen := length nm + 1\<rparr>) s4"
    using assms(2) by (auto simp: sinode_new_def bind_splits Let_def)
  define s3 where "s3 = upd_sn p (sn_id_update (\<lambda>_. i)) s2"
  note n = new_node_numbered [OF assms(1) g i s3_def]
  obtain b where b: "s1 = s\<lparr>si_sbuf := b\<rparr>" using buf_get_inv(4) [OF E inv _ g] ok by auto
  have rd: "t < 16" "idx_ready t (si_id_idx s t)" using inv t by (auto simp: sinode_inv_def)
  have s2: "s2 = (upd_sn p (\<lambda>_. sinode_zero) s1)\<lparr>si_id_idx := (si_id_idx s)(t := mk_siid t (id_value (si_id_idx s t) + 1))\<rparr>"
    using sinode_id_step [of t "upd_sn p (\<lambda>_. sinode_zero) s1"] rd i b by (auto simp: upd_sn_def)
  have ni: "names_inv s3" using n(1) by (simp add: sinode_inv_def)
  have "namelen_ok E nm" using ok by simp
  note a = name_list_add_spec [OF E ni this q [folded s3_def]]
  obtain b' h r where s4: "s4 = s3\<lparr>si_sbuf := b', h_name := h, si_names_root := r\<rparr>" using a(8) by blast
  have s3: "s3 = s\<lparr>si_sbuf := b, si_id_idx := (si_id_idx s)(t := mk_siid t (id_value (si_id_idx s t) + 1)),
      h_sn := (h_sn s)(p := sinode_zero\<lparr>sn_id := i\<rparr>)\<rparr>"
    by (simp add: s3_def s2 b upd_sn_def)
  have le: "buf_cur (si_sbuf s) \<le> buf_cur b'"
    using a(7) buf_get_inv(2,3) [OF E inv _ g] ok b s3 s4 by simp
  have str: "sn_str s' d = sn_str s d \<and> name_ok s' d" if d: "name_ok s d" "d \<noteq> p" for d
  proof -
    have nm: "sn_name (h_sn s d) \<in> set_tree (si_names_root s3)" using d s3 by (simp add: name_ok_def)
    then have "sn_name (h_sn s d) < buf_cur (si_sbuf s3)" using ni by (simp add: names_inv_def)
    then have "h_name s4 (sn_name (h_sn s d)) = h_name s (sn_name (h_sn s d))" using a(6) s3 by simp
    moreover have "sn_name (h_sn s d) \<in> set_tree (si_names_root s4)" using a(5) nm by blast
    ultimately show ?thesis using d(2) s3 s4 by (simp add: s' upd_sn_def sn_str_def name_ok_def)
  qed
  let ?n = "sinode_zero\<lparr>sn_id := i, sn_name := q, sn_namelen := length nm + 1\<rparr>"
  show ?thesis
  proof (rule that [where b = b' and h = h and r = r and n = ?n])
    show "s' = s\<lparr>si_sbuf := b', h_name := h, si_names_root := r,
        si_id_idx := (si_id_idx s)(t := mk_siid t (id_value (si_id_idx s t) + 1)), h_sn := (h_sn s)(p := ?n)\<rparr>"
      using s3 s4 by (simp add: s' upd_sn_def)
  qed (use le str in \<open>auto simp: sinode_zero_def\<close>)
qed

subsection \<open>The payload of a new node\<close>

lemma node_news:
  "func_node_new E a st = Some (q, st') \<Longrightarrow> si_buf_get E (csize E SzFuncNode) (cg_si st) = Some (q, cg_si st')"
  "var_node_new E a st = Some (q, st') \<Longrightarrow> si_buf_get E (csize E SzVarNode) (cg_si st) = Some (q, cg_si st')"
  "type_node_new E a tc st = Some (q, st') \<Longrightarrow> si_buf_get E (csize E SzTypeNode) (cg_si st) = Some (q, cg_si st')"
  by (auto simp: func_node_new_def var_node_new_def type_node_new_def upd_fn_def upd_vn_def upd_tn_def
      bind_splits)

definition sizes_ok :: "env \<Rightarrow> bool" where
  "sizes_ok E \<longleftrightarrow> env_ok E \<and> len_ok (csize E SzSinode) \<and> len_ok (csize E SzNameList + 255) \<and>
     len_ok (csize E SzFuncNode) \<and> len_ok (csize E SzVarNode) \<and> len_ok (csize E SzTypeNode) \<and>
     len_ok (csize E SzTypenodeSb)"

text \<open>An unlinked node that is filled.\<close>

definition filled :: "addr \<Rightarrow> src \<Rightarrow> src \<Rightarrow> bool" where
  "filled p s s' \<longleftrightarrow> (\<exists>b n. s' = s\<lparr>si_sbuf := b, h_sn := (h_sn s)(p := n)\<rparr> \<and> sn_id n = sn_id (h_sn s p)) \<and>
     buf_cur (si_sbuf s) \<le> buf_cur (si_sbuf s')"

lemma filled_upd: "sn_id (f (h_sn s p)) = sn_id (h_sn s p) \<Longrightarrow> filled p s (upd_sn p f s)"
  unfolding filled_def
  by (intro conjI exI [of _ "si_sbuf s"] exI [of _ "f (h_sn s p)"]) (simp_all add: upd_sn_def)

lemma filled_trans: "filled p s t \<Longrightarrow> filled p t u \<Longrightarrow> filled p s u"
  unfolding filled_def by (elim conjE exE) (rule conjI, rule exI, rule exI, auto)

lemma filled_extends: "filled p s s' \<Longrightarrow> extends_at p s s'"
proof -
  assume "filled p s s'"
  then obtain b n where s': "s' = s\<lparr>si_sbuf := b, h_sn := (h_sn s)(p := n)\<rparr>" "sn_id n = sn_id (h_sn s p)"
    "buf_cur (si_sbuf s) \<le> buf_cur (si_sbuf s')" by (auto simp: filled_def)
  then show "extends_at p s s'"
    unfolding extends_at_def
    by (intro conjI exI [of _ b] exI [of _ "h_name s"] exI [of _ "si_names_root s"] exI [of _ "\<lambda>_. n"]) simp_all
qed

lemma fresh_unlinked: "fresh_node s t p \<Longrightarrow> u < TYPE_MAX \<Longrightarrow> p \<notin> set_tree (si_by_id s u)"
  by (simp add: fresh_node_def)

lemma payload_spec:
  assumes E: "sizes_ok E" and inv: "sinode_inv (gb_si st)" and fr: "fresh_node (gb_si st) t p" and t: "t < TYPE_MAX"
    and run: "gb_payload E g type p node st = Some st'"
  obtains (out) d l where "sinode_inv (gb_si st')" "filled p (gb_si st) (gb_si st')"
    "h_sn (gb_si st') p = (h_sn (gb_si st) p)\<lparr>sn_data := d, sn_datalen := l\<rparr>"
    "gb_obj st' = gb_obj st" "gb_stn st' = gb_stn st"
proof -
  have fin: thesis if g: "si_buf_get E n (gb_si st) = Some (q, cg_si cg)" "len_ok n"
      "st' = set_payload p q len (st\<lparr>gb_cg := cg'\<rparr>)" "cg_si cg' = cg_si cg" for n q cg cg' len
  proof -
    have e: "env_ok E" using E by (simp add: sizes_ok_def)
    note b = buf_get_inv [OF e inv g(2,1)]
    obtain bb where bb: "cg_si cg = (gb_si st)\<lparr>si_sbuf := bb\<rparr>" using b(4) by blast
    have si: "gb_si st' = upd_sn p (\<lambda>n. n\<lparr>sn_data := q, sn_datalen := len\<rparr>) (cg_si cg)"
      using g(3,4) by (simp add: set_payload_def gb_si_def set_si_def)
    have "\<forall>u < TYPE_MAX. p \<notin> set_tree (si_by_id (cg_si cg) u)" using fr bb by (simp add: fresh_node_def)
    then have "sinode_inv (gb_si st')" unfolding si by (rule upd_sn_inv [OF b(1)])
    moreover have "filled p (gb_si st) (gb_si st')"
      unfolding filled_def
    proof (intro conjI exI [of _ bb] exI [of _ "(h_sn (gb_si st) p)\<lparr>sn_data := q, sn_datalen := len\<rparr>"])
      show "buf_cur (si_sbuf (gb_si st)) \<le> buf_cur (si_sbuf (gb_si st'))" using b(2,3) by (simp add: si upd_sn_def)
    qed (simp_all add: si bb upd_sn_def)
    ultimately show thesis
      by (rule out) (use si bb g(3) in \<open>simp_all add: upd_sn_def set_payload_def\<close>)
  qed
  have sz: "len_ok (csize E SzFuncNode)" "len_ok (csize E SzVarNode)" "len_ok (csize E SzTypeNode)"
    using E by (simp_all add: sizes_ok_def)
  note pay = run [unfolded gb_payload_def Let_def]
  consider (ty) "type = TYPE_TYPE" | (va) "type = TYPE_VAR_GLOBAL \<or> type = TYPE_VAR_STATIC"
    | (fn) "type = TYPE_FUNC_GLOBAL \<or> type = TYPE_FUNC_STATIC" "has_cfg g node"
    | (no) "type \<noteq> TYPE_TYPE" "\<not> (type = TYPE_VAR_GLOBAL \<or> type = TYPE_VAR_STATIC)"
      "\<not> ((type = TYPE_FUNC_GLOBAL \<or> type = TYPE_FUNC_STATIC) \<and> has_cfg g node)" by blast
  then show ?thesis
  proof cases
    case ty
    then obtain tn cg where r: "type_node_new E node (t_num g node) (gb_cg st) = Some (tn, cg)"
      "st' = set_payload p tn (csize E SzTypeNode)
        (st\<lparr>gb_cg := upd_tn tn (\<lambda>n. n\<lparr>tn_name := sn_str (gb_si st) p\<rparr>) cg\<rparr>)"
      using pay by (auto simp: bind_splits)
    show ?thesis using fin [OF node_news(3) [OF r(1), folded gb_si_def] sz(3) r(2)] by (simp add: upd_tn_def)
  next
    case va
    then obtain vn cg where r: "var_node_new E node (gb_cg st) = Some (vn, cg)"
      "st' = set_payload p vn (csize E SzVarNode)
        (st\<lparr>gb_cg := upd_vn vn (\<lambda>n. n\<lparr>vn_name := sn_str (gb_si st) p\<rparr>) cg\<rparr>)"
      using pay by (auto simp: bind_splits)
    show ?thesis using fin [OF node_news(2) [OF r(1), folded gb_si_def] sz(2) r(2)] by (simp add: upd_vn_def)
  next
    case fn
    then obtain q cg where r: "func_node_new E node (gb_cg st) = Some (q, cg)"
      "st' = set_payload p q (csize E SzFuncNode)
        (st\<lparr>gb_cg := upd_fn q (\<lambda>n. n\<lparr>fn_name := sn_str (gb_si st) p\<rparr>) cg\<rparr>)"
      using pay by (auto simp: bind_splits)
    show ?thesis using fin [OF node_news(1) [OF r(1), folded gb_si_def] sz(1) r(2)] by (simp add: upd_fn_def)
  next
    case no
    have st: "st' = st"
      using pay unfolding if_not_P [OF no(1)] if_not_P [OF no(2)] if_not_P [OF no(3)] by simp
    have "filled p (gb_si st) (gb_si st)"
      unfolding filled_def by (intro conjI exI [of _ "si_sbuf (gb_si st)"] exI [of _ "h_sn (gb_si st) p"]) simp_all
    with st inv show ?thesis
      by (intro out [where d = "sn_data (h_sn (gb_si st) p)" and l = "sn_datalen (h_sn (gb_si st) p)"]) simp_all
  qed
qed

subsection \<open>A new node is found, and nothing is lost\<close>

text \<open>
  \<open>kept s s'\<close>: what is linked by specification stays so with its fields and its key, and the
  lists and the fixed fields of resfiles and sibufs are as before.
\<close>

definition kept :: "src \<Rightarrow> src \<Rightarrow> bool" where
  "kept s s' \<longleftrightarrow>
     (\<forall>t < TYPE_CODEP. \<forall>d \<in> set_tree (si_by_spec s t).
        d \<in> set_tree (si_by_spec s' t) \<and> h_sn s' d = h_sn s d \<and> spec_key s' t d = spec_key s t d) \<and>
     si_resfile_head s' = si_resfile_head s \<and> (\<forall>r. rf_built_in (h_rf s' r) = rf_built_in (h_rf s r)) \<and>
     (\<forall>b. sb_rf (h_sb s' b) = sb_rf (h_sb s b) \<and> sb_payload (h_sb s' b) = sb_payload (h_sb s b) \<and>
        sb_objs (h_sb s' b) = sb_objs (h_sb s b))"

lemma kept_refl: "kept s s"
  by (simp add: kept_def)

lemma kept_trans: "kept s t \<Longrightarrow> kept t u \<Longrightarrow> kept s u"
  by (fastforce simp: kept_def)

lemma kept_linked:
  "kept s s' \<Longrightarrow> t < TYPE_CODEP \<Longrightarrow> d \<in> set_tree (si_by_spec s t) \<Longrightarrow> h_sn s' d = h_sn s d"
  by (simp add: kept_def)

lemma kept_quiet:
  assumes "quiet s s'"
  shows "kept s s'"
proof -
  obtain hb hr m where s': "s' = s\<lparr>h_sb := hb, h_rf := hr, si_sibuf_mem_usage := m\<rparr>"
    using assms by (auto simp: quiet_def)
  have b: "same_sb (h_sb s b) (h_sb s' b)" and r: "same_rf (h_rf s r) (h_rf s' r)" for b r
    using assms by (simp_all add: quiet_def)
  have f: "sb_rf (h_sb s' b) = sb_rf (h_sb s b)" "sb_payload (h_sb s' b) = sb_payload (h_sb s b)"
    "sb_objs (h_sb s' b) = sb_objs (h_sb s b)" for b
    using b [of b] by (cases "h_sb s b"; cases "h_sb s' b"; simp add: same_sb_def)+
  have g: "rf_built_in (h_rf s' r) = rf_built_in (h_rf s r)" for r
    using r [of r] by (cases "h_rf s r"; cases "h_rf s' r"; simp add: same_rf_def)
  have "spec_key s' t d = spec_key s t d" for t d
    using f by (simp add: spec_key_def sn_str_def sn_rf_def s')
  then show ?thesis using f g by (simp add: kept_def s')
qed

lemma quiet_inv:
  assumes "quiet s s'" "sinode_inv s"
  shows "sinode_inv s'" "si_id_idx s' = si_id_idx s" "si_sbuf s' = si_sbuf s"
    "sb_file_types (h_sb s' b) = sb_file_types (h_sb s b)"
proof -
  obtain hb hr m where s': "s' = s\<lparr>h_sb := hb, h_rf := hr, si_sibuf_mem_usage := m\<rparr>"
    using assms by (auto simp: quiet_def)
  show "si_id_idx s' = si_id_idx s" "si_sbuf s' = si_sbuf s" by (simp_all add: s')
  have b: "same_sb (h_sb s b) (h_sb s' b)" for b using assms by (simp add: quiet_def)
  show "sb_file_types (h_sb s' b) = sb_file_types (h_sb s b)"
    using b [of b] by (cases "h_sb s b"; cases "h_sb s' b"; simp add: same_sb_def)
  have rf: "sb_rf (h_sb s' b) = sb_rf (h_sb s b)" for b by (rule same_sb_fields(2) [OF b])
  have "type_inv s' t" if "t < TYPE_MAX" for t
  proof (rule type_inv_agree)
    show "type_inv s t" using assms(2) that by (simp add: sinode_inv_def)
    show "agree_on (set_tree (si_by_id s t)) s s'"
      using rf by (simp add: agree_on_def sn_rf_def sn_str_def name_ok_def s')
  qed (simp_all add: s')
  moreover have "name_key s' = name_key s" by (simp add: fun_eq_iff name_key_def s')
  then have "names_inv s'" using assms(2) by (simp add: sinode_inv_def names_inv_def s')
  ultimately show "sinode_inv s'" using assms(2) by (simp add: sinode_inv_def s')
qed

definition key_made :: "trees \<Rightarrow> addr \<Rightarrow> nat \<Rightarrow> string \<Rightarrow> addr \<Rightarrow> addr \<Rightarrow> src \<Rightarrow> spec_key" where
  "key_made g buf type name loc_file xloc s =
     (if type = TYPE_FILE then (name, 0, 0, 0)
      else if by_rf type then (name, sb_rf (h_sb s buf), 0, 0)
      else (name, loc_file, xl_line (t_xloc g xloc), xl_col (t_xloc g xloc)))"

text \<open>The state just before a new node is inserted.\<close>

lemma insert_kept:
  assumes "insert_ok E s t p b" "spec_key s t p \<notin> spec_key s t ` set_tree (si_by_spec s t)"
    and "sinode_insert E p b s = Some (r, s')"
  shows "r = 0" "sinode_inv s'" "kept s s'" "p \<in> set_tree (si_by_spec s' t)"
    "spec_key s' t = spec_key s t" "h_sb s' = h_sb s" "si_id_idx s' = si_id_idx s" "h_sn s' = h_sn s"
    "si_sbuf s' = si_sbuf s"
    "set_tree (si_by_spec s' u) = (if u = t then {p} else {}) \<union> set_tree (si_by_spec s u)"
proof -
  have e: "env_ok E" using assms(1) by (simp add: insert_ok_def)
  obtain tr tr' where i: "sinode_insert E p b s = Some (0, set_by_spec E t tr' (set_by_id E t tr s))"
    "sinode_inv (set_by_spec E t tr' (set_by_id E t tr s))"
    "set_tree tr = insert p (set_tree (si_by_id s t))"
    "set_tree tr' = insert p (set_tree (si_by_spec s t))"
    by (rule insert_new_spec [OF assms(1,2)])
  have s': "s' = set_by_spec E t tr' (set_by_id E t tr s)" and "r = 0" using i(1) assms(3) by auto
  show "r = 0" by fact
  show "sinode_inv s'" using i(2) s' by simp
  show "p \<in> set_tree (si_by_spec s' t)" using i(4) e by (simp add: s' env_ok_rb)
  show "set_tree (si_by_spec s' u) = (if u = t then {p} else {}) \<union> set_tree (si_by_spec s u)"
    using i(4) e by (auto simp: s' env_ok_rb)
  show "spec_key s' t = spec_key s t" "h_sb s' = h_sb s" "si_id_idx s' = si_id_idx s" "h_sn s' = h_sn s"
    "si_sbuf s' = si_sbuf s" by (simp_all add: s')
  have "h_rf s' = h_rf s" "si_resfile_head s' = si_resfile_head s"
    by (simp_all add: s' set_by_spec_def set_by_id_def)
  then show "kept s s'" using i(4) e by (auto simp: kept_def s' env_ok_rb)
qed

text \<open>From a state without the node to the state in which it is filled.\<close>

lemma linked_ne:
  assumes "sinode_inv s" "p = buf_cur (si_sbuf s)" "t < TYPE_MAX" "d \<in> set_tree (si_by_spec s t)"
  shows "d \<noteq> p" "name_ok s d" "d \<in> set_tree (si_by_id s t)"
proof -
  have ti: "type_inv s t" using assms(1,3) by (simp add: sinode_inv_def)
  then show "name_ok s d" "d \<in> set_tree (si_by_id s t)" using assms(4) by (auto simp: type_inv_def)
  then have "node_ok s t d" using ti by (simp add: type_inv_def)
  then show "d \<noteq> p" using assms(2) by (simp add: node_ok_def)
qed

lemma new_filled:
  assumes ok: "new_ok E t (Some nm) None s" and run: "sinode_new E t (Some nm) None s = Some (p, s1)"
    and fl: "filled p s1 s2" "sn_name (h_sn s2 p) = sn_name (h_sn s1 p)"
  shows "kept s s2" "si_by_spec s2 = si_by_spec s" "h_sb s2 = h_sb s" "sn_str s2 p = nm" "name_ok s2 p"
    "fresh_node s2 t p" "\<And>u d. u < TYPE_MAX \<Longrightarrow> d \<in> set_tree (si_by_spec s u) \<Longrightarrow> spec_key s2 u d = spec_key s u d"
    "si_id_idx s2 = (si_id_idx s)(t := mk_siid t (id_value (si_id_idx s t) + 1))"
    "buf_cur (si_sbuf s) \<le> buf_cur (si_sbuf s2)"
proof -
  have inv: "sinode_inv s" and t: "t < TYPE_MAX" using ok by (auto simp: new_ok_def)
  note n = sinode_new_spec [OF ok run]
  obtain b h r x m where s1: "s1 = s\<lparr>si_sbuf := b, h_name := h, si_names_root := r, si_id_idx := x,
      h_sn := (h_sn s)(p := m)\<rparr>" and b: "buf_cur (si_sbuf s) \<le> buf_cur b"
    and x: "x = (si_id_idx s)(t := mk_siid t (id_value (si_id_idx s t) + 1))"
    and str: "\<forall>d. name_ok s d \<and> d \<noteq> p \<longrightarrow> sn_str s1 d = sn_str s d \<and> name_ok s1 d"
    by (rule sinode_new_frame [OF ok run]) blast
  obtain b2 m2 where s2: "s2 = s1\<lparr>si_sbuf := b2, h_sn := (h_sn s1)(p := m2)\<rparr>"
    and b2: "buf_cur (si_sbuf s1) \<le> buf_cur (si_sbuf s2)"
    using fl(1) by (auto simp: filled_def)
  show "si_by_spec s2 = si_by_spec s" "h_sb s2 = h_sb s"
    "si_id_idx s2 = (si_id_idx s)(t := mk_siid t (id_value (si_id_idx s t) + 1))"
    by (simp_all add: s2 s1 x)
  show "buf_cur (si_sbuf s) \<le> buf_cur (si_sbuf s2)" using b b2 s1 by simp
  show "fresh_node s2 t p" by (rule extends_at_fresh [OF filled_extends [OF fl(1)] n(2) t])
  have nm: "sn_str s1 p = nm" "name_ok s1 p" using n(9) by auto
  then show "sn_str s2 p = nm" "name_ok s2 p"
    using fl(2) by (simp_all add: sn_str_def name_ok_def s2)
  show key: "spec_key s2 u d = spec_key s u d" if u: "u < TYPE_MAX" "d \<in> set_tree (si_by_spec s u)" for u d
  proof -
    note l = linked_ne [OF inv n(3) u]
    have "sn_str s2 d = sn_str s d" using l str s2 by (simp add: sn_str_def)
    moreover have "sn_rf s2 d = sn_rf s d" "h_sn s2 d = h_sn s d" using l(1) by (simp_all add: sn_rf_def s2 s1)
    ultimately show ?thesis by (simp add: spec_key_def)
  qed
  have hs: "h_sn s2 d = h_sn s d" if u: "u < TYPE_MAX" "d \<in> set_tree (si_by_spec s u)" for u d
    using linked_ne(1) [OF inv n(3) u] by (simp add: s2 s1)
  have fr: "si_resfile_head s2 = si_resfile_head s" "h_rf s2 = h_rf s" "h_sb s2 = h_sb s"
    "si_by_spec s2 = si_by_spec s" by (simp_all add: s2 s1)
  have "h_sn s2 d = h_sn s d \<and> spec_key s2 u d = spec_key s u d"
    if "u < TYPE_CODEP" "d \<in> set_tree (si_by_spec s u)" for u d
    using hs [of u d] key [of u d] that by simp
  then show "kept s s2" unfolding kept_def fr by simp
qed

lemma idx_after:
  assumes "v = id_value (i t)" "v + 1 < 2 ^ 28"
  shows "id_value ((i(t := mk_siid t (v + 1))) u) = (if u = t then v + 1 else id_value (i u))"
  using assms by simp

lemma new_ok_name:
  assumes "sizes_ok E" "sinode_inv s" "t < TYPE_MAX" "id_value (si_id_idx s t) + 1 < 2 ^ 28" "length nm < NAME_MAX"
  shows "new_ok E t (Some nm) None s"
  using assms by (auto simp: new_ok_def sizes_ok_def namelen_ok_def len_ok_def NAME_MAX_def)

text \<open>The node is in the region that its trees do not reach yet.\<close>

definition weak_ok :: "src \<Rightarrow> bool" where
  "weak_ok s \<longleftrightarrow> (\<forall>t < TYPE_CODEP. \<forall>d \<in> set_tree (si_by_spec s t). sn_weak_flag (h_sn s d) \<in> {0, - 1})"

lemma weak_ok_linked:
  assumes "weak_ok s" "kept s s'" "si_by_spec s' = si_by_spec s"
  shows "weak_ok s'"
  using assms by (simp add: weak_ok_def kept_def)

lemma create_filled:
  assumes E: "sizes_ok E" and inv: "sinode_inv (gb_si st)" and t: "type < TYPE_CODEP" "type \<noteq> TYPE_FILE"
    and ids: "id_value (si_id_idx (gb_si st) type) + 1 < 2 ^ 28" and nm: "length name < NAME_MAX"
    and run: "gb_create E g buf obj type name loc_file xloc behavior st = Some st'"
  obtains (out) p s3 st2 where "sinode_insert E p behavior s3 = Some (0, gb_si st')" "st' = set_si (gb_si st') st2"
    "gb_obj st' = gb_obj st" "gb_stn st' = gb_stn st" "sinode_inv s3" "kept (gb_si st) s3"
    "si_by_spec s3 = si_by_spec (gb_si st)" "h_sb s3 = h_sb (gb_si st)" "name_ok s3 p" "fresh_node s3 type p"
    "sn_str s3 p = name" "sn_buf (h_sn s3 p) = buf" "sn_obj (h_sn s3 p) = obj"
    "sn_loc_file (h_sn s3 p) = loc_file" "sn_weak_flag (h_sn s3 p) \<in> {0, - 1}"
    "loc_file \<noteq> NULL \<or> by_rf type \<Longrightarrow> spec_key s3 type p = key_made g buf type name loc_file xloc (gb_si st)"
    "\<And>u. id_value (si_id_idx s3 u) \<le> id_value (si_id_idx (gb_si st) u) + (if u = type then 1 else 0)"
    "buf_cur (si_sbuf (gb_si st)) \<le> buf_cur (si_sbuf s3)"
proof -
  let ?s = "gb_si st" and ?node = "fo_real_addr (gb_obj st obj)"
  have tm: "type < TYPE_MAX" using t by simp
  obtain p s1 st2 r s4 where n: "sinode_new E type (Some name) None ?s = Some (p, s1)"
    and pay: "gb_payload E g type p ?node (set_si (upd_sn p (gb_fill g buf obj loc_file xloc) s1) st) = Some st2"
    and ins: "sinode_insert E p behavior (upd_sn p (gb_weak g type ?node) (gb_si st2)) = Some (0, s4)"
    and st': "st' = set_si s4 st2"
    using run by (auto simp: gb_create_def Let_def bind_splits)
  have ok: "new_ok E type (Some name) None ?s" by (rule new_ok_name [OF E inv tm ids nm])
  note sp = sinode_new_spec [OF ok n]
  let ?s1 = "upd_sn p (gb_fill g buf obj loc_file xloc) s1"
  have f1: "filled p s1 ?s1" by (rule filled_upd) (simp add: gb_fill_def Let_def)
  have i1: "sinode_inv ?s1" by (rule upd_sn_inv [OF sp(1)]) (use sp(2) in \<open>simp add: fresh_node_def\<close>)
  have fr1: "fresh_node ?s1 type p" by (rule extends_at_fresh [OF filled_extends [OF f1] sp(2) tm])
  obtain dd l where p2: "sinode_inv (gb_si st2)" "filled p ?s1 (gb_si st2)"
    "h_sn (gb_si st2) p = (h_sn ?s1 p)\<lparr>sn_data := dd, sn_datalen := l\<rparr>"
    "gb_obj st2 = gb_obj st" "gb_stn st2 = gb_stn st"
    by (rule payload_spec [OF E _ _ tm pay, unfolded gb_frames, OF i1 fr1])
  let ?s3 = "upd_sn p (gb_weak g type ?node) (gb_si st2)"
  have f3: "filled p s1 ?s3"
    by (rule filled_trans [OF filled_trans [OF f1 p2(2)]], rule filled_upd) (simp add: gb_weak_def)
  have h: "h_sn ?s3 p = gb_weak g type ?node ((gb_fill g buf obj loc_file xloc (h_sn s1 p))\<lparr>sn_data := dd, sn_datalen := l\<rparr>)"
    using p2(3) by (simp add: upd_sn_def)
  have w: "sn_weak_flag (h_sn s1 p) = 0"
    by (rule sinode_new_frame [OF ok n]) simp
  have m: "decl_weak g ?node = 0 \<or> decl_weak g ?node = 1" by (auto simp: decl_weak_def)
  have fields: "sn_name (h_sn ?s3 p) = sn_name (h_sn s1 p)" "sn_buf (h_sn ?s3 p) = buf" "sn_obj (h_sn ?s3 p) = obj"
    "sn_loc_file (h_sn ?s3 p) = loc_file"
    unfolding h by (simp_all add: gb_weak_def gb_fill_def Let_def)
  have loc: "loc_file \<noteq> NULL \<Longrightarrow> sn_loc_line (h_sn ?s3 p) = xl_line (t_xloc g xloc) \<and>
       sn_loc_col (h_sn ?s3 p) = xl_col (t_xloc g xloc)"
    unfolding h by (simp add: gb_weak_def gb_fill_def Let_def)
  have wk: "sn_weak_flag (h_sn ?s3 p) \<in> {0, - 1}"
    unfolding h using w m by (auto simp: gb_weak_def gb_fill_def Let_def)
  note nf = new_filled [OF ok n f3 fields(1)]
  have i3: "sinode_inv ?s3" by (rule upd_sn_inv [OF p2(1)]) (use nf(6) in \<open>simp add: fresh_node_def upd_sn_def\<close>)
  have rf: "sn_rf ?s3 p = sb_rf (h_sb ?s buf)" using fields(2) nf(3) by (simp add: sn_rf_def)
  have k3: "spec_key ?s3 type p = key_made g buf type name loc_file xloc ?s" if "loc_file \<noteq> NULL \<or> by_rf type"
    using that nf(4) rf fields(4) loc t by (auto simp: spec_key_def key_made_def)
  have idx: "id_value (si_id_idx ?s3 u) \<le> id_value (si_id_idx ?s u) + (if u = type then 1 else 0)" for u
    using nf(8) ids by simp
  show thesis
  proof (rule out)
    show "sinode_insert E p behavior ?s3 = Some (0, gb_si st')" using ins by (simp add: st')
    show "st' = set_si (gb_si st') st2" "gb_obj st' = gb_obj st" "gb_stn st' = gb_stn st"
      using p2(4,5) by (simp_all add: st')
  qed (fact i3 nf(1-6,9) fields(2-4) wk k3 idx)+
qed

lemma create_links:
  assumes E: "sizes_ok E" and inv: "sinode_inv (gb_si st)" and t: "type < TYPE_CODEP" "type \<noteq> TYPE_FILE"
    and ids: "id_value (si_id_idx (gb_si st) type) + 1 < 2 ^ 28" and nm: "length name < NAME_MAX"
    and lf: "needs_loc type \<Longrightarrow> loc_file \<noteq> NULL"
    and key: "key_made g buf type name loc_file xloc (gb_si st) \<notin>
      spec_key (gb_si st) type ` set_tree (si_by_spec (gb_si st) type)"
    and run: "gb_create E g buf obj type name loc_file xloc SINODE_INSERT_BH_NONE st = Some st'"
  obtains (out) d where "sinode_inv (gb_si st')" "kept (gb_si st) (gb_si st')"
    "d \<in> set_tree (si_by_spec (gb_si st') type)"
    "spec_key (gb_si st') type d = key_made g buf type name loc_file xloc (gb_si st)"
    "gb_obj st' = gb_obj st" "gb_stn st' = gb_stn st" "h_sb (gb_si st') = h_sb (gb_si st)"
    "\<And>u. id_value (si_id_idx (gb_si st') u) \<le> id_value (si_id_idx (gb_si st) u) + (if u = type then 1 else 0)"
    "buf_cur (si_sbuf (gb_si st)) \<le> buf_cur (si_sbuf (gb_si st'))"
    "weak_ok (gb_si st) \<Longrightarrow> weak_ok (gb_si st')"
proof -
  let ?s = "gb_si st"
  obtain p s3 st2 where c: "sinode_insert E p SINODE_INSERT_BH_NONE s3 = Some (0, gb_si st')" "st' = set_si (gb_si st') st2"
    "gb_obj st' = gb_obj st" "gb_stn st' = gb_stn st" "sinode_inv s3" "kept ?s s3"
    "si_by_spec s3 = si_by_spec ?s" "h_sb s3 = h_sb ?s" "name_ok s3 p" "fresh_node s3 type p"
    "sn_str s3 p = name" "sn_buf (h_sn s3 p) = buf" "sn_obj (h_sn s3 p) = obj"
    "sn_loc_file (h_sn s3 p) = loc_file" "sn_weak_flag (h_sn s3 p) \<in> {0, - 1}"
    "loc_file \<noteq> NULL \<or> by_rf type \<Longrightarrow> spec_key s3 type p = key_made g buf type name loc_file xloc ?s"
    "\<And>u. id_value (si_id_idx s3 u) \<le> id_value (si_id_idx ?s u) + (if u = type then 1 else 0)"
    "buf_cur (si_sbuf ?s) \<le> buf_cur (si_sbuf s3)"
    using create_filled [OF E inv t ids nm run] by blast
  have "loc_file \<noteq> NULL \<or> by_rf type" using lf t by (auto simp: needs_loc_iff)
  note k3 = c(16) [OF this]
  have iok: "insert_ok E s3 type p SINODE_INSERT_BH_NONE"
    using E c(5,9,10,14) t lf by (simp add: insert_ok_def sizes_ok_def)
  have "spec_key s3 type ` set_tree (si_by_spec s3 type) = spec_key ?s type ` set_tree (si_by_spec ?s type)"
    unfolding c(7) using c(6) t by (intro image_cong) (simp_all add: kept_def)
  then have "spec_key s3 type p \<notin> spec_key s3 type ` set_tree (si_by_spec s3 type)" using key k3 by simp
  note ik = insert_kept [OF iok this c(1)]
  show thesis
  proof (rule out [of p])
    show "sinode_inv (gb_si st')" "p \<in> set_tree (si_by_spec (gb_si st') type)"
      "spec_key (gb_si st') type p = key_made g buf type name loc_file xloc ?s"
      "h_sb (gb_si st') = h_sb ?s" "gb_obj st' = gb_obj st" "gb_stn st' = gb_stn st"
      using ik(2,4,5,6) k3 c(3,4,8) by simp_all
    show "kept ?s (gb_si st')" by (rule kept_trans [OF c(6) ik(3)])
    show "buf_cur (si_sbuf ?s) \<le> buf_cur (si_sbuf (gb_si st'))" using c(18) ik(9) by simp
    show "id_value (si_id_idx (gb_si st') u) \<le> id_value (si_id_idx ?s u) + (if u = type then 1 else 0)" for u
      using c(17) ik(7) by simp
    show "weak_ok (gb_si st')" if "weak_ok ?s"
      using weak_ok_linked [OF that c(6,7)] c(15) ik(8,10) by (auto simp: weak_ok_def split: if_splits)
  qed
qed

subsection \<open>A declaration that replaces another\<close>

text \<open>
  \<open>kept_for buf s s'\<close>: what is linked stays linked with its id and its name, and either with all
  its fields and its key or taken over by the file \<open>buf\<close>, when a declaration of it replaced the
  old one. The key of a global name taken over from the builtins becomes that of the resfile.
\<close>

definition key_moved :: "addr \<Rightarrow> src \<Rightarrow> nat \<Rightarrow> spec_key \<Rightarrow> spec_key \<Rightarrow> bool" where
  "key_moved buf s t k k' \<longleftrightarrow> k' = k \<or>
     by_rf t \<and> k = (fst k, get_builtin_resfile s, 0, 0) \<and> k' = (fst k, sb_rf (h_sb s buf), 0, 0)"

definition taken_over :: "addr \<Rightarrow> src \<Rightarrow> src \<Rightarrow> nat \<Rightarrow> addr \<Rightarrow> bool" where
  "taken_over buf s s' t d \<longleftrightarrow> by_name t \<and> sn_buf (h_sn s' d) = buf \<and>
     key_moved buf s t (spec_key s t d) (spec_key s' t d)"

definition same_files :: "src \<Rightarrow> src \<Rightarrow> bool" where
  "same_files s s' \<longleftrightarrow> si_resfile_head s' = si_resfile_head s \<and>
     (\<forall>r. rf_built_in (h_rf s' r) = rf_built_in (h_rf s r)) \<and>
     (\<forall>b. sb_rf (h_sb s' b) = sb_rf (h_sb s b) \<and> sb_payload (h_sb s' b) = sb_payload (h_sb s b) \<and>
        sb_objs (h_sb s' b) = sb_objs (h_sb s b))"

definition kept_for :: "addr \<Rightarrow> src \<Rightarrow> src \<Rightarrow> bool" where
  "kept_for buf s s' \<longleftrightarrow>
     (\<forall>t < TYPE_CODEP. \<forall>d \<in> set_tree (si_by_spec s t).
        d \<in> set_tree (si_by_spec s' t) \<and> sn_id (h_sn s' d) = sn_id (h_sn s d) \<and> sn_str s' d = sn_str s d \<and>
        (h_sn s' d = h_sn s d \<and> spec_key s' t d = spec_key s t d \<or> taken_over buf s s' t d)) \<and>
     same_files s s'"

lemma same_files_builtin: "same_files s s' \<Longrightarrow> get_builtin_resfile s' = get_builtin_resfile s"
  by (auto simp: same_files_def get_builtin_resfile_def split: list.splits)

lemma kept_files: "kept s s' \<Longrightarrow> same_files s s'"
  by (simp add: kept_def same_files_def)

lemma kept_is_kept_for: "kept s s' \<Longrightarrow> kept_for buf s s'"
  using kept_files [of s s'] spec_key_name by (simp add: kept_for_def kept_def) metis

lemma kept_for_files: "kept_for buf s s' \<Longrightarrow> same_files s s'"
  by (simp add: kept_for_def)

lemma kept_for_linked:
  assumes "kept_for buf s s'" "t < TYPE_CODEP" "d \<in> set_tree (si_by_spec s t)"
  shows "d \<in> set_tree (si_by_spec s' t)" "sn_id (h_sn s' d) = sn_id (h_sn s d)" "sn_str s' d = sn_str s d"
    "h_sn s' d = h_sn s d \<and> spec_key s' t d = spec_key s t d \<or> taken_over buf s s' t d"
    "key_moved buf s t (spec_key s t d) (spec_key s' t d)"
    "\<not> by_name t \<Longrightarrow> spec_key s' t d = spec_key s t d"
  using assms by (auto simp: kept_for_def taken_over_def key_moved_def)

lemma key_moved_trans:
  assumes "key_moved buf s t k k1" "key_moved buf s1 t k1 k2" "same_files s s1"
  shows "key_moved buf s t k k2"
  using assms same_files_builtin [OF assms(3)]
  by (cases k; cases k1; cases k2) (auto simp: key_moved_def same_files_def)

lemma kept_for_trans:
  assumes a: "kept_for buf s s1" and b: "kept_for buf s1 s2"
  shows "kept_for buf s s2"
  unfolding kept_for_def
proof (intro conjI allI impI ballI)
  fix t d assume t: "t < TYPE_CODEP" and d: "d \<in> set_tree (si_by_spec s t)"
  note x = kept_for_linked [OF a t d]
  note y = kept_for_linked [OF b t x(1)]
  show "d \<in> set_tree (si_by_spec s2 t)" "sn_id (h_sn s2 d) = sn_id (h_sn s d)" "sn_str s2 d = sn_str s d"
    using x(2,3) y(1-3) by simp_all
  have km: "key_moved buf s t (spec_key s t d) (spec_key s2 t d)"
    by (rule key_moved_trans [OF x(5) y(5) kept_for_files [OF a]])
  show "h_sn s2 d = h_sn s d \<and> spec_key s2 t d = spec_key s t d \<or> taken_over buf s s2 t d"
    using x(4) y(4) km unfolding taken_over_def by metis
next
  show "same_files s s2" using kept_for_files [OF a] kept_for_files [OF b] by (simp add: same_files_def)
qed

text \<open>The only node of a name, exchanged with a new one of the file \<open>buf\<close>.\<close>

lemma replace_kept:
  assumes ok: "replace_ok s t p d" and b: "sn_buf (h_sn s p) = buf"
    and key: "spec_key s t p = spec_key s t d \<or>
      by_rf t \<and> spec_key s t d = (sn_str s d, get_builtin_resfile s, 0, 0)"
  shows "kept_for buf s (sinode_insert_do_replace d p s)"
    "spec_key (sinode_insert_do_replace d p s) t d = spec_key s t p"
proof -
  let ?s = "sinode_insert_do_replace d p s"
  note ok' = ok [unfolded replace_ok_def]
  have t: "t < TYPE_MAX" "t \<noteq> 0" and inv: "sinode_inv s" using ok' by (auto simp: by_name_def)
  have out: "x \<noteq> p" if "u < TYPE_MAX" "x \<in> set_tree (si_by_spec s u)" for u x
  proof -
    have "p \<notin> set_tree (si_by_id s u)" using ok' that(1) by (simp add: fresh_node_def)
    moreover have "type_inv s u" using inv that(1) by (simp add: sinode_inv_def)
    ultimately show ?thesis using that(2) by (auto simp: type_inv_def)
  qed
  have dp: "d \<noteq> p" using ok' out [OF t(1)] by blast
  have hd: "h_sn ?s d = payload_from (h_sn s p) (h_sn s d)" using dp by (simp add: do_replace_sn)
  show kd: "spec_key ?s t d = spec_key s t p"
    using ok' hd t(2) by (simp add: spec_key_def do_replace_sn(2) payload_from_def sn_rf_def)
  have rf: "by_rf t \<Longrightarrow> spec_key s t p = (sn_str s d, sb_rf (h_sb s buf), 0, 0)"
    using b ok' t(2) by (simp add: spec_key_def sn_rf_def)
  have took: "taken_over buf s ?s t d"
    using key rf kd hd ok' b spec_key_name [of s t d]
    by (auto simp: taken_over_def key_moved_def payload_from_def)
  have other: "h_sn ?s x = h_sn s x \<and> spec_key ?s u x = spec_key s u x" if "x \<noteq> d" "x \<noteq> p" for u x
    using that by (simp add: do_replace_sn spec_key_def sn_rf_def)
  have home: "u = t" if u: "u < TYPE_MAX" "d \<in> set_tree (si_by_spec s u)" for u
  proof -
    have "d \<in> set_tree (si_by_id s v)" if "v < TYPE_MAX" "d \<in> set_tree (si_by_spec s v)" for v
      using inv that by (auto simp: sinode_inv_def type_inv_def)
    then have "node_ok s u d" "node_ok s t d" using inv_below [OF inv] u t(1) ok' by blast+
    then show ?thesis by (simp add: node_ok_def)
  qed
  have "same_files s ?s" by (simp add: same_files_def) (simp add: sinode_insert_do_replace_def Let_def)
  moreover have "h_sn ?s x = h_sn s x \<and> spec_key ?s u x = spec_key s u x \<or> taken_over buf s ?s u x"
    if u: "u < TYPE_CODEP" "x \<in> set_tree (si_by_spec s u)" for u x
  proof (cases "x = d")
    case True
    then have "u = t" using home u by simp
    then show ?thesis using True took by simp
  next
    case False
    have "x \<noteq> p" by (rule out [OF _ u(2)]) (use u(1) in simp)
    then show ?thesis using other False by blast
  qed
  ultimately show "kept_for buf s ?s" unfolding kept_for_def by (simp add: do_replace_sn(2,3))
qed

lemma create_replaces:
  assumes E: "sizes_ok E" and inv: "sinode_inv (gb_si st)" and t: "by_name type"
    and ids: "id_value (si_id_idx (gb_si st) type) + 1 < 2 ^ 28" and nm: "length name < NAME_MAX"
    and lf: "needs_loc type \<longrightarrow> loc_file \<noteq> NULL"
    and d: "d \<in> set_tree (si_by_spec (gb_si st) type)" "sn_str (gb_si st) d = name"
    and one: "\<forall>x \<in> set_tree (si_by_spec (gb_si st) type). sn_str (gb_si st) x = name \<longrightarrow> x = d"
    and key: "spec_key (gb_si st) type d = key_made g buf type name loc_file xloc (gb_si st) \<or>
      by_rf type \<and> spec_key (gb_si st) type d = (name, get_builtin_resfile (gb_si st), 0, 0)"
    and run: "gb_create E g buf obj type name loc_file xloc SINODE_INSERT_BH_REPLACE st = Some st'"
  shows "sinode_inv (gb_si st')" "kept_for buf (gb_si st) (gb_si st')"
    "d \<in> set_tree (si_by_spec (gb_si st') type)"
    "spec_key (gb_si st') type d = key_made g buf type name loc_file xloc (gb_si st)"
    "sn_obj (h_sn (gb_si st') d) = obj"
    "gb_obj st' = gb_obj st" "gb_stn st' = gb_stn st" "h_sb (gb_si st') = h_sb (gb_si st)"
    "id_value (si_id_idx (gb_si st') u) \<le> id_value (si_id_idx (gb_si st) u) + (if u = type then 1 else 0)"
    "buf_cur (si_sbuf (gb_si st)) \<le> buf_cur (si_sbuf (gb_si st'))"
    "weak_ok (gb_si st) \<Longrightarrow> weak_ok (gb_si st')"
proof -
  let ?s = "gb_si st"
  have tc: "type < TYPE_CODEP" "type \<noteq> TYPE_FILE" "type < TYPE_MAX" using t by (auto simp: by_name_def)
  obtain p s3 st2 where c: "sinode_insert E p SINODE_INSERT_BH_REPLACE s3 = Some (0, gb_si st')" "st' = set_si (gb_si st') st2"
    "gb_obj st' = gb_obj st" "gb_stn st' = gb_stn st" "sinode_inv s3" "kept ?s s3"
    "si_by_spec s3 = si_by_spec ?s" "h_sb s3 = h_sb ?s" "name_ok s3 p" "fresh_node s3 type p"
    "sn_str s3 p = name" "sn_buf (h_sn s3 p) = buf" "sn_obj (h_sn s3 p) = obj"
    "sn_loc_file (h_sn s3 p) = loc_file" "sn_weak_flag (h_sn s3 p) \<in> {0, - 1}"
    "loc_file \<noteq> NULL \<or> by_rf type \<Longrightarrow> spec_key s3 type p = key_made g buf type name loc_file xloc ?s"
    "\<And>u. id_value (si_id_idx s3 u) \<le> id_value (si_id_idx ?s u) + (if u = type then 1 else 0)"
    "buf_cur (si_sbuf ?s) \<le> buf_cur (si_sbuf s3)"
    using create_filled [OF E inv tc(1,2) ids nm run] by blast
  have "loc_file \<noteq> NULL \<or> by_rf type" using lf t by (auto simp: by_name_def by_rf_def needs_loc_def)
  note k3 = c(16) [OF this]
  have lk: "spec_key s3 type x = spec_key ?s type x" "sn_str s3 x = sn_str ?s x" "h_sn s3 x = h_sn ?s x"
    if "x \<in> set_tree (si_by_spec ?s type)" for x
    using kept_for_linked(3) [OF kept_is_kept_for [OF c(6)] tc(1) that] c(6) tc(1) that by (simp_all add: kept_def)
  have nn: "sn_name (h_sn s3 p) \<noteq> NULL" using c(5,9) name_not_null by (auto simp: sinode_inv_def)
  have idt: "sinode_idtype s3 p = type"
    using c(10) by (simp add: fresh_node_def node_ok_def sinode_idtype_def siid_type_def)
  have srt: "rb_sorted (spec_key s3 type) (si_by_spec s3 type)"
    using c(5) tc(3) by (simp add: sinode_inv_def type_inv_def)
  have fd: "rb_find (cmp_file s3 (sn_str s3 p)) (si_by_spec s3 type) = Some d"
  proof (rule rb_find_unique [OF srt, where f = "sn_str s3" and k = "sn_str s3 p"])
    show "d \<in> set_tree (si_by_spec s3 type)" "sn_str s3 d = sn_str s3 p"
      using d lk c(7,11) by simp_all
    show "x = d" if "x \<in> set_tree (si_by_spec s3 type)" "sn_str s3 x = sn_str s3 p" for x
      using that one lk c(7,11) by simp
  qed (auto simp: cmp_file_def strcmp_sign spec_key_le)
  have nres: "sinode_insert_name_resfile E type p SINODE_INSERT_BH_REPLACE s3 = Some (0, gb_si st')"
    using c(1) idt t by (auto simp: sinode_insert_def sinode_insert_spec_def by_name_def
        sinode_insert_func_static_def Let_def)
  then have len: "type \<noteq> TYPE_FUNC_STATIC \<longrightarrow> sn_datalen (h_sn s3 p) = sn_datalen (h_sn s3 d)"
    and s': "gb_si st' = sinode_insert_do_replace d p s3"
    using fd nn by (auto simp: sinode_insert_name_resfile_def bind_splits split: if_splits)
  have rok: "replace_ok s3 type p d"
    unfolding replace_ok_def
  proof (intro conjI ballI impI)
    show "x = d" if "x \<in> set_tree (si_by_spec s3 type)" "sn_str s3 x = sn_str s3 p" for x
      using that one lk(2) [of x] c(7,11) by simp
    show "d \<in> set_tree (si_by_spec s3 type)" "sn_str s3 d = sn_str s3 p" using d lk(2) [of d] c(7,11) by simp_all
  qed (use c(5,9,10) t len in simp_all)
  have bk: "get_builtin_resfile s3 = get_builtin_resfile ?s"
    by (rule same_files_builtin [OF kept_files [OF c(6)]])
  have "spec_key s3 type p = spec_key s3 type d \<or>
      by_rf type \<and> spec_key s3 type d = (sn_str s3 d, get_builtin_resfile s3, 0, 0)"
    using key by (elim disjE) (simp_all add: k3 lk(1,2) [OF d(1)] d(2) bk)
  note rk = replace_kept [OF rok c(12) this]
  have "d \<in> set_tree (si_by_id s3 type)" using d c(5,7) tc(3) by (auto simp: sinode_inv_def type_inv_def)
  then have dp: "d \<noteq> p" using c(10) tc(3) by (auto simp: fresh_node_def)
  show "sinode_inv (gb_si st')" unfolding s' by (rule replace_inv [OF rok])
  show "kept_for buf ?s (gb_si st')" unfolding s' by (rule kept_for_trans [OF kept_is_kept_for [OF c(6)] rk(1)])
  show "d \<in> set_tree (si_by_spec (gb_si st') type)" "gb_obj st' = gb_obj st" "gb_stn st' = gb_stn st"
    "h_sb (gb_si st') = h_sb ?s" "buf_cur (si_sbuf ?s) \<le> buf_cur (si_sbuf (gb_si st'))"
    using d c(3,4,7,8,18) by (simp_all add: s')
  show "spec_key (gb_si st') type d = key_made g buf type name loc_file xloc ?s" unfolding s' rk(2) by (rule k3)
  show "sn_obj (h_sn (gb_si st') d) = obj" using dp c(13) by (simp add: s' do_replace_sn payload_from_def)
  show "id_value (si_id_idx (gb_si st') u) \<le> id_value (si_id_idx ?s u) + (if u = type then 1 else 0)"
    using c(17) by (simp add: s')
  have "sn_weak_flag (h_sn (gb_si st') x) = sn_weak_flag (h_sn s3 x)" for x
    by (simp add: s' do_replace_sn payload_from_def)
  then show "weak_ok (gb_si st')" if "weak_ok ?s"
    using weak_ok_linked [OF that c(6,7)] by (simp add: weak_ok_def s')
qed

subsection \<open>Searches\<close>

lemma search_null:
  assumes "sinode_inv s" "t < TYPE_CODEP" "key_of_type t k"
  shows "\<exists>d. sinode_search s t SEARCH_BY_SPEC (spec_arg t k) = Some d \<and>
    (d \<noteq> NULL \<longleftrightarrow> k \<in> spec_key s t ` set_tree (si_by_spec s t)) \<and>
    (d \<noteq> NULL \<longrightarrow> d \<in> set_tree (si_by_spec s t))"
proof -
  have i: "id_type 0 < TYPE_MAX" by (simp add: id_type_def)
  let ?d = "ptr_of (rb_find (spec_cmp s t k) (si_by_spec s t))"
  have "sinode_search s t SEARCH_BY_SPEC (spec_arg t k) = Some ?d" by (rule search_spec_eq [OF assms(2,3)])
  with sinode_search_iff(1) [OF assms i, of ?d] show ?thesis
    by (cases "?d = NULL") (force simp: image_iff)+
qed

text \<open>The keys by which an object is searched.\<close>

definition keys_tried :: "trees \<Rightarrow> addr \<Rightarrow> nat \<Rightarrow> string \<Rightarrow> addr \<Rightarrow> addr \<Rightarrow> src \<Rightarrow> spec_key set" where
  "keys_tried g buf type name loc_file xloc s =
     {key_made g buf type name loc_file xloc s} \<union>
     (if by_rf type \<and> get_builtin_resfile s \<noteq> NULL then {(name, get_builtin_resfile s, 0, 0)} else {})"

definition named_type :: "nat \<Rightarrow> bool" where
  "named_type t \<longleftrightarrow> t < TYPE_CODEP \<and> t \<noteq> TYPE_FILE"

lemma named_cases: "named_type t \<Longrightarrow> by_rf t \<or> needs_loc t"
  by (auto simp: named_type_def by_rf_def needs_loc_def)

lemma gb_search_value:
  assumes inv: "sinode_inv s" and t: "named_type type" and nm: "name \<noteq> []"
    and lf: "needs_loc type \<Longrightarrow> loc_file \<noteq> NULL"
  shows "\<exists>d. gb_search buf type name loc_file (t_xloc g xloc) s = Some d \<and>
    (d \<noteq> NULL \<longleftrightarrow> keys_tried g buf type name loc_file xloc s \<inter> spec_key s type ` set_tree (si_by_spec s type) \<noteq> {}) \<and>
    (d \<noteq> NULL \<longrightarrow> d \<in> set_tree (si_by_spec s type))"
proof -
  have tc: "type < TYPE_CODEP" using t by (simp add: named_type_def)
  let ?K = "spec_key s type ` set_tree (si_by_spec s type)"
  show ?thesis
  proof (cases "by_rf type")
    case True
    then have ty: "type = TYPE_FUNC_GLOBAL \<or> type = TYPE_VAR_GLOBAL" by (simp add: by_rf_def)
    let ?r0 = "sb_rf (h_sb s buf)" and ?r1 = "get_builtin_resfile s"
    have a: "spec_arg type (name, r, 0, 0) = ArgResfile r NULL name" "key_of_type type (name, r, 0, 0)" for r
      using True ty by (auto simp: spec_arg_def key_of_type_def)
    have f: "\<exists>d. rb_find (cmp_name_rf s name r) (si_by_spec s type) = d \<and>
        (d \<noteq> None \<longleftrightarrow> (name, r, 0, 0) \<in> ?K) \<and> set_option d \<subseteq> set_tree (si_by_spec s type) - {NULL}" for r
    proof -
      have c: "cmp_name_rf s name r = spec_cmp s type (name, r, 0, 0)"
        using True by (simp add: fun_eq_iff cmp_name_rf_spec)
      have tm: "type < TYPE_MAX" using tc by simp
      show ?thesis unfolding c
        using find_spec_iff [OF inv tm, of "(name, r, 0, 0)"] linked_not_null(2) [OF inv tm]
        by (cases "rb_find (spec_cmp s type (name, r, 0, 0)) (si_by_spec s type)") (auto simp: image_iff, metis+)
    qed
    obtain d0 where d0: "rb_find (cmp_name_rf s name ?r0) (si_by_spec s type) = d0"
      "d0 \<noteq> None \<longleftrightarrow> (name, ?r0, 0, 0) \<in> ?K" "set_option d0 \<subseteq> set_tree (si_by_spec s type) - {NULL}" using f by blast
    obtain d1 where d1: "rb_find (cmp_name_rf s name ?r1) (si_by_spec s type) = d1"
      "d1 \<noteq> None \<longleftrightarrow> (name, ?r1, 0, 0) \<in> ?K" "set_option d1 \<subseteq> set_tree (si_by_spec s type) - {NULL}" using f by blast
    have "gb_search buf type name loc_file (t_xloc g xloc) s =
        Some (sinode_search_name_resfile s type ?r0 ?r1 name)"
      using ty nm by (auto simp: gb_search_def)
    moreover have "(sinode_search_name_resfile s type ?r0 ?r1 name \<noteq> NULL \<longleftrightarrow>
        keys_tried g buf type name loc_file xloc s \<inter> ?K \<noteq> {}) \<and>
        (sinode_search_name_resfile s type ?r0 ?r1 name \<noteq> NULL \<longrightarrow>
          sinode_search_name_resfile s type ?r0 ?r1 name \<in> set_tree (si_by_spec s type))"
      using d0 d1 True ty
      by (cases d0; cases d1) (auto simp: sinode_search_name_resfile_def keys_tried_def key_made_def ptr_of_def)
    ultimately show ?thesis by blast
  next
    case False
    then have l: "needs_loc type" "loc_file \<noteq> NULL" using named_cases [OF t] lf by auto
    let ?k = "key_made g buf type name loc_file xloc s"
    have a: "spec_arg type ?k = ArgLoc loc_file (xl_line (t_xloc g xloc)) (xl_col (t_xloc g xloc)) name"
      "key_of_type type ?k" "keys_tried g buf type name loc_file xloc s = {?k}"
      using False t by (auto simp: spec_arg_def key_made_def named_type_def key_of_type_def keys_tried_def)
    have "gb_search buf type name loc_file (t_xloc g xloc) s =
        sinode_search s type SEARCH_BY_SPEC (spec_arg type ?k)"
      unfolding a using False l nm by (auto simp: gb_search_def by_rf_def)
    then show ?thesis using search_null [OF inv tc a(2)] a(3) by auto
  qed
qed

lemma keys_tried_same:
  "same_files s s' \<Longrightarrow> keys_tried g buf type name lf xloc s' = keys_tried g buf type name lf xloc s"
  using same_files_builtin [of s s'] by (simp add: keys_tried_def key_made_def same_files_def)

lemma keys_tried_moved:
  assumes "key_moved buf s t k k'" "k \<in> keys_tried g buf t name lf xloc s"
  shows "k' \<in> keys_tried g buf t name lf xloc s"
  using assms by (auto simp: key_moved_def keys_tried_def key_made_def by_rf_def split: if_splits)

lemma keys_still_tried:
  assumes k: "kept_for buf s s'" and t: "t < TYPE_CODEP"
    and f: "keys_tried g buf t name lf xloc s \<inter> spec_key s t ` set_tree (si_by_spec s t) \<noteq> {}"
  shows "keys_tried g buf t name lf xloc s' \<inter> spec_key s' t ` set_tree (si_by_spec s' t) \<noteq> {}"
proof -
  obtain d where d: "d \<in> set_tree (si_by_spec s t)" "spec_key s t d \<in> keys_tried g buf t name lf xloc s"
    using f by blast
  note l = kept_for_linked [OF k t d(1)]
  have "spec_key s' t d \<in> keys_tried g buf t name lf xloc s'"
    unfolding keys_tried_same [OF kept_for_files [OF k]] by (rule keys_tried_moved [OF l(5) d(2)])
  then show ?thesis using l(1) by blast
qed

subsection \<open>The file of a location\<close>

definition loc_of :: "trees \<Rightarrow> addr \<Rightarrow> src \<Rightarrow> addr" where
  "loc_of g xloc s =
     (if xloc = NULL then NULL
      else case xl_file (t_xloc g xloc) of None \<Rightarrow> NULL | Some f \<Rightarrow> sinode_search_file s f)"

definition has_file :: "trees \<Rightarrow> addr \<Rightarrow> bool" where
  "has_file g xloc \<longleftrightarrow> xloc \<noteq> NULL \<and> xl_file (t_xloc g xloc) \<noteq> None"

lemma search_file_arg: "sinode_search s TYPE_FILE SEARCH_BY_SPEC (ArgFile f) = Some (sinode_search_file s f)"
  by simp

lemma loc_of_kept:
  assumes "sinode_inv s" "sinode_inv s'" "kept_for buf s s'" "loc_of g xloc s \<noteq> NULL"
  shows "loc_of g xloc s' = loc_of g xloc s"
proof -
  obtain f where f: "xl_file (t_xloc g xloc) = Some f" "xloc \<noteq> NULL" "sinode_search_file s f \<noteq> NULL"
    using assms(4) by (auto simp: loc_of_def split: if_splits option.splits)
  let ?d = "sinode_search_file s f" and ?k = "(f, 0, 0, 0) :: spec_key"
  have a: "spec_arg TYPE_FILE ?k = ArgFile f" "key_of_type TYPE_FILE ?k" by (simp_all add: spec_arg_def key_of_type_def)
  have i: "id_type 0 < TYPE_MAX" by (simp add: id_type_def)
  have d: "?d \<in> set_tree (si_by_spec s TYPE_FILE)" "spec_key s TYPE_FILE ?d = ?k"
    using sinode_search_iff(1) [OF assms(1) _ a(2) i, of ?d] f(3) by (simp_all add: a(1))
  have "?d \<in> set_tree (si_by_spec s' TYPE_FILE)" "spec_key s' TYPE_FILE ?d = ?k"
    using kept_for_linked(1,6) [OF assms(3) _ d(1)] d(2) by (simp_all add: by_name_def)
  then have "sinode_search s' TYPE_FILE SEARCH_BY_SPEC (ArgFile f) = Some ?d"
    using sinode_search_iff(1) [OF assms(2) _ a(2) i, of ?d] f(3) by (simp add: a(1))
  then show ?thesis using f by (simp add: loc_of_def)
qed

definition files_ok :: "env \<Rightarrow> trees \<Rightarrow> bool" where
  "files_ok E g \<longleftrightarrow> (\<forall>a f. xl_file (t_xloc g a) = Some f \<longrightarrow> namelen_ok E f)"

lemma loc_file_links:
  assumes E: "sizes_ok E" "files_ok E g" and inv: "sinode_inv s"
    and ids: "id_value (si_id_idx s TYPE_FILE) + 1 < 2 ^ 28"
    and run: "gb_loc_file E g xloc s = Some (lf, s')"
  shows "sinode_inv s'" "kept s s'" "lf = loc_of g xloc s'" "has_file g xloc \<longleftrightarrow> lf \<noteq> NULL"
    "h_sb s' = h_sb s" "weak_ok s \<Longrightarrow> weak_ok s'" "buf_cur (si_sbuf s) \<le> buf_cur (si_sbuf s')"
    "id_value (si_id_idx s' u) \<le> id_value (si_id_idx s u) + (if u = TYPE_FILE then 1 else 0)"
proof -
  have all: "sinode_inv s' \<and> kept s s' \<and> lf = loc_of g xloc s' \<and> (has_file g xloc \<longleftrightarrow> lf \<noteq> NULL) \<and>
      h_sb s' = h_sb s \<and> (weak_ok s \<longrightarrow> weak_ok s') \<and> buf_cur (si_sbuf s) \<le> buf_cur (si_sbuf s') \<and>
      (\<forall>u. id_value (si_id_idx s' u) \<le> id_value (si_id_idx s u) + (if u = TYPE_FILE then 1 else 0))"
  proof (cases "has_file g xloc \<and> loc_of g xloc s = NULL")
    case False
    then have "s' = s \<and> lf = loc_of g xloc s"
      using run by (auto simp: gb_loc_file_def has_file_def loc_of_def split: option.splits if_splits)
    then show ?thesis using inv False kept_refl by (auto simp: has_file_def loc_of_def split: option.splits)
  next
    case True
    then obtain f where f: "xl_file (t_xloc g xloc) = Some f" "xloc \<noteq> NULL" "sinode_search_file s f = NULL"
      by (auto simp: has_file_def loc_of_def)
    obtain p s1 r where n: "sinode_new E TYPE_FILE (Some f) None s = Some (p, s1)" and p: "lf = p" "p \<noteq> NULL"
      and ins: "sinode_insert E p SINODE_INSERT_BH_NONE s1 = Some (r, s')"
      using run f by (auto simp: gb_loc_file_def bind_splits)
    have ok: "new_ok E TYPE_FILE (Some f) None s"
      using E inv ids f(1) by (auto simp: new_ok_def sizes_ok_def files_ok_def)
    note sp = sinode_new_spec [OF ok n]
    have fl: "filled p s1 s1"
      unfolding filled_def by (intro conjI exI [of _ "si_sbuf s1"] exI [of _ "h_sn s1 p"]) simp_all
    note nf = new_filled [OF ok n fl refl]
    have i: "id_type 0 < TYPE_MAX" by (simp add: id_type_def)
    have kk: "key_of_type TYPE_FILE (f, 0, 0, 0)" "spec_arg TYPE_FILE (f, 0, 0, 0) = ArgFile f"
      by (simp_all add: key_of_type_def spec_arg_def)
    have fresh: "(f, 0, 0, 0) \<notin> spec_key s TYPE_FILE ` set_tree (si_by_spec s TYPE_FILE)"
      using sinode_search_iff(1) [OF inv _ kk(1) i, of NULL] f(3) unfolding kk(2) by simp
    have k: "spec_key s1 TYPE_FILE p = (f, 0, 0, 0)" using nf(4) by (simp add: spec_key_def)
    have iok: "insert_ok E s1 TYPE_FILE p SINODE_INSERT_BH_NONE"
      using E sp(1) nf(5,6) by (simp add: insert_ok_def sizes_ok_def needs_loc_def)
    have "spec_key s1 TYPE_FILE p \<notin> spec_key s1 TYPE_FILE ` set_tree (si_by_spec s1 TYPE_FILE)"
      using fresh nf(2) nf(7) [of TYPE_FILE] k by auto
    note ik = insert_kept [OF iok this ins]
    have kept: "kept s s'" by (rule kept_trans [OF nf(1) ik(3)])
    have found: "sinode_search_file s' f = p"
      using sinode_search_iff(1) [OF ik(2) _ kk(1) i, of p] ik(4,5) k p(2) unfolding kk(2) by simp
    have "weak_ok s'" if w: "weak_ok s"
      unfolding weak_ok_def
    proof (intro allI impI ballI)
      fix u d assume u: "u < TYPE_CODEP" and d: "d \<in> set_tree (si_by_spec s' u)"
      consider "d = p" | "d \<in> set_tree (si_by_spec s u)"
        using d ik(10) [of u] nf(2) by (auto split: if_splits)
      then show "sn_weak_flag (h_sn s' d) \<in> {0, - 1}"
      proof cases
        case 1
        have "sn_weak_flag (h_sn s1 p) = 0" by (rule sinode_new_frame [OF ok n]) simp
        then show ?thesis using 1 ik(8) by simp
      next
        case 2
        have "h_sn s' d = h_sn s d" using kept 2 u by (simp add: kept_def)
        then show ?thesis using w u 2 by (simp add: weak_ok_def)
      qed
    qed
    moreover have "id_value (si_id_idx s' u) \<le> id_value (si_id_idx s u) + (if u = TYPE_FILE then 1 else 0)" for u
      using nf(8) ik(7) ids by simp
    ultimately show ?thesis
      using ik(2,6,9) kept found f(1,2) p nf(3,9) True by (auto simp: loc_of_def has_file_def)
  qed
  then show "sinode_inv s'" "kept s s'" "lf = loc_of g xloc s'" "has_file g xloc \<longleftrightarrow> lf \<noteq> NULL"
    "h_sb s' = h_sb s" "weak_ok s \<Longrightarrow> weak_ok s'" "buf_cur (si_sbuf s) \<le> buf_cur (si_sbuf s')"
    "id_value (si_id_idx s' u) \<le> id_value (si_id_idx s u) + (if u = TYPE_FILE then 1 else 0)" by auto
qed

end
