(* ===== verification/Getbase_Found.thy ===== *)
theory Getbase_Found
  imports Getbase_Links
begin

text \<open>
  Phase 2 keeps the invariants of the indexes and of the unnamed types of a file, and every
  object it records is found by the search of the later phases (\<open>get_base_resolves\<close>); the
  replacement of a function without a body aborts.
\<close>

subsection \<open>Types without a name\<close>

lemma stn_frame:
  assumes inv: "stn_inv h root" and eq: "\<forall>d \<in> stn_members h root. h' d = h d"
  shows "stn_inv h' root" "stn_members h' root = stn_members h root"
    "\<And>d. d \<in> stn_members h root \<Longrightarrow> tc_key h' d = tc_key h d \<and> node_key h' d = node_key h d"
proof -
  have top: "h' d = h d" if "d \<in> set_tree root" for d using that eq by (auto simp: stn_members_def)
  have sub: "h' x = h x" if "d \<in> set_tree root" "x \<in> set_tree (stn_same_tc_root (h d))" for d x
    using that eq by (auto simp: stn_members_def)
  show mem: "stn_members h' root = stn_members h root" using top by (auto simp: stn_members_def)
  show "tc_key h' d = tc_key h d \<and> node_key h' d = node_key h d" if "d \<in> stn_members h root" for d
    using that eq by (simp add: tc_key_def node_key_def)
  have "rb_sorted (tc_key h') root"
    using inv rb_sorted_cong [of root "tc_key h'" "tc_key h"] top by (simp add: stn_inv_def tc_key_def)
  moreover have "group_ok h' d" if d: "d \<in> set_tree root" for d
  proof -
    have g: "group_ok h d" using inv d by (simp add: stn_inv_def)
    have "rb_sorted (node_key h') (stn_same_tc_root (h d))"
      using g rb_sorted_cong [of "stn_same_tc_root (h d)" "node_key h'" "node_key h"] sub [OF d]
      by (simp add: group_ok_def node_key_def)
    then show ?thesis using g sub [OF d] top [OF d] by (simp add: group_ok_def tc_key_def node_key_def)
  qed
  ultimately show "stn_inv h' root" by (simp add: stn_inv_def)
qed

lemma stn_found_mono:
  assumes "stn_inv h root" "stn_inv h' root'" "stn_members h root \<subseteq> stn_members h' root'"
    and "\<And>d. d \<in> stn_members h root \<Longrightarrow> tc_key h' d = tc_key h d \<and> node_key h' d = node_key h d"
    and "sibuf_typenode_search h root tc a \<noteq> None"
  shows "sibuf_typenode_search h' root' tc a \<noteq> None"
proof -
  obtain d where "sibuf_typenode_search h root tc a = Some d" using assms(5) by blast
  then have "d \<in> stn_members h root" "tc_key h d = tc" "node_key h d = a"
    using stn_search_iff [OF assms(1)] by auto
  then have "sibuf_typenode_search h' root' tc a = Some d"
    using stn_search_iff [OF assms(2)] assms(3,4) by blast
  then show ?thesis by simp
qed

definition stn_root :: "addr \<Rightarrow> gbs \<Rightarrow> addr tree" where
  "stn_root buf st = sb_file_types (h_sb (gb_si st) buf)"

definition stn_grows :: "addr \<Rightarrow> gbs \<Rightarrow> gbs \<Rightarrow> bool" where
  "stn_grows buf st st' \<longleftrightarrow> (\<forall>tc a. sibuf_typenode_search (gb_stn st) (stn_root buf st) tc a \<noteq> None \<longrightarrow>
     sibuf_typenode_search (gb_stn st') (stn_root buf st') tc a \<noteq> None)"

text \<open>The invariant of phase 2 for one sibuf, and what a step keeps.\<close>

definition base_inv :: "addr \<Rightarrow> gbs \<Rightarrow> bool" where
  "base_inv buf st \<longleftrightarrow> sinode_inv (gb_si st) \<and> weak_ok (gb_si st) \<and>
     stn_inv (gb_stn st) (stn_root buf st) \<and>
     (\<forall>d \<in> stn_members (gb_stn st) (stn_root buf st). d < buf_cur (si_sbuf (gb_si st)))"

definition base_grows :: "addr \<Rightarrow> gbs \<Rightarrow> gbs \<Rightarrow> bool" where
  "base_grows buf st st' \<longleftrightarrow> base_inv buf st' \<and> kept_for buf (gb_si st) (gb_si st') \<and> stn_grows buf st st'"

lemma base_grows_refl: "base_inv buf st \<Longrightarrow> base_grows buf st st"
  by (simp add: base_grows_def stn_grows_def kept_is_kept_for kept_refl)

lemma base_grows_trans: "base_grows buf st t \<Longrightarrow> base_grows buf t u \<Longrightarrow> base_grows buf st u"
  using kept_for_trans unfolding base_grows_def stn_grows_def by metis

lemma base_grows_si:
  assumes "base_inv buf st" "gb_stn st' = gb_stn st"
    and "sb_file_types (h_sb (gb_si st') buf) = sb_file_types (h_sb (gb_si st) buf)"
    and "sinode_inv (gb_si st')" "weak_ok (gb_si st')" "kept_for buf (gb_si st) (gb_si st')"
    and "buf_cur (si_sbuf (gb_si st)) \<le> buf_cur (si_sbuf (gb_si st'))"
  shows "base_grows buf st st'"
proof -
  have r: "stn_root buf st' = stn_root buf st" using assms(3) by (simp add: stn_root_def)
  have "\<forall>d \<in> stn_members (gb_stn st) (stn_root buf st). d < buf_cur (si_sbuf (gb_si st'))"
    using assms(1,7) by (auto simp: base_inv_def)
  then show ?thesis using assms r by (simp add: base_grows_def base_inv_def stn_grows_def)
qed

lemma base_grows_quiet:
  assumes "base_inv buf st" "gb_stn st' = gb_stn st" "quiet (gb_si st) (gb_si st')"
  shows "base_grows buf st st'"
proof -
  have inv: "sinode_inv (gb_si st)" and w: "weak_ok (gb_si st)" using assms(1) by (auto simp: base_inv_def)
  note q = quiet_inv [OF assms(3) inv]
  have "weak_ok (gb_si st')" using w quietD(2,5) [OF assms(3)] by (simp add: weak_ok_def)
  then show ?thesis
    using base_grows_si [OF assms(1,2) q(4) [of buf] q(1) _ kept_is_kept_for [OF kept_quiet [OF assms(3)]]] q(3) by simp
qed

lemma file_types_inv:
  assumes "sinode_inv s"
  shows "sinode_inv (upd_sb b (\<lambda>n. n\<lparr>sb_file_types := r\<rparr>) s)"
    "kept s (upd_sb b (\<lambda>n. n\<lparr>sb_file_types := r\<rparr>) s)"
proof -
  let ?s = "upd_sb b (\<lambda>n. n\<lparr>sb_file_types := r\<rparr>) s"
  have f: "h_sn ?s = h_sn s" "h_name ?s = h_name s" "si_by_id ?s = si_by_id s" "si_by_spec ?s = si_by_spec s"
    "si_id_idx ?s = si_id_idx s" "si_names_root ?s = si_names_root s" "si_sbuf ?s = si_sbuf s"
    by (simp_all add: upd_sb_def)
  have rf: "sn_rf ?s d = sn_rf s d" "sn_str ?s d = sn_str s d" for d by (simp_all add: sn_rf_def sn_str_def f)
  have "type_inv ?s t" if "t < TYPE_MAX" for t
  proof (rule type_inv_agree)
    show "type_inv s t" using assms that by (simp add: sinode_inv_def)
    show "agree_on (set_tree (si_by_id s t)) s ?s" using rf f by (simp add: agree_on_def name_ok_def)
  qed (simp_all add: f)
  moreover have "name_key ?s = name_key s" by (simp add: fun_eq_iff name_key_def f)
  then have "names_inv ?s" using assms by (simp add: sinode_inv_def names_inv_def f)
  ultimately show "sinode_inv ?s" using assms by (simp add: sinode_inv_def f)
  have "spec_key ?s t d = spec_key s t d" for t d using rf f by (simp add: spec_key_def)
  then show "kept s ?s" using f by (simp add: kept_def upd_sb_def)
qed

lemma unnamed_links:
  assumes E: "sizes_ok E" and nums: "t_num g node < 2 ^ 16" and inv: "base_inv buf st"
    and run: "gb_unnamed E g buf node st = Some st'"
  shows "base_grows buf st st'" "si_id_idx (gb_si st') = si_id_idx (gb_si st)"
    "sibuf_typenode_search (gb_stn st') (stn_root buf st') (t_num g node) node \<noteq> None"
    "gb_obj st' = gb_obj st"
proof -
  let ?tc = "t_num g node"
  have all: "base_grows buf st st' \<and> si_id_idx (gb_si st') = si_id_idx (gb_si st) \<and>
    sibuf_typenode_search (gb_stn st') (stn_root buf st') ?tc node \<noteq> None \<and> gb_obj st' = gb_obj st"
  proof (cases "sibuf_typenode_search (gb_stn st) (stn_root buf st) ?tc node")
    case (Some d)
    then have "st' = st" using run by (simp add: gb_unnamed_def stn_root_def)
    then show ?thesis using Some base_grows_refl [OF inv] by simp
  next
    case None
    let ?h = "gb_stn st" and ?root = "stn_root buf st"
    have si: "sinode_inv (gb_si st)" and hi: "stn_inv ?h ?root" and w: "weak_ok (gb_si st)"
      and low: "\<forall>d \<in> stn_members ?h ?root. d < buf_cur (si_sbuf (gb_si st))"
      using inv by (auto simp: base_inv_def)
    obtain p s where g: "si_buf_get E (csize E SzTypenodeSb) (gb_si st) = Some (p, s)"
      using run None by (auto simp: gb_unnamed_def stn_root_def sibuf_typenode_new_def bind_splits Let_def)
    have e: "env_ok E" "len_ok (csize E SzTypenodeSb)" using E by (auto simp: sizes_ok_def)
    note b = buf_get_inv [OF e(1) si e(2) g]
    obtain bb where bb: "s = (gb_si st)\<lparr>si_sbuf := bb\<rparr>" using b(4) by blast
    define h1 where "h1 = ?h(p := stn_zero\<lparr>stn_type_code := ?tc, stn_node := node\<rparr>)"
    have out: "p \<notin> stn_members ?h ?root" using low b(2) by auto
    have eq: "\<forall>d \<in> stn_members ?h ?root. h1 d = ?h d" using out by (auto simp: h1_def)
    note fr = stn_frame [OF hi eq]
    have "stn_same_tc_root (h1 p) = Leaf" by (simp add: h1_def stn_zero_def)
    then have fresh: "stn_fresh h1 ?root p" using out by (simp add: stn_fresh_def fr(2))
    have keys: "tc_key h1 p = ?tc" "node_key h1 p = node" by (simp_all add: h1_def tc_key_def node_key_def)
    obtain root2 h2 where ins: "sibuf_typenode_insert E ?root p h1 = Some (root2, h2)"
      and si': "gb_si st' = upd_sb buf (\<lambda>b. b\<lparr>sb_file_types := root2\<rparr>) s" and stn': "gb_stn st' = h2"
      and ob': "gb_obj st' = gb_obj st"
      using run None g nums bb
      by (auto simp: gb_unnamed_def stn_root_def sibuf_typenode_new_def bind_splits h1_def gb_si_def
          set_si_def upd_tn_def Let_def)
    have i2: "stn_inv h2 root2" "stn_members h2 root2 = insert p (stn_members h1 ?root)"
      "tc_key h2 = tc_key h1" "node_key h2 = node_key h1"
      using stn_insert_cases [OF e(1) fr(1) fresh] ins by (auto split: if_splits)
    have root': "stn_root buf st' = root2" by (simp add: stn_root_def si')
    have cur: "buf_cur (si_sbuf (gb_si st')) = buf_cur bb" by (simp add: si' upd_sb_def bb)
    have sz: "0 < csize E SzTypenodeSb" by (rule env_ok_size [OF e(1)])
    have "\<forall>d \<in> stn_members h2 root2. d < buf_cur bb"
      using low i2(2) fr(2) b(2,3) sz bb by auto
    moreover have "weak_ok (gb_si st')" using w by (simp add: weak_ok_def si' upd_sb_def bb)
    moreover have "sinode_inv (gb_si st')" unfolding si' by (rule file_types_inv(1) [OF b(1)])
    ultimately have bi: "base_inv buf st'" using i2(1) by (simp add: base_inv_def stn' root' cur)
    have k: "kept (gb_si st) (gb_si st')"
    proof (rule kept_trans)
      show "kept s (gb_si st')" unfolding si' by (rule file_types_inv(2) [OF b(1)])
      show "kept (gb_si st) s" by (simp add: kept_def bb spec_key_def sn_str_def sn_rf_def)
    qed
    have grow: "stn_grows buf st st'"
      unfolding stn_grows_def stn' root'
      using stn_found_mono [OF hi i2(1)] fr(2,3) i2 by auto
    have "sibuf_typenode_search h2 root2 ?tc node = Some p"
      using stn_search_iff [OF i2(1), of ?tc node p] i2 keys by simp
    then show ?thesis using bi kept_is_kept_for [OF k] grow ob' by (simp add: base_grows_def stn' root' si' bb upd_sb_def)
  qed
  then show "base_grows buf st st'" "si_id_idx (gb_si st') = si_id_idx (gb_si st)"
    "sibuf_typenode_search (gb_stn st') (stn_root buf st') (t_num g node) node \<noteq> None"
    "gb_obj st' = gb_obj st" by blast+
qed

subsection \<open>Objects\<close>

text \<open>Objects differ from what they were in the two marks only.\<close>

definition same_obj :: "file_obj \<Rightarrow> file_obj \<Rightarrow> bool" where
  "same_obj a b \<longleftrightarrow> b\<lparr>fo_is_dropped := False, fo_is_replaced := False\<rparr> =
     a\<lparr>fo_is_dropped := False, fo_is_replaced := False\<rparr>"

definition objs_same :: "gbs \<Rightarrow> gbs \<Rightarrow> bool" where
  "objs_same st st' \<longleftrightarrow> (\<forall>a. same_obj (gb_obj st a) (gb_obj st' a))"

lemma same_obj_fields:
  assumes "same_obj a b"
  shows "fo_real_addr b = fo_real_addr a" "fo_is_type b = fo_is_type a" "fo_is_function b = fo_is_function a"
    "fo_is_global_var b = fo_is_global_var a"
  using assms by (cases a; cases b; simp add: same_obj_def)+

lemma plan_same: "same_obj a b \<Longrightarrow> gb_plan_of g pl b = gb_plan_of g pl a"
  unfolding gb_plan_of_def by (simp only: same_obj_fields)

lemma objs_same_trans: "objs_same st t \<Longrightarrow> objs_same t u \<Longrightarrow> objs_same st u"
  by (simp add: objs_same_def same_obj_def)

lemma objs_same_eq: "gb_obj st' = gb_obj st \<Longrightarrow> objs_same st st'"
  by (simp add: objs_same_def same_obj_def)

lemma objs_same_upd: "(\<And>x. same_obj x (f x)) \<Longrightarrow> objs_same st (upd_obj p f st)"
  by (simp add: objs_same_def same_obj_def)

lemma same_obj_marks:
  "same_obj x (x\<lparr>fo_is_dropped := a\<rparr>)" "same_obj x (x\<lparr>fo_is_replaced := a\<rparr>)"
  "same_obj x (x\<lparr>fo_is_dropped := a, fo_is_replaced := b\<rparr>)"
  by (simp_all add: same_obj_def)

subsection \<open>Conflicts\<close>

lemma conflict_outcome:
  assumes "sn_weak_flag (h_sn (gb_si st) sn_tmp) \<in> {0, - 1}"
    and "gb_conflict E W u g obj type sn_tmp st = Some (c, st')"
  shows "c = TREE_NAME_CONFLICT_DROP \<or> c = TREE_NAME_CONFLICT_REPLACE \<and> by_name type"
    "quiet (gb_si st) (gb_si st')" "gb_stn st' = gb_stn st" "objs_same st st'"
proof -
  let ?b = "sn_buf (h_sn (gb_si st) sn_tmp)"
  obtain held s1 where h: "sibuf_hold E W u ?b (gb_si st) = Some (held, s1)"
    using assms(2) by (auto simp: gb_conflict_def Let_def bind_splits)
  obtain v s2 where ck: "check_conflict E W u g (gb_obj st) type (fo_real_addr (gb_obj st obj)) sn_tmp s1 = Some (v, s2)"
    using assms(2) h by (auto simp: gb_conflict_def Let_def bind_splits)
  have q1: "quiet (gb_si st) s1" by (rule quiet_hold [OF h])
  have fl: "sn_weak_flag (h_sn s1 sn_tmp) \<in> {0, - 1}" using assms(1) quietD(2) [OF q1] by simp
  note cv = check_conflict_value [OF ck fl]
  have q2: "quiet (gb_si st) (drop_if held u ?b s2)"
    by (rule quiet_trans [OF quiet_trans [OF q1 cv(1)] quiet_drop])
  have v: "v = TREE_NAME_CONFLICT_DROP \<or> v = TREE_NAME_CONFLICT_REPLACE \<and> by_name type"
    using cv(2) by (auto simp: stronger_def by_name_def)
  have all: "c = v \<and> quiet (gb_si st) (gb_si st') \<and> gb_stn st' = gb_stn st \<and> objs_same st st'"
  proof (cases "v = TREE_NAME_CONFLICT_DROP")
    case True
    then have "c = v" "st' = upd_obj obj (\<lambda>ob. ob\<lparr>fo_is_dropped := True\<rparr>) (set_si (drop_if held u ?b s2) st)"
      using assms(2) h ck by (auto simp: gb_conflict_def Let_def)
    then show ?thesis using q2 by (simp add: objs_same_def same_obj_def)
  next
    case False
    then have r: "v = TREE_NAME_CONFLICT_REPLACE" using v by simp
    obtain fmt s3 where f: "si_data_fmt_of E W u ?b (drop_if held u ?b s2) = Some (fmt, s3)"
      and st': "c = v" "st' = (if fmt = SI_TYPE_DF_GIMPLE
          then upd_obj (sn_obj (h_sn s3 sn_tmp)) (\<lambda>ob. ob\<lparr>fo_is_replaced := True\<rparr>) (set_si s3 st) else set_si s3 st)"
      using assms(2) h ck r by (auto simp: gb_conflict_def Let_def bind_splits)
    have "quiet (gb_si st) s3" by (rule quiet_trans [OF q2 data_fmt_of(1) [OF f]])
    then show ?thesis using st' by (simp add: objs_same_def same_obj_def)
  qed
  then show "c = TREE_NAME_CONFLICT_DROP \<or> c = TREE_NAME_CONFLICT_REPLACE \<and> by_name type" using v by simp
  show "quiet (gb_si st) (gb_si st')" "gb_stn st' = gb_stn st" "objs_same st st'" using all by blast+
qed

subsection \<open>Every object recorded is found\<close>

definition tree_ok :: "env \<Rightarrow> trees \<Rightarrow> bool" where
  "tree_ok E g \<longleftrightarrow> files_ok E g \<and> (\<forall>a. t_num g a < 2 ^ 16)"

text \<open>The search by which the later phases look for what phase 2 recorded of an object.\<close>

definition base_found :: "trees \<Rightarrow> addr \<Rightarrow> nat \<Rightarrow> string \<Rightarrow> addr \<Rightarrow> addr \<Rightarrow> gbs \<Rightarrow> bool" where
  "base_found g buf type name xloc node st \<longleftrightarrow>
     (let lf = loc_of g xloc (gb_si st) in
      (has_file g xloc \<longrightarrow> lf \<noteq> NULL) \<and>
      (case gb_name_type g type name node lf xloc of
         None \<Rightarrow> False
       | Some (ty, nm) \<Rightarrow>
           if ty = TYPE_NONE
           then sibuf_typenode_search (gb_stn st) (stn_root buf st) (t_num g node) node \<noteq> None
           else (case gb_search buf ty nm lf (t_xloc g xloc) (gb_si st) of
                   None \<Rightarrow> False | Some d \<Rightarrow> d \<noteq> NULL)))"

definition plan_type :: "nat \<Rightarrow> bool" where
  "plan_type type \<longleftrightarrow> type = TYPE_NONE \<or> named_type type"

lemma gen_type_name_len:
  "gen_type_name g name node lf xl = Some nm \<Longrightarrow> length name < NAME_MAX \<Longrightarrow> length nm < NAME_MAX"
  by (auto simp: gen_type_name_def put_name_def bind_splits split: if_splits)

lemma name_type_value:
  assumes "gb_name_type g type name node lf xloc = Some (ty, nm)" "plan_type type" "length name < NAME_MAX"
  shows "length nm < NAME_MAX" "ty = TYPE_NONE \<or> named_type ty"
  using assms gen_type_name_len
  by (auto simp: gb_name_type_def plan_type_def named_type_def bind_splits split: if_splits)

lemma plan_base:
  assumes "gb_plan_of g pl ob = Some (Gb_base type name xloc)"
  shows "plan_type type" "length name < NAME_MAX"
proof -
  have v: "length nm < NAME_MAX" if "get_node_name g n = Some nm" for n nm using node_name_value [OF that] by blast
  have "plan_type type \<and> length name < NAME_MAX"
  proof (cases "fo_is_type ob")
    case True
    then show ?thesis using assms v
      by (auto simp: gb_plan_of_def Let_def bind_splits plan_type_def named_type_def get_type_name_def
          NAME_MAX_def split: if_splits)
  next
    case nt: False
    show ?thesis
    proof (cases "fo_is_function ob")
      case True
      then show ?thesis using assms nt v
        by (auto simp: gb_plan_of_def Let_def bind_splits plan_type_def named_type_def get_function_name_def
            split: if_splits)
    next
      case False
      then show ?thesis using assms nt v
        by (auto simp: gb_plan_of_def Let_def bind_splits plan_type_def named_type_def get_var_name_def
            NAME_MAX_def split: if_splits)
    qed
  qed
  then show "plan_type type" "length name < NAME_MAX" by blast+
qed

lemma loc_of_file: "has_file g xloc \<or> loc_of g xloc s = NULL"
  by (auto simp: has_file_def loc_of_def split: option.splits)

lemma gb_search_guard:
  assumes "gb_search buf type name lf xl s = Some d"
  shows "name \<noteq> []" "needs_loc type \<Longrightarrow> lf \<noteq> NULL"
  using assms by (auto simp: gb_search_def needs_loc_def bind_splits split: if_splits)

lemma base_found_mono:
  assumes g: "base_grows buf st st'" and inv: "base_inv buf st" and pt: "plan_type type"
    and nm: "length name < NAME_MAX" and f: "base_found g buf type name xloc node st"
  shows "base_found g buf type name xloc node st'"
proof -
  have i: "sinode_inv (gb_si st)" "sinode_inv (gb_si st')" and k: "kept_for buf (gb_si st) (gb_si st')"
    and sg: "stn_grows buf st st'" using g inv by (auto simp: base_grows_def base_inv_def)
  let ?lf = "loc_of g xloc (gb_si st)"
  have lf: "loc_of g xloc (gb_si st') = ?lf"
  proof (cases "?lf = NULL")
    case True
    then have "\<not> has_file g xloc" using f by (auto simp: base_found_def Let_def)
    then show ?thesis using True loc_of_file [of g xloc "gb_si st'"] by simp
  qed (rule loc_of_kept [OF i k])
  obtain ty m where nt: "gb_name_type g type name node ?lf xloc = Some (ty, m)"
    using f by (auto simp: base_found_def Let_def split: option.splits)
  note v = name_type_value [OF nt pt nm]
  show ?thesis
  proof (cases "ty = TYPE_NONE")
    case True
    then show ?thesis using f nt lf sg by (simp add: base_found_def Let_def stn_grows_def)
  next
    case False
    then have ty: "named_type ty" "ty < TYPE_CODEP" using v(2) by (auto simp: named_type_def)
    obtain d where d: "gb_search buf ty m ?lf (t_xloc g xloc) (gb_si st) = Some d" "d \<noteq> NULL"
      using f nt False by (auto simp: base_found_def Let_def split: option.splits)
    note gd = gb_search_guard [OF d(1)]
    have "keys_tried g buf ty m ?lf xloc (gb_si st) \<inter> spec_key (gb_si st) ty ` set_tree (si_by_spec (gb_si st) ty) \<noteq> {}"
      using gb_search_value [OF i(1) ty(1) gd, of buf g xloc] d by auto
    then have "keys_tried g buf ty m ?lf xloc (gb_si st') \<inter> spec_key (gb_si st') ty ` set_tree (si_by_spec (gb_si st') ty) \<noteq> {}"
      by (rule keys_still_tried [OF k ty(2)])
    then obtain d' where "gb_search buf ty m ?lf (t_xloc g xloc) (gb_si st') = Some d'" "d' \<noteq> NULL"
      using gb_search_value [OF i(2) ty(1) gd, of buf g xloc] by blast
    then show ?thesis using f nt lf False by (simp add: base_found_def Let_def)
  qed
qed

definition ids_grow :: "gbs \<Rightarrow> gbs \<Rightarrow> nat \<Rightarrow> bool" where
  "ids_grow st st' n \<longleftrightarrow> (\<forall>t. id_value (si_id_idx (gb_si st') t) \<le> id_value (si_id_idx (gb_si st) t) + n)"

lemma ids_grow_trans: "ids_grow st t m \<Longrightarrow> ids_grow t u n \<Longrightarrow> ids_grow st u (m + n)"
  unfolding ids_grow_def by (metis (no_types, lifting) add.assoc add_le_mono1 le_trans)

text \<open>What a step of phase 2 does.\<close>

definition base_step :: "addr \<Rightarrow> gbs \<Rightarrow> gbs \<Rightarrow> nat \<Rightarrow> bool" where
  "base_step buf st st' n \<longleftrightarrow> base_grows buf st st' \<and> objs_same st st' \<and> ids_grow st st' n"

lemma base_step_trans: "base_step buf st t m \<Longrightarrow> base_step buf t u n \<Longrightarrow> base_step buf st u (m + n)"
  using base_grows_trans objs_same_trans ids_grow_trans unfolding base_step_def by blast

lemma base_step_quiet:
  assumes "base_inv buf st" "gb_stn st' = gb_stn st" "quiet (gb_si st) (gb_si st')" "objs_same st st'"
  shows "base_step buf st st' 0"
proof -
  have "sinode_inv (gb_si st)" using assms(1) by (simp add: base_inv_def)
  from quiet_inv(2) [OF assms(3) this] show ?thesis
    using base_grows_quiet [OF assms(1-3)] assms(4) by (simp add: base_step_def ids_grow_def)
qed

lemma key_of_tried: "key_made g buf ty nm lf xloc s \<in> keys_tried g buf ty nm lf xloc s"
  by (simp add: keys_tried_def)

text \<open>The part after the search, for a type with a tree of its own.\<close>

definition alone :: "src \<Rightarrow> nat \<Rightarrow> string \<Rightarrow> addr \<Rightarrow> bool" where
  "alone s type name d \<longleftrightarrow> (\<forall>x \<in> set_tree (si_by_spec s type). sn_str s x = name \<longrightarrow> x = d)"

lemma alone_quiet: "quiet s s' \<Longrightarrow> alone s' type name d = alone s type name d"
  using quietD by (simp add: alone_def sn_str_def)

lemma found_key:
  assumes inv: "sinode_inv s" and t: "named_type type" and nm: "name \<noteq> []" and lf: "needs_loc type \<Longrightarrow> loc_file \<noteq> NULL"
    and d: "gb_search buf type name loc_file (t_xloc g xloc) s = Some d" "d \<noteq> NULL"
  shows "spec_key s type d \<in> keys_tried g buf type name loc_file xloc s"
proof -
  have tc: "type < TYPE_CODEP" "type < TYPE_MAX" using t by (auto simp: named_type_def)
  have i: "id_type 0 < TYPE_MAX" by (simp add: id_type_def)
  show ?thesis
  proof (cases "by_rf type")
    case True
    let ?k = "(name, sb_rf (h_sb s buf), 0, 0) :: spec_key"
    have k: "key_of_type type ?k" using True by (auto simp: key_of_type_def by_rf_def)
    have "sinode_search s type SEARCH_BY_SPEC (spec_arg2 type (get_builtin_resfile s) ?k) = Some d"
      using d(1) nm True by (auto simp: gb_search_def spec_arg2_def by_rf_def)
    then have "spec_key s type d = ?k \<or> get_builtin_resfile s \<noteq> NULL \<and>
        spec_key s type d = second_key (get_builtin_resfile s) ?k"
      using search_second_iff [OF inv tc(1) k, of "get_builtin_resfile s" d] d(2)
      by (auto split: if_splits)
    then show ?thesis using True by (auto simp: keys_tried_def key_made_def second_key_def by_rf_def)
  next
    case False
    let ?k = "key_made g buf type name loc_file xloc s"
    have l: "needs_loc type" "loc_file \<noteq> NULL" using named_cases [OF t] False lf by auto
    have a: "spec_arg type ?k = ArgLoc loc_file (xl_line (t_xloc g xloc)) (xl_col (t_xloc g xloc)) name" "key_of_type type ?k"
      using False t by (auto simp: spec_arg_def key_made_def named_type_def key_of_type_def)
    have "sinode_search s type SEARCH_BY_SPEC (spec_arg type ?k) = Some d"
      using d(1) nm l False unfolding a by (auto simp: gb_search_def by_rf_def)
    then have "spec_key s type d = ?k" using sinode_search_iff(1) [OF inv tc(1) a(2) i, of d] d(2) by simp
    then show ?thesis by (simp add: keys_tried_def)
  qed
qed

lemma tried_name: "k \<in> keys_tried g buf type name loc_file xloc s \<Longrightarrow> fst k = name"
  by (auto simp: keys_tried_def key_made_def split: if_splits)

lemma replaced_links:
  assumes E: "sizes_ok E" and inv: "base_inv buf st" and t: "named_type ty" "by_name ty"
    and ids: "id_value (si_id_idx (gb_si st) ty) + 1 < 2 ^ 28" and nm: "length nm < NAME_MAX"
    and d: "gb_search buf ty nm lf (t_xloc g xloc) (gb_si st) = Some d" "d \<noteq> NULL"
    and q: "quiet (gb_si st) (gb_si st2)" "gb_stn st2 = gb_stn st" "objs_same st st2"
    and one: "alone (gb_si st) ty nm d"
    and run: "gb_create E g buf obj ty nm lf xloc SINODE_INSERT_BH_REPLACE st2 = Some st'"
  shows "base_grows buf st st' \<and> objs_same st st' \<and>
    (\<forall>t. id_value (si_id_idx (gb_si st') t) \<le> id_value (si_id_idx (gb_si st) t) + (if t = ty then 1 else 0)) \<and>
    keys_tried g buf ty nm lf xloc (gb_si st') \<inter> spec_key (gb_si st') ty ` set_tree (si_by_spec (gb_si st') ty) \<noteq> {}"
proof -
  have i: "sinode_inv (gb_si st)" using inv by (simp add: base_inv_def)
  have tc: "ty < TYPE_CODEP" using t by (simp add: named_type_def)
  note gd = gb_search_guard [OF d(1)]
  have b2: "base_grows buf st st2" by (rule base_grows_quiet [OF inv q(2,1)])
  then have inv2: "base_inv buf st2" by (simp add: base_grows_def)
  then have i2: "sinode_inv (gb_si st2)" and w2: "weak_ok (gb_si st2)" by (auto simp: base_inv_def)
  note k = kept_quiet [OF q(1)]
  note sf = kept_files [OF k]
  have dl: "d \<in> set_tree (si_by_spec (gb_si st) ty)"
    using gb_search_value [OF i t(1) gd, of buf g xloc] d by auto
  then have d2: "d \<in> set_tree (si_by_spec (gb_si st2) ty)" "spec_key (gb_si st2) ty d = spec_key (gb_si st) ty d"
    using k tc by (simp_all add: kept_def)
  note key = found_key [OF i t(1) gd d]
  have key2: "spec_key (gb_si st2) ty d \<in> keys_tried g buf ty nm lf xloc (gb_si st2)"
    unfolding d2(2) keys_tried_same [OF sf] by (rule key)
  then have key3: "spec_key (gb_si st2) ty d = key_made g buf ty nm lf xloc (gb_si st2) \<or>
      by_rf ty \<and> spec_key (gb_si st2) ty d = (nm, get_builtin_resfile (gb_si st2), 0, 0)"
    by (auto simp: keys_tried_def split: if_splits)
  have name2: "sn_str (gb_si st2) d = nm" using tried_name [OF key2] spec_key_name by metis
  have one2: "\<forall>x \<in> set_tree (si_by_spec (gb_si st2) ty). sn_str (gb_si st2) x = nm \<longrightarrow> x = d"
    using one alone_quiet [OF q(1)] by (simp add: alone_def)
  have idx: "si_id_idx (gb_si st2) = si_id_idx (gb_si st)" by (rule quiet_inv(2) [OF q(1) i])
  have ids2: "id_value (si_id_idx (gb_si st2) ty) + 1 < 2 ^ 28" using ids idx by simp
  have lfo: "needs_loc ty \<longrightarrow> lf \<noteq> NULL" using gd(2) by blast
  note c = create_replaces [OF E i2 t(2) ids2 nm lfo d2(1) name2 one2 key3 run]
  have "base_grows buf st2 st'"
    by (rule base_grows_si [OF inv2 c(7) _ c(1) c(11) [OF w2] c(2) c(10)]) (simp add: c(8))
  moreover have "key_made g buf ty nm lf xloc (gb_si st2) \<in> keys_tried g buf ty nm lf xloc (gb_si st')"
    unfolding keys_tried_same [OF kept_for_files [OF c(2)]] by (rule key_of_tried)
  then have "keys_tried g buf ty nm lf xloc (gb_si st') \<inter> spec_key (gb_si st') ty ` set_tree (si_by_spec (gb_si st') ty) \<noteq> {}"
    using imageI [OF c(3), of "spec_key (gb_si st') ty"] c(4) by (metis disjoint_iff)
  ultimately show ?thesis
    using base_grows_trans [OF b2] objs_same_trans [OF q(3) objs_same_eq [OF c(6)]] c(9) idx by simp
qed

lemma named_links:
  assumes E: "sizes_ok E" and inv: "base_inv buf st" and t: "named_type ty"
    and ids: "id_value (si_id_idx (gb_si st) ty) + 1 < 2 ^ 28" and nm: "length nm < NAME_MAX"
    and d: "gb_search buf ty nm lf (t_xloc g xloc) (gb_si st) = Some d"
    and one: "\<And>st2. d \<noteq> NULL \<Longrightarrow> gb_conflict E W u g obj ty d st = Some (TREE_NAME_CONFLICT_REPLACE, st2) \<Longrightarrow>
      \<not> (ty = TYPE_FUNC_STATIC \<and> sn_data (h_sn (gb_si st) d) \<noteq> NULL \<or> ty = TYPE_VAR_STATIC \<or> ty = TYPE_TYPE) \<Longrightarrow>
      alone (gb_si st) ty nm d"
    and run: "(if d \<noteq> NULL \<and> (ty = TYPE_FUNC_STATIC \<and> sn_data (h_sn (gb_si st) d) \<noteq> NULL \<or>
          ty = TYPE_VAR_STATIC \<or> ty = TYPE_TYPE) then Some st
        else if d \<noteq> NULL then do {
          (chk_val, st) \<leftarrow> gb_conflict E W u g obj ty d st;
          (if chk_val = TREE_NAME_CONFLICT_DROP then Some st
           else gb_create E g buf obj ty nm lf xloc SINODE_INSERT_BH_REPLACE st)
        }
        else gb_create E g buf obj ty nm lf xloc SINODE_INSERT_BH_NONE st) = Some st'"
  shows "base_grows buf st st'" "objs_same st st'"
    "\<And>t. id_value (si_id_idx (gb_si st') t) \<le> id_value (si_id_idx (gb_si st) t) + (if t = ty then 1 else 0)"
    "\<exists>d'. gb_search buf ty nm lf (t_xloc g xloc) (gb_si st') = Some d' \<and> d' \<noteq> NULL"
proof -
  have i: "sinode_inv (gb_si st)" and w: "weak_ok (gb_si st)" using inv by (auto simp: base_inv_def)
  have tc: "ty < TYPE_CODEP" "ty \<noteq> TYPE_FILE" using t by (auto simp: named_type_def)
  note gd = gb_search_guard [OF d]
  let ?tried = "\<lambda>st. keys_tried g buf ty nm lf xloc (gb_si st) \<inter>
      spec_key (gb_si st) ty ` set_tree (si_by_spec (gb_si st) ty)"
  have sv: "d \<noteq> NULL \<longleftrightarrow> ?tried st \<noteq> {}" "d \<noteq> NULL \<Longrightarrow> d \<in> set_tree (si_by_spec (gb_si st) ty)"
    using gb_search_value [OF i t gd, of buf g xloc] d by auto
  have all: "base_grows buf st st' \<and> objs_same st st' \<and>
      (\<forall>t. id_value (si_id_idx (gb_si st') t) \<le> id_value (si_id_idx (gb_si st) t) + (if t = ty then 1 else 0)) \<and>
      ?tried st' \<noteq> {}"
  proof (cases "d = NULL")
    case True
    then have cr: "gb_create E g buf obj ty nm lf xloc SINODE_INSERT_BH_NONE st = Some st'" using run by simp
    have key: "key_made g buf ty nm lf xloc (gb_si st) \<notin>
        spec_key (gb_si st) ty ` set_tree (si_by_spec (gb_si st) ty)"
      using sv(1) True key_of_tried [of g buf ty nm lf xloc "gb_si st"] by blast
    from E i tc ids nm gd(2) key cr show ?thesis
    proof (rule create_links)
      fix p
      assume c: "sinode_inv (gb_si st')" "kept (gb_si st) (gb_si st')" "p \<in> set_tree (si_by_spec (gb_si st') ty)"
        "spec_key (gb_si st') ty p = key_made g buf ty nm lf xloc (gb_si st)"
        "gb_obj st' = gb_obj st" "gb_stn st' = gb_stn st" "h_sb (gb_si st') = h_sb (gb_si st)"
        "\<And>u. id_value (si_id_idx (gb_si st') u) \<le> id_value (si_id_idx (gb_si st) u) + (if u = ty then 1 else 0)"
        "buf_cur (si_sbuf (gb_si st)) \<le> buf_cur (si_sbuf (gb_si st'))"
        "weak_ok (gb_si st) \<Longrightarrow> weak_ok (gb_si st')"
      have "base_grows buf st st'"
        by (rule base_grows_si [OF inv c(6) _ c(1) c(10) [OF w] kept_is_kept_for [OF c(2)] c(9)]) (simp add: c(7))
      moreover have "key_made g buf ty nm lf xloc (gb_si st) \<in> keys_tried g buf ty nm lf xloc (gb_si st')"
        unfolding keys_tried_same [OF kept_files [OF c(2)]] by (rule key_of_tried)
      then have "?tried st' \<noteq> {}"
        using imageI [OF c(3), of "spec_key (gb_si st') ty"] c(4) by (metis disjoint_iff)
      ultimately show ?thesis using c(8) objs_same_eq [OF c(5)] by blast
    qed
  next
    case False
    have quiet_case: ?thesis
      if q: "quiet (gb_si st) (gb_si st')" "gb_stn st' = gb_stn st" "objs_same st st'"
    proof -
      have g: "base_grows buf st st'" using base_grows_quiet [OF inv q(2,1)] .
      then have k: "kept_for buf (gb_si st) (gb_si st')" by (simp add: base_grows_def)
      have "?tried st' \<noteq> {}" by (rule keys_still_tried [OF k tc(1)]) (use sv(1) False in blast)
      then show ?thesis using g q(3) quiet_inv(2) [OF q(1) i] by simp
    qed
    show ?thesis
    proof (cases "ty = TYPE_FUNC_STATIC \<and> sn_data (h_sn (gb_si st) d) \<noteq> NULL \<or> ty = TYPE_VAR_STATIC \<or> ty = TYPE_TYPE")
      case True
      then have "st' = st" using run False by simp
      then show ?thesis by (intro quiet_case) (simp_all add: objs_same_eq)
    next
      case nk: False
      then obtain c st2 where cf: "gb_conflict E W u g obj ty d st = Some (c, st2)"
        using run False by (auto simp: bind_splits split: if_splits)
      have fl: "sn_weak_flag (h_sn (gb_si st) d) \<in> {0, - 1}"
        using w sv(2) [OF False] tc by (simp add: weak_ok_def)
      note cd = conflict_outcome [OF fl cf]
      show ?thesis
      proof (cases "c = TREE_NAME_CONFLICT_DROP")
        case True
        then have "st' = st2" using run nk False cf by (simp split: if_splits)
        then show ?thesis using quiet_case cd(2-4) by simp
      next
        case rep: False
        then have c: "c = TREE_NAME_CONFLICT_REPLACE" "by_name ty" using cd(1) by auto
        have "gb_create E g buf obj ty nm lf xloc SINODE_INSERT_BH_REPLACE st2 = Some st'"
          using run nk False cf rep by (simp split: if_splits)
        moreover have "alone (gb_si st) ty nm d" by (rule one [OF False _ nk]) (use cf c(1) in simp)
        ultimately show ?thesis
          using replaced_links [OF E inv t c(2) ids nm d False cd(2-4)] by simp
      qed
    qed
  qed
  have "sinode_inv (gb_si st')" using all by (simp add: base_grows_def base_inv_def)
  then show "\<exists>d'. gb_search buf ty nm lf (t_xloc g xloc) (gb_si st') = Some d' \<and> d' \<noteq> NULL"
    using gb_search_value [OF _ t gd, of "gb_si st'" buf g xloc] all by blast
  show "base_grows buf st st'" "objs_same st st'"
    "\<And>t. id_value (si_id_idx (gb_si st') t) \<le> id_value (si_id_idx (gb_si st) t) + (if t = ty then 1 else 0)"
    using all by blast+
qed

text \<open>
  The node an object replaces, with the state in which it is found, its type and its name; and
  that no replacement of a run meets a second node of the same type and name (with two, the walk
  of the insertion may stop at the other one, \<open>sinode_replace_wrong_resfile\<close>).
\<close>

definition record_replaces ::
    "env \<Rightarrow> world \<Rightarrow> nat \<Rightarrow> trees \<Rightarrow> addr \<Rightarrow> addr \<Rightarrow> nat \<Rightarrow> string \<Rightarrow> addr \<Rightarrow> gbs \<Rightarrow> (src \<times> nat \<times> string \<times> addr) option" where
  "record_replaces E W u g buf obj type name xloc st =
     do {
       (loc_file, s) \<leftarrow> gb_loc_file E g xloc (gb_si st);
       (type, name) \<leftarrow> gb_name_type g type name (fo_real_addr (gb_obj st obj)) loc_file xloc;
       sn_tmp \<leftarrow> (if type = TYPE_NONE then None else gb_search buf type name loc_file (t_xloc g xloc) s);
       (if sn_tmp = NULL \<or> type = TYPE_FUNC_STATIC \<and> sn_data (h_sn s sn_tmp) \<noteq> NULL \<or>
           type = TYPE_VAR_STATIC \<or> type = TYPE_TYPE
        then None
        else do {
          (chk_val, st2) \<leftarrow> gb_conflict E W u g obj type sn_tmp (set_si s st);
          (if chk_val = TREE_NAME_CONFLICT_REPLACE then Some (s, type, name, sn_tmp) else None)
        })
     }"

definition obj_replaces :: "env \<Rightarrow> world \<Rightarrow> nat \<Rightarrow> trees \<Rightarrow> addr \<Rightarrow> nat \<Rightarrow> gbs \<Rightarrow> (src \<times> nat \<times> string \<times> addr) option" where
  "obj_replaces E W u g buf i st =
     (let obj = obj_at g buf i st;
          st = upd_obj obj (\<lambda>ob. ob\<lparr>fo_is_dropped := False, fo_is_replaced := False\<rparr>) st
      in case gb_plan_of g (sb_payload (h_sb (gb_si st) buf)) (gb_obj st obj) of
           Some (Gb_base type name xloc) \<Rightarrow> record_replaces E W u g buf obj type name xloc st
         | _ \<Rightarrow> None)"

definition replaces_alone :: "(src \<times> nat \<times> string \<times> addr) option \<Rightarrow> bool" where
  "replaces_alone r = (case r of None \<Rightarrow> True | Some (s, type, name, d) \<Rightarrow> alone s type name d)"

fun run_alone :: "env \<Rightarrow> world \<Rightarrow> nat \<Rightarrow> trees \<Rightarrow> addr \<Rightarrow> nat list \<Rightarrow> gbs \<Rightarrow> bool" where
  "run_alone E W u g buf [] st = True"
| "run_alone E W u g buf (i # is) st =
     (replaces_alone (obj_replaces E W u g buf i st) \<and>
      (case get_base_obj E W u g buf i st of None \<Rightarrow> True | Some st \<Rightarrow> run_alone E W u g buf is st))"

definition file_alone :: "env \<Rightarrow> world \<Rightarrow> nat \<Rightarrow> trees \<Rightarrow> nat \<Rightarrow> addr \<Rightarrow> gbs \<Rightarrow> bool" where
  "file_alone E W u g real_obj_cnt buf st =
     (case sibuf_hold E W u buf (gb_si st) of
        None \<Rightarrow> True
      | Some (held, s) \<Rightarrow> run_alone E W u g buf [0..<real_obj_cnt] (set_si s st))"

text \<open>The part under the lock.\<close>

lemma record_found:
  assumes E: "sizes_ok E" "tree_ok E g" and inv: "base_inv buf st"
    and one: "replaces_alone (record_replaces E W u g buf obj type name xloc st)"
    and pt: "plan_type type" and nm: "length name < NAME_MAX"
    and ids: "\<forall>t < TYPE_MAX. id_value (si_id_idx (gb_si st) t) + 1 < 2 ^ 28"
    and run: "gb_record E W u g buf obj type name xloc st = Some st'"
  shows "base_step buf st st' 1" "base_found g buf type name xloc (fo_real_addr (gb_obj st obj)) st'"
proof -
  let ?node = "fo_real_addr (gb_obj st obj)"
  have i: "sinode_inv (gb_si st)" and w: "weak_ok (gb_si st)" using inv by (auto simp: base_inv_def)
  obtain lf s1 where l: "gb_loc_file E g xloc (gb_si st) = Some (lf, s1)"
    using run by (auto simp: gb_record_def Let_def bind_splits)
  obtain ty m where nt: "gb_name_type g type name ?node lf xloc = Some (ty, m)"
    using run l by (auto simp: gb_record_def Let_def bind_splits)
  have fk: "files_ok E g" using E(2) by (simp add: tree_ok_def)
  have ids0: "id_value (si_id_idx (gb_si st) TYPE_FILE) + 1 < 2 ^ 28" using ids by simp
  note lk = loc_file_links [OF E(1) fk i ids0 l]
  let ?st1 = "set_si s1 st"
  have g1: "base_grows buf st ?st1"
    by (rule base_grows_si [OF inv]) (use lk w kept_is_kept_for in simp_all)
  have inv1: "base_inv buf ?st1" using g1 by (simp add: base_grows_def)
  note v = name_type_value [OF nt pt nm]
  have fin: "base_step buf st st' 1 \<and> base_found g buf type name xloc ?node st'"
    if g2: "base_grows buf ?st1 st'" "objs_same st st'"
      and id2: "\<forall>t. id_value (si_id_idx (gb_si st') t) \<le> id_value (si_id_idx s1 t) + (if t = ty then 1 else 0)"
      and tyf: "ty \<noteq> TYPE_FILE"
      and f: "if ty = TYPE_NONE
        then sibuf_typenode_search (gb_stn st') (stn_root buf st') (t_num g ?node) ?node \<noteq> None
        else \<exists>d. gb_search buf ty m lf (t_xloc g xloc) (gb_si st') = Some d \<and> d \<noteq> NULL"
  proof -
    have k: "kept_for buf s1 (gb_si st')" "sinode_inv (gb_si st')"
      using g2(1) by (auto simp: base_grows_def base_inv_def)
    have lf: "loc_of g xloc (gb_si st') = lf"
    proof (cases "lf = NULL")
      case True
      then show ?thesis using lk(4) loc_of_file [of g xloc "gb_si st'"] by simp
    next
      case False
      then show ?thesis using loc_of_kept [OF lk(1) k(2,1), of g xloc] lk(3) by simp
    qed
    have "ids_grow st st' 1"
      unfolding ids_grow_def
    proof
      fix t
      have "id_value (si_id_idx s1 t) \<le> id_value (si_id_idx (gb_si st) t) + (if t = TYPE_FILE then 1 else 0)"
        by (rule lk(8))
      then show "id_value (si_id_idx (gb_si st') t) \<le> id_value (si_id_idx (gb_si st) t) + 1"
        using id2 [rule_format, of t] tyf by (auto split: if_splits)
    qed
    then have "base_step buf st st' 1"
      using base_grows_trans [OF g1 g2(1)] g2(2) by (simp add: base_step_def)
    moreover have "base_found g buf type name xloc ?node st'"
      using lf lk(4) nt f by (auto simp: base_found_def Let_def split: option.splits if_splits)
    ultimately show ?thesis by blast
  qed
  have "base_step buf st st' 1 \<and> base_found g buf type name xloc ?node st'"
  proof (cases "ty = TYPE_NONE")
    case True
    then have r: "gb_unnamed E g buf ?node ?st1 = Some st'"
      using run l nt by (simp add: gb_record_def)
    have "t_num g ?node < 2 ^ 16" using E(2) by (simp add: tree_ok_def)
    note un = unnamed_links [OF E(1) this inv1 r]
    show ?thesis
      by (rule fin) (use un True in \<open>simp_all add: objs_same_eq\<close>)
  next
    case False
    then have t: "named_type ty" using v(2) by simp
    then have tyf: "ty \<noteq> TYPE_FILE" and tm: "ty < TYPE_MAX" by (auto simp: named_type_def)
    obtain d where d: "gb_search buf ty m lf (t_xloc g xloc) (gb_si ?st1) = Some d"
      using run l nt False by (auto simp: gb_record_def Let_def bind_splits)
    have id1: "id_value (si_id_idx (gb_si ?st1) ty) + 1 < 2 ^ 28"
    proof -
      have "id_value (si_id_idx s1 ty) \<le> id_value (si_id_idx (gb_si st) ty)"
        using lk(8) [of ty] tyf by simp
      then show ?thesis using ids tm by (simp add: le_less_trans)
    qed
    have r: "(if d \<noteq> NULL \<and> (ty = TYPE_FUNC_STATIC \<and> sn_data (h_sn (gb_si ?st1) d) \<noteq> NULL \<or>
          ty = TYPE_VAR_STATIC \<or> ty = TYPE_TYPE) then Some ?st1
        else if d \<noteq> NULL then do {
          (chk_val, st) \<leftarrow> gb_conflict E W u g obj ty d ?st1;
          (if chk_val = TREE_NAME_CONFLICT_DROP then Some st
           else gb_create E g buf obj ty m lf xloc SINODE_INSERT_BH_REPLACE st)
        }
        else gb_create E g buf obj ty m lf xloc SINODE_INSERT_BH_NONE ?st1) = Some st'"
      using run l nt d False by (simp add: gb_record_def Let_def)
    have alone: "alone (gb_si ?st1) ty m d"
      if "d \<noteq> NULL" "gb_conflict E W u g obj ty d ?st1 = Some (TREE_NAME_CONFLICT_REPLACE, st2)"
        "\<not> (ty = TYPE_FUNC_STATIC \<and> sn_data (h_sn (gb_si ?st1) d) \<noteq> NULL \<or> ty = TYPE_VAR_STATIC \<or> ty = TYPE_TYPE)" for st2
    proof -
      have "record_replaces E W u g buf obj type name xloc st = Some (s1, ty, m, d)"
        using that l nt d False by (simp add: record_replaces_def)
      then show ?thesis using one by (simp add: replaces_alone_def)
    qed
    note nl = named_links [OF E(1) inv1 t id1 v(1) d alone r]
    have os: "objs_same st st'" using nl(2) by (simp add: objs_same_def)
    show ?thesis
      by (rule fin) (use nl tyf False os in simp_all)
  qed
  then show "base_step buf st st' 1" "base_found g buf type name xloc ?node st'" by blast+
qed

definition obj_found :: "trees \<Rightarrow> addr \<Rightarrow> file_obj \<Rightarrow> gbs \<Rightarrow> bool" where
  "obj_found g buf ob st \<longleftrightarrow>
     (case gb_plan_of g (sb_payload (h_sb (gb_si st) buf)) ob of
        None \<Rightarrow> False
      | Some (Gb_base type name xloc) \<Rightarrow> base_found g buf type name xloc (fo_real_addr ob) st
      | Some _ \<Rightarrow> True)"

lemma payload_kept: "kept_for buf s s' \<Longrightarrow> sb_payload (h_sb s' b) = sb_payload (h_sb s b)"
  by (simp add: kept_for_def same_files_def)

lemma obj_found_same: "same_obj a b \<Longrightarrow> obj_found g buf b st = obj_found g buf a st"
  unfolding obj_found_def by (simp only: plan_same same_obj_fields)

lemma obj_found_mono:
  assumes "base_grows buf st st'" "base_inv buf st" "obj_found g buf ob st"
  shows "obj_found g buf ob st'"
proof -
  have k: "kept_for buf (gb_si st) (gb_si st')" using assms(1) by (simp add: base_grows_def)
  show ?thesis
    using assms(3) base_found_mono [OF assms(1,2)] plan_base
    unfolding obj_found_def payload_kept [OF k]
    by (fastforce split: option.splits gb_plan.splits)
qed

lemma base_step_mono: "base_step buf st st' m \<Longrightarrow> m \<le> n \<Longrightarrow> base_step buf st st' n"
  unfolding base_step_def ids_grow_def by (meson add_left_mono le_trans)

lemma obj_step:
  assumes E: "sizes_ok E" "tree_ok E g" and inv: "base_inv buf st"
    and one: "replaces_alone (obj_replaces E W u g buf i st)"
    and ids: "\<forall>t < TYPE_MAX. id_value (si_id_idx (gb_si st) t) + 1 < 2 ^ 28"
    and run: "get_base_obj E W u g buf i st = Some st'"
  shows "base_step buf st st' 1" "obj_found g buf (gb_obj st (obj_at g buf i st)) st'"
proof -
  define obj where "obj = obj_at g buf i st"
  define st1 where "st1 = upd_obj obj (\<lambda>ob. ob\<lparr>fo_is_dropped := False, fo_is_replaced := False\<rparr>) st"
  have si1: "gb_si st1 = gb_si st" by (simp add: st1_def)
  have os1: "objs_same st st1" unfolding st1_def by (rule objs_same_upd) (rule same_obj_marks)
  have s1: "base_step buf st st1 0"
    by (rule base_step_quiet [OF inv _ _ os1]) (simp_all add: st1_def)
  have inv1: "base_inv buf st1" using s1 by (simp add: base_step_def base_grows_def)
  have so: "same_obj (gb_obj st obj) (gb_obj st1 obj)" using os1 by (simp add: objs_same_def)
  let ?pl = "sb_payload (h_sb (gb_si st) buf)"
  obtain plan where p: "gb_plan_of g ?pl (gb_obj st1 obj) = Some plan"
    using run si1 by (auto simp: get_base_obj_def Let_def bind_splits obj_def st1_def)
  have p0: "gb_plan_of g ?pl (gb_obj st obj) = Some plan" using p plan_same [OF so] by simp
  note run' = run [unfolded get_base_obj_def Let_def, folded obj_def, folded st1_def, unfolded si1 p, simplified]
  have pl': "sb_payload (h_sb (gb_si st') buf) = ?pl" if "base_step buf st st' n" for n
    using that payload_kept by (auto simp: base_step_def base_grows_def)
  have "base_step buf st st' 1 \<and> obj_found g buf (gb_obj st obj) st'"
  proof (cases plan)
    case (Gb_base type name xloc)
    note pb = plan_base [OF p [unfolded Gb_base]]
    have r: "gb_record E W u g buf obj type name xloc st1 = Some st'" using run' Gb_base by simp
    have id1: "\<forall>t < TYPE_MAX. id_value (si_id_idx (gb_si st1) t) + 1 < 2 ^ 28" using ids si1 by simp
    have one1: "replaces_alone (record_replaces E W u g buf obj type name xloc st1)"
      using one p Gb_base by (simp add: obj_replaces_def Let_def obj_def st1_def)
    note rf = record_found [OF E inv1 one1 pb id1 r]
    have "base_step buf st st' (0 + 1)" by (rule base_step_trans [OF s1 rf(1)])
    then have b: "base_step buf st st' 1" by simp
    then show ?thesis
      using rf(2) pl' [OF b] p0 Gb_base same_obj_fields(1) [OF so] by (simp add: obj_found_def)
  next
    case Gb_skip
    then have st': "st' = st1" using run' by simp
    have "base_step buf st st1 1" by (rule base_step_mono [OF s1]) simp
    then show ?thesis using p0 Gb_skip si1 by (simp add: st' obj_found_def)
  next
    case Gb_drop
    then have st': "st' = upd_obj obj (\<lambda>ob. ob\<lparr>fo_is_dropped := True\<rparr>) st1" using run' by simp
    have os2: "objs_same st1 st'" unfolding st' by (rule objs_same_upd) (rule same_obj_marks)
    have s2: "base_step buf st1 st' 0" by (rule base_step_quiet [OF inv1 _ _ os2]) (simp_all add: st')
    have "base_step buf st st' (0 + 0)" by (rule base_step_trans [OF s1 s2])
    then have "base_step buf st st' 1" by (rule base_step_mono) simp
    then show ?thesis using p0 Gb_drop si1 by (simp add: st' obj_found_def)
  qed
  then show "base_step buf st st' 1" "obj_found g buf (gb_obj st (obj_at g buf i st)) st'"
    unfolding obj_def by blast+
qed

lemma obj_at_kept: "kept_for buf (gb_si st) (gb_si st') \<Longrightarrow> obj_at g buf i st' = obj_at g buf i st"
  by (simp add: obj_at_def kept_for_def same_files_def)

lemma objs_found:
  assumes E: "sizes_ok E" "tree_ok E g" and inv: "base_inv buf st"
    and one: "run_alone E W u g buf is st"
    and ids: "\<forall>t < TYPE_MAX. id_value (si_id_idx (gb_si st) t) + length is < 2 ^ 28"
    and run: "get_base_objs E W u g buf is st = Some st'"
  shows "base_step buf st st' (length is) \<and> (\<forall>i \<in> set is. obj_found g buf (gb_obj st (obj_at g buf i st)) st')"
  using inv one ids run
proof (induction "is" arbitrary: st)
  case Nil
  then have "st' = st" by simp
  then show ?case using Nil.prems(1) base_grows_refl
    by (simp add: base_step_def objs_same_eq ids_grow_def)
next
  case (Cons i "is")
  obtain st2 where st2: "get_base_obj E W u g buf i st = Some st2" "get_base_objs E W u g buf is st2 = Some st'"
    using Cons.prems(4) by (auto simp: bind_splits)
  have one1: "replaces_alone (obj_replaces E W u g buf i st)" and one2: "run_alone E W u g buf is st2"
    using Cons.prems(2) st2(1) by simp_all
  have id1: "\<forall>t < TYPE_MAX. id_value (si_id_idx (gb_si st) t) + 1 < 2 ^ 28"
  proof (intro allI impI)
    fix t assume "t < TYPE_MAX"
    then have "id_value (si_id_idx (gb_si st) t) + length (i # is) < 2 ^ 28" using Cons.prems(3) by blast
    then show "id_value (si_id_idx (gb_si st) t) + 1 < 2 ^ 28" by simp
  qed
  note s = obj_step [OF E Cons.prems(1) one1 id1 st2(1)]
  have g: "base_grows buf st st2" and inv2: "base_inv buf st2" and k: "kept_for buf (gb_si st) (gb_si st2)"
    and os: "objs_same st st2" and ig: "ids_grow st st2 1"
    using s(1) by (auto simp: base_step_def base_grows_def)
  have id2: "\<forall>t < TYPE_MAX. id_value (si_id_idx (gb_si st2) t) + length is < 2 ^ 28"
  proof (intro allI impI)
    fix t assume "t < TYPE_MAX"
    then have "id_value (si_id_idx (gb_si st) t) + length (i # is) < 2 ^ 28" using Cons.prems(3) by blast
    moreover have "id_value (si_id_idx (gb_si st2) t) \<le> id_value (si_id_idx (gb_si st) t) + 1"
      using ig by (simp add: ids_grow_def)
    ultimately show "id_value (si_id_idx (gb_si st2) t) + length is < 2 ^ 28" by simp
  qed
  note IH = Cons.IH [OF inv2 one2 id2 st2(2)]
  have b: "base_step buf st st' (length (i # is))"
    using base_step_trans [OF s(1) conjunct1 [OF IH]] by simp
  have g2: "base_grows buf st2 st'" using IH by (simp add: base_step_def)
  have "obj_found g buf (gb_obj st (obj_at g buf j st)) st'" if "j \<in> set is" for j
  proof -
    have "obj_found g buf (gb_obj st2 (obj_at g buf j st)) st'"
      using IH that by (simp add: obj_at_kept [OF k])
    moreover have "same_obj (gb_obj st (obj_at g buf j st)) (gb_obj st2 (obj_at g buf j st))"
      using os by (simp add: objs_same_def)
    ultimately show ?thesis using obj_found_same by blast
  qed
  then show ?case using b obj_found_mono [OF g2 inv2 s(2)] by simp
qed

text \<open>
  C5. Phase 2 of a file in which no replacement meets a second node of its type and name:
  afterwards every object that is recorded at all, as a named type, function or variable or as a
  type without a name, is found by the search the later phases make for it. Every sinode linked
  before is still linked under its id and its name; it has its old fields and key unless a
  stronger declaration of this file took it over, and then it belongs to this file and its key is
  the old one or, when it was a builtin, that of the resfile of the file. The invariants of the
  indexes and of the tree of unnamed types hold. So no insertion met a duplicate, in whatever
  order declarations repeat.
\<close>

theorem get_base_resolves:
  assumes "sizes_ok E" "tree_ok E g" "base_inv buf st" "file_alone E W u g cnt buf st"
    and "\<forall>t < TYPE_MAX. id_value (si_id_idx (gb_si st) t) + cnt < 2 ^ 28"
    and "do_get_base E W u g cnt buf st = Some st'"
  shows "base_inv buf st' \<and> kept_for buf (gb_si st) (gb_si st') \<and>
    (\<forall>i < cnt. obj_found g buf (gb_obj st (obj_at g buf i st)) st')"
proof -
  obtain held s st2 where h: "sibuf_hold E W u buf (gb_si st) = Some (held, s)"
    and r: "get_base_objs E W u g buf [0..<cnt] (set_si s st) = Some st2"
    and st': "st' = set_si (drop_if held u buf (gb_si st2)) st2"
    using assms(6) by (auto simp: do_get_base_def bind_splits)
  let ?st1 = "set_si s st"
  have s1: "base_step buf st ?st1 0"
    by (rule base_step_quiet [OF assms(3)]) (use quiet_hold [OF h] in \<open>simp_all add: objs_same_eq\<close>)
  have i1: "base_inv buf ?st1" and k1: "kept_for buf (gb_si st) (gb_si ?st1)"
    using s1 by (auto simp: base_step_def base_grows_def)
  have "sinode_inv (gb_si st)" using assms(3) by (simp add: base_inv_def)
  from quiet_inv(2) [OF quiet_hold [OF h] this]
  have ids: "\<forall>t < TYPE_MAX. id_value (si_id_idx (gb_si ?st1) t) + length [0..<cnt] < 2 ^ 28"
    using assms(5) by simp
  have one: "run_alone E W u g buf [0..<cnt] ?st1" using assms(4) h by (simp add: file_alone_def)
  note f = objs_found [OF assms(1,2) i1 one ids r]
  have i2: "base_inv buf st2" using f by (simp add: base_step_def base_grows_def)
  have s3: "base_step buf st2 st' 0"
    by (rule base_step_quiet [OF i2]) (simp_all add: st' objs_same_eq)
  then have g3: "base_grows buf st2 st'" by (simp add: base_step_def)
  have "base_grows buf st st'"
    using base_grows_trans [OF base_grows_trans [of buf st ?st1 st2] g3] s1 f by (simp add: base_step_def)
  moreover have "obj_found g buf (gb_obj st (obj_at g buf i st)) st'" if "i < cnt" for i
    using f that obj_found_mono [OF g3 i2] by (simp add: obj_at_kept [OF k1, simplified])
  ultimately show ?thesis by (simp add: base_grows_def)
qed

subsection \<open>Replacing a function without a body\<close>

lemma func_payload_len:
  assumes "gb_payload E g TYPE_FUNC_GLOBAL p node st = Some st'"
  shows "sn_datalen (h_sn (gb_si st') p) =
    (if has_cfg g node then csize E SzFuncNode else sn_datalen (h_sn (gb_si st) p))"
  using assms
  by (auto simp: gb_payload_def Let_def bind_splits set_payload_def upd_sn_def split: if_splits)

text \<open>
  C39. When a global function is to replace the one of its name, and one of the two has a body
  and the other has not, the program aborts: the insertion demands payloads of equal length,
  and a function without a body has none. So the rule of \<open>func_conflict\<close> that prefers a
  definition to a declaration never succeeds for global functions.
\<close>

theorem body_replacement_aborts:
  assumes "sizes_ok E" "sinode_inv (gb_si st)" "length name < NAME_MAX"
    and "id_value (si_id_idx (gb_si st) TYPE_FUNC_GLOBAL) + 1 < 2 ^ 28"
    and "rb_find (cmp_file (gb_si st) name) (si_by_spec (gb_si st) TYPE_FUNC_GLOBAL) = Some d"
    and "sn_datalen (h_sn (gb_si st) d) \<noteq>
      (if has_cfg g (fo_real_addr (gb_obj st obj)) then csize E SzFuncNode else 0)"
  shows "gb_create E g buf obj TYPE_FUNC_GLOBAL name lf xloc SINODE_INSERT_BH_REPLACE st = None"
proof (rule ccontr)
  let ?t = TYPE_FUNC_GLOBAL and ?s = "gb_si st" and ?node = "fo_real_addr (gb_obj st obj)"
  assume "gb_create E g buf obj ?t name lf xloc SINODE_INSERT_BH_REPLACE st \<noteq> None"
  then obtain p s1 st2 r s4 where n: "sinode_new E ?t (Some name) None ?s = Some (p, s1)"
    and pay: "gb_payload E g ?t p ?node (set_si (upd_sn p (gb_fill g buf obj lf xloc) s1) st) = Some st2"
    and ins: "sinode_insert E p SINODE_INSERT_BH_REPLACE (upd_sn p (gb_weak g ?t ?node) (gb_si st2)) = Some (r, s4)"
    by (auto simp: gb_create_def Let_def bind_splits)
  have tm: "?t < TYPE_MAX" by simp
  have ok: "new_ok E ?t (Some name) None ?s" by (rule new_ok_name [OF assms(1,2) tm assms(4,3)])
  note sp = sinode_new_spec [OF ok n]
  let ?s1 = "upd_sn p (gb_fill g buf obj lf xloc) s1"
  have f1: "filled p s1 ?s1" by (rule filled_upd) (simp add: gb_fill_def Let_def)
  have i1: "sinode_inv ?s1" by (rule upd_sn_inv [OF sp(1)]) (use sp(2) in \<open>simp add: fresh_node_def\<close>)
  have fr1: "fresh_node ?s1 ?t p" by (rule extends_at_fresh [OF filled_extends [OF f1] sp(2) tm])
  obtain dd l where p2: "sinode_inv (gb_si st2)" "filled p ?s1 (gb_si st2)"
    "h_sn (gb_si st2) p = (h_sn ?s1 p)\<lparr>sn_data := dd, sn_datalen := l\<rparr>"
    by (rule payload_spec [OF assms(1) _ _ tm pay, unfolded gb_frames, OF i1 fr1])
  let ?s3 = "upd_sn p (gb_weak g ?t ?node) (gb_si st2)"
  have f3: "filled p s1 ?s3"
    by (rule filled_trans [OF filled_trans [OF f1 p2(2)]], rule filled_upd) (simp add: gb_weak_def)
  have nm: "sn_name (h_sn ?s3 p) = sn_name (h_sn s1 p)"
    using p2(3) by (simp add: upd_sn_def gb_weak_def gb_fill_def Let_def)
  note nf = new_filled [OF ok n f3 nm]
  have dl0: "sn_datalen (h_sn s1 p) = 0" by (rule sinode_new_frame [OF ok n]) simp
  have "sn_datalen (h_sn (gb_si st2) p) = (if has_cfg g ?node then csize E SzFuncNode else 0)"
    using func_payload_len [OF pay] dl0 by (simp add: upd_sn_def gb_fill_def Let_def)
  then have dl: "sn_datalen (h_sn ?s3 p) = (if has_cfg g ?node then csize E SzFuncNode else 0)"
    by (simp add: upd_sn_def gb_weak_def)
  have din: "d \<in> set_tree (si_by_spec ?s ?t)" using rb_find_in [OF assms(5)] by blast
  have dne: "d \<noteq> p" by (rule linked_ne(1) [OF assms(2) sp(3) tm din])
  have hd: "h_sn ?s3 d = h_sn ?s d" by (rule kept_linked [OF nf(1) _ din]) simp
  have str: "sn_str ?s3 e = sn_str ?s e" if "e \<in> set_tree (si_by_spec ?s ?t)" for e
    using nf(7) [OF tm that] spec_key_name by metis
  have "rb_find (cmp_file ?s3 (sn_str ?s3 p)) (si_by_spec ?s3 ?t) = Some d"
    using assms(5) rb_find_cong [of "si_by_spec ?s ?t" "cmp_file ?s3 name" "cmp_file ?s name"] str nf(2,4)
    by (simp add: cmp_file_def)
  moreover have "sinode_idtype ?s3 p = ?t"
    using nf(6) by (simp add: fresh_node_def node_ok_def sinode_idtype_def siid_type_def)
  moreover have "sn_datalen (h_sn ?s3 p) \<noteq> sn_datalen (h_sn ?s3 d)" using dl hd assms(6) by simp
  ultimately have "sinode_insert E p SINODE_INSERT_BH_REPLACE ?s3 = None"
    by (simp add: sinode_insert_def sinode_insert_spec_def sinode_insert_name_resfile_def)
  then show False using ins by simp
qed

subsection \<open>A file\<close>

text \<open>
  A sibuf of two objects, held by thread 7: the global variable \<open>x\<close> of the file \<open>a.c\<close> and a
  type without a name.
\<close>

definition trees0 :: trees where
  "trees0 = \<lparr>g_off = (\<lambda>_. 0), g_size = (\<lambda>_. 64),
     g_get = (\<lambda>m a. if m = ''DECL_STRUCT_FUNCTION'' then 1
       else if m = ''DECL_NAME'' \<and> a = 100 then 300
       else if m = ''TREE_PUBLIC'' \<and> a = 100 then 1
       else if m = ''function.cfg'' then 1 else 0),
     g_code = (\<lambda>a. if a = 100 then VAR_DECL else if a = 300 then IDENTIFIER_NODE else Other_code 0),
     g_class = (\<lambda>_. tcc_declaration), g_gimple_code = (\<lambda>_. GIMPLE_NOP), g_ntv = (\<lambda>_. NTV_NONE),
     g_token_fld = (\<lambda>_. CPP_TOKEN_FLD_PRAGMA), g_macro_kind = (\<lambda>_. cmk_macro), g_version = 8,
     g_collect_more = False, g_free_ssanames = False,
     t_type_code = (\<lambda>a. if a = 200 then INTEGER_TYPE else No_type), t_num = (\<lambda>a. if a = 200 then 9 else 34),
     t_ident = (\<lambda>_. ''x''), t_xloc = (\<lambda>_. \<lparr>xl_file = None, xl_line = 3, xl_col = 5\<rparr>),
     t_vec = (\<lambda>_. []), t_num_of = (\<lambda>_. 34)\<rparr>"

definition gb_ob0 :: "addr \<Rightarrow> file_obj" where
  "gb_ob0 a = \<lparr>fo_fake_addr = 0, fo_real_addr = (if a = 5000 then 100 else 200), fo_size = 8, fo_offs = 0,
     fo_gcc_global_varidx = 0, fo_is_function = False, fo_is_global_var = (a = 5000), fo_is_type = (a = 5064),
     fo_is_adjusted = True, fo_is_dropped = False, fo_is_replaced = False\<rparr>"

definition gb_src0 :: src where
  "gb_src0 = rw_state\<lparr>h_sb := (\<lambda>b. (h_sb rw_state b)\<lparr>sb_objs := 5000, sb_payload := 7000\<rparr>),
     h_sn := (\<lambda>_. sinode_zero\<lparr>sn_buf := 20, sn_weak_flag := - 1\<rparr>)\<rparr>"

definition gbs0 :: gbs where
  "gbs0 = \<lparr>gb_cg = cg_ex\<lparr>cg_si := gb_src0\<rparr>, gb_obj = gb_ob0, gb_stn = (\<lambda>_. stn_zero)\<rparr>"

lemma trees0_ok: "sizes_ok env0" "tree_ok env0 trees0"
proof -
  show "sizes_ok env0" using env0_ok by (simp add: sizes_ok_def len_ok_def src_buf_consts)
  show "tree_ok env0 trees0"
    by (auto simp: tree_ok_def files_ok_def trees0_def namelen_ok_def len_ok_def src_buf_consts)
qed

lemma upd_sb_id: "f (h_sb s b) = h_sb s b \<Longrightarrow> upd_sb b f s = s"
  by (simp add: upd_sb_def)

lemma hold_again:
  assumes "sb_need_unload (h_sb s b)" "rf_fd (h_rf s (sb_rf (h_sb s b))) \<noteq> - 1" "u \<in> set (sb_users (h_sb s b))"
  shows "sibuf_hold E W u b s = Some (1, s)"
proof -
  have i: "upd_sb b (\<lambda>n. n\<lparr>sb_need_unload := True\<rparr>) s = s" by (rule upd_sb_id) (simp add: assms(1))
  obtain v where "sibuf_find_user (h_sb s b) u = Some v" using assms(3) find_user_iff by blast
  then show ?thesis
    using assms(1,2) i
    by (simp add: sibuf_hold_def resfile_load_def load_enter_def resfile_open_def fill_buf_def sibuf_add_user_def)
qed

lemma fmt_again:
  assumes "sb_need_unload (h_sb s b)" "rf_fd (h_rf s (sb_rf (h_sb s b))) \<noteq> - 1" "u \<in> set (sb_users (h_sb s b))"
  shows "si_data_fmt_of E W u b s = Some (data_fmt W s b, s)"
  using hold_again [OF assms] assms(1)
  by (simp add: si_data_fmt_of_def fc_read_def is_loaded_def drop_if_def data_fmt_def)

lemma gb_src0_sn: "h_sn gb_src0 a = sinode_zero\<lparr>sn_buf := 20, sn_weak_flag := - 1\<rparr>"
  by (simp add: gb_src0_def)

lemma src0_again:
  "sibuf_hold E W 7 20 gb_src0 = Some (1, gb_src0)"
  "si_data_fmt_of E W 7 20 gb_src0 = Some (data_fmt W gb_src0 20, gb_src0)"
  by (rule hold_again fmt_again; simp add: gb_src0_def rw_state_def rw_sibuf_def resfile_zero_def)+

lemmas insert_eval = sinode_insert_def sinode_insert_by_id_def sinode_insert_spec_def sinode_insert_file_def
      sinode_insert_name_resfile_def set_by_id_def set_by_spec_def sinode_idtype_def siid_type_def

text \<open>
  The file of thread 7 declares the variable \<open>x\<close> with a weak flag of 0; a linked node of the name
  belongs to an older declaration, which is weak, so the new one takes it over.
\<close>

definition rp_trees :: trees where
  "rp_trees = trees0\<lparr>g_get := (\<lambda>m a. if m = ''tree_decl_with_vis.weak_flag'' \<and> a = 200 then 1 else g_get trees0 m a)\<rparr>"

definition rp_world :: world where
  "rp_world = (rw_world 2)\<lparr>wd_fc := (\<lambda>n a. (wd_fc (rw_world 2) n a)\<lparr>fc_type := \<lparr>ty_binary = 1, ty_kernel = 1, ty_os = 0, ty_fmt = 1\<rparr>\<rparr>)\<rparr>"

definition rp_src :: src where
  "rp_src = gb_src0\<lparr>si_sbuf := src_buf0\<lparr>buf_cur := 4294967432, src_modified := True\<rparr>,
     si_id_idx := (\<lambda>_. 0)(4 := 1073741825), si_names_root := Node Leaf 4294967360 Leaf,
     h_name := (\<lambda>_. [])(4294967360 := ''x''),
     si_by_id := (\<lambda>_. Leaf)(4 := Node Leaf 4294967296 Leaf),
     si_by_spec := (\<lambda>_. Leaf)(4 := Node Leaf 4294967296 Leaf),
     h_sn := (\<lambda>_. sinode_zero)(4294967296 := sinode_zero\<lparr>sn_id := 1073741824, sn_name := 4294967360,
       sn_namelen := 2, sn_buf := 20, sn_obj := 6000, sn_data := 999, sn_datalen := 64, sn_weak_flag := - 1\<rparr>)\<rparr>"

definition rp_state :: gbs where
  "rp_state = gbs0\<lparr>gb_cg := cg_ex\<lparr>cg_si := rp_src\<rparr>\<rparr>"

lemma rp_si: "gb_si rp_state = rp_src"
  by (simp add: rp_state_def gb_si_def)

lemma rp_inv: "base_inv 20 rp_state"
proof -
  have "src_buf_inv (si_sbuf rp_src)"
    by (simp add: rp_src_def src_buf_inv_def src_buf0_def src_buf_consts)
  moreover have "rb_sorted (name_key rp_src) (si_names_root rp_src)"
    by (simp add: rp_src_def rb_sorted_Node)
  ultimately have "names_inv rp_src" by (simp add: names_inv_def rp_src_def)
  moreover have "type_inv rp_src 4"
    by (simp add: type_inv_def rp_src_def rb_sorted_Node node_ok_def name_ok_def id_type_def ID_VALUE_BITS_def
        mk_siid_def ID_TYPE_BITS_def sinode_zero_def)
  moreover have "type_inv rp_src t" if "t \<noteq> 4" for t using that by (simp add: type_inv_def rp_src_def)
  moreover have "idx_ready t (si_id_idx rp_src t)" for t
    by (simp add: rp_src_def idx_ready_def id_type_def ID_VALUE_BITS_def)
  ultimately have "sinode_inv rp_src" unfolding sinode_inv_def by metis
  moreover have "weak_ok rp_src" by (simp add: weak_ok_def rp_src_def)
  moreover have "stn_root 20 rp_state = Leaf"
    by (simp add: stn_root_def rp_si) (simp add: rp_src_def gb_src0_def rw_state_def rw_sibuf_def sibuf_zero_def)
  ultimately show ?thesis by (simp add: base_inv_def rp_si stn_inv_def stn_members_def)
qed

lemma rp_again:
  "sibuf_hold env0 rp_world 7 20 rp_src = Some (1, rp_src)"
  "si_data_fmt_of env0 rp_world 7 20 rp_src = Some (SI_TYPE_DF_GIMPLE, rp_src)"
proof -
  show "sibuf_hold env0 rp_world 7 20 rp_src = Some (1, rp_src)"
    by (rule hold_again; simp add: rp_src_def gb_src0_def rw_state_def rw_sibuf_def resfile_zero_def)
  have "si_data_fmt_of env0 rp_world 7 20 rp_src = Some (data_fmt rp_world rp_src 20, rp_src)"
    by (rule fmt_again; simp add: rp_src_def gb_src0_def rw_state_def rw_sibuf_def resfile_zero_def)
  then show "si_data_fmt_of env0 rp_world 7 20 rp_src = Some (SI_TYPE_DF_GIMPLE, rp_src)"
    by (simp add: data_fmt_def rp_world_def)
qed

lemma rp_old: "h_sn rp_src 4294967296 = sinode_zero\<lparr>sn_id := 1073741824, sn_name := 4294967360,
       sn_namelen := 2, sn_buf := 20, sn_obj := 6000, sn_data := 999, sn_datalen := 64, sn_weak_flag := - 1\<rparr>"
  "sn_buf (h_sn rp_src 4294967296) = 20" "sn_obj (h_sn rp_src 4294967296) = 6000"
  by (simp_all add: rp_src_def)

definition rp_st1 :: gbs where
  "rp_st1 = upd_obj 5000 (\<lambda>ob. ob\<lparr>fo_is_dropped := False, fo_is_replaced := False\<rparr>) rp_state"

definition rp_st2 :: gbs where
  "rp_st2 = upd_obj 6000 (\<lambda>ob. ob\<lparr>fo_is_replaced := True\<rparr>) rp_st1"

lemma rp_st_si: "gb_si rp_st1 = rp_src" "gb_si rp_st2 = rp_src" "set_si rp_src rp_st1 = rp_st1" "set_si rp_src rp_state = rp_state"
  "set_si rp_src rp_st2 = rp_st2"
  by (simp_all add: rp_st1_def rp_st2_def rp_si) (simp_all add: rp_state_def set_si_def upd_obj_def)

lemma rp_objs: "gb_obj rp_st1 5000 = gb_ob0 5000" "gb_obj rp_st1 6000 = gb_ob0 6000" "gb_obj rp_st2 5000 = gb_ob0 5000"
  "fo_real_addr (gb_ob0 5000) = 100" "fo_real_addr (gb_ob0 6000) = 200"
  by (simp_all add: rp_st1_def rp_st2_def rp_state_def gbs0_def gb_ob0_def)

lemma rp_conflict:
  "gb_conflict env0 rp_world 7 rp_trees 5000 TYPE_VAR_GLOBAL 4294967296 rp_st1 = Some (TREE_NAME_CONFLICT_REPLACE, rp_st2)"
proof -
  have "check_conflict env0 rp_world 7 rp_trees (gb_obj rp_st1) TYPE_VAR_GLOBAL 100 4294967296 rp_src =
      Some (TREE_NAME_CONFLICT_REPLACE, rp_src)"
    by (simp add: check_conflict_def var_conflict_def rp_old rp_again rp_objs)
       (simp add: rp_trees_def trees0_def decl_weak_def)
  then show ?thesis
    by (simp add: gb_conflict_def rp_st_si rp_old rp_again rp_objs drop_if_def) (simp add: rp_st2_def)
qed

lemma rp_plan: "gb_plan_of rp_trees 7000 (gb_ob0 5000) = Some (Gb_base TYPE_VAR_GLOBAL ''x'' 7000)"
  by (simp add: gb_plan_of_def gb_ob0_def rp_trees_def trees0_def check_file_type_def check_file_var_def
    get_location_def get_type_name_def get_var_name_def get_node_name_def NAME_MAX_def)

lemma rp_search:
  "gb_loc_file env0 rp_trees 7000 rp_src = Some (NULL, rp_src)"
  "gb_search 20 TYPE_VAR_GLOBAL ''x'' NULL xl rp_src = Some 4294967296"
proof -
  show "gb_loc_file env0 rp_trees 7000 rp_src = Some (NULL, rp_src)"
    by (simp add: gb_loc_file_def rp_trees_def trees0_def)
  show "gb_search 20 TYPE_VAR_GLOBAL ''x'' NULL xl rp_src = Some 4294967296"
    by (simp add: gb_search_def sinode_search_name_resfile_def rp_src_def cmp_name_rf_def sn_str_def sn_rf_def)
qed

lemma rp_new:
  "\<exists>s1. sinode_new env0 TYPE_VAR_GLOBAL (Some ''x'') None rp_src = Some (4294967432, s1) \<and>
     sinode_idtype s1 4294967432 = TYPE_VAR_GLOBAL \<and> h_sn s1 4294967432 = sinode_zero\<lparr>sn_id := 1073741825, sn_name := 4294967360, sn_namelen := 2\<rparr> \<and>
     h_name s1 = h_name rp_src \<and>
     si_by_spec s1 = si_by_spec rp_src \<and> h_sb s1 = h_sb rp_src \<and> h_sn s1 4294967296 = h_sn rp_src 4294967296 \<and>
     si_sbuf s1 = src_buf0\<lparr>buf_cur := 4294967496, src_modified := True\<rparr>"
  by (simp add: ex_simps rp_src_def sinode_idtype_def siid_type_def name_cmp_def strncmp_def)

lemma get_later: "cur < 4294971000 \<Longrightarrow> cur mod 8 = 0 \<Longrightarrow> 4294967296 \<le> cur \<Longrightarrow>
   src_buf_get env0 64 (src_buf0\<lparr>buf_cur := cur, src_modified := True\<rparr>) =
    Some (cur, src_buf0\<lparr>buf_cur := cur + 64, src_modified := True\<rparr>)"
  by (simp add: src_buf_get_def src_buf0_def src_buf_consts wrap64_def) presburger

lemma rp_payload:
  assumes "si_sbuf (gb_si st) = src_buf0\<lparr>buf_cur := 4294967496, src_modified := True\<rparr>"
  shows "\<exists>st2. gb_payload env0 rp_trees TYPE_VAR_GLOBAL p 100 st = Some st2 \<and>
      gb_si st2 = upd_sn p (\<lambda>n. n\<lparr>sn_data := 4294967496, sn_datalen := 64\<rparr>)
        ((gb_si st)\<lparr>si_sbuf := src_buf0\<lparr>buf_cur := 4294967560, src_modified := True\<rparr>\<rparr>)"
  using assms
  by (simp add: gb_payload_def Let_def var_node_new_def si_buf_get_def gb_si_def set_si_def get_later
      set_payload_def upd_vn_def)

lemma rp_insert:
  assumes "sinode_idtype s p = TYPE_VAR_GLOBAL" "sn_name (h_sn s p) \<noteq> NULL" "sn_datalen (h_sn s p) = 64"
    and "sn_str s p = ''x''" "sn_str s d = ''x''" "sn_datalen (h_sn s d) = 64"
    and "si_by_spec s = (\<lambda>_. Leaf)(4 := Node Leaf d Leaf)"
  shows "\<exists>s'. sinode_insert env0 p SINODE_INSERT_BH_REPLACE s = Some (0, s')"
  using assms by (simp add: insert_eval cmp_file_def)

lemma rp_create:
  "\<exists>st'. gb_create env0 rp_trees 20 5000 TYPE_VAR_GLOBAL ''x'' NULL 7000 SINODE_INSERT_BH_REPLACE rp_st2 = Some st'"
proof -
  let ?p = "4294967432 :: addr" and ?d = "4294967296 :: addr"
  obtain s1 where n: "sinode_new env0 TYPE_VAR_GLOBAL (Some ''x'') None rp_src = Some (?p, s1)"
    and s1: "sinode_idtype s1 ?p = TYPE_VAR_GLOBAL"
      "h_sn s1 ?p = sinode_zero\<lparr>sn_id := 1073741825, sn_name := 4294967360, sn_namelen := 2\<rparr>"
      "h_name s1 = h_name rp_src" "si_by_spec s1 = si_by_spec rp_src" "h_sb s1 = h_sb rp_src"
      "h_sn s1 ?d = h_sn rp_src ?d" "si_sbuf s1 = src_buf0\<lparr>buf_cur := 4294967496, src_modified := True\<rparr>"
    using rp_new by blast
  let ?st = "set_si (upd_sn ?p (gb_fill rp_trees 20 5000 NULL 7000) s1) rp_st2"
  have "si_sbuf (gb_si ?st) = src_buf0\<lparr>buf_cur := 4294967496, src_modified := True\<rparr>" by (simp add: upd_sn_def s1(7))
  then obtain st3 where y: "gb_payload env0 rp_trees TYPE_VAR_GLOBAL ?p 100 ?st = Some st3"
    "gb_si st3 = upd_sn ?p (\<lambda>n. n\<lparr>sn_data := 4294967496, sn_datalen := 64\<rparr>)
        ((gb_si ?st)\<lparr>si_sbuf := src_buf0\<lparr>buf_cur := 4294967560, src_modified := True\<rparr>\<rparr>)"
    using rp_payload by blast
  let ?s = "upd_sn ?p (gb_weak rp_trees TYPE_VAR_GLOBAL 100) (gb_si st3)"
  have h: "h_sn ?s ?p = gb_weak rp_trees TYPE_VAR_GLOBAL 100
      ((gb_fill rp_trees 20 5000 NULL 7000 (h_sn s1 ?p))\<lparr>sn_data := 4294967496, sn_datalen := 64\<rparr>)"
    "h_sn ?s ?d = h_sn rp_src ?d"
    by (simp_all add: y(2) upd_sn_def s1(6))
  have f: "h_name ?s = h_name rp_src" "si_by_spec ?s = (\<lambda>_. Leaf)(4 := Node Leaf ?d Leaf)"
    by (simp_all add: y(2) upd_sn_def s1) (simp add: rp_src_def)
  have "\<exists>s'. sinode_insert env0 ?p SINODE_INSERT_BH_REPLACE ?s = Some (0, s')"
  proof (rule rp_insert)
    show "si_by_spec ?s = (\<lambda>_. Leaf)(4 := Node Leaf ?d Leaf)" by (rule f(2))
    show "sinode_idtype ?s ?p = TYPE_VAR_GLOBAL"
      using s1(1) by (simp add: sinode_idtype_def h gb_weak_def gb_fill_def)
    show "sn_name (h_sn ?s ?p) \<noteq> NULL" "sn_datalen (h_sn ?s ?p) = 64" "sn_str ?s ?p = ''x''"
      by (simp_all add: sn_str_def h f s1(2) gb_weak_def gb_fill_def) (simp_all add: rp_src_def)
    show "sn_datalen (h_sn ?s ?d) = 64" "sn_str ?s ?d = ''x''"
      by (simp_all add: sn_str_def h f rp_old) (simp add: rp_src_def)
  qed
  then show ?thesis
    using n y(1) by (auto simp: gb_create_def Let_def rp_objs rp_st_si)
qed

lemma rp_at: "obj_at rp_trees 20 0 rp_state = 5000" "sb_payload (h_sb rp_src 20) = 7000"
  by (simp_all add: obj_at_def rp_si) (simp_all add: rp_src_def gb_src0_def)

lemma rp_record:
  "record_replaces env0 rp_world 7 rp_trees 20 5000 TYPE_VAR_GLOBAL ''x'' 7000 rp_st1 =
     Some (rp_src, TYPE_VAR_GLOBAL, ''x'', 4294967296)"
  "\<exists>st'. gb_record env0 rp_world 7 rp_trees 20 5000 TYPE_VAR_GLOBAL ''x'' 7000 rp_st1 = Some st'"
proof -
  show "record_replaces env0 rp_world 7 rp_trees 20 5000 TYPE_VAR_GLOBAL ''x'' 7000 rp_st1 =
     Some (rp_src, TYPE_VAR_GLOBAL, ''x'', 4294967296)"
    by (simp add: record_replaces_def rp_st_si rp_search gb_name_type_def rp_conflict)
  show "\<exists>st'. gb_record env0 rp_world 7 rp_trees 20 5000 TYPE_VAR_GLOBAL ''x'' 7000 rp_st1 = Some st'"
    using rp_create by (simp add: gb_record_def rp_st_si rp_search gb_name_type_def rp_conflict)
qed

lemma rp_runs:
  "file_alone env0 rp_world 7 rp_trees 1 20 rp_state"
  "\<exists>st'. do_get_base env0 rp_world 7 rp_trees 1 20 rp_state = Some st'"
proof -
  have u: "[0..<1] = [0 :: nat]" by (simp add: upt_rec)
  note st1 = rp_st1_def [symmetric]
  have o: "obj_replaces env0 rp_world 7 rp_trees 20 0 rp_state = Some (rp_src, TYPE_VAR_GLOBAL, ''x'', 4294967296)"
    unfolding obj_replaces_def Let_def rp_at st1 by (simp add: rp_st_si rp_at rp_objs rp_plan rp_record)
  have "alone rp_src TYPE_VAR_GLOBAL ''x'' 4294967296" by (simp add: alone_def rp_src_def)
  then have "replaces_alone (obj_replaces env0 rp_world 7 rp_trees 20 0 rp_state)"
    by (simp add: o replaces_alone_def)
  then show "file_alone env0 rp_world 7 rp_trees 1 20 rp_state"
    by (simp add: file_alone_def rp_si rp_again rp_st_si u del: One_nat_def upt_Suc split: option.split)
  obtain st2 where "gb_record env0 rp_world 7 rp_trees 20 5000 TYPE_VAR_GLOBAL ''x'' 7000 rp_st1 = Some st2"
    using rp_record(2) by blast
  then have "get_base_obj env0 rp_world 7 rp_trees 20 0 rp_state = Some st2"
    unfolding get_base_obj_def Let_def rp_at st1 by (simp add: rp_st_si rp_at rp_objs rp_plan)
  then show "\<exists>st'. do_get_base env0 rp_world 7 rp_trees 1 20 rp_state = Some st'"
    by (simp add: do_get_base_def rp_si rp_again rp_st_si u del: One_nat_def upt_Suc)
qed

theorem get_base_resolves_witness:
  "\<exists>st'. do_get_base env0 rp_world 7 rp_trees 1 20 rp_state = Some st' \<and>
     obj_found rp_trees 20 (gb_ob0 5000) st' \<and> sn_id (h_sn (gb_si st') 4294967296) = 1073741824 \<and>
     record_replaces env0 rp_world 7 rp_trees 20 5000 TYPE_VAR_GLOBAL ''x'' 7000 rp_st1 =
       Some (rp_src, TYPE_VAR_GLOBAL, ''x'', 4294967296)"
proof -
  obtain st' where r: "do_get_base env0 rp_world 7 rp_trees 1 20 rp_state = Some st'" using rp_runs(2) by blast
  have "tree_ok env0 rp_trees" using trees0_ok(2) by (simp add: tree_ok_def files_ok_def rp_trees_def)
  moreover have "\<forall>t < TYPE_MAX. id_value (si_id_idx (gb_si rp_state) t) + 1 < 2 ^ 28"
    by (simp add: rp_si rp_src_def id_value_def ID_VALUE_BITS_def)
  ultimately have g: "kept_for 20 rp_src (gb_si st')" "obj_found rp_trees 20 (gb_obj rp_state 5000) st'"
    using get_base_resolves [OF trees0_ok(1) _ rp_inv rp_runs(1) _ r] by (simp_all add: rp_si rp_at)
  have "4294967296 \<in> set_tree (si_by_spec rp_src TYPE_VAR_GLOBAL)" by (simp add: rp_src_def)
  then have "sn_id (h_sn (gb_si st') 4294967296) = 1073741824"
    using kept_for_linked(2) [OF g(1), of TYPE_VAR_GLOBAL] by (simp add: rp_old)
  then show ?thesis using r g(2) rp_record(1) by (simp add: rp_state_def gbs0_def)
qed

theorem conflict_decided_witness:
  "\<exists>s'. check_conflict env0 (rw_world 2) 7 trees0 gb_ob0 TYPE_FUNC_GLOBAL 100 40 gb_src0 =
     Some (TREE_NAME_CONFLICT_DROP, s') \<and> sn_weak_flag (h_sn gb_src0 40) = - 1 \<and> decl_weak trees0 100 = 0"
proof -
  have "\<exists>c s'. check_conflict env0 (rw_world 2) 7 trees0 gb_ob0 TYPE_FUNC_GLOBAL 100 40 gb_src0 = Some (c, s')"
    by (simp add: check_conflict_def func_conflict_def gb_src0_sn src0_again data_fmt_def)
       (simp add: gb_src0_def rw_world_def)
  then obtain c s' where r: "check_conflict env0 (rw_world 2) 7 trees0 gb_ob0 TYPE_FUNC_GLOBAL 100 40 gb_src0 = Some (c, s')"
    by blast
  have w: "sn_weak_flag (h_sn gb_src0 40) = - 1" by (simp add: gb_src0_def)
  have "data_fmt (rw_world 2) gb_src0 (sn_buf (h_sn gb_src0 40)) \<noteq> SI_TYPE_DF_GIMPLE"
    by (simp add: data_fmt_def gb_src0_def rw_world_def)
  then have "c = TREE_NAME_CONFLICT_DROP" using conflict_decided [OF r] w by simp
  then show ?thesis using r w by (simp add: decl_weak_def trees0_def)
qed

lemma names_text_length: "length (names_text ns) = sum_list (map (\<lambda>n. Suc (length n)) ns)"
  by (induction ns) (simp_all add: names_text_def)

text \<open>A structure at 400 with fields at 401 to 408, all of names of 31 characters.\<close>

definition trees1 :: trees where
  "trees1 = trees0\<lparr>t_type_code := (\<lambda>_. RECORD_TYPE), t_ident := (\<lambda>_. replicate 31 (CHR ''f'')),
     g_code := (\<lambda>_. IDENTIFIER_NODE),
     g_get := (\<lambda>m a. if m = ''TYPE_FIELDS'' then 401 else if m = ''DECL_NAME'' then 300
       else if m = ''DECL_CHAIN'' \<and> a < 408 then a + 1 else 0)\<rparr>"

theorem type_name_made_witness:
  "gen_type_name trees1 [] 400 10 \<lparr>xl_file = Some ''a.h'', xl_line = 3, xl_col = 5\<rparr> = None"
proof -
  let ?fs = "[401 :: addr, 402, 403, 404, 405, 406, 407, 408]"
  have "t_type_code trees1 400 = RECORD_TYPE \<or> t_type_code trees1 400 = UNION_TYPE" by (simp add: trees1_def)
  moreover have "field_chain trees1 (tget trees1 ''TYPE_FIELDS'' 400) ?fs" by (simp add: trees1_def)
  moreover have "names_read trees1 ?fs"
    by (simp add: names_read_def trees1_def get_node_name_def NAME_MAX_def)
  ultimately have "gen_type_name trees1 [] 400 10 \<lparr>xl_file = Some ''a.h'', xl_line = 3, xl_col = 5\<rparr> =
      (let made = names_text (take 8 (field_names trees1 ?fs)) @
         type_suffix trees1 400 (length ?fs) 10 \<lparr>xl_file = Some ''a.h'', xl_line = 3, xl_col = 5\<rparr>
       in if length made < NAME_MAX then Some made else None)"
    by (rule type_name_made [of trees1 400])
  moreover have "length (names_text (take 8 (field_names trees1 ?fs))) = 256"
    by (simp add: names_text_length field_names_def trees1_def)
  ultimately show ?thesis by (simp add: NAME_MAX_def Let_def)
qed

definition gbs1 :: gbs where
  "gbs1 = gbs0\<lparr>gb_cg := cg_ex\<lparr>cg_si := exr (Node Leaf 10 Leaf)\<rparr>\<rparr>"

theorem body_replacement_aborts_witness:
  "gb_create env0 trees0 2 5000 TYPE_FUNC_GLOBAL ''f'' NULL NULL SINODE_INSERT_BH_REPLACE gbs1 = None"
proof (rule body_replacement_aborts [where d = 10])
  have si: "gb_si gbs1 = exr (Node Leaf 10 Leaf)" by (simp add: gbs1_def gb_si_def)
  show "sizes_ok env0" by (rule trees0_ok)
  show "sinode_inv (gb_si gbs1)" using exr_inv si by simp
  show "length ''f'' < NAME_MAX" by (simp add: NAME_MAX_def)
  show "id_value (si_id_idx (gb_si gbs1) TYPE_FUNC_GLOBAL) + 1 < 2 ^ 28"
    by (simp add: si exr_def id_value_def ID_VALUE_BITS_def)
  show "rb_find (cmp_file (gb_si gbs1) ''f'') (si_by_spec (gb_si gbs1) TYPE_FUNC_GLOBAL) = Some 10"
    by (simp add: si exr_def cmp_file_def sn_str_def)
  show "sn_datalen (h_sn (gb_si gbs1) 10) \<noteq>
      (if has_cfg trees0 (fo_real_addr (gb_obj gbs1 5000)) then csize env0 SzFuncNode else 0)"
    by (simp add: si exr_def sinode_zero_def has_cfg_def trees0_def)
qed

end
