(* ===== verification/Getdetail_Phase.thy ===== *)
theory Getdetail_Phase
  imports Getdetail_Walk Getbase_Found
begin

text \<open>
  The whole phase 3: attributes, code paths and arguments leave the walk over types alone, so
  its invariant holds at the end of both loops over the objects of the file.
\<close>

subsection \<open>Steps that write no type node and no variable\<close>

lemma frame_step:
  assumes inv: "dinv E g G R st" and st: "still (gb_si st) (gb_si st')" "names_inv (gb_si st')"
    and same: "gb_stn st' = gb_stn st" "gb_obj st' = gb_obj st" "h_tn (gb_cg st') = h_tn (gb_cg st)"
      "h_vn (gb_cg st') = h_vn (gb_cg st)"
  shows "dstep {} {} st st'" "dinv E g G R st'"
proof -
  show d: "dstep {} {} st st'" using st(1) same by (simp add: dstep_def)
  show "dinv E g G R st'"
    by (rule dinv_step [OF inv d st(2)]) (use same inv in \<open>auto simp: dinv_def split: if_splits\<close>)
qed

lemma cg_frame_step:
  assumes "dinv E g G R st" "cg_si (f (gb_cg st)) = cg_si (gb_cg st)" "h_tn (f (gb_cg st)) = h_tn (gb_cg st)"
    "h_vn (f (gb_cg st)) = h_vn (gb_cg st)"
  shows "dstep {} {} st (in_cg f st)" "dinv E g G R (in_cg f st)"
  by (rule frame_step [OF assms(1)]; use assms in \<open>simp add: dinv_def\<close>)+

lemma get_step:
  assumes inv: "dinv E g G R st" and run: "on_si (si_buf_get E len) st = Some (p, st')" and len: "len_ok len"
  shows "dstep {} {} st st'" "dinv E g G R st'"
proof -
  have n: "names_inv (gb_si st)" using inv by (simp add: dinv_def)
  then have ok: "region_ok E st" using inv by (auto simp: region_ok_def dinv_def detail_env_def names_inv_def)
  note a = get_spec [OF ok len run]
  obtain b where b: "st' = set_si ((gb_si st)\<lparr>si_sbuf := b\<rparr>) st" using a(5) by blast
  have le: "buf_cur (si_sbuf (gb_si st)) \<le> buf_cur b" using a(1,3) b by simp
  have "still (gb_si st) (gb_si st')" using buf_still [OF le] b by simp
  moreover have "names_inv (gb_si st')" using names_inv_buf [OF n _ le] a(2) b by (simp add: region_ok_def)
  ultimately show "dstep {} {} st st'" "dinv E g G R st'" using frame_step [OF inv] b by simp_all
qed

lemma attr_write_step:
  assumes inv: "dinv E g G R st"
  shows "dstep {} {} st (set_si (upd_sn sn (\<lambda>x. x\<lparr>sn_attributes := h x\<rparr>) (gb_si st)) st)"
    "dinv E g G R (set_si (upd_sn sn (\<lambda>x. x\<lparr>sn_attributes := h x\<rparr>) (gb_si st)) st)"
proof -
  let ?s = "upd_sn sn (\<lambda>x. x\<lparr>sn_attributes := h x\<rparr>) (gb_si st)"
  have st: "still (gb_si st) ?s"
    unfolding upd_sn_def by (rule still_parts(3)) simp
  have "name_key ?s = name_key (gb_si st)" by (simp add: fun_eq_iff name_key_def upd_sn_def)
  then have "names_inv ?s" using inv by (simp add: dinv_def names_inv_def upd_sn_def)
  then show "dstep {} {} st (set_si ?s st)" "dinv E g G R (set_si ?s st)"
    using frame_step [OF inv, of "set_si ?s st"] st by simp_all
qed

lemma upd_attr_frames [simp]:
  "cg_si (upd_attr p f c) = cg_si c" "h_tn (upd_attr p f c) = h_tn c" "h_vn (upd_attr p f c) = h_vn c"
  by (simp_all add: upd_attr_def)

text \<open>One frame step after another.\<close>

lemma frame_then:
  assumes "dstep {} {} st st' \<and> dinv E g G R st'" "dinv E g G R st' \<Longrightarrow> dstep {} {} st' st'' \<and> dinv E g G R st''"
  shows "dstep {} {} st st'' \<and> dinv E g G R st''"
  using dstep_trans [of "{}" "{}" st st' "{}" "{}" st''] assms by auto

lemma attr_nodes_step:
  "dinv E g G R st \<Longrightarrow> attr_nodes n E g name newal vals st = Some st' \<Longrightarrow> dstep {} {} st st' \<and> dinv E g G R st'"
proof (induction n arbitrary: vals st)
  case 0
  then show ?case by simp
next
  case (Suc n)
  show ?case
  proof (cases "vals = NULL")
    case True
    then show ?thesis using Suc.prems by simp
  next
    case False
    let ?w = "if strstr name ''no_sanitize'' then (vals, NULL) else (tget g ''TREE_VALUE'' vals, tget g ''TREE_CHAIN'' vals)"
    obtain p st1 where r: "on_si (si_buf_get E (csize E SzAttrvalList)) st = Some (p, st1)"
      and rest: "attr_nodes n E g name newal (snd ?w)
          (in_cg (upd_attr newal (\<lambda>a. a\<lparr>al_values := slist_add_tail (fst ?w) (al_values a)\<rparr>)) st1) = Some st'"
      using Suc.prems(2) False by (auto simp: bind_splits Let_def split: prod.splits if_splits)
    have len: "len_ok (csize E SzAttrvalList)" using Suc.prems(1) by (auto simp: dinv_def detail_env_def)
    have 1: "dstep {} {} st st1 \<and> dinv E g G R st1" using get_step [OF Suc.prems(1) r len] by simp
    let ?f = "upd_attr newal (\<lambda>a. a\<lparr>al_values := slist_add_tail (fst ?w) (al_values a)\<rparr>)"
    have 2: "dstep {} {} st (in_cg ?f st1) \<and> dinv E g G R (in_cg ?f st1)"
      by (rule frame_then [OF 1]) (use cg_frame_step [of E g G R st1 ?f] in simp)
    show ?thesis by (rule frame_then [OF 2 Suc.IH [OF _ rest]])
  qed
qed

lemma attr_list_step:
  "dinv E g G R st \<Longrightarrow> attr_list_of n E g sn attr st = Some st' \<Longrightarrow> dstep {} {} st st' \<and> dinv E g G R st'"
proof (induction n arbitrary: attr st)
  case 0
  then show ?case by simp
next
  case (Suc n)
  show ?case
  proof (cases "attr = NULL")
    case True
    then show ?thesis using Suc.prems by simp
  next
    case False
    obtain name q st1 newal st2 st4 where nm: "get_node_name g (si_get_attribute_name g attr) = Some name"
      and r1: "on_si (name_list_add E name) st = Some (q, st1)"
      and r2: "on_si (si_buf_get E (csize E SzAttrList)) st1 = Some (newal, st2)"
      and r4: "attr_nodes n E g name newal (tget g ''TREE_VALUE'' attr)
        (in_cg (upd_attr newal (\<lambda>_. \<lparr>al_name = name, al_values = []\<rparr>)) st2) = Some st4"
      and rest: "attr_list_of n E g sn (tget g ''TREE_CHAIN'' attr)
          (set_si (upd_sn sn (\<lambda>x. x\<lparr>sn_attributes := slist_add_tail newal (sn_attributes x)\<rparr>) (gb_si st4)) st4) = Some st'"
      using Suc.prems(2) False by (auto simp: bind_splits Let_def)
    have len: "len_ok (csize E SzAttrList)" using Suc.prems(1) by (auto simp: dinv_def detail_env_def)
    have short: "length name < NAME_MAX" using node_name_value [OF nm] by auto
    have 1: "dstep {} {} st st1 \<and> dinv E g G R st1" using name_step [OF Suc.prems(1) r1 short] by simp
    have 2: "dstep {} {} st st2 \<and> dinv E g G R st2"
      by (rule frame_then [OF 1]) (use get_step [OF _ r2 len] in simp)
    let ?f = "upd_attr newal (\<lambda>_. \<lparr>al_name = name, al_values = []\<rparr>)"
    have 3: "dstep {} {} st (in_cg ?f st2) \<and> dinv E g G R (in_cg ?f st2)"
      by (rule frame_then [OF 2]) (use cg_frame_step [of E g G R st2 ?f] in simp)
    have 4: "dstep {} {} st st4 \<and> dinv E g G R st4" by (rule frame_then [OF 3 attr_nodes_step [OF _ r4]])
    let ?st5 = "set_si (upd_sn sn (\<lambda>x. x\<lparr>sn_attributes := slist_add_tail newal (sn_attributes x)\<rparr>) (gb_si st4)) st4"
    have 5: "dstep {} {} st ?st5 \<and> dinv E g G R ?st5" by (rule frame_then [OF 4]) (simp add: attr_write_step)
    show ?thesis by (rule frame_then [OF 5 Suc.IH [OF _ rest]])
  qed
qed

lemma attributes_step:
  "dinv E g G R st \<Longrightarrow> get_attributes n E g sn a st = Some st' \<Longrightarrow> dstep {} {} st st' \<and> dinv E g G R st'"
  using attr_list_step by (auto simp: get_attributes_def bind_splits split: if_splits)

subsection \<open>The loop over the types of the file\<close>

lemma hold_step:
  assumes inv: "dinv E g G R st" and run: "on_si (sibuf_hold E W u b) st = Some (held, st')"
  shows "dstep {} {} st st' \<and> dinv E g G R st'"
  using load_step [OF inv loads_hold [OF run]] by simp

lemma drop_step: "dinv E g G R st \<Longrightarrow> dstep {} {} st (drop_at held u b st) \<and> dinv E g G R (drop_at held u b st)"
  using load_step [OF _ loads_drop] by simp

lemma sinode_type_step:
  assumes inv: "dinv E g G R st" and run: "get_type_detail n E W u g sn st = Some st'"
  shows "dstep {} {} st st' \<and> dinv E g G R st'"
proof -
  obtain held st1 st2 where r1: "on_si (sibuf_hold E W u (sn_sibuf sn st)) st = Some (held, st1)"
    and r2: "get_attributes n E g sn (tget g ''TYPE_ATTRIBUTES'' (sn_tree sn st1)) st1 = Some st2"
    and st': "st' = drop_at held u (sn_sibuf sn st) st2"
    using run by (auto simp: get_type_detail_def Let_def bind_splits)
  have 2: "dstep {} {} st st2 \<and> dinv E g G R st2"
    by (rule frame_then [OF hold_step [OF inv r1] attributes_step [OF _ r2]])
  show ?thesis unfolding st' by (rule frame_then [OF 2 drop_step])
qed

text \<open>\<open>type_ready\<close>: the type \<open>a\<close> has a node, and it is set.\<close>

definition type_ready :: "trees \<Rightarrow> gbs \<Rightarrow> addr \<Rightarrow> bool" where
  "type_ready g st a \<longleftrightarrow> (\<exists>t. node_of g a st = Some t \<and> t \<noteq> NULL \<and> is_set st t)"

lemma ready_step:
  assumes "dstep X V st st'" "names_low (gb_si st)" "type_ready g st a"
  shows "type_ready g st' a"
proof -
  obtain t where t: "node_of g a st = Some t" "t \<noteq> NULL" "is_set st t"
    using assms(3) by (auto simp: type_ready_def)
  have "is_set st' t" using assms(1) t(3) by (simp add: dstep_def)
  then show ?thesis using t dstep_type_at(1) [OF assms(1,2)] by (auto simp: type_ready_def)
qed

lemma bind_first: "Option.bind m f = Some y \<Longrightarrow> \<exists>x. m = Some x \<and> f x = Some y"
  by (simp add: bind_eq_Some_conv)

lemma detail_type_step:
  assumes inv: "dinv E g G R st" and run: "detail_type n E W u g buf i st = Some st'"
  shows "dstep {} {} st st' \<and> dinv E g G R st' \<and>
    (let ob = gb_obj st (obj_at g buf i st) in
     fo_is_type ob \<and> \<not> obj_out ob \<longrightarrow> type_ready g st' (fo_real_addr ob))"
proof -
  let ?ob = "gb_obj st (obj_at g buf i st)"
  show ?thesis
  proof (cases "\<not> fo_is_type ?ob \<or> obj_out ?ob")
    case True
    then show ?thesis using run inv by (auto simp: detail_type_def Let_def)
  next
    case False
    obtain sn tn st1 where r1: "get_type_xnode E W u g (fo_real_addr ?ob) st = Some ((sn, tn), st1)"
      using run False by (cases "get_type_xnode E W u g (fo_real_addr ?ob) st") (auto simp: detail_type_def Let_def)
    have run1: "do {
        (tn, st) \<leftarrow> (if sn \<noteq> NULL then do {
              let tn = sn_data (h_sn (gb_si st1) sn);
              st \<leftarrow> get_type_detail n E W u g sn st1;
              Some (tn, st)
            }
          else Some (tn, st1));
        BUG_ON (tn = NULL);
        (if tn_is_set (h_tn (gb_cg st) tn) then Some st else get_type_detail_of n E W u g tn st)
      } = Some st'"
      using run False r1 by (simp add: detail_type_def Let_def)
    obtain t st2 where r2: "(if sn \<noteq> NULL then do {
              let tn = sn_data (h_sn (gb_si st1) sn);
              st \<leftarrow> get_type_detail n E W u g sn st1;
              Some (tn, st)
            }
          else Some (tn, st1)) = Some (t, st2)"
      and rest: "do {
        BUG_ON (t = NULL);
        (if tn_is_set (h_tn (gb_cg st2) t) then Some st2 else get_type_detail_of n E W u g t st2)
      } = Some st'"
      using bind_first [OF run1] by auto
    have t: "t \<noteq> NULL" and r3: "(if is_set st2 t then Some st2 else get_type_detail_of n E W u g t st2) = Some st'"
      using rest by (simp_all add: bind_splits split: if_splits)
    note x = xnode_value [OF r1 dinv_low [OF inv]]
    have 1: "dstep {} {} st st1 \<and> dinv E g G R st1" using load_step [OF inv x(2)] by simp
    have node1: "node_of g (fo_real_addr ?ob) st = Some t"
      using x(1) loads_frames [OF x(2)] r2 by (auto simp: node_of_def Let_def bind_splits split: if_splits)
    have 2: "dstep {} {} st st2 \<and> dinv E g G R st2"
    proof (cases "sn = NULL")
      case True
      then show ?thesis using r2 1 by simp
    next
      case False
      then obtain "get_type_detail n E W u g sn st1 = Some st2" using r2 by (auto simp: Let_def bind_splits)
      then show ?thesis using frame_then [OF 1 sinode_type_step] by blast
    qed
    have 3: "dstep {} {} st st' \<and> dinv E g G R st' \<and> is_set st' t"
    proof (cases "is_set st2 t")
      case True
      then show ?thesis using r3 2 by simp
    next
      case nset: False
      then have d: "type_detail n E W u g (tn_node (h_tn (gb_cg st2) t)) st2 = Some (t, st')"
        using r3 by (auto simp: get_type_detail_of_def bind_splits)
      have s: "dstep {} {} st2 st' \<and> dinv E g G R st' \<and> type_at g st' (tn_node (h_tn (gb_cg st2) t)) t"
        by (rule tw.detail_step [OF conjunct2 [OF 2] d])
      have "dstep {} {} st st' \<and> dinv E g G R st'" by (rule frame_then [OF 2]) (use s in simp)
      then show ?thesis using s t by (simp add: type_at_def)
    qed
    then show ?thesis using node1 t dstep_type_at(1) [OF conjunct1 [OF 3] dinv_low [OF inv]]
      by (auto simp: type_ready_def Let_def)
  qed
qed

lemma dstep_objs:
  assumes "dstep X V st st'"
  shows "obj_at g buf i st' = obj_at g buf i st" "gb_obj st' = gb_obj st"
proof -
  have "sb_objs (h_sb (gb_si st') buf) = sb_objs (h_sb (gb_si st) buf)"
    using assms still_fields(9) by (auto simp: dstep_def)
  then show "obj_at g buf i st' = obj_at g buf i st" by (simp add: obj_at_def)
qed (use assms in \<open>simp add: dstep_def\<close>)

text \<open>A loop over the objects whose steps keep \<open>P\<close> for the rest, and give \<open>Q\<close> for their object.\<close>

lemma over_objs_step:
  assumes step: "\<And>i st st'. I st \<Longrightarrow> f i st = Some st' \<Longrightarrow> dstep {} V st st' \<and> I st' \<and> Q i st'"
    and keep: "\<And>i st st'. I st \<Longrightarrow> dstep {} V st st' \<Longrightarrow> Q i st \<Longrightarrow> Q i st'"
  shows "I st \<Longrightarrow> over_objs f is st = Some st' \<Longrightarrow> dstep {} V st st' \<and> I st' \<and> (\<forall>i \<in> set is. Q i st')"
proof (induction "is" arbitrary: st)
  case Nil
  then show ?case by simp
next
  case (Cons i js)
  obtain st1 where r: "f i st = Some st1" "over_objs f js st1 = Some st'"
    using Cons.prems(2) by (auto simp: bind_splits)
  note 1 = step [OF Cons.prems(1) r(1)]
  have 2: "dstep {} V st1 st' \<and> I st' \<and> (\<forall>i \<in> set js. Q i st')"
    using Cons.IH [OF _ r(2)] 1 by blast
  have "Q i st'" using keep 1 2 by blast
  moreover have "dstep {} V st st'" using dstep_trans [of "{}" V st st1 "{}" V st'] 1 2 by simp
  ultimately show ?case using 2 by simp
qed

text \<open>The type objects of the file are ready.\<close>

definition obj_ready :: "trees \<Rightarrow> addr \<Rightarrow> nat \<Rightarrow> gbs \<Rightarrow> bool" where
  "obj_ready g buf i st \<longleftrightarrow> (let ob = gb_obj st (obj_at g buf i st) in
     fo_is_type ob \<and> \<not> obj_out ob \<longrightarrow> type_ready g st (fo_real_addr ob))"

lemma obj_ready_step:
  assumes "dstep X V st st'" "names_low (gb_si st)" "obj_ready g buf i st"
  shows "obj_ready g buf i st'"
  using assms(3) ready_step [OF assms(1,2)] unfolding obj_ready_def Let_def dstep_objs [OF assms(1)] by blast

lemma type_objs_step:
  assumes inv: "dinv E g G R st" and run: "over_objs (detail_type n E W u g buf) is st = Some st'"
  shows "dstep {} {} st st' \<and> dinv E g G R st' \<and> (\<forall>i \<in> set is. obj_ready g buf i st')"
proof -
  have step: "dstep {} {} st st' \<and> dinv E g G R st' \<and> obj_ready g buf i st'"
    if a: "dinv E g G R st" "detail_type n E W u g buf i st = Some st'" for i st st'
  proof -
    note s = detail_type_step [OF a]
    have "dstep {} {} st st'" using s by blast
    from dstep_objs(1) [OF this, of g buf i] dstep_objs(2) [OF this] show ?thesis
      using s by (simp add: obj_ready_def)
  qed
  show ?thesis
    by (rule over_objs_step [OF step obj_ready_step [OF _ dinv_low] inv run])
qed

subsection \<open>The loop over the variables and functions\<close>

definition var_sns :: "src \<Rightarrow> addr set" where
  "var_sns s = set_tree (si_by_spec s TYPE_VAR_GLOBAL) \<union> set_tree (si_by_spec s TYPE_VAR_STATIC)"

definition var_data :: "src \<Rightarrow> addr set" where
  "var_data s = (\<lambda>sn. sn_data (h_sn s sn)) ` var_sns s"

lemma var_still:
  assumes "still s s'"
  shows "var_sns s' = var_sns s" "var_data s' = var_data s"
  by (simp_all add: var_data_def var_sns_def still_fields(1) [OF assms]
      same_sn_fields(1) [OF still_fields(2) [OF assms]])

text \<open>The variable \<open>v\<close> has the type of one of its sinodes.\<close>

definition var_typed :: "trees \<Rightarrow> gbs \<Rightarrow> addr \<Rightarrow> bool" where
  "var_typed g st v \<longleftrightarrow> (\<exists>sn \<in> var_sns (gb_si st). sn_data (h_sn (gb_si st) sn) = v \<and>
     type_at g st (tget g ''TREE_TYPE'' (sn_tree sn st)) (vn_type (h_vn (gb_cg st) v)))"

definition vars_typed :: "trees \<Rightarrow> gbs \<Rightarrow> bool" where
  "vars_typed g st \<longleftrightarrow> (\<forall>v \<in> var_data (gb_si st). vn_detailed (h_vn (gb_cg st) v) \<longrightarrow> var_typed g st v)"

lemma sn_tree_step:
  assumes "dstep X V st st'"
  shows "sn_tree sn st' = sn_tree sn st"
proof -
  have "still (gb_si st) (gb_si st')" "gb_obj st' = gb_obj st" using assms by (simp_all add: dstep_def)
  then show ?thesis by (simp add: sn_tree_def same_sn_fields(7) [OF still_fields(2)])
qed

lemma var_typed_step:
  assumes "dstep X V st st'" "names_low (gb_si st)" "vn_type (h_vn (gb_cg st') v) = vn_type (h_vn (gb_cg st) v)"
    and "var_typed g st v"
  shows "var_typed g st' v"
proof -
  have s: "still (gb_si st) (gb_si st')" using assms(1) by (simp add: dstep_def)
  show ?thesis
    using assms(4) dstep_type_at(2) [OF assms(1,2)]
    unfolding var_typed_def var_still(1) [OF s] same_sn_fields(1) [OF still_fields(2) [OF s]] assms(3)
      sn_tree_step [OF assms(1)] by blast
qed

text \<open>The state between the steps: the invariant, and the variables that are done.\<close>

definition decl_inv :: "env \<Rightarrow> trees \<Rightarrow> gbs \<Rightarrow> bool" where
  "decl_inv E g st \<longleftrightarrow> dinv E g {} (var_data (gb_si st)) st \<and> vars_typed g st"

lemma decl_inv_step:
  assumes inv: "decl_inv E g st" and st: "dstep {} V st st' \<and> dinv E g {} (var_data (gb_si st)) st'"
    and V: "\<And>v. v \<in> V \<Longrightarrow> v \<in> var_data (gb_si st) \<Longrightarrow> vn_detailed (h_vn (gb_cg st') v) \<Longrightarrow> var_typed g st' v"
  shows "decl_inv E g st'"
proof -
  have s: "still (gb_si st) (gb_si st')" using st by (simp add: dstep_def)
  have i: "dinv E g {} (var_data (gb_si st)) st" "vars_typed g st" using inv by (simp_all add: decl_inv_def)
  have "var_typed g st' v" if v: "v \<in> var_data (gb_si st)" "vn_detailed (h_vn (gb_cg st') v)" for v
  proof (cases "v \<in> V")
    case True
    then show ?thesis using V v by blast
  next
    case False
    have "v < st_cur st" using i(1) v(1) by (simp add: dinv_def)
    then have same: "h_vn (gb_cg st') v = h_vn (gb_cg st) v" using st False by (simp add: dstep_def)
    then have "var_typed g st v" using i(2) v by (simp add: vars_typed_def)
    then show ?thesis using var_typed_step [OF conjunct1 [OF st] dinv_low [OF i(1)]] same by simp
  qed
  then show ?thesis using st by (simp add: decl_inv_def vars_typed_def var_still(2) [OF s])
qed

text \<open>A variable whose sinode is linked.\<close>

lemma search_var_in:
  assumes "sinode_search s t SEARCH_BY_SPEC arg = Some sn" "sn \<noteq> NULL" "t = TYPE_VAR_GLOBAL \<or> t = TYPE_VAR_STATIC"
    and arg: "(\<exists>r q nm. arg = ArgResfile r q nm) \<or> (\<exists>lf line col nm. arg = ArgLoc lf line col nm)"
  shows "sn \<in> var_sns s"
proof -
  obtain c where "rb_find c (si_by_spec s t) = Some sn"
    using assms by (auto simp: sinode_search_name_resfile_def sinode_search_name_loc_def ptr_of_def
        split: option.splits if_splits)
  from rb_find_in [OF this] show ?thesis using assms(3) by (auto simp: var_sns_def)
qed

lemma search_var:
  assumes "sn \<noteq> NULL"
  shows "search_global s b TYPE_VAR_GLOBAL name = Some sn \<Longrightarrow> sn \<in> var_sns s"
    "search_static g s TYPE_VAR_STATIC name x = Some sn \<Longrightarrow> sn \<in> var_sns s"
proof -
  show "search_global s b TYPE_VAR_GLOBAL name = Some sn \<Longrightarrow> sn \<in> var_sns s"
    unfolding search_global_def by (erule search_var_in [OF _ assms]) auto
  assume "search_static g s TYPE_VAR_STATIC name x = Some sn"
  then obtain lf where "sinode_search s TYPE_VAR_STATIC SEARCH_BY_SPEC
      (ArgLoc lf (xl_line (t_xloc g x)) (xl_col (t_xloc g x)) name) = Some sn"
    unfolding search_static_def bind_eq_Some_conv by blast
  then show "sn \<in> var_sns s" by (rule search_var_in [OF _ assms]) auto
qed

lemma var_sinode_in:
  assumes "get_var_sinode E W u g a False st = Some (sn, st')"
  shows "loads st st'" "sn \<noteq> NULL \<Longrightarrow> sn \<in> var_sns (gb_si st)"
proof -
  let ?b = "find_target_sibuf (gb_si st) a"
  obtain held st1 where r: "on_si (sibuf_hold E W u ?b) st = Some (held, st1)"
    and run1: "do {
        name \<leftarrow> get_var_name g a;
        var_flag \<leftarrow> check_file_var g a;
        sn \<leftarrow> (case var_flag of
            VAR_IS_EXTERN \<Rightarrow> if False then search_global (gb_si st1) ?b TYPE_VAR_GLOBAL name else Some NULL
          | VAR_IS_GLOBAL \<Rightarrow> do {
              sn \<leftarrow> search_global (gb_si st1) ?b TYPE_VAR_GLOBAL name;
              BUG_ON (sn = NULL);
              Some sn
            }
          | VAR_IS_STATIC \<Rightarrow> search_static g (gb_si st1) TYPE_VAR_STATIC name
              (get_location g GET_LOC_VAR (sb_payload (h_sb (gb_si st1) ?b)) a)
          | VAR_IS_LOCAL \<Rightarrow> Some NULL);
        Some (sn, drop_at held u ?b st1)
      } = Some (sn, st')"
    using assms by (cases "on_si (sibuf_hold E W u ?b) st"; cases "?b = NULL") (auto simp: get_var_sinode_def Let_def)
  obtain name flag where sn: "(case flag of
            VAR_IS_EXTERN \<Rightarrow> if False then search_global (gb_si st1) ?b TYPE_VAR_GLOBAL name else Some NULL
          | VAR_IS_GLOBAL \<Rightarrow> do {
              sn \<leftarrow> search_global (gb_si st1) ?b TYPE_VAR_GLOBAL name;
              BUG_ON (sn = NULL);
              Some sn
            }
          | VAR_IS_STATIC \<Rightarrow> search_static g (gb_si st1) TYPE_VAR_STATIC name
              (get_location g GET_LOC_VAR (sb_payload (h_sb (gb_si st1) ?b)) a)
          | VAR_IS_LOCAL \<Rightarrow> Some NULL) = Some sn"
    and st': "st' = drop_at held u ?b st1"
  proof -
    obtain name where n: "get_var_name g a = Some name" using run1 by (cases "get_var_name g a") auto
    obtain flag where f: "check_file_var g a = Some flag" using run1 n by (cases "check_file_var g a") auto
    show thesis
      by (rule that [of name flag]) (use bind_first [OF run1 [unfolded n f bind.simps]] in auto)
  qed
  have l: "loads st st1" by (rule loads_hold [OF r])
  show "loads st st'" unfolding st' by (rule loads_trans [OF l loads_drop])
  show "sn \<in> var_sns (gb_si st)" if "sn \<noteq> NULL"
  proof -
    have "sn \<in> var_sns (gb_si st1)"
      using sn search_var [OF that] by (cases flag) (auto simp: bind_eq_Some_conv that)
    then show ?thesis using var_still(1) [OF loads_still [OF l]] by simp
  qed
qed

lemma func_sinode_loads:
  assumes "get_func_sinode E W u g a False st = Some (sn, st')"
  shows "loads st st'"
proof -
  let ?b = "find_target_sibuf (gb_si st) a"
  obtain held st1 where r: "on_si (sibuf_hold E W u ?b) st = Some (held, st1)"
    using assms by (cases "on_si (sibuf_hold E W u ?b) st"; cases "?b = NULL") (auto simp: get_func_sinode_def Let_def)
  have "st' = drop_at held u ?b st1"
    using assms r by (auto simp: get_func_sinode_def Let_def bind_eq_Some_conv)
  then show ?thesis using loads_trans [OF loads_hold [OF r] loads_drop] by simp
qed

lemma var_detail_step:
  assumes inv: "decl_inv E g st" and sn: "sn \<in> var_sns (gb_si st)" and run: "get_var_detail n E W u g sn st = Some st'"
  shows "dstep {} (var_data (gb_si st)) st st' \<and> decl_inv E g st'"
proof -
  let ?b = "sn_sibuf sn st" and ?v = "sn_data (h_sn (gb_si st) sn)" and ?R = "var_data (gb_si st)"
  have i: "dinv E g {} ?R st" using inv by (simp add: decl_inv_def)
  have vR: "?v \<in> ?R" using sn by (simp add: var_data_def)
  obtain held st1 where r1: "on_si (sibuf_hold E W u ?b) st = Some (held, st1)"
    and rest: "(if vn_detailed (h_vn (gb_cg st1) ?v) then Some (drop_at held u ?b st1)
         else do {
           (t, st) \<leftarrow> type_detail n E W u g (tget g ''TREE_TYPE'' (sn_tree sn st1)) st1;
           let st = in_cg (upd_vn ?v (\<lambda>x. x\<lparr>vn_type := t\<rparr>)) st;
           st \<leftarrow> get_attributes n E g sn (tget g ''DECL_ATTRIBUTES'' (sn_tree sn st1)) st;
           Some (drop_at held u ?b (in_cg (upd_vn ?v (\<lambda>x. x\<lparr>vn_detailed := True\<rparr>)) st))
         }) = Some st'"
    using run by (auto simp: get_var_detail_def Let_def bind_splits)
  note 1 = hold_step [OF i r1]
  show ?thesis
  proof (cases "vn_detailed (h_vn (gb_cg st1) ?v)")
    case True
    then have "st' = drop_at held u ?b st1" using rest by simp
    then have 2: "dstep {} {} st st' \<and> dinv E g {} ?R st'" using frame_then [OF 1 drop_step] by simp
    have "decl_inv E g st'" by (rule decl_inv_step [OF inv 2]) simp
    then show ?thesis using 2 dstep_mono by blast
  next
    case False
    let ?a = "tget g ''TREE_TYPE'' (sn_tree sn st1)"
    obtain t st2 st4 where r2: "type_detail n E W u g ?a st1 = Some (t, st2)"
      and r4: "get_attributes n E g sn (tget g ''DECL_ATTRIBUTES'' (sn_tree sn st1))
          (in_cg (upd_vn ?v (\<lambda>x. x\<lparr>vn_type := t\<rparr>)) st2) = Some st4"
      and st': "st' = drop_at held u ?b (in_cg (upd_vn ?v (\<lambda>x. x\<lparr>vn_detailed := True\<rparr>)) st4)"
      using rest False by (auto simp: bind_splits Let_def)
    let ?st3 = "in_cg (upd_vn ?v (\<lambda>x. x\<lparr>vn_type := t\<rparr>)) st2"
    let ?st5 = "in_cg (upd_vn ?v (\<lambda>x. x\<lparr>vn_detailed := True\<rparr>)) st4"
    note d2 = tw.detail_step [OF conjunct2 [OF 1] r2]
    have i2: "dinv E g {} ?R st2" using d2 by blast
    note d3 = fill_var_step [OF i2 vR, of "\<lambda>x. x\<lparr>vn_type := t\<rparr>"]
    note d4 = attributes_step [OF d3(2) r4]
    note d5 = fill_var_step [OF conjunct2 [OF d4] vR, of "\<lambda>x. x\<lparr>vn_detailed := True\<rparr>"]
    note d6 = drop_step [OF d5(2), of held u ?b, folded st']
    have s2: "dstep {} {?v} st st2"
      using dstep_trans [of "{}" "{}" st st1 "{}" "{}" st2] 1 d2 dstep_mono [of "{}" "{}" st st2 "{}" "{?v}"] by simp
    have s3: "dstep {} {?v} st ?st3" using dstep_trans [OF s2 d3(1)] by simp
    have s4: "dstep {} {?v} st st4" using dstep_trans [OF s3 conjunct1 [OF d4]] by simp
    have s5: "dstep {} {?v} st ?st5" using dstep_trans [OF s4 d5(1)] by simp
    have s6: "dstep {} {?v} st st'" using dstep_trans [OF s5 conjunct1 [OF d6]] by simp
    have vlow: "?v < st_cur st2" using i2 vR by (simp add: dinv_def)
    have t4: "vn_type (h_vn (gb_cg st4) ?v) = t"
      using d4 vlow by (simp add: dstep_def)
    have v5: "?v < st_cur ?st5" using d5(2) vR by (simp add: dinv_def)
    then have t6: "vn_type (h_vn (gb_cg st') ?v) = t" using d6 t4 by (simp add: dstep_def)
    have at: "type_at g st' ?a t"
    proof -
      have "type_at g ?st3 ?a t" using dstep_type_at(2) [OF d3(1) dinv_low [OF i2]] d2 by blast
      then have "type_at g st4 ?a t" using dstep_type_at(2) [OF conjunct1 [OF d4] dinv_low [OF d3(2)]] by blast
      then have "type_at g ?st5 ?a t" using dstep_type_at(2) [OF d5(1)] dinv_low d4 by blast
      then show ?thesis using dstep_type_at(2) [OF conjunct1 [OF d6] dinv_low [OF d5(2)]] by blast
    qed
    have tree: "sn_tree sn st' = sn_tree sn st1"
      using sn_tree_step [OF s6] sn_tree_step [OF conjunct1 [OF 1]] by simp
    have st6: "still (gb_si st) (gb_si st')" using s6 by (simp add: dstep_def)
    have typed: "var_typed g st' ?v"
      unfolding var_typed_def var_still(1) [OF st6]
      by (rule bexI [OF _ sn]) (use at t6 tree same_sn_fields(1) [OF still_fields(2) [OF st6]] in simp)
    have "decl_inv E g st'"
      by (rule decl_inv_step [OF inv conjI [OF s6 conjunct2 [OF d6]]]) (use typed in simp)
    then show ?thesis using dstep_mono [OF s6, of "{}" ?R] vR by simp
  qed
qed

text \<open>The arguments of a function are new variables.\<close>

lemma func_args_step:
  "dinv E g G R st \<Longrightarrow> func_args n E W u g fn args st = Some st' \<Longrightarrow> dstep {} {} st st' \<and> dinv E g G R st'"
proof (induction n arbitrary: args st)
  case 0
  then show ?case by simp
next
  case (Suc n)
  show ?case
  proof (cases "args = NULL")
    case True
    then show ?thesis using Suc.prems by simp
  next
    case False
    obtain v st1 t st2 name q st4 where r1: "var_list_new E args st = Some (v, st1)"
      and r2: "type_detail n E W u g (tget g ''TREE_TYPE'' args) st1 = Some (t, st2)"
      and nm: "get_node_name g (tget g ''DECL_NAME'' args) = Some name"
      and r4: "on_si (name_list_add E name) (in_cg (upd_vn v (\<lambda>x. x\<lparr>vn_type := t\<rparr>)) st2) = Some (q, st4)"
      and rest: "func_args n E W u g fn (tget g ''TREE_CHAIN'' args)
          (in_cg (upd_fn fn (\<lambda>f. f\<lparr>fn_args := slist_add_tail v (fn_args f)\<rparr>))
            (in_cg (upd_vn v (\<lambda>x. x\<lparr>vn_name := name\<rparr>)) st4)) = Some st'"
      using Suc.prems(2) False by (auto simp: bind_splits Let_def)
    let ?R = "insert v R"
    let ?st3 = "in_cg (upd_vn v (\<lambda>x. x\<lparr>vn_type := t\<rparr>)) st2"
    let ?st5 = "in_cg (upd_vn v (\<lambda>x. x\<lparr>vn_name := name\<rparr>)) st4"
    let ?st6 = "in_cg (upd_fn fn (\<lambda>f. f\<lparr>fn_args := slist_add_tail v (fn_args f)\<rparr>)) ?st5"
    note s1 = new_var_step [OF Suc.prems(1) r1]
    note s2 = tw.detail_step [OF s1(3) r2]
    have i2: "dinv E g G ?R st2" using s2 by blast
    note s3 = fill_var_step [OF i2 insertI1, of "\<lambda>x. x\<lparr>vn_type := t\<rparr>"]
    have short: "length name < NAME_MAX" using node_name_value [OF nm] by auto
    note s4 = name_step [OF s3(2) r4 short]
    note s5 = fill_var_step [OF s4(2) insertI1, of "\<lambda>x. x\<lparr>vn_name := name\<rparr>"]
    note s6 = cg_frame_step [OF s5(2), of "upd_fn fn (\<lambda>f. f\<lparr>fn_args := slist_add_tail v (fn_args f)\<rparr>)"]
    have v: "\<forall>w \<in> {v}. w < st_cur st \<longrightarrow> w \<in> {}" using s1(1) by simp
    have d3: "dstep {} {} st ?st3"
      by (rule dstep_then [OF dstep_then [OF s1(2) conjunct1 [OF s2], of "{}" "{}"] s3(1)]) (use v in auto)
    have d5: "dstep {} {} st ?st5"
      by (rule dstep_then [OF dstep_then [OF d3 s4(1), of "{}" "{}"] s5(1)]) (use v in auto)
    have d6: "dstep {} {} st ?st6" by (rule dstep_then [OF d5 s6(1)]) (simp_all add: upd_fn_def)
    have i6: "dinv E g G R ?st6" by (rule dinv_less [OF s6(2)]) (auto simp: upd_fn_def)
    show ?thesis by (rule frame_then [OF conjI [OF d6 i6] Suc.IH [OF _ rest]])
  qed
qed

text \<open>Building the code paths touches neither types nor variables.\<close>

lemma cfg_block_step:
  assumes inv: "dinv E g G R st" and sz: "cfg_sizes E g" and run: "cfg_block n E g fn cnt b edges st = Some (edges', cp, st')"
  shows "dstep {} {} st st' \<and> dinv E g G R st'"
proof -
  let ?len = "wrap64 (csize E SzCodePath + (length (succs g b) - 2) * 8)"
  obtain f h st1 where new: "on_si (si_buf_get E ?len) st = Some (cp, st1)"
    and st': "st' = in_cg (upd_cp cp h) (in_cg (upd_cp cp f) st1)"
    using run by (auto simp: cfg_block_def code_path_new_def bind_splits)
  have "csize E SzCodePath \<le> 2 ^ 30" "length (succs g b) \<le> 2 ^ 30" using sz by (auto simp: cfg_sizes_def)
  then have "csize E SzCodePath + (length (succs g b) - 2) * 8 \<le> 9 * 2 ^ 30" by simp
  then have "len_ok ?len" by (simp add: len_ok_def src_buf_consts)
  then have 1: "dstep {} {} st st1 \<and> dinv E g G R st1" using get_step [OF inv new] by simp
  have 2: "dstep {} {} st (in_cg (upd_cp cp f) st1) \<and> dinv E g G R (in_cg (upd_cp cp f) st1)"
    by (rule frame_then [OF 1]) (simp add: cg_frame_step)
  show ?thesis unfolding st' by (rule frame_then [OF 2]) (simp add: cg_frame_step)
qed

lemma cfg_blocks_step:
  assumes "dinv E g G R st" "cfg_sizes E g"
    and "cfg_blocks m n E g fn cnt b bbs edges cps st = Some (bbs', edges', cps', st')"
  shows "dstep {} {} st st' \<and> dinv E g G R st'"
  using assms
proof (induction m arbitrary: b bbs edges cps st)
  case 0
  then show ?case by (auto split: if_splits)
next
  case (Suc m)
  show ?case
  proof (cases "b = NULL")
    case True
    then show ?thesis using Suc.prems by simp
  next
    case False
    obtain edges1 cp st1 where r: "cfg_block n E g fn cnt b edges st = Some (edges1, cp, st1)"
      and rest: "cfg_blocks m n E g fn cnt (tget g ''basic_block.next_bb'' b) (bbs @ [b]) edges1 (cps @ [cp]) st1 =
        Some (bbs', edges', cps', st')"
      using Suc.prems(3) False by (auto simp: bind_splits)
    show ?thesis
      by (rule frame_then [OF cfg_block_step [OF Suc.prems(1,2) r]]) (rule Suc.IH [OF _ Suc.prems(2) rest])
  qed
qed

lemma cfg_edges_step:
  "dinv E g G R st \<Longrightarrow> cfg_edges g bbs cps is st = Some st' \<Longrightarrow> dstep {} {} st st' \<and> dinv E g G R st'"
proof (induction "is" arbitrary: st)
  case Nil
  then show ?case by simp
next
  case (Cons i js)
  show ?case
  proof (cases "tget g ''basic_block.succs'' (bbs ! i) = NULL")
    case True
    then show ?thesis using Cons by simp
  next
    case False
    then obtain c where rest: "cfg_edges g bbs cps js (in_cg (upd_cp (cps ! i) (\<lambda>_. c)) st) = Some st'"
      using Cons.prems(2) by (auto simp: bind_splits Let_def)
    have "dstep {} {} st (in_cg (upd_cp (cps ! i) (\<lambda>_. c)) st) \<and> dinv E g G R (in_cg (upd_cp (cps ! i) (\<lambda>_. c)) st)"
      using cg_frame_step [OF Cons.prems(1)] by simp
    then show ?thesis by (rule frame_then [OF _ Cons.IH [OF _ rest]])
  qed
qed

lemma cfg_step:
  assumes inv: "dinv E g G R st" and sz: "cfg_sizes E g" "tget g ''cfg.x_n_basic_blocks'' cfg \<le> 2 ^ 30"
    and run: "cfg_detail n E g fn cfg st = Some st'"
  shows "dstep {} {} st st' \<and> dinv E g G R st'"
proof -
  let ?m = "tget g ''cfg.x_n_basic_blocks'' cfg"
  obtain p st1 bbs edges cps st2 st3 h where r1: "on_si (si_buf_get E (wrap64 (?m * 8))) st = Some (p, st1)"
    and r2: "cfg_blocks ?m n E g fn (tget g ''cfg.x_n_edges'' cfg) (tget g ''cfg.x_entry_block_ptr'' cfg) [] [] [] st1 =
      Some (bbs, edges, cps, st2)"
    and r3: "cfg_edges g bbs cps [0..<?m] st2 = Some st3"
    and st': "st' = in_cg (upd_fn fn h) st3"
    using run by (auto simp: cfg_detail_def Let_def bind_splits)
  have "?m * 8 \<le> 2 ^ 33" using sz(2) by simp
  then have "len_ok (wrap64 (?m * 8))" by (simp add: len_ok_def src_buf_consts)
  then have 1: "dstep {} {} st st1 \<and> dinv E g G R st1" using get_step [OF inv r1] by simp
  have 2: "dstep {} {} st st2 \<and> dinv E g G R st2" by (rule frame_then [OF 1]) (rule cfg_blocks_step [OF _ sz(1) r2])
  have 3: "dstep {} {} st st3 \<and> dinv E g G R st3" by (rule frame_then [OF 2]) (rule cfg_edges_step [OF _ r3])
  show ?thesis unfolding st' by (rule frame_then [OF 3]) (simp add: cg_frame_step)
qed

definition cfgs_small :: "trees \<Rightarrow> bool" where
  "cfgs_small g \<longleftrightarrow> (\<forall>cfg. tget g ''cfg.x_n_basic_blocks'' cfg \<le> 2 ^ 30)"

lemma function_step:
  assumes inv: "dinv E g G R st" and sz: "cfg_sizes E g" "cfgs_small g"
    and run: "get_function_detail n E W u g sn st = Some st'"
  shows "dstep {} {} st st' \<and> dinv E g G R st'"
proof -
  let ?b = "sn_sibuf sn st"
  obtain held st1 where r1: "on_si (sibuf_hold E W u ?b) st = Some (held, st1)"
    and rest: "(let node = sn_tree sn st1 in
        if \<not> has_cfg g node then Some (drop_at held u ?b st1)
         else do {
           let new_func = sn_data (h_sn (gb_si st1) sn);
           BUG_ON (new_func = NULL);
           (if fn_detailed (h_fn (gb_cg st1) new_func) then Some (drop_at held u ?b st1)
            else do {
              (t, st) \<leftarrow> type_detail n E W u g (tget g ''TREE_TYPE'' (tget g ''TREE_TYPE'' node)) st1;
              let st = in_cg (upd_fn new_func (\<lambda>f. f\<lparr>fn_ret_type := t\<rparr>)) st;
              st \<leftarrow> get_attributes n E g sn (tget g ''DECL_ATTRIBUTES'' node) st;
              st \<leftarrow> func_args n E W u g new_func (tget g ''DECL_ARGUMENTS'' node) st;
              st \<leftarrow> cfg_detail n E g new_func
                (tget g ''function.cfg'' (tget g ''DECL_STRUCT_FUNCTION'' node)) st;
              Some (drop_at held u ?b st)
            })
         }) = Some st'"
    using run by (cases "on_si (sibuf_hold E W u ?b) st") (auto simp: get_function_detail_def Let_def)
  note 1 = hold_step [OF inv r1]
  let ?node = "sn_tree sn st1" and ?fn = "sn_data (h_sn (gb_si st1) sn)"
  show ?thesis
  proof (cases "\<not> has_cfg g ?node \<or> fn_detailed (h_fn (gb_cg st1) ?fn)")
    case True
    then have "st' = drop_at held u ?b st1" using rest by (auto simp: Let_def bind_splits split: if_splits)
    then show ?thesis using frame_then [OF 1 drop_step] by simp
  next
    case False
    then obtain t st2 st4 st5 st6
      where r2: "type_detail n E W u g (tget g ''TREE_TYPE'' (tget g ''TREE_TYPE'' ?node)) st1 = Some (t, st2)"
      and r4: "get_attributes n E g sn (tget g ''DECL_ATTRIBUTES'' ?node)
        (in_cg (upd_fn ?fn (\<lambda>f. f\<lparr>fn_ret_type := t\<rparr>)) st2) = Some st4"
      and r5: "func_args n E W u g ?fn (tget g ''DECL_ARGUMENTS'' ?node) st4 = Some st5"
      and r6: "cfg_detail n E g ?fn (tget g ''function.cfg'' (tget g ''DECL_STRUCT_FUNCTION'' ?node)) st5 = Some st6"
      and st': "st' = drop_at held u ?b st6"
      using rest by (auto simp: Let_def bind_splits)
    have 2: "dstep {} {} st st2 \<and> dinv E g G R st2"
      by (rule frame_then [OF 1]) (use tw.detail_step [OF _ r2] in blast)
    let ?st3 = "in_cg (upd_fn ?fn (\<lambda>f. f\<lparr>fn_ret_type := t\<rparr>)) st2"
    have 3: "dstep {} {} st ?st3 \<and> dinv E g G R ?st3" by (rule frame_then [OF 2]) (simp add: cg_frame_step)
    have 4: "dstep {} {} st st4 \<and> dinv E g G R st4" by (rule frame_then [OF 3 attributes_step [OF _ r4]])
    have 5: "dstep {} {} st st5 \<and> dinv E g G R st5" by (rule frame_then [OF 4 func_args_step [OF _ r5]])
    have 6: "dstep {} {} st st6 \<and> dinv E g G R st6"
      by (rule frame_then [OF 5]) (rule cfg_step [OF _ sz(1) _ r6], use sz(2) in \<open>simp_all add: cfgs_small_def\<close>)
    show ?thesis unfolding st' by (rule frame_then [OF 6 drop_step])
  qed
qed

text \<open>A declaration, and the whole phase.\<close>

lemma detail_decl_step:
  assumes inv: "decl_inv E g st" and sz: "cfg_sizes E g" "cfgs_small g"
    and run: "detail_decl n E W u g buf i st = Some st'"
  shows "dstep {} (var_data (gb_si st)) st st' \<and> decl_inv E g st'"
proof -
  let ?ob = "gb_obj st (obj_at g buf i st)" and ?R = "var_data (gb_si st)"
  have i: "dinv E g {} ?R st" using inv by (simp add: decl_inv_def)
  have frame: "dstep {} ?R st st1 \<and> decl_inv E g st1" if "dstep {} {} st st1 \<and> dinv E g {} ?R st1" for st1
    using decl_inv_step [OF inv that] dstep_mono [OF conjunct1 [OF that]] by simp
  have same: "dstep {} {} st st \<and> dinv E g {} ?R st" using i by simp
  consider (out) "obj_out ?ob" | (var) "\<not> obj_out ?ob" "fo_is_global_var ?ob"
    | (func) "\<not> obj_out ?ob" "\<not> fo_is_global_var ?ob" "fo_is_function ?ob"
    | (other) "\<not> obj_out ?ob" "\<not> fo_is_global_var ?ob" "\<not> fo_is_function ?ob" by blast
  then show ?thesis
  proof cases
    case out
    then show ?thesis using run frame [OF same] by (simp add: detail_decl_def Let_def)
  next
    case other
    then show ?thesis using run frame [OF same] by (simp add: detail_decl_def Let_def)
  next
    case var
    then obtain sn st1 where r1: "get_var_sinode E W u g (fo_real_addr ?ob) False st = Some (sn, st1)"
      and r2: "(if sn = NULL then Some st1 else get_var_detail n E W u g sn st1) = Some st'"
      using run by (auto simp: detail_decl_def Let_def bind_splits)
    note v = var_sinode_in [OF r1]
    have 1: "dstep {} {} st st1 \<and> dinv E g {} ?R st1" using load_step [OF i v(1)] by simp
    note 2 = frame [OF 1]
    have si: "still (gb_si st) (gb_si st1)" using 1 by (simp add: dstep_def)
    show ?thesis
    proof (cases "sn = NULL")
      case True
      then show ?thesis using r2 2 by simp
    next
      case False
      then have "sn \<in> var_sns (gb_si st1)" using v(2) var_still(1) [OF si] by simp
      then have 3: "dstep {} ?R st1 st' \<and> decl_inv E g st'"
        using var_detail_step [of E g st1 sn n W u st'] 2 r2 False var_still(2) [OF si] by simp
      have "dstep {} ?R st st'" using dstep_trans [of "{}" "{}" st st1 "{}" ?R st'] 1 3 by simp
      then show ?thesis using 3 by simp
    qed
  next
    case func
    then obtain sn st1 where r1: "get_func_sinode E W u g (fo_real_addr ?ob) False st = Some (sn, st1)"
      and r2: "(if sn = NULL then Some st1 else get_function_detail n E W u g sn st1) = Some st'"
      using run by (auto simp: detail_decl_def Let_def bind_splits)
    have 1: "dstep {} {} st st1 \<and> dinv E g {} ?R st1" using load_step [OF i func_sinode_loads [OF r1]] by simp
    show ?thesis
    proof (cases "sn = NULL")
      case True
      then show ?thesis using r2 frame [OF 1] by simp
    next
      case False
      then have "get_function_detail n E W u g sn st1 = Some st'" using r2 by simp
      from frame [OF frame_then [OF 1 function_step [OF _ sz this]]] show ?thesis by simp
    qed
  qed
qed

lemma decl_objs_step:
  assumes inv: "decl_inv E g st" and sz: "cfg_sizes E g" "cfgs_small g"
    and run: "over_objs (detail_decl n E W u g buf) is st = Some st'"
  shows "dstep {} (var_data (gb_si st)) st st' \<and> decl_inv E g st'"
proof -
  let ?R = "var_data (gb_si st)" and ?f = "detail_decl n E W u g buf"
  let ?I = "\<lambda>st. decl_inv E g st \<and> var_data (gb_si st) = ?R"
  have step: "dstep {} ?R a b \<and> ?I b \<and> True" if "?I a" "?f i a = Some b" for i a b
  proof -
    have d: "dstep {} ?R a b \<and> decl_inv E g b"
      using detail_decl_step [OF conjunct1 [OF that(1)] sz that(2)] that(1) by simp
    then have "still (gb_si a) (gb_si b)" by (simp add: dstep_def)
    then show ?thesis using d that(1) var_still(2) by simp
  qed
  have "dstep {} ?R st st' \<and> ?I st' \<and> (\<forall>i \<in> set is. True)"
    by (rule over_objs_step [where f = ?f and I = ?I and Q = "\<lambda>_ _. True" and V = ?R, OF step _ _ run])
       (use inv in simp_all)
  then show ?thesis by blast
qed

subsection \<open>The phase\<close>

text \<open>
  C6. After phase 3 every type object of the file that was neither dropped nor replaced has a
  node, and it is set; every node that is set, of this file or an earlier one, is complete: its
  \<open>next\<close> is the node of the type pointed to or of the element, its children are one variable per
  field, in order, with the field's name and the node of its type, or one per enumerator with
  its value, its size is the tree's, and what it refers to is set again, cycles included. A
  variable marked as done has the node of its type, and nodes set before are as they were.
\<close>

theorem types_detailed:
  assumes inv: "dinv E g {} (var_data (gb_si st)) st" "vars_typed g st" and sz: "cfg_sizes E g" "cfgs_small g"
    and run: "do_get_detail n E W u g real_obj_cnt buf st = Some st'"
  shows "(\<forall>i < real_obj_cnt. obj_ready g buf i st') \<and> (\<forall>tn. is_set st' tn \<longrightarrow> tn_complete g st' tn) \<and>
    (\<forall>v \<in> var_data (gb_si st'). vn_detailed (h_vn (gb_cg st') v) \<longrightarrow> var_typed g st' v) \<and>
    (\<forall>tn. is_set st tn \<longrightarrow> h_tn (gb_cg st') tn = h_tn (gb_cg st) tn)"
proof -
  let ?R = "var_data (gb_si st)"
  obtain held st1 st2 st3 where r1: "on_si (sibuf_hold E W u buf) st = Some (held, st1)"
    and r2: "over_objs (detail_type n E W u g buf) [0..<real_obj_cnt] st1 = Some st2"
    and r3: "over_objs (detail_decl n E W u g buf) [0..<real_obj_cnt] st2 = Some st3"
    and st': "st' = drop_at held u buf st3"
    using run by (auto simp: do_get_detail_def bind_splits)
  have si: "var_data (gb_si b) = var_data (gb_si a)" if "dstep X V a b" for X V a b
    using that var_still(2) by (simp add: dstep_def)
  note 1 = hold_step [OF inv(1) r1]
  note 2 = type_objs_step [OF conjunct2 [OF 1] r2]
  have d2: "dstep {} {} st st2 \<and> dinv E g {} ?R st2" by (rule frame_then [OF 1]) (use 2 in blast)
  have i2: "decl_inv E g st2"
    by (rule decl_inv_step [OF _ d2]) (use inv in \<open>simp_all add: decl_inv_def\<close>)
  note 3 = decl_objs_step [OF i2 sz r3]
  have i3: "dinv E g {} (var_data (gb_si st3)) st3" using 3 by (simp add: decl_inv_def)
  note 4 = drop_step [OF i3, of held u buf, folded st']
  have i4: "decl_inv E g st'"
    by (rule decl_inv_step [OF conjunct2 [OF 3] 4]) simp
  have d: "dstep {} (var_data (gb_si st2)) st2 st'" using dstep_trans [OF conjunct1 [OF 3] conjunct1 [OF 4]] by simp
  have "obj_ready g buf i st'" if "i < real_obj_cnt" for i
    by (rule obj_ready_step [OF d dinv_low [OF conjunct2 [OF d2]]]) (use 2 that in simp)
  moreover have "tn_complete g st' tn" if "is_set st' tn" for tn
    using i4 that by (auto simp: decl_inv_def dinv_def)
  moreover have "h_tn (gb_cg st') tn = h_tn (gb_cg st) tn" if "is_set st tn" for tn
    using that d d2 by (simp add: dstep_def)
  ultimately show ?thesis using i4 by (auto simp: decl_inv_def vars_typed_def)
qed

text \<open>A pointer to an integer, both of them types without a name.\<close>

definition trees_ty :: trees where
  "trees_ty = trees0\<lparr>g_get := (\<lambda>m a. if m = ''TREE_TYPE'' \<and> a = 9000 then 9100
       else if m = ''TYPE_SIZE'' then 500 else if m = ''TYPE_SIZE_UNIT'' then (if a = 9000 then 500 else 501)
       else if m = ''TREE_INT_CST_LOW'' then (if a = 500 then 8 else 4)
       else if m = ''TYPE_PRECISION'' then 32 else 0),
     g_class := (\<lambda>_. tcc_type), t_type_code := (\<lambda>a. if a = 9000 then POINTER_TYPE else INTEGER_TYPE),
     t_num := (\<lambda>a. if a = 9000 then 10 else 9)\<rparr>"

definition ty_obj :: "addr \<Rightarrow> file_obj" where
  "ty_obj a = (gb_ob0 5064)\<lparr>fo_real_addr := (if a = 5000 then 9000 else 9100), fo_is_type := True\<rparr>"

definition ty_src :: src where
  "ty_src = rw_state\<lparr>h_sb := (\<lambda>b. (h_sb rw_state b)\<lparr>sb_objs := 5000, sb_payload := 7000,
     sb_file_types := Node Leaf 608 (Node Leaf 600 Leaf)\<rparr>)\<rparr>"

definition gbs_ty :: gbs where
  "gbs_ty = \<lparr>gb_cg = cg_ex\<lparr>cg_si := ty_src, h_tn := (\<lambda>a. type_node_init (if a = 600 then 9000 else 9100) 9)\<rparr>,
     gb_obj = ty_obj,
     gb_stn = (\<lambda>a. if a = 600 then \<lparr>stn_same_tc_root = Leaf, stn_type_code = 10, stn_node = 9000\<rparr>
       else if a = 608 then \<lparr>stn_same_tc_root = Leaf, stn_type_code = 9, stn_node = 9100\<rparr> else stn_zero)\<rparr>"

lemma ty_hold: "gb_si st = ty_src \<Longrightarrow> on_si (sibuf_hold E W 7 20) st = Some (1, st)" "drop_at 1 7 20 st = st"
proof -
  show "gb_si st = ty_src \<Longrightarrow> on_si (sibuf_hold E W 7 20) st = Some (1, st)"
    using hold_again [of ty_src 20 7 E W]
    by (simp add: on_si_def ty_src_def rw_state_def rw_sibuf_def resfile_zero_def) (simp add: set_si_def gb_si_def)
  show "drop_at 1 7 20 st = st" by (simp add: drop_at_def drop_if_def) (simp add: set_si_def gb_si_def)
qed

lemma ty_trees:
  "sb_file_types (h_sb ty_src b) = Node Leaf 608 (Node Leaf 600 Leaf)"
  "ptr_of (sibuf_typenode_search (gb_stn gbs_ty) (Node Leaf 608 (Node Leaf 600 Leaf)) 10 9000) = 600"
  "ptr_of (sibuf_typenode_search (gb_stn gbs_ty) (Node Leaf 608 (Node Leaf 600 Leaf)) 9 9100) = 608"
  "ptr_of (sibuf_typenode_search (gb_stn gbs_ty) (Node Leaf 608 (Node Leaf 600 Leaf)) tc a) \<le> 608"
proof -
  show "sb_file_types (h_sb ty_src b) = Node Leaf 608 (Node Leaf 600 Leaf)" by (simp add: ty_src_def)
qed (simp_all add: sibuf_typenode_search_def gbs_ty_def cmp_tc_def ptr_of_def sibuf_typenode_search_same_tc_def)

lemma ty_xnode:
  assumes "gb_si st = ty_src" "gb_stn st = gb_stn gbs_ty" "a = 9000 \<or> a = 9100"
  shows "get_type_xnode E W 7 trees_ty a st = Some ((NULL, if a = 9000 then 600 else 608), st)"
proof -
  have b: "find_target_sibuf ty_src a = 20"
    using assms(3) by (auto simp: find_target_sibuf_def ty_src_def rw_state_def in_sibuf_def rw_sibuf_def)
  have t: "get_type_name trees_ty a = Some []" "check_file_type trees_ty a = TYPE_DEFINED"
    "get_location trees_ty GET_LOC_TYPE p a = NULL" for p
    using assms(3) by (auto simp: get_type_name_def check_file_type_def get_location_def trees_ty_def)
  have p: "t_num trees_ty a = (if a = 9000 then 10 else 9)" by (simp add: trees_ty_def)
  have "xnode_at trees_ty 20 a st = Some (NULL, if a = 9000 then 600 else 608)"
    unfolding xnode_at_def t(1) assms(1,2) t(3) p
    using assms(3) ty_trees by (auto simp: xnode_search_def assms(2) assms(1) p)
  then show ?thesis
    using assms(1) by (simp add: get_type_xnode_def b t ty_hold Let_def)
qed

lemma ty_find:
  assumes "gb_si st = ty_src" "gb_stn st = gb_stn gbs_ty" "a = 9000 \<or> a = 9100"
  shows "find_type_node E W 7 trees_ty a st = Some (if a = 9000 then 600 else 608, st)"
  using ty_xnode [OF assms] by (simp add: find_type_node_def)

lemma ty_self:
  "\<exists>x. set_self trees_ty 9100 m = Some x \<and> tn_is_set x" "\<exists>x. set_self trees_ty 9000 m = Some x \<and> tn_is_set x"
  by (simp_all add: set_self_def trees_ty_def int_low_def type_sized_def Let_def)

lemma ty_int:
  assumes "gb_si st = ty_src" "gb_stn st = gb_stn gbs_ty" "\<not> is_set st 608"
  shows "\<exists>st'. type_detail (Suc n) E W 7 trees_ty 9100 st = Some (608, st') \<and> gb_si st' = ty_src \<and>
    gb_stn st' = gb_stn st \<and> gb_obj st' = gb_obj st \<and> is_set st' 608"
proof -
  obtain x where x: "set_self trees_ty 9100 (h_tn (gb_cg st) 608) = Some x" "tn_is_set x" using ty_self(1) by blast
  have "t_type_code trees_ty 9100 = INTEGER_TYPE" "g_class trees_ty (g_code trees_ty 9100) = tcc_type"
    by (simp_all add: trees_ty_def)
  then show ?thesis
    using x assms by (simp add: ty_find type_missed_def type_case_def type_has_next_def)
qed

lemma ty_pointer:
  assumes "gb_si st = ty_src" "gb_stn st = gb_stn gbs_ty" "\<not> is_set st 600" "\<not> is_set st 608"
  shows "\<exists>st'. type_detail 2 E W 7 trees_ty 9000 st = Some (600, st') \<and> gb_si st' = ty_src \<and>
    gb_stn st' = gb_stn st \<and> gb_obj st' = gb_obj st \<and> is_set st' 608"
proof -
  obtain x where x: "set_self trees_ty 9000 (h_tn (gb_cg st) 600) = Some x" "tn_is_set x" using ty_self(2) by blast
  let ?st1 = "in_cg (upd_tn 600 (\<lambda>_. x)) st"
  have 1: "gb_si ?st1 = ty_src" "gb_stn ?st1 = gb_stn gbs_ty" "\<not> is_set ?st1 608" using assms by simp_all
  obtain st2 where y: "type_detail (Suc 0) E W 7 trees_ty 9100 ?st1 = Some (608, st2)" "gb_si st2 = ty_src"
    "gb_stn st2 = gb_stn ?st1" "gb_obj st2 = gb_obj ?st1" "is_set st2 608" using ty_int [OF 1] by blast
  have t: "t_type_code trees_ty 9000 = POINTER_TYPE" "g_class trees_ty (g_code trees_ty 9000) = tcc_type"
    "tget trees_ty ''TREE_TYPE'' 9000 = 9100"
    by (simp_all add: trees_ty_def)
  have c: "type_case (Suc 0) (type_detail (Suc 0) E W 7 trees_ty) E trees_ty 9000 600 ?st1 =
      Some (in_cg (upd_tn 600 (\<lambda>x. x\<lparr>tn_next := 608\<rparr>)) st2)"
    by (simp add: type_case_def type_has_next_def t y(1) Let_def del: type_detail.simps)
  have "type_detail 2 E W 7 trees_ty 9000 st = Some (600, in_cg (upd_tn 600 (\<lambda>x. x\<lparr>tn_next := 608\<rparr>)) st2)"
    using assms x c unfolding numeral_2_eq_2
    by (simp add: type_detail.simps(2) [of "Suc 0"] t ty_find type_missed_def del: type_detail.simps)
  then show ?thesis using y by simp
qed

text \<open>The two loops over the objects 0 and 1.\<close>

lemma ty_loop:
  "\<exists>st'. over_objs (detail_type 2 E W 7 trees_ty 20) [0, 1] gbs_ty = Some st' \<and> gb_si st' = ty_src \<and>
    gb_obj st' = ty_obj"
proof -
  have g: "gb_si gbs_ty = ty_src" "gb_obj gbs_ty = ty_obj" "\<not> is_set gbs_ty 600" "\<not> is_set gbs_ty 608"
    "tn_node (h_tn (gb_cg gbs_ty) 600) = 9000"
    by (simp_all add: gbs_ty_def gb_si_def type_node_init_def)
  have at: "obj_at trees_ty 20 0 st = 5000" "obj_at trees_ty 20 1 st = 5064" if "gb_si st = ty_src" for st
    using that by (simp_all add: obj_at_def ty_src_def trees_ty_def trees0_def)
  have ob: "fo_is_type (ty_obj a)" "\<not> obj_out (ty_obj a)" "fo_real_addr (ty_obj 5000) = 9000"
    "fo_real_addr (ty_obj 5064) = 9100" for a
    by (simp_all add: ty_obj_def gb_ob0_def obj_out_def)
  obtain st1 where r: "type_detail 2 E W 7 trees_ty 9000 gbs_ty = Some (600, st1)"
    and st1: "gb_si st1 = ty_src" "gb_stn st1 = gb_stn gbs_ty" "gb_obj st1 = ty_obj" "is_set st1 608"
    using ty_pointer [OF g(1) refl g(3,4)] g(2) by auto
  have "detail_type 2 E W 7 trees_ty 20 0 gbs_ty = Some st1"
    using r g by (simp add: detail_type_def at ob ty_xnode get_type_detail_of_def Let_def)
  moreover have "detail_type 2 E W 7 trees_ty 20 1 st1 = Some st1"
    using st1 by (simp add: detail_type_def at ob ty_xnode Let_def del: One_nat_def)
  ultimately show ?thesis using st1 by (simp del: One_nat_def)
qed

lemma ty_runs: "\<exists>st'. do_get_detail 2 env0 (rw_world 2) 7 trees_ty 2 20 gbs_ty = Some st'"
proof -
  obtain st1 where r: "over_objs (detail_type 2 env0 (rw_world 2) 7 trees_ty 20) [0, 1] gbs_ty = Some st1"
    and st1: "gb_si st1 = ty_src" "gb_obj st1 = ty_obj" using ty_loop by blast
  have dd: "detail_decl 2 env0 (rw_world 2) 7 trees_ty 20 i st1 = Some st1" for i
    by (simp add: detail_decl_def st1 Let_def) (simp add: ty_obj_def gb_ob0_def obj_out_def)
  have "over_objs (detail_decl 2 env0 (rw_world 2) 7 trees_ty 20) [0, 1] st1 = Some st1" by (simp add: dd)
  moreover have "[0..<2] = [0 :: nat, 1]" by (simp add: upt_rec)
  moreover have "gb_si gbs_ty = ty_src" by (simp add: gbs_ty_def gb_si_def)
  ultimately show ?thesis using r by (simp add: do_get_detail_def ty_hold del: One_nat_def over_objs.simps)
qed

lemma ty_dinv: "dinv env0 trees_ty {} (var_data (gb_si gbs_ty)) gbs_ty" "vars_typed trees_ty gbs_ty"
proof -
  have si: "gb_si gbs_ty = ty_src" by (simp add: gbs_ty_def gb_si_def)
  have leaf: "si_by_spec ty_src t = Leaf" for t by (simp add: ty_src_def rw_state_def src0_def)
  have vd: "var_data ty_src = {}" by (simp add: var_data_def var_sns_def leaf)
  have none: "sinode_search_name_loc ty_src t lf line col nm = NULL" for t lf line col nm
    by (simp add: sinode_search_name_loc_def leaf ptr_of_def)
  have at: "xnode_at trees_ty b a gbs_ty = Some (sn, tn) \<Longrightarrow> sn = NULL \<and> tn \<le> 608" for b a sn tn
    using ty_trees(4)
    by (auto simp: none xnode_at_def xnode_search_def si ty_trees(1) bind_splits Let_def split: if_splits option.splits)
  have x: "xnode_of trees_ty a gbs_ty = Some (sn, tn) \<Longrightarrow> sn = NULL \<and> tn \<le> 608" for a sn tn
    using at by (auto simp: xnode_of_def Let_def bind_splits split: if_splits file_type.splits)
  have low: "t \<le> 608" if n: "node_of trees_ty a gbs_ty = Some t" for a t
  proof -
    obtain sn tn where r: "xnode_of trees_ty a gbs_ty = Some (sn, tn)" "t = (if sn \<noteq> NULL then sn_data (h_sn (gb_si gbs_ty) sn) else tn)"
      using n by (auto simp: node_of_def)
    then show ?thesis using x [OF r(1)] by simp
  qed
  have names: "names_inv ty_src" using names_inv_src0
    by (simp add: names_inv_def ty_src_def rw_state_def name_key_def [abs_def])
  have cur: "st_cur gbs_ty = 4294967296" by (simp add: si ty_src_def rw_state_def src0_def src_buf0_def src_buf_consts)
  show "dinv env0 trees_ty {} (var_data (gb_si gbs_ty)) gbs_ty"
    unfolding dinv_def cur unfolding si vd
  proof (intro conjI allI impI)
    show "detail_env env0" using env0_ok by (simp add: detail_env_def len_ok_def src_buf_consts)
    show "names_low ty_src" by (simp add: names_low_def leaf)
    show "t < 4294967296" if "node_of trees_ty a gbs_ty = Some t" for a t using low [OF that] by simp
    have "\<not> is_set gbs_ty tn \<and> tn_children (h_tn (gb_cg gbs_ty) tn) = []" for tn
      by (simp add: gbs_ty_def type_node_init_def)
    then show "if is_set gbs_ty tn then tn < 4294967296 \<and> (tn \<notin> {} \<longrightarrow> tn_complete trees_ty gbs_ty tn \<and>
        set (tn_children (h_tn (gb_cg gbs_ty) tn)) \<inter> {} = {}) else tn_children (h_tn (gb_cg gbs_ty) tn) = []" for tn
      by simp
  qed (use names in simp_all)
  show "vars_typed trees_ty gbs_ty" by (simp add: vars_typed_def si vd)
qed

theorem types_detailed_witness:
  "\<exists>st'. do_get_detail 2 env0 (rw_world 2) 7 trees_ty 2 20 gbs_ty = Some st' \<and>
     obj_ready trees_ty 20 0 st' \<and> obj_ready trees_ty 20 1 st' \<and> (\<forall>tn. is_set st' tn \<longrightarrow> tn_complete trees_ty st' tn)"
proof -
  obtain st' where r: "do_get_detail 2 env0 (rw_world 2) 7 trees_ty 2 20 gbs_ty = Some st'" using ty_runs by blast
  have "cfg_sizes env0 trees_ty" "cfgs_small trees_ty"
    by (simp_all add: cfg_sizes_def cfgs_small_def trees_ty_def bb_vec_def)
  from types_detailed [OF ty_dinv this r] show ?thesis using r by auto
qed

end
