(* ===== verification/Spec2Isabelle.thy ===== *)
theory Spec2Isabelle
  imports Src_Buf Sinode_Replace Call_Graph Mark_Entry Resfile_Hold Resfile_Layout Parse_Props
    Data_State_Find Data_State_Compute Staticchk Walk_Phase4
    Getdetail_Phase
begin

text \<open>
  A verification library for srcinv, a framework that collects the trees of compiled files
  into resfiles, analyses them into a project and searches the project for bugs.

  \<^bold>\<open>The program.\<close> The collectors (\<open>src/collect\<close>) run inside the compiler and append one record
  per compiled file, the file's objects with a table of them, to a resfile. The core
  (\<open>src/core\<close>) keeps the project, one \<open>struct src\<close> in a data region at a fixed address that is
  saved to disk and mapped again. The analysis (\<open>src/analysis\<close>) adds resfiles to the project,
  parses their records (sibufs) in phases with worker threads, each phase through the language
  module of the record (\<open>src/analysis/gcc\<close>), and so fills the indexes of named things
  (sinodes), their payload (functions, variables, types), the call graph and the lists of uses.
  The hacking part (\<open>src/hacking\<close>) runs statements of the project on runtime values, one sample
  set at a time, and reports what it finds. The parts share \<open>struct src\<close>; the helpers of
  \<open>src/include\<close> hold most of the operations on it.

  \<^bold>\<open>Common ground.\<close> Theory \<open>Prelude\<close> has 32- and 64-bit wrap-around on numbers, \<open>strcmp\<close>, searches
  in lists and options. \<open>Ext_Env\<close> is the record of clib, the kernel and \<open>sizeof\<close>: parameters, with
  \<open>env_ok\<close> stating what their documentation promises and \<open>env0\<close> an instance. An address is a
  number, a structure behind pointers is a record in a map from addresses (\<open>h_sn\<close>, \<open>h_sb\<close>,
  \<open>h_rf\<close>, \<dots>), an embedded list is a list of addresses, a red-black tree is a tree of them; a
  \<open>BUG_ON\<close> that fires, an access to freed memory or a call that never returns is \<open>None\<close>.

  \<^bold>\<open>The project.\<close>
  \<^item> \<open>Src_Buf\<close>: \<open>core/si_src.c\<close>, the region allocator and its file. Aligned, disjoint, ordered
    regions; when it aborts; the cursor survives saving and loading.
  \<^item> \<open>Si_Types\<close>: \<open>include/si_core.h\<close>, ids, enumerations and structures, and the state \<open>src\<close>.
  \<^item> \<open>Rb_Index\<close>: the walk that all search trees share, with the locale \<open>rb_index\<close>; interpreted for
    names, for sinodes by id and by specification, and for both levels of unnamed types.
  \<^item> \<open>Name_List\<close>: interned names of \<open>include/si_helper.h\<close>.
  \<^item> \<open>Sinode\<close>, with \<open>Sinode_Ids\<close>, \<open>_Inv\<close>, \<open>_Props\<close>, \<open>_Insert\<close>, \<open>_Replace\<close>: \<open>analysis/sinode.c\<close>; creation,
    insertion, replacement, search and iteration, the invariant of the indexes, exactness of
    the searches, and where ids wrap or a replacement goes wrong.
  \<^item> \<open>Sibuf\<close>: \<open>analysis/sibuf.c\<close>, users, lookup, and the tree of unnamed types as a finite map.
  \<^item> \<open>Use_Lists\<close>: the find-or-append lists of \<open>include/si_helper.h\<close>, with the locale \<open>find_append\<close>.
  \<^item> \<open>Call_Graph\<close>: function, variable and type nodes, uses and call edges; \<open>Mark_Entry\<close>:
    \<open>analysis/mark-entry.c\<close>, call depths, refined to shortest distances.

  \<^bold>\<open>Loading and parsing.\<close>
  \<^item> \<open>Resfile\<close>, \<open>Resfile_Hold\<close>, \<open>Resfile_Preview\<close>, \<open>Resfile_Layout\<close>: \<open>analysis/resfile.c\<close>. The account of
    loaded memory, the hold and drop bracket, the waiting loop and the race in it, the layout of
    a resfile in the address space, and the two readers of one record.
  \<^item> \<open>Parse\<close>, \<open>Parse_Phase\<close>, \<open>Parse_Props\<close>: \<open>analysis/parse.c\<close>. A phase is a step relation: the loop
    hands sibufs to slots, threads parse. Completeness, progress and lost errors.

  \<^bold>\<open>The trees of a compiled file.\<close> \<open>Gcc_Obj\<close> has the object table of \<open>analysis/gcc/c.cc\<close>, its
  searches and the two checks of an object; the layout of the structures of GCC is the record
  \<open>gcc\<close>. \<open>Walk_Steps\<close> has the steps a walker \<open>do_x(node, flag)\<close> is made of and their run;
  \<open>Walk_Lang\<close>, \<open>Walk_Gimple\<close>, \<open>Walk_Cfg\<close> and \<open>Walk_Tree\<close> have one definition per walker, of the
  same name. Both modes are there: the adjusting pass, which relocates pointers, and phase 4,
  which only reads. \<open>Walk_Rel\<close> proves for any table of walkers that a relation kept by the steps
  is kept by the walk, and that guarded walks end; \<open>Walk_Run\<close>, \<open>Walk_Props\<close>, \<open>Walk_Adjust\<close> and
  \<open>Walk_Phase4\<close> use it: the walks end, the adjusting pass adjusts each object once, phase 4
  changes nothing and visits everything there is to handle.

  \<^bold>\<open>Phase 2.\<close> \<open>Getbase\<close> has \<open>do_get_base\<close> of \<open>analysis/gcc/c.cc\<close> and the helpers of \<open>include/si_gcc.h\<close>:
  objects become sinodes or unnamed types. \<open>Getbase_Props\<close> decides conflicts and computes the
  names made for types, \<open>Getbase_Links\<close> shows what each operation keeps of the indexes, and
  \<open>Getbase_Found\<close> that whatever is recorded is found by the searches of the later phases.

  \<^bold>\<open>Running samples.\<close>
  \<^item> \<open>Data_State\<close>, with \<open>Data_State_Refs\<close>, \<open>_Copy\<close>, \<open>_Find\<close>, \<open>_Compute\<close>, \<open>_Lists\<close>: \<open>include/si_ds.h\<close> and
    \<open>analysis/data-state.c\<close>. Values as trees with counted references; the counts stay exact
    through copies and releases; searches by offset; comparison; the lists of data states.
  \<^item> \<open>Dsv_Flags\<close>: the verdict on every access to a value.
  \<^item> \<open>Sample\<close>, \<open>Sample_Props\<close>: \<open>analysis/sample.c\<close> and its helpers; release, comparison, entries, the
    detection of infinite loops.
  \<^item> \<open>Staticchk\<close>: \<open>hacking/staticchk.cc\<close>, \<open>analysis/dec.c\<close>, \<open>hacking/uaf.cc\<close>.

  \<^bold>\<open>Bounds and fuel.\<close> Recursion is structural or has a measure wherever the code's is bounded by
  its data: loops over lists, trees, call levels (\<open>mark_subcall_entry\<close>, by the distance to
  \<open>CALL_DEPTH_MAX\<close>). Where it is not, fuel is an argument. A walk over objects takes a depth, with
  the outcome \<open>Deep\<close> apart from \<open>Ret\<close> and \<open>Abort\<close>: one more than the number of objects not yet checked
  is always enough (\<open>walk_ends\<close>). The release and the copy of values follow references through
  the store; enough fuel is shown to exist by the number of live data states. The waiting loop of
  a load and the loop of the static checker may really run forever; what is said of their return
  is a theorem (\<open>sibuf_hold_returns\<close>) or left at the value \<open>None\<close>.
  Fields narrower than an \<open>int\<close> (ids of 28 and 4 bits, \<open>call_depth\<close> of 10, entry indexes of 8
  signed) are kept at their width.

  \<^bold>\<open>Not modelled.\<close>
  \<^item> \<open>src/collect\<close> and \<open>src/lib/gcc\<close>: plugin code and code taken over from GCC; nearly every line is
    about structures and macros of the compiler that the repository does not have.
  \<^item> \<open>analysis/gcc/asm.cc\<close> and, of \<open>analysis/gcc/c.cc\<close>, the phases that read meanings out of the
    trees (the payload of types, functions and variables, the marking of uses in phase 4, the
    interpretation of statements): phase 4 stops at what its handlers are called with.
  \<^item> Locks: the critical sections are single steps; where two threads can interleave between them
    (loading, phases) the interleaving is modelled.
  \<^item> Commands, printing, logging, signals, progress timers: no state of the project.
  \<^item> \<open>analysis/trace.c\<close> and \<open>analysis/sys-bootup.c\<close>, which have no code yet.
\<close>

end
